(* ===== verification/Ral_Prelude.thy ===== *)
theory Ral_Prelude
  imports Main "HOL-Library.FSet" "HOL-Library.Sublist" "HOL-Library.Char_ord"
    "HOL-Library.List_Lexorder" "HOL-Library.Product_Lexorder" "HOL-Library.Option_ord"
begin

text \<open>
  Shared vocabulary of the development: byte strings and the operations of the standard
  library that the sources apply to them, first-minimum search over an ordered iteration,
  and the collections of simplification rules the component theories fill.
\<close>

named_theorems evidence_simps \<open>pointwise readings of evidence operations\<close>
named_theorems order_keys \<open>definitions of the keys that derived orders compare by\<close>

section \<open>Byte strings\<close>

text \<open>
  A \<open>String\<close>, \<open>OsStr\<close> or \<open>PathBuf\<close> of a Unix host is a sequence of bytes; a character
  of HOL is one byte.
\<close>

type_synonym bytes = "char list"

definition byte_in :: "nat \<Rightarrow> nat \<Rightarrow> char \<Rightarrow> bool" where
  "byte_in lo hi c \<longleftrightarrow> lo \<le> of_char c \<and> of_char c \<le> hi"

definition is_ascii :: "bytes \<Rightarrow> bool" where
  "is_ascii s \<longleftrightarrow> list_all (byte_in 0 127) s"

definition ascii_lower :: "char \<Rightarrow> char" where
  "ascii_lower c = (if byte_in 65 90 c then char_of (of_char c + 32 :: nat) else c)"

definition to_ascii_lowercase :: "bytes \<Rightarrow> bytes" where
  "to_ascii_lowercase s = map ascii_lower s"

text \<open>
  \<open>std::str::from_utf8\<close> accepts exactly the well-formed UTF-8 byte sequences: shortest
  forms, no surrogate, nothing past U+10FFFF.
\<close>

fun utf8_ok :: "bytes \<Rightarrow> bool" where
  "utf8_ok [] = True"
| "utf8_ok (a # s) =
     (if byte_in 0 127 a then utf8_ok s
      else if byte_in 194 223 a then
        (case s of b # s' \<Rightarrow> byte_in 128 191 b \<and> utf8_ok s' | [] \<Rightarrow> False)
      else if byte_in 224 239 a then
        (case s of
           b # c # s' \<Rightarrow>
             byte_in (if of_char a = (224::nat) then 160 else 128)
                     (if of_char a = (237::nat) then 159 else 191) b
             \<and> byte_in 128 191 c \<and> utf8_ok s'
         | _ \<Rightarrow> False)
      else if byte_in 240 244 a then
        (case s of
           b # c # d # s' \<Rightarrow>
             byte_in (if of_char a = (240::nat) then 144 else 128)
                     (if of_char a = (244::nat) then 143 else 191) b
             \<and> byte_in 128 191 c \<and> byte_in 128 191 d \<and> utf8_ok s'
         | _ \<Rightarrow> False)
      else False)"

declare utf8_ok.simps(2) [simp del]

text \<open>
  \<open>to_string_lossy\<close>: each maximal prefix of a well-formed sequence that is not completed, and
  each byte that opens none, reads as U+FFFD.
\<close>

definition replacement :: bytes where
  "replacement = [CHR 0xEF, CHR 0xBF, CHR 0xBD]"

definition second_ok :: "char \<Rightarrow> char \<Rightarrow> bool" where
  "second_ok a b \<longleftrightarrow>
     byte_in (if of_char a = (224::nat) then 160 else if of_char a = (240::nat) then 144 else 128)
             (if of_char a = (237::nat) then 159 else if of_char a = (244::nat) then 143 else 191) b"

fun utf8_lossy :: "bytes \<Rightarrow> bytes" where
  "utf8_lossy [] = []"
| "utf8_lossy (a # s) =
     (if byte_in 0 127 a then a # utf8_lossy s
      else if byte_in 194 223 a then
        (case s of
           b # s' \<Rightarrow>
             if byte_in 128 191 b then a # b # utf8_lossy s' else replacement @ utf8_lossy s
         | [] \<Rightarrow> replacement)
      else if byte_in 224 239 a then
        (case s of
           b # s' \<Rightarrow>
             if second_ok a b then
               (case s' of
                  c # s'' \<Rightarrow>
                    if byte_in 128 191 c then a # b # c # utf8_lossy s''
                    else replacement @ utf8_lossy s'
                | [] \<Rightarrow> replacement)
             else replacement @ utf8_lossy s
         | [] \<Rightarrow> replacement)
      else if byte_in 240 244 a then
        (case s of
           b # s' \<Rightarrow>
             if second_ok a b then
               (case s' of
                  c # s'' \<Rightarrow>
                    if byte_in 128 191 c then
                      (case s'' of
                         d # s3 \<Rightarrow>
                           if byte_in 128 191 d then a # b # c # d # utf8_lossy s3
                           else replacement @ utf8_lossy s''
                       | [] \<Rightarrow> replacement)
                    else replacement @ utf8_lossy s'
                | [] \<Rightarrow> replacement)
             else replacement @ utf8_lossy s
         | [] \<Rightarrow> replacement)
      else replacement @ utf8_lossy s)"

declare utf8_lossy.simps(2) [simp del]

lemma is_ascii_Nil [simp]: "is_ascii []"
  by (simp add: is_ascii_def)

lemma is_ascii_Cons [simp]: "is_ascii (c # s) \<longleftrightarrow> byte_in 0 127 c \<and> is_ascii s"
  by (simp add: is_ascii_def)

lemma is_ascii_utf8_ok: "is_ascii s \<Longrightarrow> utf8_ok s"
  by (induction s) (auto simp: utf8_ok.simps(2))

lemma utf8_lossy_id: "utf8_ok s \<Longrightarrow> utf8_lossy s = s"
proof (induction s rule: utf8_ok.induct)
  case 1
  then show ?case by simp
next
  case (2 a s)
  note unfold = utf8_ok.simps(2) utf8_lossy.simps(2)
  consider "byte_in 0 127 a" | "\<not> byte_in 0 127 a" "byte_in 194 223 a"
    | "\<not> byte_in 0 127 a" "\<not> byte_in 194 223 a" "byte_in 224 239 a"
    | "\<not> byte_in 0 127 a" "\<not> byte_in 194 223 a" "\<not> byte_in 224 239 a" "byte_in 240 244 a"
    using "2.prems" by (auto simp: utf8_ok.simps(2) split: if_splits)
  then show ?case
  proof cases
    case 1
    then show ?thesis using 2 by (simp add: unfold)
  next
    case 2
    then obtain b s' where "s = b # s'" "byte_in 128 191 b" "utf8_ok s'"
      using "2.prems" by (auto simp: unfold split: list.splits)
    then show ?thesis using 2 "2.IH"(2) by (simp add: unfold)
  next
    case 3
    then obtain b c s' where s: "s = b # c # s'" "byte_in 128 191 c" "utf8_ok s'"
      "byte_in (if of_char a = (224::nat) then 160 else 128)
         (if of_char a = (237::nat) then 159 else 191) b"
      using "2.prems" by (auto simp: unfold split: list.splits)
    moreover have "of_char a \<noteq> (240::nat)" "of_char a \<noteq> (244::nat)"
      using 3 by (auto simp: byte_in_def)
    ultimately have "second_ok a b" by (auto simp: second_ok_def split: if_splits)
    with s 3 show ?thesis using "2.IH"(3) by (simp add: unfold)
  next
    case 4
    then obtain b c d s' where s: "s = b # c # d # s'" "byte_in 128 191 c" "byte_in 128 191 d"
      "utf8_ok s'"
      "byte_in (if of_char a = (240::nat) then 144 else 128)
         (if of_char a = (244::nat) then 143 else 191) b"
      using "2.prems" by (auto simp: unfold split: list.splits)
    moreover have "of_char a \<noteq> (224::nat)" "of_char a \<noteq> (237::nat)"
      using 4 by (auto simp: byte_in_def)
    ultimately have "second_ok a b" by (auto simp: second_ok_def split: if_splits)
    with s 4 show ?thesis using "2.IH"(4) by (simp add: unfold)
  qed
qed

text \<open>A number printed in decimal.\<close>

fun decimal :: "nat \<Rightarrow> bytes" where
  "decimal n =
     (if n < 10 then [] else decimal (n div 10)) @ [char_of (48 + n mod 10)]"

declare decimal.simps [simp del]

section \<open>First minimum\<close>

text \<open>
  \<open>Iterator::min_by_key\<close> answers the first element, in iteration order, whose key is least.
\<close>

fun min_by_key :: "('a \<Rightarrow> 'k::linorder) \<Rightarrow> 'a list \<Rightarrow> 'a option" where
  "min_by_key f [] = None"
| "min_by_key f (x # xs) =
     (case min_by_key f xs of
        None \<Rightarrow> Some x
      | Some y \<Rightarrow> if f x \<le> f y then Some x else Some y)"

lemma min_by_key_None_iff [simp]: "min_by_key f xs = None \<longleftrightarrow> xs = []"
  by (cases xs) (auto split: option.splits)

lemma min_by_key_in: "min_by_key f xs = Some x \<Longrightarrow> x \<in> set xs"
  by (induction xs arbitrary: x) (auto split: option.splits if_splits)

lemma min_by_key_le: "min_by_key f xs = Some x \<Longrightarrow> y \<in> set xs \<Longrightarrow> f x \<le> f y"
proof (induction xs arbitrary: x y)
  case Nil
  then show ?case by simp
next
  case (Cons a xs)
  show ?case
  proof (cases "min_by_key f xs")
    case None
    with Cons.prems show ?thesis by auto
  next
    case (Some b)
    with Cons show ?thesis by (fastforce split: if_splits)
  qed
qed

lemma min_by_key_first:
  "min_by_key f xs = Some x \<Longrightarrow> \<exists>ys zs. xs = ys @ x # zs \<and> (\<forall>y\<in>set ys. f x < f y)"
proof (induction xs arbitrary: x)
  case Nil
  then show ?case by simp
next
  case (Cons a xs)
  show ?case
  proof (cases "x = a \<and> (min_by_key f xs = None \<or> (\<exists>y. min_by_key f xs = Some y \<and> f a \<le> f y))")
    case True
    then show ?thesis by fastforce
  next
    case False
    then have "min_by_key f xs = Some x" "f x < f a"
      using Cons.prems by (auto split: option.splits if_splits)
    with Cons.IH obtain ys zs where "xs = ys @ x # zs" "\<forall>y\<in>set ys. f x < f y" by blast
    then have "a # xs = (a # ys) @ x # zs \<and> (\<forall>y\<in>set (a # ys). f x < f y)"
      using \<open>f x < f a\<close> by simp
    then show ?thesis by blast
  qed
qed

text \<open>\<open>Iterator::reduce\<close>: the elements combined from the left, the first standing alone.\<close>

fun reduce_with :: "('a \<Rightarrow> 'a \<Rightarrow> 'a) \<Rightarrow> 'a list \<Rightarrow> 'a option" where
  "reduce_with f [] = None"
| "reduce_with f (x # xs) = Some (foldl f x xs)"

lemma reduce_with_None_iff [simp]: "reduce_with f xs = None \<longleftrightarrow> xs = []"
  by (cases xs) auto

lemma reduce_with_snoc:
  "reduce_with f (xs @ [x]) =
     Some (case reduce_with f xs of None \<Rightarrow> x | Some acc \<Rightarrow> f acc x)"
  by (cases xs) auto

text \<open>\<open>max_by_key\<close> answers the last element whose key is greatest.\<close>

fun max_by_key :: "('a \<Rightarrow> 'k::linorder) \<Rightarrow> 'a list \<Rightarrow> 'a option" where
  "max_by_key f [] = None"
| "max_by_key f (x # xs) =
     (case max_by_key f xs of
        None \<Rightarrow> Some x
      | Some y \<Rightarrow> if f x \<le> f y then Some y else Some x)"

lemma max_by_key_None_iff [simp]: "max_by_key f xs = None \<longleftrightarrow> xs = []"
  by (cases xs) (auto split: option.splits)

lemma max_by_key_in: "max_by_key f xs = Some x \<Longrightarrow> x \<in> set xs"
  by (induction xs arbitrary: x) (auto split: option.splits if_splits)

section \<open>Lists and prefixes\<close>

lemma prefix_linear: "prefix xs zs \<Longrightarrow> prefix ys zs \<Longrightarrow> prefix xs ys \<or> prefix ys xs"
  by (metis prefix_same_cases)

lemma prefix_append_right: "prefix xs ys \<Longrightarrow> prefix xs (ys @ zs)"
  by (rule prefix_prefix)

lemma map_filter_set: "y \<in> set (List.map_filter f xs) \<longleftrightarrow> (\<exists>x\<in>set xs. f x = Some y)"
  by (induction xs) (auto simp: List.map_filter_simps split: option.splits)

lemma map_filter_Nil_iff: "List.map_filter f xs = [] \<longleftrightarrow> (\<forall>x\<in>set xs. f x = None)"
  by (induction xs) (auto simp: List.map_filter_simps split: option.splits)

lemma find_Some_iff_ex: "List.find P xs \<noteq> None \<longleftrightarrow> (\<exists>x\<in>set xs. P x)"
  by (auto simp: find_None_iff)

lemma find_SomeD: "List.find P xs = Some x \<Longrightarrow> x \<in> set xs \<and> P x"
  by (auto simp: find_Some_iff)

section \<open>Results\<close>

text \<open>\<open>Result<T, E>\<close> is \<open>'e + 't\<close>: \<open>Inl\<close> the error, \<open>Inr\<close> the value.\<close>

fun is_ok :: "'e + 'a \<Rightarrow> bool" where
  "is_ok (Inl _) = False"
| "is_ok (Inr _) = True"

lemma is_ok_iff: "is_ok r \<longleftrightarrow> (\<exists>x. r = Inr x)"
  by (cases r) auto

lemma is_ok_unit_iff [simp]: "is_ok r \<longleftrightarrow> r = Inr ()" for r :: "'e + unit"
  by (cases r) auto

end
