(* ===== verification/Path_Names.thy ===== *)
theory Path_Names
  imports Ral_Prelude
begin

text \<open>
  Names and positions (\<open>core/src/path/walk/names.rs\<close>, \<open>core/src/path/rules.rs\<close> and the
  \<open>RealPath\<close> of \<open>core/src/path/walk/trace.rs\<close>): entry names and the rules a refused name
  breaks, the split of a spelling into its root and names, and absolute positions with the
  check their wire form passes.  The host is a Unix one, as \<open>PathRules::HOST\<close> is there;
  \<open>std::path\<close>'s reading of a path as components is the standard library's on Unix.
\<close>

section \<open>Path rules\<close>

datatype path_rules = Posix | Windows

definition HOST :: path_rules where
  "HOST = Posix"

definition is_separator :: "path_rules \<Rightarrow> char \<Rightarrow> bool" where
  "is_separator r c \<longleftrightarrow> c = CHR ''/'' \<or> (r = Windows \<and> c = CHR 0x5C)"

lemma is_separator_HOST [simp]: "is_separator HOST c \<longleftrightarrow> c = CHR ''/''"
  by (simp add: is_separator_def HOST_def)

section \<open>Entry names\<close>

datatype name_rule = Empty | Dots | Separator | Stream

datatype not_an_entry_name = NotAnEntryName (refused_name: bytes) (broken: name_rule)

definition broken_rule :: "bytes \<Rightarrow> name_rule option" where
  "broken_rule b =
     (if b = [] then Some Empty
      else if b = ''.'' \<or> b = ''..'' then Some Dots
      else if list_ex (is_separator HOST) b then Some Separator
      else if HOST = Windows \<and> CHR '':'' \<in> set b then Some Stream
      else None)"

typedef entry_name = "{b. broken_rule b = None}"
  morphisms os_str EntryName
  by (rule exI [of _ "''a''"]) (simp add: broken_rule_def HOST_def is_separator_def)

definition EntryName_parse :: "bytes \<Rightarrow> not_an_entry_name + entry_name" where
  "EntryName_parse b =
     (case broken_rule b of
        None \<Rightarrow> Inr (EntryName b)
      | Some r \<Rightarrow> Inl (NotAnEntryName b r))"

lemma broken_rule_None_iff:
  "broken_rule b = None \<longleftrightarrow>
     b \<noteq> [] \<and> b \<noteq> ''.'' \<and> b \<noteq> ''..'' \<and> CHR ''/'' \<notin> set b"
  by (auto simp: broken_rule_def HOST_def is_separator_def list_ex_iff)

lemma broken_rule_os_str [simp]: "broken_rule (os_str n) = None"
  using os_str [of n] by simp

lemma os_str_ok: "os_str n \<noteq> []" "os_str n \<noteq> ''.''" "os_str n \<noteq> ''..''"
    "CHR ''/'' \<notin> set (os_str n)"
  using broken_rule_os_str [of n] unfolding broken_rule_None_iff by auto

lemma os_str_EntryName: "broken_rule b = None \<Longrightarrow> os_str (EntryName b) = b"
  by (rule EntryName_inverse) simp

declare os_str_inverse [simp]

lemma EntryName_parse_Inr: "EntryName_parse b = Inr n \<longleftrightarrow> b = os_str n"
  by (auto simp: EntryName_parse_def os_str_EntryName split: option.splits)

lemma EntryName_parse_os_str [simp]: "EntryName_parse (os_str n) = Inr n"
  by (simp add: EntryName_parse_Inr)

text \<open>The derived order of \<open>EntryName\<close> is the order of its bytes.\<close>

instantiation entry_name :: linorder
begin

definition less_eq_entry_name :: "entry_name \<Rightarrow> entry_name \<Rightarrow> bool" where
  "less_eq_entry_name a b \<longleftrightarrow> os_str a \<le> os_str b"

definition less_entry_name :: "entry_name \<Rightarrow> entry_name \<Rightarrow> bool" where
  "less_entry_name a b \<longleftrightarrow> os_str a < os_str b"

instance
  by standard
    (auto simp: less_eq_entry_name_def less_entry_name_def os_str_inject [symmetric])

end

section \<open>Paths as the standard library reads them\<close>

datatype component = RootDir | CurDir | ParentDir | Normal bytes

fun component_str :: "component \<Rightarrow> bytes" where
  "component_str RootDir = ''/''"
| "component_str CurDir = ''.''"
| "component_str ParentDir = ''..''"
| "component_str (Normal n) = n"

fun split_slash :: "bytes \<Rightarrow> bytes list" where
  "split_slash [] = [[]]"
| "split_slash (c # s) =
     (if c = CHR ''/'' then [] # split_slash s
      else (case split_slash s of
              w # ws \<Rightarrow> (c # w) # ws
            | [] \<Rightarrow> [[c]]))"

definition component_of :: "bytes \<Rightarrow> component option" where
  "component_of w =
     (if w = [] \<or> w = ''.'' then None
      else if w = ''..'' then Some ParentDir
      else Some (Normal w))"

definition is_absolute :: "bytes \<Rightarrow> bool" where
  "is_absolute p \<longleftrightarrow> (case p of c # _ \<Rightarrow> c = CHR ''/'' | [] \<Rightarrow> False)"

definition components :: "bytes \<Rightarrow> component list" where
  "components p =
     (if is_absolute p then [RootDir]
      else if hd (split_slash p) = ''.'' then [CurDir] else [])
     @ List.map_filter component_of (split_slash p)"

definition path_starts_with :: "bytes \<Rightarrow> bytes \<Rightarrow> bool" where
  "path_starts_with p q \<longleftrightarrow> prefix (components q) (components p)"

text \<open>\<open>PathBuf::push\<close>: an absolute path replaces, anything else is joined by one separator.\<close>

definition path_push :: "bytes \<Rightarrow> bytes \<Rightarrow> bytes" where
  "path_push base p =
     (if is_absolute p then p
      else if base = [] \<or> last base = CHR ''/'' then base @ p
      else base @ CHR ''/'' # p)"

lemma split_slash_no_slash: "CHR ''/'' \<notin> set w \<Longrightarrow> split_slash w = [w]"
  by (induction w) auto

lemma split_slash_append:
  "CHR ''/'' \<notin> set w \<Longrightarrow> split_slash (w @ CHR ''/'' # s) = w # split_slash s"
  by (induction w) auto

lemma component_of_os_str [simp]: "component_of (os_str n) = Some (Normal (os_str n))"
  by (simp add: component_of_def os_str_ok)

lemma is_absolute_os_str [simp]: "\<not> is_absolute (os_str n)"
  using os_str_ok(4) [of n] by (auto simp: is_absolute_def split: list.splits)

lemma last_os_str: "last (os_str n) \<noteq> CHR ''/''"
  using os_str_ok [of n] by (metis last_in_set)

section \<open>Roots, spellings and positions\<close>

text \<open>
  The root of a Unix spelling is \<open>/\<close>, whatever number of separators opens it: the one
  \<open>RootName\<close> there is.
\<close>

datatype root_name = RootName

fun root_path :: "root_name \<Rightarrow> bytes" where
  "root_path RootName = ''/''"

datatype origin = Spelled | Spliced

datatype walk_name = Entry entry_name origin | Parent

fun spliced :: "walk_name \<Rightarrow> walk_name" where
  "spliced (Entry name _) = Entry name Spliced"
| "spliced Parent = Parent"

record spelling =
  root :: "root_name option"
  names :: "walk_name list"

text \<open>Every error of this file is an \<open>io::Error\<close> of kind \<open>InvalidInput\<close>, by its cause.\<close>

datatype path_error =
    RelativeName
  | UnparsedHead
  | NotEntry not_an_entry_name
  | MoreThanRoot bytes
  | NoRoot
  | HoldsParent bytes
  | NotAsWalked bytes

definition is_unparsed_head :: "bytes \<Rightarrow> bool" where
  "is_unparsed_head p \<longleftrightarrow> HOST = Windows \<and> is_absolute p"

definition rooted :: "bytes \<Rightarrow> path_error + unit" where
  "rooted p =
     (if \<not> is_absolute p then Inl RelativeName
      else if is_unparsed_head p then Inl UnparsedHead
      else Inr ())"

fun split_components ::
  "component list \<Rightarrow> bytes \<Rightarrow> walk_name list \<Rightarrow> path_error + (bytes \<times> walk_name list)"
where
  "split_components [] r ns = Inr (r, ns)"
| "split_components (RootDir # cs) r ns = split_components cs (path_push r ''/'') ns"
| "split_components (CurDir # cs) r ns = split_components cs r ns"
| "split_components (ParentDir # cs) r ns = split_components cs r (ns @ [Parent])"
| "split_components (Normal name # cs) r ns =
     (case EntryName_parse name of
        Inl e \<Rightarrow> Inl (NotEntry e)
      | Inr n \<Rightarrow> split_components cs r (ns @ [Entry n Spelled]))"

definition split :: "bytes \<Rightarrow> path_error + spelling" where
  "split p =
     (case split_components (components p) [] [] of
        Inl e \<Rightarrow> Inl e
      | Inr (r, ns) \<Rightarrow>
          Inr \<lparr>root = (if r = [] then None else Some RootName), names = ns\<rparr>)"

definition RootName_parse :: "bytes \<Rightarrow> path_error + root_name" where
  "RootName_parse raw =
     (case rooted raw of
        Inl e \<Rightarrow> Inl e
      | Inr _ \<Rightarrow>
          (case split raw of
             Inl e \<Rightarrow> Inl e
           | Inr s \<Rightarrow>
               (case root s of
                  Some r \<Rightarrow> if names s = [] then Inr r else Inl (MoreThanRoot raw)
                | None \<Rightarrow> Inl (MoreThanRoot raw))))"

text \<open>
  A position: absolute, no link, \<open>.\<close> or \<open>..\<close> in it.  The source keeps the assembled path; it
  is determined by the names below the one root, so the names are the representation.
\<close>

datatype real_path = RealPath (real_names: "entry_name list")

definition as_path :: "real_path \<Rightarrow> bytes" where
  "as_path r = foldl path_push (root_path RootName) (map os_str (real_names r))"

fun assemble :: "root_name \<Rightarrow> entry_name list \<Rightarrow> real_path" where
  "assemble RootName ns = RealPath ns"

fun entries :: "bytes \<Rightarrow> walk_name list \<Rightarrow> path_error + entry_name list" where
  "entries raw [] = Inr []"
| "entries raw (Entry n _ # ns) =
     (case entries raw ns of Inl e \<Rightarrow> Inl e | Inr rest \<Rightarrow> Inr (n # rest))"
| "entries raw (Parent # ns) = Inl (HoldsParent raw)"

definition RealPath_parse :: "bytes \<Rightarrow> path_error + real_path" where
  "RealPath_parse raw =
     (case rooted raw of
        Inl e \<Rightarrow> Inl e
      | Inr _ \<Rightarrow>
          (case split raw of
             Inl e \<Rightarrow> Inl e
           | Inr s \<Rightarrow>
               (case root s of
                  None \<Rightarrow> Inl NoRoot
                | Some r \<Rightarrow>
                    (case entries raw (names s) of
                       Inl e \<Rightarrow> Inl e
                     | Inr ns \<Rightarrow>
                         let real = assemble r ns in
                         if as_path real \<noteq> raw then Inl (NotAsWalked raw) else Inr real))))"

definition child :: "real_path \<Rightarrow> entry_name \<Rightarrow> real_path" where
  "child r n = RealPath (real_names r @ [n])"

text \<open>The final component where it is Unicode; a root has none.\<close>

definition real_name :: "real_path \<Rightarrow> bytes option" where
  "real_name r =
     (if real_names r = [] then None
      else let b = os_str (last (real_names r)) in if utf8_ok b then Some b else None)"

definition real_parent :: "real_path \<Rightarrow> real_path option" where
  "real_parent r =
     (if real_names r = [] then None else Some (RealPath (butlast (real_names r))))"

definition is_root :: "real_path \<Rightarrow> bool" where
  "is_root r \<longleftrightarrow> real_parent r = None"

definition universal :: real_path where
  "universal = RealPath []"

definition is_universal :: "real_path \<Rightarrow> bool" where
  "is_universal r \<longleftrightarrow> HOST = Posix \<and> is_root r"

lemma is_universal_iff [simp]: "is_universal r \<longleftrightarrow> r = RealPath []"
  by (cases r) (auto simp: is_universal_def HOST_def is_root_def real_parent_def)

text \<open>\<open>PathBuf\<close> compares component by component.\<close>

instantiation real_path :: linorder
begin

definition less_eq_real_path :: "real_path \<Rightarrow> real_path \<Rightarrow> bool" where
  "less_eq_real_path a b \<longleftrightarrow> real_names a \<le> real_names b"

definition less_real_path :: "real_path \<Rightarrow> real_path \<Rightarrow> bool" where
  "less_real_path a b \<longleftrightarrow> real_names a < real_names b"

instance
  by standard
    (auto simp: less_eq_real_path_def less_real_path_def real_path.expand)

end

section \<open>Rendering and reading back\<close>

lemma foldl_path_push:
  assumes "base \<noteq> []"
  shows "foldl path_push base (map os_str (n # ns)) =
           (if last base = CHR ''/'' then base else base @ ''/'')
           @ os_str n @ concat (map (\<lambda>m. CHR ''/'' # os_str m) ns)"
  using assms
proof (induction ns arbitrary: base n)
  case Nil
  then show ?case by (simp add: path_push_def)
next
  case (Cons m ns)
  let ?b = "path_push base (os_str n)"
  have b: "?b = (if last base = CHR ''/'' then base else base @ ''/'') @ os_str n"
    using Cons.prems by (simp add: path_push_def)
  have l: "?b \<noteq> []" "last ?b \<noteq> CHR ''/''"
    using os_str_ok [of n] last_os_str [of n] by (simp_all add: b)
  have "foldl path_push base (map os_str (n # m # ns)) =
          foldl path_push ?b (map os_str (m # ns))" by simp
  also have "\<dots> = ?b @ ''/'' @ os_str m @ concat (map (\<lambda>m. CHR ''/'' # os_str m) ns)"
    using Cons.IH [OF l(1), of m] l(2) by simp
  finally show ?case by (simp add: b)
qed

lemma as_path_Nil [simp]: "as_path (RealPath []) = ''/''"
  by (simp add: as_path_def)

lemma as_path_Cons:
  "as_path (RealPath (n # ns)) = concat (map (\<lambda>m. CHR ''/'' # os_str m) (n # ns))"
  using foldl_path_push [of "''/''" n ns] by (simp add: as_path_def)

lemma as_path_concat:
  "ns \<noteq> [] \<Longrightarrow> as_path (RealPath ns) = concat (map (\<lambda>m. CHR ''/'' # os_str m) ns)"
  by (cases ns) (auto simp: as_path_Cons)

lemma split_slash_concat:
  "split_slash (concat (map (\<lambda>m. CHR ''/'' # os_str m) ns)) = [] # map os_str ns"
proof (induction ns)
  case Nil
  then show ?case by simp
next
  case (Cons n ns)
  show ?case
  proof (cases ns)
    case Nil
    then show ?thesis by (simp add: split_slash_no_slash os_str_ok)
  next
    case (Cons m ms)
    have "split_slash (os_str n @ concat (map (\<lambda>m. CHR ''/'' # os_str m) ns))
            = os_str n # tl (split_slash (concat (map (\<lambda>m. CHR ''/'' # os_str m) ns)))"
      by (simp add: Cons split_slash_append os_str_ok)
    then show ?thesis using Cons.IH by simp
  qed
qed

lemma map_filter_os_str: "List.map_filter component_of (map os_str ns) = map (Normal \<circ> os_str) ns"
  by (induction ns) (auto simp: List.map_filter_simps)

lemma is_absolute_as_path [simp]: "is_absolute (as_path r)"
  by (cases r; cases "real_names r") (auto simp: as_path_Cons is_absolute_def)

lemma components_as_path:
  "components (as_path (RealPath ns)) = RootDir # map (Normal \<circ> os_str) ns"
proof (cases ns)
  case Nil
  then show ?thesis
    by (simp add: components_def is_absolute_def component_of_def List.map_filter_simps)
next
  case (Cons n ms)
  have "split_slash (as_path (RealPath ns)) = [] # map os_str ns"
    by (simp only: Cons as_path_Cons split_slash_concat)
  moreover have "component_of [] = None" by (simp add: component_of_def)
  ultimately show ?thesis
    by (simp add: components_def List.map_filter_simps map_filter_os_str del: comp_apply)
qed

lemma split_components_names:
  "split_components (map (Normal \<circ> os_str) ns) r acc = Inr (r, acc @ map (\<lambda>n. Entry n Spelled) ns)"
  by (induction ns arbitrary: acc) auto

lemma split_as_path:
  "split (as_path (RealPath ns)) =
     Inr \<lparr>root = Some RootName, names = map (\<lambda>n. Entry n Spelled) ns\<rparr>"
  by (simp add: split_def components_as_path split_components_names path_push_def is_absolute_def
      del: comp_apply)

lemma entries_map: "entries raw (map (\<lambda>n. Entry n Spelled) ns) = Inr ns"
  by (induction ns) auto

lemma rooted_iff: "rooted p = Inr () \<longleftrightarrow> is_absolute p"
  by (simp add: rooted_def is_unparsed_head_def HOST_def)

lemma RealPath_parse_as_path [simp]: "RealPath_parse (as_path r) = Inr r"
proof -
  obtain ns where r: "r = RealPath ns" by (cases r)
  have "rooted (as_path r) = Inr ()" by (simp add: rooted_iff)
  then show ?thesis
    by (simp add: RealPath_parse_def r split_as_path entries_map Let_def)
qed

lemma RealPath_parse_Inr: "RealPath_parse raw = Inr r \<longleftrightarrow> raw = as_path r"
proof
  show "RealPath_parse raw = Inr r \<Longrightarrow> raw = as_path r"
    by (auto simp: RealPath_parse_def Let_def split: sum.splits option.splits if_splits)
qed simp

lemma as_path_inject [simp]: "as_path a = as_path b \<longleftrightarrow> a = b"
  by (metis RealPath_parse_as_path sum.inject(2))

lemma as_path_child: "as_path (child r n) = path_push (as_path r) (os_str n)"
  by (simp add: as_path_def child_def)

lemma starts_with_as_path:
  "path_starts_with (as_path (RealPath p)) (as_path (RealPath q)) \<longleftrightarrow> prefix q p"
proof -
  have "inj (Normal \<circ> os_str)" by (auto simp: inj_def os_str_inject)
  then have "prefix (map (Normal \<circ> os_str) q) (map (Normal \<circ> os_str) p) \<longleftrightarrow> prefix q p"
    by (metis inj_map_eq_map map_append map_mono_prefix prefix_def append_eq_map_conv)
  then show ?thesis by (simp only: path_starts_with_def components_as_path prefix_Cons) auto
qed

end
