(* ===== verification/Path_Trace.thy ===== *)
theory Path_Trace
  imports Path_Names "HOL-Library.Word"
begin

text \<open>
  The transcript of a walk (\<open>core/src/path/walk/trace.rs\<close>) and what an exclusion holds
  (\<open>core/src/path/walk/exclusion.rs\<close>): object identities, steps, traces with the check a trace
  passes when it is read off the wire, holds and exclusions.  The derived orders are the
  lexicographic ones on the fields in declaration order.  The open file of a hold is not part
  of its value (equality, order and the wire form of a \<open>Hold\<close> are its trace's), so it is not
  modelled, and neither is taking hold of an object again.
\<close>

section \<open>Identities, kinds and steps\<close>

datatype object_id = ObjectId (dev: "64 word") (ino: "64 word")

definition same_volume :: "object_id \<Rightarrow> object_id \<Rightarrow> bool" where
  "same_volume a b \<longleftrightarrow> dev a = dev b"

instantiation object_id :: linorder
begin

definition less_eq_object_id :: "object_id \<Rightarrow> object_id \<Rightarrow> bool" where
  "less_eq_object_id a b \<longleftrightarrow> (dev a, ino a) \<le> (dev b, ino b)"

definition less_object_id :: "object_id \<Rightarrow> object_id \<Rightarrow> bool" where
  "less_object_id a b \<longleftrightarrow> (dev a, ino a) < (dev b, ino b)"

instance
  by standard
    (auto simp: less_eq_object_id_def less_object_id_def intro: object_id.expand)

end

datatype kind = File | Dir | Symlink | Other

fun kind_rank :: "kind \<Rightarrow> nat" where
  "kind_rank File = 0"
| "kind_rank Dir = 1"
| "kind_rank Symlink = 2"
| "kind_rank Other = 3"

lemma kind_rank_inject [simp]: "kind_rank a = kind_rank b \<longleftrightarrow> a = b"
  by (cases a; cases b) auto

instantiation kind :: linorder
begin

definition less_eq_kind :: "kind \<Rightarrow> kind \<Rightarrow> bool" where
  "less_eq_kind a b \<longleftrightarrow> kind_rank a \<le> kind_rank b"

definition less_kind :: "kind \<Rightarrow> kind \<Rightarrow> bool" where
  "less_kind a b \<longleftrightarrow> kind_rank a < kind_rank b"

instance
  by standard (auto simp: less_eq_kind_def less_kind_def)

end

datatype step = Step (step_name: entry_name) (step_id: object_id) (step_kind: kind)

fun step_key :: "step \<Rightarrow> entry_name \<times> object_id \<times> kind" where
  "step_key (Step n i k) = (n, i, k)"

lemma step_key_inject: "step_key a = step_key b \<longleftrightarrow> a = b"
  by (cases a; cases b) auto

instantiation step :: linorder
begin

definition less_eq_step :: "step \<Rightarrow> step \<Rightarrow> bool" where
  "less_eq_step a b \<longleftrightarrow> step_key a \<le> step_key b"

definition less_step :: "step \<Rightarrow> step \<Rightarrow> bool" where
  "less_step a b \<longleftrightarrow> step_key a < step_key b"

instance
  by standard (auto simp: less_eq_step_def less_step_def step_key_inject less_le)

end

section \<open>Traces\<close>

text \<open>
  The field \<open>real\<close> of the source is a memo its one constructor computes from the others; here
  it is the function that computes it.
\<close>

datatype trace =
  Trace (trace_root: root_name) (root_id: object_id) (steps: "step list")
    (tail: "entry_name list") (passed: "real_path list")

definition trace_names :: "trace \<Rightarrow> entry_name list" where
  "trace_names t = map step_name (steps t) @ tail t"

definition real :: "trace \<Rightarrow> real_path" where
  "real t = assemble (trace_root t) (trace_names t)"

fun trace_key ::
  "trace \<Rightarrow> object_id \<times> step list \<times> entry_name list \<times> real_path \<times> real_path list"
where
  "trace_key (Trace r i ss ns ps) = (i, ss, ns, real (Trace r i ss ns ps), ps)"

lemma trace_key_inject: "trace_key a = trace_key b \<longleftrightarrow> a = b"
  by (cases a; cases b; cases "trace_root a"; cases "trace_root b") auto

instantiation trace :: linorder
begin

definition less_eq_trace :: "trace \<Rightarrow> trace \<Rightarrow> bool" where
  "less_eq_trace a b \<longleftrightarrow> trace_key a \<le> trace_key b"

definition less_trace :: "trace \<Rightarrow> trace \<Rightarrow> bool" where
  "less_trace a b \<longleftrightarrow> trace_key a < trace_key b"

instance
  by standard (auto simp: less_eq_trace_def less_trace_def trace_key_inject less_le)

end

lemma real_eq: "real t = RealPath (map step_name (steps t) @ tail t)"
  by (cases "trace_root t") (simp add: real_def trace_names_def)

definition above :: "trace \<Rightarrow> trace" where
  "above t = Trace (trace_root t) (root_id t) (butlast (steps t)) [] (passed t)"

definition extended :: "trace \<Rightarrow> step list \<Rightarrow> entry_name list \<Rightarrow> trace" where
  "extended t added past = Trace (trace_root t) (root_id t) (steps t @ added) past (passed t)"

definition last_id :: "trace \<Rightarrow> object_id" where
  "last_id t = (if steps t = [] then root_id t else step_id (last (steps t)))"

definition leaf_id :: "trace \<Rightarrow> object_id option" where
  "leaf_id t = (if tail t = [] then Some (last_id t) else None)"

definition trace_kind :: "trace \<Rightarrow> kind option" where
  "trace_kind t =
     (if tail t \<noteq> [] then None
      else if steps t = [] then Some Dir
      else Some (step_kind (last (steps t))))"

definition spine_ids :: "trace \<Rightarrow> object_id list" where
  "spine_ids t = root_id t # map step_id (steps t)"

lemma last_spine_ids: "last (spine_ids t) = last_id t"
  by (simp add: spine_ids_def last_id_def last_map)

section \<open>The wire form\<close>

record wire_trace =
  wire_root :: root_name
  wire_root_id :: object_id
  wire_steps :: "step list"
  wire_tail :: "entry_name list"
  wire_real :: real_path
  wire_passed :: "real_path list"

datatype trace_error = NotThroughDirectories | ClaimsToBe real_path real_path

definition walkable :: "step list \<Rightarrow> entry_name list \<Rightarrow> bool" where
  "walkable ss past \<longleftrightarrow>
     ss = [] \<or>
     (list_all (\<lambda>s. step_kind s = Dir) (butlast ss) \<and> (past = [] \<or> step_kind (last ss) = Dir))"

definition Trace_serialize :: "trace \<Rightarrow> wire_trace" where
  "Trace_serialize t =
     \<lparr>wire_root = trace_root t, wire_root_id = root_id t, wire_steps = steps t,
      wire_tail = tail t, wire_real = real t, wire_passed = passed t\<rparr>"

definition Trace_deserialize :: "wire_trace \<Rightarrow> trace_error + trace" where
  "Trace_deserialize w =
     (if \<not> walkable (wire_steps w) (wire_tail w) then Inl NotThroughDirectories
      else
        let t = Trace (wire_root w) (wire_root_id w) (wire_steps w) (wire_tail w) (wire_passed w)
        in if real t \<noteq> wire_real w then Inl (ClaimsToBe (real t) (wire_real w)) else Inr t)"

definition trace_ok :: "trace \<Rightarrow> bool" where
  "trace_ok t \<longleftrightarrow> walkable (steps t) (tail t)"

lemma Trace_deserialize_Inr:
  "Trace_deserialize w = Inr t \<longleftrightarrow> trace_ok t \<and> w = Trace_serialize t"
  by (cases t; cases w)
    (auto simp: Trace_deserialize_def Trace_serialize_def trace_ok_def Let_def)

lemma walkable_butlast: "walkable ss past \<Longrightarrow> walkable (butlast ss) []"
  unfolding walkable_def list_all_iff
  by (auto dest: in_set_butlastD)

lemma above_ok: "trace_ok t \<Longrightarrow> trace_ok (above t)"
  by (auto simp: trace_ok_def above_def dest: walkable_butlast)

lemma walkable_append:
  "list_all (\<lambda>s. step_kind s = Dir) ss \<Longrightarrow> walkable added past \<Longrightarrow> walkable (ss @ added) past"
  unfolding walkable_def list_all_iff
  by (auto simp: butlast_append dest: in_set_butlastD)

lemma extended_ok:
  assumes "trace_ok t" and "trace_kind t = Some Dir" and "walkable added past"
  shows "trace_ok (extended t added past)"
proof -
  have "list_all (\<lambda>s. step_kind s = Dir) (steps t)"
    using assms(1,2)
    by (cases "steps t" rule: rev_cases)
      (auto simp: trace_ok_def walkable_def trace_kind_def split: if_splits)
  then show ?thesis
    using assms(3) by (simp add: trace_ok_def extended_def walkable_append)
qed

section \<open>Holds and exclusions\<close>

datatype hold = Hold (hold_trace: trace)

datatype excluded = Excluded (named_hold: hold) (target_hold: "hold option")

definition named :: "excluded \<Rightarrow> trace" where
  "named e = hold_trace (named_hold e)"

definition target :: "excluded \<Rightarrow> trace option" where
  "target e = map_option hold_trace (target_hold e)"

definition holds :: "excluded \<Rightarrow> hold list" where
  "holds e = named_hold e # (case target_hold e of None \<Rightarrow> [] | Some h \<Rightarrow> [h])"

text \<open>Where an access to the spelling of an exclusion lands: the link's target, else the name.\<close>

definition followed :: "excluded \<Rightarrow> trace" where
  "followed e = (case target e of None \<Rightarrow> named e | Some t \<Rightarrow> t)"

instantiation hold :: linorder
begin

definition less_eq_hold :: "hold \<Rightarrow> hold \<Rightarrow> bool" where
  "less_eq_hold a b \<longleftrightarrow> hold_trace a \<le> hold_trace b"

definition less_hold :: "hold \<Rightarrow> hold \<Rightarrow> bool" where
  "less_hold a b \<longleftrightarrow> hold_trace a < hold_trace b"

instance
  by standard (auto simp: less_eq_hold_def less_hold_def intro: hold.expand)

end

instantiation excluded :: linorder
begin

definition less_eq_excluded :: "excluded \<Rightarrow> excluded \<Rightarrow> bool" where
  "less_eq_excluded a b \<longleftrightarrow> (named_hold a, target_hold a) \<le> (named_hold b, target_hold b)"

definition less_excluded :: "excluded \<Rightarrow> excluded \<Rightarrow> bool" where
  "less_excluded a b \<longleftrightarrow> (named_hold a, target_hold a) < (named_hold b, target_hold b)"

instance
  by standard (auto simp: less_eq_excluded_def less_excluded_def intro: excluded.expand)

end

end
