(* ===== verification/Path_Identity.thy ===== *)
theory Path_Identity
  imports Path_Trace
begin

text \<open>
  Which spellings of a name are one name, and how a rule holds a subject
  (\<open>core/src/path/identity.rs\<close>, the firmlink table of \<open>core/src/path/canon.rs\<close>).  The Unicode
  tables of the ICU crates are parameters, fields of the host; every definition that reads
  them or the firmlink table takes the host as its first argument.

  The definitions compare rendered paths, byte for byte, as the source does.  Theory
  \<open>Path_Containment\<close> shows what that means on positions: containment is prefix order on canonical
  names, so it is a preorder in which the positions containing one position are a chain.
\<close>

section \<open>The host\<close>

datatype platform = Linux | MacOS

record host =
  platform :: platform
  icu_nfd :: "bytes \<Rightarrow> bytes"
  icu_nfkd :: "bytes \<Rightarrow> bytes"
  icu_uppercase :: "bytes \<Rightarrow> bytes"
  icu_fold :: "bytes \<Rightarrow> bytes"

definition FIRMLINKS :: "host \<Rightarrow> (bytes \<times> bytes) list" where
  "FIRMLINKS h =
     (case platform h of
        MacOS \<Rightarrow>
          [(''/var'', ''/private/var''), (''/tmp'', ''/private/tmp''), (''/etc'', ''/private/etc'')]
      | Linux \<Rightarrow> [])"

definition strip_prefix :: "bytes \<Rightarrow> bytes \<Rightarrow> bytes option" where
  "strip_prefix from p = (if prefix from p then Some (drop (length from) p) else None)"

text \<open>One direction of a firmlink pair: splice \<open>to\<close> for \<open>from\<close> at a component boundary.\<close>

definition splice :: "bytes \<Rightarrow> bytes \<Rightarrow> bytes \<Rightarrow> bytes option" where
  "splice p from to =
     (case strip_prefix from p of
        Some rest \<Rightarrow> if rest = [] \<or> hd rest = CHR ''/'' then Some (to @ rest) else None
      | None \<Rightarrow> None)"

fun toggle_in :: "(bytes \<times> bytes) list \<Rightarrow> bytes \<Rightarrow> bytes option" where
  "toggle_in [] p = None"
| "toggle_in ((firm, canon) # links) p =
     (case splice p canon firm of
        Some out \<Rightarrow> Some out
      | None \<Rightarrow>
          (case splice p firm canon of
             Some out \<Rightarrow> Some out
           | None \<Rightarrow> toggle_in links p))"

definition firmlink_toggle :: "host \<Rightarrow> bytes \<Rightarrow> bytes option" where
  "firmlink_toggle h p = toggle_in (FIRMLINKS h) p"

definition path_aliases :: "host \<Rightarrow> bytes \<Rightarrow> bytes list" where
  "path_aliases h p = p # (case firmlink_toggle h p of None \<Rightarrow> [] | Some q \<Rightarrow> [q])"

definition with_firmlink_twins :: "host \<Rightarrow> bytes list \<Rightarrow> bytes list" where
  "with_firmlink_twins h ps = ps @ List.map_filter (firmlink_toggle h) ps"

section \<open>Collision keys\<close>

definition collision_fold :: "host \<Rightarrow> bytes \<Rightarrow> bytes" where
  "collision_fold h s =
     (if is_ascii s then to_ascii_lowercase s
      else
        let upper = icu_uppercase h (icu_nfkd h s);
            once = icu_nfkd h (icu_fold h (icu_nfd h upper))
        in icu_nfkd h (icu_fold h once))"

definition encoded_collision_key :: "host \<Rightarrow> bytes \<Rightarrow> bytes" where
  "encoded_collision_key h b = (if utf8_ok b then collision_fold h b else b)"

text \<open>A command name is its own key off Windows (\<open>core/src/path/which.rs\<close>).\<close>

definition command_name_key :: "host \<Rightarrow> bytes \<Rightarrow> bytes" where
  "command_name_key h name = collision_fold h name"

section \<open>Containment of rendered paths\<close>

datatype identity = Stored | Collision

definition collision_keys :: "host \<Rightarrow> bytes \<Rightarrow> bytes list" where
  "collision_keys h p = map (\<lambda>c. encoded_collision_key h (component_str c)) (components p)"

definition starts_with_collision :: "host \<Rightarrow> bytes \<Rightarrow> bytes \<Rightarrow> bool" where
  "starts_with_collision h p q \<longleftrightarrow> prefix (collision_keys h q) (collision_keys h p)"

fun within_one :: "host \<Rightarrow> bytes \<Rightarrow> bytes \<Rightarrow> identity \<Rightarrow> bool" where
  "within_one h p q Stored = path_starts_with p q"
| "within_one h p q Collision = starts_with_collision h p q"

definition path_within :: "host \<Rightarrow> bytes \<Rightarrow> bytes \<Rightarrow> identity \<Rightarrow> bool" where
  "path_within h p q i \<longleftrightarrow>
     list_ex (\<lambda>p'. list_ex (\<lambda>q'. within_one h p' q' i) (path_aliases h q)) (path_aliases h p)"

definition contains :: "host \<Rightarrow> real_path \<Rightarrow> real_path \<Rightarrow> bool" where
  "contains h r other \<longleftrightarrow> path_within h (as_path other) (as_path r) Stored"

definition contains_folded :: "host \<Rightarrow> real_path \<Rightarrow> real_path \<Rightarrow> bool" where
  "contains_folded h r other \<longleftrightarrow> path_within h (as_path other) (as_path r) Collision"

fun normal_name :: "component \<Rightarrow> bytes option" where
  "normal_name (Normal n) = Some n"
| "normal_name _ = None"

definition normal_names :: "bytes \<Rightarrow> bytes list" where
  "normal_names p = List.map_filter normal_name (components p)"

fun find_pair :: "host \<Rightarrow> bytes list \<Rightarrow> bytes list \<Rightarrow> (bytes \<times> bytes) option" where
  "find_pair h [] qs = None"
| "find_pair h (p # ps) qs =
     (case List.find (\<lambda>q. within_one h p q Stored) qs of
        Some q \<Rightarrow> Some (p, q)
      | None \<Rightarrow> find_pair h ps qs)"

fun parse_all :: "bytes list \<Rightarrow> entry_name list option" where
  "parse_all [] = Some []"
| "parse_all (b # bs) =
     (case EntryName_parse b of
        Inl _ \<Rightarrow> None
      | Inr n \<Rightarrow> map_option (\<lambda>ns. n # ns) (parse_all bs))"

definition relative_to :: "host \<Rightarrow> real_path \<Rightarrow> real_path \<Rightarrow> entry_name list option" where
  "relative_to h r base_path =
     (case find_pair h (path_aliases h (as_path r)) (path_aliases h (as_path base_path)) of
        None \<Rightarrow> None
      | Some (p, q) \<Rightarrow>
          let own = normal_names p; base = normal_names q in
          if length base \<le> length own then parse_all (drop (length base) own) else None)"

definition ancestors_within :: "host \<Rightarrow> real_path \<Rightarrow> real_path \<Rightarrow> real_path list" where
  "ancestors_within h r within =
     takeWhile (contains h within)
       (map (\<lambda>n. RealPath (take n (real_names r))) (rev [0..<length (real_names r)]))"

section \<open>How an exclusion matches\<close>

datatype matched_by = Name | FoldedName | Identity

fun matched_by_rank :: "matched_by \<Rightarrow> nat" where
  "matched_by_rank Name = 0"
| "matched_by_rank FoldedName = 1"
| "matched_by_rank Identity = 2"

lemma matched_by_rank_inject [simp]: "matched_by_rank a = matched_by_rank b \<longleftrightarrow> a = b"
  by (cases a; cases b) auto

instantiation matched_by :: linorder
begin

definition less_eq_matched_by :: "matched_by \<Rightarrow> matched_by \<Rightarrow> bool" where
  "less_eq_matched_by a b \<longleftrightarrow> matched_by_rank a \<le> matched_by_rank b"

definition less_matched_by :: "matched_by \<Rightarrow> matched_by \<Rightarrow> bool" where
  "less_matched_by a b \<longleftrightarrow> matched_by_rank a < matched_by_rank b"

instance
  by standard (auto simp: less_eq_matched_by_def less_matched_by_def)

end

text \<open>
  What a rule is asked about.  A listing's record (\<open>core/src/path/walk/held.rs\<close>) is the
  parent's trace and the one step the listing made of the entry.
\<close>

datatype subject = Access trace | Listed trace step | Position real_path | Everywhere

fun position :: "subject \<Rightarrow> real_path option" where
  "position (Access t) = Some (real t)"
| "position (Listed parent s) = Some (child (real parent) (step_name s))"
| "position (Position p) = Some p"
| "position Everywhere = None"

definition beneath :: "host \<Rightarrow> subject \<Rightarrow> real_path \<Rightarrow> bool" where
  "beneath h s p \<longleftrightarrow> (case position s of Some at \<Rightarrow> contains h p at | None \<Rightarrow> False)"

datatype depth = Within | Exact

definition held_at :: "host \<Rightarrow> real_path \<Rightarrow> bytes \<Rightarrow> depth \<Rightarrow> identity \<Rightarrow> bool" where
  "held_at h r p d i \<longleftrightarrow>
     path_within h p (as_path r) i \<and> (d = Within \<or> path_within h (as_path r) p i)"

definition real_matched_by :: "host \<Rightarrow> real_path \<Rightarrow> bytes \<Rightarrow> depth \<Rightarrow> matched_by option" where
  "real_matched_by h r p d =
     (if held_at h r p d Stored then Some Name
      else if held_at h r p d Collision then Some FoldedName else None)"

record passed_objects =
  ids :: "object_id list"
  passed_names :: "entry_name list"

definition passed_of :: "trace \<Rightarrow> passed_objects" where
  "passed_of t =
     \<lparr>ids = root_id t # map step_id (steps t),
      passed_names = map step_name (steps t) @ tail t\<rparr>"

definition passed_listed :: "trace \<Rightarrow> step \<Rightarrow> passed_objects" where
  "passed_listed parent s =
     \<lparr>ids = ids (passed_of parent) @ [step_id s],
      passed_names = passed_names (passed_of parent) @ [step_name s]\<rparr>"

definition name_key :: "host \<Rightarrow> entry_name \<Rightarrow> bytes" where
  "name_key h n = encoded_collision_key h (os_str n)"

definition names_fit :: "host \<Rightarrow> entry_name list \<Rightarrow> entry_name list \<Rightarrow> depth \<Rightarrow> bool" where
  "names_fit h rule access d \<longleftrightarrow>
     (case d of
        Within \<Rightarrow> length rule \<le> length access
      | Exact \<Rightarrow> length rule = length access)
     \<and> list_all (\<lambda>(r, a). name_key h r = name_key h a) (zip rule access)"

fun access_of :: "subject \<Rightarrow> passed_objects option" where
  "access_of (Access t) = Some (passed_of t)"
| "access_of (Listed parent s) = Some (passed_listed parent s)"
| "access_of (Position _) = None"
| "access_of Everywhere = None"

text \<open>
  Some object of the rule past its root is one the access passed, and the names the rule has
  below it fit the names the access has below it.
\<close>

definition reaches :: "host \<Rightarrow> passed_objects \<Rightarrow> passed_objects \<Rightarrow> depth \<Rightarrow> bool" where
  "reaches h rule access d \<longleftrightarrow>
     list_ex
       (\<lambda>k. list_ex
          (\<lambda>j. ids access ! j = ids rule ! k
             \<and> names_fit h (drop k (passed_names rule)) (drop j (passed_names access)) d)
          [0..<length (ids access)])
       [1..<length (ids rule)]"

definition hold_matches :: "host \<Rightarrow> hold \<Rightarrow> subject \<Rightarrow> depth \<Rightarrow> matched_by option" where
  "hold_matches h hold s d =
     (case position s of
        None \<Rightarrow> None
      | Some at \<Rightarrow>
          (case real_matched_by h (real (hold_trace hold)) (as_path at) d of
             Some m \<Rightarrow> Some m
           | None \<Rightarrow>
               (case access_of s of
                  None \<Rightarrow> None
                | Some access \<Rightarrow>
                    if reaches h (passed_of (hold_trace hold)) access d then Some Identity
                    else None)))"

definition excluded_matches :: "host \<Rightarrow> excluded \<Rightarrow> subject \<Rightarrow> depth \<Rightarrow> matched_by option" where
  "excluded_matches h e s d =
     min_by_key (\<lambda>m. m) (List.map_filter (\<lambda>hold. hold_matches h hold s d) (holds e))"

end
