(* ===== verification/Path_Containment.thy ===== *)
theory Path_Containment
  imports Path_Identity
begin

text \<open>
  What \<open>RealPath::contains\<close>, \<open>contains_folded\<close> and \<open>Excluded::matches\<close> mean on positions and
  traces, proved from their byte-level definitions in \<open>Path_Identity\<close>: containment is prefix
  order on canonical names, so a preorder whose containers of one position form a chain, and
  an exclusion that holds a subject holds whatever lies beneath it.
\<close>

section \<open>Firmlinks on names\<close>

definition render :: "entry_name list \<Rightarrow> bytes" where
  "render ns = concat (map (\<lambda>n. CHR ''/'' # os_str n) ns)"

lemma render_simps [simp]:
  "render [] = []" "render (n # ns) = CHR ''/'' # os_str n @ render ns"
  by (simp_all add: render_def)

lemma render_append: "render (ms @ ns) = render ms @ render ns"
  by (simp add: render_def)

lemma as_path_render: "as_path (RealPath ns) = (if ns = [] then ''/'' else render ns)"
  using as_path_concat [of ns] by (simp add: render_def)

definition at_boundary :: "bytes \<Rightarrow> bool" where
  "at_boundary s \<longleftrightarrow> s = [] \<or> hd s = CHR ''/''"

lemma at_boundary_render [simp]: "at_boundary (render ns)"
  by (cases ns) (auto simp: at_boundary_def)

lemma boundary_unique:
  "CHR ''/'' \<notin> set a \<Longrightarrow> CHR ''/'' \<notin> set b \<Longrightarrow> at_boundary x \<Longrightarrow> at_boundary y \<Longrightarrow>
     a @ x = b @ y \<longleftrightarrow> a = b \<and> x = y"
proof (induction a arbitrary: b)
  case Nil
  then show ?case by (cases b) (auto simp: at_boundary_def)
next
  case (Cons c a)
  then show ?case by (cases b) (auto simp: at_boundary_def)
qed

lemma render_prefix:
  "at_boundary rest \<Longrightarrow> render fs @ rest = render ns \<longleftrightarrow>
     (\<exists>ms. ns = fs @ ms \<and> rest = render ms)"
proof (induction fs arbitrary: ns)
  case Nil
  then show ?case by auto
next
  case (Cons f fs)
  show ?case
  proof (cases ns)
    case (Cons n ms)
    have "at_boundary (render fs @ rest)"
      using Cons.prems by (cases fs) (auto simp: at_boundary_def)
    then have "render (f # fs) @ rest = render ns \<longleftrightarrow>
        os_str f = os_str n \<and> render fs @ rest = render ms"
      using boundary_unique [of "os_str f" "os_str n" "render fs @ rest" "render ms"]
      by (simp add: Cons os_str_ok)
    also have "\<dots> \<longleftrightarrow> f = n \<and> (\<exists>ks. ms = fs @ ks \<and> rest = render ks)"
      using Cons.IH [OF Cons.prems] by (simp add: os_str_inject)
    finally show ?thesis by (auto simp: Cons)
  qed simp
qed

definition splice_names :: "entry_name list \<Rightarrow> entry_name list \<Rightarrow> entry_name list \<Rightarrow> entry_name list option"
where
  "splice_names ns from to = (if prefix from ns then Some (to @ drop (length from) ns) else None)"

lemma splice_render:
  assumes "from \<noteq> []"
  shows "splice (as_path (RealPath ns)) (render from) (render to) =
           map_option render (splice_names ns from to)"
proof (cases "ns = []")
  case True
  obtain f fs where f: "from = f # fs" using assms by (cases "from") auto
  have "\<not> prefix (render from) ''/''"
    using os_str_ok(1) [of f] by (auto simp: f prefix_Cons)
  then show ?thesis
    using assms by (simp add: True splice_def strip_prefix_def splice_names_def)
next
  case False
  then have a: "as_path (RealPath ns) = render ns" by (simp add: as_path_render)
  show ?thesis
  proof (cases "prefix from ns")
    case True
    then obtain ms where ms: "ns = from @ ms" by (auto simp: prefix_def)
    have "as_path (RealPath ns) = render from @ render ms"
      unfolding a by (simp add: ms render_append)
    moreover have "render ms = [] \<or> hd (render ms) = CHR ''/''"
      using at_boundary_render [of ms] by (simp add: at_boundary_def)
    ultimately show ?thesis
      by (auto simp: ms splice_def strip_prefix_def splice_names_def render_append)
  next
    case nopre: False
    have "splice (render ns) (render from) (render to) = None"
    proof (cases "prefix (render from) (render ns)")
      case True
      then obtain rest where r: "render ns = render from @ rest" by (auto simp: prefix_def)
      then have "\<not> at_boundary rest"
        using render_prefix [of rest "from" ns] nopre by (auto simp: prefix_def)
      with r show ?thesis
        by (simp add: splice_def strip_prefix_def at_boundary_def)
    qed (simp add: splice_def strip_prefix_def)
    with nopre show ?thesis by (simp add: a splice_names_def)
  qed
qed

definition n_private :: entry_name where "n_private = EntryName ''private''"

definition firm_names :: "entry_name list" where
  "firm_names = [EntryName ''var'', EntryName ''tmp'', EntryName ''etc'']"

lemma os_str_firm [simp]:
  "os_str (EntryName ''var'') = ''var''" "os_str (EntryName ''tmp'') = ''tmp''"
  "os_str (EntryName ''etc'') = ''etc''" "os_str (EntryName ''private'') = ''private''"
  by (simp_all add: os_str_EntryName broken_rule_None_iff)

lemma private_not_firm: "n_private \<notin> set firm_names"
  unfolding n_private_def firm_names_def
  by (simp add: os_str_inject [symmetric])

text \<open>The canonical names of a position: those its other spelling has where it has one below \<open>/private\<close>.\<close>

definition canon_names :: "host \<Rightarrow> entry_name list \<Rightarrow> entry_name list" where
  "canon_names h ns =
     (case platform h of
        Linux \<Rightarrow> ns
      | MacOS \<Rightarrow>
          (case ns of
             n # _ \<Rightarrow> if n \<in> set firm_names then n_private # ns else ns
           | [] \<Rightarrow> []))"

definition alias_names :: "host \<Rightarrow> entry_name list \<Rightarrow> entry_name list set" where
  "alias_names h ns = {ms. canon_names h ms = canon_names h ns}"

fun toggle_names :: "entry_name list \<Rightarrow> entry_name list \<Rightarrow> entry_name list option" where
  "toggle_names [] ns = None"
| "toggle_names (f # fs) ns =
     (case splice_names ns [n_private, f] [f] of
        Some out \<Rightarrow> Some out
      | None \<Rightarrow>
          (case splice_names ns [f] [n_private, f] of
             Some out \<Rightarrow> Some out
           | None \<Rightarrow> toggle_names fs ns))"

lemma toggle_in_render:
  "toggle_in (map (\<lambda>f. (render [f], render [n_private, f])) fs) (as_path (RealPath ns)) =
     map_option render (toggle_names fs ns)"
  by (induction fs)
    (simp_all add: splice_render del: render_simps split: option.splits)

lemma FIRMLINKS_render:
  "FIRMLINKS h = (case platform h of
     MacOS \<Rightarrow> map (\<lambda>f. (render [f], render [n_private, f])) firm_names | Linux \<Rightarrow> [])"
  by (simp add: FIRMLINKS_def firm_names_def n_private_def split: platform.splits)

lemma toggle_names_None:
  "toggle_names fs ns = None \<longleftrightarrow>
     (\<forall>f\<in>set fs. \<not> prefix [f] ns \<and> \<not> prefix [n_private, f] ns)"
  by (induction fs) (auto simp: splice_names_def split: option.splits)

lemma toggle_names_Some:
  "toggle_names fs ns = Some ms \<Longrightarrow>
     (\<exists>f\<in>set fs. \<exists>ks. (ns = f # ks \<and> ms = n_private # f # ks) \<or>
                      (ns = n_private # f # ks \<and> ms = f # ks))"
  by (induction fs)
    (auto simp: splice_names_def prefix_def split: option.splits if_splits)

definition other_names :: "host \<Rightarrow> entry_name list \<Rightarrow> entry_name list option" where
  "other_names h ns = (case platform h of MacOS \<Rightarrow> toggle_names firm_names ns | Linux \<Rightarrow> None)"

lemma other_names_not_Nil: "other_names h ns = Some ms \<Longrightarrow> ms \<noteq> []"
  by (auto simp: other_names_def split: platform.splits dest: toggle_names_Some)

lemma firmlink_toggle_names:
  "firmlink_toggle h (as_path (RealPath ns)) =
     map_option (\<lambda>ms. as_path (RealPath ms)) (other_names h ns)"
proof (cases "platform h")
  case Linux
  then show ?thesis by (simp add: firmlink_toggle_def FIRMLINKS_def other_names_def)
next
  case MacOS
  then have "firmlink_toggle h (as_path (RealPath ns)) = map_option render (other_names h ns)"
    using FIRMLINKS_render [of h]
    by (simp add: firmlink_toggle_def toggle_in_render other_names_def del: render_simps)
  then show ?thesis
    using other_names_not_Nil [of h ns] by (cases "other_names h ns") (auto simp: as_path_render)
qed

lemma path_aliases_names:
  "path_aliases h (as_path (RealPath ns)) =
     map (\<lambda>ms. as_path (RealPath ms)) (ns # (case other_names h ns of None \<Rightarrow> [] | Some ms \<Rightarrow> [ms]))"
  by (simp add: path_aliases_def firmlink_toggle_names split: option.splits)

lemma aliases_are_alias_names:
  "set (ns # (case other_names h ns of None \<Rightarrow> [] | Some ms \<Rightarrow> [ms])) = alias_names h ns"
proof (cases "platform h")
  case Linux
  then show ?thesis by (auto simp: other_names_def alias_names_def canon_names_def)
next
  case MacOS
  note canon = canon_names_def MacOS
  show ?thesis
  proof (cases "toggle_names firm_names ns")
    case None
    then have n: "\<And>f ks. f \<in> set firm_names \<Longrightarrow> ns \<noteq> f # ks \<and> ns \<noteq> n_private # f # ks"
      by (auto simp: toggle_names_None prefix_def)
    then have "canon_names h ns = ns"
      by (auto simp: canon split: list.splits)
    moreover have "ms = ns" if "canon_names h ms = ns" for ms
      using that n by (auto simp: canon split: list.splits if_splits)
    ultimately show ?thesis
      using None by (auto simp: alias_names_def other_names_def MacOS)
  next
    case (Some ms)
    then obtain f ks where f: "f \<in> set firm_names"
      and d: "(ns = f # ks \<and> ms = n_private # f # ks) \<or> (ns = n_private # f # ks \<and> ms = f # ks)"
      using toggle_names_Some [of firm_names ns ms] by auto
    have c1: "canon_names h ns = n_private # f # ks"
      using d f private_not_firm by (auto simp: canon)
    have c2: "canon_names h xs = n_private # f # ks \<longleftrightarrow> xs = f # ks \<or> xs = n_private # f # ks"
      for xs
      using f private_not_firm by (cases xs) (auto simp: canon)
    have "alias_names h ns = {f # ks, n_private # f # ks}"
      by (simp only: alias_names_def c1 c2) blast
    moreover have "set (ns # [ms]) = {f # ks, n_private # f # ks}" using d by auto
    ultimately show ?thesis by (simp add: other_names_def MacOS Some)
  qed
qed

lemma path_aliases_set:
  "set (path_aliases h (as_path (RealPath ns))) = (\<lambda>ms. as_path (RealPath ms)) ` alias_names h ns"
  by (simp only: path_aliases_names set_map aliases_are_alias_names)

section \<open>Containment is prefix order\<close>

abbreviation canon :: "host \<Rightarrow> real_path \<Rightarrow> entry_name list" where
  "canon h r \<equiv> canon_names h (real_names r)"

lemma self_alias: "ns \<in> alias_names h ns"
  by (simp add: alias_names_def)

lemma canon_alias: "canon_names h ns \<in> alias_names h ns"
  using private_not_firm
  by (cases ns) (auto simp: alias_names_def canon_names_def split: platform.splits)

lemma canon_prefix: "prefix p q \<Longrightarrow> prefix (canon_names h p) (canon_names h q)"
  by (cases p; cases q) (auto simp: canon_names_def split: platform.splits)

lemma alias_extends:
  assumes "prefix (canon_names h b) (canon_names h c)" and "p \<in> alias_names h b"
  shows "\<exists>p'\<in>alias_names h c. prefix p p'"
proof (cases "p = canon_names h b")
  case True
  then show ?thesis using assms(1) canon_alias by blast
next
  case False
  with assms(2) have p: "canon_names h p \<noteq> p" "canon_names h p = canon_names h b"
    by (auto simp: alias_names_def)
  then obtain f ks where f: "p = f # ks" "f \<in> set firm_names" "platform h = MacOS"
    by (auto simp: canon_names_def split: platform.splits list.splits if_splits)
  then have "canon_names h b = n_private # p" using p by (simp add: canon_names_def)
  with assms(1) obtain ms where ms: "canon_names h c = n_private # p @ ms"
    by (auto simp: prefix_def)
  then have "p @ ms \<in> alias_names h c" using f by (simp add: alias_names_def canon_names_def)
  then show ?thesis by (meson prefixI)
qed

lemma contains_iff: "contains h a b \<longleftrightarrow> prefix (canon h a) (canon h b)"
proof -
  obtain as bs where ab: "a = RealPath as" "b = RealPath bs" by (cases a; cases b)
  have "contains h a b \<longleftrightarrow> (\<exists>p\<in>alias_names h bs. \<exists>q\<in>alias_names h as. prefix q p)"
    by (simp add: contains_def path_within_def list_ex_iff ab path_aliases_set starts_with_as_path)
  also have "\<dots> \<longleftrightarrow> prefix (canon_names h as) (canon_names h bs)"
  proof
    assume "\<exists>p\<in>alias_names h bs. \<exists>q\<in>alias_names h as. prefix q p"
    then obtain p q where "p \<in> alias_names h bs" "q \<in> alias_names h as" "prefix q p" by blast
    then show "prefix (canon_names h as) (canon_names h bs)"
      using canon_prefix [of q p h] by (simp add: alias_names_def)
  qed (use canon_alias in blast)
  finally show ?thesis by (simp add: ab)
qed

lemma contains_refl [simp]: "contains h a a"
  by (simp add: contains_iff)

lemma contains_trans: "contains h a b \<Longrightarrow> contains h b c \<Longrightarrow> contains h a c"
  by (auto simp: contains_iff intro: prefix_order.trans)

lemma contains_chain: "contains h a c \<Longrightarrow> contains h b c \<Longrightarrow> contains h a b \<or> contains h b a"
  by (auto simp: contains_iff dest: prefix_linear)

lemma contains_child: "contains h r (child r n)"
  unfolding contains_iff child_def by (simp add: canon_prefix)

lemma contains_append: "contains h (RealPath ns) (RealPath (ns @ ms))"
  unfolding contains_iff by (simp add: canon_prefix)

lemma contains_root: "contains h (RealPath []) r"
  by (simp add: contains_iff canon_names_def split: platform.splits)

lemma contains_root_iff: "contains h r (RealPath []) \<longleftrightarrow> r = RealPath []"
  by (cases r; cases "real_names r") (auto simp: contains_iff canon_names_def split: platform.splits)

section \<open>Containment under every spelling\<close>

lemma collision_keys_as_path:
  "collision_keys h (as_path (RealPath ns)) =
     encoded_collision_key h ''/'' # map (name_key h) ns"
  by (simp add: collision_keys_def components_as_path name_key_def)

lemma contains_folded_iff:
  "contains_folded h a b \<longleftrightarrow>
     (\<exists>p\<in>alias_names h (real_names b). \<exists>q\<in>alias_names h (real_names a).
        prefix (map (name_key h) q) (map (name_key h) p))"
  by (cases a; cases b)
    (simp add: contains_folded_def path_within_def list_ex_iff path_aliases_set
      starts_with_collision_def collision_keys_as_path)

lemma contains_imp_folded: "contains h a b \<Longrightarrow> contains_folded h a b"
  unfolding contains_iff contains_folded_iff
  using canon_alias map_mono_prefix by blast

lemma contains_folded_beneath:
  assumes "contains_folded h a b" and "contains h b c"
  shows "contains_folded h a c"
proof -
  obtain p q where pq: "p \<in> alias_names h (real_names b)" "q \<in> alias_names h (real_names a)"
      "prefix (map (name_key h) q) (map (name_key h) p)"
    using assms(1) by (auto simp: contains_folded_iff)
  obtain p' where "p' \<in> alias_names h (real_names c)" "prefix p p'"
    using alias_extends [OF _ pq(1)] assms(2) by (auto simp: contains_iff)
  with pq show ?thesis
    unfolding contains_folded_iff by (meson map_mono_prefix prefix_order.trans)
qed

section \<open>Exclusions and what lies beneath\<close>

lemma real_matched_within:
  "real_matched_by h r (as_path at) Within \<noteq> None \<longleftrightarrow> contains_folded h r at"
  using contains_imp_folded [of h r at]
  by (simp add: real_matched_by_def held_at_def contains_def contains_folded_def)

lemma excluded_matches_iff:
  "excluded_matches h e s d \<noteq> None \<longleftrightarrow> (\<exists>x\<in>set (holds e). hold_matches h x s d \<noteq> None)"
  by (simp add: excluded_matches_def map_filter_Nil_iff)

lemma hold_matches_iff:
  "hold_matches h x s d \<noteq> None \<longleftrightarrow>
     (\<exists>at. position s = Some at \<and>
        (real_matched_by h (real (hold_trace x)) (as_path at) d \<noteq> None \<or>
         (\<exists>access. access_of s = Some access \<and> reaches h (passed_of (hold_trace x)) access d)))"
  by (auto simp: hold_matches_def split: option.splits)

lemma excluded_matches_everywhere [simp]: "excluded_matches h e subject.Everywhere d = None"
  using excluded_matches_iff [of h e "subject.Everywhere" d] by (auto simp: hold_matches_def)

text \<open>
  \<open>below h s s'\<close>: the subject \<open>s'\<close> lies beneath \<open>s\<close>: what is at or beneath a position, what a
  walk that reached a directory finds beneath it, what a listing of that directory records.
\<close>

inductive below :: "host \<Rightarrow> subject \<Rightarrow> subject \<Rightarrow> bool" for h where
  positions: "position s = Some q \<Longrightarrow> contains h p q \<Longrightarrow> below h (Position p) s"
| walks: "tail t = [] \<Longrightarrow> below h (Access t) (Access (extended t added past))"
| listings: "tail t = [] \<Longrightarrow> below h (Access t) (Listed t s)"

lemma below_position: "below h s s' \<Longrightarrow> \<exists>p q. position s = Some p \<and> position s' = Some q \<and> contains h p q"
  by (cases rule: below.cases)
    (auto simp: real_eq extended_def contains_append contains_child)

lemma names_fit_append: "names_fit h rule access Within \<Longrightarrow> names_fit h rule (access @ ms) Within"
  by (auto simp: names_fit_def list_all_length nth_append)

text \<open>What a later access passed extends what an earlier one did.\<close>

definition passed_extends :: "passed_objects \<Rightarrow> passed_objects \<Rightarrow> bool" where
  "passed_extends a b \<longleftrightarrow> prefix (ids a) (ids b) \<and> prefix (passed_names a) (passed_names b)
     \<and> length (ids a) \<le> Suc (length (passed_names a))"

lemma reaches_iff:
  "reaches h rule access d \<longleftrightarrow>
     (\<exists>k j. 1 \<le> k \<and> k < length (ids rule) \<and> j < length (ids access) \<and>
        ids access ! j = ids rule ! k \<and>
        names_fit h (drop k (passed_names rule)) (drop j (passed_names access)) d)"
  unfolding reaches_def list_ex_iff by force

lemma reaches_extends:
  assumes "reaches h rule a Within" and "passed_extends a b"
  shows "reaches h rule b Within"
proof -
  obtain k j where kj: "1 \<le> k" "k < length (ids rule)" "j < length (ids a)"
      "ids a ! j = ids rule ! k"
      "names_fit h (drop k (passed_names rule)) (drop j (passed_names a)) Within"
    using assms(1) unfolding reaches_iff by blast
  obtain ks ms where b: "ids b = ids a @ ks" "passed_names b = passed_names a @ ms"
    using assms(2) by (auto simp: passed_extends_def prefix_def)
  have "j \<le> length (passed_names a)"
    using kj(3) assms(2) by (simp add: passed_extends_def)
  then have "names_fit h (drop k (passed_names rule)) (drop j (passed_names b)) Within"
    using names_fit_append [OF kj(5)] by (simp add: b)
  moreover have "j < length (ids b)" "ids b ! j = ids rule ! k"
    using kj by (simp_all add: b nth_append)
  ultimately show ?thesis
    using kj(1,2) unfolding reaches_iff by blast
qed

lemma below_access:
  "below h s s' \<Longrightarrow> access_of s = Some a \<Longrightarrow> \<exists>b. access_of s' = Some b \<and> passed_extends a b"
  by (cases rule: below.cases)
    (auto simp: passed_of_def passed_listed_def extended_def passed_extends_def)

lemma hold_matches_below:
  assumes "hold_matches h x s Within \<noteq> None" and "below h s s'"
  shows "hold_matches h x s' Within \<noteq> None"
proof -
  obtain p q where pq: "position s = Some p" "position s' = Some q" "contains h p q"
    using below_position [OF assms(2)] by blast
  show ?thesis
    using assms(1) pq contains_folded_beneath [OF _ pq(3)] below_access [OF assms(2)] reaches_extends
    unfolding hold_matches_iff real_matched_within by fastforce
qed

lemma excluded_matches_below:
  "excluded_matches h e s Within \<noteq> None \<Longrightarrow> below h s s' \<Longrightarrow> excluded_matches h e s' Within \<noteq> None"
  unfolding excluded_matches_iff using hold_matches_below by blast

text \<open>An object an exclusion holds is matched wherever it is met, whatever name led there.\<close>

lemma reaches_held_object:
  assumes "tail r = []" and "steps r \<noteq> []" and "last_id r \<in> set (ids access)"
  shows "reaches h (passed_of r) access Within"
proof -
  obtain j where j: "j < length (ids access)" "ids access ! j = last_id r"
    using assms(3) by (auto simp: in_set_conv_nth)
  let ?k = "length (steps r)"
  have "ids (passed_of r) ! ?k = last_id r"
    using assms(2) by (simp add: passed_of_def last_id_def nth_Cons last_conv_nth split: nat.splits)
  then show ?thesis
    using assms j unfolding reaches_iff
    by (intro exI [of _ ?k] exI [of _ j]) (auto simp: passed_of_def names_fit_def Suc_le_eq)
qed

lemma excluded_matches_object:
  assumes "x \<in> set (holds e)" and "tail (hold_trace x) = []" and "steps (hold_trace x) \<noteq> []"
    and "last_id (hold_trace x) \<in> set (spine_ids t)"
  shows "excluded_matches h e (Access t) Within \<noteq> None"
proof -
  have "reaches h (passed_of (hold_trace x)) (passed_of t) Within"
    by (rule reaches_held_object) (use assms in \<open>auto simp: passed_of_def spine_ids_def\<close>)
  then show ?thesis
    unfolding excluded_matches_iff hold_matches_iff using assms(1) by auto
qed

end
