(* ===== verification/Evidence_Table.thy ===== *)
theory Evidence_Table
  imports Path_Containment
begin

text \<open>
  Evidence and tables of scoped evidence (\<open>Evidence\<close> and its operators in
  \<open>core/src/authority/policy/lattice.rs\<close>, all of \<open>core/src/authority/policy/table.rs\<close>).  The
  methods of the traits \<open>Allows\<close> and \<open>Denies\<close> that a table operation calls are its first
  arguments; what the source asks of an implementation of \<open>Allows\<close> (its three obligations)
  is the locale \<open>allowances\<close>, and the laws of the table operations are proved once under it.
  The instances are in \<open>Fs_Policy\<close> and \<open>Exec_Policy\<close>.
\<close>

section \<open>Evidence\<close>

record evidence =
  positive :: bool
  negative :: bool

definition NEITHER :: evidence where "NEITHER = \<lparr>positive = False, negative = False\<rparr>"
definition ALLOW :: evidence where "ALLOW = \<lparr>positive = True, negative = False\<rparr>"
definition DENY :: evidence where "DENY = \<lparr>positive = False, negative = True\<rparr>"
definition BOTH :: evidence where "BOTH = \<lparr>positive = True, negative = True\<rparr>"

definition permits :: "evidence \<Rightarrow> bool" where
  "permits e \<longleftrightarrow> positive e \<and> \<not> negative e"

definition evidence_meet :: "evidence \<Rightarrow> evidence \<Rightarrow> evidence" where
  "evidence_meet a b =
     \<lparr>positive = positive a \<and> positive b, negative = negative a \<or> negative b\<rparr>"

definition evidence_join :: "evidence \<Rightarrow> evidence \<Rightarrow> evidence" where
  "evidence_join a b =
     \<lparr>positive = positive a \<or> positive b, negative = negative a \<or> negative b\<rparr>"

lemma evidence_eq_iff: "(a::evidence) = b \<longleftrightarrow> positive a = positive b \<and> negative a = negative b"
  by (cases a; cases b) auto

lemma permits_iff: "permits e \<longleftrightarrow> e = ALLOW"
  by (auto simp: permits_def ALLOW_def evidence_eq_iff)

lemma evidence_meet_ALLOW [simp]: "evidence_meet ALLOW e = e" "evidence_meet e ALLOW = e"
  by (simp_all add: evidence_meet_def ALLOW_def evidence_eq_iff)

lemma evidence_join_NEITHER [simp]: "evidence_join NEITHER e = e" "evidence_join e NEITHER = e"
  by (simp_all add: evidence_join_def NEITHER_def evidence_eq_iff)

lemma permits_meet [simp]: "permits (evidence_meet a b) \<longleftrightarrow> permits a \<and> permits b"
  by (auto simp: permits_def evidence_meet_def)

section \<open>Tables\<close>

datatype 'd withheld = MissingAllowance | Excluded 'd matched_by

record ('a, 'd) table =
  allows :: "'a fset"
  denies :: "'d fset"

definition table_new :: "'a list \<Rightarrow> 'd list \<Rightarrow> ('a, 'd) table" where
  "table_new as ds = \<lparr>allows = fset_of_list as, denies = fset_of_list ds\<rparr>"

definition rehold_with :: "('d \<Rightarrow> 'd) \<Rightarrow> ('a, 'd) table \<Rightarrow> ('a, 'd) table" where
  "rehold_with f t = \<lparr>allows = allows t, denies = f |`| denies t\<rparr>"

definition supports :: "('a \<Rightarrow> 's \<Rightarrow> bool) \<Rightarrow> ('a, 'd) table \<Rightarrow> 's \<Rightarrow> bool" where
  "supports c t s \<longleftrightarrow> (\<exists>a\<in>fset (allows t). c a s)"

definition excludes :: "('d \<Rightarrow> 's \<Rightarrow> matched_by option) \<Rightarrow> ('a, 'd) table \<Rightarrow> 's \<Rightarrow> bool" where
  "excludes m t s \<longleftrightarrow> (\<exists>d\<in>fset (denies t). m d s \<noteq> None)"

definition evidence ::
  "('a \<Rightarrow> 's \<Rightarrow> bool) \<Rightarrow> ('d \<Rightarrow> 's \<Rightarrow> matched_by option) \<Rightarrow> ('a, 'd) table \<Rightarrow> 's \<Rightarrow> evidence"
where
  "evidence c m t s = \<lparr>positive = supports c t s, negative = excludes m t s\<rparr>"

definition live ::
  "('a::linorder \<Rightarrow> 's \<Rightarrow> bool) \<Rightarrow> ('a \<Rightarrow> 's) \<Rightarrow> ('d \<Rightarrow> 's \<Rightarrow> matched_by option) \<Rightarrow>
     ('a, 'd) table \<Rightarrow> 'a list"
where
  "live c own m t =
     filter (\<lambda>a. permits (evidence c m t (own a))) (sorted_list_of_fset (allows t))"

definition withheld ::
  "('a \<Rightarrow> 's \<Rightarrow> bool) \<Rightarrow> ('d::linorder \<Rightarrow> 's \<Rightarrow> matched_by option) \<Rightarrow> ('a, 'd) table \<Rightarrow> 's \<Rightarrow>
     'd withheld option"
where
  "withheld c m t s =
     (case min_by_key fst
        (List.map_filter (\<lambda>d. map_option (\<lambda>by. (by, d)) (m d s)) (sorted_list_of_fset (denies t))) of
        Some (by, d) \<Rightarrow> Some (Excluded d by)
      | None \<Rightarrow> if supports c t s then None else Some MissingAllowance)"

definition table_meet ::
  "('a \<Rightarrow> 's \<Rightarrow> bool) \<Rightarrow> ('a \<Rightarrow> 's) \<Rightarrow> ('a, 'd) table \<Rightarrow> ('a, 'd) table \<Rightarrow> ('a, 'd) table"
where
  "table_meet c own a b =
     \<lparr>allows = ffilter (\<lambda>x. supports c a (own x) \<and> supports c b (own x)) (allows a |\<union>| allows b),
      denies = denies a |\<union>| denies b\<rparr>"

definition table_join :: "('a, 'd) table \<Rightarrow> ('a, 'd) table \<Rightarrow> ('a, 'd) table" where
  "table_join a b = \<lparr>allows = allows a |\<union>| allows b, denies = denies a |\<union>| denies b\<rparr>"

section \<open>Laws that need no obligation\<close>

lemma table_eq_iff: "(a::('a, 'd) table) = b \<longleftrightarrow> allows a = allows b \<and> denies a = denies b"
  by (cases a; cases b) auto

lemma allows_new [simp]: "fset (allows (table_new as ds)) = set as"
  by (simp add: table_new_def fset_of_list.rep_eq)

lemma denies_new [simp]: "fset (denies (table_new as ds)) = set ds"
  by (simp add: table_new_def fset_of_list.rep_eq)

lemma supports_new [simp]: "supports c (table_new as ds) s \<longleftrightarrow> (\<exists>a\<in>set as. c a s)"
  by (simp add: supports_def)

lemma excludes_new [simp]: "excludes m (table_new as ds) s \<longleftrightarrow> (\<exists>d\<in>set ds. m d s \<noteq> None)"
  by (simp add: excludes_def)

lemma supports_join [simp]: "supports c (table_join a b) s \<longleftrightarrow> supports c a s \<or> supports c b s"
  by (auto simp: supports_def table_join_def)

lemma excludes_join [simp]: "excludes m (table_join a b) s \<longleftrightarrow> excludes m a s \<or> excludes m b s"
  by (auto simp: excludes_def table_join_def)

lemma excludes_meet [simp]:
  "excludes m (table_meet c own a b) s \<longleftrightarrow> excludes m a s \<or> excludes m b s"
  by (auto simp: excludes_def table_meet_def)

lemma evidence_join [evidence_simps]:
  "evidence c m (table_join a b) s = evidence_join (evidence c m a s) (evidence c m b s)"
  by (simp add: evidence_def evidence_join_def)

lemma permits_evidence [simp]:
  "permits (evidence c m t s) \<longleftrightarrow> supports c t s \<and> \<not> excludes m t s"
  by (simp add: permits_def evidence_def)

lemma join_idem: "table_join a a = a"
  and join_comm: "table_join a b = table_join b a"
  and join_assoc: "table_join (table_join a b) d = table_join a (table_join b d)"
  by (simp_all add: table_join_def table_eq_iff funion_commute funion_left_commute funion_assoc)

lemma live_iff: "a \<in> set (live c own m t) \<longleftrightarrow>
    a \<in> fset (allows t) \<and> permits (evidence c m t (own a))"
  by (auto simp: live_def)

section \<open>The exclusion cited\<close>

definition matchings ::
  "('d::linorder \<Rightarrow> 's \<Rightarrow> matched_by option) \<Rightarrow> ('a, 'd) table \<Rightarrow> 's \<Rightarrow> (matched_by \<times> 'd) list"
where
  "matchings m t s =
     List.map_filter (\<lambda>d. map_option (\<lambda>by. (by, d)) (m d s)) (sorted_list_of_fset (denies t))"

lemma matchings_set: "(by, d) \<in> set (matchings m t s) \<longleftrightarrow> d \<in> fset (denies t) \<and> m d s = Some by"
  by (auto simp: matchings_def map_filter_set)

lemma matchings_Nil: "matchings m t s = [] \<longleftrightarrow> \<not> excludes m t s"
  by (simp add: matchings_def map_filter_Nil_iff excludes_def)

lemma matchings_Some: "min_by_key f (matchings m t s) = Some p \<Longrightarrow> excludes m t s"
  by (metis matchings_Nil min_by_key_None_iff option.distinct(1))

lemma matchings_sorted: "sorted_wrt (<) (map snd (matchings m t s))"
proof -
  have "map snd (List.map_filter (\<lambda>d. map_option (\<lambda>by. (by, d)) (f d)) ds) =
          filter (\<lambda>d. f d \<noteq> None) ds" for f :: "'a \<Rightarrow> matched_by option" and ds
    by (induction ds) (auto simp: List.map_filter_simps split: option.splits)
  then show ?thesis
    unfolding matchings_def
    by (simp add: sorted_wrt_filter strict_sorted_iff sorted_list_of_fset.rep_eq)
qed

lemma withheld_alt:
  "withheld c m t s =
     (case min_by_key fst (matchings m t s) of
        Some (by, d) \<Rightarrow> Some (Excluded d by)
      | None \<Rightarrow> if supports c t s then None else Some MissingAllowance)"
  by (simp add: withheld_def matchings_def)

lemma withheld_None_iff [evidence_simps]:
  "withheld c m t s = None \<longleftrightarrow> permits (evidence c m t s)"
  by (auto simp: withheld_alt matchings_Nil dest: matchings_Some split: option.splits)

lemma withheld_Missing_iff [evidence_simps]:
  "withheld c m t s = Some MissingAllowance \<longleftrightarrow> \<not> supports c t s \<and> \<not> excludes m t s"
  by (auto simp: withheld_alt matchings_Nil dest: matchings_Some split: option.splits)

lemma withheld_Excluded_excludes: "withheld c m t s = Some (Excluded d by) \<Longrightarrow> excludes m t s"
  by (auto simp: withheld_alt dest: matchings_Some split: option.splits if_splits)

text \<open>
  The exclusion cited matches the subject, no exclusion matches it a lesser way, and of those
  that match as it does it is the least.
\<close>

lemma withheld_Excluded_iff:
  "withheld c m t s = Some (Excluded d by) \<longleftrightarrow>
     d \<in> fset (denies t) \<and> m d s = Some by \<and>
     (\<forall>d'\<in>fset (denies t). \<forall>by'. m d' s = Some by' \<longrightarrow> (by, d) \<le> (by', d'))"
  (is "?L \<longleftrightarrow> ?R")
proof
  assume ?L
  then have mn: "min_by_key fst (matchings m t s) = Some (by, d)"
    by (auto simp: withheld_alt split: option.splits if_splits)
  then obtain ys zs where l: "matchings m t s = ys @ (by, d) # zs" "\<forall>y\<in>set ys. by < fst y"
    using min_by_key_first by fastforce
  have "(by, d) \<le> y" if "y \<in> set (matchings m t s)" for y
  proof -
    have "by \<le> fst y" using min_by_key_le [OF mn that] by simp
    moreover have "d \<le> snd y" if "y \<in> set zs"
      using matchings_sorted [of m t s] that by (auto simp: l sorted_wrt_append intro: less_imp_le)
    ultimately show ?thesis
      using that l by (cases y) (auto simp: less_eq_prod_def)
  qed
  then have "(by, d) \<le> (by', d')" if "d' \<in> fset (denies t)" "m d' s = Some by'" for by' d'
    using that matchings_set by fast
  then show ?R
    using min_by_key_in [OF mn] by (auto simp only: matchings_set)
next
  assume R: ?R
  then have ins: "(by, d) \<in> set (matchings m t s)" by (simp add: matchings_set)
  then have "matchings m t s \<noteq> []" by auto
  then obtain by' d' where mn: "min_by_key fst (matchings m t s) = Some (by', d')"
    by (metis min_by_key_None_iff not_None_eq surj_pair)
  then obtain ys zs where l: "matchings m t s = ys @ (by', d') # zs" "\<forall>y\<in>set ys. by' < fst y"
    using min_by_key_first by fastforce
  have in': "(by', d') \<in> set (matchings m t s)" by (rule min_by_key_in [OF mn])
  then have le: "(by, d) \<le> (by', d')" using R by (auto simp: matchings_set)
  have b: "by' \<le> by" using min_by_key_le [OF mn ins] by simp
  with le have "by = by'" by (auto simp: less_eq_prod_def)
  moreover have "d' \<le> d"
    using ins matchings_sorted [of m t s] b l \<open>by = by'\<close>
    by (auto simp: sorted_wrt_append intro: less_imp_le)
  ultimately have "(by, d) = (by', d')" using le by (auto simp: less_eq_prod_def)
  then show ?L by (simp add: withheld_alt mn)
qed

section \<open>Tables whose allowances meet their obligations\<close>

text \<open>
  The three obligations of \<open>Allows\<close>: an allowance contains its own subject, two allowances
  with a common subject are nested, and \<open>own\<close> detects containment.
\<close>

locale allowances =
  fixes contains :: "'a \<Rightarrow> 's \<Rightarrow> bool"
    and own :: "'a \<Rightarrow> 's"
  assumes own_self: "contains a (own a)"
    and nested: "contains a s \<Longrightarrow> contains k s \<Longrightarrow> contains a (own k) \<or> contains k (own a)"
    and own_detects: "contains a (own k) \<Longrightarrow> contains k s \<Longrightarrow> contains a s"
begin

lemma supports_own: "a \<in> fset (allows t) \<Longrightarrow> supports contains t (own a)"
  unfolding supports_def using own_self by blast

lemma supports_detects: "supports contains t (own k) \<Longrightarrow> contains k s \<Longrightarrow> supports contains t s"
  unfolding supports_def using own_detects by blast

lemma allows_meet:
  "x \<in> fset (allows (table_meet contains own a b)) \<longleftrightarrow>
     x \<in> fset (allows a) \<and> supports contains b (own x) \<or>
     x \<in> fset (allows b) \<and> supports contains a (own x)"
  using supports_own [of x a] supports_own [of x b] by (auto simp: table_meet_def)

lemma supports_meet:
  "supports contains (table_meet contains own a b) s \<longleftrightarrow> supports contains a s \<and> supports contains b s"
proof
  assume "supports contains (table_meet contains own a b) s"
  then obtain x where x: "x \<in> fset (allows (table_meet contains own a b))" "contains x s"
    by (auto simp: supports_def)
  then have "supports contains a (own x)" "supports contains b (own x)"
    by (auto simp: table_meet_def)
  with x(2) show "supports contains a s \<and> supports contains b s"
    by (auto intro: supports_detects)
next
  assume "supports contains a s \<and> supports contains b s"
  then obtain x y where xy: "x \<in> fset (allows a)" "contains x s" "y \<in> fset (allows b)" "contains y s"
    by (auto simp: supports_def)
  consider "contains x (own y)" | "contains y (own x)" using nested xy(2,4) by blast
  then show "supports contains (table_meet contains own a b) s"
  proof cases
    case 1
    then have "y \<in> fset (allows (table_meet contains own a b))"
      using xy unfolding allows_meet by (auto simp: supports_def)
    with xy show ?thesis unfolding supports_def by blast
  next
    case 2
    then have "x \<in> fset (allows (table_meet contains own a b))"
      using xy unfolding allows_meet by (auto simp: supports_def)
    with xy show ?thesis unfolding supports_def by blast
  qed
qed

lemma meet_idem: "table_meet contains own a a = a"
  using supports_own [of _ a] by (auto simp: table_eq_iff table_meet_def intro!: fset_eqI)

lemma meet_comm: "table_meet contains own a b = table_meet contains own b a"
  by (auto simp: table_eq_iff table_meet_def intro!: fset_eqI)

lemma allows_meet_sym:
  "x \<in> fset (allows (table_meet contains own a b)) \<longleftrightarrow>
     (x \<in> fset (allows a) \<or> x \<in> fset (allows b)) \<and>
     supports contains a (own x) \<and> supports contains b (own x)"
  by (auto simp: table_meet_def)

lemma meet_assoc:
  "table_meet contains own (table_meet contains own a b) d =
     table_meet contains own a (table_meet contains own b d)"
proof -
  have "fset (allows (table_meet contains own (table_meet contains own a b) d)) =
          fset (allows (table_meet contains own a (table_meet contains own b d)))"
    unfolding set_eq_iff allows_meet_sym supports_meet by (auto simp: allows_meet_sym)
  then show ?thesis
    by (simp add: table_eq_iff fset_inject) (simp add: table_meet_def funion_assoc)
qed

text \<open>A left fold of meets supports what every table of it does.\<close>

lemma supports_foldl_meet:
  "supports contains (foldl (table_meet contains own) t ts) s \<longleftrightarrow>
     supports contains t s \<and> (\<forall>u\<in>set ts. supports contains u s)"
  by (induction ts arbitrary: t) (auto simp: supports_meet)

end

lemma excludes_foldl_meet:
  "excludes m (foldl (table_meet c own) t ts) s \<longleftrightarrow>
     excludes m t s \<or> (\<exists>u\<in>set ts. excludes m u s)"
  by (induction ts arbitrary: t) auto

locale evidence_table = allowances contains own
  for contains :: "'a \<Rightarrow> 's \<Rightarrow> bool" and own :: "'a \<Rightarrow> 's" +
  fixes matches :: "'d::linorder \<Rightarrow> 's \<Rightarrow> matched_by option"
begin

lemma evidence_meet_exact:
  "evidence contains matches (table_meet contains own a b) s =
     evidence_meet (evidence contains matches a s) (evidence contains matches b s)"
  by (simp add: evidence_def evidence_meet_def supports_meet)

lemma permits_reduce:
  "reduce_with (table_meet contains own) ts = Some t \<Longrightarrow>
     permits (evidence contains matches t s) \<longleftrightarrow>
       (\<forall>u\<in>set ts. permits (evidence contains matches u s))"
  by (cases ts) (auto simp: supports_foldl_meet excludes_foldl_meet)

text \<open>Pushing one more table onto a stack of them never permits a subject it did not.\<close>

lemma permits_reduce_snoc:
  assumes "reduce_with (table_meet contains own) (ts @ [u]) = Some t'"
    and "reduce_with (table_meet contains own) ts = Some t"
    and "permits (evidence contains matches t' s)"
  shows "permits (evidence contains matches t s)"
  using assms by (simp only: permits_reduce) simp

end

end
