(* ===== verification/Grant_Path.thy ===== *)
theory Grant_Path
  imports Evidence_Table
begin

text \<open>
  Grant spellings in force (\<open>Extent\<close> and \<open>GrantPath\<close> of
  \<open>core/src/authority/policy/lattice.rs\<close>, \<open>FrozenPath\<close> of \<open>core/src/path/forms.rs\<close> as the
  judgments use it).  Freezing a surface form is the lexical fold of \<open>core/src/path/lex.rs\<close>;
  the judgments never look inside a spelling, so it is kept as its bytes here.
\<close>

section \<open>Frozen spellings\<close>

datatype frozen_path = FrozenPath (surface: bytes)

definition root_spelling :: frozen_path where
  "root_spelling = FrozenPath ''/''"

text \<open>\<open>shown\<close> off Windows: the path decoded, each malformed part replaced.\<close>

definition shown :: "bytes \<Rightarrow> bytes" where
  "shown p = utf8_lossy p"

definition of_real :: "real_path \<Rightarrow> frozen_path" where
  "of_real r = FrozenPath (shown (as_path r))"

instantiation frozen_path :: linorder
begin

definition less_eq_frozen_path :: "frozen_path \<Rightarrow> frozen_path \<Rightarrow> bool" where
  "less_eq_frozen_path a b \<longleftrightarrow> surface a \<le> surface b"

definition less_frozen_path :: "frozen_path \<Rightarrow> frozen_path \<Rightarrow> bool" where
  "less_frozen_path a b \<longleftrightarrow> surface a < surface b"

instance
  by standard
    (auto simp: less_eq_frozen_path_def less_frozen_path_def intro: frozen_path.expand)

end

section \<open>Where an allowance holds\<close>

datatype extent = Everywhere | Under real_path "real_path list"

fun extent_contains :: "host \<Rightarrow> extent \<Rightarrow> subject \<Rightarrow> bool" where
  "extent_contains h Everywhere s = True"
| "extent_contains h (Under p _) s = beneath h s p"

fun extent_real :: "extent \<Rightarrow> real_path option" where
  "extent_real Everywhere = None"
| "extent_real (Under p _) = Some p"

definition extent_position :: "extent \<Rightarrow> real_path" where
  "extent_position e = (case extent_real e of None \<Rightarrow> universal | Some p \<Rightarrow> p)"

fun extent_key :: "extent \<Rightarrow> (real_path \<times> real_path list) option" where
  "extent_key Everywhere = None"
| "extent_key (Under p ps) = Some (p, ps)"

lemma extent_key_inject: "extent_key a = extent_key b \<longleftrightarrow> a = b"
  by (cases a; cases b) auto

instantiation extent :: linorder
begin

definition less_eq_extent :: "extent \<Rightarrow> extent \<Rightarrow> bool" where
  "less_eq_extent a b \<longleftrightarrow> extent_key a \<le> extent_key b"

definition less_extent :: "extent \<Rightarrow> extent \<Rightarrow> bool" where
  "less_extent a b \<longleftrightarrow> extent_key a < extent_key b"

instance
  by standard (auto simp: less_eq_extent_def less_extent_def extent_key_inject less_le)

end

section \<open>Grant paths\<close>

datatype 'r grant_path = GrantPath (written: frozen_path) (grant_real: 'r)

instantiation grant_path :: (linorder) linorder
begin

definition less_eq_grant_path :: "'a grant_path \<Rightarrow> 'a grant_path \<Rightarrow> bool" where
  "less_eq_grant_path a b \<longleftrightarrow> (written a, grant_real a) \<le> (written b, grant_real b)"

definition less_grant_path :: "'a grant_path \<Rightarrow> 'a grant_path \<Rightarrow> bool" where
  "less_grant_path a b \<longleftrightarrow> (written a, grant_real a) < (written b, grant_real b)"

instance
  by standard
    (auto simp: less_eq_grant_path_def less_grant_path_def intro: grant_path.expand)

end

definition everywhere :: "extent grant_path" where
  "everywhere = GrantPath root_spelling Everywhere"

text \<open>A walk read as an allowance's extent.\<close>

definition extent_of :: "trace grant_path \<Rightarrow> extent grant_path" where
  "extent_of g =
     (let t = grant_real g in
      GrantPath (written g)
        (if is_universal (real t) then Everywhere else Under (real t) (passed t)))"

section \<open>Extents and positions\<close>

lemma beneath_simps [simp]:
  "beneath h (Access t) p \<longleftrightarrow> contains h p (real t)"
  "beneath h (Position q) p \<longleftrightarrow> contains h p q"
  "\<not> beneath h subject.Everywhere p"
  by (simp_all add: beneath_def)

lemma beneath_below: "beneath h s p \<Longrightarrow> below h s s' \<Longrightarrow> beneath h s' p"
  by (auto simp: beneath_def dest!: below_position intro: contains_trans split: option.splits)

lemma beneath_trans: "contains h p q \<Longrightarrow> beneath h s q \<Longrightarrow> beneath h s p"
  by (auto simp: beneath_def intro: contains_trans split: option.splits)

lemma beneath_chain: "beneath h s p \<Longrightarrow> beneath h s q \<Longrightarrow> contains h p q \<or> contains h q p"
  by (auto simp: beneath_def dest: contains_chain split: option.splits)

text \<open>A walk's extent contains every access the walk's position contains, and only those.\<close>

lemma extent_of_contains:
  "extent_contains h (grant_real (extent_of g)) (Access t) \<longleftrightarrow>
     contains h (real (grant_real g)) (real t)"
  using contains_root [of h "real t"] by (auto simp: extent_of_def Let_def)

end
