(* ===== verification/Fs_Policy.thy ===== *)
theory Fs_Policy
  imports Grant_Path
begin

text \<open>
  The fs dimension (\<open>core/src/authority/policy/fs.rs\<close>): the allowances and exclusions of an fs
  table, a layer's read and write tables, and the baseline.  The folds over a stack and the
  judgments are in \<open>Judgment\<close>, after the exec dimension they read.
\<close>

datatype fs_op = Read | Write

section \<open>Allowances and exclusions\<close>

datatype fs_allow = Prefix "extent grant_path" | RunPlace real_path

fun fs_allow_key :: "fs_allow \<Rightarrow> nat \<times> extent grant_path option \<times> real_path option" where
  "fs_allow_key (Prefix p) = (0, Some p, None)"
| "fs_allow_key (RunPlace r) = (1, None, Some r)"

lemma fs_allow_key_inject: "fs_allow_key a = fs_allow_key b \<longleftrightarrow> a = b"
  by (cases a; cases b) auto

instantiation fs_allow :: linorder
begin

definition less_eq_fs_allow :: "fs_allow \<Rightarrow> fs_allow \<Rightarrow> bool" where
  "less_eq_fs_allow a b \<longleftrightarrow> fs_allow_key a \<le> fs_allow_key b"

definition less_fs_allow :: "fs_allow \<Rightarrow> fs_allow \<Rightarrow> bool" where
  "less_fs_allow a b \<longleftrightarrow> fs_allow_key a < fs_allow_key b"

instance
  by standard (auto simp: less_eq_fs_allow_def less_fs_allow_def fs_allow_key_inject less_le)

end

datatype fs_deny = FsDeny (fs_grant: "excluded grant_path")

instantiation fs_deny :: linorder
begin

definition less_eq_fs_deny :: "fs_deny \<Rightarrow> fs_deny \<Rightarrow> bool" where
  "less_eq_fs_deny a b \<longleftrightarrow> fs_grant a \<le> fs_grant b"

definition less_fs_deny :: "fs_deny \<Rightarrow> fs_deny \<Rightarrow> bool" where
  "less_fs_deny a b \<longleftrightarrow> fs_grant a < fs_grant b"

instance
  by standard (auto simp: less_eq_fs_deny_def less_fs_deny_def intro: fs_deny.expand)

end

type_synonym fs_rules = "(fs_allow, fs_deny) table"

fun fs_contains :: "host \<Rightarrow> fs_allow \<Rightarrow> subject \<Rightarrow> bool" where
  "fs_contains h (Prefix p) s = extent_contains h (grant_real p) s"
| "fs_contains h (RunPlace place) s = beneath h s place"

fun fs_own :: "fs_allow \<Rightarrow> subject" where
  "fs_own (Prefix p) =
     (case grant_real p of Under place _ \<Rightarrow> Position place | Everywhere \<Rightarrow> subject.Everywhere)"
| "fs_own (RunPlace place) = Position place"

fun fs_real :: "fs_allow \<Rightarrow> real_path option" where
  "fs_real (Prefix p) = extent_real (grant_real p)"
| "fs_real (RunPlace place) = Some place"

definition fs_matches :: "host \<Rightarrow> fs_deny \<Rightarrow> subject \<Rightarrow> matched_by option" where
  "fs_matches h d s = excluded_matches h (grant_real (fs_grant d)) s Within"

text \<open>The obligations of \<open>Allows\<close>, discharged for the fs allowances on every host.\<close>

lemma fs_contains_own: "fs_contains h a (fs_own a)"
  by (cases a rule: fs_own.cases) (auto split: extent.splits)

lemma fs_contains_iff:
  "fs_contains h a s \<longleftrightarrow> (case fs_real a of None \<Rightarrow> True | Some p \<Rightarrow> beneath h s p)"
  by (cases a; cases "fs_real a") (auto split: extent.splits elim: extent_real.elims)

lemma fs_contains_own_iff:
  "fs_contains h a (fs_own k) \<longleftrightarrow>
     (case fs_real a of
        None \<Rightarrow> True
      | Some p \<Rightarrow> (case fs_real k of None \<Rightarrow> False | Some q \<Rightarrow> contains h p q))"
  by (cases k rule: fs_own.cases) (auto simp: fs_contains_iff split: option.splits extent.splits)

interpretation fs: evidence_table "fs_contains h" fs_own "fs_matches h" for h
proof unfold_locales
  fix a k :: fs_allow and s
  show "fs_contains h a (fs_own a)" by (rule fs_contains_own)
  show "fs_contains h a (fs_own k) \<or> fs_contains h k (fs_own a)"
    if "fs_contains h a s" "fs_contains h k s"
    using that unfolding fs_contains_own_iff fs_contains_iff [of h _ s]
    by (auto split: option.splits dest: beneath_chain)
  show "fs_contains h a s" if "fs_contains h a (fs_own k)" "fs_contains h k s"
    using that unfolding fs_contains_own_iff fs_contains_iff [of h _ s]
    by (auto split: option.splits intro: beneath_trans)
qed

abbreviation fs_supports :: "host \<Rightarrow> fs_rules \<Rightarrow> subject \<Rightarrow> bool" where
  "fs_supports h \<equiv> supports (fs_contains h)"

abbreviation fs_excludes :: "host \<Rightarrow> fs_rules \<Rightarrow> subject \<Rightarrow> bool" where
  "fs_excludes h \<equiv> excludes (fs_matches h)"

abbreviation fs_evidence :: "host \<Rightarrow> fs_rules \<Rightarrow> subject \<Rightarrow> evidence" where
  "fs_evidence h \<equiv> evidence (fs_contains h) (fs_matches h)"

abbreviation fs_withheld :: "host \<Rightarrow> fs_rules \<Rightarrow> subject \<Rightarrow> fs_deny withheld option" where
  "fs_withheld h \<equiv> withheld (fs_contains h) (fs_matches h)"

abbreviation fs_meet :: "host \<Rightarrow> fs_rules \<Rightarrow> fs_rules \<Rightarrow> fs_rules" where
  "fs_meet h \<equiv> table_meet (fs_contains h) fs_own"

text \<open>An fs exclusion excludes its own position, and whatever lies beneath what it excludes.\<close>

lemma fs_matches_own:
  "fs_matches h d (Position (real (named (grant_real (fs_grant d))))) = Some Name"
proof -
  let ?e = "grant_real (fs_grant d)"
  let ?s = "Position (real (named ?e))"
  have "hold_matches h (named_hold ?e) ?s Within = Some Name"
    by (simp add: hold_matches_def real_matched_by_def held_at_def named_def)
      (simp add: contains_def [symmetric])
  then have m: "Name \<in> set (List.map_filter (\<lambda>x. hold_matches h x ?s Within) (holds ?e))"
    by (auto simp: map_filter_set holds_def)
  then have "excluded_matches h ?e ?s Within \<noteq> None"
    unfolding excluded_matches_def by auto
  then obtain b where b: "excluded_matches h ?e ?s Within = Some b" by blast
  then have "b \<le> Name" using m unfolding excluded_matches_def by (auto dest: min_by_key_le)
  with b show ?thesis by (cases b) (auto simp: fs_matches_def less_eq_matched_by_def)
qed

lemma fs_excludes_below: "fs_excludes h t s \<Longrightarrow> below h s s' \<Longrightarrow> fs_excludes h t s'"
  unfolding excludes_def fs_matches_def using excluded_matches_below by blast

lemma fs_excludes_everywhere [simp]: "\<not> fs_excludes h t subject.Everywhere"
  by (simp add: excludes_def fs_matches_def)

lemma fs_supports_below: "fs_supports h t s \<Longrightarrow> below h s s' \<Longrightarrow> fs_supports h t s'"
  by (auto simp: supports_def fs_contains_iff split: option.splits dest: beneath_below)

section \<open>A layer's opinion\<close>

record fs_layer =
  read :: fs_rules
  fs_write :: fs_rules

definition FsLayer_new ::
  "extent grant_path list \<Rightarrow> extent grant_path list \<Rightarrow> excluded grant_path list \<Rightarrow> fs_layer"
where
  "FsLayer_new reads writes deny =
     (let write = map Prefix writes; ds = map FsDeny deny in
      \<lparr>read = table_new (map Prefix reads @ write) ds, fs_write = table_new write ds\<rparr>)"

fun fs_table :: "fs_layer \<Rightarrow> fs_op \<Rightarrow> fs_rules" where
  "fs_table l Read = read l"
| "fs_table l Write = fs_write l"

definition fs_layer_join :: "fs_layer \<Rightarrow> fs_layer \<Rightarrow> fs_layer" where
  "fs_layer_join a b =
     \<lparr>read = table_join (read a) (read b), fs_write = table_join (fs_write a) (fs_write b)\<rparr>"

definition fs_everywhere :: fs_rules where
  "fs_everywhere = table_new [Prefix everywhere] []"

definition fs_join_top :: "fs_layer \<Rightarrow> fs_layer option" where
  "fs_join_top l =
     (if denies (fs_write l) = {||} then None
      else Some \<lparr>read = table_join (read l) fs_everywhere,
                 fs_write = table_join (fs_write l) fs_everywhere\<rparr>)"

fun is_everywhere :: "fs_allow \<Rightarrow> bool" where
  "is_everywhere (Prefix p) = (grant_real p = Everywhere)"
| "is_everywhere (RunPlace _) = False"

definition fs_is_top :: "fs_layer \<Rightarrow> bool" where
  "fs_is_top l \<longleftrightarrow> denies (fs_write l) = {||} \<and> (\<exists>a\<in>fset (allows (fs_write l)). is_everywhere a)"

text \<open>
  What every layer the code makes keeps: one set of exclusions, writing reads, and no run
  place, which only a fold adds.
\<close>

fun is_prefix :: "fs_allow \<Rightarrow> bool" where
  "is_prefix (Prefix _) = True"
| "is_prefix (RunPlace _) = False"

definition fs_layer_ok :: "fs_layer \<Rightarrow> bool" where
  "fs_layer_ok l \<longleftrightarrow>
     denies (read l) = denies (fs_write l) \<and> allows (fs_write l) |\<subseteq>| allows (read l)
     \<and> (\<forall>a\<in>fset (allows (read l)). is_prefix a)"

lemma FsLayer_new_ok: "fs_layer_ok (FsLayer_new r w d)"
  by (auto simp: fs_layer_ok_def FsLayer_new_def Let_def table_new_def fset_of_list_elem
      fset_of_list.rep_eq)

lemma fs_layer_join_ok: "fs_layer_ok a \<Longrightarrow> fs_layer_ok b \<Longrightarrow> fs_layer_ok (fs_layer_join a b)"
  by (auto simp: fs_layer_ok_def fs_layer_join_def table_join_def)

lemma fs_join_top_ok: "fs_layer_ok l \<Longrightarrow> fs_join_top l = Some l' \<Longrightarrow> fs_layer_ok l'"
  by (auto simp: fs_layer_ok_def fs_join_top_def table_join_def fs_everywhere_def table_new_def
      split: if_splits)

lemma fs_layer_ok_supports: "fs_layer_ok l \<Longrightarrow> fs_supports h (fs_write l) s \<Longrightarrow> fs_supports h (read l) s"
  by (auto simp: fs_layer_ok_def supports_def)

lemma fs_layer_ok_excludes: "fs_layer_ok l \<Longrightarrow> fs_excludes h (fs_write l) s = fs_excludes h (read l) s"
  by (simp add: fs_layer_ok_def excludes_def)

lemma is_everywhere_iff: "is_everywhere a \<longleftrightarrow> fs_contains h a subject.Everywhere"
  by (cases a; cases "grant_real (case a of Prefix p \<Rightarrow> p)") auto

lemma fs_supports_everywhere:
  "fs_supports h t subject.Everywhere \<longleftrightarrow> (\<exists>a\<in>fset (allows t). is_everywhere a)"
  by (simp add: supports_def is_everywhere_iff [of _ h])

lemma fs_supports_everywhere_all: "fs_supports h t subject.Everywhere \<Longrightarrow> fs_supports h t s"
  unfolding supports_def fs_contains_iff by (force split: option.splits)

lemma no_denies_iff: "denies t = {||} \<longleftrightarrow> (\<forall>s. \<not> fs_excludes h t s)"
proof
  assume n: "\<forall>s. \<not> fs_excludes h t s"
  have "d |\<notin>| denies t" for d
    using n fs_matches_own [of h d] unfolding excludes_def by fastforce
  then show "denies t = {||}" by auto
qed (simp add: excludes_def)

end
