(* ===== verification/Exec_Policy.thy ===== *)
theory Exec_Policy
  imports Fs_Policy
begin

text \<open>
  The exec dimension (\<open>core/src/authority/policy/exec.rs\<close>): what a grant judges, the
  allowances over programs, directories and bundled tools, the exclusions of files,
  directories and names, and the table operations particular to exec.  Rendering a rule as
  the author spelt it (\<open>Display\<close>, \<open>summary\<close>) is not modelled.
\<close>

section \<open>Subjects and rules\<close>

datatype exec_subject = Program subject | Dir subject | Tool bytes | Any

datatype exec_allow =
    Any
  | Dir "extent grant_path"
  | File frozen_path real_path "bytes option"
  | Tool bytes

datatype exec_deny =
    Name bytes
  | Dir "excluded grant_path"
  | File "excluded grant_path"

fun exec_allow_key ::
  "exec_allow \<Rightarrow>
     nat \<times> extent grant_path option \<times> (frozen_path \<times> real_path \<times> bytes option) option \<times> bytes option"
where
  "exec_allow_key exec_allow.Any = (0, None, None, None)"
| "exec_allow_key (exec_allow.Dir d) = (1, Some d, None, None)"
| "exec_allow_key (exec_allow.File w r f) = (2, None, Some (w, r, f), None)"
| "exec_allow_key (exec_allow.Tool n) = (3, None, None, Some n)"

lemma exec_allow_key_inject: "exec_allow_key a = exec_allow_key b \<longleftrightarrow> a = b"
  by (cases a; cases b) auto

instantiation exec_allow :: linorder
begin

definition less_eq_exec_allow :: "exec_allow \<Rightarrow> exec_allow \<Rightarrow> bool" where
  "less_eq_exec_allow a b \<longleftrightarrow> exec_allow_key a \<le> exec_allow_key b"

definition less_exec_allow :: "exec_allow \<Rightarrow> exec_allow \<Rightarrow> bool" where
  "less_exec_allow a b \<longleftrightarrow> exec_allow_key a < exec_allow_key b"

instance
  by standard
    (auto simp: less_eq_exec_allow_def less_exec_allow_def exec_allow_key_inject less_le)

end

fun exec_deny_key :: "exec_deny \<Rightarrow> nat \<times> bytes option \<times> excluded grant_path option" where
  "exec_deny_key (exec_deny.Name n) = (0, Some n, None)"
| "exec_deny_key (exec_deny.Dir d) = (1, None, Some d)"
| "exec_deny_key (exec_deny.File f) = (2, None, Some f)"

lemma exec_deny_key_inject: "exec_deny_key a = exec_deny_key b \<longleftrightarrow> a = b"
  by (cases a; cases b) auto

instantiation exec_deny :: linorder
begin

definition less_eq_exec_deny :: "exec_deny \<Rightarrow> exec_deny \<Rightarrow> bool" where
  "less_eq_exec_deny a b \<longleftrightarrow> exec_deny_key a \<le> exec_deny_key b"

definition less_exec_deny :: "exec_deny \<Rightarrow> exec_deny \<Rightarrow> bool" where
  "less_exec_deny a b \<longleftrightarrow> exec_deny_key a < exec_deny_key b"

instance
  by standard
    (auto simp: less_eq_exec_deny_def less_exec_deny_def exec_deny_key_inject less_le)

end

type_synonym exec_rules = "(exec_allow, exec_deny) table"

text \<open>A file a launch needs beyond the policy, which no author wrote.\<close>

definition support :: "real_path \<Rightarrow> exec_allow" where
  "support r = exec_allow.File (of_real r) r None"

fun exec_contains :: "host \<Rightarrow> exec_allow \<Rightarrow> exec_subject \<Rightarrow> bool" where
  "exec_contains h exec_allow.Any _ = True"
| "exec_contains h (exec_allow.Dir d) (Program at) = extent_contains h (grant_real d) at"
| "exec_contains h (exec_allow.Dir d) (exec_subject.Dir at) = extent_contains h (grant_real d) at"
| "exec_contains h (exec_allow.File _ r _) (Program at) =
     (case position at of Some p \<Rightarrow> contains h r p \<and> contains h p r | None \<Rightarrow> False)"
| "exec_contains h (exec_allow.Tool tool) (exec_subject.Tool name) = (tool = name)"
| "exec_contains h _ _ = False"

fun exec_own :: "exec_allow \<Rightarrow> exec_subject" where
  "exec_own exec_allow.Any = exec_subject.Any"
| "exec_own (exec_allow.Dir d) =
     (case grant_real d of
        Under place _ \<Rightarrow> exec_subject.Dir (Position place)
      | Everywhere \<Rightarrow> exec_subject.Dir subject.Everywhere)"
| "exec_own (exec_allow.File _ r _) = Program (Position r)"
| "exec_own (exec_allow.Tool name) = exec_subject.Tool name"

definition vetoes :: "host \<Rightarrow> bytes \<Rightarrow> bytes \<Rightarrow> matched_by option" where
  "vetoes h key name = (if key = command_name_key h name then Some matched_by.Name else None)"

fun exec_matches :: "host \<Rightarrow> exec_deny \<Rightarrow> exec_subject \<Rightarrow> matched_by option" where
  "exec_matches h (exec_deny.Dir d) (Program at) = excluded_matches h (grant_real d) at Within"
| "exec_matches h (exec_deny.Dir d) (exec_subject.Dir at) =
     excluded_matches h (grant_real d) at Within"
| "exec_matches h (exec_deny.File f) (Program at) = excluded_matches h (grant_real f) at Exact"
| "exec_matches h (exec_deny.Name key) (exec_subject.Tool name) = vetoes h key name"
| "exec_matches h (exec_deny.Name key) (Program at) =
     (case position at of
        None \<Rightarrow> None
      | Some p \<Rightarrow> (case real_name p of None \<Rightarrow> None | Some name \<Rightarrow> vetoes h key name))"
| "exec_matches h _ _ = None"

section \<open>The obligations of the exec allowances\<close>

text \<open>\<open>speaks\<close>: the path a directory or file allowance is asked about.\<close>

lemma exec_contains_own: "exec_contains h a (exec_own a)"
  by (cases a) (auto split: extent.splits)

lemma dir_nested:
  "extent_contains h d s \<Longrightarrow> extent_contains h e s \<Longrightarrow>
     (case e of Under p _ \<Rightarrow> extent_contains h d (Position p)
              | Everywhere \<Rightarrow> extent_contains h d subject.Everywhere) \<or>
     (case d of Under p _ \<Rightarrow> extent_contains h e (Position p)
              | Everywhere \<Rightarrow> extent_contains h e subject.Everywhere)"
  by (cases d; cases e) (auto dest: beneath_chain)

lemma dir_detects:
  "(case e of Under p _ \<Rightarrow> extent_contains h d (Position p)
            | Everywhere \<Rightarrow> extent_contains h d subject.Everywhere) \<Longrightarrow>
     extent_contains h e s \<Longrightarrow> extent_contains h d s"
  by (cases d; cases e) (auto intro: beneath_trans)

lemma exec_contains_cases:
  "exec_contains h a s \<longleftrightarrow>
     (case a of
        exec_allow.Any \<Rightarrow> True
      | exec_allow.Dir d \<Rightarrow>
          (case s of Program at \<Rightarrow> extent_contains h (grant_real d) at
                   | exec_subject.Dir at \<Rightarrow> extent_contains h (grant_real d) at
                   | _ \<Rightarrow> False)
      | exec_allow.File _ r _ \<Rightarrow>
          (\<exists>at p. s = Program at \<and> position at = Some p \<and> contains h r p \<and> contains h p r)
      | exec_allow.Tool t \<Rightarrow> s = exec_subject.Tool t)"
  by (cases a; cases s) (auto split: option.splits)

lemma exec_own_cases:
  "exec_contains h a (exec_own k) \<longleftrightarrow>
     (case a of
        exec_allow.Any \<Rightarrow> True
      | exec_allow.Dir d \<Rightarrow>
          (case k of
             exec_allow.Dir e \<Rightarrow>
               (case grant_real e of
                  Under p _ \<Rightarrow> extent_contains h (grant_real d) (Position p)
                | Everywhere \<Rightarrow> extent_contains h (grant_real d) subject.Everywhere)
           | exec_allow.File _ r _ \<Rightarrow> extent_contains h (grant_real d) (Position r)
           | _ \<Rightarrow> False)
      | exec_allow.File _ r _ \<Rightarrow>
          (case k of exec_allow.File _ r' _ \<Rightarrow> contains h r r' \<and> contains h r' r | _ \<Rightarrow> False)
      | exec_allow.Tool t \<Rightarrow> (case k of exec_allow.Tool t' \<Rightarrow> t = t' | _ \<Rightarrow> False))"
  by (cases a; cases k) (auto split: extent.splits)

lemma extent_same_place:
  "contains h r p \<Longrightarrow> position at = Some p \<Longrightarrow>
     extent_contains h e (Position r) \<Longrightarrow> extent_contains h e at"
  by (cases e) (auto simp: beneath_def intro: contains_trans)

lemma extent_same_place':
  "contains h p r \<Longrightarrow> position at = Some p \<Longrightarrow>
     extent_contains h e at \<Longrightarrow> extent_contains h e (Position r)"
  by (cases e) (auto simp: beneath_def intro: contains_trans)

interpretation exec: evidence_table "exec_contains h" exec_own "exec_matches h" for h
proof unfold_locales
  fix a k :: exec_allow and s
  show "exec_contains h a (exec_own a)" by (rule exec_contains_own)
  show "exec_contains h a (exec_own k) \<or> exec_contains h k (exec_own a)"
    if "exec_contains h a s" "exec_contains h k s"
    using that unfolding exec_own_cases unfolding exec_contains_cases [of h _ s]
    by (cases a; cases k; cases s)
      (auto dest: dir_nested intro: contains_trans extent_same_place')
  show "exec_contains h a s" if "exec_contains h a (exec_own k)" "exec_contains h k s"
    using that unfolding exec_own_cases unfolding exec_contains_cases [of h _ s]
    by (cases a; cases k; cases s)
      (auto dest: dir_detects intro: contains_trans extent_same_place)
qed

abbreviation exec_supports :: "host \<Rightarrow> exec_rules \<Rightarrow> exec_subject \<Rightarrow> bool" where
  "exec_supports h \<equiv> supports (exec_contains h)"

abbreviation exec_excludes :: "host \<Rightarrow> exec_rules \<Rightarrow> exec_subject \<Rightarrow> bool" where
  "exec_excludes h \<equiv> excludes (exec_matches h)"

abbreviation exec_evidence :: "host \<Rightarrow> exec_rules \<Rightarrow> exec_subject \<Rightarrow> evidence" where
  "exec_evidence h \<equiv> evidence (exec_contains h) (exec_matches h)"

abbreviation exec_withheld :: "host \<Rightarrow> exec_rules \<Rightarrow> exec_subject \<Rightarrow> exec_deny withheld option" where
  "exec_withheld h \<equiv> withheld (exec_contains h) (exec_matches h)"

abbreviation exec_meet :: "host \<Rightarrow> exec_rules \<Rightarrow> exec_rules \<Rightarrow> exec_rules" where
  "exec_meet h \<equiv> table_meet (exec_contains h) exec_own"

section \<open>Table operations\<close>

datatype rule = Allow exec_allow | Deny exec_deny

fun rule_allow :: "rule \<Rightarrow> exec_allow option" where
  "rule_allow (Allow a) = Some a"
| "rule_allow (Deny _) = None"

fun rule_deny :: "rule \<Rightarrow> exec_deny option" where
  "rule_deny (Deny d) = Some d"
| "rule_deny (Allow _) = None"

definition rules_of :: "rule list \<Rightarrow> exec_rules" where
  "rules_of rs = table_new (List.map_filter rule_allow rs) (List.map_filter rule_deny rs)"

fun is_tool :: "exec_allow \<Rightarrow> bool" where
  "is_tool (exec_allow.Tool _) = True"
| "is_tool _ = False"

definition for_kernel :: "exec_rules \<Rightarrow> real_path fset \<Rightarrow> exec_rules" where
  "for_kernel t files =
     table_join
       \<lparr>allows = ffilter (\<lambda>a. \<not> is_tool a) (allows t), denies = denies t\<rparr>
       \<lparr>allows = support |`| files, denies = {||}\<rparr>"

fun place_of :: "exec_allow \<Rightarrow> fs_allow option" where
  "place_of (exec_allow.Dir d) =
     (case grant_real d of
        Everywhere \<Rightarrow> Some (Prefix d)
      | Under place _ \<Rightarrow> Some (RunPlace place))"
| "place_of (exec_allow.File _ place _) = Some (RunPlace place)"
| "place_of _ = None"

definition places :: "exec_rules \<Rightarrow> fs_allow list" where
  "places t = List.map_filter place_of (sorted_list_of_fset (allows t))"

definition allowed_files :: "host \<Rightarrow> exec_rules \<Rightarrow> real_path list" where
  "allowed_files h t =
     List.map_filter (\<lambda>a. case a of exec_allow.File _ r _ \<Rightarrow> Some r | _ \<Rightarrow> None)
       (live (exec_contains h) exec_own (exec_matches h) t)"

definition allowed_dirs :: "host \<Rightarrow> exec_rules \<Rightarrow> real_path list" where
  "allowed_dirs h t =
     List.map_filter
       (\<lambda>a. case a of exec_allow.Dir d \<Rightarrow> Some (extent_position (grant_real d)) | _ \<Rightarrow> None)
       (live (exec_contains h) exec_own (exec_matches h) t)"

definition exec_join_top :: "exec_rules \<Rightarrow> exec_rules option" where
  "exec_join_top t =
     (if allows t = {||} \<and> denies t = {||} then None
      else Some (table_join t (table_new [exec_allow.Any] [])))"

definition exec_is_top :: "exec_rules \<Rightarrow> bool" where
  "exec_is_top t \<longleftrightarrow> exec_allow.Any |\<in>| allows t \<and> denies t = {||}"

section \<open>Facts about the table operations\<close>

lemma places_set: "p \<in> set (places t) \<longleftrightarrow> (\<exists>a\<in>fset (allows t). place_of a = Some p)"
  by (simp add: places_def map_filter_set)

text \<open>A place contains the access to a program the allowance contains.\<close>

lemma place_of_contains:
  "exec_contains h a (Program (Access t)) \<Longrightarrow> place_of a = Some p \<Longrightarrow> fs_contains h p (Access t)"
  by (cases a) (auto split: extent.splits)

lemma exec_excludes_any [simp]: "\<not> exec_excludes h t exec_subject.Any"
proof -
  have "exec_matches h d exec_subject.Any = None" for d by (cases d) auto
  then show ?thesis by (simp add: excludes_def)
qed

lemma exec_supports_any: "exec_supports h t exec_subject.Any \<longleftrightarrow> exec_allow.Any |\<in>| allows t"
proof -
  have "exec_contains h a exec_subject.Any \<longleftrightarrow> a = exec_allow.Any" for a by (cases a) auto
  then show ?thesis by (auto simp: supports_def)
qed

lemma exec_supports_any_all: "exec_allow.Any |\<in>| allows t \<Longrightarrow> exec_supports h t s"
  unfolding supports_def by (rule bexI [of _ exec_allow.Any]) auto

lemma for_kernel_evidence:
  assumes "\<And>n. s \<noteq> exec_subject.Tool n"
  shows "exec_evidence h (for_kernel t files) s =
           exec_evidence h (table_join t \<lparr>allows = support |`| files, denies = {||}\<rparr>) s"
proof -
  have "exec_contains h a s \<Longrightarrow> \<not> is_tool a" for a
    using assms by (cases a; cases s) auto
  then have "supports (exec_contains h) \<lparr>allows = ffilter (\<lambda>a. \<not> is_tool a) (allows t), denies = denies t\<rparr> s
      = exec_supports h t s"
    by (auto simp: supports_def)
  then show ?thesis by (simp add: for_kernel_def evidence_def) (simp add: excludes_def)
qed

end
