(* ===== verification/Grant_Lattice.thy ===== *)
theory Grant_Lattice
  imports Exec_Policy
begin

text \<open>
  Layers of authority and the stack of them (\<open>core/src/authority/policy/lattice.rs\<close>): the axes
  of a layer, extension of a layer by a fragment, and the folds over a stack that read no
  path.  The authored form (\<open>Capabilities\<close> and what resolves it), the shown form
  (\<open>GrantSummary\<close>) and the wire form are not modelled.
\<close>

section \<open>Axes\<close>

datatype editor_verb = Read | Write | Tui
datatype shell_verb = Chdir | Detach
datatype net = Offline
datatype gpu = Withheld

text \<open>\<open>VariantArray\<close> of the two verb enumerations, as many as \<open>is_top\<close> counts.\<close>

definition editor_variants :: "editor_verb fset" where
  "editor_variants = {|editor_verb.Read, editor_verb.Write, Tui|}"

definition shell_variants :: "shell_verb fset" where
  "shell_variants = {|Chdir, Detach|}"

definition verbs_join :: "'v fset \<Rightarrow> 'v fset \<Rightarrow> 'v fset" where
  "verbs_join a b = a |\<union>| b"

definition verbs_join_top :: "'v fset \<Rightarrow> 'v fset option" where
  "verbs_join_top a = None"

definition verbs_is_top :: "'v fset \<Rightarrow> 'v fset \<Rightarrow> bool" where
  "verbs_is_top variants a \<longleftrightarrow> fcard a = fcard variants"

fun net_join :: "net \<Rightarrow> net \<Rightarrow> net" where
  "net_join _ _ = Offline"

fun net_join_top :: "net \<Rightarrow> net option" where
  "net_join_top _ = Some Offline"

fun gpu_join :: "gpu \<Rightarrow> gpu \<Rightarrow> gpu" where
  "gpu_join _ _ = Withheld"

fun gpu_join_top :: "gpu \<Rightarrow> gpu option" where
  "gpu_join_top _ = Some Withheld"

text \<open>\<open>Axis::is_top\<close> of a veto: it always restricts.\<close>

definition veto_is_top :: "'v \<Rightarrow> bool" where
  "veto_is_top _ = False"

section \<open>Layers\<close>

record grant_layer =
  fs :: "fs_layer option"
  exec :: "exec_rules option"
  net :: "net option"
  gpu :: "gpu option"
  editor :: "editor_verb fset option"
  shell :: "shell_verb fset option"

definition layer_root :: grant_layer where
  "layer_root =
     \<lparr>fs = None, exec = None, net = None, gpu = None, editor = None, shell = None\<rparr>"

text \<open>\<open>base \<triangleleft> fragment\<close> on one axis; the axis's join and \<open>join_top\<close> come first.\<close>

fun extend_axis ::
  "('t \<Rightarrow> 't \<Rightarrow> 't) \<Rightarrow> ('t \<Rightarrow> 't option) \<Rightarrow> 't option \<Rightarrow> 't option \<Rightarrow> 't option"
where
  "extend_axis join join_top base None = base"
| "extend_axis join join_top None (Some fragment) = join_top fragment"
| "extend_axis join join_top (Some base) (Some fragment) = Some (join base fragment)"

datatype fragment = Fragment grant_layer

fun extend :: "grant_layer \<Rightarrow> fragment \<Rightarrow> grant_layer" where
  "extend base (Fragment f) =
     \<lparr>fs = extend_axis fs_layer_join fs_join_top (fs base) (fs f),
      exec = extend_axis table_join exec_join_top (exec base) (exec f),
      net = extend_axis net_join net_join_top (net base) (net f),
      gpu = extend_axis gpu_join gpu_join_top (gpu base) (gpu f),
      editor = extend_axis verbs_join verbs_join_top (editor base) (editor f),
      shell = extend_axis verbs_join verbs_join_top (shell base) (shell f)\<rparr>"

definition restricts :: "('t \<Rightarrow> bool) \<Rightarrow> 't option \<Rightarrow> bool" where
  "restricts is_top axis \<longleftrightarrow> (case axis of None \<Rightarrow> False | Some a \<Rightarrow> \<not> is_top a)"

definition layer_is_restrictive :: "grant_layer \<Rightarrow> bool" where
  "layer_is_restrictive l \<longleftrightarrow>
     restricts fs_is_top (fs l) \<or> restricts exec_is_top (exec l) \<or>
     restricts veto_is_top (net l) \<or> restricts veto_is_top (gpu l) \<or>
     restricts (verbs_is_top editor_variants) (editor l) \<or>
     restricts (verbs_is_top shell_variants) (shell l)"

datatype flag = Editor editor_verb | Shell shell_verb

fun vote :: "flag \<Rightarrow> grant_layer \<Rightarrow> bool option" where
  "vote (Editor v) l = map_option (\<lambda>s. v |\<in>| s) (editor l)"
| "vote (Shell v) l = map_option (\<lambda>s. v |\<in>| s) (shell l)"

section \<open>Stacks\<close>

type_synonym grant_stack = "grant_layer list"

definition stack_root :: grant_stack where
  "stack_root = [layer_root]"

definition push :: "grant_stack \<Rightarrow> grant_layer \<Rightarrow> grant_stack" where
  "push g l = g @ [l]"

text \<open>\<open>Vec::drain(at..at + n)\<close>, which panics past the end: \<open>None\<close>.\<close>

definition remove :: "grant_stack \<Rightarrow> nat \<Rightarrow> nat \<Rightarrow> grant_stack option" where
  "remove g at n = (if at + n \<le> length g then Some (take at g @ drop (at + n) g) else None)"

definition stack_exec :: "grant_stack \<Rightarrow> exec_rules list" where
  "stack_exec g = List.map_filter exec g"

definition stack_fs :: "grant_stack \<Rightarrow> fs_layer list" where
  "stack_fs g = List.map_filter fs g"

definition stack_net :: "grant_stack \<Rightarrow> net list" where
  "stack_net g = List.map_filter net g"

definition stack_gpu :: "grant_stack \<Rightarrow> gpu list" where
  "stack_gpu g = List.map_filter gpu g"

definition net_veto :: "grant_stack \<Rightarrow> net option" where
  "net_veto g = (case stack_net g of [] \<Rightarrow> None | v # _ \<Rightarrow> Some v)"

definition flag_permitted :: "grant_stack \<Rightarrow> flag \<Rightarrow> bool" where
  "flag_permitted g f \<longleftrightarrow> list_all (\<lambda>l. vote f l \<noteq> Some False) g"

definition is_restrictive :: "grant_stack \<Rightarrow> bool" where
  "is_restrictive g \<longleftrightarrow> list_ex layer_is_restrictive g"

definition stack_is_root :: "grant_stack \<Rightarrow> bool" where
  "stack_is_root g \<longleftrightarrow> list_all (\<lambda>l. l = layer_root) g"

definition stack_exec_is_top :: "grant_stack \<Rightarrow> bool" where
  "stack_exec_is_top g \<longleftrightarrow> list_all exec_is_top (stack_exec g)"

definition stack_fs_is_top :: "grant_stack \<Rightarrow> bool" where
  "stack_fs_is_top g \<longleftrightarrow> list_all fs_is_top (stack_fs g)"

section \<open>Well-formed layers\<close>

text \<open>
  What every layer the code makes satisfies: its fs tables come from the constructor, and a
  name exclusion is the key of a name.
\<close>

definition keyed :: "host \<Rightarrow> exec_rules \<Rightarrow> bool" where
  "keyed h t \<longleftrightarrow> (\<forall>key. exec_deny.Name key |\<in>| denies t \<longrightarrow> (\<exists>n. key = command_name_key h n))"

definition layer_ok :: "host \<Rightarrow> grant_layer \<Rightarrow> bool" where
  "layer_ok h l \<longleftrightarrow>
     (case fs l of None \<Rightarrow> True | Some f \<Rightarrow> fs_layer_ok f) \<and>
     (case exec l of None \<Rightarrow> True | Some e \<Rightarrow> keyed h e)"

lemma keyed_join: "keyed h a \<Longrightarrow> keyed h b \<Longrightarrow> keyed h (table_join a b)"
  by (auto simp: keyed_def table_join_def)

lemma keyed_join_top: "keyed h a \<Longrightarrow> exec_join_top a = Some b \<Longrightarrow> keyed h b"
  by (auto simp: exec_join_top_def keyed_def table_join_def table_new_def split: if_splits)

lemma extend_ok: "layer_ok h base \<Longrightarrow> layer_ok h f \<Longrightarrow> layer_ok h (extend base (Fragment f))"
  by (cases "fs base"; cases "fs f"; cases "exec base"; cases "exec f")
    (auto simp: layer_ok_def fs_layer_join_ok keyed_join split: option.splits
      intro: fs_join_top_ok keyed_join_top)

section \<open>What a layer lets through\<close>

text \<open>Truth of a layer's axis at a request, an omitted axis being \<open>t\<close>.\<close>

definition layer_exec :: "host \<Rightarrow> grant_layer \<Rightarrow> exec_subject \<Rightarrow> evidence" where
  "layer_exec h l s = (case exec l of None \<Rightarrow> ALLOW | Some t \<Rightarrow> exec_evidence h t s)"

definition layer_fs :: "host \<Rightarrow> grant_layer \<Rightarrow> fs_op \<Rightarrow> subject \<Rightarrow> evidence" where
  "layer_fs h l op s = (case fs l of None \<Rightarrow> ALLOW | Some t \<Rightarrow> fs_evidence h (fs_table t op) s)"

text \<open>Evidence of a fragment, an omitted axis being \<open>\<bottom>\<close>.\<close>

definition fragment_exec :: "host \<Rightarrow> grant_layer \<Rightarrow> exec_subject \<Rightarrow> evidence" where
  "fragment_exec h l s = (case exec l of None \<Rightarrow> NEITHER | Some t \<Rightarrow> exec_evidence h t s)"

definition fragment_fs :: "host \<Rightarrow> grant_layer \<Rightarrow> fs_op \<Rightarrow> subject \<Rightarrow> evidence" where
  "fragment_fs h l op s =
     (case fs l of None \<Rightarrow> NEITHER | Some t \<Rightarrow> fs_evidence h (fs_table t op) s)"

lemma exec_join_top_evidence:
  "(case exec_join_top t of None \<Rightarrow> ALLOW | Some u \<Rightarrow> exec_evidence h u s) =
     evidence_join ALLOW (exec_evidence h t s)"
proof (cases "allows t = {||} \<and> denies t = {||}")
  case True
  then show ?thesis
    by (simp add: exec_join_top_def evidence_join_def evidence_def ALLOW_def supports_def excludes_def)
next
  case False
  then show ?thesis
    by (simp add: exec_join_top_def evidence_simps)
      (auto simp: evidence_join_def evidence_def ALLOW_def)
qed

lemma extend_exec:
  "layer_exec h (extend base (Fragment f)) s =
     evidence_join (layer_exec h base s) (fragment_exec h f s)"
  using exec_join_top_evidence
  by (cases "exec base"; cases "exec f")
    (simp_all add: layer_exec_def fragment_exec_def evidence_simps)

lemma fs_everywhere_evidence: "fs_evidence h fs_everywhere s = ALLOW"
  by (simp add: evidence_def fs_everywhere_def everywhere_def ALLOW_def)

lemma fs_join_top_evidence:
  assumes "fs_layer_ok t"
  shows "(case fs_join_top t of None \<Rightarrow> ALLOW | Some u \<Rightarrow> fs_evidence h (fs_table u op) s) =
           evidence_join ALLOW (fs_evidence h (fs_table t op) s)"
proof (cases "denies (fs_write t) = {||}")
  case True
  then have "\<not> fs_excludes h (fs_table t op) s"
    using assms by (cases op) (auto simp: fs_layer_ok_def excludes_def)
  with True show ?thesis
    by (simp add: fs_join_top_def evidence_join_def evidence_def ALLOW_def)
next
  case False
  then show ?thesis
    by (cases op)
      (auto simp: fs_join_top_def evidence_simps fs_everywhere_evidence evidence_join_def
        evidence_eq_iff ALLOW_def)
qed

lemma fs_table_join: "fs_table (fs_layer_join a b) op = table_join (fs_table a op) (fs_table b op)"
  by (cases op) (simp_all add: fs_layer_join_def)

lemma extend_fs:
  assumes "layer_ok h f"
  shows "layer_fs h (extend base (Fragment f)) op s =
           evidence_join (layer_fs h base op s) (fragment_fs h f op s)"
proof (cases "fs f")
  case None
  then show ?thesis by (simp add: layer_fs_def fragment_fs_def)
next
  case (Some t)
  then have "fs_layer_ok t" using assms by (simp add: layer_ok_def)
  then show ?thesis
    using Some fs_join_top_evidence [of t h op s]
    by (cases "fs base") (simp_all add: layer_fs_def fragment_fs_def fs_table_join evidence_simps)
qed

section \<open>What denotes \<open>t\<close>\<close>

lemma fs_is_top_iff:
  assumes "fs_layer_ok l"
  shows "fs_is_top l \<longleftrightarrow> (\<forall>op s. fs_evidence h (fs_table l op) s = ALLOW)"
proof
  assume top: "fs_is_top l"
  then have w: "fs_supports h (fs_write l) subject.Everywhere" "denies (fs_write l) = {||}"
    by (auto simp: fs_is_top_def fs_supports_everywhere)
  then have "fs_supports h (fs_table l op) s" "\<not> fs_excludes h (fs_table l op) s" for op s
    using fs_supports_everywhere_all [OF w(1)] fs_layer_ok_supports [OF assms]
      fs_layer_ok_excludes [OF assms] by (cases op; auto simp: excludes_def)+
  then show "\<forall>op s. fs_evidence h (fs_table l op) s = ALLOW"
    by (simp add: evidence_def ALLOW_def)
next
  assume "\<forall>op s. fs_evidence h (fs_table l op) s = ALLOW"
  then have "fs_evidence h (fs_write l) s = ALLOW" for s
    by (metis fs_table.simps(2))
  then have "fs_supports h (fs_write l) s" "\<not> fs_excludes h (fs_write l) s" for s
    by (simp_all add: evidence_def ALLOW_def)
  then show "fs_is_top l"
    unfolding fs_is_top_def no_denies_iff [where h = h] fs_supports_everywhere [where h = h, symmetric]
    by blast
qed

lemma exec_denied_somewhere:
  assumes "keyed h t" and "d |\<in>| denies t"
  shows "\<exists>s. exec_excludes h t s"
proof (cases d)
  case (Name key)
  then obtain n where "key = command_name_key h n" using assms by (auto simp: keyed_def)
  then have "exec_matches h d (exec_subject.Tool n) \<noteq> None" by (simp add: Name vetoes_def)
  then show ?thesis using assms(2) unfolding excludes_def by blast
next
  case (Dir g)
  have "exec_matches h d (exec_subject.Dir (Position (real (named (grant_real g))))) \<noteq> None"
    using fs_matches_own [of h "FsDeny g"] by (simp add: Dir fs_matches_def)
  then show ?thesis using assms(2) unfolding excludes_def by blast
next
  case (File g)
  let ?r = "real (named (grant_real g))"
  have "hold_matches h (named_hold (grant_real g)) (Position ?r) Exact = Some matched_by.Name"
    by (simp add: hold_matches_def real_matched_by_def held_at_def named_def)
      (simp add: contains_def [symmetric])
  then have "exec_matches h d (Program (Position ?r)) \<noteq> None"
    using excluded_matches_iff [of h "grant_real g" "Position ?r" Exact]
    by (simp add: File holds_def)
  then show ?thesis using assms(2) unfolding excludes_def by blast
qed

lemma exec_is_top_iff:
  assumes "keyed h t"
  shows "exec_is_top t \<longleftrightarrow> (\<forall>s. exec_evidence h t s = ALLOW)"
proof
  assume "exec_is_top t"
  then show "\<forall>s. exec_evidence h t s = ALLOW"
    using exec_supports_any_all [of t h]
    by (auto simp: exec_is_top_def evidence_def ALLOW_def excludes_def)
next
  assume "\<forall>s. exec_evidence h t s = ALLOW"
  then have "exec_supports h t s" "\<not> exec_excludes h t s" for s
    by (simp_all add: evidence_def ALLOW_def)
  then show "exec_is_top t"
    using exec_denied_somewhere [OF assms] exec_supports_any [of h t]
    unfolding exec_is_top_def by (metis ex_fin_conv)
qed

end
