(* ===== verification/Judgment.thy ===== *)
theory Judgment
  imports Grant_Lattice
begin

text \<open>
  The judgments of a stack: the fs folds and the read and write judgments
  (\<open>core/src/authority/policy/fs.rs\<close>), the exec table and the admission of a program
  (\<open>core/src/authority/policy/exec.rs\<close>).  A located object is judged by its trace alone, so it
  is its trace here; what the judgment vouches for is the \<open>Inr\<close> of its result.
\<close>

section \<open>The baseline\<close>

record baseline =
  reads :: "fs_allow list"
  image :: "trace option"
  protected :: "(object_id \<times> bytes) list"

definition baseline_of :: "fs_allow list \<Rightarrow> baseline" where
  "baseline_of as = \<lparr>reads = as, image = None, protected = []\<rparr>"

definition with_images :: "baseline \<Rightarrow> trace option \<Rightarrow> (object_id \<times> bytes) list \<Rightarrow> baseline" where
  "with_images b i p = b\<lparr>image := i, protected := p\<rparr>"

definition protected_name :: "baseline \<Rightarrow> object_id \<Rightarrow> bytes option" where
  "protected_name b i = map_option snd (List.find (\<lambda>(held, _). held = i) (protected b))"

section \<open>The folds\<close>

definition meet_onto :: "('t \<Rightarrow> 't \<Rightarrow> 't) \<Rightarrow> 't option \<Rightarrow> 't \<Rightarrow> 't option" where
  "meet_onto meet acc next =
     Some (case acc of Some held \<Rightarrow> meet held next | None \<Rightarrow> next)"

record folded =
  plain :: fs_rules
  placed :: fs_rules

definition run_after :: "host \<Rightarrow> exec_rules option \<Rightarrow> grant_layer \<Rightarrow> exec_rules option" where
  "run_after h run l = (case exec l of None \<Rightarrow> run | Some e \<Rightarrow> meet_onto (exec_meet h) run e)"

definition run_places :: "exec_rules option \<Rightarrow> fs_allow list" where
  "run_places run = (case run of None \<Rightarrow> [] | Some r \<Rightarrow> places r)"

fun fold_layers ::
  "host \<Rightarrow> fs_op \<Rightarrow> grant_layer list \<Rightarrow> exec_rules option \<Rightarrow>
     fs_rules option \<Rightarrow> fs_rules option \<Rightarrow> fs_rules option \<times> fs_rules option"
where
  "fold_layers h op [] run pl pd = (pl, pd)"
| "fold_layers h op (l # ls) run pl pd =
     (let run' = run_after h run l in
      case fs l of
        None \<Rightarrow> fold_layers h op ls run' pl pd
      | Some f \<Rightarrow>
          let t = fs_table f op in
          fold_layers h op ls run'
            (meet_onto (fs_meet h) pl t)
            (meet_onto (fs_meet h) pd (table_join t (table_new (run_places run') []))))"

definition rposition :: "('a \<Rightarrow> bool) \<Rightarrow> 'a list \<Rightarrow> nat option" where
  "rposition P xs = List.find (\<lambda>i. P (xs ! i)) (rev [0..<length xs])"

definition with_system_reads :: "fs_op \<Rightarrow> baseline \<Rightarrow> fs_rules \<Rightarrow> fs_rules" where
  "with_system_reads op b met =
     (case op of fs_op.Read \<Rightarrow> table_join met (table_new (reads b) []) | fs_op.Write \<Rightarrow> met)"

definition fold_stack :: "host \<Rightarrow> grant_stack \<Rightarrow> fs_op \<Rightarrow> baseline \<Rightarrow> folded option" where
  "fold_stack h g op b =
     (case rposition (\<lambda>l. fs l \<noteq> None) g of
        None \<Rightarrow> None
      | Some at \<Rightarrow>
          (case fold_layers h op (take (Suc at) g) None None None of
             (Some pl, Some pd) \<Rightarrow>
               Some \<lparr>plain = with_system_reads op b pl, placed = with_system_reads op b pd\<rparr>
           | _ \<Rightarrow> None))"

definition region :: "host \<Rightarrow> grant_stack \<Rightarrow> fs_op \<Rightarrow> baseline \<Rightarrow> fs_rules option" where
  "region h g op b = map_option plain (fold_stack h g op b)"

definition running_region :: "host \<Rightarrow> grant_stack \<Rightarrow> baseline \<Rightarrow> fs_rules option" where
  "running_region h g b = map_option placed (fold_stack h g fs_op.Read b)"

section \<open>The fs judgments\<close>

text \<open>\<open>ReadRegion::withheld\<close>; \<open>None\<close> is the region of a stack no layer of which holds an fs opinion.\<close>

definition read_region_withheld ::
  "host \<Rightarrow> folded option \<Rightarrow> subject \<Rightarrow> fs_deny withheld + unit"
where
  "read_region_withheld h r s =
     (case r of
        None \<Rightarrow> Inr ()
      | Some f \<Rightarrow>
          (case fs_withheld h (plain f) s of
             None \<Rightarrow> Inr ()
           | Some MissingAllowance \<Rightarrow>
               (case fs_withheld h (placed f) s of None \<Rightarrow> Inr () | Some why \<Rightarrow> Inl why)
           | Some excluded \<Rightarrow> Inl excluded))"

definition read_region :: "host \<Rightarrow> grant_stack \<Rightarrow> baseline \<Rightarrow> folded option" where
  "read_region h g b = fold_stack h g fs_op.Read b"

text \<open>\<open>ReadRegion::admits\<close>: an entry by what the listing saw of it, else by its position.\<close>

definition region_admits ::
  "host \<Rightarrow> folded option \<Rightarrow> trace \<Rightarrow> entry_name \<Rightarrow> step option \<Rightarrow> bool"
where
  "region_admits h r parent n seen =
     is_ok (case seen of
       Some s \<Rightarrow> read_region_withheld h r (Listed parent s)
     | None \<Rightarrow> read_region_withheld h r (Position (child (real parent) n)))"

definition stack_read :: "host \<Rightarrow> grant_stack \<Rightarrow> baseline \<Rightarrow> trace \<Rightarrow> fs_deny withheld + unit" where
  "stack_read h g b t = read_region_withheld h (read_region h g b) (Access t)"

definition stack_write :: "host \<Rightarrow> grant_stack \<Rightarrow> baseline \<Rightarrow> trace \<Rightarrow> fs_deny withheld + unit" where
  "stack_write h g b t =
     (case region h g fs_op.Write b of
        None \<Rightarrow> Inr ()
      | Some r \<Rightarrow>
          (case fs_withheld h r (Access t) of None \<Rightarrow> Inr () | Some why \<Rightarrow> Inl why))"

datatype refused = Guarded bytes | Withheld "fs_deny withheld"

definition refusal_fs ::
  "host \<Rightarrow> grant_stack \<Rightarrow> baseline \<Rightarrow> fs_op \<Rightarrow> trace \<Rightarrow> refused + unit"
where
  "refusal_fs h g b op t =
     (case op of
        fs_op.Write \<Rightarrow>
          (case Option.bind (leaf_id t) (protected_name b) of
             Some pinned \<Rightarrow> Inl (Guarded pinned)
           | None \<Rightarrow> map_sum Withheld id (stack_write h g b t))
      | fs_op.Read \<Rightarrow> map_sum Withheld id (stack_read h g b t))"

definition admits_fs :: "host \<Rightarrow> grant_stack \<Rightarrow> baseline \<Rightarrow> fs_op \<Rightarrow> trace \<Rightarrow> bool" where
  "admits_fs h g b op t = is_ok (refusal_fs h g b op t)"

definition read_not_excluded ::
  "host \<Rightarrow> grant_stack \<Rightarrow> baseline \<Rightarrow> trace \<Rightarrow> fs_deny withheld + unit"
where
  "read_not_excluded h g b t =
     (case Option.bind (region h g fs_op.Read b) (\<lambda>r. fs_withheld h r (Access t)) of
        Some (Excluded d by) \<Rightarrow> Inl (Excluded d by)
      | _ \<Rightarrow> Inr ())"

section \<open>Admission of a program\<close>

definition stack_rules :: "host \<Rightarrow> grant_stack \<Rightarrow> exec_rules option" where
  "stack_rules h g = reduce_with (exec_meet h) (stack_exec g)"

datatype program = Tool bytes | File bytes trace

fun program_subject :: "program \<Rightarrow> exec_subject" where
  "program_subject (program.Tool name) = exec_subject.Tool name"
| "program_subject (program.File arg0 t) = Program (Access t)"

datatype exec_denial = Run "exec_deny withheld" | ReadDenied "fs_deny withheld"

record admitted =
  admitted_program :: program
  admitted_rules :: "exec_rules option"

record exec_refused =
  refused_program :: program
  why :: exec_denial

definition run_withheld ::
  "host \<Rightarrow> exec_rules option \<Rightarrow> exec_subject \<Rightarrow> exec_denial + unit"
where
  "run_withheld h rules s =
     (case Option.bind rules (\<lambda>r. exec_withheld h r s) of
        None \<Rightarrow> Inr ()
      | Some w \<Rightarrow> Inl (Run w))"

definition tool_read :: "host \<Rightarrow> grant_stack \<Rightarrow> baseline \<Rightarrow> fs_deny withheld + unit" where
  "tool_read h g b =
     (case image b of None \<Rightarrow> Inr () | Some own \<Rightarrow> read_not_excluded h g b own)"

definition admit ::
  "host \<Rightarrow> grant_stack \<Rightarrow> baseline \<Rightarrow> program \<Rightarrow> exec_refused + admitted"
where
  "admit h g b p =
     (let rules = stack_rules h g in
      case run_withheld h rules (program_subject p) of
        Inl w \<Rightarrow> Inl \<lparr>refused_program = p, why = w\<rparr>
      | Inr _ \<Rightarrow>
          (case (case p of
                   program.Tool _ \<Rightarrow> tool_read h g b
                 | program.File _ t \<Rightarrow> read_region_withheld h (read_region h g b) (Access t)) of
             Inr _ \<Rightarrow> Inr \<lparr>admitted_program = p, admitted_rules = rules\<rparr>
           | Inl w \<Rightarrow> Inl \<lparr>refused_program = p, why = ReadDenied w\<rparr>))"

definition admit_name :: "host \<Rightarrow> grant_stack \<Rightarrow> baseline \<Rightarrow> trace \<Rightarrow> exec_denial + unit" where
  "admit_name h g b t =
     (case run_withheld h (stack_rules h g) (Program (Access t)) of
        Inl w \<Rightarrow> Inl w
      | Inr _ \<Rightarrow> map_sum ReadDenied id (stack_read h g b t))"

end
