(* ===== verification/Attenuation.thy ===== *)
theory Attenuation
  imports Judgment
begin

text \<open>
  What the folds of \<open>Judgment\<close> denote, and that a stack only ever narrows: each judgment is
  characterised by the layers that hold an opinion, each with the exec meet over it and the
  layers beneath it, and no judgment permits more after a layer is pushed.  The locale
  \<open>attenuation\<close> is that last contract; it is interpreted for the read, write and exec
  judgments and for the verbs.
\<close>

section \<open>The layers that hold an fs opinion\<close>

fun opined :: "host \<Rightarrow> grant_layer list \<Rightarrow> exec_rules option \<Rightarrow> (exec_rules option \<times> fs_layer) list"
where
  "opined h [] run = []"
| "opined h (l # ls) run =
     (case fs l of
        None \<Rightarrow> opined h ls (run_after h run l)
      | Some f \<Rightarrow> (run_after h run l, f) # opined h ls (run_after h run l))"

lemma opined_append:
  "opined h (xs @ ys) run = opined h xs run @ opined h ys (foldl (run_after h) run xs)"
  by (induction xs arbitrary: run) (auto split: option.splits)

lemma map_snd_opined: "map snd (opined h ls run) = stack_fs ls"
  by (induction ls arbitrary: run) (auto simp: stack_fs_def List.map_filter_simps split: option.splits)

lemma opined_Nil_iff: "opined h ls run = [] \<longleftrightarrow> (\<forall>l\<in>set ls. fs l = None)"
  by (induction ls arbitrary: run) (auto split: option.splits)

definition placed_table :: "fs_op \<Rightarrow> exec_rules option \<times> fs_layer \<Rightarrow> fs_rules" where
  "placed_table op p = table_join (fs_table (snd p) op) (table_new (run_places (fst p)) [])"

definition onto :: "('t \<Rightarrow> 't \<Rightarrow> 't) \<Rightarrow> 't option \<Rightarrow> 't list \<Rightarrow> 't option" where
  "onto m acc xs = foldl (meet_onto m) acc xs"

lemma onto_Some: "onto m (Some a) xs = Some (foldl m a xs)"
  unfolding onto_def by (induction xs arbitrary: a) (auto simp: meet_onto_def)

lemma onto_None: "onto m None xs = reduce_with m xs"
  using onto_Some [of m] by (cases xs) (auto simp: onto_def meet_onto_def)

lemma onto_Cons: "onto m acc (x # xs) = onto m (meet_onto m acc x) xs"
  by (simp add: onto_def)

lemma fold_layers_opined:
  "fold_layers h op ls run pl pd =
     (onto (fs_meet h) pl (map (\<lambda>p. fs_table (snd p) op) (opined h ls run)),
      onto (fs_meet h) pd (map (placed_table op) (opined h ls run)))"
proof (induction ls arbitrary: run pl pd)
  case Nil
  then show ?case by (simp add: onto_def)
next
  case (Cons l ls)
  show ?case
    by (cases "fs l") (simp_all add: Cons.IH onto_Cons Let_def placed_table_def)
qed

lemma rposition_None: "rposition P xs = None \<longleftrightarrow> (\<forall>x\<in>set xs. \<not> P x)"
  unfolding rposition_def find_None_iff by (simp add: all_set_conv_all_nth)

lemma find_rev_upt:
  "List.find Q (rev [0..<n]) = Some i \<Longrightarrow> i < n \<and> Q i \<and> (\<forall>j. i < j \<longrightarrow> j < n \<longrightarrow> \<not> Q j)"
  by (induction n) (auto split: if_splits simp: less_Suc_eq)

lemma rposition_Some:
  assumes "rposition P xs = Some i"
  shows "i < length xs" and "\<forall>x\<in>set (drop (Suc i) xs). \<not> P x" and "P (xs ! i)"
  using find_rev_upt [OF assms [unfolded rposition_def]]
  by (auto simp: in_set_conv_nth)

lemma opined_take:
  assumes "rposition (\<lambda>l. fs l \<noteq> None) g = Some i"
  shows "opined h (take (Suc i) g) run = opined h g run"
proof -
  have "opined h (drop (Suc i) g) r = []" for r
    using rposition_Some(2) [OF assms] by (auto simp: opined_Nil_iff)
  then show ?thesis
    using opined_append [of h "take (Suc i) g" "drop (Suc i) g" run] by simp
qed

definition met :: "host \<Rightarrow> fs_rules list \<Rightarrow> fs_rules" where
  "met h ts = the (reduce_with (fs_meet h) ts)"

lemma reduce_met: "ts \<noteq> [] \<Longrightarrow> reduce_with (fs_meet h) ts = Some (met h ts)"
  by (cases ts) (auto simp: met_def)

lemma fold_stack_opined:
  "fold_stack h g op b =
     (let os = opined h g None in
      if os = [] then None
      else Some \<lparr>plain = with_system_reads op b (met h (map (\<lambda>p. fs_table (snd p) op) os)),
                 placed = with_system_reads op b (met h (map (placed_table op) os))\<rparr>)"
proof (cases "rposition (\<lambda>l. fs l \<noteq> None) g")
  case None
  then have "opined h g None = []" by (auto simp: opined_Nil_iff rposition_None)
  with None show ?thesis by (simp add: fold_stack_def)
next
  case (Some i)
  then have "opined h g None \<noteq> []"
    using rposition_Some(1,3) [OF Some] by (auto simp: opined_Nil_iff dest: nth_mem)
  with Some show ?thesis
    by (simp add: fold_stack_def fold_layers_opined opined_take onto_None reduce_met Let_def)
qed

section \<open>Evidence of the regions\<close>

lemma supports_met:
  "ts \<noteq> [] \<Longrightarrow> fs_supports h (met h ts) s \<longleftrightarrow> (\<forall>t\<in>set ts. fs_supports h t s)"
  by (cases ts) (auto simp: met_def fs.supports_foldl_meet)

lemma excludes_met:
  "ts \<noteq> [] \<Longrightarrow> fs_excludes h (met h ts) s \<longleftrightarrow> (\<exists>t\<in>set ts. fs_excludes h t s)"
  by (cases ts) (auto simp: met_def excludes_foldl_meet)

lemma denies_foldl_meet:
  "fset (denies (foldl (table_meet c own) t ts)) = fset (denies t) \<union> (\<Union>u\<in>set ts. fset (denies u))"
  by (induction ts arbitrary: t) (auto simp: table_meet_def)

lemma denies_met: "ts \<noteq> [] \<Longrightarrow> fset (denies (met h ts)) = (\<Union>t\<in>set ts. fset (denies t))"
  by (cases ts) (auto simp: met_def denies_foldl_meet)

definition system_reads :: "host \<Rightarrow> fs_op \<Rightarrow> baseline \<Rightarrow> subject \<Rightarrow> bool" where
  "system_reads h op b s \<longleftrightarrow> op = fs_op.Read \<and> (\<exists>a\<in>set (reads b). fs_contains h a s)"

lemma supports_system_reads:
  "fs_supports h (with_system_reads op b t) s \<longleftrightarrow> fs_supports h t s \<or> system_reads h op b s"
  by (cases op) (auto simp: with_system_reads_def system_reads_def)

lemma excludes_system_reads [simp]:
  "fs_excludes h (with_system_reads op b t) s \<longleftrightarrow> fs_excludes h t s"
  by (cases op) (auto simp: with_system_reads_def)

lemma denies_system_reads [simp]: "fset (denies (with_system_reads op b t)) = fset (denies t)"
  by (cases op) (auto simp: with_system_reads_def table_join_def table_new_def)

text \<open>Support of one layer's opinion, with the places run over it and beneath it.\<close>

definition layer_places :: "host \<Rightarrow> exec_rules option \<times> fs_layer \<Rightarrow> subject \<Rightarrow> bool" where
  "layer_places h p s \<longleftrightarrow> (\<exists>a\<in>set (run_places (fst p)). fs_contains h a s)"

lemma supports_placed_table:
  "fs_supports h (placed_table op p) s \<longleftrightarrow>
     fs_supports h (fs_table (snd p) op) s \<or> layer_places h p s"
  by (simp add: placed_table_def layer_places_def)

lemma excludes_placed_table [simp]:
  "fs_excludes h (placed_table op p) s = fs_excludes h (fs_table (snd p) op) s"
  by (simp add: placed_table_def)

lemma denies_placed_table [simp]:
  "fset (denies (placed_table op p)) = fset (denies (fs_table (snd p) op))"
  by (simp add: placed_table_def table_join_def table_new_def)

lemma region_None: "region h g op b = None \<longleftrightarrow> stack_fs g = []"
  using map_snd_opined [of h g None] by (auto simp: region_def fold_stack_opined Let_def)

lemma region_Some:
  assumes "region h g op b = Some r"
  shows "fs_supports h r s \<longleftrightarrow>
           (\<forall>f\<in>set (stack_fs g). fs_supports h (fs_table f op) s) \<or> system_reads h op b s"
    and "fs_excludes h r s \<longleftrightarrow> (\<exists>f\<in>set (stack_fs g). fs_excludes h (fs_table f op) s)"
proof -
  have os: "opined h g None \<noteq> []"
    and r: "r = with_system_reads op b (met h (map (\<lambda>p. fs_table (snd p) op) (opined h g None)))"
    using assms by (auto simp: region_def fold_stack_opined Let_def split: if_splits)
  have g: "set (stack_fs g) = snd ` set (opined h g None)"
    by (simp flip: map_snd_opined [of h g None])
  show "fs_supports h r s \<longleftrightarrow>
           (\<forall>f\<in>set (stack_fs g). fs_supports h (fs_table f op) s) \<or> system_reads h op b s"
    using os by (simp add: r g supports_system_reads supports_met)
  show "fs_excludes h r s \<longleftrightarrow> (\<exists>f\<in>set (stack_fs g). fs_excludes h (fs_table f op) s)"
    using os by (simp add: r g excludes_met)
qed

lemma running_region_Some:
  assumes "running_region h g b = Some r"
  shows "fs_supports h r s \<longleftrightarrow>
           (\<forall>p\<in>set (opined h g None). fs_supports h (read (snd p)) s \<or> layer_places h p s) \<or>
           system_reads h fs_op.Read b s"
    and "fs_excludes h r s \<longleftrightarrow> (\<exists>f\<in>set (stack_fs g). fs_excludes h (read f) s)"
proof -
  have os: "opined h g None \<noteq> []"
    and r: "r = with_system_reads fs_op.Read b (met h (map (placed_table fs_op.Read) (opined h g None)))"
    using assms by (auto simp: running_region_def fold_stack_opined Let_def split: if_splits)
  have g: "set (stack_fs g) = snd ` set (opined h g None)"
    by (simp flip: map_snd_opined [of h g None])
  show "fs_supports h r s \<longleftrightarrow>
           (\<forall>p\<in>set (opined h g None). fs_supports h (read (snd p)) s \<or> layer_places h p s) \<or>
           system_reads h fs_op.Read b s"
    using os by (simp add: r supports_system_reads supports_met supports_placed_table)
  show "fs_excludes h r s \<longleftrightarrow> (\<exists>f\<in>set (stack_fs g). fs_excludes h (read f) s)"
    using os by (simp add: r g excludes_met)
qed

section \<open>The read judgment is the running region's\<close>

lemma withheld_Excluded_denies:
  "fset (denies t) = fset (denies u) \<Longrightarrow>
     fs_withheld h t s = Some (Excluded d by) \<longleftrightarrow> fs_withheld h u s = Some (Excluded d by)"
  by (simp only: withheld_Excluded_iff)

lemma read_region_withheld_running:
  "read_region_withheld h (read_region h g b) s =
     (case running_region h g b of
        None \<Rightarrow> Inr ()
      | Some r \<Rightarrow> (case fs_withheld h r s of None \<Rightarrow> Inr () | Some w \<Rightarrow> Inl w))"
proof (cases "opined h g None = []")
  case True
  then show ?thesis
    by (simp add: read_region_withheld_def read_region_def running_region_def fold_stack_opined)
next
  case False
  let ?os = "opined h g None"
  let ?pl = "with_system_reads fs_op.Read b (met h (map (\<lambda>p. read (snd p)) ?os))"
  let ?pd = "with_system_reads fs_op.Read b (met h (map (placed_table fs_op.Read) ?os))"
  have d: "fset (denies ?pl) = fset (denies ?pd)" using False by (simp add: denies_met)
  have sup: "fs_supports h ?pl s \<Longrightarrow> fs_supports h ?pd s"
    using False by (auto simp: supports_system_reads supports_met supports_placed_table)
  have exc: "fs_excludes h ?pl s = fs_excludes h ?pd s" using d by (simp add: excludes_def)
  have "fs_withheld h ?pl s = None \<Longrightarrow> fs_withheld h ?pd s = None"
    using sup exc by (simp add: withheld_None_iff)
  moreover have "fs_withheld h ?pl s = Some (Excluded e by) \<Longrightarrow> fs_withheld h ?pd s = Some (Excluded e by)"
    for e "by"
    using withheld_Excluded_denies [OF d] by blast
  ultimately show ?thesis
    using False
    by (auto simp: read_region_withheld_def read_region_def running_region_def fold_stack_opined
        Let_def split: option.splits withheld.splits)
qed

lemma map_sum_ok [simp]: "is_ok (map_sum f id r) \<longleftrightarrow> is_ok r"
  by (cases r) auto

text \<open>When the read of a subject is permitted, layer by layer.\<close>

definition read_permitted :: "host \<Rightarrow> grant_stack \<Rightarrow> baseline \<Rightarrow> subject \<Rightarrow> bool" where
  "read_permitted h g b s \<longleftrightarrow>
     stack_fs g = [] \<or>
     ((\<forall>p\<in>set (opined h g None). fs_supports h (read (snd p)) s \<or> layer_places h p s) \<or>
      system_reads h fs_op.Read b s) \<and>
     (\<forall>f\<in>set (stack_fs g). \<not> fs_excludes h (read f) s)"

lemma running_region_None: "running_region h g b = None \<longleftrightarrow> stack_fs g = []"
  using map_snd_opined [of h g None] by (auto simp: running_region_def fold_stack_opined Let_def)

lemma read_region_ok: "is_ok (read_region_withheld h (read_region h g b) s) \<longleftrightarrow> read_permitted h g b s"
proof (cases "running_region h g b")
  case None
  then show ?thesis
    by (simp add: read_region_withheld_running read_permitted_def running_region_None [symmetric, where h = h and b = b])
next
  case (Some r)
  then have "stack_fs g \<noteq> []" using running_region_None [of h g b] by auto
  have "is_ok (read_region_withheld h (read_region h g b) s) \<longleftrightarrow> fs_withheld h r s = None"
    by (auto simp: read_region_withheld_running Some split: option.splits)
  also have "\<dots> \<longleftrightarrow> read_permitted h g b s"
    using \<open>stack_fs g \<noteq> []\<close>
    by (simp add: withheld_None_iff running_region_Some [OF Some] read_permitted_def)
  finally show ?thesis .
qed

lemma stack_read_ok: "is_ok (stack_read h g b t) \<longleftrightarrow> read_permitted h g b (Access t)"
  by (simp only: stack_read_def read_region_ok)

definition write_permitted :: "host \<Rightarrow> grant_stack \<Rightarrow> subject \<Rightarrow> bool" where
  "write_permitted h g s \<longleftrightarrow> (\<forall>f\<in>set (stack_fs g). permits (fs_evidence h (fs_write f) s))"

lemma stack_write_ok: "is_ok (stack_write h g b t) \<longleftrightarrow> write_permitted h g (Access t)"
proof (cases "region h g fs_op.Write b")
  case None
  then have "stack_fs g = []" by (simp add: region_None)
  with None show ?thesis by (simp add: stack_write_def write_permitted_def)
next
  case (Some r)
  have "is_ok (stack_write h g b t) \<longleftrightarrow> fs_withheld h r (Access t) = None"
    by (auto simp: stack_write_def Some split: option.splits)
  also have "\<dots> \<longleftrightarrow> write_permitted h g (Access t)"
    using region_Some [OF Some, of "Access t"]
    by (auto simp: withheld_None_iff write_permitted_def system_reads_def)
  finally show ?thesis .
qed

section \<open>Admission, layer by layer\<close>

definition exec_permitted :: "host \<Rightarrow> grant_stack \<Rightarrow> exec_subject \<Rightarrow> bool" where
  "exec_permitted h g s \<longleftrightarrow> (\<forall>e\<in>set (stack_exec g). permits (exec_evidence h e s))"

lemma run_withheld_ok: "is_ok (run_withheld h (stack_rules h g) s) \<longleftrightarrow> exec_permitted h g s"
proof (cases "stack_rules h g")
  case None
  then have "stack_exec g = []" by (simp add: stack_rules_def)
  with None show ?thesis by (simp add: run_withheld_def exec_permitted_def)
next
  case (Some r)
  have "is_ok (run_withheld h (stack_rules h g) s) \<longleftrightarrow> permits (exec_evidence h r s)"
    unfolding withheld_None_iff [symmetric]
    by (cases "exec_withheld h r s") (simp_all add: run_withheld_def Some)
  also have "\<dots> \<longleftrightarrow> exec_permitted h g s"
    unfolding exec_permitted_def
    by (rule exec.permits_reduce) (use Some in \<open>simp add: stack_rules_def\<close>)
  finally show ?thesis .
qed

definition image_permitted :: "host \<Rightarrow> grant_stack \<Rightarrow> baseline \<Rightarrow> bool" where
  "image_permitted h g b \<longleftrightarrow>
     (case image b of
        None \<Rightarrow> True
      | Some own \<Rightarrow> (\<forall>f\<in>set (stack_fs g). \<not> fs_excludes h (read f) (Access own)))"

lemma read_not_excluded_ok:
  "is_ok (read_not_excluded h g b t) \<longleftrightarrow> (\<forall>f\<in>set (stack_fs g). \<not> fs_excludes h (read f) (Access t))"
proof (cases "region h g fs_op.Read b")
  case None
  then have "stack_fs g = []" by (simp add: region_None)
  with None show ?thesis by (simp add: read_not_excluded_def)
next
  case (Some r)
  have "is_ok (read_not_excluded h g b t) \<longleftrightarrow> \<not> fs_excludes h r (Access t)"
    using withheld_None_iff [of "fs_contains h" "fs_matches h" r "Access t"]
      withheld_Missing_iff [of "fs_contains h" "fs_matches h" r "Access t"]
    by (cases "fs_withheld h r (Access t)")
      (auto simp: read_not_excluded_def Some dest: withheld_Excluded_excludes split: withheld.splits)
  then show ?thesis by (simp add: region_Some(2) [OF Some])
qed

lemma tool_read_ok: "is_ok (tool_read h g b) \<longleftrightarrow> image_permitted h g b"
  by (cases "image b") (simp_all add: tool_read_def image_permitted_def read_not_excluded_ok del: is_ok_unit_iff)

lemma admit_ok:
  "is_ok (admit h g b p) \<longleftrightarrow>
     exec_permitted h g (program_subject p) \<and>
     (case p of
        program.Tool _ \<Rightarrow> image_permitted h g b
      | program.File _ t \<Rightarrow> read_permitted h g b (Access t))"
  unfolding run_withheld_ok [symmetric] tool_read_ok [symmetric] read_region_ok [symmetric]
  by (auto simp: admit_def Let_def split: sum.splits program.splits)

lemma admit_name_ok:
  "is_ok (admit_name h g b t) \<longleftrightarrow>
     exec_permitted h g (Program (Access t)) \<and> read_permitted h g b (Access t)"
  unfolding run_withheld_ok [symmetric] stack_read_ok [symmetric]
  by (auto simp: admit_name_def simp del: is_ok_unit_iff split: sum.splits)

lemma admit_keeps_program: "admit h g b p = Inr a \<Longrightarrow> admitted_program a = p \<and> admitted_rules a = stack_rules h g"
  by (auto simp: admit_def Let_def split: sum.splits)

section \<open>The decision on an access\<close>

definition vetoed :: "baseline \<Rightarrow> trace \<Rightarrow> bool" where
  "vetoed b t \<longleftrightarrow> (\<exists>i. leaf_id t = Some i \<and> i \<in> fst ` set (protected b))"

lemma protected_name_None: "protected_name b i = None \<longleftrightarrow> i \<notin> fst ` set (protected b)"
  by (force simp: protected_name_def find_None_iff)

lemma vetoed_iff: "vetoed b t \<longleftrightarrow> Option.bind (leaf_id t) (protected_name b) \<noteq> None"
  unfolding vetoed_def using protected_name_None [of b] by (cases "leaf_id t") auto

lemma admits_fs_read: "admits_fs h g b fs_op.Read t \<longleftrightarrow> read_permitted h g b (Access t)"
  by (simp add: admits_fs_def refusal_fs_def stack_read_ok del: is_ok_unit_iff)

lemma admits_fs_write: "admits_fs h g b fs_op.Write t \<longleftrightarrow> \<not> vetoed b t \<and> write_permitted h g (Access t)"
  by (cases "Option.bind (leaf_id t) (protected_name b)")
    (simp_all add: admits_fs_def refusal_fs_def stack_write_ok vetoed_iff del: is_ok_unit_iff)

section \<open>Attenuation\<close>

text \<open>
  A judgment that only narrows: what is admitted after a push was admitted before it.  Every
  reader of a stack relies on it (a \<open>grant\<close> block can never add authority).
\<close>

locale attenuation =
  fixes admits :: "'g \<Rightarrow> 'q \<Rightarrow> bool"
    and push_onto :: "'g \<Rightarrow> 'l \<Rightarrow> 'g"
  assumes push_narrows: "admits (push_onto g l) q \<Longrightarrow> admits g q"
begin

lemma pushes_narrow: "admits (foldl push_onto g ls) q \<Longrightarrow> admits g q"
  by (induction ls arbitrary: g) (auto dest: push_narrows)

lemma refusal_persists: "\<not> admits g q \<Longrightarrow> \<not> admits (foldl push_onto g ls) q"
  using pushes_narrow by blast

end

lemma stack_fs_push: "set (stack_fs g) \<subseteq> set (stack_fs (push g l))"
  by (auto simp: stack_fs_def push_def map_filter_set)

lemma stack_exec_push: "set (stack_exec g) \<subseteq> set (stack_exec (push g l))"
  by (auto simp: stack_exec_def push_def map_filter_set)

lemma opined_push: "set (opined h g None) \<subseteq> set (opined h (push g l) None)"
  by (simp add: push_def opined_append)

lemma read_permitted_push: "read_permitted h (push g l) b s \<Longrightarrow> read_permitted h g b s"
proof (cases "stack_fs g = []")
  case False
  then have "stack_fs (push g l) \<noteq> []" using stack_fs_push [of g l] by auto
  moreover assume "read_permitted h (push g l) b s"
  ultimately show ?thesis
    using opined_push [of h g l] stack_fs_push [of g l] unfolding read_permitted_def by blast
qed (simp add: read_permitted_def)

lemma write_permitted_push: "write_permitted h (push g l) s \<Longrightarrow> write_permitted h g s"
  using stack_fs_push [of g l] unfolding write_permitted_def by blast

lemma exec_permitted_push: "exec_permitted h (push g l) s \<Longrightarrow> exec_permitted h g s"
  using stack_exec_push [of g l] unfolding exec_permitted_def by blast

lemma image_permitted_push: "image_permitted h (push g l) b \<Longrightarrow> image_permitted h g b"
  using stack_fs_push [of g l] unfolding image_permitted_def by (auto split: option.splits)

interpretation fs_narrows: attenuation "\<lambda>g t. admits_fs h g b op t" push for h b op
proof unfold_locales
  fix g l t
  show "admits_fs h (push g l) b op t \<Longrightarrow> admits_fs h g b op t"
    by (cases op)
      (auto simp: admits_fs_read admits_fs_write dest: read_permitted_push write_permitted_push)
qed

interpretation exec_narrows: attenuation "\<lambda>g p. is_ok (admit h g b p)" push for h b
proof unfold_locales
  fix g l p
  show "is_ok (admit h (push g l) b p) \<Longrightarrow> is_ok (admit h g b p)"
    unfolding admit_ok
    by (auto split: program.splits
        dest: exec_permitted_push image_permitted_push read_permitted_push)
qed

interpretation name_narrows: attenuation "\<lambda>g t. is_ok (admit_name h g b t)" push for h b
proof unfold_locales
  fix g l t
  show "is_ok (admit_name h (push g l) b t) \<Longrightarrow> is_ok (admit_name h g b t)"
    unfolding admit_name_ok by (auto dest: exec_permitted_push read_permitted_push)
qed

interpretation flag_narrows: attenuation flag_permitted push
  by unfold_locales (simp add: flag_permitted_def push_def)

lemma foldl_push_layers: "foldl push g ls = g @ ls"
  by (induction ls arbitrary: g) (auto simp: push_def)

end
