(* ===== verification/Deputy.thy ===== *)
theory Deputy
  imports Attenuation
begin

text \<open>
  The confused-deputy verdict (\<open>core/src/authority/policy/deputy.rs\<close>): the prefixes a stack
  makes both runnable and writable.  It is sound (whatever lies under a reported prefix is
  supported by both sides, and the prefix itself is permitted by both) and complete for
  positions (one both sides permit lies under a reported prefix).
\<close>

fun runnable_allow :: "exec_allow \<Rightarrow> fs_allow option" where
  "runnable_allow exec_allow.Any = Some (Prefix everywhere)"
| "runnable_allow (exec_allow.Dir d) = Some (Prefix d)"
| "runnable_allow (exec_allow.File _ _ _) = None"
| "runnable_allow (exec_allow.Tool _) = None"

fun runnable_deny :: "exec_deny \<Rightarrow> fs_deny option" where
  "runnable_deny (exec_deny.Dir d) = Some (FsDeny d)"
| "runnable_deny (exec_deny.File _) = None"
| "runnable_deny (exec_deny.Name _) = None"

definition runnable :: "exec_rules \<Rightarrow> fs_rules" where
  "runnable e =
     table_new (List.map_filter runnable_allow (sorted_list_of_fset (allows e)))
               (List.map_filter runnable_deny (sorted_list_of_fset (denies e)))"

fun written_prefix :: "fs_allow \<Rightarrow> frozen_path option" where
  "written_prefix (Prefix p) = Some (written p)"
| "written_prefix (RunPlace _) = None"

definition deputy_prefixes :: "host \<Rightarrow> grant_stack \<Rightarrow> baseline \<Rightarrow> frozen_path list" where
  "deputy_prefixes h g b =
     (if stack_exec_is_top g then []
      else
        (case (reduce_with (fs_meet h) (map runnable (stack_exec g)), region h g fs_op.Write b) of
           (Some runs, Some writes) \<Rightarrow>
             List.map_filter written_prefix
               (live (fs_contains h) fs_own (fs_matches h) (fs_meet h runs writes))
         | _ \<Rightarrow> []))"

section \<open>A layer's runnable directories\<close>

lemma runnable_supports: "fs_supports h (runnable e) s \<longleftrightarrow> exec_supports h e (exec_subject.Dir s)"
proof -
  have "(\<exists>p. runnable_allow a = Some p \<and> fs_contains h p s) \<longleftrightarrow> exec_contains h a (exec_subject.Dir s)"
    for a by (cases a) (auto simp: everywhere_def)
  moreover have "fs_supports h (runnable e) s \<longleftrightarrow>
      (\<exists>a\<in>fset (allows e). \<exists>p. runnable_allow a = Some p \<and> fs_contains h p s)"
    unfolding runnable_def supports_new Bex_def map_filter_set by auto
  ultimately show ?thesis by (simp add: supports_def)
qed

lemma runnable_excludes: "fs_excludes h (runnable e) s \<longleftrightarrow> exec_excludes h e (exec_subject.Dir s)"
proof -
  have "(\<exists>p. runnable_deny d = Some p \<and> fs_matches h p s \<noteq> None) \<longleftrightarrow>
          exec_matches h d (exec_subject.Dir s) \<noteq> None"
    for d by (cases d) (auto simp: fs_matches_def)
  moreover have "fs_excludes h (runnable e) s \<longleftrightarrow>
      (\<exists>d\<in>fset (denies e). \<exists>p. runnable_deny d = Some p \<and> fs_matches h p s \<noteq> None)"
    unfolding runnable_def excludes_new Bex_def map_filter_set by auto
  ultimately show ?thesis by (simp add: excludes_def)
qed

lemma dir_program_supports:
  "exec_supports h e (exec_subject.Dir s) \<Longrightarrow> exec_supports h e (Program s)"
proof -
  have "exec_contains h a (exec_subject.Dir s) \<Longrightarrow> exec_contains h a (Program s)" for a
    by (cases a) auto
  then show "exec_supports h e (exec_subject.Dir s) \<Longrightarrow> exec_supports h e (Program s)"
    by (auto simp: supports_def)
qed

section \<open>What is reported\<close>

text \<open>Both sides at a subject: every layer that runs programs and every layer that writes.\<close>

definition both_support :: "host \<Rightarrow> grant_stack \<Rightarrow> subject \<Rightarrow> bool" where
  "both_support h g s \<longleftrightarrow>
     (\<forall>e\<in>set (stack_exec g). exec_supports h e (exec_subject.Dir s)) \<and>
     (\<forall>f\<in>set (stack_fs g). fs_supports h (fs_write f) s)"

definition both_permit :: "host \<Rightarrow> grant_stack \<Rightarrow> subject \<Rightarrow> bool" where
  "both_permit h g s \<longleftrightarrow>
     (\<forall>e\<in>set (stack_exec g). permits (exec_evidence h e (exec_subject.Dir s))) \<and>
     (\<forall>f\<in>set (stack_fs g). permits (fs_evidence h (fs_write f) s))"

lemma both_supports:
  assumes runs: "reduce_with (fs_meet h) (map runnable (stack_exec g)) = Some runs"
    and writes: "region h g fs_op.Write b = Some writes"
  shows "fs_supports h (fs_meet h runs writes) s \<longleftrightarrow> both_support h g s"
proof -
  have "fs_supports h runs s \<longleftrightarrow> (\<forall>e\<in>set (stack_exec g). exec_supports h e (exec_subject.Dir s))"
    using runs by (cases "stack_exec g") (auto simp: fs.supports_foldl_meet runnable_supports)
  then show ?thesis
    using region_Some(1) [OF writes, of s]
    by (simp add: fs.supports_meet both_support_def system_reads_def)
qed

lemma both_permits:
  assumes runs: "reduce_with (fs_meet h) (map runnable (stack_exec g)) = Some runs"
    and writes: "region h g fs_op.Write b = Some writes"
  shows "permits (fs_evidence h (fs_meet h runs writes) s) \<longleftrightarrow> both_permit h g s"
proof -
  have "fs_excludes h runs s \<longleftrightarrow> (\<exists>e\<in>set (stack_exec g). exec_excludes h e (exec_subject.Dir s))"
    using runs by (cases "stack_exec g") (auto simp: excludes_foldl_meet runnable_excludes)
  then show ?thesis
    using both_supports [OF assms, of s] region_Some(2) [OF writes, of s]
    by (auto simp: both_permit_def both_support_def)
qed

lemma deputy_cases:
  assumes "p \<in> set (deputy_prefixes h g b)"
  obtains runs writes x where
    "reduce_with (fs_meet h) (map runnable (stack_exec g)) = Some runs"
    "region h g fs_op.Write b = Some writes"
    "Prefix x \<in> set (live (fs_contains h) fs_own (fs_matches h) (fs_meet h runs writes))"
    "p = written x"
proof -
  obtain runs writes where rw: "reduce_with (fs_meet h) (map runnable (stack_exec g)) = Some runs"
    "region h g fs_op.Write b = Some writes"
    and "p \<in> set (List.map_filter written_prefix
                    (live (fs_contains h) fs_own (fs_matches h) (fs_meet h runs writes)))"
    using assms that
    by (cases "reduce_with (fs_meet h) (map runnable (stack_exec g))";
        cases "region h g fs_op.Write b")
      (simp_all add: deputy_prefixes_def split: if_splits)
  then obtain a where a: "a \<in> set (live (fs_contains h) fs_own (fs_matches h) (fs_meet h runs writes))"
    and w: "written_prefix a = Some p" unfolding map_filter_set by blast
  from w obtain x where "a = Prefix x" "p = written x" by (cases a) auto
  with a show thesis by (intro that [OF rw]) simp_all
qed

lemma deputy_sound:
  assumes "p \<in> set (deputy_prefixes h g b)"
  shows "\<exists>x. p = written x \<and> both_permit h g (fs_own (Prefix x)) \<and>
           (\<forall>s. extent_contains h (grant_real x) s \<longrightarrow> both_support h g s)"
proof -
  obtain runs writes x where
    rw: "reduce_with (fs_meet h) (map runnable (stack_exec g)) = Some runs"
        "region h g fs_op.Write b = Some writes"
    and x: "Prefix x \<in> set (live (fs_contains h) fs_own (fs_matches h) (fs_meet h runs writes))"
    and p: "p = written x" using deputy_cases [OF assms] .
  have "both_permit h g (fs_own (Prefix x))"
    using x both_permits [OF rw] by (simp only: live_iff)
  moreover have "both_support h g s" if "extent_contains h (grant_real x) s" for s
  proof -
    have "fs_supports h (fs_meet h runs writes) s"
      using x that unfolding live_iff supports_def by (auto intro!: bexI [of _ "Prefix x"])
    then show ?thesis using both_supports [OF rw] by simp
  qed
  ultimately show ?thesis using p by blast
qed

definition all_prefixes :: "grant_stack \<Rightarrow> bool" where
  "all_prefixes g \<longleftrightarrow> (\<forall>f\<in>set (stack_fs g). \<forall>a\<in>fset (allows (fs_write f)). is_prefix a)"

lemma layers_ok_prefixes: "\<forall>l\<in>set g. layer_ok h l \<Longrightarrow> all_prefixes g"
  by (force simp: all_prefixes_def stack_fs_def map_filter_set layer_ok_def fs_layer_ok_def)

lemma allows_foldl_meet:
  "fset (allows (foldl (table_meet c own) t ts)) \<subseteq> fset (allows t) \<union> (\<Union>u\<in>set ts. fset (allows u))"
  by (induction ts arbitrary: t) (fastforce simp: table_meet_def)+

lemma allows_reduce_meet:
  "reduce_with (table_meet c own) ts = Some t \<Longrightarrow> x \<in> fset (allows t) \<Longrightarrow>
     \<exists>u\<in>set ts. x \<in> fset (allows u)"
  using allows_foldl_meet [of c own "hd ts" "tl ts"] by (cases ts) (simp_all, blast)

lemma deputy_complete:
  assumes nontop: "\<not> stack_exec_is_top g" and fs: "stack_fs g \<noteq> []" and ok: "all_prefixes g"
    and both: "both_permit h g (Position q)"
  shows "\<exists>x. written x \<in> set (deputy_prefixes h g b) \<and> extent_contains h (grant_real x) (Position q)"
proof -
  have "stack_exec g \<noteq> []" using nontop by (auto simp: stack_exec_is_top_def)
  then obtain runs where runs: "reduce_with (fs_meet h) (map runnable (stack_exec g)) = Some runs"
    by (cases "stack_exec g") auto
  obtain writes where writes: "region h g fs_op.Write b = Some writes"
    using fs region_None [of h g fs_op.Write b] by blast
  let ?t = "fs_meet h runs writes"
  have pq: "permits (fs_evidence h ?t (Position q))"
    using both both_permits [OF runs writes] by blast
  then obtain a where a: "a \<in> fset (allows ?t)" "fs_contains h a (Position q)"
    by (auto simp: supports_def)
  have noex: "\<not> fs_excludes h ?t (fs_own a)"
  proof
    assume ex: "fs_excludes h ?t (fs_own a)"
    then obtain p where p: "fs_own a = Position p" "fs_real a = Some p"
      by (cases a rule: fs_own.cases) (auto split: extent.splits)
    then have "below h (Position p) (Position q)"
      using a(2) by (auto simp: fs_contains_iff intro: below.positions)
    then have "fs_excludes h ?t (Position q)" using ex p fs_excludes_below by metis
    with pq show False by simp
  qed
  have live: "a \<in> set (live (fs_contains h) fs_own (fs_matches h) ?t)"
    using a(1) noex by (simp add: live_iff fs.supports_own)
  have "is_prefix a"
  proof -
    have pre_runs: "is_prefix x" if "x \<in> fset (allows runs)" for x
    proof -
      have "\<exists>u\<in>set (map runnable (stack_exec g)). x \<in> fset (allows u)"
        by (rule allows_reduce_meet [OF runs that])
      then show ?thesis
        by (auto simp: runnable_def map_filter_set elim: runnable_allow.elims)
    qed
    have "is_prefix x" if "x \<in> fset (allows writes)" for x
    proof -
      have "reduce_with (fs_meet h) (map fs_write (map snd (opined h g None))) = Some writes"
        using writes
        by (auto simp: region_def fold_stack_opined Let_def with_system_reads_def met_def comp_def
            split: if_splits)
      then have "\<exists>u\<in>set (map fs_write (stack_fs g)). x \<in> fset (allows u)"
        unfolding map_snd_opined using that by (rule allows_reduce_meet)
      then show ?thesis using ok by (auto simp: all_prefixes_def)
    qed
    with pre_runs show ?thesis using a(1) by (auto simp: table_meet_def)
  qed
  then obtain x where "a = Prefix x" by (cases a) auto
  with live nontop runs writes a(2) show ?thesis
    by (auto simp: deputy_prefixes_def map_filter_set intro!: exI [of _ x] bexI [of _ a])
qed

end
