(* ===== verification/Guard.thy ===== *)
theory Guard
  imports Deputy
begin

text \<open>
  The in-process guards (\<open>core/src/authority/guard/enforce.rs\<close>): each asks a judgment and
  turns a refusal into the fact the trail keeps and the refusal the caller raises.  The
  English of a refusal is the constructor of \<open>message\<close> and \<open>hint\<close> that stands for it, with
  what the text interpolates as its arguments; an exec exclusion is shown as the rule itself,
  since spelling it is the quoting of \<open>core/src/syntax/quote.rs\<close>.  The device-name guard is a
  Windows rule and is not modelled.
\<close>

datatype hint =
    NESTED
  | EXCLUSION_HINT
  | AddExecAllow
  | AddFsAllow fs_op
  | AddReadAllow
  | InstallByReplacing

datatype read_cause =
    NotReadable bool "trace option" bytes
  | ReadExcluded bool "trace option" bytes fs_deny matched_by

datatype message =
    SomeLayerWithholdsExec bytes
  | NothingLetsItRun bytes
  | ExecExcluded bytes exec_deny matched_by
  | ExecRead bytes read_cause
  | NoFsAllowance fs_op bytes
  | FsExcluded fs_op bytes fs_deny matched_by
  | PinnedBinary bytes bytes
  | WithheldDetach bytes
  | RequiresFlag bytes flag

record refusal =
  message :: message
  hint :: "hint option"

definition refusal_new :: "message \<Rightarrow> refusal" where
  "refusal_new m = \<lparr>message = m, hint = None\<rparr>"

definition with_hint :: "refusal \<Rightarrow> hint \<Rightarrow> refusal" where
  "with_hint r x = r\<lparr>hint := Some x\<rparr>"

datatype resource = ExecResource | FsResource

datatype field_value = Text bytes | ExecScope exec_deny | FsScope fs_deny

record check =
  check_resource :: resource
  check_fields :: "(bytes \<times> field_value) list"

record denial =
  denial_check :: check
  error :: refusal

definition denial_new :: "resource \<Rightarrow> (bytes \<times> field_value) list \<Rightarrow> refusal \<Rightarrow> denial" where
  "denial_new r kvs e = \<lparr>denial_check = \<lparr>check_resource = r, check_fields = kvs\<rparr>, error = e\<rparr>"

section \<open>Exec\<close>

definition read_cause :: "baseline \<Rightarrow> bytes \<Rightarrow> bool \<Rightarrow> fs_deny withheld \<Rightarrow> read_cause" where
  "read_cause b name bundled w =
     (case w of
        MissingAllowance \<Rightarrow> NotReadable bundled (if bundled then image b else None) name
      | Excluded d m \<Rightarrow> ReadExcluded bundled (if bundled then image b else None) name d m)"

definition read_hint :: "fs_deny withheld \<Rightarrow> nat \<Rightarrow> hint" where
  "read_hint w layers =
     (case w of
        MissingAllowance \<Rightarrow> if layers > 1 then NESTED else AddReadAllow
      | Excluded _ _ \<Rightarrow> EXCLUSION_HINT)"

definition exec_error ::
  "grant_stack \<Rightarrow> baseline \<Rightarrow> bytes \<Rightarrow> bool \<Rightarrow> exec_denial \<Rightarrow> refusal"
where
  "exec_error g b name bundled w =
     (case w of
        Run MissingAllowance \<Rightarrow>
          if length (stack_exec g) > 1
          then with_hint (refusal_new (SomeLayerWithholdsExec name)) NESTED
          else with_hint (refusal_new (NothingLetsItRun name)) AddExecAllow
      | Run (Excluded d m) \<Rightarrow> with_hint (refusal_new (ExecExcluded name d m)) EXCLUSION_HINT
      | ReadDenied r \<Rightarrow>
          with_hint (refusal_new (ExecRead name (read_cause b name bundled r)))
            (read_hint r (length (stack_fs g))))"

definition exec_denial :: "bytes \<Rightarrow> exec_denial \<Rightarrow> refusal \<Rightarrow> denial" where
  "exec_denial name w e =
     (let deny = (case w of
                    Run (Excluded d _) \<Rightarrow> [(''deny'', ExecScope d)]
                  | ReadDenied (Excluded d _) \<Rightarrow> [(''deny'', FsScope d)]
                  | _ \<Rightarrow> [])
      in denial_new ExecResource ((''name'', Text name) # deny) e)"

fun is_tool_program :: "program \<Rightarrow> bool" where
  "is_tool_program (program.Tool _) = True"
| "is_tool_program (program.File _ _) = False"

definition check_exec ::
  "host \<Rightarrow> grant_stack \<Rightarrow> baseline \<Rightarrow> bytes \<Rightarrow> program \<Rightarrow> denial + admitted"
where
  "check_exec h g b name p =
     (case admit h g b p of
        Inr a \<Rightarrow> Inr a
      | Inl r \<Rightarrow>
          let bundled = is_tool_program (refused_program r) in
          Inl (exec_denial name (why r) (exec_error g b name bundled (why r))))"

definition check_exec_name ::
  "host \<Rightarrow> grant_stack \<Rightarrow> baseline \<Rightarrow> bytes \<Rightarrow> trace \<Rightarrow> denial + unit"
where
  "check_exec_name h g b name t =
     map_sum (\<lambda>w. exec_denial name w (exec_error g b name False w)) id (admit_name h g b t)"

section \<open>Fs\<close>

fun op_name :: "fs_op \<Rightarrow> bytes" where
  "op_name fs_op.Read = ''read''"
| "op_name fs_op.Write = ''write''"

definition fs_denial :: "grant_stack \<Rightarrow> refused \<Rightarrow> fs_op \<Rightarrow> bytes \<Rightarrow> denial" where
  "fs_denial g r op spelling =
     (let path = shown spelling;
          layers = length (stack_fs g);
          (detail, e) =
            (case r of
               refused.Withheld MissingAllowance \<Rightarrow>
                 ([], with_hint (refusal_new (NoFsAllowance op path))
                        (if layers > 1 then NESTED else AddFsAllow op))
             | refused.Withheld (Excluded d m) \<Rightarrow>
                 ([(''deny'', FsScope d)],
                  with_hint (refusal_new (FsExcluded op path d m)) EXCLUSION_HINT)
             | Guarded pinned \<Rightarrow>
                 ([(''pinned'', Text pinned)],
                  with_hint (refusal_new (PinnedBinary path pinned)) InstallByReplacing))
      in denial_new FsResource ([(''op'', Text (op_name op)), (''path'', Text path)] @ detail) e)"

definition check_fs_exact ::
  "host \<Rightarrow> grant_stack \<Rightarrow> baseline \<Rightarrow> trace \<Rightarrow> fs_op \<Rightarrow> bytes \<Rightarrow> denial + unit"
where
  "check_fs_exact h g b t op spelling =
     map_sum (\<lambda>r. fs_denial g r op spelling) id (refusal_fs h g b op t)"

section \<open>Verbs\<close>

definition check_flag :: "grant_stack \<Rightarrow> flag \<Rightarrow> bytes \<Rightarrow> refusal + unit" where
  "check_flag g f who =
     (if flag_permitted g f then Inr ()
      else Inl (refusal_new
        (case f of Shell Detach \<Rightarrow> WithheldDetach who | _ \<Rightarrow> RequiresFlag who f)))"

section \<open>What a denial says\<close>

lemma check_fs_exact_ok: "is_ok (check_fs_exact h g b t op p) \<longleftrightarrow> admits_fs h g b op t"
  by (simp add: check_fs_exact_def admits_fs_def del: is_ok_unit_iff)

lemma check_exec_ok: "is_ok (check_exec h g b name p) \<longleftrightarrow> is_ok (admit h g b p)"
  by (auto simp: check_exec_def Let_def split: sum.splits)

lemma check_exec_name_ok: "is_ok (check_exec_name h g b name t) \<longleftrightarrow> is_ok (admit_name h g b t)"
  by (simp add: check_exec_name_def del: is_ok_unit_iff)

text \<open>An exclusion cited by an fs judgment is one of a layer of the stack, and it matches.\<close>

lemma stack_read_cites:
  assumes "stack_read h g b t = Inl (Excluded d m)"
  shows "\<exists>f\<in>set (stack_fs g). d |\<in>| denies (read f) \<and> fs_matches h d (Access t) = Some m"
proof -
  obtain r where r: "running_region h g b = Some r" "fs_withheld h r (Access t) = Some (Excluded d m)"
    using assms unfolding stack_read_def read_region_withheld_running
    by (auto split: option.splits)
  then have dm: "d |\<in>| denies r" "fs_matches h d (Access t) = Some m"
    by (auto simp: withheld_Excluded_iff)
  have os: "opined h g None \<noteq> []"
    and rr: "r = with_system_reads fs_op.Read b (met h (map (placed_table fs_op.Read) (opined h g None)))"
    using r(1) by (auto simp: running_region_def fold_stack_opined Let_def split: if_splits)
  have "\<exists>p\<in>set (opined h g None). d |\<in>| denies (read (snd p))"
    using dm(1) os by (simp add: rr denies_met)
  then show ?thesis using dm(2) by (auto simp flip: map_snd_opined [of h g None])
qed

lemma stack_read_missing:
  assumes "stack_read h g b t = Inl MissingAllowance"
  shows "\<not> read_permitted h g b (Access t)" "\<forall>f\<in>set (stack_fs g). \<not> fs_excludes h (read f) (Access t)"
proof -
  show "\<not> read_permitted h g b (Access t)"
    using assms stack_read_ok [of h g b t] by simp
  obtain r where r: "running_region h g b = Some r" "fs_withheld h r (Access t) = Some MissingAllowance"
    using assms unfolding stack_read_def read_region_withheld_running
    by (auto split: option.splits)
  then show "\<forall>f\<in>set (stack_fs g). \<not> fs_excludes h (read f) (Access t)"
    using running_region_Some(2) [OF r(1), of "Access t"] by (simp add: withheld_Missing_iff)
qed

lemma stack_write_cites:
  assumes "stack_write h g b t = Inl (Excluded d m)"
  shows "\<exists>f\<in>set (stack_fs g). d |\<in>| denies (fs_write f) \<and> fs_matches h d (Access t) = Some m"
proof -
  obtain r where r: "region h g fs_op.Write b = Some r" "fs_withheld h r (Access t) = Some (Excluded d m)"
    using assms unfolding stack_write_def by (auto split: option.splits)
  then have dm: "d |\<in>| denies r" "fs_matches h d (Access t) = Some m"
    by (auto simp: withheld_Excluded_iff)
  have os: "opined h g None \<noteq> []"
    and rr: "r = with_system_reads fs_op.Write b (met h (map (\<lambda>p. fs_write (snd p)) (opined h g None)))"
    using r(1) by (auto simp: region_def fold_stack_opined Let_def split: if_splits)
  have "\<exists>p\<in>set (opined h g None). d |\<in>| denies (fs_write (snd p))"
    using dm(1) os by (simp add: rr denies_met)
  then show ?thesis using dm(2) by (auto simp flip: map_snd_opined [of h g None])
qed

lemma stack_write_missing:
  assumes "stack_write h g b t = Inl MissingAllowance"
  shows "\<forall>f\<in>set (stack_fs g). \<not> fs_excludes h (fs_write f) (Access t)"
proof -
  obtain r where r: "region h g fs_op.Write b = Some r" "fs_withheld h r (Access t) = Some MissingAllowance"
    using assms unfolding stack_write_def by (auto split: option.splits)
  then show ?thesis
    using region_Some(2) [OF r(1), of "Access t"] by (simp add: withheld_Missing_iff)
qed

text \<open>What is true of a decision refused, by the reason it is refused for.\<close>

lemma refusal_fs_truth:
  assumes "refusal_fs h g b op t = Inl r"
  shows "case r of
           Guarded n \<Rightarrow> op = fs_op.Write \<and> (\<exists>i. leaf_id t = Some i \<and> (i, n) \<in> set (protected b))
         | refused.Withheld MissingAllowance \<Rightarrow>
             (\<forall>f\<in>set (stack_fs g). \<not> fs_excludes h (fs_table f op) (Access t))
         | refused.Withheld (Excluded d m) \<Rightarrow>
             (\<exists>f\<in>set (stack_fs g). d |\<in>| denies (fs_table f op) \<and> fs_matches h d (Access t) = Some m)"
proof (cases op)
  case Read
  then obtain w where "r = refused.Withheld w" "stack_read h g b t = Inl w"
    using assms by (cases "stack_read h g b t") (auto simp: refusal_fs_def)
  then show ?thesis
    using stack_read_cites stack_read_missing(2) by (cases w) (auto simp: Read)
next
  case Write
  show ?thesis
  proof (cases "Option.bind (leaf_id t) (protected_name b)")
    case None
    then obtain w where "r = refused.Withheld w" "stack_write h g b t = Inl w"
      using assms by (cases "stack_write h g b t") (auto simp: refusal_fs_def Write)
    then show ?thesis
      using stack_write_cites stack_write_missing by (cases w) (auto simp: Write)
  next
    case (Some n)
    then obtain i where "leaf_id t = Some i" "protected_name b i = Some n"
      by (cases "leaf_id t") auto
    moreover from this have "(i, n) \<in> set (protected b)"
      by (auto simp: protected_name_def dest!: find_SomeD)
    moreover have "r = Guarded n" using assms Some by (simp add: refusal_fs_def Write)
    ultimately show ?thesis by (simp add: Write)
  qed
qed

end
