(* ===== verification/Authority_Properties.thy ===== *)
theory Authority_Properties
  imports Guard
begin

text \<open>
  The properties of positions, exclusions, tables, layers, stacks, judgments and guards, each
  a few steps over the component theories, with the inputs that show its hypotheses can hold.
\<close>

section \<open>Sample inputs\<close>

definition sample_host :: host where
  "sample_host = \<lparr>platform = Linux, icu_nfd = id, icu_nfkd = id, icu_uppercase = id, icu_fold = id\<rparr>"

definition sample_dir :: trace where
  "sample_dir = Trace RootName (ObjectId 1 2) [Step (EntryName ''w'') (ObjectId 1 10) kind.Dir] [] []"

definition sample_file :: trace where
  "sample_file =
     Trace RootName (ObjectId 1 2)
       [Step (EntryName ''w'') (ObjectId 1 10) kind.Dir, Step (EntryName ''f'') (ObjectId 1 11) kind.File]
       [] []"

definition sample_exclusion :: excluded where
  "sample_exclusion = excluded.Excluded (Hold sample_dir) None"

definition sample_fs :: fs_layer where
  "sample_fs =
     FsLayer_new [] [extent_of (GrantPath (FrozenPath ''/w'') sample_dir)] []"

definition sample_exec :: exec_rules where
  "sample_exec = rules_of [Allow (exec_allow.Dir (extent_of (GrantPath (FrozenPath ''/w'') sample_dir)))]"

definition sample_layer :: grant_layer where
  "sample_layer = layer_root\<lparr>fs := Some sample_fs, exec := Some sample_exec\<rparr>"

lemma sample_ok: "layer_ok h sample_layer"
  by (simp add: layer_ok_def sample_layer_def sample_fs_def FsLayer_new_ok layer_root_def
      keyed_def sample_exec_def rules_of_def table_new_def List.map_filter_simps)

lemma sample_matches: "excluded_matches h sample_exclusion (Access sample_dir) Within \<noteq> None"
  unfolding excluded_matches_iff hold_matches_iff real_matched_within
  by (simp add: sample_exclusion_def holds_def contains_imp_folded)

lemma sample_real: "real sample_dir = RealPath [EntryName ''w'']"
  "real sample_file = RealPath [EntryName ''w'', EntryName ''f'']"
  by (simp_all add: real_eq sample_dir_def sample_file_def)

lemma sample_contains: "contains h (real sample_dir) (real sample_file)"
  using contains_append [of h "[EntryName ''w'']" "[EntryName ''f'']"] by (simp add: sample_real)

lemma sample_supports:
  "fs_supports h (fs_write sample_fs) (Access sample_file)"
  "fs_supports h (read sample_fs) (Access sample_file)"
  "\<not> fs_excludes h (fs_write sample_fs) s" "\<not> fs_excludes h (read sample_fs) s"
  by (simp_all add: sample_fs_def FsLayer_new_def Let_def extent_of_contains sample_contains)

lemma sample_stack:
  "stack_fs [sample_layer] = [sample_fs]" "stack_exec [sample_layer] = [sample_exec]"
  by (simp_all add: stack_fs_def stack_exec_def sample_layer_def layer_root_def List.map_filter_simps)

section \<open>Positions\<close>

text \<open>
  C19. \<open>RealPath::contains\<close>, which compares component lists of every firmlink alias of both
  paths, is prefix order on canonical names: a position contains another exactly when its
  names, with a leading \<open>var\<close>, \<open>tmp\<close> or \<open>etc\<close> read below \<open>private\<close> on macOS, begin the
  other's.
\<close>

theorem containment_is_canonical_prefix:
  "contains h a b \<longleftrightarrow> prefix (canon_names h (real_names a)) (canon_names h (real_names b))"
  by (rule contains_iff)

text \<open>
  A position is read off the wire exactly as it is written: \<open>RealPath::parse\<close> accepts a
  byte string if and only if it is the rendering of a position, and answers that position.
\<close>

lemma position_wire_roundtrip: "RealPath_parse raw = Inr r \<longleftrightarrow> raw = as_path r"
  by (rule RealPath_parse_Inr)

text \<open>
  A trace is read off the wire exactly when a walk could have made it: the wire form is
  the serialised form of the trace answered, every step but the last is a directory, and so
  is the last where names follow it.
\<close>

lemma trace_wire_check:
  "Trace_deserialize w = Inr t \<longleftrightarrow>
     w = Trace_serialize t \<and>
     (steps t = [] \<or>
      list_all (\<lambda>s. step_kind s = kind.Dir) (butlast (steps t)) \<and>
      (tail t = [] \<or> step_kind (last (steps t)) = kind.Dir))"
  by (auto simp: Trace_deserialize_Inr trace_ok_def walkable_def)

section \<open>Exclusions\<close>

text \<open>
  An exclusion that covers a subject covers what lies beneath it: positions at or under
  a position, whatever a walk finds under the directory it reached, and what a listing of
  that directory records.
\<close>

lemma exclusion_covers_beneath:
  assumes "excluded_matches h e s Within \<noteq> None" and "below h s s'"
  shows "excluded_matches h e s' Within \<noteq> None"
  using assms by (rule excluded_matches_below)

text \<open>
  C37. An object an exclusion holds is excluded under every name: a walk that opens it
  anywhere on its way is covered, whatever names it spelled and wherever it stands.
\<close>

theorem exclusion_follows_object:
  assumes "x \<in> set (holds e)" and "tail (hold_trace x) = []" and "steps (hold_trace x) \<noteq> []"
    and "last_id (hold_trace x) \<in> set (spine_ids t)"
  shows "excluded_matches h e (Access t) Within \<noteq> None"
  using assms by (rule excluded_matches_object)

theorem exclusion_follows_object_witness:
  "excluded_matches sample_host sample_exclusion
     (Access (Trace RootName (ObjectId 1 2) [Step (EntryName ''elsewhere'') (ObjectId 1 10) kind.Dir] [] []))
     Within \<noteq> None"
  by (rule exclusion_follows_object [of "Hold sample_dir"])
    (simp_all add: sample_exclusion_def holds_def sample_dir_def last_id_def spine_ids_def)

section \<open>Tables\<close>

text \<open>
  The meet of two tables is exact: at every subject, of the fs and of the exec
  dimension, its evidence is the truth meet of theirs, although the meet keeps only
  allowances one of the two states.
\<close>

lemma table_meet_is_pointwise:
  "fs_evidence h (fs_meet h a b) s = evidence_meet (fs_evidence h a s) (fs_evidence h b s) \<and>
   exec_evidence h (exec_meet h c d) p = evidence_meet (exec_evidence h c p) (exec_evidence h d p)"
  by (simp only: fs.evidence_meet_exact exec.evidence_meet_exact)

text \<open>
  What the kernel is handed is the policy joined with the launch's support files, as
  evidence at every subject but a bundled tool, which the kernel never sees.
\<close>

lemma kernel_rules_are_policy_with_support:
  assumes "\<And>n. s \<noteq> exec_subject.Tool n"
  shows "exec_evidence h (for_kernel t files) s =
           evidence_join (exec_evidence h t s)
             \<lparr>positive = (\<exists>r\<in>fset files. exec_contains h (support r) s), negative = False\<rparr>"
proof -
  have e: "exec_evidence h \<lparr>allows = support |`| files, denies = {||}\<rparr> s =
          \<lparr>positive = (\<exists>r\<in>fset files. exec_contains h (support r) s), negative = False\<rparr>"
    by (simp add: evidence_def supports_def excludes_def)
  show ?thesis by (simp only: for_kernel_evidence [OF assms] evidence_join e)
qed

section \<open>Layers\<close>



section \<open>Stacks\<close>

text \<open>
  C39. A stack only narrows: an access the guard admits under a stack with any layers pushed
  on top it admits without them, for reading and for writing.
\<close>

theorem pushing_never_widens_fs:
  assumes "admits_fs h (foldl push g ls) b op t"
  shows "admits_fs h g b op t"
  using assms by (rule fs_narrows.pushes_narrow)

text \<open>
  The same of programs and names: what a stack with layers pushed on top admits to run,
  it admits without them, and a verb it lets through it lets through without them.
\<close>

lemma pushing_never_widens_exec:
  assumes "is_ok (admit h (foldl push g ls) b p)" and "is_ok (admit_name h (foldl push g ls) b t)"
    and "flag_permitted (foldl push g ls) f"
  shows "is_ok (admit h g b p) \<and> is_ok (admit_name h g b t) \<and> flag_permitted g f"
  using assms exec_narrows.pushes_narrow name_narrows.pushes_narrow flag_narrows.pushes_narrow
  by blast

lemma sample_write: "admits_fs h [sample_layer] (baseline_of []) fs_op.Write sample_file"
  by (simp add: admits_fs_write vetoed_def baseline_of_def write_permitted_def sample_stack
      sample_supports)

lemma sample_read_permitted: "read_permitted h [sample_layer] (baseline_of []) (Access sample_file)"
proof -
  have "opined h [sample_layer] None = [(Some sample_exec, sample_fs)]"
    by (simp add: sample_layer_def layer_root_def run_after_def meet_onto_def)
  then show ?thesis by (simp add: read_permitted_def sample_stack sample_supports)
qed

lemma sample_exec_permits: "exec_permitted h [sample_layer] (Program (Access sample_file))"
  by (simp add: exec_permitted_def sample_stack)
    (simp add: sample_exec_def rules_of_def List.map_filter_simps extent_of_contains sample_contains)

lemma sample_admit:
  "is_ok (admit h [sample_layer] (baseline_of []) (program.File ''/w/f'' sample_file))"
  "is_ok (admit_name h [sample_layer] (baseline_of []) sample_file)"
  unfolding admit_ok admit_name_ok by (simp_all add: sample_exec_permits sample_read_permitted)

lemma sample_flag: "flag_permitted [sample_layer] (Shell Detach)"
  by (simp add: flag_permitted_def sample_layer_def layer_root_def)

theorem pushing_never_widens_fs_witness:
  "admits_fs sample_host [] (baseline_of []) fs_op.Write sample_file"
  by (rule pushing_never_widens_fs [of _ _ "[sample_layer]"]) (simp add: push_def sample_write)

section \<open>Judgments\<close>

text \<open>
  The write judgment, layer by layer: a write is admitted exactly when its object is
  not one the baseline protects and every layer with an fs opinion permits it.
\<close>

lemma write_needs_every_layer:
  "admits_fs h g b fs_op.Write t \<longleftrightarrow>
     Option.bind (leaf_id t) (protected_name b) = None \<and>
     (\<forall>f\<in>set (stack_fs g). permits (fs_evidence h (fs_table f fs_op.Write) (Access t)))"
  by (simp only: admits_fs_write vetoed_iff write_permitted_def fs_table.simps) auto

text \<open>
  A program is admitted exactly when every layer with an exec opinion permits it and
  what running it reads is not withheld: a file's own object by the read judgment, and of a
  bundled tool ral's image, by an exclusion alone.
\<close>

lemma admission_is_exec_and_read:
  "is_ok (admit h g b p) \<longleftrightarrow>
     (\<forall>e\<in>set (stack_exec g). permits (exec_evidence h e (program_subject p))) \<and>
     (case p of
        program.Tool _ \<Rightarrow>
          (case image b of
             None \<Rightarrow> True
           | Some own \<Rightarrow> (\<forall>f\<in>set (stack_fs g). \<not> fs_excludes h (read f) (Access own)))
      | program.File _ t \<Rightarrow> is_ok (stack_read h g b t))"
  by (cases p) (simp_all only: admit_ok stack_read_ok image_permitted_def exec_permitted_def program.case)

text \<open>
  Writing reads: under a stack of layers the code makes, an access admitted for writing
  is admitted for reading.
\<close>

lemma writing_reads:
  assumes "\<And>l. l \<in> set g \<Longrightarrow> layer_ok h l" and "admits_fs h g b fs_op.Write t"
  shows "admits_fs h g b fs_op.Read t"
proof -
  have ok: "fs_layer_ok f" if "f \<in> set (stack_fs g)" for f
    using that assms(1) by (force simp: stack_fs_def map_filter_set layer_ok_def)
  have w: "permits (fs_evidence h (fs_write f) (Access t))" if "f \<in> set (stack_fs g)" for f
    using that assms(2) by (auto simp: admits_fs_write write_permitted_def)
  have "snd p \<in> set (stack_fs g)" if "p \<in> set (opined h g None)" for p
    using that by (auto simp flip: map_snd_opined [of h g None])
  then show ?thesis
    using ok w fs_layer_ok_supports fs_layer_ok_excludes
    unfolding admits_fs_read read_permitted_def by (metis permits_evidence)
qed

text \<open>
  C20. A pinned binary is never written: where the leaf is an object the baseline protects,
  the refusal is \<open>Guarded\<close> whatever the stack, an empty one included.
\<close>

theorem pinned_binary_is_never_written:
  assumes "leaf_id t = Some i" and "(i, name) \<in> set (protected b)"
  shows "\<exists>n. refusal_fs h g b fs_op.Write t = Inl (Guarded n) \<and> (i, n) \<in> set (protected b)"
proof -
  have "protected_name b i \<noteq> None"
    unfolding protected_name_None using assms(2) by (auto intro: rev_image_eqI)
  then obtain n where "protected_name b i = Some n" by blast
  moreover from this have "(i, n) \<in> set (protected b)"
    by (auto simp: protected_name_def dest!: find_SomeD)
  ultimately show ?thesis using assms(1) by (simp add: refusal_fs_def)
qed

theorem pinned_binary_is_never_written_witness:
  "\<exists>n. refusal_fs sample_host [] ((baseline_of [])\<lparr>protected := [(ObjectId 1 11, ''ral'')]\<rparr>) fs_op.Write
     sample_file = Inl (Guarded n) \<and>
     (ObjectId 1 11, n) \<in> set (protected ((baseline_of [])\<lparr>protected := [(ObjectId 1 11, ''ral'')]\<rparr>))"
  by (rule pinned_binary_is_never_written) (simp_all add: sample_file_def leaf_id_def last_id_def)

section \<open>Deputies and guards\<close>


lemma sample_both: "both_permit h [sample_layer] (Position (real sample_dir))"
proof -
  have "extent_contains h (grant_real (extent_of (GrantPath w sample_dir))) (Position (real sample_dir))"
    for w by (simp add: extent_of_def Let_def sample_real)
  then show ?thesis
    by (simp add: both_permit_def sample_stack)
      (simp add: sample_exec_def rules_of_def List.map_filter_simps sample_fs_def FsLayer_new_def Let_def)
qed

lemma sample_deputy: "\<exists>p. p \<in> set (deputy_prefixes h [sample_layer] b)"
proof -
  have "\<not> stack_exec_is_top [sample_layer]"
    by (simp add: stack_exec_is_top_def sample_stack)
      (simp add: exec_is_top_def sample_exec_def rules_of_def table_new_def List.map_filter_simps)
  moreover have "all_prefixes [sample_layer]" using layers_ok_prefixes sample_ok by force
  ultimately show ?thesis
    using deputy_complete [OF _ _ _ sample_both] by (fastforce simp: sample_stack)
qed




text \<open>
  The fs guard tells the truth: it refuses exactly what the judgment does not admit, and
  an exclusion it cites is one of a layer of the stack and matches the access the way it says,
  a missing allowance is said only where no layer excludes it, a pinned binary only of a write
  to a protected object, and the nesting hint only where more than one layer holds an fs
  opinion.
\<close>

lemma fs_refusals_are_true:
  assumes "check_fs_exact h g b t op spelling = Inl d"
  shows "\<not> admits_fs h g b op t \<and>
         (case message (error d) of
            FsExcluded op' path x m \<Rightarrow>
              op' = op \<and> path = shown spelling \<and>
              (\<exists>f\<in>set (stack_fs g). x |\<in>| denies (fs_table f op) \<and> fs_matches h x (Access t) = Some m)
          | NoFsAllowance op' path \<Rightarrow>
              op' = op \<and> path = shown spelling \<and>
              (\<forall>f\<in>set (stack_fs g). \<not> fs_excludes h (fs_table f op) (Access t))
          | PinnedBinary path n \<Rightarrow>
              op = fs_op.Write \<and> path = shown spelling \<and>
              (\<exists>i. leaf_id t = Some i \<and> (i, n) \<in> set (protected b))
          | _ \<Rightarrow> False) \<and>
         (hint (error d) = Some NESTED \<longrightarrow> length (stack_fs g) > 1)"
proof -
  obtain r where r: "refusal_fs h g b op t = Inl r" and d: "d = fs_denial g r op spelling"
    using assms by (cases "refusal_fs h g b op t") (auto simp: check_fs_exact_def)
  show ?thesis
    using refusal_fs_truth [OF r] r
    by (cases r; cases "case r of refused.Withheld w \<Rightarrow> w | _ \<Rightarrow> MissingAllowance")
      (simp_all add: d fs_denial_def admits_fs_def denial_new_def with_hint_def refusal_new_def Let_def)
qed

end
