(* ===== verification/Record_Types.thy ===== *)
theory Record_Types
  imports Ral_Prelude
begin

text \<open>
  What a conversation's record says and what the model fold keeps of it: spans of turn ids
  (\<open>exarch/src/record/context/span.rs\<close>), the protocol records (\<open>Transcript\<close> and the types it
  names in \<open>exarch/src/record.rs\<close>) and the rows of the fold's structure
  (\<open>exarch/src/record/context.rs\<close>).

  Ids are 64-bit and kept as naturals; the one arithmetic on them, and the sums of bytes,
  saturate, which \<open>sat_add\<close> writes out.  A chat message is the provider library's, so it is
  a type parameter \<open>'m\<close> with the operations the code asks of it in a record \<open>chat_api\<close>; a
  locus (a byte range of a log with its sum) is a type parameter \<open>'l\<close>, never looked into here.
\<close>

section \<open>Saturating arithmetic\<close>

definition u64_max :: nat where
  "u64_max = 2 ^ 64 - 1"

definition sat_add :: "nat \<Rightarrow> nat \<Rightarrow> nat" where
  "sat_add a b = min (a + b) u64_max"

lemma sat_add_Suc: "a < u64_max \<Longrightarrow> sat_add a 1 = Suc a"
  by (simp add: sat_add_def)

lemma sat_add_le: "sat_add a b \<le> a + b"
  by (simp add: sat_add_def)

section \<open>Spans\<close>

text \<open>A run of ids, never inverted: \<open>Span::new\<close> and the wire form refuse an inverted one.\<close>

typedef span = "{p :: nat \<times> nat. fst p \<le> snd p}"
  morphisms ends Span
  by (rule exI [of _ "(0, 0)"]) simp

definition span_from :: "span \<Rightarrow> nat" where
  "span_from s = fst (ends s)"

definition span_to :: "span \<Rightarrow> nat" where
  "span_to s = snd (ends s)"

datatype inverted_span = InvertedSpan nat nat

definition span_new :: "nat \<Rightarrow> nat \<Rightarrow> inverted_span + span" where
  "span_new f t = (if f \<le> t then Inr (Span (f, t)) else Inl (InvertedSpan f t))"

definition single :: "nat \<Rightarrow> span" where
  "single i = Span (i, i)"

definition is_single :: "span \<Rightarrow> bool" where
  "is_single s \<longleftrightarrow> span_from s = span_to s"

definition span_contains :: "span \<Rightarrow> nat \<Rightarrow> bool" where
  "span_contains s i \<longleftrightarrow> span_from s \<le> i \<and> i \<le> span_to s"

definition within :: "span \<Rightarrow> span \<Rightarrow> bool" where
  "within s outer \<longleftrightarrow> span_from outer \<le> span_from s \<and> span_to s \<le> span_to outer"

definition width :: "span \<Rightarrow> nat" where
  "width s = span_to s - span_from s"

definition hull :: "span \<Rightarrow> span \<Rightarrow> span" where
  "hull a b = Span (min (span_from a) (span_from b), max (span_to a) (span_to b))"

lemma span_ordered [simp]: "span_from s \<le> span_to s"
  using ends [of s] by (simp add: span_from_def span_to_def)

lemma span_ends [simp]:
  "f \<le> t \<Longrightarrow> span_from (Span (f, t)) = f" "f \<le> t \<Longrightarrow> span_to (Span (f, t)) = t"
  by (simp_all add: span_from_def span_to_def Span_inverse)

lemma span_eq_iff: "a = b \<longleftrightarrow> span_from a = span_from b \<and> span_to a = span_to b"
  by (metis ends_inject span_from_def span_to_def prod.expand)

lemma single_ends [simp]: "span_from (single i) = i" "span_to (single i) = i"
  by (simp_all add: single_def)

lemma hull_ends [simp]:
  "span_from (hull a b) = min (span_from a) (span_from b)"
  "span_to (hull a b) = max (span_to a) (span_to b)"
proof -
  have "min (span_from a) (span_from b) \<le> max (span_to a) (span_to b)"
    by (meson max.coboundedI1 min.coboundedI1 span_ordered)
  then show "span_from (hull a b) = min (span_from a) (span_from b)"
    "span_to (hull a b) = max (span_to a) (span_to b)"
    by (simp_all add: hull_def)
qed

lemma within_refl [simp]: "within s s"
  by (simp add: within_def)

lemma within_trans: "within a b \<Longrightarrow> within b c \<Longrightarrow> within a c"
  by (auto simp: within_def)

lemma within_antisym: "within a b \<Longrightarrow> within b a \<Longrightarrow> a = b"
  by (simp add: within_def span_eq_iff)

lemma within_width: "within a b \<Longrightarrow> width a \<le> width b"
  using span_ordered [of a] span_ordered [of b] unfolding within_def width_def by linarith

lemma within_width_eq: "within a b \<Longrightarrow> width b \<le> width a \<Longrightarrow> a = b"
  using span_ordered [of a] span_ordered [of b] unfolding within_def width_def span_eq_iff by linarith

lemma single_within [simp]: "within (single i) s \<longleftrightarrow> span_contains s i"
  by (simp add: within_def span_contains_def)

lemma single_contains [simp]: "span_contains (single i) j \<longleftrightarrow> j = i"
  by (auto simp: span_contains_def)

section \<open>Protocol records\<close>

datatype role = User | Assistant

datatype turn_kind = Own | Import | Inherited

datatype voice = Human | Wakeup | Peer | Harness

datatype edit_authority = ModelEdit | HarnessEdit

datatype quiesce_reason = Cancelled | Aborted | Replied

datatype tool_result = ToolResult (result_id: bytes) (result_content: bytes)

datatype eviction = Eviction (evicted_span: span) (eviction_note: "bytes option") (by_whom: edit_authority)

text \<open>Whether an item is in the context, and what holds it if not.\<close>

datatype location = Resident | Evicted span | Withdrawn

datatype 'l pointer = Pointer (source: nat) (loci: "'l list")

record turn_row =
  row_id :: nat
  row_role :: role
  row_kind :: turn_kind
  row_label :: bytes
  row_bytes :: nat
  row_location :: location

datatype 'l linked = Linked (row: turn_row) (address: "'l pointer")

datatype ('m, 'l) transcript =
    System bytes
  | UserPrompt nat bytes voice
  | Steering bytes voice
  | Import nat 'm
  | Inherited "'l linked list" "eviction list"
  | AssistantMessage nat 'm "bytes list" "bytes option"
  | ToolResults "tool_result list"
  | Evicted eviction
  | Rewound nat
  | Cleared

datatype ('m, 'l) recorded = Recorded (locus: 'l) (val: "('m, 'l) transcript")

section \<open>Messages\<close>

text \<open>The chat library, as far as the fold asks it, and the standard library's quoted form of a
  string, whose Unicode tables are not written out.\<close>

datatype content_part = ToolCallPart (description_argument: "bytes option") | OtherPart

record 'm chat_api =
  user_message :: "bytes \<Rightarrow> 'm"
  assistant_message :: "bytes \<Rightarrow> 'm"
  tool_message :: "bytes \<Rightarrow> bytes \<Rightarrow> 'm"
  is_assistant :: "'m \<Rightarrow> bool"
  is_user :: "'m \<Rightarrow> bool"
  json_len :: "'m \<Rightarrow> nat"
  first_text :: "'m \<Rightarrow> bytes option"
  content_parts :: "'m \<Rightarrow> content_part list"
  debug_quoted :: "bytes \<Rightarrow> bytes"

definition OPENING_CHARS :: nat where
  "OPENING_CHARS = 50"

text \<open>
  \<open>str::lines\<close> ends a line at a newline, less one carriage return before it; \<open>chars\<close> are the
  UTF-8 sequences, each a byte that continues none and the bytes that continue it.
\<close>

definition first_line :: "bytes \<Rightarrow> bytes" where
  "first_line t =
     (let l = takeWhile (\<lambda>c. c \<noteq> CHR 0x0A) t in
      if length l < length t \<and> l \<noteq> [] \<and> last l = CHR 0x0D then butlast l else l)"

fun take_chars :: "nat \<Rightarrow> bytes \<Rightarrow> bytes" where
  "take_chars 0 _ = []"
| "take_chars (Suc n) [] = []"
| "take_chars (Suc n) (c # s) =
     c # takeWhile (byte_in 128 191) s @ take_chars n (dropWhile (byte_in 128 191) s)"

lemma take_chars_Nil [simp]: "take_chars n [] = []"
  by (cases n) simp_all

lemma take_chars_numeral [simp]:
  "take_chars (numeral k) (c # s) =
     c # takeWhile (byte_in 128 191) s @ take_chars (pred_numeral k) (dropWhile (byte_in 128 191) s)"
  by (simp add: numeral_eq_Suc)

definition opening_line :: "bytes \<Rightarrow> bytes" where
  "opening_line t = take_chars OPENING_CHARS (first_line t)"

fun part_intent :: "content_part \<Rightarrow> bytes option" where
  "part_intent (ToolCallPart d) = d"
| "part_intent OtherPart = None"

definition message_intent :: "'m chat_api \<Rightarrow> 'm \<Rightarrow> bytes" where
  "message_intent api m =
     (case List.map_filter part_intent (content_parts api m) of [] \<Rightarrow> [] | d # _ \<Rightarrow> d)"

definition message_label :: "'m chat_api \<Rightarrow> 'm \<Rightarrow> bytes" where
  "message_label api m =
     (let line = opening_line (case first_text api m of None \<Rightarrow> [] | Some t \<Rightarrow> t) in
      if line = [] then opening_line (message_intent api m) else line)"

definition message_role :: "'m chat_api \<Rightarrow> 'm \<Rightarrow> role" where
  "message_role api m = (if is_user api m then User else Assistant)"

definition message_bytes :: "'m chat_api \<Rightarrow> 'm list \<Rightarrow> nat" where
  "message_bytes api ms = sum_list (map (json_len api) ms)"

fun chat_messages :: "'m chat_api \<Rightarrow> ('m, 'l) transcript \<Rightarrow> 'm list" where
  "chat_messages api (UserPrompt _ t _) = [user_message api t]"
| "chat_messages api (Steering t _) = [user_message api t]"
| "chat_messages api (transcript.Import _ m) = [m]"
| "chat_messages api (AssistantMessage _ m _ _) = [m]"
| "chat_messages api (ToolResults rs) =
     map (\<lambda>r. tool_message api (result_id r) (result_content r)) rs"
| "chat_messages api (System _) = []"
| "chat_messages api (transcript.Evicted _) = []"
| "chat_messages api (Rewound _) = []"
| "chat_messages api Cleared = []"
| "chat_messages api (transcript.Inherited _ _) = []"

definition resident_messages :: "'m chat_api \<Rightarrow> ('m, 'l) recorded list \<Rightarrow> 'm list" where
  "resident_messages api rs = concat (map (\<lambda>r. chat_messages api (val r)) rs)"

section \<open>Turns\<close>

text \<open>
  Where one turn's records are: in memory, with the address of the ancestor's copy where the
  turn was first recorded in an ancestor's file, or at an address, under the eviction that
  took it or withdrawn.
\<close>

datatype ('m, 'l) body =
    Here "('m, 'l) recorded list" "'l pointer option"
  | Evicted "'l pointer" span
  | Withdrawn "'l pointer"

record ('m, 'l) turn =
  turn_id :: nat
  turn_role :: role
  kind :: turn_kind
  label :: bytes
  turn_bytes :: nat
  body :: "('m, 'l) body"

fun body_location :: "('m, 'l) body \<Rightarrow> location" where
  "body_location (Here _ _) = Resident"
| "body_location (body.Evicted _ u) = location.Evicted u"
| "body_location (body.Withdrawn _) = location.Withdrawn"

definition turn_location :: "('m, 'l) turn \<Rightarrow> location" where
  "turn_location t = body_location (body t)"

definition is_resident :: "('m, 'l) turn \<Rightarrow> bool" where
  "is_resident t \<longleftrightarrow> turn_location t = Resident"

definition is_withdrawn :: "('m, 'l) turn \<Rightarrow> bool" where
  "is_withdrawn t \<longleftrightarrow> turn_location t = location.Withdrawn"

definition turn_records :: "('m, 'l) turn \<Rightarrow> ('m, 'l) recorded list" where
  "turn_records t = (case body t of Here rs _ \<Rightarrow> rs | _ \<Rightarrow> [])"

end
