(* ===== verification/Record_Table.thy ===== *)
theory Record_Table
  imports Record_Types
begin

text \<open>
  The structure the model fold keeps (\<open>exarch/src/record/context/table.rs\<close>): the lineage's turns
  in id order and its evictions in creation order, each with where it is; the items both make;
  and the operations that move them, one definition per method of \<open>Table\<close>.  A panic of the
  code (\<open>unreachable!\<close>, \<open>expect\<close>) is the value \<open>None\<close>.
\<close>

record ('m, 'l) table =
  turns :: "('m, 'l) turn list"
  evictions :: "(eviction \<times> location) list"
  table_source :: nat

definition table_new :: "nat \<Rightarrow> ('m, 'l) table" where
  "table_new src = \<lparr>turns = [], evictions = [], table_source = src\<rparr>"

definition eviction_spans :: "('m, 'l) table \<Rightarrow> span list" where
  "eviction_spans t = map (evicted_span \<circ> fst) (evictions t)"

definition turn_ids :: "('m, 'l) table \<Rightarrow> nat list" where
  "turn_ids t = map turn_id (turns t)"

definition find_turn :: "('m, 'l) table \<Rightarrow> nat \<Rightarrow> ('m, 'l) turn option" where
  "find_turn t i = List.find (\<lambda>u. turn_id u = i) (turns t)"

text \<open>What holds a departed item: the smallest of the later spans containing it.\<close>

definition holder :: "span \<Rightarrow> span list \<Rightarrow> span option" where
  "holder s later = min_by_key width (filter (within s) later)"

definition straddling :: "('m, 'l) table \<Rightarrow> nat \<Rightarrow> eviction option" where
  "straddling t i =
     max_by_key (width \<circ> evicted_span)
       (filter (\<lambda>e. span_from (evicted_span e) < i \<and> i \<le> span_to (evicted_span e))
         (map fst (evictions t)))"

section \<open>Items\<close>

datatype ('m, 'l) item = TurnItem "('m, 'l) turn" | EvictionItem eviction location

fun item_span :: "('m, 'l) item \<Rightarrow> span" where
  "item_span (TurnItem u) = single (turn_id u)"
| "item_span (EvictionItem e _) = evicted_span e"

fun item_location :: "('m, 'l) item \<Rightarrow> location" where
  "item_location (TurnItem u) = turn_location u"
| "item_location (EvictionItem _ w) = w"

fun is_material :: "('m, 'l) item \<Rightarrow> bool" where
  "is_material (EvictionItem _ _) = True"
| "is_material (TurnItem u) = (turn_records u \<noteq> [])"

fun is_eviction_item :: "('m, 'l) item \<Rightarrow> bool" where
  "is_eviction_item (EvictionItem _ _) = True"
| "is_eviction_item (TurnItem _) = False"

text \<open>By \<open>from\<close>, a wider span first, a turn after the evictions; the sort is stable.\<close>

definition item_key :: "('m, 'l) item \<Rightarrow> nat \<times> int \<times> bool" where
  "item_key i = (span_from (item_span i), - int (span_to (item_span i)), \<not> is_eviction_item i)"

definition items :: "('m, 'l) table \<Rightarrow> ('m, 'l) item list" where
  "items t =
     sort_key item_key
       (map (\<lambda>(e, w). EvictionItem e w) (rev (evictions t)) @ map TurnItem (turns t))"

definition frontier :: "('m, 'l) table \<Rightarrow> ('m, 'l) item list" where
  "frontier t = filter (\<lambda>i. item_location i = Resident) (items t)"

section \<open>Operations\<close>

definition open_turn :: "nat \<Rightarrow> role \<Rightarrow> turn_kind \<Rightarrow> bytes \<Rightarrow> ('m, 'l) table \<Rightarrow> ('m, 'l) table \<times> nat" where
  "open_turn i r k l t =
     (let t' = t\<lparr>turns := turns t @
        [\<lparr>turn_id = i, turn_role = r, kind = k, label = l, turn_bytes = 0, body = Here [] None\<rparr>]\<rparr> in
      (t', length (turns t') - 1))"

fun absorb_turn :: "('m, 'l) recorded \<Rightarrow> nat \<Rightarrow> ('m, 'l) turn \<Rightarrow> ('m, 'l) turn option" where
  "absorb_turn r b u =
     (case body u of
        Here rs o1 \<Rightarrow> Some (u\<lparr>turn_bytes := sat_add (turn_bytes u) b, body := Here (rs @ [r]) o1\<rparr>)
      | _ \<Rightarrow> None)"

definition absorb :: "nat \<Rightarrow> ('m, 'l) recorded \<Rightarrow> nat \<Rightarrow> ('m, 'l) table \<Rightarrow> ('m, 'l) table option" where
  "absorb i r b t =
     (if i < length (turns t)
      then map_option (\<lambda>u. t\<lparr>turns := (turns t)[i := u]\<rparr>) (absorb_turn r b (turns t ! i))
      else None)"

fun linked_turn :: "nat \<Rightarrow> ('m, 'l) body \<Rightarrow> turn_row \<Rightarrow> ('m, 'l) turn" where
  "linked_turn b bd rw =
     \<lparr>turn_id = row_id rw, turn_role = row_role rw, kind = row_kind rw, label = row_label rw,
      turn_bytes = b, body = bd\<rparr>"

text \<open>The rows of a link as turns, a resident one holding the next seed.\<close>

fun install_turns ::
  "'m chat_api \<Rightarrow> 'l linked list \<Rightarrow> ('m, 'l) recorded list list \<Rightarrow> ('m, 'l) turn list option" where
  "install_turns api [] _ = Some []"
| "install_turns api (Linked rw p # ls) seeds =
     (case row_location rw of
        Resident \<Rightarrow>
          (case seeds of
             [] \<Rightarrow> None
           | rs # more_seeds \<Rightarrow>
               map_option
                 (Cons (linked_turn (message_bytes api (resident_messages api rs)) (Here rs (Some p)) rw))
                 (install_turns api ls more_seeds))
      | location.Evicted u \<Rightarrow>
          map_option (Cons (linked_turn (row_bytes rw) (body.Evicted p u) rw))
            (install_turns api ls seeds)
      | location.Withdrawn \<Rightarrow>
          map_option (Cons (linked_turn (row_bytes rw) (body.Withdrawn p) rw))
            (install_turns api ls seeds))"

definition evicted_by :: "span option \<Rightarrow> location" where
  "evicted_by h = (case h of None \<Rightarrow> Resident | Some u \<Rightarrow> location.Evicted u)"

definition withdrawn_at :: "('m, 'l) turn list \<Rightarrow> nat \<Rightarrow> bool" where
  "withdrawn_at us i \<longleftrightarrow>
     (case List.find (\<lambda>u. turn_id u = i) us of None \<Rightarrow> False | Some u \<Rightarrow> is_withdrawn u)"

fun install_evictions :: "('m, 'l) turn list \<Rightarrow> eviction list \<Rightarrow> (eviction \<times> location) list" where
  "install_evictions us [] = []"
| "install_evictions us (e # es) =
     (e, if withdrawn_at us (span_from (evicted_span e)) then location.Withdrawn
         else evicted_by (holder (evicted_span e) (map evicted_span es)))
     # install_evictions us es"

definition install ::
  "'m chat_api \<Rightarrow> 'l linked list \<Rightarrow> eviction list \<Rightarrow> ('m, 'l) recorded list list
    \<Rightarrow> ('m, 'l) table \<Rightarrow> ('m, 'l) table option" where
  "install api ls es seeds t =
     map_option (\<lambda>us. t\<lparr>turns := us, evictions := install_evictions us es\<rparr>)
       (install_turns api ls seeds)"

text \<open>Where an item departs to: under an eviction, or withdrawn.\<close>

definition departed :: "span option \<Rightarrow> location" where
  "departed un = (case un of None \<Rightarrow> location.Withdrawn | Some u \<Rightarrow> location.Evicted u)"

definition depart_eviction ::
  "(span \<Rightarrow> bool) \<Rightarrow> span option \<Rightarrow> eviction \<times> location \<Rightarrow> eviction \<times> location" where
  "depart_eviction leaving un = (\<lambda>(e, was).
     (e, if leaving (evicted_span e) \<and> (un = None \<or> was = Resident) then departed un else was))"

fun depart_body :: "nat \<Rightarrow> span option \<Rightarrow> ('m, 'l) body \<Rightarrow> ('m, 'l) body" where
  "depart_body src un (Here rs o1) =
     (let p = (case o1 of Some p \<Rightarrow> p | None \<Rightarrow> Pointer src (map locus rs)) in
      case un of Some u \<Rightarrow> body.Evicted p u | None \<Rightarrow> body.Withdrawn p)"
| "depart_body src un (body.Evicted p u) = (if un = None then body.Withdrawn p else body.Evicted p u)"
| "depart_body src un (body.Withdrawn p) = body.Withdrawn p"

definition depart_turn :: "nat \<Rightarrow> (span \<Rightarrow> bool) \<Rightarrow> span option \<Rightarrow> ('m, 'l) turn \<Rightarrow> ('m, 'l) turn" where
  "depart_turn src leaving un u =
     (if leaving (single (turn_id u)) then u\<lparr>body := depart_body src un (body u)\<rparr> else u)"

definition depart :: "(span \<Rightarrow> bool) \<Rightarrow> span option \<Rightarrow> ('m, 'l) table \<Rightarrow> ('m, 'l) table" where
  "depart leaving un t =
     t\<lparr>evictions := map (depart_eviction leaving un) (evictions t),
       turns := map (depart_turn (table_source t) leaving un) (turns t)\<rparr>"

definition withdraw :: "nat \<Rightarrow> ('m, 'l) table \<Rightarrow> ('m, 'l) table" where
  "withdraw f t = depart (\<lambda>s. f \<le> span_from s) None t"

definition evict :: "eviction \<Rightarrow> ('m, 'l) table \<Rightarrow> ('m, 'l) table" where
  "evict e t =
     (let t' = depart (\<lambda>s. within s (evicted_span e)) (Some (evicted_span e)) t in
      t'\<lparr>evictions := evictions t' @ [(e, Resident)]\<rparr>)"

end
