(* ===== verification/Record_State.thy ===== *)
theory Record_State
  imports Record_Table
begin

text \<open>
  The sequencing automaton (\<open>exarch/src/record/context/state.rs\<close>): where the protocol rests, what
  may follow, where a turn's records leave it, and what a quiesce still owes.
\<close>

datatype state =
    ReadyForUser
  | AwaitingAssistantAfterUser
  | AwaitingToolResults "bytes list"
  | AwaitingAssistantAfterToolResults

fun advance :: "state \<Rightarrow> ('m, 'l) transcript \<Rightarrow> state" where
  "advance s (UserPrompt _ _ _) = AwaitingAssistantAfterUser"
| "advance s (Steering _ _) = AwaitingAssistantAfterUser"
| "advance s (AssistantMessage _ _ pending _) =
     (if pending \<noteq> [] then AwaitingToolResults pending else ReadyForUser)"
| "advance s (ToolResults _) = AwaitingAssistantAfterToolResults"
| "advance s (System _) = s"
| "advance s (transcript.Import _ _) = s"
| "advance s (transcript.Evicted _) = s"
| "advance s (Rewound _) = s"
| "advance s Cleared = s"
| "advance s (transcript.Inherited _ _) = s"

definition resting :: "('m, 'l) recorded list \<Rightarrow> state" where
  "resting rs = fold (\<lambda>r s. advance s (val r)) rs ReadyForUser"

fun admits_new_turn :: "state \<Rightarrow> bool" where
  "admits_new_turn (AwaitingToolResults _) = False"
| "admits_new_turn _ = True"

datatype result_refusal =
    CountMismatch nat nat
  | UnknownId bytes
  | DuplicateId bytes

fun check_results :: "bytes list \<Rightarrow> bytes list \<Rightarrow> tool_result list \<Rightarrow> result_refusal + unit" where
  "check_results expected seen [] = Inr ()"
| "check_results expected seen (r # rs) =
     (if result_id r \<notin> set expected then Inl (UnknownId (result_id r))
      else if result_id r \<in> set seen then Inl (DuplicateId (result_id r))
      else check_results expected (result_id r # seen) rs)"

definition validate_result_ids :: "bytes list \<Rightarrow> tool_result list \<Rightarrow> result_refusal + unit" where
  "validate_result_ids pending results =
     (if length pending \<noteq> length results
      then Inl (CountMismatch (length pending) (length results))
      else check_results pending [] results)"

definition awaits_assistant :: "state \<Rightarrow> bool" where
  "awaits_assistant s \<longleftrightarrow> s = AwaitingAssistantAfterUser \<or> s = AwaitingAssistantAfterToolResults"

fun admissible :: "'m chat_api \<Rightarrow> state \<Rightarrow> ('m, 'l) transcript \<Rightarrow> bool" where
  "admissible api s (UserPrompt _ _ _) = admits_new_turn s"
| "admissible api s (Steering _ _) = admits_new_turn s"
| "admissible api s (transcript.Import _ _) = admits_new_turn s"
| "admissible api s (AssistantMessage _ m _ _) = (is_assistant api m \<and> awaits_assistant s)"
| "admissible api s (ToolResults results) =
     (case s of
        AwaitingToolResults pending \<Rightarrow> is_ok (validate_result_ids pending results)
      | _ \<Rightarrow> False)"
| "admissible api s (Rewound _) = admits_new_turn s"
| "admissible api s Cleared = admits_new_turn s"
| "admissible api s (System _) = True"
| "admissible api s (transcript.Evicted _) = True"
| "admissible api s (transcript.Inherited _ _) = True"

text \<open>The longest prefix that owes no tool result; \<open>i\<close> counts the records gone by.\<close>

fun prefix_end :: "state \<Rightarrow> nat \<Rightarrow> nat \<Rightarrow> ('m, 'l) recorded list \<Rightarrow> nat" where
  "prefix_end s i found [] = found"
| "prefix_end s i found (r # rs) =
     (let s' = advance s (val r) in
      prefix_end s' (Suc i) (if admits_new_turn s' then Suc i else found) rs)"

definition admissible_prefix :: "('m, 'l) recorded list \<Rightarrow> nat" where
  "admissible_prefix rs = prefix_end ReadyForUser 0 0 rs"

definition UNRUN_TOOL_CALL :: bytes where
  "UNRUN_TOOL_CALL = ''[EXARCH // No result: the deliberation ended before this call ran.]''"

definition quiesce_records ::
  "'m chat_api \<Rightarrow> state \<Rightarrow> quiesce_reason \<Rightarrow> nat \<Rightarrow> ('m, 'l) transcript list" where
  "quiesce_records api s reason turn =
     (let owed = (case s of
            AwaitingToolResults pending \<Rightarrow> [ToolResults (map (\<lambda>i. ToolResult i UNRUN_TOOL_CALL) pending)]
          | _ \<Rightarrow> []);
          s' = fold (\<lambda>r s. advance s r) owed s in
      owed @
      (if reason = Replied \<and> s' \<noteq> ReadyForUser
       then [AssistantMessage turn
               (assistant_message api ''[EXARCH // Deliberation ended: replied to parent.]'')
               [] (Some ''replied'')]
       else []))"

section \<open>The automaton's laws\<close>

lemma resting_Nil [simp]: "resting [] = ReadyForUser"
  by (simp add: resting_def)

lemma resting_snoc [simp]: "resting (rs @ [r]) = advance (resting rs) (val r)"
  by (simp add: resting_def)

lemma check_results_iff:
  "is_ok (check_results expected seen rs) \<longleftrightarrow>
     set (map result_id rs) \<subseteq> set expected \<and> distinct (map result_id rs)
     \<and> set (map result_id rs) \<inter> set seen = {}"
  by (induction expected seen rs rule: check_results.induct) auto

text \<open>A batch of results is accepted when it answers every pending call once.\<close>

lemma validate_result_ids_iff:
  "is_ok (validate_result_ids pending results) \<longleftrightarrow>
     distinct pending \<and> distinct (map result_id results) \<and> set (map result_id results) = set pending"
proof -
  let ?ids = "map result_id results"
  have "length pending = length ?ids \<and> distinct ?ids \<and> set ?ids \<subseteq> set pending \<longleftrightarrow>
        distinct pending \<and> distinct ?ids \<and> set ?ids = set pending"
    by (metis card_length card_mono card_distinct distinct_card dual_order.antisym
        List.finite_set card_subset_eq order_refl)
  then show ?thesis
    using check_results_iff [of pending "[]" results]
    by (auto simp: validate_result_ids_def)
qed

lemma advance_holds_iff:
  "admits_new_turn (advance s r) \<longleftrightarrow>
     (case r of
        AssistantMessage _ _ pending _ \<Rightarrow> pending = []
      | UserPrompt _ _ _ \<Rightarrow> True | Steering _ _ \<Rightarrow> True | ToolResults _ \<Rightarrow> True
      | _ \<Rightarrow> admits_new_turn s)"
  by (cases r) auto

end
