(* ===== verification/Record_Context.thy ===== *)
theory Record_Context
  imports Record_State
begin

text \<open>
  The model fold's state and what is read off it: \<open>Context\<close> of
  \<open>exarch/src/record/context.rs\<close> with its readings, the automaton's readings of
  \<open>context/state.rs\<close>, and the provider's view of \<open>context/render.rs\<close>.
\<close>

record ('m, 'l) ctx =
  ctx_table :: "('m, 'l) table"
  ctx_state :: state
  ctx_system :: bytes
  ctx_len :: nat
  newest_edit :: "nat option"

definition context_new :: "nat \<Rightarrow> ('m, 'l) ctx" where
  "context_new src =
     \<lparr>ctx_table = table_new src, ctx_state = ReadyForUser, ctx_system = [], ctx_len = 0,
      newest_edit = None\<rparr>"

abbreviation ctx_turns :: "('m, 'l) ctx \<Rightarrow> ('m, 'l) turn list" where
  "ctx_turns c \<equiv> turns (ctx_table c)"

definition last_turn :: "('m, 'l) ctx \<Rightarrow> ('m, 'l) turn option" where
  "last_turn c = (if ctx_turns c = [] then None else Some (last (ctx_turns c)))"

section \<open>Readings of the structure\<close>

definition reach :: "('m, 'l) ctx \<Rightarrow> nat option" where
  "reach c = map_option turn_id (last_turn c)"

definition next_id :: "('m, 'l) ctx \<Rightarrow> nat" where
  "next_id c = sat_add (case reach c of None \<Rightarrow> 0 | Some i \<Rightarrow> i) 1"

definition resident :: "('m, 'l) ctx \<Rightarrow> ('m, 'l) turn list" where
  "resident c = filter is_resident (ctx_turns c)"

definition is_user_turn :: "('m, 'l) turn \<Rightarrow> bool" where
  "is_user_turn u \<longleftrightarrow> turn_role u = User"

definition current_prompt :: "('m, 'l) ctx \<Rightarrow> nat option" where
  "current_prompt c = map_option turn_id (List.find is_user_turn (rev (ctx_turns c)))"

text \<open>The nearest user turn at or before a turn: the rows up to it, from the last.\<close>

definition prompt_of :: "('m, 'l) ctx \<Rightarrow> nat \<Rightarrow> nat option" where
  "prompt_of c i =
     (let before = takeWhile (\<lambda>u. turn_id u \<noteq> i) (ctx_turns c) in
      case find_turn (ctx_table c) i of
        None \<Rightarrow> None
      | Some u \<Rightarrow> map_option turn_id (List.find is_user_turn (u # rev before)))"

definition live_prompt :: "('m, 'l) ctx \<Rightarrow> nat option" where
  "live_prompt c =
     (case last_turn c of
        None \<Rightarrow> None
      | Some u \<Rightarrow> if is_resident u then prompt_of c (turn_id u) else None)"

definition own_pointer :: "nat \<Rightarrow> ('m, 'l) recorded list \<Rightarrow> 'l pointer" where
  "own_pointer src rs = Pointer src (map locus rs)"

fun turn_address :: "nat \<Rightarrow> ('m, 'l) body \<Rightarrow> 'l pointer" where
  "turn_address src (Here rs None) = own_pointer src rs"
| "turn_address src (Here rs (Some p)) = p"
| "turn_address src (body.Evicted p u) = p"
| "turn_address src (body.Withdrawn p) = p"

text \<open>The link a fork carries: one row per turn, with where its transcript copy lies.\<close>

definition linked_of :: "nat \<Rightarrow> ('m, 'l) turn \<Rightarrow> 'l linked" where
  "linked_of src u =
     Linked \<lparr>row_id = turn_id u, row_role = turn_role u, row_kind = turn_kind.Inherited,
             row_label = label u, row_bytes = turn_bytes u, row_location = turn_location u\<rparr>
       (turn_address src (body u))"

definition linked :: "('m, 'l) ctx \<Rightarrow> 'l linked list" where
  "linked c = map (linked_of (table_source (ctx_table c))) (ctx_turns c)"

definition ctx_evictions :: "('m, 'l) ctx \<Rightarrow> eviction list" where
  "ctx_evictions c = map fst (evictions (ctx_table c))"

definition token_measure_is_stale :: "('m, 'l) ctx \<Rightarrow> nat \<Rightarrow> bool" where
  "token_measure_is_stale c measured =
     (case newest_edit c of None \<Rightarrow> False | Some i \<Rightarrow> measured \<le> i)"

section \<open>Readings of the automaton\<close>

definition is_ready :: "('m, 'l) ctx \<Rightarrow> bool" where
  "is_ready c \<longleftrightarrow> admits_new_turn (ctx_state c)"

definition unclosed_turn :: "('m, 'l) ctx \<Rightarrow> nat option" where
  "unclosed_turn c =
     (case last_turn c of
        None \<Rightarrow> None
      | Some u \<Rightarrow>
          if is_resident u \<and> ctx_state c \<noteq> ReadyForUser then Some (turn_id u) else None)"

definition is_awaiting_assistant :: "('m, 'l) ctx \<Rightarrow> bool" where
  "is_awaiting_assistant c \<longleftrightarrow> awaits_assistant (ctx_state c)"

definition pending_tool_results :: "('m, 'l) ctx \<Rightarrow> bytes list option" where
  "pending_tool_results c =
     (case ctx_state c of AwaitingToolResults pending \<Rightarrow> Some pending | _ \<Rightarrow> None)"

section \<open>The provider's view\<close>

text \<open>\<open>Turn 12\<close>, or \<open>Turns 12-40\<close> with an en dash, three bytes of UTF-8.\<close>

definition capitalised :: "span \<Rightarrow> bytes" where
  "capitalised s =
     (if span_from s = span_to s then ''Turn '' @ decimal (span_from s)
      else ''Turns '' @ decimal (span_from s) @ [CHR 0xE2, CHR 0x80, CHR 0x93] @ decimal (span_to s))"

definition render_eviction :: "'m chat_api \<Rightarrow> eviction \<Rightarrow> bytes" where
  "render_eviction api e =
     (let s = evicted_span e;
          named = capitalised s;
          (have, they, them) =
            (if is_single s then (''has'', ''It is'', ''it'') else (''have'', ''They are'', ''them''));
          gone = (case eviction_note e of
              Some n \<Rightarrow> named @ '' '' @ have @ '' left your context.'' @ [CHR 0x0A]
                       @ ''Your note: '' @ debug_quoted api n
            | None \<Rightarrow> named @ '' '' @ have
                       @ '' left your context in a forced eviction, without a note.'') in
      ''[EXARCH // '' @ gone @ [CHR 0x0A] @ they
      @ '' still readable: exarch-transcript `read [turns: !{range '' @ decimal (span_from s) @ '' ''
      @ decimal (span_to s + 1) @ ''}] reads '' @ them
      @ '' back as material, exarch-transcript `index lists every turn and every note, ''
      @ ''and exarch-transcript `grep [pattern: 're', turns: `all] searches both.]'')"

definition eviction_label :: "eviction \<Rightarrow> bytes" where
  "eviction_label e =
     (case eviction_note e of Some n \<Rightarrow> n | None \<Rightarrow> ''forced eviction, without a note'')"

fun item_messages :: "'m chat_api \<Rightarrow> ('m, 'l) item \<Rightarrow> 'm list" where
  "item_messages api (TurnItem u) = resident_messages api (turn_records u)"
| "item_messages api (EvictionItem e _) = [user_message api (render_eviction api e)]"

fun item_bytes :: "'m chat_api \<Rightarrow> ('m, 'l) item \<Rightarrow> nat" where
  "item_bytes api (TurnItem u) = turn_bytes u"
| "item_bytes api (EvictionItem e w) = message_bytes api (item_messages api (EvictionItem e w :: ('m, 'l) item))"

definition rendered :: "'m chat_api \<Rightarrow> ('m, 'l) ctx \<Rightarrow> 'm list" where
  "rendered api c = concat (map (item_messages api) (frontier (ctx_table c)))"

definition sat_sum :: "nat list \<Rightarrow> nat" where
  "sat_sum ns = fold (\<lambda>n s. sat_add s n) ns 0"

definition history_bytes :: "'m chat_api \<Rightarrow> ('m, 'l) ctx \<Rightarrow> nat" where
  "history_bytes api c = sat_sum (map (item_bytes api) (frontier (ctx_table c)))"

definition event_count :: "('m, 'l) ctx \<Rightarrow> nat" where
  "event_count c =
     sum_list (map (\<lambda>i. case i of TurnItem u \<Rightarrow> length (turn_records u) | EvictionItem _ _ \<Rightarrow> 1)
       (frontier (ctx_table c)))"

datatype item_kind = TurnKind turn_kind | EvictionKind

record span_row =
  sr_span :: span
  sr_role :: role
  sr_kind :: item_kind
  sr_label :: bytes
  sr_bytes :: nat
  sr_location :: location

fun item_row :: "'m chat_api \<Rightarrow> ('m, 'l) item \<Rightarrow> span_row" where
  "item_row api (TurnItem u) =
     \<lparr>sr_span = single (turn_id u), sr_role = turn_role u, sr_kind = TurnKind (kind u),
      sr_label = label u, sr_bytes = turn_bytes u, sr_location = turn_location u\<rparr>"
| "item_row api (EvictionItem e w) =
     \<lparr>sr_span = evicted_span e, sr_role = User, sr_kind = EvictionKind,
      sr_label = eviction_label e,
      sr_bytes = item_bytes api (EvictionItem e w :: ('m, 'l) item), sr_location = w\<rparr>"

definition context_survey :: "'m chat_api \<Rightarrow> ('m, 'l) ctx \<Rightarrow> span_row list \<times> nat" where
  "context_survey api c = (map (item_row api) (frontier (ctx_table c)), history_bytes api c)"

definition transcript_index :: "'m chat_api \<Rightarrow> ('m, 'l) ctx \<Rightarrow> span_row list" where
  "transcript_index api c = map (item_row api) (items (ctx_table c))"

end
