(* ===== verification/Record_Fold.thy ===== *)
theory Record_Fold
  imports Record_Context
begin

text \<open>
  The one fold (\<open>exarch/src/record/context/fold.rs\<close>): which cuts an eviction may make, where a
  rewind may land, what a forced eviction plans, and the step that judges each protocol record
  and applies it.

  A refusal is a value of \<open>foreign\<close> or \<open>cut_refusal\<close> that keeps what its message names; a link
  whose ancestor's file will not read back is \<open>Unreadable\<close>; a panic of the code is \<open>Panic\<close>.
  Reading a pointer is I/O, so \<open>read_pointer\<close> is a parameter: what the file holds at its loci,
  or \<open>None\<close> where it does not read back.
\<close>

datatype cut_refusal =
    NotRecorded nat "nat option"
  | WithdrawnEnd nat
  | InHand nat
  | CutsEviction span

text \<open>The first refusal of a list of guards, in the order the code has them.\<close>

fun first_refusal :: "'e option list \<Rightarrow> 'e + unit" where
  "first_refusal [] = Inr ()"
| "first_refusal (None # gs) = first_refusal gs"
| "first_refusal (Some e # gs) = Inl e"

definition guard_end :: "('m, 'l) ctx \<Rightarrow> nat \<Rightarrow> cut_refusal option" where
  "guard_end c i =
     (case find_turn (ctx_table c) i of
        None \<Rightarrow> Some (NotRecorded i (reach c))
      | Some u \<Rightarrow> if is_withdrawn u then Some (WithdrawnEnd i) else None)"

definition straddled_by_cut :: "('m, 'l) table \<Rightarrow> span \<Rightarrow> eviction option" where
  "straddled_by_cut t s =
     (case straddling t (span_from s) of
        Some e \<Rightarrow> Some e
      | None \<Rightarrow> straddling t (sat_add (span_to s) 1))"

definition resolve_cut :: "('m, 'l) ctx \<Rightarrow> span \<Rightarrow> cut_refusal + unit" where
  "resolve_cut c s =
     first_refusal
       [guard_end c (span_from s),
        guard_end c (span_to s),
        (case unclosed_turn c of
           Some i \<Rightarrow> if span_contains s i then Some (InHand i) else None
         | None \<Rightarrow> None),
        map_option (CutsEviction \<circ> evicted_span) (straddled_by_cut (ctx_table c) s)]"

datatype rewind_refusal =
    RewindNotRecorded nat "nat option"
  | AlreadyWithdrawn nat "nat option"
  | UnderEviction nat span
  | NotReady state

definition rewindable :: "('m, 'l) ctx \<Rightarrow> nat \<Rightarrow> rewind_refusal + unit" where
  "rewindable c a =
     first_refusal
       [(case find_turn (ctx_table c) a of
           None \<Rightarrow> Some (RewindNotRecorded a (reach c))
         | Some u \<Rightarrow>
             if is_withdrawn u
             then Some (AlreadyWithdrawn a
                    (map_option turn_id (List.find (\<lambda>v. \<not> is_withdrawn v) (ctx_turns c))))
             else None),
        map_option (\<lambda>e. UnderEviction a (evicted_span e)) (straddling (ctx_table c) a),
        (if is_ready c then None else Some (NotReady (ctx_state c)))]"

section \<open>Planning a forced eviction\<close>

text \<open>
  The candidates are read newest first, as the code walks them; \<open>i\<close> is the index of the head.
\<close>

fun over_budget :: "nat \<Rightarrow> nat \<Rightarrow> nat list \<Rightarrow> nat option" where
  "over_budget keep spent [] = None"
| "over_budget keep spent (b # bs) =
     (let s = sat_add spent b in if s > keep then Some (length bs) else over_budget keep s bs)"

definition plan_forced_eviction :: "'m chat_api \<Rightarrow> ('m, 'l) ctx \<Rightarrow> nat \<Rightarrow> span option" where
  "plan_forced_eviction api c keep =
     (let its = frontier (ctx_table c) in
      if its = [] then None
      else let newest = last its; candidates = butlast its in
      case over_budget keep (item_bytes api newest) (map (item_bytes api) (rev candidates)) of
        None \<Rightarrow> None
      | Some through \<Rightarrow>
          (case filter is_material (take (Suc through) candidates) of
             [] \<Rightarrow> None
           | [EvictionItem _ _] \<Rightarrow> None
           | _ \<Rightarrow> Some (hull (item_span (candidates ! 0)) (item_span (candidates ! through)))))"

section \<open>Judging a record\<close>

datatype foreign =
    Inadmissible
  | Stale nat
  | LinkNotFirst
  | LinkOutOfOrder nat nat
  | LinkUnheld span
  | LinkCrossed span span
  | LinkContradicted nat location
  | RewindsUnrecorded nat
  | RewindsWithdrawn nat
  | RewindsInside nat span
  | UnlawfulCut span cut_refusal
  | SteersNothing
  | ExtendsDeparted nat

fun stale :: "('m, 'l) ctx \<Rightarrow> ('m, 'l) transcript \<Rightarrow> nat option" where
  "stale c (UserPrompt i _ _) = (if Some i \<le> reach c then Some i else None)"
| "stale c (AssistantMessage i _ _ _) = (if Some i \<le> reach c then Some i else None)"
| "stale c (transcript.Import i _) = (if Some i \<le> reach c then Some i else None)"
| "stale c _ = None"

fun extends :: "('m, 'l) ctx \<Rightarrow> ('m, 'l) transcript \<Rightarrow> ('m, 'l) turn option" where
  "extends c (Steering _ _) = last_turn c"
| "extends c (ToolResults _) = last_turn c"
| "extends c _ = None"

fun out_of_order :: "nat list \<Rightarrow> (nat \<times> nat) option" where
  "out_of_order (a # b # is) = (if a \<ge> b then Some (a, b) else out_of_order (b # is))"
| "out_of_order _ = None"

definition apart :: "span \<Rightarrow> span \<Rightarrow> bool" where
  "apart a b \<longleftrightarrow> span_to a < span_from b \<or> span_to b < span_from a"

fun crossed :: "span list \<Rightarrow> (span \<times> span) option" where
  "crossed [] = None"
| "crossed (s # ss) =
     (case List.find (\<lambda>l. \<not> (within s l \<or> apart s l)) ss of
        Some l \<Rightarrow> Some (s, l)
      | None \<Rightarrow> crossed ss)"

definition contradicted :: "span list \<Rightarrow> turn_row \<Rightarrow> bool" where
  "contradicted ss rw \<longleftrightarrow>
     row_location rw \<noteq> location.Withdrawn \<and>
     row_location rw \<noteq> evicted_by (holder (single (row_id rw)) ss)"

fun judge_link :: "('m, 'l) ctx \<Rightarrow> ('m, 'l) transcript \<Rightarrow> foreign option list" where
  "judge_link c (transcript.Inherited ls es) =
     (let rows = map row ls; ids = map row_id rows; spans = map evicted_span es in
      [if ctx_len c \<noteq> 0 then Some LinkNotFirst else None,
       map_option (\<lambda>(a, b). LinkOutOfOrder a b) (out_of_order ids),
       map_option LinkUnheld
         (List.find (\<lambda>s. span_from s \<notin> set ids \<or> span_to s \<notin> set ids) spans),
       map_option (\<lambda>(a, b). LinkCrossed a b) (crossed spans),
       map_option (\<lambda>rw. LinkContradicted (row_id rw) (row_location rw))
         (List.find (contradicted spans) rows)])"
| "judge_link c _ = []"

fun judge_edit :: "('m, 'l) ctx \<Rightarrow> ('m, 'l) transcript \<Rightarrow> foreign option list" where
  "judge_edit c (Rewound a) =
     [(case find_turn (ctx_table c) a of
         None \<Rightarrow> Some (RewindsUnrecorded a)
       | Some u \<Rightarrow> if is_withdrawn u then Some (RewindsWithdrawn a) else None),
      map_option (\<lambda>e. RewindsInside a (evicted_span e)) (straddling (ctx_table c) a)]"
| "judge_edit c (transcript.Evicted e) =
     [(case resolve_cut c (evicted_span e) of
         Inl why \<Rightarrow> Some (UnlawfulCut (evicted_span e) why)
       | Inr _ \<Rightarrow> None)]"
| "judge_edit c (Steering _ _) = [if ctx_turns c = [] then Some SteersNothing else None]"
| "judge_edit c _ = []"

definition judge :: "'m chat_api \<Rightarrow> ('m, 'l) ctx \<Rightarrow> ('m, 'l) transcript \<Rightarrow> foreign + unit" where
  "judge api c p =
     first_refusal
       ([if admissible api (ctx_state c) p then None else Some Inadmissible,
         map_option Stale (stale c p)]
        @ judge_link c p
        @ judge_edit c p
        @ [(case extends c p of
              Some u \<Rightarrow> if is_resident u then None else Some (ExtendsDeparted (turn_id u))
            | None \<Rightarrow> None)])"

section \<open>The step\<close>

datatype fault = Foreign foreign | Unreadable nat | Panic

type_synonym ('m, 'l) reader = "'l pointer \<Rightarrow> ('m, 'l) transcript list option"

definition seed_at :: "'l pointer \<Rightarrow> ('m, 'l) transcript list \<Rightarrow> ('m, 'l) recorded list" where
  "seed_at p vs = (let rs = map2 Recorded (loci p) vs in take (admissible_prefix rs) rs)"

fun read_seeds :: "('m, 'l) reader \<Rightarrow> 'l linked list \<Rightarrow> fault + ('m, 'l) recorded list list" where
  "read_seeds rd [] = Inr []"
| "read_seeds rd (Linked rw p # ls) =
     (if row_location rw = Resident then
        (case rd p of
           None \<Rightarrow> Inl (Unreadable (row_id rw))
         | Some vs \<Rightarrow> map_sum id (Cons (seed_at p vs)) (read_seeds rd ls))
      else read_seeds rd ls)"

text \<open>Which row a record's material lands on, opening one where the record bears an id.\<close>

fun place :: "'m chat_api \<Rightarrow> ('m, 'l) table \<Rightarrow> ('m, 'l) transcript \<Rightarrow> ('m, 'l) table \<times> nat option" where
  "place api t (UserPrompt i x _) = map_prod id Some (open_turn i User Own (opening_line x) t)"
| "place api t (AssistantMessage i m _ _) =
     map_prod id Some (open_turn i Assistant Own (message_label api m) t)"
| "place api t (transcript.Import i m) =
     map_prod id Some (open_turn i (message_role api m) turn_kind.Import (message_label api m) t)"
| "place api t (Steering _ _) =
     (t, if turns t = [] then None else Some (length (turns t) - 1))"
| "place api t (ToolResults _) =
     (t, if turns t = [] then None else Some (length (turns t) - 1))"
| "place api t _ = (t, None)"

definition last_records :: "('m, 'l) ctx \<Rightarrow> ('m, 'l) recorded list" where
  "last_records c = (if resident c = [] then [] else turn_records (last (resident c)))"

definition withdrawn_from :: "nat \<Rightarrow> ('m, 'l) ctx \<Rightarrow> ('m, 'l) ctx" where
  "withdrawn_from a c =
     (let c' = c\<lparr>ctx_table := withdraw a (ctx_table c), newest_edit := Some (ctx_len c)\<rparr> in
      c'\<lparr>ctx_state := resting (last_records c')\<rparr>)"

text \<open>What the record does to the structure and the automaton, before its material lands.\<close>

definition effect ::
  "'m chat_api \<Rightarrow> ('m, 'l) reader \<Rightarrow> ('m, 'l) ctx \<Rightarrow> ('m, 'l) transcript \<Rightarrow> fault + ('m, 'l) ctx" where
  "effect api rd c p =
     (let c0 = c\<lparr>ctx_state := advance (ctx_state c) p\<rparr> in
      case p of
        System x \<Rightarrow> Inr (c0\<lparr>ctx_system := x\<rparr>)
      | transcript.Inherited ls es \<Rightarrow>
          (case read_seeds rd ls of
             Inl f \<Rightarrow> Inl f
           | Inr seeds \<Rightarrow>
               (case install api ls es seeds (ctx_table c) of
                  None \<Rightarrow> Inl Panic
                | Some t \<Rightarrow> Inr (c0\<lparr>ctx_table := t\<rparr>)))
      | transcript.Evicted e \<Rightarrow>
          Inr (c0\<lparr>ctx_table := evict e (ctx_table c), newest_edit := Some (ctx_len c)\<rparr>)
      | Rewound a \<Rightarrow> Inr (withdrawn_from a c)
      | Cleared \<Rightarrow> Inr (withdrawn_from 0 c)
      | _ \<Rightarrow> Inr c0)"

text \<open>The record's material lands on its row.\<close>

definition land :: "'m chat_api \<Rightarrow> ('m, 'l) recorded \<Rightarrow> ('m, 'l) ctx \<Rightarrow> fault + ('m, 'l) ctx" where
  "land api r c =
     (case place api (ctx_table c) (val r) of
        (t, None) \<Rightarrow> Inr (c\<lparr>ctx_table := t\<rparr>)
      | (t, Some i) \<Rightarrow>
          (case absorb i r (message_bytes api (chat_messages api (val r))) t of
             None \<Rightarrow> Inl Panic
           | Some t' \<Rightarrow> Inr (c\<lparr>ctx_table := t'\<rparr>)))"

definition step_transcript ::
  "'m chat_api \<Rightarrow> ('m, 'l) reader \<Rightarrow> ('m, 'l) ctx \<Rightarrow> ('m, 'l) recorded \<Rightarrow> fault + ('m, 'l) ctx" where
  "step_transcript api rd c r =
     (case judge api c (val r) of
        Inl f \<Rightarrow> Inl (Foreign f)
      | Inr _ \<Rightarrow>
          (case effect api rd c (val r) of
             Inl f \<Rightarrow> Inl f
           | Inr c' \<Rightarrow> land api r (c'\<lparr>ctx_len := ctx_len c + 1\<rparr>)))"

end
