(* ===== verification/Record_Session.thy ===== *)
theory Record_Session
  imports Record_Fold
begin

text \<open>
  The writer's operations (\<open>exarch/src/record/session.rs\<close>): each one's own refusals, and the
  record it commits.  Committing emits the record through the seam, whose log is I/O and so a
  parameter -- where the record was written, or \<open>None\<close> where the writer failed -- and then folds it;
  a record the fold refuses once it is durable is \<open>Disagreed\<close>, which ends the session.
\<close>

datatype refused =
    Waiting state
  | NoTurnInHand
  | WrongRole
  | BadResults result_refusal
  | BadCut cut_refusal
  | BadAnchor rewind_refusal

datatype uncommitted = Refused refused | Unavailable | Disagreed fault

type_synonym ('m, 'l) commit = "uncommitted + ('m, 'l) ctx"

record ('m, 'l) seam =
  emit :: "('m, 'l) transcript \<Rightarrow> 'l option"
  is_available :: bool
definition record_transcript ::
  "'m chat_api \<Rightarrow> ('m, 'l) reader \<Rightarrow> ('m, 'l) seam \<Rightarrow> ('m, 'l) ctx \<Rightarrow> ('m, 'l) transcript
    \<Rightarrow> ('m, 'l) commit" where
  "record_transcript api rd sm c p =
     (case emit sm p of
        None \<Rightarrow> Inl Unavailable
      | Some l \<Rightarrow> map_sum Disagreed id (step_transcript api rd c (Recorded l p)))"

definition import_note ::
  "'m chat_api \<Rightarrow> ('m, 'l) reader \<Rightarrow> ('m, 'l) seam \<Rightarrow> ('m, 'l) ctx \<Rightarrow> 'm \<Rightarrow> ('m, 'l) commit" where
  "import_note api rd sm c m =
     (if \<not> is_ready c then Inl (Refused (Waiting (ctx_state c)))
      else record_transcript api rd sm c (transcript.Import (next_id c) m))"

text \<open>The record a prompt becomes: it continues the live prompt it names, or opens a turn.\<close>

definition user_record :: "('m, 'l) ctx \<Rightarrow> bytes \<Rightarrow> nat option \<Rightarrow> voice \<Rightarrow> ('m, 'l) transcript" where
  "user_record c x continues v =
     (if continues \<noteq> None \<and> live_prompt c = continues then Steering x v
      else UserPrompt (next_id c) x v)"

definition append_user ::
  "'m chat_api \<Rightarrow> ('m, 'l) reader \<Rightarrow> ('m, 'l) seam \<Rightarrow> ('m, 'l) ctx \<Rightarrow> bytes \<Rightarrow> nat option \<Rightarrow> voice
    \<Rightarrow> ('m, 'l) commit" where
  "append_user api rd sm c x continues v =
     (if \<not> is_ready c then Inl (Refused (Waiting (ctx_state c)))
      else record_transcript api rd sm c (user_record c x continues v))"

definition append_steering ::
  "'m chat_api \<Rightarrow> ('m, 'l) reader \<Rightarrow> ('m, 'l) seam \<Rightarrow> ('m, 'l) ctx \<Rightarrow> bytes \<Rightarrow> voice
    \<Rightarrow> ('m, 'l) commit" where
  "append_steering api rd sm c x v =
     (if \<not> is_awaiting_assistant c then Inl (Refused (Waiting (ctx_state c)))
      else if unclosed_turn c = None then Inl (Refused NoTurnInHand)
      else record_transcript api rd sm c (Steering x v))"

definition append_assistant ::
  "'m chat_api \<Rightarrow> ('m, 'l) reader \<Rightarrow> ('m, 'l) seam \<Rightarrow> ('m, 'l) ctx \<Rightarrow> 'm \<Rightarrow> bytes list \<Rightarrow> bytes option
    \<Rightarrow> ('m, 'l) commit" where
  "append_assistant api rd sm c m pending stop =
     (if \<not> is_awaiting_assistant c then Inl (Refused (Waiting (ctx_state c)))
      else if \<not> is_assistant api m then Inl (Refused WrongRole)
      else record_transcript api rd sm c (AssistantMessage (next_id c) m pending stop))"

definition append_tool_results ::
  "'m chat_api \<Rightarrow> ('m, 'l) reader \<Rightarrow> ('m, 'l) seam \<Rightarrow> ('m, 'l) ctx \<Rightarrow> tool_result list
    \<Rightarrow> ('m, 'l) commit" where
  "append_tool_results api rd sm c results =
     (case pending_tool_results c of
        None \<Rightarrow> Inl (Refused (Waiting (ctx_state c)))
      | Some pending \<Rightarrow>
          (case validate_result_ids pending results of
             Inl why \<Rightarrow> Inl (Refused (BadResults why))
           | Inr _ \<Rightarrow> record_transcript api rd sm c (ToolResults results)))"

text \<open>Each record of a list committed in turn; the first failure ends it.\<close>

fun commit_all ::
  "'m chat_api \<Rightarrow> ('m, 'l) reader \<Rightarrow> ('m, 'l) seam \<Rightarrow> ('m, 'l) ctx \<Rightarrow> ('m, 'l) transcript list
    \<Rightarrow> ('m, 'l) commit" where
  "commit_all api rd sm c [] = Inr c"
| "commit_all api rd sm c (p # ps) =
     (case record_transcript api rd sm c p of
        Inl e \<Rightarrow> Inl e
      | Inr c' \<Rightarrow> commit_all api rd sm c' ps)"

definition quiesce ::
  "'m chat_api \<Rightarrow> ('m, 'l) reader \<Rightarrow> ('m, 'l) seam \<Rightarrow> ('m, 'l) ctx \<Rightarrow> quiesce_reason
    \<Rightarrow> ('m, 'l) commit" where
  "quiesce api rd sm c reason =
     commit_all api rd sm c (quiesce_records api (ctx_state c) reason (next_id c))"

definition session_evict ::
  "'m chat_api \<Rightarrow> ('m, 'l) reader \<Rightarrow> ('m, 'l) seam \<Rightarrow> ('m, 'l) ctx \<Rightarrow> span \<Rightarrow> bytes option
    \<Rightarrow> edit_authority \<Rightarrow> ('m, 'l) commit" where
  "session_evict api rd sm c s n by_who =
     (case resolve_cut c s of
        Inl why \<Rightarrow> Inl (Refused (BadCut why))
      | Inr _ \<Rightarrow> record_transcript api rd sm c (transcript.Evicted (Eviction s n by_who)))"

definition session_rewind ::
  "'m chat_api \<Rightarrow> ('m, 'l) reader \<Rightarrow> ('m, 'l) seam \<Rightarrow> ('m, 'l) ctx \<Rightarrow> nat \<Rightarrow> ('m, 'l) commit" where
  "session_rewind api rd sm c a =
     (case rewindable c a of
        Inl why \<Rightarrow> Inl (Refused (BadAnchor why))
      | Inr _ \<Rightarrow> record_transcript api rd sm c (Rewound a))"

definition session_clear ::
  "'m chat_api \<Rightarrow> ('m, 'l) reader \<Rightarrow> ('m, 'l) seam \<Rightarrow> ('m, 'l) ctx \<Rightarrow> ('m, 'l) commit" where
  "session_clear api rd sm c =
     (if \<not> is_available sm then Inl Unavailable
      else if \<not> is_ready c then Inl (Refused (Waiting (ctx_state c)))
      else record_transcript api rd sm c Cleared)"

text \<open>The link a child's log opens with: the parent's rows and evictions.\<close>

definition inherited_context :: "('m, 'l) ctx \<Rightarrow> ('m, 'l) transcript" where
  "inherited_context c = transcript.Inherited (linked c) (ctx_evictions c)"

definition render_messages :: "'m chat_api \<Rightarrow> ('m, 'l) ctx \<Rightarrow> state + 'm list" where
  "render_messages api c =
     (if is_awaiting_assistant c then Inr (rendered api c) else Inl (ctx_state c))"

end
