(* ===== verification/Record_Table_Facts.thy ===== *)
theory Record_Table_Facts
  imports Record_Fold
begin

text \<open>
  The laws of the structure: when its spans are laminar, what holds an item, and the invariant
  every operation of \<open>Table\<close> keeps -- the locations stamped as items depart are the ones a link
  derives again from the spans alone.
\<close>

section \<open>Guards\<close>

lemma first_refusal_ok: "first_refusal gs = Inr () \<longleftrightarrow> (\<forall>g\<in>set gs. g = None)"
  by (induction gs rule: first_refusal.induct) auto

lemma min_by_key_snoc:
  "min_by_key f (xs @ [y]) =
     (case min_by_key f xs of
        None \<Rightarrow> Some y
      | Some x \<Rightarrow> if f x \<le> f y then Some x else Some y)"
  by (induction xs) (auto split: option.splits)

section \<open>Laminar spans\<close>

definition covers_later :: "span \<Rightarrow> span \<Rightarrow> bool" where
  "covers_later s l \<longleftrightarrow> within s l \<or> apart s l"

fun laminar :: "span list \<Rightarrow> bool" where
  "laminar [] \<longleftrightarrow> True"
| "laminar (s # ss) \<longleftrightarrow> (\<forall>l\<in>set ss. covers_later s l) \<and> laminar ss"

lemma crossed_None_iff: "crossed ss = None \<longleftrightarrow> laminar ss"
  by (induction ss)
    (auto simp: covers_later_def find_None_iff split: option.splits dest: find_SomeD)

lemma laminar_snoc: "laminar (ss @ [s]) \<longleftrightarrow> laminar ss \<and> (\<forall>r\<in>set ss. covers_later r s)"
  by (induction ss) auto

lemma apart_shares_nothing: "apart a b \<Longrightarrow> within x a \<Longrightarrow> within x b \<Longrightarrow> False"
  using span_ordered [of x] unfolding apart_def within_def by linarith

lemma holder_within: "holder x ss = Some w \<Longrightarrow> w \<in> set ss \<and> within x w"
  unfolding holder_def by (drule min_by_key_in) simp

lemma holder_None_iff: "holder x ss = None \<longleftrightarrow> (\<forall>s\<in>set ss. \<not> within x s)"
  by (auto simp: holder_def filter_empty_conv)

lemma holder_Nil [simp]: "holder x [] = None"
  by (simp add: holder_def)

text \<open>A later eviction holds only what nothing held: the first to cover an item is the smallest.\<close>

lemma holder_snoc:
  assumes "\<forall>r\<in>set ss. covers_later r s"
  shows "holder x (ss @ [s]) =
    (case holder x ss of Some w \<Rightarrow> Some w | None \<Rightarrow> if within x s then Some s else None)"
proof (cases "within x s")
  case True
  have "width w \<le> width s" if "holder x ss = Some w" for w
  proof -
    from that have w: "w \<in> set ss" "within x w" using holder_within by blast+
    with assms True have "within w s"
      unfolding covers_later_def using apart_shares_nothing by blast
    then show ?thesis by (rule within_width)
  qed
  with True show ?thesis
    by (auto simp: holder_def min_by_key_snoc split: option.splits)
next
  case False
  then show ?thesis by (simp add: holder_def split: option.splits)
qed

lemma evicted_by_simps [simp]:
  "evicted_by None = Resident" "evicted_by (Some u) = location.Evicted u"
  "evicted_by h = Resident \<longleftrightarrow> h = None" "Resident = evicted_by h \<longleftrightarrow> h = None"
  "evicted_by h \<noteq> location.Withdrawn"
  by (auto simp: evicted_by_def split: option.splits)

lemma departed_simps [simp]:
  "departed None = location.Withdrawn" "departed (Some u) = location.Evicted u"
  "departed un \<noteq> Resident"
  by (simp_all add: departed_def split: option.splits)

section \<open>Turns by id\<close>

lemma find_by_id:
  assumes "distinct (map turn_id us)"
  shows "List.find (\<lambda>u. turn_id u = i) us = Some u \<longleftrightarrow> u \<in> set us \<and> turn_id u = i"
  using assms by (induction us) (auto simp: image_iff)

lemma find_id_None: "List.find (\<lambda>u. turn_id u = i) us = None \<longleftrightarrow> i \<notin> turn_id ` set us"
  by (auto simp: find_None_iff)

lemma withdrawn_at_iff:
  "distinct (map turn_id us) \<Longrightarrow> u \<in> set us \<Longrightarrow> withdrawn_at us (turn_id u) \<longleftrightarrow> is_withdrawn u"
  unfolding withdrawn_at_def by (subst iffD2 [OF find_by_id]) auto

lemma withdrawn_at_absent: "i \<notin> turn_id ` set us \<Longrightarrow> \<not> withdrawn_at us i"
  unfolding withdrawn_at_def using iffD2 [OF find_id_None] by fastforce

lemma withdrawn_at_map:
  assumes "\<And>u. u \<in> set us \<Longrightarrow> turn_id (f u) = turn_id u"
    and "\<And>u. u \<in> set us \<Longrightarrow> is_withdrawn (f u) \<longleftrightarrow> is_withdrawn u \<or> P (turn_id u)"
    and "i \<in> turn_id ` set us" and "distinct (map turn_id us)"
  shows "withdrawn_at (map f us) i \<longleftrightarrow> withdrawn_at us i \<or> P i"
proof -
  obtain u where u: "u \<in> set us" "i = turn_id u" using assms(3) by auto
  have same: "map turn_id (map f us) = map turn_id us" using assms(1) by simp
  have "distinct (map turn_id (map f us))" unfolding same by (rule assms(4))
  then have "withdrawn_at (map f us) (turn_id (f u)) \<longleftrightarrow> is_withdrawn (f u)"
    by (rule withdrawn_at_iff) (use u in simp)
  with u assms(1) [of u] assms(2) [of u] withdrawn_at_iff [OF assms(4) u(1)] show ?thesis by simp
qed

section \<open>Departing\<close>

lemma turn_location_simps [simp]:
  "turn_location (u\<lparr>turn_bytes := b\<rparr>) = turn_location u"
  "turn_location (u\<lparr>body := bd\<rparr>) = body_location bd"
  by (simp_all add: turn_location_def)

lemma depart_turn_id [simp]: "turn_id (depart_turn src leaving un u) = turn_id u"
  by (simp add: depart_turn_def)

lemma depart_turn_fields [simp]:
  "turn_role (depart_turn src leaving un u) = turn_role u"
  "kind (depart_turn src leaving un u) = kind u"
  "label (depart_turn src leaving un u) = label u"
  "turn_bytes (depart_turn src leaving un u) = turn_bytes u"
  by (simp_all add: depart_turn_def)

lemma depart_body_location:
  "body_location (depart_body src un b) =
     (if un = None \<or> body_location b = Resident then departed un else body_location b)"
  by (cases b) (auto simp: Let_def split: option.splits)

lemma depart_turn_location:
  "turn_location (depart_turn src leaving un u) =
     (if leaving (single (turn_id u)) \<and> (un = None \<or> turn_location u = Resident)
      then departed un else turn_location u)"
  by (simp add: depart_turn_def turn_location_def depart_body_location)

text \<open>Whether it departs or not, a turn keeps the address of its records.\<close>

lemma depart_turn_address [simp]:
  "turn_address src (body (depart_turn src leaving un u)) = turn_address src (body u)"
  by (cases "body u") (auto simp: depart_turn_def own_pointer_def Let_def split: option.splits)

lemma depart_simps [simp]:
  "turns (depart leaving un t) = map (depart_turn (table_source t) leaving un) (turns t)"
  "evictions (depart leaving un t) = map (depart_eviction leaving un) (evictions t)"
  "table_source (depart leaving un t) = table_source t"
  by (simp_all add: depart_def)

lemma depart_eviction_fst [simp]: "fst (depart_eviction leaving un x) = fst x"
  by (cases x) (simp add: depart_eviction_def)

lemma depart_spans [simp]:
  "eviction_spans (depart leaving un t) = eviction_spans t"
  "turn_ids (depart leaving un t) = turn_ids t"
  by (simp_all add: eviction_spans_def turn_ids_def comp_def)

lemma evict_simps [simp]:
  "turns (evict e t) =
     map (depart_turn (table_source t) (\<lambda>s. within s (evicted_span e)) (Some (evicted_span e))) (turns t)"
  "evictions (evict e t) =
     map (depart_eviction (\<lambda>s. within s (evicted_span e)) (Some (evicted_span e))) (evictions t)
     @ [(e, Resident)]"
  "table_source (evict e t) = table_source t"
  "eviction_spans (evict e t) = eviction_spans t @ [evicted_span e]"
  "turn_ids (evict e t) = turn_ids t"
  by (simp_all add: evict_def Let_def eviction_spans_def turn_ids_def comp_def)

lemma withdraw_simps [simp]:
  "turns (withdraw f t) = map (depart_turn (table_source t) (\<lambda>s. f \<le> span_from s) None) (turns t)"
  "evictions (withdraw f t) = map (depart_eviction (\<lambda>s. f \<le> span_from s) None) (evictions t)"
  "table_source (withdraw f t) = table_source t"
  "eviction_spans (withdraw f t) = eviction_spans t"
  "turn_ids (withdraw f t) = turn_ids t"
  by (simp_all add: withdraw_def)

section \<open>What a link derives\<close>

lemma install_evictions_fst [simp]: "map fst (install_evictions us es) = es"
  by (induction es) auto

lemma install_evictions_snoc:
  assumes "laminar (map evicted_span (es @ [e]))"
    and "\<not> withdrawn_at us (span_from (evicted_span e))"
  shows "install_evictions us (es @ [e]) =
    map (depart_eviction (\<lambda>s. within s (evicted_span e)) (Some (evicted_span e)))
      (install_evictions us es) @ [(e, Resident)]"
  using assms
proof (induction es)
  case Nil
  then show ?case by simp
next
  case (Cons x es)
  have "\<forall>r\<in>set (map evicted_span es). covers_later r (evicted_span e)"
    using Cons.prems(1) by (simp add: laminar_snoc)
  from holder_snoc [OF this, of "evicted_span x"] show ?case
    using Cons by (auto simp: depart_eviction_def split: option.splits)
qed

lemma install_evictions_withdrawn:
  assumes "\<And>e. e \<in> set es \<Longrightarrow>
      withdrawn_at vs (span_from (evicted_span e)) \<longleftrightarrow>
      withdrawn_at us (span_from (evicted_span e)) \<or> P (span_from (evicted_span e))"
  shows "install_evictions vs es =
    map (\<lambda>(e, w). (e, if P (span_from (evicted_span e)) then location.Withdrawn else w))
      (install_evictions us es)"
  using assms by (induction es) auto

lemma install_evictions_cong:
  assumes "\<And>e. e \<in> set es \<Longrightarrow>
      withdrawn_at vs (span_from (evicted_span e)) \<longleftrightarrow> withdrawn_at us (span_from (evicted_span e))"
  shows "install_evictions vs es = install_evictions us es"
  using install_evictions_withdrawn [of es vs us "\<lambda>_. False"] assms by (simp add: case_prod_eta)

lemma install_evictions_location:
  "(e, w) \<in> set (install_evictions us es) \<Longrightarrow>
     w = location.Withdrawn \<longleftrightarrow> withdrawn_at us (span_from (evicted_span e))"
  by (induction es) (auto split: if_splits)

section \<open>The invariant of the structure\<close>

definition located :: "span list \<Rightarrow> ('m, 'l) turn \<Rightarrow> bool" where
  "located ss u \<longleftrightarrow>
     is_withdrawn u \<or> turn_location u = evicted_by (holder (single (turn_id u)) ss)"

text \<open>A withdrawal takes an eviction whole, with every turn it covers.\<close>

definition withdrawn_whole :: "('m, 'l) turn list \<Rightarrow> span \<Rightarrow> bool" where
  "withdrawn_whole us s \<longleftrightarrow>
     (withdrawn_at us (span_from s) \<longrightarrow>
        (\<forall>i\<in>turn_id ` set us. span_contains s i \<longrightarrow> withdrawn_at us i)) \<and>
     (withdrawn_at us (span_to s) \<longrightarrow> withdrawn_at us (span_from s))"

lemma withdrawn_whole_cong:
  assumes "turn_id ` set us = turn_id ` set vs"
    and "\<And>i. i \<in> turn_id ` set vs \<Longrightarrow> withdrawn_at us i \<longleftrightarrow> withdrawn_at vs i"
    and "span_from s \<in> turn_id ` set vs" "span_to s \<in> turn_id ` set vs"
  shows "withdrawn_whole us s \<longleftrightarrow> withdrawn_whole vs s"
  using assms unfolding withdrawn_whole_def by auto

definition table_ok :: "('m, 'l) table \<Rightarrow> bool" where
  "table_ok t \<longleftrightarrow>
     sorted_wrt (<) (turn_ids t) \<and>
     (\<forall>i\<in>set (turn_ids t). i \<le> u64_max) \<and>
     (\<forall>s\<in>set (eviction_spans t). span_from s \<in> set (turn_ids t) \<and> span_to s \<in> set (turn_ids t)) \<and>
     laminar (eviction_spans t) \<and>
     (\<forall>u\<in>set (turns t). located (eviction_spans t) u) \<and>
     evictions t = install_evictions (turns t) (map fst (evictions t)) \<and>
     (\<forall>s\<in>set (eviction_spans t). withdrawn_whole (turns t) s)"

lemma table_okD:
  assumes "table_ok t"
  shows table_ids_sorted: "sorted_wrt (<) (turn_ids t)"
    and table_ids_fit: "i \<in> set (turn_ids t) \<Longrightarrow> i \<le> u64_max"
    and table_ends: "s \<in> set (eviction_spans t) \<Longrightarrow>
           span_from s \<in> set (turn_ids t) \<and> span_to s \<in> set (turn_ids t)"
    and table_laminar: "laminar (eviction_spans t)"
    and table_located: "u \<in> set (turns t) \<Longrightarrow> located (eviction_spans t) u"
    and table_evictions: "evictions t = install_evictions (turns t) (map fst (evictions t))"
    and table_whole: "s \<in> set (eviction_spans t) \<Longrightarrow> withdrawn_whole (turns t) s"
  using assms unfolding table_ok_def by blast+

lemma table_ids_distinct: "table_ok t \<Longrightarrow> distinct (map turn_id (turns t))"
  using table_ids_sorted unfolding turn_ids_def strict_sorted_iff by blast

lemma table_find: "table_ok t \<Longrightarrow> find_turn t i = Some u \<longleftrightarrow> u \<in> set (turns t) \<and> turn_id u = i"
  unfolding find_turn_def by (rule find_by_id) (rule table_ids_distinct)

lemma table_new_ok [simp]: "table_ok (table_new src)"
  by (simp add: table_ok_def table_new_def turn_ids_def eviction_spans_def)

lemma straddling_None_iff:
  "straddling t i = None \<longleftrightarrow>
     (\<forall>s\<in>set (eviction_spans t). \<not> (span_from s < i \<and> i \<le> span_to s))"
  by (auto simp: straddling_def eviction_spans_def filter_empty_conv)

text \<open>A cut that straddles nothing covers each eviction whole or lies apart from it.\<close>

lemma cut_covers:
  assumes "table_ok t" and "straddled_by_cut t s = None" and "span_to s \<le> u64_max"
    and "r \<in> set (eviction_spans t)"
  shows "covers_later r s"
proof -
  have a: "\<not> (span_from r < span_from s \<and> span_from s \<le> span_to r)"
    and b: "\<not> (span_from r < sat_add (span_to s) 1 \<and> sat_add (span_to s) 1 \<le> span_to r)"
    using assms(2,4) by (auto simp: straddled_by_cut_def straddling_None_iff split: option.splits)
  have "span_to r \<le> u64_max" using assms(1,4) table_ends table_ids_fit by blast
  with a b assms(3) span_ordered [of r] span_ordered [of s] show ?thesis
    unfolding covers_later_def within_def apart_def sat_add_def by linarith
qed

lemma evict_ok:
  assumes ok: "table_ok t" and "straddled_by_cut t s = None" and [simp]: "evicted_span e = s"
    and ends: "span_from s \<in> set (turn_ids t)" "span_to s \<in> set (turn_ids t)"
    and rest: "\<not> withdrawn_at (turns t) (span_from s)" "\<not> withdrawn_at (turns t) (span_to s)"
  shows "table_ok (evict e t)"
proof -
  let ?d = "depart_turn (table_source t) (\<lambda>x. within x s) (Some s)"
  have fit: "span_to s \<le> u64_max" using table_ids_fit [OF ok ends(2)] .
  have covers: "\<forall>r\<in>set (eviction_spans t). covers_later r s"
    using cut_covers [OF ok assms(2) fit] by blast
  then have lam: "laminar (eviction_spans t @ [s])"
    using table_laminar [OF ok] by (simp add: laminar_snoc)
  have w: "is_withdrawn (?d u) \<longleftrightarrow> is_withdrawn u" for u
    by (simp add: is_withdrawn_def depart_turn_location)
  have same: "withdrawn_at (map ?d (turns t)) i \<longleftrightarrow> withdrawn_at (turns t) i"
    if "i \<in> set (turn_ids t)" for i
  proof -
    have "withdrawn_at (map ?d (turns t)) i \<longleftrightarrow> withdrawn_at (turns t) i \<or> False"
      by (rule withdrawn_at_map)
        (use w that table_ids_distinct [OF ok] in \<open>auto simp: turn_ids_def\<close>)
    then show ?thesis by simp
  qed
  have loc: "located (eviction_spans t @ [s]) (?d u)" if "u \<in> set (turns t)" for u
    using table_located [OF ok that] holder_snoc [OF covers, of "single (turn_id u)"]
    by (auto simp: located_def depart_turn_location is_withdrawn_def split: option.splits)
  have evs: "evictions (evict e t) =
      install_evictions (turns (evict e t)) (map fst (evictions (evict e t)))"
  proof -
    have "install_evictions (map ?d (turns t)) (map fst (evictions t) @ [e]) =
        install_evictions (turns t) (map fst (evictions t) @ [e])"
      by (rule install_evictions_cong)
        (use table_ends [OF ok] same ends in \<open>auto simp: eviction_spans_def\<close>)
    also have "\<dots> = map (depart_eviction (\<lambda>x. within x s) (Some s))
        (install_evictions (turns t) (map fst (evictions t))) @ [(e, Resident)]"
      using install_evictions_snoc [of "map fst (evictions t)" e "turns t"] lam rest
      by (simp add: eviction_spans_def comp_def)
    finally show ?thesis using table_evictions [OF ok] by (simp add: comp_def)
  qed
  have "withdrawn_whole (map ?d (turns t)) r" if "r \<in> set (eviction_spans t)" for r
    using table_whole [OF ok that] table_ends [OF ok that] same
    by (subst withdrawn_whole_cong [where vs = "turns t"]) (auto simp: turn_ids_def image_image)
  moreover have "withdrawn_whole (map ?d (turns t)) s"
    using same ends rest by (simp add: withdrawn_whole_def)
  ultimately show ?thesis
    unfolding table_ok_def using table_okD(1-3) [OF ok] ends lam loc evs by simp
qed

text \<open>Withdrawing from an id that no eviction straddles takes whole evictions.\<close>

lemma withdraw_ok:
  assumes ok: "table_ok t" and uncut: "straddling t a = None"
  shows "table_ok (withdraw a t)"
proof -
  let ?d = "depart_turn (table_source t) (\<lambda>s. a \<le> span_from s) None"
  have same: "withdrawn_at (map ?d (turns t)) i \<longleftrightarrow> withdrawn_at (turns t) i \<or> a \<le> i"
    if "i \<in> set (turn_ids t)" for i
    by (rule withdrawn_at_map)
      (use that table_ids_distinct [OF ok] in
        \<open>auto simp: turn_ids_def is_withdrawn_def depart_turn_location\<close>)
  have loc: "located (eviction_spans t) (?d u)" if "u \<in> set (turns t)" for u
    using table_located [OF ok that]
    by (auto simp: located_def depart_turn_location is_withdrawn_def)
  have evs: "evictions (withdraw a t) =
      install_evictions (turns (withdraw a t)) (map fst (evictions (withdraw a t)))"
  proof -
    have "install_evictions (map ?d (turns t)) (map fst (evictions t)) =
        map (\<lambda>(e, w). (e, if a \<le> span_from (evicted_span e) then location.Withdrawn else w))
          (install_evictions (turns t) (map fst (evictions t)))"
      by (rule install_evictions_withdrawn)
        (use table_ends [OF ok] same in \<open>auto simp: eviction_spans_def\<close>)
    also have "\<dots> = map (depart_eviction (\<lambda>s. a \<le> span_from s) None) (evictions t)"
      unfolding table_evictions [OF ok, symmetric] by (auto simp: depart_eviction_def)
    finally show ?thesis by (simp add: comp_def)
  qed
  have whole: "withdrawn_whole (map ?d (turns t)) s" if s: "s \<in> set (eviction_spans t)" for s
  proof -
    have "a \<le> span_from s \<or> span_to s < a"
      using uncut s unfolding straddling_None_iff by (metis not_le)
    then show ?thesis
      using table_whole [OF ok s] table_ends [OF ok s] same span_ordered [of s]
      by (auto simp: withdrawn_whole_def turn_ids_def span_contains_def)
  qed
  show ?thesis
    unfolding table_ok_def using table_okD(1-4) [OF ok] loc evs whole by simp
qed

text \<open>A turn opened past every recorded id, or a row that takes a record, disturbs nothing.\<close>

lemma withdrawn_at_snoc:
  "i \<in> turn_id ` set us \<Longrightarrow> withdrawn_at (us @ [u]) i \<longleftrightarrow> withdrawn_at us i"
  by (induction us) (auto simp: withdrawn_at_def)

lemma withdrawn_at_cong:
  "map turn_id us = map turn_id vs \<Longrightarrow> map turn_location us = map turn_location vs \<Longrightarrow>
     withdrawn_at us i \<longleftrightarrow> withdrawn_at vs i"
  by (induction us arbitrary: vs) (auto simp: withdrawn_at_def is_withdrawn_def Cons_eq_map_conv)

lemma table_ok_turns:
  assumes ok: "table_ok t" and ids: "turn_ids t' = turn_ids t"
    and evs: "evictions t' = evictions t"
    and loc: "map turn_location (turns t') = map turn_location (turns t)"
  shows "table_ok t'"
proof -
  have len: "length (turns t') = length (turns t)"
    and id: "\<And>k. k < length (turns t) \<Longrightarrow> turn_id (turns t' ! k) = turn_id (turns t ! k)"
    and lo: "\<And>k. k < length (turns t) \<Longrightarrow> turn_location (turns t' ! k) = turn_location (turns t ! k)"
    using ids loc by (metis length_map turn_ids_def nth_map)+
  have spans: "eviction_spans t' = eviction_spans t" using evs by (simp add: eviction_spans_def)
  have located': "\<forall>u\<in>set (turns t'). located (eviction_spans t) u"
    using table_located [OF ok] len id lo
    unfolding located_def is_withdrawn_def by (metis in_set_conv_nth)
  have same: "withdrawn_at (turns t') i \<longleftrightarrow> withdrawn_at (turns t) i" for i
    using ids loc unfolding turn_ids_def by (rule withdrawn_at_cong)
  have "evictions t' = install_evictions (turns t') (map fst (evictions t'))"
    using table_evictions [OF ok] install_evictions_cong [of "map fst (evictions t)" "turns t'"] same
    by (metis evs)
  moreover have "withdrawn_whole (turns t') s" if s: "s \<in> set (eviction_spans t)" for s
  proof -
    have "turn_id ` set (turns t') = turn_id ` set (turns t)"
      using ids by (metis turn_ids_def list.set_map)
    then show ?thesis
      using table_whole [OF ok s] table_ends [OF ok s] same
      by (subst withdrawn_whole_cong [where vs = "turns t"]) (auto simp: turn_ids_def)
  qed
  ultimately show ?thesis
    unfolding table_ok_def spans ids using table_okD(1-4) [OF ok] located' by simp
qed

lemma open_turn_ok:
  assumes ok: "table_ok t" and fresh: "\<forall>j\<in>set (turn_ids t). j < i" and "i \<le> u64_max"
    and u: "turn_id u = i" "is_resident u"
  shows "table_ok (t\<lparr>turns := turns t @ [u]\<rparr>)"
proof -
  let ?t = "t\<lparr>turns := turns t @ [u]\<rparr>"
  have ids: "turn_ids ?t = turn_ids t @ [i]" and spans: "eviction_spans ?t = eviction_spans t"
    using u by (simp_all add: turn_ids_def eviction_spans_def)
  have same: "withdrawn_at (turns ?t) j \<longleftrightarrow> withdrawn_at (turns t) j" if "j \<in> set (turn_ids t)" for j
    using that by (simp add: turn_ids_def withdrawn_at_snoc)
  have "holder (single i) (eviction_spans t) = None"
    unfolding holder_None_iff using table_ends [OF ok] fresh
    by (auto simp: span_contains_def dest: leD)
  then have "located (eviction_spans t) u"
    using u by (simp add: located_def is_resident_def)
  moreover have "evictions ?t = install_evictions (turns ?t) (map fst (evictions ?t))"
  proof -
    have "install_evictions (turns ?t) (map fst (evictions t)) =
        install_evictions (turns t) (map fst (evictions t))"
      by (rule install_evictions_cong)
        (use table_ends [OF ok] same in \<open>auto simp: eviction_spans_def\<close>)
    then show ?thesis using table_evictions [OF ok] by simp
  qed
  moreover have "withdrawn_whole (turns ?t) s" if s: "s \<in> set (eviction_spans t)" for s
    using table_whole [OF ok s] table_ends [OF ok s] same fresh u(1)
    by (auto simp: withdrawn_whole_def turn_ids_def span_contains_def)
  ultimately show ?thesis
    unfolding table_ok_def spans ids
    using table_okD(1-5) [OF ok] fresh assms(3) by (auto simp: sorted_wrt_append)
qed

section \<open>Installing a link\<close>

definition resident_rows :: "'l linked list \<Rightarrow> nat" where
  "resident_rows ls = length (filter (\<lambda>l. row_location (row l) = Resident) ls)"

lemma install_turns_total:
  "resident_rows ls \<le> length seeds \<Longrightarrow> \<exists>us. install_turns api ls seeds = Some us"
proof (induction api ls seeds rule: install_turns.induct)
  case (2 api rw p ls seeds)
  then show ?case
    by (cases "row_location rw"; cases seeds) (auto simp: resident_rows_def)
qed simp

lemma read_seeds_length: "read_seeds rd ls = Inr seeds \<Longrightarrow> length seeds = resident_rows ls"
proof (induction rd ls arbitrary: seeds rule: read_seeds.induct)
  case (2 rd rw p ls)
  then show ?case
    by (cases "read_seeds rd ls")
      (auto simp: resident_rows_def split: if_splits option.splits)
qed (simp add: resident_rows_def)

lemma install_turns_rows:
  "install_turns api ls seeds = Some us \<Longrightarrow>
     map turn_id us = map (row_id \<circ> row) ls \<and>
     map turn_location us = map (row_location \<circ> row) ls \<and>
     map (turn_address src \<circ> body) us = map address ls"
proof (induction api ls seeds arbitrary: us rule: install_turns.induct)
  case (2 api rw p ls seeds)
  then show ?case
    by (cases "row_location rw"; cases seeds) (auto simp: turn_location_def)
qed simp

lemma install_ok:
  assumes "install api ls es seeds t = Some t'"
    and "sorted_wrt (<) (map (row_id \<circ> row) ls)" and "\<forall>l\<in>set ls. row_id (row l) \<le> u64_max"
    and "\<forall>e\<in>set es. span_from (evicted_span e) \<in> set (map (row_id \<circ> row) ls) \<and>
           span_to (evicted_span e) \<in> set (map (row_id \<circ> row) ls)"
    and "laminar (map evicted_span es)"
    and "\<forall>l\<in>set ls. \<not> contradicted (map evicted_span es) (row l)"
    and "\<forall>e\<in>set es. withdrawn_whole (turns t') (evicted_span e)"
  shows "table_ok t'"
proof -
  obtain us where us: "install_turns api ls seeds = Some us"
    and t': "turns t' = us" "evictions t' = install_evictions us es"
    using assms(1) by (auto simp: install_def)
  have rows: "map turn_id us = map (row_id \<circ> row) ls"
    "map turn_location us = map (row_location \<circ> row) ls"
    using install_turns_rows [OF us] by blast+
  have spans: "eviction_spans t' = map evicted_span es"
    by (simp add: eviction_spans_def t' flip: map_map)
  have located: "located (map evicted_span es) u" if "u \<in> set us" for u
  proof -
    from that obtain k where "k < length us" "u = us ! k" by (metis in_set_conv_nth)
    moreover have "length us = length ls" using rows(1) by (metis length_map)
    ultimately have "ls ! k \<in> set ls" "turn_id u = row_id (row (ls ! k))"
      "turn_location u = row_location (row (ls ! k))"
      using rows by (metis nth_mem, metis comp_apply nth_map, metis comp_apply nth_map)
    with assms(6) show ?thesis
      by (auto simp: located_def contradicted_def is_withdrawn_def)
  qed
  show ?thesis
    unfolding table_ok_def spans
    using assms(2-5,7) located rows
    by (auto simp: turn_ids_def t')
qed

end
