(* ===== verification/Record_Invariant.thy ===== *)
theory Record_Invariant
  imports Record_Session Record_Table_Facts
begin

text \<open>
  The invariant of the model fold: the structure's own, the automaton resting where the newest
  turn left it, and every other resident turn owing no tool result.  Every record the fold
  accepts keeps it, and so does the link a fork opens with, so it holds of every context a
  session can reach (\<open>live\<close>).
\<close>

section \<open>Landing a record\<close>

definition opened_turn ::
  "'m chat_api \<Rightarrow> ('m, 'l) recorded \<Rightarrow> nat \<Rightarrow> role \<Rightarrow> turn_kind \<Rightarrow> bytes \<Rightarrow> ('m, 'l) turn" where
  "opened_turn api r i ro k l =
     \<lparr>turn_id = i, turn_role = ro, kind = k, label = l,
      turn_bytes = sat_add 0 (message_bytes api (chat_messages api (val r))),
      body = Here [r] None\<rparr>"

text \<open>The turn a record opens, where it bears an id.\<close>

fun opened :: "'m chat_api \<Rightarrow> ('m, 'l) recorded \<Rightarrow> ('m, 'l) turn option" where
  "opened api (Recorded l (UserPrompt i x v)) =
     Some (opened_turn api (Recorded l (UserPrompt i x v)) i User Own (opening_line x))"
| "opened api (Recorded l (AssistantMessage i m ps st)) =
     Some (opened_turn api (Recorded l (AssistantMessage i m ps st)) i Assistant Own (message_label api m))"
| "opened api (Recorded l (transcript.Import i m)) =
     Some (opened_turn api (Recorded l (transcript.Import i m)) i (message_role api m)
       turn_kind.Import (message_label api m))"
| "opened api _ = None"

lemma opened_fields:
  "opened api r = Some u \<Longrightarrow> turn_records u = [r] \<and> is_resident u \<and> body u = Here [r] None"
  by (cases "(api, r)" rule: opened.cases)
    (auto simp: opened_turn_def turn_records_def is_resident_def turn_location_def)

lemma land_opens:
  "opened api r = Some u \<Longrightarrow>
     land api r c = Inr (c\<lparr>ctx_table := (ctx_table c)\<lparr>turns := ctx_turns c @ [u]\<rparr>\<rparr>)"
  by (cases "(api, r)" rule: opened.cases)
    (auto simp: land_def open_turn_def absorb_def Let_def opened_turn_def)

definition extended_turn :: "'m chat_api \<Rightarrow> ('m, 'l) recorded \<Rightarrow> ('m, 'l) turn \<Rightarrow> ('m, 'l) turn" where
  "extended_turn api r u =
     (case body u of
        Here rs o1 \<Rightarrow>
          u\<lparr>turn_bytes := sat_add (turn_bytes u) (message_bytes api (chat_messages api (val r))),
            body := Here (rs @ [r]) o1\<rparr>
      | _ \<Rightarrow> u)"

lemma is_resident_body: "is_resident u \<longleftrightarrow> (\<exists>rs o1. body u = Here rs o1)"
  by (cases "body u") (simp_all add: is_resident_def turn_location_def)

lemma extended_turn_fields:
  assumes "is_resident u"
  shows "turn_id (extended_turn api r u) = turn_id u"
    and "turn_location (extended_turn api r u) = turn_location u"
    and "turn_records (extended_turn api r u) = turn_records u @ [r]"
    and "is_resident (extended_turn api r u)"
  using assms by (auto simp: is_resident_body extended_turn_def turn_records_def turn_location_def)

fun extending :: "('m, 'l) transcript \<Rightarrow> bool" where
  "extending (Steering _ _) = True"
| "extending (ToolResults _) = True"
| "extending _ = False"

lemma last_turn_Some: "last_turn c = Some u \<longleftrightarrow> (\<exists>us. ctx_turns c = us @ [u])"
  by (cases "ctx_turns c" rule: rev_cases) (auto simp: last_turn_def)

lemma last_turn_None: "last_turn c = None \<longleftrightarrow> ctx_turns c = []"
  by (simp add: last_turn_def)

lemma land_extends:
  assumes "extending (val r)" and "ctx_turns c = us @ [u]" and "is_resident u"
  shows "land api r c =
    Inr (c\<lparr>ctx_table := (ctx_table c)\<lparr>turns := us @ [extended_turn api r u]\<rparr>\<rparr>)"
  using assms
  by (cases "val r")
    (auto simp: land_def absorb_def is_resident_body extended_turn_def nth_append list_update_append)

lemma extends_extending: "extends c p = (if extending p then last_turn c else None)"
  by (cases p) auto

lemma land_nothing:
  "opened api r = None \<Longrightarrow> \<not> (extending (val r) \<and> ctx_turns c \<noteq> []) \<Longrightarrow> land api r c = Inr c"
  by (cases "(api, r)" rule: opened.cases) (auto simp: land_def)

section \<open>The invariant\<close>

definition settled :: "('m, 'l) turn \<Rightarrow> bool" where
  "settled u \<longleftrightarrow> admits_new_turn (resting (turn_records u))"

definition ctx_ok :: "('m, 'l) ctx \<Rightarrow> bool" where
  "ctx_ok c \<longleftrightarrow>
     table_ok (ctx_table c) \<and>
     (ctx_len c = 0 \<longrightarrow>
        ctx_turns c = [] \<and> evictions (ctx_table c) = [] \<and> ctx_state c = ReadyForUser) \<and>
     (\<forall>u\<in>set (resident c). settled u \<or>
        last_turn c = Some u \<and> resting (turn_records u) = ctx_state c) \<and>
     (\<not> is_ready c \<longrightarrow> (\<exists>u. last_turn c = Some u \<and> is_resident u))"

lemma ctx_okD:
  assumes "ctx_ok c"
  shows ctx_table_ok: "table_ok (ctx_table c)"
    and ctx_empty: "ctx_len c = 0 \<Longrightarrow>
          ctx_turns c = [] \<and> evictions (ctx_table c) = [] \<and> ctx_state c = ReadyForUser"
    and ctx_settled: "u \<in> set (resident c) \<Longrightarrow>
          settled u \<or> last_turn c = Some u \<and> resting (turn_records u) = ctx_state c"
    and ctx_in_hand: "\<not> is_ready c \<Longrightarrow> \<exists>u. last_turn c = Some u \<and> is_resident u"
  using assms unfolding ctx_ok_def by blast+

lemma ready_settled: "ctx_ok c \<Longrightarrow> is_ready c \<Longrightarrow> u \<in> set (resident c) \<Longrightarrow> settled u"
  using ctx_settled unfolding settled_def is_ready_def by metis

lemma context_new_ok [simp]: "ctx_ok (context_new src)"
  by (simp add: ctx_ok_def context_new_def resident_def is_ready_def, simp add: table_new_def)

text \<open>The ids a record bears, which its 64 bits bound.\<close>

fun record_ids :: "('m, 'l) transcript \<Rightarrow> nat set" where
  "record_ids (UserPrompt i _ _) = {i}"
| "record_ids (AssistantMessage i _ _ _) = {i}"
| "record_ids (transcript.Import i _) = {i}"
| "record_ids (transcript.Inherited ls es) = row_id ` row ` set ls"
| "record_ids _ = {}"

definition fits :: "('m, 'l) transcript \<Rightarrow> bool" where
  "fits p \<longleftrightarrow> (\<forall>i\<in>record_ids p. i \<le> u64_max)"

fun is_link :: "('m, 'l) transcript \<Rightarrow> bool" where
  "is_link (transcript.Inherited _ _) = True"
| "is_link _ = False"

lemma step_accepted:
  "step_transcript api rd c r = Inr c' \<longleftrightarrow>
     judge api c (val r) = Inr () \<and>
     (\<exists>c1. effect api rd c (val r) = Inr c1 \<and> land api r (c1\<lparr>ctx_len := ctx_len c + 1\<rparr>) = Inr c')"
  by (auto simp: step_transcript_def split: sum.splits)

lemma judge_ok:
  "judge api c p = Inr () \<longleftrightarrow>
     admissible api (ctx_state c) p \<and> stale c p = None \<and>
     (\<forall>g\<in>set (judge_link c p). g = None) \<and> (\<forall>g\<in>set (judge_edit c p). g = None) \<and>
     (\<forall>u. extends c p = Some u \<longrightarrow> is_resident u)"
  by (auto simp: judge_def first_refusal_ok split: option.splits)

lemma admissible_ready:
  "opened api (Recorded l p) = Some u \<or> p = Steering x v \<or> p = Rewound a \<or> p = Cleared \<Longrightarrow>
     admissible api s p \<Longrightarrow> admits_new_turn s"
  by (cases p; cases s) (auto simp: awaits_assistant_def)

lemma effect_plain:
  "opened api (Recorded l p) \<noteq> None \<or> extending p \<Longrightarrow>
     effect api rd c p = Inr (c\<lparr>ctx_state := advance (ctx_state c) p\<rparr>)"
  by (cases p) (auto simp: effect_def)

lemma sorted_last_greatest:
  "sorted_wrt (<) (xs @ [x :: nat]) \<Longrightarrow> x < i \<Longrightarrow> \<forall>j\<in>set (xs @ [x]). j < i"
  by (auto simp: sorted_wrt_append)

text \<open>A record that bears an id bears one past every row's.\<close>

lemma fresh_opened:
  assumes "ctx_ok c" and "opened api (Recorded l p) = Some u" and "stale c p = None"
  shows "\<forall>j\<in>set (turn_ids (ctx_table c)). j < turn_id u"
proof -
  have "\<not> Some (turn_id u) \<le> reach c"
    using assms(2,3) by (cases p) (auto simp: opened_turn_def split: if_splits)
  then show ?thesis
    using table_ids_sorted [OF ctx_table_ok [OF assms(1)]]
    by (cases "ctx_turns c" rule: rev_cases)
      (auto simp: reach_def last_turn_def turn_ids_def sorted_wrt_append)
qed

section \<open>Every accepted record keeps it\<close>

lemma opened_id_fits: "opened api (Recorded l p) = Some u \<Longrightarrow> fits p \<Longrightarrow> turn_id u \<le> u64_max"
  by (cases p) (auto simp: fits_def opened_turn_def)

lemma opened_resting:
  "opened api (Recorded l p) = Some u \<Longrightarrow> admits_new_turn s \<Longrightarrow>
     settled u \<and> admits_new_turn (advance s p) \<or> resting (turn_records u) = advance s p"
  using opened_fields [of api "Recorded l p" u]
  by (cases p) (auto simp: settled_def resting_def)

lemma open_keeps:
  assumes ok: "ctx_ok c" and u: "opened api (Recorded l p) = Some u"
    and j: "judge api c p = Inr ()" and fit: "fits p"
  shows "ctx_ok (c\<lparr>ctx_state := advance (ctx_state c) p, ctx_len := ctx_len c + 1,
            ctx_table := (ctx_table c)\<lparr>turns := ctx_turns c @ [u]\<rparr>\<rparr>)" (is "ctx_ok ?c")
proof -
  have rec: "turn_records u = [Recorded l p]" "is_resident u" using opened_fields [OF u] by auto
  have adm: "admissible api (ctx_state c) p" and fresh: "stale c p = None"
    using j by (auto simp: judge_ok)
  have ready: "admits_new_turn (ctx_state c)" by (rule admissible_ready [OF disjI1 [OF u] adm])
  have table: "table_ok ((ctx_table c)\<lparr>turns := ctx_turns c @ [u]\<rparr>)"
    by (rule open_turn_ok [OF ctx_table_ok [OF ok] fresh_opened [OF ok u fresh]])
      (use opened_id_fits [OF u fit] rec in auto)
  have "settled v \<or> last_turn ?c = Some v \<and> resting (turn_records v) = ctx_state ?c"
    if "v \<in> set (resident ?c)" for v
  proof (cases "v \<in> set (resident c)")
    case True
    then show ?thesis using ready_settled [OF ok] ready by (simp add: is_ready_def)
  next
    case False
    with that have "v = u" by (auto simp: resident_def split: if_splits)
    then show ?thesis using opened_resting [OF u ready] by (auto simp: last_turn_def)
  qed
  with table rec show ?thesis by (simp add: ctx_ok_def last_turn_def)
qed

lemma extend_keeps:
  assumes ok: "ctx_ok c" and p: "extending p" and j: "judge api c p = Inr ()"
    and us: "ctx_turns c = us @ [u]"
  shows "ctx_ok (c\<lparr>ctx_state := advance (ctx_state c) p, ctx_len := ctx_len c + 1,
            ctx_table := (ctx_table c)\<lparr>turns := us @ [extended_turn api (Recorded l p) u]\<rparr>\<rparr>)"
    (is "ctx_ok ?c")
proof -
  have res: "is_resident u"
    using j p us by (auto simp: judge_ok extends_extending last_turn_def)
  note fields = extended_turn_fields [OF res, of api "Recorded l p"]
  have table: "table_ok ((ctx_table c)\<lparr>turns := us @ [extended_turn api (Recorded l p) u]\<rparr>)"
    by (rule table_ok_turns [OF ctx_table_ok [OF ok]]) (simp_all add: turn_ids_def us fields)
  have "settled v" if "v \<in> set us" "is_resident v" for v
  proof -
    have "turn_id v \<noteq> turn_id u"
      using table_ids_distinct [OF ctx_table_ok [OF ok]] that by (auto simp: us image_iff)
    then show ?thesis
      using ctx_settled [OF ok, of v] that us by (auto simp: resident_def last_turn_def)
  qed
  moreover have "settled (extended_turn api (Recorded l p) u)"
    using p unfolding settled_def fields(3) by (cases p) simp_all
  moreover have "admits_new_turn (advance (ctx_state c) p)" using p by (cases p) simp_all
  ultimately show ?thesis
    using table fields by (auto simp: ctx_ok_def resident_def is_ready_def)
qed

lemma evict_residents:
  assumes "u \<in> set (turns (evict e t))" and "is_resident u"
  shows "u \<in> set (turns t) \<and> \<not> span_contains (evicted_span e) (turn_id u)"
proof -
  obtain x where "x \<in> set (turns t)"
      "u = depart_turn (table_source t) (\<lambda>s. within s (evicted_span e)) (Some (evicted_span e)) x"
    using assms(1) by auto
  with assms(2) show ?thesis
    by (cases "span_contains (evicted_span e) (turn_id x)")
      (auto simp: is_resident_def depart_turn_location depart_turn_def depart_body_location split: if_splits)
qed

lemma resolve_cut_ok:
  "resolve_cut c s = Inr () \<longleftrightarrow>
     guard_end c (span_from s) = None \<and> guard_end c (span_to s) = None \<and>
     (\<forall>i. unclosed_turn c = Some i \<longrightarrow> \<not> span_contains s i) \<and>
     straddled_by_cut (ctx_table c) s = None"
  by (auto simp: resolve_cut_def first_refusal_ok split: option.splits)

lemma guard_end_ok:
  "table_ok (ctx_table c) \<Longrightarrow>
     guard_end c i = None \<longleftrightarrow>
     i \<in> set (turn_ids (ctx_table c)) \<and> \<not> withdrawn_at (ctx_turns c) i"
  by (auto simp: guard_end_def find_turn_def withdrawn_at_def turn_ids_def find_None_iff
      dest!: find_SomeD split: option.splits)

lemma evict_keeps:
  assumes ok: "ctx_ok c" and cut: "resolve_cut c (evicted_span e) = Inr ()"
  shows "ctx_ok (c\<lparr>ctx_table := evict e (ctx_table c), newest_edit := n,
            ctx_len := ctx_len c + 1\<rparr>)" (is "ctx_ok ?c")
proof -
  have ends: "span_from (evicted_span e) \<in> set (turn_ids (ctx_table c))"
      "\<not> withdrawn_at (ctx_turns c) (span_from (evicted_span e))"
      "span_to (evicted_span e) \<in> set (turn_ids (ctx_table c))"
      "\<not> withdrawn_at (ctx_turns c) (span_to (evicted_span e))"
    using cut guard_end_ok [OF ctx_table_ok [OF ok]] by (auto simp: resolve_cut_ok)
  have table: "table_ok (evict e (ctx_table c))"
    by (rule evict_ok [OF ctx_table_ok [OF ok], where s = "evicted_span e"])
      (use cut ends in \<open>auto simp: resolve_cut_ok\<close>)
  have last: "last_turn ?c = Some u \<and> is_resident u"
    if "last_turn c = Some u" "is_resident u" "ctx_state c \<noteq> ReadyForUser" for u
  proof -
    have "\<not> span_contains (evicted_span e) (turn_id u)"
      using cut that by (auto simp: resolve_cut_ok unclosed_turn_def)
    then show ?thesis using that by (auto simp: last_turn_Some depart_turn_def)
  qed
  have "settled u \<or> last_turn ?c = Some u \<and> resting (turn_records u) = ctx_state ?c"
    if "u \<in> set (resident ?c)" for u
  proof -
    have u: "u \<in> set (resident c)" "is_resident u"
      using that evict_residents [of u e "ctx_table c"] by (auto simp: resident_def)
    show ?thesis
    proof (cases "settled u")
      case False
      then have "last_turn c = Some u" "resting (turn_records u) = ctx_state c"
        "ctx_state c \<noteq> ReadyForUser"
        using ctx_settled [OF ok u(1)] by (auto simp: settled_def)
      then show ?thesis using last u(2) by simp
    qed simp
  qed
  moreover have "\<exists>u. last_turn ?c = Some u \<and> is_resident u" if "\<not> is_ready ?c"
    using that last ctx_in_hand [OF ok] by (fastforce simp: is_ready_def)
  ultimately show ?thesis using table by (simp add: ctx_ok_def)
qed

lemma withdrawn_from_fields [simp]:
  "ctx_table (withdrawn_from a c) = withdraw a (ctx_table c)"
  "ctx_len (withdrawn_from a c) = ctx_len c"
  "ctx_system (withdrawn_from a c) = ctx_system c"
  "newest_edit (withdrawn_from a c) = Some (ctx_len c)"
  by (simp_all add: withdrawn_from_def Let_def)

lemma withdraw_residents:
  assumes "u \<in> set (turns (withdraw a t))" and "is_resident u"
  shows "u \<in> set (turns t) \<and> turn_id u < a"
proof -
  obtain x where "x \<in> set (turns t)"
      "u = depart_turn (table_source t) (\<lambda>s. a \<le> span_from s) None x"
    using assms(1) by auto
  with assms(2) show ?thesis
    by (cases "a \<le> turn_id x")
      (auto simp: is_resident_def depart_turn_location depart_turn_def depart_body_location)
qed

lemma withdraw_keeps:
  assumes ok: "ctx_ok c" and ready: "is_ready c" and uncut: "straddling (ctx_table c) a = None"
  shows "ctx_ok ((withdrawn_from a c)\<lparr>ctx_len := ctx_len c + 1\<rparr>)" (is "ctx_ok ?c")
proof -
  have settled: "settled u" if "u \<in> set (resident ?c)" for u
    using that withdraw_residents [of u a "ctx_table c"] ready_settled [OF ok ready]
    by (auto simp: resident_def)
  have "resident ?c = resident (c\<lparr>ctx_table := withdraw a (ctx_table c), newest_edit := Some (ctx_len c)\<rparr>)"
    by (simp add: resident_def)
  then have "ctx_state ?c = resting (last_records ?c)"
    by (simp add: withdrawn_from_def last_records_def resident_def Let_def)
  then have "is_ready ?c"
    using settled [of "last (resident ?c)"]
    by (cases "resident ?c = []") (auto simp: last_records_def is_ready_def settled_def)
  with settled withdraw_ok [OF ctx_table_ok [OF ok] uncut] show ?thesis
    by (simp add: ctx_ok_def)
qed

section \<open>The admissible prefix\<close>

lemma prefix_end_longest:
  assumes "f \<le> length pre" and "admits_new_turn (resting (take f pre))"
    and "\<forall>m. f < m \<and> m \<le> length pre \<longrightarrow> \<not> admits_new_turn (resting (take m pre))"
    and "n = prefix_end (resting pre) (length pre) f rs"
  shows "n \<le> length (pre @ rs) \<and> admits_new_turn (resting (take n (pre @ rs))) \<and>
    (\<forall>m. n < m \<and> m \<le> length (pre @ rs) \<longrightarrow> \<not> admits_new_turn (resting (take m (pre @ rs))))"
  using assms
proof (induction rs arbitrary: pre f)
  case Nil
  then show ?case by simp
next
  case (Cons r rs)
  let ?pre = "pre @ [r]"
  let ?f = "if admits_new_turn (resting ?pre) then length ?pre else f"
  have "?f \<le> length ?pre" "admits_new_turn (resting (take ?f ?pre))"
    using Cons.prems(1,2) by auto
  moreover have "\<forall>m. ?f < m \<and> m \<le> length ?pre \<longrightarrow> \<not> admits_new_turn (resting (take m ?pre))"
    using Cons.prems(1,3) by (auto simp: le_Suc_eq)
  moreover have "n = prefix_end (resting ?pre) (length ?pre) ?f rs"
    using Cons.prems(4) by (simp add: Let_def)
  ultimately show ?case using Cons.IH [of ?f ?pre] by simp
qed

lemma admissible_prefix_longest:
  "admissible_prefix rs \<le> length rs"
  "admits_new_turn (resting (take (admissible_prefix rs) rs))"
  "admissible_prefix rs < m \<Longrightarrow> m \<le> length rs \<Longrightarrow> \<not> admits_new_turn (resting (take m rs))"
proof -
  have "admissible_prefix rs \<le> length ([] @ rs) \<and>
      admits_new_turn (resting (take (admissible_prefix rs) ([] @ rs))) \<and>
      (\<forall>m. admissible_prefix rs < m \<and> m \<le> length ([] @ rs) \<longrightarrow>
         \<not> admits_new_turn (resting (take m ([] @ rs))))"
    by (rule prefix_end_longest [where f = 0]) (auto simp: admissible_prefix_def)
  then show "admissible_prefix rs \<le> length rs"
    "admits_new_turn (resting (take (admissible_prefix rs) rs))"
    "admissible_prefix rs < m \<Longrightarrow> m \<le> length rs \<Longrightarrow> \<not> admits_new_turn (resting (take m rs))"
    by simp_all
qed

section \<open>Links\<close>

lemma seeds_settled:
  "read_seeds rd ls = Inr seeds \<Longrightarrow> rs \<in> set seeds \<Longrightarrow> admits_new_turn (resting rs)"
proof (induction rd ls arbitrary: seeds rule: read_seeds.induct)
  case (2 rd rw p ls)
  then show ?case
    by (cases "read_seeds rd ls")
      (auto simp: seed_at_def Let_def admissible_prefix_longest split: if_splits option.splits)
qed simp

lemma installed_records:
  "install_turns api ls seeds = Some us \<Longrightarrow> u \<in> set us \<Longrightarrow> is_resident u \<Longrightarrow>
     turn_records u \<in> set seeds"
proof (induction ls arbitrary: seeds us)
  case (Cons l ls)
  obtain rw p where "l = Linked rw p" by (cases l)
  with Cons.prems Cons.IH show ?case
    by (cases "row_location rw"; cases seeds)
      (fastforce simp: turn_records_def is_resident_def turn_location_def)+
qed simp

lemma judge_link_ok:
  "(\<forall>g\<in>set (judge_link c (transcript.Inherited ls es)). g = None) \<longleftrightarrow>
     ctx_len c = 0 \<and> out_of_order (map (row_id \<circ> row) ls) = None \<and>
     (\<forall>e\<in>set es. span_from (evicted_span e) \<in> set (map (row_id \<circ> row) ls) \<and>
        span_to (evicted_span e) \<in> set (map (row_id \<circ> row) ls)) \<and>
     laminar (map evicted_span es) \<and>
     (\<forall>l\<in>set ls. \<not> contradicted (map evicted_span es) (row l))"
  by (auto simp: Let_def find_None_iff crossed_None_iff)

lemma out_of_order_None_iff: "out_of_order xs = None \<longleftrightarrow> sorted_wrt (<) xs"
  by (induction xs rule: out_of_order.induct) (auto simp: not_le intro: less_trans)

lemma read_seeds_no_panic: "read_seeds rd ls \<noteq> Inl Panic"
  by (induction rd ls rule: read_seeds.induct) (auto split: option.splits simp: map_sum_def split: sum.splits)

lemma link_effect:
  "effect api rd c (transcript.Inherited ls es) = Inr c1 \<longleftrightarrow>
     (\<exists>seeds t. read_seeds rd ls = Inr seeds \<and> install api ls es seeds (ctx_table c) = Some t \<and>
        c1 = c\<lparr>ctx_table := t\<rparr>)"
  by (auto simp: effect_def split: sum.splits option.splits)

lemma link_keeps:
  assumes start: "ctx_state c = ReadyForUser"
    and j: "judge api c (transcript.Inherited ls es) = Inr ()"
    and eff: "effect api rd c (transcript.Inherited ls es) = Inr c1"
    and fit: "fits (transcript.Inherited ls es :: ('m, 'l) transcript)"
    and whole: "\<forall>e\<in>set es. withdrawn_whole (ctx_turns c1) (evicted_span e)"
  shows "ctx_ok (c1\<lparr>ctx_len := ctx_len c + 1\<rparr> :: ('m, 'l) ctx)"
proof -
  obtain seeds t where seeds: "read_seeds rd ls = Inr seeds"
    and t: "install api ls es seeds (ctx_table c) = Some t" and c1: "c1 = c\<lparr>ctx_table := t\<rparr>"
    using eff by (auto simp: link_effect)
  obtain us where us: "install_turns api ls seeds = Some us" and turns: "turns t = us"
    using t by (auto simp: install_def)
  have link: "out_of_order (map (row_id \<circ> row) ls) = None"
    "\<forall>e\<in>set es. span_from (evicted_span e) \<in> set (map (row_id \<circ> row) ls) \<and>
        span_to (evicted_span e) \<in> set (map (row_id \<circ> row) ls)"
    "laminar (map evicted_span es)" "\<forall>l\<in>set ls. \<not> contradicted (map evicted_span es) (row l)"
    using j unfolding judge_ok judge_link_ok by blast+
  have "table_ok t"
    by (rule install_ok [OF t link(1) [unfolded out_of_order_None_iff] _ link(2-4)])
      (use fit whole in \<open>auto simp: fits_def c1\<close>)
  moreover have "settled u" if "u \<in> set us" "is_resident u" for u
    using seeds_settled [OF seeds installed_records [OF us that]] by (simp add: settled_def)
  ultimately show ?thesis
    using start by (auto simp: ctx_ok_def c1 turns resident_def is_ready_def)
qed

text \<open>A record other than a link, accepted, leaves a context that is still well formed.\<close>

lemma step_keeps:
  assumes ok: "ctx_ok c" and fit: "fits p" and "\<not> is_link p"
    and step: "step_transcript api rd c (Recorded l p) = Inr c'"
  shows "ctx_ok c'"
proof -
  obtain c1 where j: "judge api c p = Inr ()" and eff: "effect api rd c p = Inr c1"
    and land: "land api (Recorded l p) (c1\<lparr>ctx_len := ctx_len c + 1\<rparr>) = Inr c'"
    using step by (auto simp: step_accepted)
  have ready: "is_ready c" if "p = Rewound a \<or> p = Cleared" for a
    using j that by (auto simp: judge_ok is_ready_def)
  consider (opens) u where "opened api (Recorded l p) = Some u" | (extends) "extending p"
    | (system) x where "p = System x" | (evicted) e where "p = transcript.Evicted e"
    | (rewound) a where "p = Rewound a" | (cleared) "p = Cleared"
    using assms(3) by (cases p) auto
  then show ?thesis
  proof cases
    case (opens u)
    then have "c1 = c\<lparr>ctx_state := advance (ctx_state c) p\<rparr>"
      using eff effect_plain [of api l p rd c] by simp
    then show ?thesis using land land_opens [OF opens] open_keeps [OF ok opens j fit] by auto
  next
    case extends
    then have c1: "c1 = c\<lparr>ctx_state := advance (ctx_state c) p\<rparr>"
      using eff effect_plain [of api l p rd c] by simp
    show ?thesis
    proof (cases "last_turn c")
      case None
      have "is_ready c" using None ctx_in_hand [OF ok] by fastforce
      then have False
        using j None extends
        by (cases p; cases "ctx_state c") (auto simp: judge_ok is_ready_def last_turn_None)
      then show ?thesis ..
    next
      case (Some u)
      then obtain us where us: "ctx_turns c = us @ [u]" by (auto simp: last_turn_Some)
      moreover have "is_resident u" using j Some extends by (auto simp: judge_ok extends_extending)
      ultimately show ?thesis
        using land land_extends [of "Recorded l p" _ us u] extends extend_keeps [OF ok extends j us]
        by (auto simp: c1)
    qed
  next
    case (system x)
    then show ?thesis
      using eff land ok by (auto simp: effect_def land_def ctx_ok_def resident_def is_ready_def last_turn_def)
  next
    case (evicted e)
    then have "resolve_cut c (evicted_span e) = Inr ()"
      using j by (auto simp: judge_ok split: sum.splits)
    from evict_keeps [OF ok this, of "Some (ctx_len c)"] show ?thesis
      using eff land evicted by (auto simp: effect_def land_def)
  next
    case (rewound a)
    then show ?thesis
      using eff land j withdraw_keeps [OF ok ready, of a] by (auto simp: effect_def land_def judge_ok)
  next
    case cleared
    moreover have "straddling (ctx_table c) 0 = None" by (simp add: straddling_None_iff)
    ultimately show ?thesis
      using eff land withdraw_keeps [OF ok ready, of 0] by (auto simp: effect_def land_def)
  qed
qed

section \<open>The contexts a session reaches\<close>

text \<open>
  A session's log starts empty or with the link to a live parent, and goes on with records that
  are no link; what its fold holds between two of them is a \<open>live\<close> context.
\<close>

inductive live :: "'m chat_api \<Rightarrow> ('m, 'l) reader \<Rightarrow> ('m, 'l) ctx \<Rightarrow> bool"
  for api :: "'m chat_api" and rd :: "('m, 'l) reader" where
  fresh: "live api rd (context_new src)"
| forked: "live api rd parent \<Longrightarrow>
     step_transcript api rd (context_new src) (Recorded l (inherited_context parent)) = Inr c \<Longrightarrow>
     live api rd c"
| stepped: "live api rd c \<Longrightarrow> fits p \<Longrightarrow> \<not> is_link p \<Longrightarrow>
     step_transcript api rd c (Recorded l p) = Inr c' \<Longrightarrow> live api rd c'"

lemma linked_rows [simp]:
  "map (row_id \<circ> row) (linked c) = turn_ids (ctx_table c)"
  "map (row_location \<circ> row) (linked c) = map turn_location (ctx_turns c)"
  "map address (linked c) = map (turn_address (table_source (ctx_table c)) \<circ> body) (ctx_turns c)"
  by (simp_all add: linked_def linked_of_def turn_ids_def)

lemma linked_contradicted:
  assumes "table_ok (ctx_table c)" and "x \<in> set (linked c)"
  shows "\<not> contradicted (eviction_spans (ctx_table c)) (row x)"
proof -
  obtain u where "u \<in> set (ctx_turns c)" "x = linked_of (table_source (ctx_table c)) u"
    using assms(2) by (auto simp: linked_def)
  with table_located [OF assms(1)] show ?thesis
    by (fastforce simp: linked_of_def contradicted_def located_def is_withdrawn_def)
qed

lemma evictions_spans [simp]: "map evicted_span (ctx_evictions c) = eviction_spans (ctx_table c)"
  by (simp add: ctx_evictions_def eviction_spans_def)

text \<open>The link of a well-formed parent is one every fresh log accepts.\<close>

lemma parent_link_accepted:
  assumes ok: "table_ok (ctx_table p)" and fresh: "ctx_len c = 0" "ctx_turns c = []"
  shows "judge api c (inherited_context p) = Inr ()"
proof -
  have "\<forall>e\<in>set (ctx_evictions p). evicted_span e \<in> set (eviction_spans (ctx_table p))"
    using evictions_spans [of p] by (metis image_eqI list.set_map)
  then have "\<forall>e\<in>set (ctx_evictions p).
      span_from (evicted_span e) \<in> set (turn_ids (ctx_table p)) \<and>
      span_to (evicted_span e) \<in> set (turn_ids (ctx_table p))"
    using table_ends [OF ok] by blast
  then show ?thesis
    unfolding inherited_context_def judge_ok judge_link_ok
    using fresh table_ids_sorted [OF ok] table_laminar [OF ok] linked_contradicted [OF ok]
    by (simp add: out_of_order_None_iff)
qed

lemma parent_link_fits:
  assumes "table_ok (ctx_table p)"
  shows "fits (inherited_context p)"
proof -
  have "set (map (row_id \<circ> row) (linked p)) = set (turn_ids (ctx_table p))" by simp
  then have "row_id ` row ` set (linked p) = set (turn_ids (ctx_table p))"
    by (simp only: set_map image_comp)
  then show ?thesis using table_ids_fit [OF assms] by (simp add: fits_def inherited_context_def)
qed

lemma fork_keeps:
  assumes ok: "table_ok (ctx_table p)"
    and step: "step_transcript api rd (context_new src) (Recorded l (inherited_context p)) = Inr c"
  shows "ctx_ok c \<and> turn_ids (ctx_table c) = turn_ids (ctx_table p) \<and>
    map turn_location (ctx_turns c) = map turn_location (ctx_turns p) \<and>
    evictions (ctx_table c) = evictions (ctx_table p) \<and>
    map address (linked c) = map address (linked p)"
proof -
  let ?n = "context_new src :: ('a, 'b) ctx"
  obtain c1 where eff: "effect api rd ?n (inherited_context p) = Inr c1"
    and c: "land api (Recorded l (inherited_context p)) (c1\<lparr>ctx_len := ctx_len ?n + 1\<rparr>) = Inr c"
    using step by (auto simp: step_accepted)
  then have c: "c = c1\<lparr>ctx_len := ctx_len ?n + 1\<rparr>"
    by (simp add: land_nothing inherited_context_def)
  obtain seeds t where t: "install api (linked p) (ctx_evictions p) seeds (table_new src) = Some t"
    and c1: "c1 = ?n\<lparr>ctx_table := t\<rparr>"
    using eff by (auto simp: inherited_context_def link_effect context_new_def)
  obtain us where us: "install_turns api (linked p) seeds = Some us"
    and turns: "turns t = us" "evictions t = install_evictions us (ctx_evictions p)"
      "table_source t = src"
    using t by (auto simp: install_def table_new_def)
  note rows = install_turns_rows [OF us, where src = src]
  have same: "withdrawn_at us i \<longleftrightarrow> withdrawn_at (ctx_turns p) i" for i
    by (rule withdrawn_at_cong) (use rows in \<open>simp_all add: turn_ids_def\<close>)
  have evs: "evictions t = evictions (ctx_table p)"
    using table_evictions [OF ok] install_evictions_cong [of "ctx_evictions p" us "ctx_turns p"] same
    by (metis turns(2) ctx_evictions_def)
  have "ctx_ok c"
    unfolding c
  proof (rule link_keeps [OF _ _ eff [unfolded inherited_context_def]
        parent_link_fits [OF ok, unfolded inherited_context_def]])
    show "ctx_state ?n = ReadyForUser" by (simp add: context_new_def)
    show "judge api ?n (transcript.Inherited (linked p) (ctx_evictions p)) = Inr ()"
      using parent_link_accepted [OF ok, of ?n] by (simp add: inherited_context_def context_new_def table_new_def)
    have "evicted_span e \<in> set (eviction_spans (ctx_table p))" if "e \<in> set (ctx_evictions p)" for e
      using that evictions_spans [of p] by (metis image_eqI list.set_map)
    moreover have "turn_id ` set us = turn_id ` set (ctx_turns p)"
      using rows by (metis turn_ids_def linked_rows(1) list.set_map)
    ultimately show "\<forall>e\<in>set (ctx_evictions p). withdrawn_whole (ctx_turns c1) (evicted_span e)"
      using table_whole [OF ok] same by (auto simp: c1 turns withdrawn_whole_def)
  qed
  then show ?thesis
    using rows evs by (simp add: c c1 turns turn_ids_def del: map_map)
qed

lemma live_ok: "live api rd c \<Longrightarrow> ctx_ok c"
proof (induction rule: live.induct)
  case (forked parent src l c)
  show ?case using fork_keeps [OF ctx_table_ok [OF forked.IH] forked.hyps(2)] by blast
next
  case (stepped c p l c')
  show ?case by (rule step_keeps [OF stepped.IH stepped.hyps(2-4)])
qed simp

end
