(* ===== verification/Record_Frontier.thy ===== *)
theory Record_Frontier
  imports Record_Invariant
begin

text \<open>
  The context as the frontier of the structure: its items lie apart and in id order, every turn
  not withdrawn is in exactly one of them, and what a cut, a rewind and a forced eviction's plan
  do to it.
\<close>

section \<open>Membership\<close>

lemma items_set:
  "i \<in> set (items t) \<longleftrightarrow>
     (\<exists>u\<in>set (turns t). i = TurnItem u) \<or> (\<exists>e w. (e, w) \<in> set (evictions t) \<and> i = EvictionItem e w)"
  by (auto simp: items_def)

lemma frontier_set:
  "i \<in> set (frontier t) \<longleftrightarrow>
     (\<exists>u\<in>set (turns t). i = TurnItem u \<and> is_resident u) \<or>
     (\<exists>e. (e, Resident) \<in> set (evictions t) \<and> i = EvictionItem e Resident)"
  by (auto simp: frontier_def items_set is_resident_def)

section \<open>Disjointness\<close>

definition before :: "('m, 'l) item \<Rightarrow> ('m, 'l) item \<Rightarrow> bool" where
  "before i j \<longleftrightarrow> span_to (item_span i) < span_from (item_span j)"

lemma apart_irrefl [simp]: "\<not> apart s s"
  using span_ordered [of s] unfolding apart_def by linarith

lemma apart_contains: "apart a b \<Longrightarrow> span_contains a i \<Longrightarrow> span_contains b i \<Longrightarrow> False"
  by (auto simp: apart_def span_contains_def)

lemma apart_sym: "apart a b \<longleftrightarrow> apart b a"
  by (auto simp: apart_def)

lemma resident_evictions_apart:
  "laminar (map evicted_span es) \<Longrightarrow>
     sorted_wrt (\<lambda>x y. apart (evicted_span (fst x)) (evicted_span (fst y)))
       (filter (\<lambda>x. snd x = Resident) (install_evictions us es))"
proof (induction es)
  case (Cons e es)
  have "apart (evicted_span e) (evicted_span (fst y))"
    if "holder (evicted_span e) (map evicted_span es) = None" "y \<in> set (install_evictions us es)" for y
  proof -
    have "fst y \<in> set es" using that(2) by (metis image_eqI install_evictions_fst list.set_map)
    with Cons.prems that(1) show ?thesis by (auto simp: covers_later_def holder_None_iff)
  qed
  with Cons show ?case by auto
qed simp

lemma resident_eviction_covers:
  "laminar (map evicted_span es) \<Longrightarrow> (e, Resident) \<in> set (install_evictions us es) \<Longrightarrow>
     r \<in> set (map evicted_span es) \<Longrightarrow> within r (evicted_span e) \<or> apart r (evicted_span e)"
proof (induction es)
  case (Cons x es)
  have tail: "e \<in> set es" if "(e, Resident) \<in> set (install_evictions us es)"
    using that by (metis fst_conv image_eqI install_evictions_fst list.set_map)
  from Cons.prems(2) consider "e = x" "holder (evicted_span e) (map evicted_span es) = None"
    | "(e, Resident) \<in> set (install_evictions us es)"
    by (auto split: if_splits)
  then show ?case
  proof cases
    case 1
    then show ?thesis using Cons.prems(1,3) by (auto simp: covers_later_def holder_None_iff apart_sym)
  next
    case 2
    then show ?thesis using Cons tail by (auto simp: covers_later_def)
  qed
qed simp

lemma sorted_wrt_apart_distinct:
  "sorted_wrt (\<lambda>x y. apart (f x) (f y)) xs \<Longrightarrow> distinct xs"
  by (induction xs) auto

lemma sorted_wrt_pairwise:
  "sorted_wrt R xs \<Longrightarrow> x \<in> set xs \<Longrightarrow> y \<in> set xs \<Longrightarrow> x \<noteq> y \<Longrightarrow> R x y \<or> R y x"
  by (induction xs) auto

lemma table_lists:
  assumes "table_ok t"
  shows "laminar (map evicted_span (map fst (evictions t)))"
    and "evictions t = install_evictions (turns t) (map fst (evictions t))"
  using table_laminar [OF assms] table_evictions [OF assms] by (simp_all add: eviction_spans_def)

lemma resident_unheld:
  "table_ok t \<Longrightarrow> u \<in> set (turns t) \<Longrightarrow> is_resident u \<Longrightarrow> s \<in> set (eviction_spans t) \<Longrightarrow>
     \<not> span_contains s (turn_id u)"
  using table_located [of t u]
  by (auto simp: located_def is_resident_def is_withdrawn_def holder_None_iff)

text \<open>A frontier item covers each eviction whole, or lies apart from it.\<close>

lemma frontier_covers:
  assumes ok: "table_ok t" and i: "i \<in> set (frontier t)" and r: "r \<in> set (eviction_spans t)"
  shows "within r (item_span i) \<or> apart r (item_span i)"
proof -
  consider (turn) u where "u \<in> set (turns t)" "i = TurnItem u" "is_resident u"
    | (eviction) e where "(e, Resident) \<in> set (evictions t)" "i = EvictionItem e Resident"
    using i by (auto simp: frontier_set)
  then show ?thesis
  proof cases
    case (turn u)
    then have "\<not> span_contains r (turn_id u)"
      by (intro resident_unheld [OF ok _ _ r])
    then show ?thesis using turn by (auto simp: apart_def span_contains_def)
  next
    case (eviction e)
    then show ?thesis
      using resident_eviction_covers [OF table_lists(1) [OF ok]] table_lists(2) [OF ok] r
      by (metis eviction_spans_def item_span.simps(2) map_map)
  qed
qed

lemma resident_items_apart:
  assumes ok: "table_ok t" and i: "i \<in> set (frontier t)" and j: "j \<in> set (frontier t)" and "i \<noteq> j"
  shows "apart (item_span i) (item_span j)"
proof -
  have turns: "apart (single (turn_id u)) (single (turn_id v))"
    if "u \<in> set (turns t)" "v \<in> set (turns t)" "u \<noteq> v" for u v
    using table_ids_distinct [OF ok] that by (force simp: apart_def distinct_map inj_on_def)
  have mixed: "apart (single (turn_id u)) (evicted_span e)"
    if "u \<in> set (turns t)" "is_resident u" "(e, Resident) \<in> set (evictions t)" for u e
  proof -
    have "evicted_span e \<in> set (eviction_spans t)"
      using that(3) by (force simp: eviction_spans_def)
    from resident_unheld [OF ok that(1,2) this] show ?thesis
      by (auto simp: apart_def span_contains_def)
  qed
  have evs: "apart (evicted_span e) (evicted_span f)"
    if "(e, Resident) \<in> set (evictions t)" "(f, Resident) \<in> set (evictions t)" "e \<noteq> f" for e f
  proof -
    let ?es = "filter (\<lambda>x. snd x = Resident) (evictions t)"
    have "sorted_wrt (\<lambda>x y. apart (evicted_span (fst x)) (evicted_span (fst y))) ?es"
      using resident_evictions_apart [OF table_lists(1) [OF ok]] table_lists(2) [OF ok] by metis
    from sorted_wrt_pairwise [OF this, of "(e, Resident)" "(f, Resident)"] that
    have "apart (evicted_span e) (evicted_span f) \<or> apart (evicted_span f) (evicted_span e)" by simp
    then show ?thesis using apart_sym by blast
  qed
  have mixed': "apart (evicted_span e) (single (turn_id u))"
    if "u \<in> set (turns t)" "is_resident u" "(e, Resident) \<in> set (evictions t)" for u e
    by (subst apart_sym) (rule mixed [OF that])
  from i [unfolded frontier_set] j [unfolded frontier_set] show ?thesis
    by (elim disjE bexE exE conjE) (use assms(4) turns mixed mixed' evs in simp_all)
qed

lemma frontier_distinct:
  fixes t :: "('m, 'l) table"
  assumes ok: "table_ok t"
  shows "distinct (frontier t)"
proof -
  let ?ev = "\<lambda>(e, w). EvictionItem e w :: ('m, 'l) item"
  let ?evs = "filter (\<lambda>x. snd x = Resident) (evictions t)"
  have "distinct ?evs"
    using resident_evictions_apart [OF table_lists(1) [OF ok]] table_lists(2) [OF ok]
    by (metis sorted_wrt_apart_distinct)
  then have "distinct (map ?ev (rev ?evs))"
    by (auto simp: distinct_map inj_on_def)
  moreover have "filter (\<lambda>i. item_location i = Resident)
      (map ?ev (rev (evictions t)))
      = map ?ev (rev ?evs)"
    by (simp add: filter_map comp_def case_prod_unfold rev_filter)
  ultimately have "distinct (filter (\<lambda>i. item_location i = Resident)
      (map ?ev (rev (evictions t))))"
    by (simp only:)
  moreover have "distinct (map TurnItem (turns t))"
    using table_ids_distinct [OF ok] by (auto simp: distinct_map inj_on_def)
  ultimately have "distinct (filter (\<lambda>i. item_location i = Resident)
      (map ?ev (rev (evictions t)) @ map TurnItem (turns t)))"
    by auto
  then show ?thesis unfolding frontier_def items_def by (simp add: filter_sort distinct_sort)
qed

lemma sorted_apart_before:
  "sorted (map item_key is) \<Longrightarrow> distinct is \<Longrightarrow>
     (\<And>i j. i \<in> set is \<Longrightarrow> j \<in> set is \<Longrightarrow> i \<noteq> j \<Longrightarrow> apart (item_span i) (item_span j)) \<Longrightarrow>
     sorted_wrt before is"
proof (induction "is")
  case (Cons i "is")
  have "before i j" if "j \<in> set is" for j
  proof -
    have "item_key i \<le> item_key j" using Cons.prems(1) that by simp
    then have "span_from (item_span i) \<le> span_from (item_span j)"
      by (auto simp: item_key_def less_eq_prod_def)
    moreover have "apart (item_span i) (item_span j)" using Cons.prems(2,3) that by auto
    ultimately show ?thesis
      using span_ordered [of "item_span j"] unfolding before_def apart_def by linarith
  qed
  with Cons show ?case by simp
qed simp

text \<open>The context is a run of items that lie apart, in id order.\<close>

lemma frontier_sorted:
  assumes ok: "table_ok t"
  shows "sorted_wrt before (frontier t)"
proof (rule sorted_apart_before)
  show "sorted (map item_key (frontier t))"
    unfolding frontier_def items_def by (simp add: sorted_filter)
qed (use frontier_distinct [OF ok] resident_items_apart [OF ok] in auto)

lemma before_trans: "before i j \<Longrightarrow> before j k \<Longrightarrow> before i k"
  using span_ordered [of "item_span j"] unfolding before_def by linarith

lemma before_irrefl: "\<not> before i i"
  using span_ordered [of "item_span i"] unfolding before_def by linarith

text \<open>Two runs in order with the same items are the same run.\<close>

lemma before_unique:
  "sorted_wrt before is \<Longrightarrow> sorted_wrt before js \<Longrightarrow> set is = set js \<Longrightarrow> is = js"
proof (induction "is" arbitrary: js)
  case (Cons i "is")
  then obtain j js' where js: "js = j # js'" by (cases js) auto
  have "i = j"
    using Cons.prems js before_trans before_irrefl by (metis insert_iff list.simps(15) sorted_wrt.simps(2))
  moreover have "i \<notin> set is" "j \<notin> set js'"
    using Cons.prems js before_irrefl by auto
  ultimately have "set is = set js'" using Cons.prems(3) js by auto
  with Cons js \<open>i = j\<close> show ?case by simp
qed simp

section \<open>Coverage\<close>

lemma covering_eviction:
  "\<exists>e\<in>set es. span_contains (evicted_span e) i \<Longrightarrow>
     \<exists>(e, w)\<in>set (install_evictions us es). span_contains (evicted_span e) i \<and>
       (w = Resident \<or> w = location.Withdrawn)"
proof (induction es)
  case (Cons e es)
  show ?case
  proof (cases "\<exists>e\<in>set es. span_contains (evicted_span e) i")
    case True
    with Cons.IH show ?thesis by auto
  next
    case False
    with Cons.prems have "span_contains (evicted_span e) i" by simp
    moreover from this False have "holder (evicted_span e) (map evicted_span es) = None"
      by (auto simp: holder_None_iff within_def span_contains_def)
    ultimately show ?thesis by auto
  qed
qed simp

lemma turn_covered:
  assumes ok: "table_ok t" and u: "u \<in> set (turns t)" "\<not> is_withdrawn u"
  shows "\<exists>i\<in>set (frontier t). span_contains (item_span i) (turn_id u)"
proof (cases "is_resident u")
  case True
  with u show ?thesis by (intro bexI [of _ "TurnItem u"]) (auto simp: frontier_set)
next
  case False
  then have "\<not> (\<forall>s\<in>set (eviction_spans t). \<not> span_contains s (turn_id u))"
    using table_located [OF ok u(1)] u(2) by (auto simp: located_def is_resident_def holder_None_iff)
  then have "\<exists>e\<in>set (map fst (evictions t)). span_contains (evicted_span e) (turn_id u)"
    by (auto simp: eviction_spans_def)
  from covering_eviction [OF this, of "turns t"] obtain e w where
    e: "(e, w) \<in> set (evictions t)" "span_contains (evicted_span e) (turn_id u)"
      "w = Resident \<or> w = location.Withdrawn"
    using table_evictions [OF ok] by auto
  have "w \<noteq> location.Withdrawn"
  proof
    assume "w = location.Withdrawn"
    then have "withdrawn_at (turns t) (span_from (evicted_span e))"
      using install_evictions_location e(1) table_evictions [OF ok] by metis
    moreover have "evicted_span e \<in> set (eviction_spans t)"
      using e(1) by (force simp: eviction_spans_def)
    ultimately have "withdrawn_at (turns t) (turn_id u)"
      using table_whole [OF ok] e(2) u(1) unfolding withdrawn_whole_def by blast
    then show False using withdrawn_at_iff [OF table_ids_distinct [OF ok] u(1)] u(2) by simp
  qed
  with e show ?thesis by (intro bexI [of _ "EvictionItem e Resident"]) (auto simp: frontier_set)
qed

end
