(* ===== verification/Record_Edits.thy ===== *)
theory Record_Edits
  imports Record_Frontier
begin

text \<open>
  What the edits do to the context: an eviction leaves one item in place of the run it takes, a
  rewind keeps the items before its anchor, and the span a forced eviction plans is one the judge
  accepts, after which what stays fits the budget.
\<close>

section \<open>The frontier after an edit\<close>

lemma turn_in_map:
  "TurnItem u \<in> set (frontier t) \<longleftrightarrow> u \<in> set (turns t) \<and> is_resident u"
  "EvictionItem e w \<in> set (frontier t) \<longleftrightarrow> w = Resident \<and> (e, Resident) \<in> set (evictions t)"
  by (auto simp: frontier_set)

lemma depart_turn_resident:
  "is_resident (depart_turn src leaving un u) \<longleftrightarrow> is_resident u \<and> \<not> leaving (single (turn_id u))"
  by (auto simp: is_resident_def depart_turn_location split: option.splits)

lemma depart_turn_stays: "\<not> leaving (single (turn_id u)) \<Longrightarrow> depart_turn src leaving un u = u"
  by (simp add: depart_turn_def)

lemma depart_resident_iff:
  "v \<in> depart_turn src leaving un ` us \<and> is_resident v \<longleftrightarrow>
     v \<in> us \<and> is_resident v \<and> \<not> leaving (single (turn_id v))"
proof
  assume "v \<in> depart_turn src leaving un ` us \<and> is_resident v"
  then obtain u where u: "u \<in> us" "v = depart_turn src leaving un u" "is_resident v" by blast
  then have "\<not> leaving (single (turn_id u))" by (simp add: depart_turn_resident)
  with u show "v \<in> us \<and> is_resident v \<and> \<not> leaving (single (turn_id v))"
    by (simp add: depart_turn_stays)
next
  assume "v \<in> us \<and> is_resident v \<and> \<not> leaving (single (turn_id v))"
  then show "v \<in> depart_turn src leaving un ` us \<and> is_resident v"
    by (metis depart_turn_stays image_eqI)
qed

lemma depart_eviction_resident_iff:
  "(e, Resident) \<in> depart_eviction leaving un ` es \<longleftrightarrow>
     (e, Resident) \<in> es \<and> \<not> leaving (evicted_span e)"
  by (cases un) (force simp: depart_eviction_def split: if_splits)+

lemma frontier_withdraw_set:
  fixes t :: "('m, 'l) table"
  shows
  "set (frontier (withdraw a t)) = {i \<in> set (frontier t). span_from (item_span i) < a}"
proof (rule set_eqI)
  fix i :: "('m, 'l) item"
  show "i \<in> set (frontier (withdraw a t)) \<longleftrightarrow> i \<in> {i \<in> set (frontier t). span_from (item_span i) < a}"
    by (cases i) (auto simp: turn_in_map depart_resident_iff depart_eviction_resident_iff not_le)
qed

lemma frontier_evict_set:
  fixes t :: "('m, 'l) table"
  shows
  "set (frontier (evict e t)) =
     insert (EvictionItem e Resident)
       {i \<in> set (frontier t). \<not> within (item_span i) (evicted_span e)}"
proof (rule set_eqI)
  fix i :: "('m, 'l) item"
  show "i \<in> set (frontier (evict e t)) \<longleftrightarrow> i \<in> insert (EvictionItem e Resident)
      {i \<in> set (frontier t). \<not> within (item_span i) (evicted_span e)}"
    by (cases i) (auto simp: turn_in_map depart_resident_iff depart_eviction_resident_iff)
qed

lemma sorted_before_filter: "sorted_wrt before is \<Longrightarrow> sorted_wrt before (filter P is)"
  by (rule sorted_wrt_filter)

text \<open>A rewind keeps the items that end before its anchor, as they were.\<close>

lemma frontier_withdraw:
  assumes ok: "table_ok t" and uncut: "straddling t a = None"
  shows "frontier (withdraw a t) = filter (\<lambda>i. span_from (item_span i) < a) (frontier t)"
  by (rule before_unique)
    (use frontier_sorted [OF withdraw_ok [OF ok uncut]] frontier_sorted [OF ok]
      frontier_withdraw_set in \<open>auto intro: sorted_before_filter\<close>)

section \<open>Saturating sums\<close>

lemma sat_fold: "fold (\<lambda>n s. sat_add s n) ns b = min (b + sum_list ns) (max b u64_max)" if "b \<le> u64_max"
  using that
proof (induction ns arbitrary: b)
  case (Cons n ns)
  have "sat_add b n \<le> u64_max" by (simp add: sat_add_def)
  from Cons.IH [OF this] Cons.prems show ?case
    unfolding fold_simps comp_def by (simp add: sat_add_def min_def max_def)
qed simp

lemma sat_sum_min: "sat_sum ns = min (sum_list ns) u64_max"
  unfolding sat_sum_def by (subst sat_fold) simp_all

lemma over_budget_Some:
  "over_budget keep spent bs = Some k \<Longrightarrow>
     k < length bs \<and>
     (take (length bs - Suc k) bs = [] \<or>
      min (spent + sum_list (take (length bs - Suc k) bs)) u64_max \<le> keep)"
proof (induction bs arbitrary: spent)
  case (Cons b bs)
  show ?case
  proof (cases "sat_add spent b > keep")
    case True
    then show ?thesis using Cons.prems by simp
  next
    case False
    then have some: "over_budget keep (sat_add spent b) bs = Some k" using Cons.prems by simp
    note IH = Cons.IH [OF some]
    have "length (b # bs) - Suc k = Suc (length bs - Suc k)" using IH by auto
    with IH False show ?thesis by (auto simp: sat_add_def min_def split: if_splits)
  qed
qed simp

section \<open>Evicting a prefix of the context\<close>

text \<open>The run from the first item to the end of a prefix, as the plan spans it.\<close>

definition prefix_span :: "('m, 'l) item list \<Rightarrow> span" where
  "prefix_span gone = hull (item_span (hd gone)) (item_span (last gone))"

lemma prefix_span_ends:
  assumes "sorted_wrt before gone" and "gone \<noteq> []"
  shows "span_from (prefix_span gone) = span_from (item_span (hd gone))"
    and "span_to (prefix_span gone) = span_to (item_span (last gone))"
    and "i \<in> set gone \<Longrightarrow> within (item_span i) (prefix_span gone)"
proof -
  have first: "span_from (item_span (hd gone)) \<le> span_from (item_span i)" if "i \<in> set gone" for i
    using assms that
    by (cases gone) (auto simp: before_def intro: le_trans [OF span_ordered less_imp_le])
  have final: "span_to (item_span i) \<le> span_to (item_span (last gone))" if "i \<in> set gone" for i
    using assms that
    by (cases gone rule: rev_cases)
      (auto simp: before_def sorted_wrt_append intro: le_trans [OF less_imp_le span_ordered])
  show "span_from (prefix_span gone) = span_from (item_span (hd gone))"
    using first [of "last gone"] assms(2) by (simp add: prefix_span_def)
  moreover show "span_to (prefix_span gone) = span_to (item_span (last gone))"
    using final [of "hd gone"] assms(2) by (simp add: prefix_span_def)
  ultimately show "i \<in> set gone \<Longrightarrow> within (item_span i) (prefix_span gone)"
    using first final by (simp add: within_def)
qed

lemma frontier_item_ends:
  assumes ok: "table_ok t" and i: "i \<in> set (frontier t)"
  shows "span_from (item_span i) \<in> set (turn_ids t)" "span_to (item_span i) \<in> set (turn_ids t)"
    and "\<not> withdrawn_at (turns t) (span_from (item_span i))"
    and "\<not> withdrawn_at (turns t) (span_to (item_span i))"
proof -
  have "span_from (item_span i) \<in> set (turn_ids t) \<and> span_to (item_span i) \<in> set (turn_ids t) \<and>
      \<not> withdrawn_at (turns t) (span_from (item_span i)) \<and>
      \<not> withdrawn_at (turns t) (span_to (item_span i))"
  proof (cases i)
    case (TurnItem u)
    with i have "u \<in> set (turns t)" "is_resident u" by (simp_all add: turn_in_map)
    with TurnItem withdrawn_at_iff [OF table_ids_distinct [OF ok], of u] show ?thesis
      by (auto simp: turn_ids_def is_resident_def is_withdrawn_def)
  next
    case (EvictionItem e w)
    with i have e: "(e, Resident) \<in> set (evictions t)" by (simp add: turn_in_map)
    then have "evicted_span e \<in> set (eviction_spans t)" by (force simp: eviction_spans_def)
    moreover have "\<not> withdrawn_at (turns t) (span_from (evicted_span e))"
      using install_evictions_location e table_evictions [OF ok] by (metis location.distinct(3))
    ultimately show ?thesis
      using table_ends [OF ok] table_whole [OF ok] EvictionItem by (auto simp: withdrawn_whole_def)
  qed
  then show "span_from (item_span i) \<in> set (turn_ids t)" "span_to (item_span i) \<in> set (turn_ids t)"
    "\<not> withdrawn_at (turns t) (span_from (item_span i))"
    "\<not> withdrawn_at (turns t) (span_to (item_span i))" by blast+
qed

lemma last_id_greatest:
  assumes "table_ok t" and "turns t = us @ [u]" and "i \<in> set (turn_ids t)"
  shows "i \<le> turn_id u"
  using table_ids_sorted [OF assms(1)] assms(2,3)
  by (auto simp: turn_ids_def sorted_wrt_append less_imp_le)

text \<open>An item starts and ends where no eviction is cut.\<close>

lemma item_uncut:
  assumes ok: "table_ok t" and i: "i \<in> set (frontier t)"
  shows "straddling t (span_from (item_span i)) = None"
    and "straddling t (Suc (span_to (item_span i))) = None"
proof -
  have "\<not> (span_from s < span_from (item_span i) \<and> span_from (item_span i) \<le> span_to s) \<and>
      \<not> (span_from s < Suc (span_to (item_span i)) \<and> Suc (span_to (item_span i)) \<le> span_to s)"
    if "s \<in> set (eviction_spans t)" for s
    using frontier_covers [OF ok i that] span_ordered [of "item_span i"]
    unfolding within_def apart_def by linarith
  then show "straddling t (span_from (item_span i)) = None"
    "straddling t (Suc (span_to (item_span i))) = None"
    unfolding straddling_None_iff by blast+
qed

text \<open>Any proper prefix of the context may be evicted.\<close>

lemma prefix_cut:
  fixes c :: "('m, 'l) ctx"
  assumes ok: "table_ok (ctx_table c)"
    and fr: "frontier (ctx_table c) = gone @ kept" "gone \<noteq> []" "kept \<noteq> []"
  shows "resolve_cut c (prefix_span gone) = Inr ()"
proof -
  have sorted: "sorted_wrt before (gone @ kept)" using frontier_sorted [OF ok] fr(1) by simp
  note ends = prefix_span_ends [OF conjunct1 [OF sorted [unfolded sorted_wrt_append]] fr(2)]
  have mem: "hd gone \<in> set (frontier (ctx_table c))" "last gone \<in> set (frontier (ctx_table c))"
    "last kept \<in> set (frontier (ctx_table c))"
    using fr by auto
  have beyond: "span_to (prefix_span gone) < span_from (item_span (last kept))"
    using sorted fr(2,3) ends(2) by (auto simp: sorted_wrt_append before_def)
  have hand: "\<not> span_contains (prefix_span gone) i" if "unclosed_turn c = Some i" for i
  proof -
    obtain u where u: "last_turn c = Some u" "turn_id u = i"
      using \<open>unclosed_turn c = Some i\<close> by (auto simp: unclosed_turn_def split: option.splits if_splits)
    then have "span_from (item_span (last kept)) \<le> i"
      using last_id_greatest [OF ok] frontier_item_ends(1) [OF ok mem(3)] by (auto simp: last_turn_Some)
    with beyond show ?thesis by (simp add: span_contains_def)
  qed
  have "straddling (ctx_table c) (span_from (prefix_span gone)) = None"
    using item_uncut(1) [OF ok mem(1)] by (simp add: ends)
  moreover have "sat_add (span_to (prefix_span gone)) 1 = Suc (span_to (prefix_span gone))"
    using beyond table_ids_fit [OF ok frontier_item_ends(1) [OF ok mem(3)]]
    by (intro sat_add_Suc) simp
  then have "straddling (ctx_table c) (sat_add (span_to (prefix_span gone)) 1) = None"
    using item_uncut(2) [OF ok mem(2)] by (simp add: ends)
  ultimately show ?thesis
    using hand frontier_item_ends [OF ok mem(1)] frontier_item_ends [OF ok mem(2)]
    by (auto simp: resolve_cut_ok guard_end_ok [OF ok] ends straddled_by_cut_def)
qed

text \<open>The run is replaced by the one item that stands for it.\<close>

lemma prefix_evicted:
  fixes c :: "('m, 'l) ctx"
  assumes ok: "table_ok (ctx_table c)" and e: "evicted_span e = prefix_span gone"
    and fr: "frontier (ctx_table c) = gone @ kept" "gone \<noteq> []" "kept \<noteq> []"
  shows "frontier (evict e (ctx_table c)) = EvictionItem e Resident # kept"
proof (rule before_unique)
  have sorted: "sorted_wrt before gone" "sorted_wrt before kept"
    "\<forall>i\<in>set gone. \<forall>j\<in>set kept. before i j"
    using frontier_sorted [OF ok] fr(1) by (simp_all add: sorted_wrt_append)
  note ends = prefix_span_ends [OF sorted(1) fr(2)]
  have later: "span_to (evicted_span e) < span_from (item_span j)" if "j \<in> set kept" for j
    using sorted(3) fr(2) that by (auto simp: e ends before_def)
  have "table_ok (evict e (ctx_table c))"
    using prefix_cut [OF ok fr] evict_ok [OF ok _ e]
    by (auto simp: resolve_cut_ok guard_end_ok [OF ok])
  then show "sorted_wrt before (frontier (evict e (ctx_table c)))" by (rule frontier_sorted)
  show "sorted_wrt before (EvictionItem e Resident # kept)"
    using sorted(2) later by (simp add: before_def)
  have "\<not> within (item_span j) (evicted_span e)" if "j \<in> set kept" for j
    using later [OF that] span_ordered [of "item_span j"] unfolding within_def by linarith
  then show "set (frontier (evict e (ctx_table c))) = set (EvictionItem e Resident # kept)"
    unfolding frontier_evict_set fr(1) using ends(3) by (auto simp: e)
qed

section \<open>Planning a forced eviction\<close>

lemma over_budget_kept:
  assumes "over_budget keep (f (last xs)) (map f (rev (butlast xs))) = Some k" and "xs \<noteq> []"
  shows "Suc k < length xs"
    and "length (drop (Suc k) xs) = 1 \<or> sat_sum (map f (drop (Suc k) xs)) \<le> keep"
proof -
  let ?bs = "map f (rev (butlast xs))"
  have len: "length ?bs = length xs - 1" by simp
  note O = over_budget_Some [OF assms(1)]
  show k: "Suc k < length xs" using conjunct1 [OF O] len by linarith
  have "drop (Suc k) xs = drop (Suc k) (butlast xs @ [last xs])" using assms(2) by simp
  also have "\<dots> = drop (Suc k) (butlast xs) @ [last xs]" using k by simp
  finally have split: "drop (Suc k) xs = drop (Suc k) (butlast xs) @ [last xs]" .
  have newer: "take (length ?bs - Suc k) ?bs = rev (map f (drop (Suc k) (butlast xs)))"
    by (simp add: rev_drop rev_map take_map)
  show "length (drop (Suc k) xs) = 1 \<or> sat_sum (map f (drop (Suc k) xs)) \<le> keep"
    using O unfolding newer split sat_sum_min
    by (auto simp: sum_list_rev add.commute simp flip: rev_map)
qed

text \<open>What a plan is: a proper prefix of the context, after which what stays fits the budget.\<close>

lemma plan_prefix:
  fixes c :: "('m, 'l) ctx"
  assumes plan: "plan_forced_eviction api c keep = Some s"
  shows "\<exists>gone kept. frontier (ctx_table c) = gone @ kept \<and> gone \<noteq> [] \<and> kept \<noteq> [] \<and>
    s = prefix_span gone \<and>
    (length kept = 1 \<or> sat_sum (map (item_bytes api) kept) \<le> keep) \<and>
    (\<exists>i\<in>set gone. is_material i) \<and> (\<forall>e w. filter is_material gone \<noteq> [EvictionItem e w])"
proof -
  let ?fr = "frontier (ctx_table c)"
  have ne: "?fr \<noteq> []" using plan by (auto simp: plan_forced_eviction_def Let_def)
  obtain k where k: "over_budget keep (item_bytes api (last ?fr))
      (map (item_bytes api) (rev (butlast ?fr))) = Some k"
    using plan ne by (auto simp: plan_forced_eviction_def Let_def split: option.splits)
  note O = over_budget_kept [OF k ne]
  have lt: "Suc k < length ?fr" using O by simp
  let ?gone = "take (Suc k) ?fr" and ?kept = "drop (Suc k) ?fr"
  have same: "take (Suc k) (butlast ?fr) = ?gone" using lt by (simp add: take_butlast)
  have nth: "butlast ?fr ! 0 = hd ?gone" "butlast ?fr ! k = last ?gone"
    using lt ne by (simp_all add: nth_butlast hd_conv_nth last_conv_nth)
  have s: "s = prefix_span ?gone" and some: "filter is_material ?gone \<noteq> []"
    and lone: "\<forall>e w. filter is_material ?gone \<noteq> [EvictionItem e w]"
    using plan ne k unfolding plan_forced_eviction_def Let_def same nth
    by (auto simp: prefix_span_def same nth split: list.splits item.splits)
  have "?fr = ?gone @ ?kept" "?gone \<noteq> []" "?kept \<noteq> []" using lt by auto
  moreover have "length ?kept = 1 \<or> sat_sum (map (item_bytes api) ?kept) \<le> keep"
    using O by simp
  moreover have "\<exists>i\<in>set ?gone. is_material i" using some by (simp add: filter_empty_conv)
  ultimately show ?thesis using s lone by blast
qed

end
