(* ===== verification/Record_Agreement.thy ===== *)
theory Record_Agreement
  imports Record_Edits
begin

text \<open>
  The writer and the fold agree: a record an operation of the session commits is one the fold
  accepts, so the panic \<open>AgentLog::advance\<close> keeps for a refused live record is unreachable.  The
  contract between the two is the locale \<open>log_fold\<close>: what a fold keeps and takes, for whoever
  appends to its log; the model's fold is its interpretation.
\<close>

section \<open>The contract\<close>

text \<open>Records stepped in turn, as \<open>resume\<close> folds a log; the first refusal ends it.\<close>

fun replay :: "('c \<Rightarrow> 'r \<Rightarrow> 'e + 'c) \<Rightarrow> 'c \<Rightarrow> 'r list \<Rightarrow> 'e + 'c" where
  "replay f c [] = Inr c"
| "replay f c (r # rs) = (case f c r of Inl e \<Rightarrow> Inl e | Inr c' \<Rightarrow> replay f c' rs)"

text \<open>Each record of a list is one the fold takes where the records before it left the fold.\<close>

fun taken_all :: "('c \<Rightarrow> 'r \<Rightarrow> 'e + 'c) \<Rightarrow> ('c \<Rightarrow> 'r \<Rightarrow> bool) \<Rightarrow> 'c \<Rightarrow> 'r list \<Rightarrow> bool" where
  "taken_all f takes c [] \<longleftrightarrow> True"
| "taken_all f takes c (r # rs) \<longleftrightarrow>
     takes c r \<and> (\<forall>c'. f c r = Inr c' \<longrightarrow> taken_all f takes c' rs)"

locale log_fold =
  fixes ok :: "'c \<Rightarrow> bool"
    and takes :: "'c \<Rightarrow> 'r \<Rightarrow> bool"
    and f :: "'c \<Rightarrow> 'r \<Rightarrow> 'e + 'c"
  assumes accepts: "ok c \<Longrightarrow> takes c r \<Longrightarrow> \<exists>c'. f c r = Inr c'"
    and keeps: "ok c \<Longrightarrow> takes c r \<Longrightarrow> f c r = Inr c' \<Longrightarrow> ok c'"
begin

lemma stepped:
  assumes "ok c" and "takes c r"
  obtains c' where "f c r = Inr c'" and "ok c'"
  using accepts [OF assms] keeps [OF assms] by blast

lemma replay_keeps:
  "ok c \<Longrightarrow> taken_all f takes c rs \<Longrightarrow> \<exists>c'. replay f c rs = Inr c' \<and> ok c'"
proof (induction rs arbitrary: c)
  case (Cons r rs)
  then obtain c' where "f c r = Inr c'" "ok c'" by (auto elim: stepped)
  with Cons show ?case by simp
qed simp

lemma replay_append:
  "replay f c (rs @ ss) = (case replay f c rs of Inl e \<Rightarrow> Inl e | Inr c' \<Rightarrow> replay f c' ss)"
  by (induction rs arbitrary: c) (auto split: sum.splits)

end

section \<open>What the fold takes\<close>

definition takes_record :: "'m chat_api \<Rightarrow> ('m, 'l) ctx \<Rightarrow> ('m, 'l) recorded \<Rightarrow> bool" where
  "takes_record api c r \<longleftrightarrow>
     fits (val r) \<and> \<not> is_link (val r) \<and> judge api c (val r) = Inr ()"

lemma effect_total: "\<not> is_link p \<Longrightarrow> \<exists>c1. effect api rd c p = Inr c1"
  by (cases p) (auto simp: effect_def)

lemma effect_turns:
  "extending p \<Longrightarrow> effect api rd c p = Inr c1 \<Longrightarrow> ctx_turns c1 = ctx_turns c"
  by (cases p) (auto simp: effect_def)

text \<open>A judged record is applied: its material lands on a resident turn, or opens one.\<close>

lemma land_total:
  assumes "effect api rd c p = Inr c1" and "judge api c p = Inr ()"
  shows "\<exists>c'. land api (Recorded l p) (c1\<lparr>ctx_len := n\<rparr>) = Inr c'"
proof (cases "opened api (Recorded l p)")
  case (Some u)
  then show ?thesis using land_opens by fastforce
next
  case None
  show ?thesis
  proof (cases "extending p \<and> ctx_turns c1 \<noteq> []")
    case True
    then have same: "ctx_turns c1 = ctx_turns c" using effect_turns assms(1) by blast
    with True obtain us u where us: "ctx_turns c = us @ [u]" by (metis rev_exhaust)
    then have "is_resident u"
      using True assms(2) by (auto simp: judge_ok extends_extending last_turn_Some)
    then show ?thesis
      using land_extends [of "Recorded l p" "c1\<lparr>ctx_len := n\<rparr>" us u api] True same us by simp
  next
    case False
    then show ?thesis using land_nothing [OF None, of "c1\<lparr>ctx_len := n\<rparr>"] by simp
  qed
qed

lemma step_total:
  assumes "judge api c p = Inr ()" and "\<not> is_link p"
  shows "\<exists>c'. step_transcript api rd c (Recorded l p) = Inr c'"
proof -
  obtain c1 where "effect api rd c p = Inr c1" using effect_total [OF assms(2)] by blast
  with land_total [OF this assms(1)] assms(1) show ?thesis by (auto simp: step_accepted)
qed

interpretation model_fold: log_fold ctx_ok "takes_record api" "step_transcript api rd"
proof
  fix c :: "('a, 'b) ctx" and r :: "('a, 'b) recorded"
  assume "ctx_ok c" "takes_record api c r"
  then show "\<exists>c'. step_transcript api rd c r = Inr c'"
    using step_total by (cases r) (auto simp: takes_record_def)
next
  fix c c' :: "('a, 'b) ctx" and r :: "('a, 'b) recorded"
  assume "ctx_ok c" "takes_record api c r" "step_transcript api rd c r = Inr c'"
  then show "ctx_ok c'"
    using step_keeps by (cases r) (auto simp: takes_record_def)
qed

section \<open>The writer's records\<close>

text \<open>An id is left to mint.\<close>

definition room :: "('m, 'l) ctx \<Rightarrow> bool" where
  "room c \<longleftrightarrow> (case reach c of None \<Rightarrow> True | Some i \<Rightarrow> i < u64_max)"

lemma next_id_room:
  assumes "room c"
  shows "next_id c \<le> u64_max" and "\<not> Some (next_id c) \<le> reach c"
  using assms by (auto simp: room_def next_id_def sat_add_def u64_max_def split: option.splits)

lemma ready_admits:
  "is_ready c \<longleftrightarrow> (\<forall>ids. ctx_state c \<noteq> AwaitingToolResults ids)"
  by (cases "ctx_state c") (auto simp: is_ready_def)

lemma fresh_record_taken:
  assumes "opened api (Recorded l p) = Some u" and "turn_id u = next_id c" and "room c"
    and "admissible api (ctx_state c) p"
  shows "takes_record api c (Recorded l p)"
  using assms next_id_room [OF assms(3)]
  by (cases p) (auto simp: takes_record_def judge_ok fits_def opened_turn_def extends_extending)

lemma steering_taken:
  assumes "is_ready c" and "last_turn c = Some u" and "is_resident u"
  shows "takes_record api c (Recorded l (Steering x v))"
  using assms by (auto simp: takes_record_def judge_ok fits_def is_ready_def last_turn_Some)

lemma results_taken:
  assumes "ctx_ok c" and "ctx_state c = AwaitingToolResults ids"
    and "validate_result_ids ids rs = Inr ()"
  shows "takes_record api c (Recorded l (ToolResults rs))"
proof -
  have "\<not> is_ready c" using assms(2) by (simp add: is_ready_def)
  then obtain u where "last_turn c = Some u" "is_resident u" using ctx_in_hand [OF assms(1)] by blast
  then show ?thesis using assms(2,3) by (auto simp: takes_record_def judge_ok fits_def)
qed

lemma edits_taken:
  "resolve_cut c (evicted_span e) = Inr () \<Longrightarrow> takes_record api c (Recorded l (transcript.Evicted e))"
  "is_ready c \<Longrightarrow> takes_record api c (Recorded l Cleared)"
  by (auto simp: takes_record_def judge_ok fits_def is_ready_def)

lemma rewindable_judged: "rewindable c a = Inr () \<longleftrightarrow> judge api c (Rewound a) = Inr ()"
  by (auto simp: rewindable_def first_refusal_ok judge_ok is_ready_def split: option.splits)

lemma rewound_taken: "rewindable c a = Inr () \<Longrightarrow> takes_record api c (Recorded l (Rewound a))"
  by (simp add: takes_record_def fits_def rewindable_judged [of c a api])

section \<open>The writer's operations\<close>

text \<open>A commit that agrees: no durable record is refused, and what it leaves is live.\<close>

definition agrees :: "'m chat_api \<Rightarrow> ('m, 'l) reader \<Rightarrow> ('m, 'l) commit \<Rightarrow> bool" where
  "agrees api rd r \<longleftrightarrow> (\<forall>e. r \<noteq> Inl (Disagreed e)) \<and> (\<forall>c'. r = Inr c' \<longrightarrow> live api rd c')"

lemma agrees_simps [simp]:
  "agrees api rd (Inl (Refused why))" "agrees api rd (Inl Unavailable)"
  "agrees api rd (Inr c) \<longleftrightarrow> live api rd c"
  by (simp_all add: agrees_def)

lemma live_step:
  assumes "live api rd c" and "takes_record api c (Recorded l p)"
    and "step_transcript api rd c (Recorded l p) = Inr c'"
  shows "live api rd c'"
  using live.stepped [OF assms(1) _ _ assms(3)] assms(2) by (simp add: takes_record_def)

lemma record_agrees:
  assumes c: "live api rd c" and p: "\<And>l. takes_record api c (Recorded l p)"
  shows "agrees api rd (record_transcript api rd sm c p)"
proof (cases "emit sm p")
  case (Some l)
  obtain c' where "step_transcript api rd c (Recorded l p) = Inr c'"
    using model_fold.stepped [OF live_ok [OF c] p] by blast
  with Some live_step [OF c p this] show ?thesis by (simp add: record_transcript_def)
qed (simp add: record_transcript_def)

lemma live_prompt_resident:
  "live_prompt c = Some i \<Longrightarrow> \<exists>u. last_turn c = Some u \<and> is_resident u"
  by (auto simp: live_prompt_def split: option.splits if_splits)

lemma append_user_agrees:
  assumes "live api rd c" and "room c"
  shows "agrees api rd (append_user api rd sm c x continues v)"
proof (cases "is_ready c")
  case True
  have "takes_record api c (Recorded l (user_record c x continues v))" for l
  proof (cases "continues \<noteq> None \<and> live_prompt c = continues")
    case True
    then obtain u where "last_turn c = Some u" "is_resident u" using live_prompt_resident by blast
    with True \<open>is_ready c\<close> steering_taken show ?thesis by (auto simp: user_record_def)
  next
    case False
    then have "user_record c x continues v = UserPrompt (next_id c) x v" by (simp add: user_record_def)
    then show ?thesis
      using \<open>is_ready c\<close> by (auto intro!: fresh_record_taken assms simp: opened_turn_def is_ready_def)
  qed
  with True record_agrees [OF assms(1)] show ?thesis by (simp add: append_user_def)
qed (simp add: append_user_def)

lemma import_note_agrees:
  assumes "live api rd c" and "room c"
  shows "agrees api rd (import_note api rd sm c m)"
  unfolding import_note_def is_ready_def
  by (auto intro!: record_agrees assms fresh_record_taken simp: opened_turn_def)

lemma append_assistant_agrees:
  assumes "live api rd c" and "room c"
  shows "agrees api rd (append_assistant api rd sm c m pending stop)"
  unfolding append_assistant_def is_awaiting_assistant_def
  by (auto intro!: record_agrees assms fresh_record_taken simp: opened_turn_def)

lemma append_steering_agrees:
  assumes "live api rd c"
  shows "agrees api rd (append_steering api rd sm c x v)"
proof (cases "is_awaiting_assistant c \<and> unclosed_turn c \<noteq> None")
  case True
  then obtain u where "last_turn c = Some u" "is_resident u"
    by (auto simp: unclosed_turn_def split: option.splits if_splits)
  moreover have "is_ready c" using True by (auto simp: is_awaiting_assistant_def awaits_assistant_def is_ready_def)
  ultimately show ?thesis
    using record_agrees [OF assms steering_taken] True by (auto simp: append_steering_def)
qed (auto simp: append_steering_def)

lemma append_tool_results_agrees:
  assumes "live api rd c"
  shows "agrees api rd (append_tool_results api rd sm c results)"
  unfolding append_tool_results_def pending_tool_results_def
  by (auto intro!: record_agrees assms results_taken live_ok [OF assms] split: state.split sum.split)

lemma edits_agree:
  assumes "live api rd c"
  shows "agrees api rd (session_evict api rd sm c s n by_who)"
    and "agrees api rd (session_rewind api rd sm c a)"
    and "agrees api rd (session_clear api rd sm c)"
  unfolding session_evict_def session_rewind_def session_clear_def
  by (auto intro!: record_agrees assms edits_taken rewound_taken split: sum.split)

end
