(* ===== verification/Record_Fork.thy ===== *)
theory Record_Fork
  imports Record_Agreement
begin

text \<open>
  What a fork's child sees of its parent, and how work that ends is closed: a link read back whole
  gives the child the parent's context, a quiesce brings the automaton to rest, and a batch of
  calls with a repeated id is one that nothing closes.
\<close>

section \<open>Reading a link back\<close>

text \<open>A pointer reads back what its turn recorded.\<close>

definition reads_back :: "('m, 'l) reader \<Rightarrow> nat \<Rightarrow> ('m, 'l) turn \<Rightarrow> bool" where
  "reads_back rd src u \<longleftrightarrow>
     (case body u of
        Here rs None \<Rightarrow> rd (own_pointer src rs) = Some (map val rs)
      | Here rs (Some p) \<Rightarrow> (\<exists>vs. rd p = Some vs \<and> seed_at p vs = rs)
      | _ \<Rightarrow> True)"

lemma admissible_prefix_all:
  "admits_new_turn (resting rs) \<Longrightarrow> take (admissible_prefix rs) rs = rs"
  using admissible_prefix_longest(3) [of rs "length rs"] admissible_prefix_longest(1) [of rs]
  by (cases "admissible_prefix rs = length rs") auto

lemma recorded_zip: "map2 Recorded (map locus rs) (map val rs) = rs"
  by (induction rs) auto

lemma seed_reads_back:
  assumes "reads_back rd src u" and "is_resident u" and "settled u"
  shows "\<exists>vs. rd (turn_address src (body u)) = Some vs \<and>
    seed_at (turn_address src (body u)) vs = turn_records u"
proof -
  obtain rs o1 where b: "body u = Here rs o1" using assms(2) by (auto simp: is_resident_body)
  then have "turn_records u = rs" by (simp add: turn_records_def)
  with assms(1,3) b show ?thesis
    by (cases o1)
      (auto simp: reads_back_def settled_def seed_at_def own_pointer_def recorded_zip admissible_prefix_all)
qed

lemma read_parent_seeds:
  assumes "\<forall>u\<in>set us. is_resident u \<longrightarrow> reads_back rd src u \<and> settled u"
  shows "read_seeds rd (map (linked_of src) us) = Inr (map turn_records (filter is_resident us))"
  using assms
proof (induction us)
  case (Cons u us)
  show ?case
  proof (cases "is_resident u")
    case True
    then obtain vs where "rd (turn_address src (body u)) = Some vs"
      "seed_at (turn_address src (body u)) vs = turn_records u"
      using seed_reads_back Cons.prems by (metis list.set_intros(1))
    with True Cons show ?thesis by (simp add: linked_of_def is_resident_def)
  next
    case False
    with Cons show ?thesis by (simp add: linked_of_def is_resident_def)
  qed
qed simp

text \<open>The child's row of a parent's turn.\<close>

definition child_turn :: "'m chat_api \<Rightarrow> nat \<Rightarrow> ('m, 'l) turn \<Rightarrow> ('m, 'l) turn" where
  "child_turn api src u =
     u\<lparr>kind := turn_kind.Inherited,
       turn_bytes := (if is_resident u then message_bytes api (resident_messages api (turn_records u))
                      else turn_bytes u),
       body := (case body u of
          Here rs _ \<Rightarrow> Here rs (Some (turn_address src (body u)))
        | b \<Rightarrow> b)\<rparr>"

lemma child_turn_simps [simp]:
  "turn_id (child_turn api src u) = turn_id u"
  "turn_location (child_turn api src u) = turn_location u"
  "turn_records (child_turn api src u) = turn_records u"
  by (simp_all add: child_turn_def turn_location_def turn_records_def split: body.split)

lemma install_parent_turns:
  "install_turns api (map (linked_of src) us) (map turn_records (filter is_resident us)) =
     Some (map (child_turn api src) us)"
proof (induction us)
  case (Cons u us)
  then show ?case
    by (cases "body u")
      (auto simp: linked_of_def child_turn_def is_resident_def turn_location_def turn_records_def)
qed simp

section \<open>The same context\<close>

lemma insort_key_map: "insort_key k (g x) (map g xs) = map g (insort_key (k \<circ> g) x xs)"
  by (induction xs) auto

lemma sort_key_map: "sort_key k (map g xs) = map g (sort_key (k \<circ> g) xs)"
  by (induction xs) (simp_all add: insort_key_map comp_def)

fun child_item :: "'m chat_api \<Rightarrow> nat \<Rightarrow> ('m, 'l) item \<Rightarrow> ('m, 'l) item" where
  "child_item api src (TurnItem u) = TurnItem (child_turn api src u)"
| "child_item api src (EvictionItem e w) = EvictionItem e w"

lemma child_item_simps [simp]:
  "item_span (child_item api src i) = item_span i"
  "item_location (child_item api src i) = item_location i"
  "item_messages api (child_item api src i) = item_messages api i"
  "is_eviction_item (child_item api src i) = is_eviction_item i"
  by (cases i; simp)+

lemma child_frontier:
  assumes "turns t' = map (child_turn api src) (turns t)" and "evictions t' = evictions t"
  shows "frontier t' = map (child_item api src) (frontier t)"
proof -
  have "map (\<lambda>(e, w). EvictionItem e w) (rev (evictions t')) @ map TurnItem (turns t') =
      map (child_item api src)
        (map (\<lambda>(e, w). EvictionItem e w) (rev (evictions t)) @ map TurnItem (turns t))"
    by (auto simp: assms)
  moreover have "item_key \<circ> child_item api src = item_key"
    by (rule ext) (simp add: item_key_def)
  ultimately have "items t' = map (child_item api src) (items t)"
    unfolding items_def by (metis sort_key_map)
  then show ?thesis by (simp add: frontier_def filter_map comp_def)
qed

text \<open>A ready parent's link, read back whole, gives the child the parent's context.\<close>

lemma fork_reads_parent:
  fixes p :: "('m, 'l) ctx"
  assumes p: "live api rd p" and ready: "is_ready p"
    and whole: "\<forall>u\<in>set (ctx_turns p). reads_back rd (table_source (ctx_table p)) u"
  shows "\<exists>c. step_transcript api rd (context_new src) (Recorded l (inherited_context p)) = Inr c \<and>
    live api rd c \<and> is_ready c \<and> rendered api c = rendered api p"
proof -
  let ?n = "context_new src :: ('m, 'l) ctx" and ?src = "table_source (ctx_table p)"
  have ok: "ctx_ok p" by (rule live_ok [OF p])
  let ?us = "map (child_turn api ?src) (ctx_turns p)"
  have seeds: "read_seeds rd (linked p) = Inr (map turn_records (filter is_resident (ctx_turns p)))"
    unfolding linked_def
    by (rule read_parent_seeds) (use whole ready_settled [OF ok ready] in \<open>auto simp: resident_def\<close>)
  let ?t = "(table_new src :: ('m, 'l) table)\<lparr>turns := ?us,
      evictions := install_evictions ?us (ctx_evictions p)\<rparr>"
  let ?c = "?n\<lparr>ctx_table := ?t, ctx_len := 1\<rparr>"
  have step: "step_transcript api rd ?n (Recorded l (inherited_context p)) = Inr ?c"
    unfolding step_accepted
    using parent_link_accepted [OF ctx_table_ok [OF ok], of ?n api] seeds
    by (simp add: install_parent_turns inherited_context_def effect_def install_def linked_def land_def context_new_def table_new_def)
  have "evictions ?t = evictions (ctx_table p)"
    using fork_keeps [OF ctx_table_ok [OF ok] step] by simp
  then have "frontier ?t = map (child_item api ?src) (frontier (ctx_table p))"
    by (intro child_frontier) simp_all
  then have "rendered api ?c = rendered api p"
    by (simp add: rendered_def comp_def)
  moreover have "is_ready ?c" by (simp add: is_ready_def context_new_def)
  ultimately show ?thesis using step live.forked [OF p step] by blast
qed

section \<open>Ending the work in hand\<close>

text \<open>The seam writes whatever it is handed.\<close>

definition writes :: "('m, 'l) seam \<Rightarrow> bool" where
  "writes sm \<longleftrightarrow> (\<forall>p. emit sm p \<noteq> None)"

lemma record_written:
  assumes "writes sm" and c: "live api rd c" and p: "\<And>l. takes_record api c (Recorded l p)"
  obtains c' l where "record_transcript api rd sm c p = Inr c'" and "live api rd c'"
    and "step_transcript api rd c (Recorded l p) = Inr c'"
proof -
  obtain l where l: "emit sm p = Some l" using assms(1) unfolding writes_def by (meson option.exhaust)
  obtain c' where step: "step_transcript api rd c (Recorded l p) = Inr c'"
    using model_fold.stepped [OF live_ok [OF c] p] by blast
  show thesis
  proof (rule that)
    show "record_transcript api rd sm c p = Inr c'" using l step by (simp add: record_transcript_def)
  qed (fact live_step [OF c p step] step)+
qed

lemma step_state:
  assumes "step_transcript api rd c (Recorded l p) = Inr c'"
    and "opened api (Recorded l p) \<noteq> None \<or> extending p"
  shows "ctx_state c' = advance (ctx_state c) p"
proof -
  let ?c = "c\<lparr>ctx_state := advance (ctx_state c) p, ctx_len := ctx_len c + 1\<rparr>"
  have "land api (Recorded l p) ?c = Inr c'"
    using assms(1) effect_plain [OF assms(2), of rd c] by (auto simp: step_accepted)
  then show ?thesis
    by (auto simp: land_def split: prod.splits option.splits)
qed

lemma extend_reach:
  assumes "step_transcript api rd c (Recorded l p) = Inr c'" and "extending p"
  shows "reach c' = reach c"
proof -
  let ?c = "c\<lparr>ctx_state := advance (ctx_state c) p, ctx_len := ctx_len c + 1\<rparr>"
  have land: "land api (Recorded l p) ?c = Inr c'" and j: "judge api c p = Inr ()"
    using assms(1) effect_plain [of api l p rd c] assms(2) by (auto simp: step_accepted)
  show ?thesis
  proof (cases "last_turn c")
    case None
    then have "land api (Recorded l p) ?c = Inr ?c"
      using assms(2) by (cases p) (auto simp: land_def last_turn_None)
    with land show ?thesis by (simp add: reach_def last_turn_def)
  next
    case (Some u)
    then obtain us where us: "ctx_turns c = us @ [u]" by (auto simp: last_turn_Some)
    have "is_resident u" using j Some assms(2) by (auto simp: judge_ok extends_extending)
    with land land_extends [of "Recorded l p" ?c us u api] assms(2) us extended_turn_fields show ?thesis
      by (auto simp: reach_def last_turn_def)
  qed
qed

text \<open>The capstone a reply is owed, where no call is outstanding.\<close>

lemma capstone_written:
  assumes sm: "writes sm" and c: "live api rd c" "room c" and awaits: "awaits_assistant (ctx_state c)"
    and api: "is_assistant api m"
  obtains c' where
    "record_transcript api rd sm c (AssistantMessage (next_id c) m [] st) = Inr c'"
    and "live api rd c'" and "ctx_state c' = ReadyForUser"
proof -
  have "takes_record api c (Recorded l (AssistantMessage (next_id c) m [] st))" for l
    by (rule fresh_record_taken) (auto simp: opened_turn_def c awaits api)
  from record_written [OF sm c(1) this] obtain c' l where
    "record_transcript api rd sm c (AssistantMessage (next_id c) m [] st) = Inr c'" "live api rd c'"
    "step_transcript api rd c (Recorded l (AssistantMessage (next_id c) m [] st)) = Inr c'" by blast
  with that step_state [OF this(3)] show thesis by simp
qed

definition unrun_results :: "bytes list \<Rightarrow> tool_result list" where
  "unrun_results pending = map (\<lambda>i. ToolResult i UNRUN_TOOL_CALL) pending"

lemma unrun_results_valid: "distinct pending \<Longrightarrow> validate_result_ids pending (unrun_results pending) = Inr ()"
  using validate_result_ids_iff [of pending "unrun_results pending"]
  by (simp add: unrun_results_def comp_def)

lemma quiesce_rests:
  assumes sm: "writes sm" and c: "live api rd c" "room c"
    and api: "\<forall>t. is_assistant api (assistant_message api t)"
    and ids: "\<forall>pending. ctx_state c = AwaitingToolResults pending \<longrightarrow> distinct pending"
  shows "\<exists>c'. quiesce api rd sm c reason = Inr c' \<and> live api rd c' \<and> is_ready c' \<and>
    (reason = Replied \<longrightarrow> ctx_state c' = ReadyForUser)"
proof -
  let ?cap = "AssistantMessage (next_id c) (assistant_message api
      ''[EXARCH // Deliberation ended: replied to parent.]'') [] (Some ''replied'') :: ('a, 'b) transcript"
  consider (pending) pending where "ctx_state c = AwaitingToolResults pending"
    | (ready) "ctx_state c = ReadyForUser" | (awaiting) "awaits_assistant (ctx_state c)"
    by (cases "ctx_state c") (auto simp: awaits_assistant_def)
  then show ?thesis
  proof cases
    case (pending pending)
    let ?owed = "ToolResults (unrun_results pending) :: ('a, 'b) transcript"
    have "takes_record api c (Recorded l ?owed)" for l
      using results_taken [OF live_ok [OF c(1)] pending] unrun_results_valid ids pending by blast
    from record_written [OF sm c(1) this] obtain c1 l where
      c1: "record_transcript api rd sm c ?owed = Inr c1" "live api rd c1"
        "step_transcript api rd c (Recorded l ?owed) = Inr c1" by blast
    have state: "ctx_state c1 = AwaitingAssistantAfterToolResults" using step_state [OF c1(3)] by simp
    have same: "next_id c1 = next_id c" "room c1"
      using extend_reach [OF c1(3)] c(2) by (simp_all add: next_id_def room_def)
    obtain c2 where "record_transcript api rd sm c1 ?cap = Inr c2" "live api rd c2"
      "ctx_state c2 = ReadyForUser"
      by (rule capstone_written [OF sm c1(2) same(2)])
        (use state same api in \<open>auto simp: awaits_assistant_def\<close>)
    then show ?thesis
      using c1 state pending
      by (auto simp: quiesce_def quiesce_records_def unrun_results_def is_ready_def)
  next
    case ready
    then show ?thesis using c by (auto simp: quiesce_def quiesce_records_def is_ready_def)
  next
    case awaiting
    obtain c2 where "record_transcript api rd sm c ?cap = Inr c2" "live api rd c2"
      "ctx_state c2 = ReadyForUser"
      by (rule capstone_written [OF sm c awaiting]) (use api in auto)
    then show ?thesis
      using c awaiting
      by (auto simp: quiesce_def quiesce_records_def is_ready_def awaits_assistant_def)
  qed
qed

section \<open>A batch nothing closes\<close>

lemma repeated_ids_unanswerable: "\<not> distinct pending \<Longrightarrow> validate_result_ids pending results \<noteq> Inr ()"
  using validate_result_ids_iff [of pending results] by auto

lemma repeated_ids_stuck:
  assumes "ctx_state c = AwaitingToolResults pending" and "\<not> distinct pending"
    and "\<not> is_link p" and "step_transcript api rd c (Recorded l p) = Inr c'"
  shows "ctx_state c' = AwaitingToolResults pending"
proof -
  have "admissible api (ctx_state c) p" using assms(4) by (auto simp: step_accepted judge_ok)
  then have "(\<exists>x. p = System x) \<or> (\<exists>e. p = transcript.Evicted e)"
    using assms(1-3) repeated_ids_unanswerable by (cases p) (auto simp: awaits_assistant_def)
  then show ?thesis using assms(1,4) by (auto simp: step_accepted effect_def land_def)
qed

lemma repeated_ids_quiesce:
  assumes "ctx_state c = AwaitingToolResults pending" and "\<not> distinct pending" and "writes sm"
  shows "quiesce api rd sm c reason = Inl (Disagreed (Foreign Inadmissible))"
proof -
  let ?owed = "ToolResults (unrun_results pending) :: ('a, 'b) transcript"
  obtain l where l: "emit sm ?owed = Some l" using assms(3) unfolding writes_def by (meson option.exhaust)
  have "judge api c ?owed = Inl Inadmissible"
    using assms(1,2) repeated_ids_unanswerable by (simp add: judge_def)
  then have "record_transcript api rd sm c ?owed = Inl (Disagreed (Foreign Inadmissible))"
    using l by (simp add: record_transcript_def step_transcript_def)
  then show ?thesis
    using assms(1) by (simp add: quiesce_def quiesce_records_def unrun_results_def)
qed

section \<open>No record is discarded\<close>

text \<open>An address that names at least what another named, in the same session's log.\<close>

definition extends_address :: "'l pointer \<Rightarrow> 'l pointer \<Rightarrow> bool" where
  "extends_address p q \<longleftrightarrow> source p = source q \<and> prefix (loci p) (loci q)"

definition row_kept :: "nat \<Rightarrow> ('m, 'l) turn \<Rightarrow> ('m, 'l) turn \<Rightarrow> bool" where
  "row_kept src u v \<longleftrightarrow>
     turn_id v = turn_id u \<and> turn_role v = turn_role u \<and> kind v = kind u \<and> label v = label u \<and>
     extends_address (turn_address src (body u)) (turn_address src (body v))"

lemma extends_address_refl [simp]: "extends_address p p"
  by (simp add: extends_address_def)

lemma row_kept_refl [simp]: "row_kept src u u"
  by (simp add: row_kept_def)

lemma row_kept_depart [simp]: "row_kept src u (depart_turn src leaving un u)"
  by (simp add: row_kept_def)

lemma row_kept_extended [simp]: "is_resident u \<Longrightarrow> row_kept src u (extended_turn api r u)"
proof -
  assume "is_resident u"
  then obtain rs o1 where "body u = Here rs o1" by (auto simp: is_resident_body)
  then show ?thesis
    by (cases o1) (auto simp: row_kept_def extended_turn_def extends_address_def own_pointer_def)
qed

lemma list_all2_row_refl [simp]: "list_all2 (row_kept src) us us"
  by (rule list_all2_refl) simp

lemma effect_table:
  "\<not> is_link p \<Longrightarrow> effect api rd c p = Inr c1 \<Longrightarrow>
     ctx_table c1 = ctx_table c \<or> (\<exists>e. ctx_table c1 = evict e (ctx_table c)) \<or>
     (\<exists>a. ctx_table c1 = withdraw a (ctx_table c))"
  by (cases p) (auto simp: effect_def)

lemma step_keeps_rows:
  assumes step: "step_transcript api rd c (Recorded l p) = Inr c'" and "\<not> is_link p"
  shows "table_source (ctx_table c') = table_source (ctx_table c) \<and>
    (\<exists>vs ws. ctx_turns c' = vs @ ws \<and>
       list_all2 (row_kept (table_source (ctx_table c))) (ctx_turns c) vs)"
proof -
  obtain c1 where j: "judge api c p = Inr ()" and eff: "effect api rd c p = Inr c1"
    and land: "land api (Recorded l p) (c1\<lparr>ctx_len := ctx_len c + 1\<rparr>) = Inr c'"
    using step by (auto simp: step_accepted)
  let ?R = "row_kept (table_source (ctx_table c))"
  consider (opens) u where "opened api (Recorded l p) = Some u"
    | (extends) us u where "extending p" "ctx_turns c = us @ [u]" "is_resident u"
    | (neither) "opened api (Recorded l p) = None" "\<not> (extending p \<and> ctx_turns c \<noteq> [])"
  proof (cases "extending p \<and> ctx_turns c \<noteq> []")
    case True
    then obtain us u where "ctx_turns c = us @ [u]" by (metis rev_exhaust)
    moreover from this have "is_resident u"
      using True j by (auto simp: judge_ok extends_extending last_turn_Some)
    ultimately show thesis using that(2) True by blast
  next
    case False
    then show thesis using that(1,3) by (cases "opened api (Recorded l p)") auto
  qed
  then show ?thesis
  proof cases
    case (opens u)
    then have "c1 = c\<lparr>ctx_state := advance (ctx_state c) p\<rparr>"
      using eff effect_plain [of api l p rd c] by simp
    then have "ctx_turns c' = ctx_turns c @ [u]" "table_source (ctx_table c') = table_source (ctx_table c)"
      using land land_opens [OF opens] by auto
    then show ?thesis by (intro conjI exI [of _ "ctx_turns c"] exI [of _ "[u]"]) simp_all
  next
    case (extends us u)
    then have c1: "c1 = c\<lparr>ctx_state := advance (ctx_state c) p\<rparr>"
      using eff effect_plain [of api l p rd c] by simp
    have "c' = c1\<lparr>ctx_len := ctx_len c + 1, ctx_table := (ctx_table c)\<lparr>turns :=
        us @ [extended_turn api (Recorded l p) u]\<rparr>\<rparr>"
      using land land_extends [of "Recorded l p" "c1\<lparr>ctx_len := ctx_len c + 1\<rparr>" us u api] extends c1 by auto
    moreover have "list_all2 ?R (us @ [u]) (us @ [extended_turn api (Recorded l p) u])"
      using extends by (simp add: list_all2_append)
    ultimately show ?thesis
      using extends(2)
      by (intro conjI exI [of _ "us @ [extended_turn api (Recorded l p) u]"] exI [of _ "[]"]) simp_all
  next
    case neither
    have turns1: "ctx_turns c1 = ctx_turns c \<or>
        (\<exists>leaving un. ctx_turns c1 = map (depart_turn (table_source (ctx_table c)) leaving un) (ctx_turns c))"
      "table_source (ctx_table c1) = table_source (ctx_table c)"
      using effect_table [OF assms(2) eff] by (auto, metis+)
    then have "ctx_turns c1 = [] \<longleftrightarrow> ctx_turns c = []" by auto
    then have "c' = c1\<lparr>ctx_len := ctx_len c + 1\<rparr>"
      using land land_nothing [of api "Recorded l p" "c1\<lparr>ctx_len := ctx_len c + 1\<rparr>"] neither by auto
    moreover have "list_all2 ?R (ctx_turns c) (ctx_turns c1)"
      using turns1(1) by (auto simp: list_all2_conv_all_nth)
    ultimately show ?thesis
      using turns1(2) by (intro conjI exI [of _ "ctx_turns c1"] exI [of _ "[]"]) simp_all
  qed
qed

end
