(* ===== verification/Record_Properties.thy ===== *)
theory Record_Properties
  imports Record_Fork
begin

text \<open>
  The properties of a conversation's record: the invariant of its structure, what the context
  shows of it, what edits, forks and quiesces do, and that the writer and the fold agree.  The
  witnesses run the fold on a small log, whose messages are pairs of a flag (the assistant's) and
  a text and whose loci are numbers.
\<close>

section \<open>A sample log\<close>

definition sample_api :: "(bool \<times> bytes) chat_api" where
  "sample_api =
     \<lparr>user_message = \<lambda>t. (False, t), assistant_message = \<lambda>t. (True, t), tool_message = \<lambda>i t. (False, t),
      is_assistant = fst, is_user = \<lambda>m. \<not> fst m, json_len = \<lambda>m. length (snd m),
      first_text = \<lambda>m. Some (snd m), content_parts = \<lambda>_. [], debug_quoted = \<lambda>t. t\<rparr>"

definition prompt1 :: "(bool \<times> bytes, nat) transcript" where
  "prompt1 = UserPrompt 1 ''hi'' Human"

definition sample_reader :: "(bool \<times> bytes, nat) reader" where
  "sample_reader p = (if loci p = [0] then Some [prompt1] else None)"

definition sample_seam :: "(bool \<times> bytes, nat) seam" where
  "sample_seam = \<lparr>emit = \<lambda>p. Some 9, is_available = True\<rparr>"

definition sample_from :: "(bool \<times> bytes, nat) ctx \<Rightarrow> (bool \<times> bytes, nat) transcript list \<Rightarrow>
    fault + (bool \<times> bytes, nat) ctx" where
  "sample_from c ps = replay (\<lambda>c p. step_transcript sample_api sample_reader c (Recorded 0 p)) c ps"

definition sample :: "(bool \<times> bytes, nat) transcript list \<Rightarrow> (bool \<times> bytes, nat) ctx" where
  "sample ps = (case sample_from (context_new 7) ps of Inr c \<Rightarrow> c | Inl _ \<Rightarrow> context_new 0)"

lemma sample_from_live:
  "sample_from c ps = Inr c' \<Longrightarrow> live sample_api sample_reader c \<Longrightarrow>
     \<forall>p\<in>set ps. fits p \<and> \<not> is_link p \<Longrightarrow> live sample_api sample_reader c'"
proof (induction ps arbitrary: c)
  case (Cons p ps)
  then obtain c1 where "step_transcript sample_api sample_reader c (Recorded 0 p) = Inr c1"
      "sample_from c1 ps = Inr c'"
    by (auto simp: sample_from_def split: sum.splits)
  moreover have "live sample_api sample_reader c1"
    by (rule live.stepped [OF Cons.prems(2) _ _ \<open>step_transcript _ _ c _ = Inr c1\<close>])
      (use Cons.prems(3) in auto)
  ultimately show ?case using Cons.IH Cons.prems(3) by auto
qed (simp add: sample_from_def)

lemma sample_live:
  "\<forall>p\<in>set ps. fits p \<and> \<not> is_link p \<Longrightarrow> live sample_api sample_reader (sample ps)"
  using sample_from_live [of "context_new 7" ps, OF _ live.fresh]
  by (auto simp: sample_def live.fresh split: sum.splits)

definition reply2 :: "(bool \<times> bytes, nat) transcript" where
  "reply2 = AssistantMessage 2 (True, ''hello'') [] None"

definition prompt3 :: "(bool \<times> bytes, nat) transcript" where
  "prompt3 = UserPrompt 3 ''more'' Human"

definition calls2 :: "bytes list \<Rightarrow> (bool \<times> bytes, nat) transcript" where
  "calls2 ids = AssistantMessage 2 (True, ''run'') ids None"

lemma sample_fits [simp]:
  "fits prompt1" "fits reply2" "fits prompt3" "fits (calls2 ids)"
  "\<not> is_link prompt1" "\<not> is_link reply2" "\<not> is_link prompt3" "\<not> is_link (calls2 ids)"
  by (simp_all add: fits_def prompt1_def reply2_def prompt3_def calls2_def u64_max_def)

lemmas step_eval =
  step_transcript_def judge_def stale.simps extends.simps reach_def last_turn_def effect_def land_def
  open_turn_def absorb_def sat_add_def u64_max_def message_bytes_def Let_def is_resident_def
  turn_location_def awaits_assistant_def

lemma sample_prompt:
  "sample [prompt1] =
     \<lparr>ctx_table = \<lparr>turns = [\<lparr>turn_id = 1, turn_role = User, kind = Own, label = ''hi'',
          turn_bytes = 2, body = Here [Recorded 0 prompt1] None\<rparr>], evictions = [], table_source = 7\<rparr>,
      ctx_state = AwaitingAssistantAfterUser, ctx_system = [], ctx_len = 1, newest_edit = None\<rparr>"
  by (simp add: sample_def sample_from_def context_new_def table_new_def prompt1_def step_eval
      sample_api_def opening_line_def first_line_def OPENING_CHARS_def byte_in_def)

lemma sample_reply:
  "sample [prompt1, reply2] =
     \<lparr>ctx_table = \<lparr>turns =
        [\<lparr>turn_id = 1, turn_role = User, kind = Own, label = ''hi'', turn_bytes = 2,
           body = Here [Recorded 0 prompt1] None\<rparr>,
         \<lparr>turn_id = 2, turn_role = Assistant, kind = Own, label = ''hello'', turn_bytes = 5,
           body = Here [Recorded 0 reply2] None\<rparr>], evictions = [], table_source = 7\<rparr>,
      ctx_state = ReadyForUser, ctx_system = [], ctx_len = 2, newest_edit = None\<rparr>"
  by (simp add: sample_def sample_from_def context_new_def table_new_def prompt1_def reply2_def
      step_eval sample_api_def opening_line_def first_line_def OPENING_CHARS_def byte_in_def
      message_label_def)

lemma sample_calls:
  "ids \<noteq> [] \<Longrightarrow> sample [prompt1, calls2 ids] =
     \<lparr>ctx_table = \<lparr>turns =
        [\<lparr>turn_id = 1, turn_role = User, kind = Own, label = ''hi'', turn_bytes = 2,
           body = Here [Recorded 0 prompt1] None\<rparr>,
         \<lparr>turn_id = 2, turn_role = Assistant, kind = Own, label = ''run'', turn_bytes = 3,
           body = Here [Recorded 0 (calls2 ids)] None\<rparr>], evictions = [], table_source = 7\<rparr>,
      ctx_state = AwaitingToolResults ids, ctx_system = [], ctx_len = 2, newest_edit = None\<rparr>"
  by (simp add: sample_def sample_from_def context_new_def table_new_def prompt1_def calls2_def
      step_eval sample_api_def opening_line_def first_line_def OPENING_CHARS_def byte_in_def
      message_label_def)

lemma sample_lives [simp]:
  "live sample_api sample_reader (sample [])"
  "live sample_api sample_reader (sample [prompt1])"
  "live sample_api sample_reader (sample [prompt1, reply2])"
  "live sample_api sample_reader (sample [prompt1, calls2 ids])"
  by (rule sample_live, simp)+

lemma sample_reads_back:
  "\<forall>u\<in>set (ctx_turns (sample [prompt1])).
     reads_back sample_reader (table_source (ctx_table (sample [prompt1]))) u"
  by (simp add: sample_prompt reads_back_def own_pointer_def sample_reader_def)

lemma sample_prompt_ready [simp]: "is_ready (sample [prompt1])"
  by (simp add: sample_prompt is_ready_def)

lemma sample_room: "room (sample [prompt1, reply2])" "ids \<noteq> [] \<Longrightarrow> room (sample [prompt1, calls2 ids])"
  by (simp_all add: room_def sample_reply sample_calls reach_def last_turn_def u64_max_def)

lemma sample_seam_writes [simp]: "writes sample_seam"
  by (simp add: writes_def sample_seam_def)

section \<open>The structure\<close>

text \<open>
  C1. The structure of every context a session reaches: rows in strictly ascending 64-bit ids;
  evictions nested or apart, a later one never inside an earlier; a row that is not withdrawn
  stands under the smallest eviction covering it, or is resident where none does; and each
  eviction's own location is the one a link derives again from the spans.
\<close>

theorem record_structure_invariant:
  assumes "live api rd c"
  shows "sorted_wrt (<) (turn_ids (ctx_table c)) \<and>
    (\<forall>i\<in>set (turn_ids (ctx_table c)). i \<le> u64_max) \<and>
    laminar (eviction_spans (ctx_table c)) \<and>
    (\<forall>u\<in>set (ctx_turns c). \<not> is_withdrawn u \<longrightarrow>
       turn_location u = evicted_by (holder (single (turn_id u)) (eviction_spans (ctx_table c)))) \<and>
    evictions (ctx_table c) = install_evictions (ctx_turns c) (ctx_evictions c)"
  using table_okD(1-6) [OF ctx_table_ok [OF live_ok [OF assms]]]
  unfolding located_def ctx_evictions_def by blast

theorem record_structure_invariant_witness:
  "sorted_wrt (<) (turn_ids (ctx_table (sample [prompt1, reply2])))"
  using record_structure_invariant [OF sample_lives(3)] by blast

text \<open>
  C25. The context is a run of items in id order that lie apart, and each turn not withdrawn is
  in exactly one of them: itself where it is resident, the eviction that stands for it otherwise.
\<close>

theorem frontier_orders_and_covers:
  assumes "live api rd c"
  shows "sorted_wrt before (frontier (ctx_table c)) \<and>
    (\<forall>u\<in>set (ctx_turns c). \<not> is_withdrawn u \<longrightarrow>
       (\<exists>!i. i \<in> set (frontier (ctx_table c)) \<and> span_contains (item_span i) (turn_id u)))"
proof (intro conjI ballI impI)
  note ok = ctx_table_ok [OF live_ok [OF assms]]
  show "sorted_wrt before (frontier (ctx_table c))" by (rule frontier_sorted [OF ok])
  fix u assume "u \<in> set (ctx_turns c)" "\<not> is_withdrawn u"
  with turn_covered [OF ok] resident_items_apart [OF ok] apart_contains
  show "\<exists>!i. i \<in> set (frontier (ctx_table c)) \<and> span_contains (item_span i) (turn_id u)"
    by (metis (no_types, lifting))
qed

theorem frontier_orders_and_covers_witness:
  "sorted_wrt before (frontier (ctx_table (sample [prompt1, reply2])))"
  using frontier_orders_and_covers [OF sample_lives(3)] by blast

text \<open>
  While a batch of calls is out, the turn that made it is the newest row, resident, and its
  records leave the automaton where the log stands; every other resident turn owes no result.
  So no request ever carries a call without its answer but the one in hand.
\<close>

lemma only_the_newest_turn_owes_results:
  assumes "live api rd c"
  shows "(\<forall>u\<in>set (resident c). admits_new_turn (resting (turn_records u)) \<or>
      last_turn c = Some u \<and> resting (turn_records u) = ctx_state c) \<and>
    (\<forall>ids. ctx_state c = AwaitingToolResults ids \<longrightarrow> (\<exists>u. last_turn c = Some u \<and> is_resident u))"
  using ctx_settled [OF live_ok [OF assms]] ctx_in_hand [OF live_ok [OF assms]]
  by (auto simp: settled_def ready_admits)

section \<open>The fold\<close>

text \<open>
  No accepted record discards another: after any step but a link's, every row the structure
  had is still there, in place, under its id, role, kind and label, and its address in the logs
  names at least the records it named.
\<close>

lemma accepted_records_keep_rows:
  assumes "step_transcript api rd c (Recorded l p) = Inr c'" and "\<not> is_link p"
  shows "\<exists>vs ws. ctx_turns c' = vs @ ws \<and>
    list_all2 (row_kept (table_source (ctx_table c))) (ctx_turns c) vs"
  using step_keeps_rows [OF assms] by blast

text \<open>
  C23. The fold never panics: whatever the context and whatever the record, a step answers a
  refusal, an unreadable ancestor or a new context; the row a record lands on is resident and a
  link has a seed for each resident row.
\<close>

theorem step_never_panics: "step_transcript api rd c r \<noteq> Inl Panic"
proof (cases "judge api c (val r)")
  case (Inr u)
  then have j: "judge api c (val r) = Inr ()" by simp
  have "effect api rd c (val r) \<noteq> Inl Panic"
  proof (cases "is_link (val r)")
    case True
    then obtain ls es where p: "val r = transcript.Inherited ls es" by (cases "val r") auto
    show ?thesis
    proof (cases "read_seeds rd ls")
      case (Inl f)
      then show ?thesis using read_seeds_no_panic [of rd ls] by (auto simp: p effect_def)
    next
      case (Inr seeds)
      then obtain us where "install_turns api ls seeds = Some us"
        using install_turns_total [of ls seeds api] read_seeds_length [OF Inr] by auto
      with Inr show ?thesis by (simp add: p effect_def install_def)
    qed
  next
    case False
    then show ?thesis using effect_total [OF False, of api rd c] by auto
  qed
  moreover have "land api r (c1\<lparr>ctx_len := ctx_len c + 1\<rparr>) \<noteq> Inl Panic"
    if "effect api rd c (val r) = Inr c1" for c1
    using land_total [OF that j, of "locus r" "ctx_len c + 1"] by auto
  ultimately show ?thesis by (auto simp: step_transcript_def j split: sum.split)
qed (simp add: step_transcript_def)

text \<open>
  A batch of tool results is accepted exactly when the pending calls' ids are distinct and
  the results answer each of them once, in whatever order.
\<close>

lemma results_answer_each_call_once:
  "validate_result_ids pending results = Inr () \<longleftrightarrow>
     distinct pending \<and> distinct (map result_id results) \<and> set (map result_id results) = set pending"
  using validate_result_ids_iff [of pending results] by simp

section \<open>Edits\<close>

text \<open>
  C29. A rewind keeps the items before its anchor exactly as they were, in order, and withdraws
  the rest, even where an eviction held them.
\<close>

theorem rewind_keeps_what_came_before:
  assumes "live api rd c" and "step_transcript api rd c (Recorded l (Rewound a)) = Inr c'"
  shows "frontier (ctx_table c') = filter (\<lambda>i. span_from (item_span i) < a) (frontier (ctx_table c)) \<and>
    (\<forall>u\<in>set (ctx_turns c'). a \<le> turn_id u \<longrightarrow> is_withdrawn u)"
proof -
  have j: "judge api c (Rewound a) = Inr ()" and c': "ctx_table c' = withdraw a (ctx_table c)"
    using assms(2) by (auto simp: step_accepted effect_def land_def)
  then have "straddling (ctx_table c) a = None" by (auto simp: judge_ok)
  from frontier_withdraw [OF ctx_table_ok [OF live_ok [OF assms(1)]] this] show ?thesis
    by (auto simp: c' is_withdrawn_def depart_turn_location)
qed

theorem rewind_keeps_what_came_before_witness:
  "\<exists>c'. step_transcript sample_api sample_reader (sample [prompt1, reply2]) (Recorded 1 (Rewound 2)) = Inr c' \<and>
     frontier (ctx_table c') =
       filter (\<lambda>i. span_from (item_span i) < 2) (frontier (ctx_table (sample [prompt1, reply2])))"
proof -
  obtain c' where c': "step_transcript sample_api sample_reader (sample [prompt1, reply2]) (Recorded 1 (Rewound 2)) = Inr c'"
    by (simp add: sample_reply step_eval withdrawn_from_def find_turn_def is_withdrawn_def straddling_def)
  with rewind_keeps_what_came_before [OF sample_lives(3) c'] show ?thesis by blast
qed

text \<open>
  The span a forced eviction plans is one the judge accepts, whatever the context; recording it
  leaves one item in place of a prefix of the context, and what stays after it fits the budget, or
  is the newest item alone, which is never shed.
\<close>

lemma forced_eviction_fits:
  fixes c :: "('m, 'l) ctx"
  assumes "live api rd c" and "plan_forced_eviction api c keep = Some s"
  shows "resolve_cut c s = Inr () \<and>
    (\<exists>gone kept. frontier (ctx_table c) = gone @ kept \<and> gone \<noteq> [] \<and>
       frontier (evict (Eviction s n by_who) (ctx_table c)) =
         EvictionItem (Eviction s n by_who) Resident # kept \<and>
       (length kept = 1 \<or> sat_sum (map (item_bytes api) kept) \<le> keep))"
proof -
  note ok = ctx_table_ok [OF live_ok [OF assms(1)]]
  obtain gone kept where fr: "frontier (ctx_table c) = gone @ kept" "gone \<noteq> []" "kept \<noteq> []"
    and s: "s = prefix_span gone"
    and fits: "length kept = 1 \<or> sat_sum (map (item_bytes api) kept) \<le> keep"
    using plan_prefix [OF assms(2)] by blast
  have "resolve_cut c s = Inr ()" unfolding s by (rule prefix_cut [OF ok fr])
  moreover have "frontier (evict (Eviction s n by_who) (ctx_table c)) =
      EvictionItem (Eviction s n by_who) Resident # kept"
    by (rule prefix_evicted [OF ok _ fr]) (simp add: s)
  ultimately show ?thesis using fr fits by blast
qed

section \<open>The writer\<close>



text \<open>
  C26. A fork round trip: where each resident turn's pointer reads back what the turn recorded, the
  link a ready parent hands out is accepted by a fresh log, the child is a context a session
  reaches, and what it sends the provider is what the parent would.
\<close>

theorem fork_sees_what_its_parent_saw:
  assumes "live api rd p" and "is_ready p"
    and "\<forall>u\<in>set (ctx_turns p). reads_back rd (table_source (ctx_table p)) u"
  shows "\<exists>c. step_transcript api rd (context_new src) (Recorded l (inherited_context p)) = Inr c \<and>
    live api rd c \<and> is_ready c \<and> rendered api c = rendered api p"
  by (rule fork_reads_parent [OF assms])

theorem fork_sees_what_its_parent_saw_witness:
  "\<exists>c. step_transcript sample_api sample_reader (context_new 8)
         (Recorded 5 (inherited_context (sample [prompt1]))) = Inr c \<and>
       live sample_api sample_reader c \<and> is_ready c \<and>
       rendered sample_api c = rendered sample_api (sample [prompt1])"
  by (rule fork_sees_what_its_parent_saw [OF sample_lives(2) sample_prompt_ready sample_reads_back])

text \<open>
  Whether or not its records read back to the same text, a link that a fresh log accepts
  rebuilds the parent's structure: the same ids, the same place for every turn and every eviction,
  and the same address for every row.
\<close>

lemma fork_rebuilds_the_structure:
  assumes "live api rd p"
    and "step_transcript api rd (context_new src) (Recorded l (inherited_context p)) = Inr c"
  shows "turn_ids (ctx_table c) = turn_ids (ctx_table p) \<and>
    map turn_location (ctx_turns c) = map turn_location (ctx_turns p) \<and>
    evictions (ctx_table c) = evictions (ctx_table p) \<and>
    map address (linked c) = map address (linked p)"
  using fork_keeps [OF ctx_table_ok [OF live_ok [OF assms(1)]] assms(2)] by blast

text \<open>
  C30. A quiesce comes to rest: where the calls in flight have distinct ids and the seam writes,
  it commits every record it owes, and leaves a context that admits a new prompt, at
  \<open>ReadyForUser\<close> where the work ended on a reply.
\<close>

theorem quiesce_comes_to_rest:
  assumes "writes sm" and "live api rd c" and "room c"
    and "\<forall>t. is_assistant api (assistant_message api t)"
    and "\<forall>pending. ctx_state c = AwaitingToolResults pending \<longrightarrow> distinct pending"
  shows "\<exists>c'. quiesce api rd sm c reason = Inr c' \<and> live api rd c' \<and> is_ready c' \<and>
    (reason = Replied \<longrightarrow> ctx_state c' = ReadyForUser)"
  by (rule quiesce_rests [OF assms])

theorem quiesce_comes_to_rest_witness:
  "\<exists>c'. quiesce sample_api sample_reader sample_seam (sample [prompt1, calls2 [''a'', ''b'']]) Replied = Inr c' \<and>
     ctx_state c' = ReadyForUser"
proof -
  have "\<forall>t. is_assistant sample_api (assistant_message sample_api t)" by (simp add: sample_api_def)
  moreover have "\<forall>pending. ctx_state (sample [prompt1, calls2 [''a'', ''b'']]) = AwaitingToolResults pending \<longrightarrow>
      distinct pending"
    by (simp add: sample_calls)
  ultimately show ?thesis
    using quiesce_comes_to_rest [OF sample_seam_writes sample_lives(4) sample_room(2)] by blast
qed



end
