(* ===== verification/Log_Frame.thy ===== *)
theory Log_Frame
  imports Ral_Prelude "HOL-Library.Word"
begin

unbundle bit_operations_syntax

text \<open>
  One session's log as bytes (\<open>exarch/src/record/log.rs\<close>, the loci and commits of
  \<open>exarch/src/record.rs\<close>, \<open>record/non_empty.rs\<close>): the seal of a line, the lines of a file, the
  commits they hold, where a file is torn, and reading one record back by its locus.  JSON and
  BLAKE3 are the codec, a parameter; a file is its bytes, and a read that fails is not modelled.
\<close>

section \<open>Lists with a first element\<close>

datatype 'a non_empty = NonEmpty (ne_first: 'a) (ne_rest: "'a list")

definition ne_one :: "'a \<Rightarrow> 'a non_empty" where
  "ne_one x = NonEmpty x []"

fun ne_collect :: "'a list \<Rightarrow> 'a non_empty option" where
  "ne_collect [] = None"
| "ne_collect (x # xs) = Some (NonEmpty x xs)"

fun ne_iter :: "'a non_empty \<Rightarrow> 'a list" where
  "ne_iter (NonEmpty x xs) = x # xs"

lemma ne_iter_one [simp]: "ne_iter (ne_one x) = [x]"
  by (simp add: ne_one_def)

lemma ne_iter_not_Nil [simp]: "ne_iter n \<noteq> []"
  by (cases n) simp

lemma ne_collect_iter [simp]: "ne_collect (ne_iter n) = Some n"
  by (cases n) simp

lemma ne_collect_Some [simp]: "ne_collect xs = Some n \<longleftrightarrow> xs = ne_iter n"
  by (cases xs; cases n; auto)

lemma ne_collect_None [simp]: "ne_collect xs = None \<longleftrightarrow> xs = []"
  by (cases xs) auto

section \<open>Seals\<close>

type_synonym sum = "64 word"

text \<open>\<open>u64::from_be_bytes\<close>.\<close>

definition from_be_bytes :: "bytes \<Rightarrow> sum" where
  "from_be_bytes = foldl (\<lambda>w b. push_bit 8 w OR of_nat (of_char b)) 0"

definition hex_digit :: "nat \<Rightarrow> char" where
  "hex_digit d = (if d < 10 then char_of (48 + d) else char_of (87 + d))"

definition hex_value :: "char \<Rightarrow> nat option" where
  "hex_value c =
     (let v = of_char c in
      if 48 \<le> v \<and> v \<le> (57::nat) then Some (v - 48)
      else if 97 \<le> v \<and> v \<le> 102 then Some (v - 87) else None)"

fun hex :: "nat \<Rightarrow> nat \<Rightarrow> bytes" where
  "hex 0 v = []"
| "hex (Suc n) v = hex n (v div 16) @ [hex_digit (v mod 16)]"

definition show_sum :: "sum \<Rightarrow> bytes" where
  "show_sum s = hex 16 (unat s)"

definition read_hex :: "bytes \<Rightarrow> nat option" where
  "read_hex t =
     fold (\<lambda>c acc. case (acc, hex_value c) of (Some a, Some d) \<Rightarrow> Some (16 * a + d) | _ \<Rightarrow> None)
       t (Some 0)"

definition parse_sum :: "bytes \<Rightarrow> sum option" where
  "parse_sum t = (if length t \<noteq> 16 then None else map_option of_nat (read_hex t))"

text \<open>
  The serializer and the hash: a commit's body as JSON, a line's object, what an object of a line
  or of a body reads as, and the digest.  A line that reads as JSON of another shape is
  \<open>OtherShape\<close>; one with the fields of a line is \<open>SealedAs\<close> the text of its seal and its commit.
\<close>

datatype json_line = NotJson | OtherShape | SealedAs bytes bytes

record 'r codec =
  write_body :: "nat \<Rightarrow> 'r list \<Rightarrow> bytes option"
  write_line :: "bytes \<Rightarrow> bytes \<Rightarrow> bytes"
  read_line :: "bytes \<Rightarrow> json_line"
  read_body :: "bytes \<Rightarrow> 'r list option"
  digest :: "bytes \<Rightarrow> bytes"

definition sum_of :: "'r codec \<Rightarrow> bytes \<Rightarrow> sum" where
  "sum_of cd b = from_be_bytes (take 8 (digest cd b))"

datatype unsealed = BadSyntax | BadShape | BadSum bytes sum | BadRecords

fun damaged :: "unsealed \<Rightarrow> bool" where
  "damaged BadSyntax = True"
| "damaged (BadSum _ _) = True"
| "damaged BadShape = False"
| "damaged BadRecords = False"

definition seal :: "'r codec \<Rightarrow> nat \<Rightarrow> 'r list \<Rightarrow> (sum \<times> bytes) option" where
  "seal cd at_ms rs =
     (case write_body cd at_ms rs of
        None \<Rightarrow> None
      | Some b \<Rightarrow> Some (sum_of cd b, write_line cd (show_sum (sum_of cd b)) b))"

definition unseal :: "'r codec \<Rightarrow> bytes \<Rightarrow> unsealed + sum \<times> bytes" where
  "unseal cd line =
     (case read_line cd line of
        NotJson \<Rightarrow> Inl BadSyntax
      | OtherShape \<Rightarrow> Inl BadShape
      | SealedAs s b \<Rightarrow>
          (case parse_sum s of
             None \<Rightarrow> Inl (BadSum s (sum_of cd b))
           | Some w \<Rightarrow>
               if sum_of cd b = w then Inr (w, b) else Inl (BadSum (show_sum w) (sum_of cd b))))"

definition records_of :: "'r codec \<Rightarrow> bytes \<Rightarrow> unsealed + 'r non_empty" where
  "records_of cd b =
     (case read_body cd b of
        None \<Rightarrow> Inl BadRecords
      | Some rs \<Rightarrow> (case ne_collect rs of None \<Rightarrow> Inl BadRecords | Some n \<Rightarrow> Inr n))"

section \<open>Commits\<close>

datatype seq = Seq (seq_commit: nat) (seq_index: nat)

datatype locus = Locus (locus_seq: seq) (locus_start: nat) (locus_end: nat) (locus_sum: sum)

type_synonym 'r located = "locus \<times> 'r"
type_synonym 'r log_commit = "'r located non_empty"

definition commit_new :: "nat \<Rightarrow> nat \<Rightarrow> nat \<Rightarrow> sum \<Rightarrow> 'r non_empty \<Rightarrow> 'r log_commit" where
  "commit_new number b e s n =
     (let at_index = (\<lambda>i. Locus (Seq number i) b e s) in
      NonEmpty (at_index 0, ne_first n)
        (map (\<lambda>(i, r). (at_index i, r)) (enumerate 1 (ne_rest n))))"

definition commit_number :: "'r log_commit \<Rightarrow> nat" where
  "commit_number c = seq_commit (locus_seq (fst (ne_first c)))"

definition commit_end :: "'r log_commit \<Rightarrow> nat" where
  "commit_end c = locus_end (fst (ne_first c))"

definition holds :: "'r log_commit \<Rightarrow> locus \<Rightarrow> bool" where
  "holds c l \<longleftrightarrow>
     (let own = fst (ne_first c) in
      seq_commit (locus_seq own) = seq_commit (locus_seq l) \<and>
      locus_start own = locus_start l \<and> locus_end own = locus_end l \<and> locus_sum own = locus_sum l)"

definition commit_of ::
  "'r codec \<Rightarrow> sum \<Rightarrow> bytes \<Rightarrow> nat \<Rightarrow> nat \<Rightarrow> nat \<Rightarrow> unsealed + 'r log_commit" where
  "commit_of cd s body number b e = map_sum id (commit_new number b e s) (records_of cd body)"

section \<open>Lines of a file\<close>

abbreviation newline :: char where
  "newline \<equiv> CHR 0x0A"

text \<open>\<open>BufRead::read_until\<close>: through the first newline, or what is left.\<close>

fun break_line :: "bytes \<Rightarrow> bytes \<times> bytes" where
  "break_line [] = ([], [])"
| "break_line (c # s) = (if c = newline then ([c], s) else map_prod (Cons c) id (break_line s))"

lemma break_line_append [simp]: "fst (break_line s) @ snd (break_line s) = s"
  by (induction s) auto

lemma break_line_shorter: "s \<noteq> [] \<Longrightarrow> length (snd (break_line s)) < length s"
proof (induction s)
  case (Cons c s)
  then show ?case by (cases "s = []") auto
qed simp

lemma break_line_Nil_iff [simp]: "fst (break_line s) = [] \<longleftrightarrow> s = []"
  by (cases s) auto

function complete_len :: "'r codec \<Rightarrow> bytes \<Rightarrow> nat" where
  "complete_len cd s =
     (let (line, rest) = break_line s in
      if line = [] \<or> last line \<noteq> newline then 0
      else (case unseal cd (butlast line) of
              Inl f \<Rightarrow> if damaged f then 0 else length line + complete_len cd rest
            | Inr _ \<Rightarrow> length line + complete_len cd rest))"
  by pat_completeness auto
termination
proof (relation "measure (\<lambda>(cd, s). length s)", goal_cases)
  case (2 cd s x line rest)
  then have "(line, rest) = break_line s" and "s \<noteq> []" by auto
  then show ?case using break_line_shorter [of s] by (metis case_prod_conv in_measure snd_conv)
next
  case (3 cd s x line rest)
  then have "(line, rest) = break_line s" and "s \<noteq> []" by auto
  then show ?case using break_line_shorter [of s] by (metis case_prod_conv in_measure snd_conv)
qed simp

declare complete_len.simps [simp del]

text \<open>\<open>BufRead::split\<close> at newlines: each line less its newline, and a last one without.\<close>

definition strip_newline :: "bytes \<Rightarrow> bytes" where
  "strip_newline l = (if l \<noteq> [] \<and> last l = newline then butlast l else l)"

function split_lines :: "bytes \<Rightarrow> bytes list" where
  "split_lines s =
     (if s = [] then []
      else strip_newline (fst (break_line s)) # split_lines (snd (break_line s)))"
  by pat_completeness auto
termination
  by (relation "measure length") (auto simp: break_line_shorter)

declare split_lines.simps [simp del]

fun commits_of :: "'r codec \<Rightarrow> nat \<Rightarrow> nat \<Rightarrow> bytes list \<Rightarrow> ((nat \<times> unsealed) + 'r log_commit) list" where
  "commits_of cd number pos [] = []"
| "commits_of cd number pos (l # ls) =
     (let e = pos + length l + 1 in
      map_sum (Pair (number + 1)) id
        (case unseal cd l of
           Inl f \<Rightarrow> Inl f
         | Inr (s, body) \<Rightarrow> commit_of cd s body (number + 1) pos e)
      # commits_of cd (number + 1) e ls)"

definition commits_within ::
  "'r codec \<Rightarrow> bytes \<Rightarrow> nat \<Rightarrow> nat \<Rightarrow> nat \<Rightarrow> ((nat \<times> unsealed) + 'r log_commit) list" where
  "commits_within cd file number pos until =
     commits_of cd number pos (split_lines (take (until - pos) (drop pos file)))"

definition flatten :: "('e + 'r log_commit) list \<Rightarrow> ('e + 'r located) list" where
  "flatten cs =
     concat (map (\<lambda>c. case c of Inl e \<Rightarrow> [Inl e] | Inr n \<Rightarrow> map Inr (ne_iter n)) cs)"

definition read_log :: "'r codec \<Rightarrow> bytes \<Rightarrow> ((nat \<times> unsealed) + 'r located) list" where
  "read_log cd file = flatten (commits_within cd file 0 0 (complete_len cd file))"

text \<open>The number of commits on a file and its length, or where its torn tail starts.\<close>

definition extent :: "'r codec \<Rightarrow> bytes \<Rightarrow> nat + nat \<times> nat" where
  "extent cd file =
     (let complete = complete_len cd file in
      if complete < length file then Inl complete
      else Inr (length (split_lines file), length file))"

text \<open>What a torn file keeps, and what goes beside it.\<close>

definition quarantine_tail :: "'r codec \<Rightarrow> bytes \<Rightarrow> bytes \<times> bytes" where
  "quarantine_tail cd file =
     (let complete = complete_len cd file in (take complete file, drop complete file))"

section \<open>Reading by locus\<close>

datatype stale = WrongSum nat | Unparsed nat unsealed | NoSuchIndex nat nat

definition line_at :: "'r codec \<Rightarrow> bytes \<Rightarrow> locus \<Rightarrow> stale + 'r log_commit" where
  "line_at cd file l =
     (let number = seq_commit (locus_seq l);
          buf = take (locus_end l - locus_start l) (drop (locus_start l) file) in
      if buf = [] \<or> last buf \<noteq> newline then Inl (WrongSum number)
      else (case unseal cd (butlast buf) of
              Inl _ \<Rightarrow> Inl (WrongSum number)
            | Inr (s, body) \<Rightarrow>
                if s \<noteq> locus_sum l then Inl (WrongSum number)
                else map_sum (Unparsed number) id
                       (commit_of cd s body number (locus_start l) (locus_end l))))"

text \<open>The reader keeps the line it last read; each read gives the reader after it.\<close>

definition locus_record ::
  "'r codec \<Rightarrow> bytes \<Rightarrow> 'r log_commit option \<Rightarrow> locus \<Rightarrow> (stale + 'r) \<times> 'r log_commit option" where
  "locus_record cd file kept l =
     (case (case kept of
              Some c \<Rightarrow> if holds c l then Inr c else line_at cd file l
            | None \<Rightarrow> line_at cd file l) of
        Inl e \<Rightarrow> (Inl e, None)
      | Inr c \<Rightarrow>
          (let i = seq_index (locus_seq l) in
           (if i < length (ne_iter c) then Inr (snd (ne_iter c ! i))
            else Inl (NoSuchIndex i (seq_commit (locus_seq l))), Some c)))"

end
