(* ===== verification/Log_Frame_Facts.thy ===== *)
theory Log_Frame_Facts
  imports Log_Frame
begin

text \<open>
  The laws of the log's bytes: a sum reads back from its 16 digits, a sealed line unseals, what a
  file of whole lines reads as, and what is left of one cut anywhere.
\<close>

section \<open>Sums\<close>

lemma hex_value_digit [simp]: "d < 16 \<Longrightarrow> hex_value (hex_digit d) = Some d"
  by (auto simp: hex_value_def hex_digit_def Let_def)

lemma length_hex [simp]: "length (hex n v) = n"
  by (induction n arbitrary: v) auto

lemma read_hex_hex: "v < 16 ^ n \<Longrightarrow> read_hex (hex n v) = Some v"
proof (induction n arbitrary: v)
  case (Suc n)
  then have "v div 16 < 16 ^ n" by (simp add: less_mult_imp_div_less mult.commute)
  with Suc.IH have "read_hex (hex n (v div 16)) = Some (v div 16)" .
  then show ?case by (simp add: read_hex_def)
qed (simp add: read_hex_def)

lemma parse_show_sum [simp]: "parse_sum (show_sum s) = Some s"
proof -
  have "unat s < 2 ^ LENGTH(64)" by (rule unsigned_less)
  then have "unat s < 16 ^ 16" by simp
  then show ?thesis by (simp add: parse_sum_def show_sum_def read_hex_hex)
qed

section \<open>What the serializer promises\<close>

text \<open>
  A body reads back as the records written, a line as its fields, and a line is written without
  a raw newline (compact JSON escapes control characters in strings).
\<close>

definition codec_ok :: "'r codec \<Rightarrow> bool" where
  "codec_ok cd \<longleftrightarrow>
     (\<forall>at_ms rs b. write_body cd at_ms rs = Some b \<longrightarrow> read_body cd b = Some rs) \<and>
     (\<forall>at_ms rs b. write_body cd at_ms rs = Some b \<longrightarrow>
        (let s = show_sum (sum_of cd b) in
         newline \<notin> set (write_line cd s b) \<and> read_line cd (write_line cd s b) = SealedAs s b))"

lemma unseal_seal:
  assumes "codec_ok cd" and "seal cd at_ms rs = Some (s, line)"
  obtains b where "unseal cd line = Inr (s, b)" and "read_body cd b = Some rs"
    and "newline \<notin> set line"
proof -
  obtain b where b: "write_body cd at_ms rs = Some b" "s = sum_of cd b" "line = write_line cd (show_sum s) b"
    using assms(2) by (auto simp: seal_def split: option.splits)
  then show thesis
    using assms(1) that [of b] by (auto simp: codec_ok_def unseal_def Let_def)
qed

section \<open>Whole lines\<close>

definition joined :: "bytes list \<Rightarrow> bytes" where
  "joined ls = concat (map (\<lambda>l. l @ [newline]) ls)"

lemma joined_simps [simp]:
  "joined [] = []" "joined (l # ls) = l @ newline # joined ls"
  "joined (ls @ ms) = joined ls @ joined ms"
  by (simp_all add: joined_def)

lemma break_line_whole [simp]: "newline \<notin> set l \<Longrightarrow> break_line (l @ newline # r) = (l @ [newline], r)"
  by (induction l) auto

lemma break_line_torn: "newline \<notin> set t \<Longrightarrow> break_line t = (t, [])"
  by (induction t) auto

text \<open>A line no torn write could have left.\<close>

definition intact :: "'r codec \<Rightarrow> bytes \<Rightarrow> bool" where
  "intact cd l \<longleftrightarrow> newline \<notin> set l \<and> (case unseal cd l of Inl f \<Rightarrow> \<not> damaged f | Inr _ \<Rightarrow> True)"

lemma intact_no_newline: "intact cd l \<Longrightarrow> newline \<notin> set l"
  by (simp add: intact_def)

lemma complete_len_whole:
  "intact cd l \<Longrightarrow> complete_len cd (l @ newline # r) = length l + 1 + complete_len cd r"
  by (subst complete_len.simps, cases "unseal cd l") (simp_all add: intact_def)

lemma complete_len_damaged:
  assumes "newline \<notin> set l" and "\<not> intact cd l"
  shows "complete_len cd (l @ newline # r) = 0"
  using assms by (subst complete_len.simps, cases "unseal cd l") (simp_all add: intact_def)

lemma complete_len_torn: "newline \<notin> set t \<Longrightarrow> complete_len cd t = 0"
proof -
  assume t: "newline \<notin> set t"
  then have "t = [] \<or> last t \<noteq> newline" using last_in_set [of t] by fastforce
  with t show ?thesis by (subst complete_len.simps) (auto simp: break_line_torn)
qed

lemma complete_len_joined:
  "\<forall>l\<in>set ls. intact cd l \<Longrightarrow> complete_len cd (joined ls @ r) = length (joined ls) + complete_len cd r"
  by (induction ls) (auto simp: complete_len_whole)

lemma split_lines_joined: "\<forall>l\<in>set ls. newline \<notin> set l \<Longrightarrow> split_lines (joined ls) = ls"
proof (induction ls)
  case Nil
  show ?case by (simp add: split_lines.simps [of "[]"])
next
  case (Cons l ls)
  then show ?case by (subst split_lines.simps) (auto simp: strip_newline_def)
qed

text \<open>Every file is whole lines and a tail without a newline.\<close>

lemma file_lines:
  obtains ls t where "s = joined ls @ t" and "\<forall>l\<in>set ls. newline \<notin> set l" and "newline \<notin> set t"
proof -
  have "\<exists>ls t. s = joined ls @ t \<and> (\<forall>l\<in>set ls. newline \<notin> set l) \<and> newline \<notin> set t"
  proof (induction s rule: length_induct)
    case (1 s)
    show ?case
    proof (cases "newline \<in> set s")
      case False
      then show ?thesis by (intro exI [of _ "[]"] exI [of _ s]) simp
    next
      case True
      then obtain l r where s: "s = l @ newline # r" "newline \<notin> set l" by (meson split_list_first)
      then obtain ls t where "r = joined ls @ t" "\<forall>l\<in>set ls. newline \<notin> set l" "newline \<notin> set t"
        using 1 [rule_format, of r] by auto
      with s show ?thesis by (intro exI [of _ "l # ls"] exI [of _ t]) simp
    qed
  qed
  then show thesis using that by blast
qed

text \<open>The prefix before the first damaged line is whole intact lines.\<close>

lemma complete_prefix:
  obtains ls r where "s = joined ls @ r" and "complete_len cd s = length (joined ls)"
    and "\<forall>l\<in>set ls. intact cd l" and "complete_len cd r = 0"
proof -
  obtain ms t where s: "s = joined ms @ t" "\<forall>l\<in>set ms. newline \<notin> set l" "newline \<notin> set t"
    by (rule file_lines)
  define ls where "ls = takeWhile (intact cd) ms"
  define rs where "rs = dropWhile (intact cd) ms"
  have ls: "\<forall>l\<in>set ls. intact cd l" by (auto simp: ls_def dest: set_takeWhileD)
  have split: "s = joined ls @ joined rs @ t"
    using s(1) by (simp add: ls_def rs_def flip: append_assoc joined_simps(3))
  have "complete_len cd (joined rs @ t) = 0"
  proof (cases rs)
    case Nil
    then show ?thesis using s(3) by (simp add: complete_len_torn)
  next
    case (Cons l rs')
    then have "\<not> intact cd l" and "l \<in> set ms"
      by (auto simp: rs_def dropWhile_eq_Cons_conv) (metis in_set_conv_decomp set_dropWhileD list.set_intros(1))
    with s(2) Cons show ?thesis by (simp add: complete_len_damaged)
  qed
  with that [OF split _ ls] complete_len_joined [OF ls] split show thesis by simp
qed

lemma complete_len_le: "complete_len cd s \<le> length s"
  by (rule complete_prefix [of s cd]) simp

lemma complete_len_of_prefix [simp]:
  "complete_len cd (take (complete_len cd s) s) = complete_len cd s"
proof (rule complete_prefix [of s cd])
  fix ls r
  assume a: "s = joined ls @ r" "complete_len cd s = length (joined ls)" "\<forall>l\<in>set ls. intact cd l"
  then show ?thesis using complete_len_joined [OF a(3), of "[]"] by (simp add: complete_len_torn)
qed

text \<open>A quarantined file ends at a whole commit, and nothing of the file is lost.\<close>

lemma quarantine_whole:
  assumes "quarantine_tail cd s = (live, tail)"
  shows "live @ tail = s" and "complete_len cd live = length live"
    and "extent cd live = Inr (length (split_lines live), length live)"
proof -
  have "live = take (complete_len cd s) s" "tail = drop (complete_len cd s) s"
    using assms by (auto simp: quarantine_tail_def Let_def)
  then show "live @ tail = s" and c: "complete_len cd live = length live"
    using complete_len_le [of cd s] by simp_all
  then show "extent cd live = Inr (length (split_lines live), length live)"
    by (simp add: extent_def)
qed

text \<open>What is left of whole lines cut at a byte.\<close>

lemma take_joined:
  assumes "\<forall>l\<in>set ls. newline \<notin> set l"
  obtains k t where "take n (joined ls) = joined (take k ls) @ t" and "newline \<notin> set t" and "k \<le> length ls"
    and "\<forall>m\<le>length ls. length (joined (take m ls)) \<le> n \<longrightarrow> m \<le> k"
proof -
  have "\<exists>k t. take n (joined ls) = joined (take k ls) @ t \<and> newline \<notin> set t \<and> k \<le> length ls \<and>
    (\<forall>m\<le>length ls. length (joined (take m ls)) \<le> n \<longrightarrow> m \<le> k)"
    using assms
  proof (induction ls arbitrary: n)
    case (Cons l ls)
    show ?case
    proof (cases "n \<le> length l")
      case True
      have "\<forall>m\<le>length (l # ls). length (joined (take m (l # ls))) \<le> n \<longrightarrow> m \<le> 0"
        using True by (auto simp: take_Cons split: nat.splits)
      moreover have "newline \<notin> set (take n l)" using Cons.prems by (auto dest: in_set_takeD)
      ultimately show ?thesis
        using True by (intro exI [of _ 0] exI [of _ "take n l"]) simp
    next
      case False
      then obtain d where n: "n = length l + 1 + d" using less_imp_Suc_add by fastforce
      obtain k t where k: "take d (joined ls) = joined (take k ls) @ t" "newline \<notin> set t" "k \<le> length ls"
        "\<forall>m\<le>length ls. length (joined (take m ls)) \<le> d \<longrightarrow> m \<le> k"
        using Cons by (metis list.set_intros(2))
      have "\<forall>m\<le>length (l # ls). length (joined (take m (l # ls))) \<le> n \<longrightarrow> m \<le> Suc k"
        using k(4) n by (auto simp: take_Cons split: nat.splits)
      with k n show ?thesis by (intro exI [of _ "Suc k"] exI [of _ t]) simp
    qed
  qed simp
  then show thesis using that by blast
qed

section \<open>Commits of whole lines\<close>

text \<open>The commits a run of lines holds, from a number and a byte on.\<close>

fun framed :: "'r codec \<Rightarrow> nat \<Rightarrow> nat \<Rightarrow> bytes list \<Rightarrow> 'r log_commit list \<Rightarrow> bool" where
  "framed cd n p [] cs \<longleftrightarrow> cs = []"
| "framed cd n p (l # ls) cs \<longleftrightarrow>
     newline \<notin> set l \<and>
     (\<exists>s b rs cs'. unseal cd l = Inr (s, b) \<and> records_of cd b = Inr rs \<and>
        cs = commit_new (n + 1) p (p + length l + 1) s rs # cs' \<and>
        framed cd (n + 1) (p + length l + 1) ls cs')"

lemma framed_length: "framed cd n p ls cs \<Longrightarrow> length cs = length ls"
  by (induction ls arbitrary: n p cs) auto

lemma framed_intact: "framed cd n p ls cs \<Longrightarrow> \<forall>l\<in>set ls. intact cd l"
  by (induction ls arbitrary: n p cs) (auto simp: intact_def)

lemma framed_commits: "framed cd n p ls cs \<Longrightarrow> commits_of cd n p ls = map Inr cs"
  by (induction ls arbitrary: n p cs) (auto simp: commit_of_def)

lemma framed_take: "framed cd n p ls cs \<Longrightarrow> framed cd n p (take k ls) (take k cs)"
  by (induction ls arbitrary: n p cs k) (auto simp: take_Cons split: nat.splits)

lemma framed_snoc:
  "framed cd n p ls cs \<Longrightarrow> newline \<notin> set l \<Longrightarrow> unseal cd l = Inr (s, b) \<Longrightarrow> records_of cd b = Inr rs \<Longrightarrow>
     framed cd n p (ls @ [l])
       (cs @ [commit_new (n + length ls + 1) (p + length (joined ls))
                (p + length (joined ls) + length l + 1) s rs])"
proof (induction ls arbitrary: n p cs)
  case (Cons m ls)
  from Cons.prems(1) obtain sa ba ra cs' where m: "newline \<notin> set m" "unseal cd m = Inr (sa, ba)"
    "records_of cd ba = Inr ra" "cs = commit_new (n + 1) p (p + length m + 1) sa ra # cs'"
    "framed cd (n + 1) (p + length m + 1) ls cs'" by auto
  have "framed cd (n + 1) (p + length m + 1) (ls @ [l])
      (cs' @ [commit_new (n + 1 + length ls + 1) (p + length m + 1 + length (joined ls))
                (p + length m + 1 + length (joined ls) + length l + 1) s rs])"
    using Cons.IH [OF m(5) Cons.prems(2-4)] .
  with m show ?case by (simp add: algebra_simps)
qed simp

text \<open>A file of framed lines, whatever torn tail follows, reads as their records in order.\<close>

lemma read_framed:
  assumes "framed cd 0 0 ls cs" and "complete_len cd t = 0"
  shows "read_log cd (joined ls @ t) = map Inr (concat (map ne_iter cs))"
proof -
  have i: "\<forall>l\<in>set ls. intact cd l" using framed_intact [OF assms(1)] .
  then have "complete_len cd (joined ls @ t) = length (joined ls)"
    using complete_len_joined [OF i, of t] assms(2) by simp
  moreover have "split_lines (joined ls) = ls"
    using i intact_no_newline by (intro split_lines_joined) blast
  ultimately have "commits_within cd (joined ls @ t) 0 0 (complete_len cd (joined ls @ t)) = map Inr cs"
    using framed_commits [OF assms(1)] by (simp add: commits_within_def)
  then show ?thesis by (simp add: read_log_def flatten_def o_def map_concat)
qed

lemma quarantine_framed:
  assumes "framed cd 0 0 ls cs" and "newline \<notin> set t"
  shows "quarantine_tail cd (joined ls @ t) = (joined ls, t)"
  using complete_len_joined [OF framed_intact [OF assms(1)], of t] complete_len_torn [OF assms(2), of cd]
  by (simp add: quarantine_tail_def)

section \<open>Records by locus\<close>

lemma commit_records:
  "ne_iter (commit_new n b e s rs) =
     map (\<lambda>(i, r). (Locus (Seq n i) b e s, r)) (enumerate 0 (ne_iter rs))"
  by (cases rs) (simp add: commit_new_def Let_def)

lemma commit_first [simp]: "fst (ne_first (commit_new n b e s rs)) = Locus (Seq n 0) b e s"
  by (simp add: commit_new_def Let_def)

lemma commit_number_new [simp]: "commit_number (commit_new n b e s rs) = n"
  by (simp add: commit_number_def)

lemma commit_end_new [simp]: "commit_end (commit_new n b e s rs) = e"
  by (simp add: commit_end_def)

lemma framed_nth:
  "framed cd n p ls cs \<Longrightarrow> c \<in> set cs \<Longrightarrow>
     \<exists>us l vs s b rs. ls = us @ l # vs \<and> newline \<notin> set l \<and> unseal cd l = Inr (s, b) \<and>
       records_of cd b = Inr rs \<and>
       c = commit_new (n + length us + 1) (p + length (joined us))
             (p + length (joined us) + length l + 1) s rs"
proof (induction ls arbitrary: n p cs)
  case (Cons m ls)
  then obtain s b rs cs' where m: "newline \<notin> set m" "unseal cd m = Inr (s, b)" "records_of cd b = Inr rs"
    "cs = commit_new (n + 1) p (p + length m + 1) s rs # cs'"
    "framed cd (n + 1) (p + length m + 1) ls cs'" by auto
  show ?case
  proof (cases "c = commit_new (n + 1) p (p + length m + 1) s rs")
    case True
    with m show ?thesis
      by (intro exI [of _ "[]"] exI [of _ m] exI [of _ ls] exI [of _ s] exI [of _ b] exI [of _ rs]) simp
  next
    case False
    with Cons.prems(2) m(4) have "c \<in> set cs'" by simp
    then obtain us l vs s' b' rs' where "ls = us @ l # vs" "newline \<notin> set l" "unseal cd l = Inr (s', b')"
      "records_of cd b' = Inr rs'"
      "c = commit_new (n + 1 + length us + 1) (p + length m + 1 + length (joined us))
             (p + length m + 1 + length (joined us) + length l + 1) s' rs'"
      using Cons.IH [OF m(5)] by blast
    then show ?thesis
      by (intro exI [of _ "m # us"] exI [of _ l] exI [of _ vs] exI [of _ s'] exI [of _ b'] exI [of _ rs'])
        (simp add: add.assoc)
  qed
qed simp

lemma line_at_framed:
  assumes "framed cd 0 0 ls cs" and "c \<in> set cs" and "(l, r) \<in> set (ne_iter c)"
  shows "line_at cd (joined ls @ t) l = Inr c"
proof -
  obtain us m vs s b rs where at_line: "ls = us @ m # vs" "newline \<notin> set m" "unseal cd m = Inr (s, b)"
    "records_of cd b = Inr rs"
    "c = commit_new (length us + 1) (length (joined us)) (length (joined us) + length m + 1) s rs"
    using framed_nth [OF assms(1,2)] by auto
  then obtain i where
    "l = Locus (Seq (length us + 1) i) (length (joined us)) (length (joined us) + length m + 1) s"
    using assms(3) by (auto simp: commit_records)
  with at_line show ?thesis
    by (simp add: line_at_def commit_of_def)
qed

text \<open>A reader's kept line is one of the file it reads.\<close>

definition reader_ok :: "'r codec \<Rightarrow> bytes \<Rightarrow> 'r log_commit option \<Rightarrow> bool" where
  "reader_ok cd file kept \<longleftrightarrow>
     (\<forall>c l. kept = Some c \<longrightarrow> holds c l \<longrightarrow> line_at cd file l = Inr c)"

lemma holds_new: "holds (commit_new n b e s rs) l \<longleftrightarrow> (\<exists>i. l = Locus (Seq n i) b e s)"
  by (cases l; cases "locus_seq l") (auto simp: holds_def)

lemma line_at_new: "line_at cd file l = Inr c \<Longrightarrow>
    \<exists>b rs. c = commit_new (seq_commit (locus_seq l)) (locus_start l) (locus_end l) (locus_sum l) rs \<and>
      unseal cd (butlast (take (locus_end l - locus_start l) (drop (locus_start l) file))) = Inr (locus_sum l, b) \<and>
      records_of cd b = Inr rs"
  by (cases "records_of cd (snd (projr (unseal cd (butlast (take (locus_end l - locus_start l) (drop (locus_start l) file))))))")
    (auto simp: line_at_def commit_of_def Let_def split: if_splits sum.splits prod.splits)

lemma line_at_same_line:
  "line_at cd file (Locus (Seq n i) b e s) = line_at cd file (Locus (Seq n j) b e s)"
  by (simp add: line_at_def cong: if_cong sum.case_cong)

lemma line_at_kept:
  fixes c :: "'r log_commit"
  assumes c: "line_at cd file l = Inr c"
  shows "reader_ok cd file (Some c)"
proof -
  obtain n i b e s where l: "l = Locus (Seq n i) b e s" by (metis locus.exhaust seq.exhaust)
  have "line_at cd file (Locus (Seq n j) b e s) = Inr c" for j
    using c unfolding l by (metis line_at_same_line)
  with l show ?thesis
    using line_at_new [OF c] by (auto simp: reader_ok_def holds_new)
qed

lemma reader_ok_None [simp]: "reader_ok cd file None"
  by (simp add: reader_ok_def)

text \<open>A reader answers what the line of a locus holds, whichever line it kept.\<close>

lemma locus_record_reads:
  assumes "reader_ok cd file kept" and "locus_record cd file kept l = (a, kept')"
  shows "a = (case line_at cd file l of
                Inl e \<Rightarrow> Inl e
              | Inr c \<Rightarrow> (if seq_index (locus_seq l) < length (ne_iter c)
                          then Inr (snd (ne_iter c ! seq_index (locus_seq l)))
                          else Inl (NoSuchIndex (seq_index (locus_seq l)) (seq_commit (locus_seq l)))))"
    and "reader_ok cd file kept'"
proof -
  have line: "(case kept of Some c \<Rightarrow> if holds c l then Inr c else line_at cd file l
      | None \<Rightarrow> line_at cd file l) = line_at cd file l"
    using assms(1) by (auto simp: reader_ok_def split: option.splits)
  show "a = (case line_at cd file l of
                Inl e \<Rightarrow> Inl e
              | Inr c \<Rightarrow> (if seq_index (locus_seq l) < length (ne_iter c)
                          then Inr (snd (ne_iter c ! seq_index (locus_seq l)))
                          else Inl (NoSuchIndex (seq_index (locus_seq l)) (seq_commit (locus_seq l)))))"
    using assms(2) unfolding locus_record_def line by (auto simp: Let_def split: sum.splits)
  show "reader_ok cd file kept'"
    using assms(2) line_at_kept unfolding locus_record_def line by (auto simp: Let_def split: sum.splits)
qed

end
