(* ===== verification/Log_Writer.thy ===== *)
theory Log_Writer
  imports Log_Frame_Facts
begin

text \<open>
  The one writer of a log (\<open>Log\<close> of \<open>exarch/src/record/log.rs\<close>, the latch of
  \<open>core/src/process/fatal.rs\<close>): appending a sealed line and publishing it under one lock, the
  failure that ends the writer, and a sync, whose disk write holds no append lock and so is three
  steps that other threads' steps may come between.  The file is its bytes; what an append or a
  sync of the operating system answers is an argument.
\<close>

section \<open>State\<close>

datatype cause = Serializing | Writing | Syncing | LockTorn

datatype failure = Recording cause bool | CellPoisoned

datatype 'r signal = Landed "'r log_commit" | SyncedThrough nat

record 'r log =
  log_file :: bytes
  commits :: nat
  log_pos :: nat
  synced :: nat
  failure :: "failure option"
  poisoned :: bool
  sink :: "'r signal list option"

definition log_over :: "bytes \<Rightarrow> nat \<Rightarrow> nat \<Rightarrow> 'r log" where
  "log_over f n p =
     \<lparr>log_file = f, commits = n, log_pos = p, synced = 0, failure = None, poisoned = False, sink = None\<rparr>"

definition log_create :: "'r log" where
  "log_create = log_over [] 0 0"

definition log_append_to :: "'r codec \<Rightarrow> bytes \<Rightarrow> nat + 'r log" where
  "log_append_to cd f = map_sum id (\<lambda>(n, p). log_over f n p) (extent cd f)"

section \<open>Operations under the append lock\<close>

definition latch :: "failure \<Rightarrow> 'r log \<Rightarrow> failure \<times> 'r log" where
  "latch f lg =
     (case failure lg of
        Some g \<Rightarrow> (g, lg)
      | None \<Rightarrow> (f, lg\<lparr>failure := Some f\<rparr>))"

definition refusing :: "failure \<Rightarrow> 'r log \<Rightarrow> (failure + 'a) \<times> 'r log" where
  "refusing f lg = (Inl (fst (latch f lg)), snd (latch f lg))"

definition check_available :: "'r log \<Rightarrow> (failure + unit) \<times> 'r log" where
  "check_available lg =
     (if poisoned lg then refusing (Recording LockTorn False) lg
      else (case failure lg of Some f \<Rightarrow> (Inl f, lg) | None \<Rightarrow> (Inr (), lg)))"

definition published :: "'r signal \<Rightarrow> 'r log \<Rightarrow> 'r log" where
  "published s lg = lg\<lparr>sink := map_option (\<lambda>ss. ss @ [s]) (sink lg)\<rparr>"

text \<open>
  \<open>wr\<close> is what \<open>write_all\<close> answers: \<open>None\<close>, or an error after that many bytes, which leaves at
  least the last byte of the line, its newline, unwritten.
\<close>

definition append_line ::
  "'r codec \<Rightarrow> nat \<Rightarrow> nat option \<Rightarrow> 'r non_empty \<Rightarrow> 'r log \<Rightarrow> (failure + 'r log_commit) \<times> 'r log" where
  "append_line cd now wr rs lg =
     (if poisoned lg then refusing (Recording LockTorn False) lg
      else (case failure lg of
              Some f \<Rightarrow> (Inl f, lg)
            | None \<Rightarrow>
                (case seal cd now (ne_iter rs) of
                   None \<Rightarrow> refusing (Recording Serializing False) lg
                 | Some (s, line) \<Rightarrow>
                     (case wr of
                        Some k \<Rightarrow>
                          refusing (Recording Writing False) (lg\<lparr>log_file := log_file lg @ take k line\<rparr>)
                      | None \<Rightarrow>
                          let start = log_pos lg;
                              lg' = lg\<lparr>log_file := log_file lg @ line @ [newline],
                                       log_pos := start + length line + 1,
                                       commits := commits lg + 1\<rparr>;
                              c = commit_new (commits lg') start (log_pos lg') s rs in
                          (Inr c, published (Landed c) lg')))))"

definition attach :: "'r log \<Rightarrow> 'r log" where
  "attach lg = (if poisoned lg then lg else lg\<lparr>sink := Some [SyncedThrough (synced lg)]\<rparr>)"

datatype cursor = Cursor (cursor_commit: nat) (cursor_end: nat)

definition cursor_start :: cursor where
  "cursor_start = Cursor 0 0"

definition past :: "'r log_commit \<Rightarrow> cursor" where
  "past c = Cursor (commit_number c) (commit_end c)"

definition since ::
  "'r codec \<Rightarrow> cursor option \<Rightarrow> 'r log
    \<Rightarrow> (cursor \<times> nat \<times> ((nat \<times> unsealed) + 'r log_commit) list) option" where
  "since cd after lg =
     (if poisoned lg then None
      else let from_cursor = (case after of None \<Rightarrow> cursor_start | Some c \<Rightarrow> c) in
           Some (from_cursor, synced lg,
             commits_within cd (log_file lg) (cursor_commit from_cursor) (cursor_end from_cursor) (log_pos lg)))"

section \<open>A sync\<close>

text \<open>The commits to sync, noted under the lock: none, where all are synced.\<close>

definition sync_note :: "'r log \<Rightarrow> (failure + nat option) \<times> 'r log" where
  "sync_note lg =
     (case check_available lg of
        (Inl f, lg') \<Rightarrow> (Inl f, lg')
      | (Inr _, lg') \<Rightarrow> (Inr (if commits lg' = synced lg' then None else Some (commits lg')), lg'))"

text \<open>The syncing lock is held: whether the disk write is still to be made.\<close>

definition sync_enter :: "nat \<Rightarrow> 'r log \<Rightarrow> (failure + bool) \<times> 'r log" where
  "sync_enter through lg =
     (case check_available lg of
        (Inl f, lg') \<Rightarrow> (Inl f, lg')
      | (Inr _, lg') \<Rightarrow> (Inr (synced lg' < through), lg'))"

definition sync_failed :: "'r log \<Rightarrow> failure \<times> 'r log" where
  "sync_failed lg = latch (Recording Syncing True) lg"

definition sync_finish :: "nat \<Rightarrow> 'r log \<Rightarrow> (failure + unit) \<times> 'r log" where
  "sync_finish through lg =
     (case check_available lg of
        (Inl f, lg') \<Rightarrow> (Inl f, lg')
      | (Inr _, lg') \<Rightarrow>
          let n = max (synced lg') through in (Inr (), published (SyncedThrough n) (lg'\<lparr>synced := n\<rparr>)))"

section \<open>Threads over one log\<close>

text \<open>
  A log with its threads: the bytes of its file that the disk keeps, the prefixes threads have
  noted to sync, and the thread that holds the syncing lock, with whether its disk write is made.
\<close>

record 'r world =
  the_log :: "'r log"
  durable :: nat
  noted :: "nat list"
  flushing :: "(nat \<times> bool) option"

definition world_over :: "'r log \<Rightarrow> 'r world" where
  "world_over lg = \<lparr>the_log = lg, durable = 0, noted = [], flushing = None\<rparr>"

text \<open>The steps that take no commit: failed appends, publishers, panics and the phases of a sync.\<close>

inductive quiet :: "'r codec \<Rightarrow> 'r world \<Rightarrow> 'r world \<Rightarrow> bool" for cd where
  refused: "append_line cd now wr rs (the_log w) = (Inl f, lg) \<Longrightarrow> quiet cd w (w\<lparr>the_log := lg\<rparr>)"
| attached: "quiet cd w (w\<lparr>the_log := attach (the_log w)\<rparr>)"
| panicked: "quiet cd w (w\<lparr>the_log := (the_log w)\<lparr>poisoned := True\<rparr>\<rparr>)"
| note_taken: "sync_note (the_log w) = (Inr (Some n), lg) \<Longrightarrow>
    quiet cd w (w\<lparr>the_log := lg, noted := n # noted w\<rparr>)"
| entered: "n \<in> set (noted w) \<Longrightarrow> flushing w = None \<Longrightarrow> sync_enter n (the_log w) = (Inr True, lg) \<Longrightarrow>
    quiet cd w (w\<lparr>the_log := lg, noted := remove1 n (noted w), flushing := Some (n, False)\<rparr>)"
| flushed: "flushing w = Some (n, False) \<Longrightarrow>
    quiet cd w (w\<lparr>durable := length (log_file (the_log w)), flushing := Some (n, True)\<rparr>)"
| flush_failed: "flushing w = Some (n, False) \<Longrightarrow>
    quiet cd w (w\<lparr>the_log := snd (sync_failed (the_log w)), flushing := None\<rparr>)"
| finished: "flushing w = Some (n, True) \<Longrightarrow> sync_finish n (the_log w) = (res, lg) \<Longrightarrow>
    quiet cd w (w\<lparr>the_log := lg, flushing := None\<rparr>)"

text \<open>Every order in which threads append and sync, with the commits the log has taken.\<close>

inductive written :: "'r codec \<Rightarrow> 'r world \<Rightarrow> 'r log_commit list \<Rightarrow> bool" for cd where
  opened: "log_append_to cd f = Inr lg \<Longrightarrow> commits_within cd f 0 0 (log_pos lg) = map Inr cs \<Longrightarrow>
    written cd (world_over lg) cs"
| appended: "written cd w cs \<Longrightarrow> append_line cd now wr rs (the_log w) = (Inr c, lg) \<Longrightarrow>
    written cd (w\<lparr>the_log := lg\<rparr>) (cs @ [c])"
| stepped: "written cd w cs \<Longrightarrow> quiet cd w w' \<Longrightarrow> written cd w' cs"

section \<open>What every log keeps\<close>

text \<open>
  The file is the lines of the commits taken, then what a failed write left; the counters are the
  file's; a publisher attached is told of each commit since, in order.
\<close>

definition log_ok :: "'r codec \<Rightarrow> 'r log \<Rightarrow> 'r log_commit list \<Rightarrow> bytes list \<Rightarrow> bool" where
  "log_ok cd lg cs ls \<longleftrightarrow>
     framed cd 0 0 ls cs \<and> commits lg = length cs \<and> log_pos lg = length (joined ls) \<and>
     (\<exists>t. log_file lg = joined ls @ t \<and> newline \<notin> set t \<and> (t \<noteq> [] \<longrightarrow> failure lg \<noteq> None)) \<and>
     synced lg \<le> length cs \<and>
     (\<forall>ss. sink lg = Some ss \<longrightarrow>
        (\<exists>k. List.map_filter (\<lambda>s. case s of Landed c \<Rightarrow> Some c | _ \<Rightarrow> None) ss = drop k cs))"

definition world_ok :: "'r codec \<Rightarrow> 'r world \<Rightarrow> 'r log_commit list \<Rightarrow> bytes list \<Rightarrow> bool" where
  "world_ok cd w cs ls \<longleftrightarrow>
     log_ok cd (the_log w) cs ls \<and> durable w \<le> length (log_file (the_log w)) \<and>
     length (joined (take (synced (the_log w)) ls)) \<le> durable w \<and>
     (\<forall>n\<in>set (noted w). n \<le> length cs) \<and>
     (\<forall>n b. flushing w = Some (n, b) \<longrightarrow> n \<le> length cs \<and> (b \<longrightarrow> length (joined (take n ls)) \<le> durable w))"

lemma latch_log [simp]:
  "log_file (snd (latch f lg)) = log_file lg" "commits (snd (latch f lg)) = commits lg"
  "log_pos (snd (latch f lg)) = log_pos lg" "synced (snd (latch f lg)) = synced lg"
  "sink (snd (latch f lg)) = sink lg" "failure (snd (latch f lg)) \<noteq> None"
  by (auto simp: latch_def split: option.splits)

lemma log_ok_latch: "log_ok cd lg cs ls \<Longrightarrow> log_ok cd (snd (latch f lg)) cs ls"
  by (auto simp: log_ok_def)

lemma log_ok_check: "log_ok cd lg cs ls \<Longrightarrow> log_ok cd (snd (check_available lg)) cs ls"
  by (auto simp: check_available_def refusing_def log_ok_latch split: option.splits)

lemma check_available_ok: "check_available lg = (Inr u, lg') \<Longrightarrow> lg' = lg \<and> failure lg = None \<and> \<not> poisoned lg"
  by (auto simp: check_available_def refusing_def split: if_splits option.splits)

lemma published_ok:
  "log_ok cd lg cs ls \<Longrightarrow> log_ok cd (published (SyncedThrough n) lg) cs ls"
  by (auto simp: log_ok_def published_def List.map_filter_def)

lemma log_ok_attach: "log_ok cd lg cs ls \<Longrightarrow> log_ok cd (attach lg) cs ls"
  by (auto simp: log_ok_def attach_def List.map_filter_def intro: exI [of _ "length cs"])

lemma commits_of_framed:
  "commits_of cd n p ls = map Inr cs \<Longrightarrow> \<forall>l\<in>set ls. newline \<notin> set l \<Longrightarrow> framed cd n p ls cs"
proof (induction ls arbitrary: n p cs)
  case (Cons l ls)
  then obtain c cs' where cs: "cs = c # cs'" by (cases cs) auto
  with Cons.prems(1) obtain s b where "unseal cd l = Inr (s, b)"
    by (cases "unseal cd l") auto
  moreover from this Cons.prems(1) cs obtain rs where "records_of cd b = Inr rs"
    "c = commit_new (n + 1) p (p + length l + 1) s rs"
    by (cases "records_of cd b") (auto simp: commit_of_def)
  ultimately show ?case using Cons cs by auto
qed simp

lemma log_ok_opened:
  assumes "log_append_to cd f = Inr lg" and "commits_within cd f 0 0 (log_pos lg) = map Inr cs"
  shows "\<exists>ls. log_ok cd lg cs ls \<and> log_file lg = f \<and> synced lg = 0"
proof -
  obtain ls r where s: "f = joined ls @ r" "complete_len cd f = length (joined ls)"
    "\<forall>l\<in>set ls. intact cd l" "complete_len cd r = 0" by (rule complete_prefix)
  have lg: "lg = log_over f (length (split_lines f)) (length f)" and "\<not> complete_len cd f < length f"
    using assms(1) by (auto simp: log_append_to_def extent_def Let_def split: if_splits)
  then have f: "f = joined ls" "r = []" using s by auto
  have nl: "\<forall>l\<in>set ls. newline \<notin> set l" using s(3) intact_no_newline by blast
  then have split: "split_lines f = ls" using f split_lines_joined by simp
  then have "framed cd 0 0 ls cs"
    using assms(2) lg nl by (intro commits_of_framed) (simp_all add: commits_within_def log_over_def)
  with lg f split have "log_ok cd lg cs ls \<and> log_file lg = f \<and> synced lg = 0"
    by (auto simp: log_ok_def log_over_def dest: framed_length)
  then show ?thesis ..
qed

lemma append_line_ok:
  assumes "append_line cd now wr rs lg = (Inr c, lg')" and "log_ok cd lg cs ls" and "codec_ok cd"
  shows "\<exists>l. log_ok cd lg' (cs @ [c]) (ls @ [l]) \<and> synced lg' = synced lg \<and>
     length (log_file lg) \<le> length (log_file lg')"
proof -
  have up: "\<not> poisoned lg" "failure lg = None"
    using assms(1) by (auto simp: append_line_def refusing_def split: if_splits option.splits)
  then obtain s line where sl: "seal cd now (ne_iter rs) = Some (s, line)"
    and c: "c = commit_new (commits lg + 1) (log_pos lg) (log_pos lg + length line + 1) s rs"
    and lg': "lg' = published (Landed c) (lg\<lparr>log_file := log_file lg @ line @ [newline],
        log_pos := log_pos lg + length line + 1, commits := commits lg + 1\<rparr>)"
    using assms(1) by (auto simp: append_line_def refusing_def Let_def split: option.splits)
  obtain b where b: "unseal cd line = Inr (s, b)" "read_body cd b = Some (ne_iter rs)"
    "newline \<notin> set line" using unseal_seal [OF assms(3) sl] .
  have "framed cd 0 0 (ls @ [line]) (cs @ [c])"
    using framed_snoc [of cd 0 0 ls cs line s b rs] assms(2) b c framed_length [of cd 0 0 ls cs]
    by (auto simp: log_ok_def records_of_def)
  moreover have "log_file lg = joined ls" using assms(2) up by (auto simp: log_ok_def)
  moreover have "\<exists>k. List.map_filter (\<lambda>s. case s of Landed c \<Rightarrow> Some c | _ \<Rightarrow> None) ss = drop k (cs @ [c])"
    if sink: "sink lg' = Some ss" for ss
  proof -
    obtain ss0 where ss: "sink lg = Some ss0" "ss = ss0 @ [Landed c]"
      using sink lg' by (auto simp: published_def)
    then obtain k where "List.map_filter (\<lambda>s. case s of Landed c \<Rightarrow> Some c | _ \<Rightarrow> None) ss0 = drop k cs"
      using assms(2) by (auto simp: log_ok_def)
    then have "List.map_filter (\<lambda>s. case s of Landed c \<Rightarrow> Some c | _ \<Rightarrow> None) ss =
        drop (min k (length cs)) (cs @ [c])"
      using ss by (simp add: List.map_filter_def min_def)
    then show ?thesis ..
  qed
  ultimately show ?thesis
    using assms(2) lg' by (intro exI [of _ line]) (auto simp: log_ok_def published_def)
qed

lemma append_line_refused:
  assumes "append_line cd now wr rs lg = (Inl f, lg')" and "log_ok cd lg cs ls" and "codec_ok cd"
  shows "log_ok cd lg' cs ls \<and> synced lg' = synced lg \<and> length (log_file lg) \<le> length (log_file lg')"
proof (cases "poisoned lg \<or> failure lg \<noteq> None \<or> seal cd now (ne_iter rs) = None")
  case True
  then show ?thesis
    using assms by (auto simp: append_line_def refusing_def log_ok_latch split: option.splits if_splits)
next
  case False
  then obtain s line where sl: "seal cd now (ne_iter rs) = Some (s, line)" by auto
  have nl: "newline \<notin> set line" using unseal_seal [OF assms(3) sl] by blast
  obtain k where lg': "lg' = snd (latch (Recording Writing False) (lg\<lparr>log_file := log_file lg @ take k line\<rparr>))"
    using assms(1) False sl by (auto simp: append_line_def refusing_def Let_def split: option.splits)
  have "log_file lg = joined ls" using assms(2) False by (auto simp: log_ok_def)
  with nl assms(2) lg' show ?thesis by (auto simp: log_ok_def dest: in_set_takeD)
qed

lemma check_available_log [simp]:
  "log_file (snd (check_available lg)) = log_file lg" "synced (snd (check_available lg)) = synced lg"
  by (auto simp: check_available_def refusing_def split: option.splits)

lemma sync_finish_ok:
  assumes "sync_finish n lg = (res, lg')" and "log_ok cd lg cs ls" and "n \<le> length cs"
  shows "log_ok cd lg' cs ls" and "log_file lg' = log_file lg"
    and "synced lg' = synced lg \<or> synced lg' = max (synced lg) n"
proof -
  obtain a lg0 where a: "check_available lg = (a, lg0)" by fastforce
  with log_ok_check [OF assms(2)] check_available_log [of lg] have
    lg0: "log_ok cd lg0 cs ls" "log_file lg0 = log_file lg" "synced lg0 = synced lg" by auto
  then have "log_ok cd (lg0\<lparr>synced := max (synced lg0) n\<rparr>) cs ls"
    using assms(3) by (auto simp: log_ok_def)
  from published_ok [OF this, of "max (synced lg0) n"]
  show "log_ok cd lg' cs ls" "log_file lg' = log_file lg"
    "synced lg' = synced lg \<or> synced lg' = max (synced lg) n"
    using assms(1) a lg0
    by (auto simp: sync_finish_def Let_def published_def split: sum.splits)
qed

lemma quiet_ok:
  assumes "quiet cd w w'" and ls: "world_ok cd w cs ls" and "codec_ok cd"
  shows "world_ok cd w' cs ls"
  using assms(1)
proof cases
  case (refused now wr rs f lg)
  from ls have "log_ok cd (the_log w) cs ls" by (simp add: world_ok_def)
  then have "log_ok cd lg cs ls" "synced lg = synced (the_log w)"
    "length (log_file (the_log w)) \<le> length (log_file lg)"
    using append_line_refused [OF refused(2)] assms(3) by blast+
  with ls refused(1) show ?thesis by (auto simp: world_ok_def)
next
  case attached
  with ls show ?thesis by (auto simp: world_ok_def log_ok_attach, auto simp: attach_def)
next
  case panicked
  with ls show ?thesis by (auto simp: world_ok_def log_ok_def)
next
  case (note_taken n lg)
  then have "lg = the_log w" "n = commits (the_log w)"
    by (auto simp: sync_note_def dest: check_available_ok split: prod.splits sum.splits if_splits)
  with ls note_taken(1) show ?thesis by (auto simp: world_ok_def log_ok_def)
next
  case (entered n lg)
  then have "lg = the_log w"
    by (auto simp: sync_enter_def dest: check_available_ok split: prod.splits sum.splits)
  with ls entered show ?thesis by (auto simp: world_ok_def dest: notin_set_remove1 split: if_splits)
next
  case (flushed n)
  from ls obtain t where "log_file (the_log w) = joined ls @ t" by (auto simp: world_ok_def log_ok_def)
  moreover have "length (joined (take m ls)) \<le> length (joined ls)" for m
    by (metis append_take_drop_id joined_simps(3) length_append le_add1)
  ultimately show ?thesis using ls flushed by (auto simp: world_ok_def trans_le_add1)
next
  case (flush_failed n)
  with ls show ?thesis by (auto simp: world_ok_def sync_failed_def log_ok_latch)
next
  case (finished n res lg)
  then have "log_ok cd lg cs ls" "log_file lg = log_file (the_log w)"
    "synced lg = synced (the_log w) \<or> synced lg = max (synced (the_log w)) n"
    using sync_finish_ok [OF finished(3)] ls by (auto simp: world_ok_def)
  with ls finished(1,2) show ?thesis by (auto simp: world_ok_def max_def)
qed

theorem written_ok:
  assumes "written cd w cs" and "codec_ok cd"
  shows "\<exists>ls. world_ok cd w cs ls"
  using assms
proof induction
  case (opened f lg cs)
  then show ?case using log_ok_opened [OF opened(1,2)] by (force simp: world_ok_def world_over_def)
next
  case (appended w cs now wr rs c lg)
  then obtain ls where ls: "world_ok cd w cs ls" by blast
  then have "log_ok cd (the_log w) cs ls" by (simp add: world_ok_def)
  then obtain l where l: "log_ok cd lg (cs @ [c]) (ls @ [l])" "synced lg = synced (the_log w)"
    "length (log_file (the_log w)) \<le> length (log_file lg)"
    using append_line_ok [OF appended.hyps(2)] appended.prems by blast
  have "length ls = length cs" using ls by (auto simp: world_ok_def log_ok_def dest: framed_length)
  with ls l show ?case
    by (intro exI [of _ "ls @ [l]"]) (auto simp: world_ok_def log_ok_def)
next
  case (stepped w cs w')
  then show ?case using quiet_ok by blast
qed

end
