(* ===== verification/Log_Recovery.thy ===== *)
theory Log_Recovery
  imports Log_Writer
begin

text \<open>
  What a log's file answers: reading it whole, from a cursor on, or one record by its locus; and
  what a crash leaves of it, once its torn tail is quarantined.
\<close>

section \<open>Reading from a cursor\<close>

lemma framed_drop:
  "framed cd n p ls cs \<Longrightarrow> framed cd (n + k) (p + length (joined (take k ls))) (drop k ls) (drop k cs)"
proof (induction ls arbitrary: n p cs k)
  case (Cons l ls)
  show ?case
  proof (cases k)
    case 0
    then show ?thesis using Cons.prems by simp
  next
    case (Suc j)
    from Cons.prems obtain c cs' where cs: "cs = c # cs'"
      "framed cd (n + 1) (p + length l + 1) ls cs'" by auto
    show ?thesis using Cons.IH [OF cs(2), of j] cs(1) Suc by (simp add: algebra_simps)
  qed
qed simp

lemma framed_place:
  "framed cd n p ls cs \<Longrightarrow> i < length cs \<Longrightarrow>
     commit_number (cs ! i) = n + i + 1 \<and> commit_end (cs ! i) = p + length (joined (take (i + 1) ls))"
proof (induction ls arbitrary: n p cs i)
  case (Cons l ls)
  from Cons.prems(1) obtain s b rs cs' where cs: "cs = commit_new (n + 1) p (p + length l + 1) s rs # cs'"
    "framed cd (n + 1) (p + length l + 1) ls cs'" by auto
  then show ?case using Cons.IH [OF cs(2)] Cons.prems(2) by (cases i) auto
qed simp

lemma drop_joined: "drop (length (joined (take k ls))) (joined ls @ t) = joined (drop k ls) @ t"
proof -
  have "joined ls = joined (take k ls) @ joined (drop k ls)"
    by (metis append_take_drop_id joined_simps(3))
  then show ?thesis by simp
qed

lemma joined_take_drop: "length (joined ls) = length (joined (take k ls)) + length (joined (drop k ls))"
  by (metis append_take_drop_id joined_simps(3) length_append)

lemma commits_from:
  assumes "framed cd 0 0 ls cs"
  shows "commits_within cd (joined ls @ t) k (length (joined (take k ls))) (length (joined ls)) =
    map Inr (drop k cs)"
proof -
  have "\<forall>l\<in>set (drop k ls). newline \<notin> set l"
    using framed_intact [OF assms] intact_no_newline by (metis in_set_dropD)
  then have "split_lines (joined (drop k ls)) = drop k ls" by (rule split_lines_joined)
  moreover have "take (length (joined ls) - length (joined (take k ls)))
      (drop (length (joined (take k ls))) (joined ls @ t)) = joined (drop k ls)"
    unfolding drop_joined using joined_take_drop [of ls k] by simp
  ultimately show ?thesis
    unfolding commits_within_def using framed_commits [OF framed_drop [OF assms, of k]]
    by (simp del: drop_append take_append)
qed

text \<open>A mirror that has read through a commit catches up on those after it.\<close>

definition cursor_of :: "nat \<Rightarrow> 'r log_commit list \<Rightarrow> cursor" where
  "cursor_of k cs = (if k = 0 then cursor_start else past (cs ! (k - 1)))"

lemma since_catches_up:
  assumes "written cd w cs" and "codec_ok cd" and "k \<le> length cs" and "\<not> poisoned (the_log w)"
  shows "since cd (Some (cursor_of k cs)) (the_log w) =
    Some (cursor_of k cs, synced (the_log w), map Inr (drop k cs))"
proof -
  obtain ls where "world_ok cd w cs ls" using written_ok assms(1,2) by blast
  then obtain t where ls: "framed cd 0 0 ls cs" "log_pos (the_log w) = length (joined ls)"
    "log_file (the_log w) = joined ls @ t" by (auto simp: world_ok_def log_ok_def)
  have "cursor_commit (cursor_of k cs) = k"
    "cursor_end (cursor_of k cs) = length (joined (take k ls))"
    using framed_place [OF ls(1), of "k - 1"] assms(3)
    by (auto simp: cursor_of_def cursor_start_def past_def)
  with commits_from [OF ls(1), of t k] ls(2,3) assms(4) show ?thesis by (simp add: since_def)
qed

lemma written_read_back:
  assumes "written cd w cs" and "codec_ok cd"
  shows "read_log cd (log_file (the_log w)) = map Inr (concat (map ne_iter cs))"
proof -
  obtain ls where "world_ok cd w cs ls" using written_ok assms by blast
  then obtain t where "framed cd 0 0 ls cs" "log_file (the_log w) = joined ls @ t" "newline \<notin> set t"
    by (auto simp: world_ok_def log_ok_def)
  then show ?thesis by (simp add: read_framed complete_len_torn)
qed

lemma written_commits:
  assumes "written cd w cs" and "codec_ok cd"
  shows "commits_within cd (log_file (the_log w)) 0 0 (log_pos (the_log w)) = map Inr cs"
proof -
  obtain ls where "world_ok cd w cs ls" using written_ok assms by blast
  then obtain t where "framed cd 0 0 ls cs" "log_file (the_log w) = joined ls @ t"
    "log_pos (the_log w) = length (joined ls)"
    by (auto simp: world_ok_def log_ok_def)
  with commits_from [of cd ls cs t 0] show ?thesis by simp
qed

section \<open>Reading by locus\<close>

text \<open>A pointer's loci read in turn by one reader; the first that fails ends it.\<close>

fun locus_records ::
  "'r codec \<Rightarrow> bytes \<Rightarrow> 'r log_commit option \<Rightarrow> locus list \<Rightarrow> stale + 'r list" where
  "locus_records cd file kept [] = Inr []"
| "locus_records cd file kept (l # ls) =
     (case locus_record cd file kept l of
        (Inl e, _) \<Rightarrow> Inl e
      | (Inr r, kept') \<Rightarrow> map_sum id (Cons r) (locus_records cd file kept' ls))"

lemma commit_record_at:
  "(l, r) \<in> set (ne_iter (commit_new n b e s rs)) \<Longrightarrow>
     seq_index (locus_seq l) < length (ne_iter (commit_new n b e s rs)) \<and>
     ne_iter (commit_new n b e s rs) ! seq_index (locus_seq l) = (l, r)"
  by (auto simp: commit_records in_set_enumerate_eq nth_enumerate_eq)

lemma record_of_framed:
  assumes "framed cd 0 0 ls cs" and "(l, r) \<in> set (concat (map ne_iter cs))"
    and "reader_ok cd (joined ls @ t) kept"
  obtains kept' where "locus_record cd (joined ls @ t) kept l = (Inr r, kept')"
    and "reader_ok cd (joined ls @ t) kept'"
proof -
  obtain c where c: "c \<in> set cs" "(l, r) \<in> set (ne_iter c)" using assms(2) by auto
  obtain a kept' where a: "locus_record cd (joined ls @ t) kept l = (a, kept')" by fastforce
  obtain n b e s rs where "c = commit_new n b e s rs" using framed_nth [OF assms(1) c(1)] by blast
  then have "seq_index (locus_seq l) < length (ne_iter c)"
    "ne_iter c ! seq_index (locus_seq l) = (l, r)"
    using commit_record_at c(2) by metis+
  then have "a = Inr r"
    using locus_record_reads(1) [OF assms(3) a] line_at_framed [OF assms(1) c, of t] by simp
  with a locus_record_reads(2) [OF assms(3) a] that show thesis by blast
qed

lemma records_of_framed:
  assumes "framed cd 0 0 ls cs"
  shows "set xs \<subseteq> set (concat (map ne_iter cs)) \<Longrightarrow> reader_ok cd (joined ls @ t) kept \<Longrightarrow>
    locus_records cd (joined ls @ t) kept (map fst xs) = Inr (map snd xs)"
proof (induction xs arbitrary: kept)
  case (Cons x xs)
  obtain l r where x: "x = (l, r)" by fastforce
  with Cons.prems have "(l, r) \<in> set (concat (map ne_iter cs))" by simp
  then obtain kept' where "locus_record cd (joined ls @ t) kept l = (Inr r, kept')"
    "reader_ok cd (joined ls @ t) kept'"
    using record_of_framed [OF assms] Cons.prems(2) by blast
  with Cons x show ?case by simp
qed simp

lemma written_locus_records:
  assumes "written cd w cs" and "codec_ok cd" and "set xs \<subseteq> set (concat (map ne_iter cs))"
  shows "locus_records cd (log_file (the_log w)) None (map fst xs) = Inr (map snd xs)"
proof -
  obtain ls where "world_ok cd w cs ls" using written_ok assms(1,2) by blast
  then obtain t where "framed cd 0 0 ls cs" "log_file (the_log w) = joined ls @ t"
    by (auto simp: world_ok_def log_ok_def)
  with records_of_framed [OF _ assms(3) reader_ok_None] show ?thesis by metis
qed

text \<open>Of whatever file, a record answered is of a line whose commit hashes to the locus's sum.\<close>

lemma locus_never_a_neighbour:
  assumes "locus_record cd file None l = (Inr r, kept)"
  shows "\<exists>b rs. unseal cd (butlast (take (locus_end l - locus_start l) (drop (locus_start l) file))) =
      Inr (locus_sum l, b) \<and> sum_of cd b = locus_sum l \<and> records_of cd b = Inr rs \<and>
      seq_index (locus_seq l) < length (ne_iter rs) \<and> r = ne_iter rs ! seq_index (locus_seq l)"
proof -
  obtain c where c: "line_at cd file l = Inr c"
    and i: "seq_index (locus_seq l) < length (ne_iter c)" "r = snd (ne_iter c ! seq_index (locus_seq l))"
    using locus_record_reads(1) [OF reader_ok_None assms] by (auto split: sum.splits if_splits)
  obtain b rs where b: "c = commit_new (seq_commit (locus_seq l)) (locus_start l) (locus_end l) (locus_sum l) rs"
    "unseal cd (butlast (take (locus_end l - locus_start l) (drop (locus_start l) file))) = Inr (locus_sum l, b)"
    "records_of cd b = Inr rs"
    using line_at_new [OF c] by blast
  have "sum_of cd b = locus_sum l"
    using b(2) by (auto simp: unseal_def split: json_line.splits option.splits if_splits)
  with b i show ?thesis by (auto simp: commit_records nth_enumerate_eq)
qed

section \<open>After a crash\<close>

lemma take_file:
  assumes "\<forall>l\<in>set ls. newline \<notin> set l" and "newline \<notin> set t"
  obtains k t' where "take n (joined ls @ t) = joined (take k ls) @ t'" and "newline \<notin> set t'"
    and "k \<le> length ls" and "\<forall>m\<le>length ls. length (joined (take m ls)) \<le> n \<longrightarrow> m \<le> k"
proof (cases "length (joined ls) \<le> n")
  case True
  then have "take n (joined ls @ t) = joined (take (length ls) ls) @ take (n - length (joined ls)) t" by simp
  moreover have "newline \<notin> set (take (n - length (joined ls)) t)" using assms(2) by (auto dest: in_set_takeD)
  ultimately show thesis using that by (metis order_refl)
next
  case False
  then have "take n (joined ls @ t) = take n (joined ls)" by simp
  with take_joined [OF assms(1), of n] that show thesis by metis
qed

lemma crash_recovery:
  fixes w :: "'r world"
  assumes "written cd w cs" and "codec_ok cd" and "durable w \<le> n"
  shows "\<exists>k live tail lg. synced (the_log w) \<le> k \<and> k \<le> length cs \<and>
    quarantine_tail cd (take n (log_file (the_log w))) = (live, tail) \<and>
    live @ tail = take n (log_file (the_log w)) \<and>
    read_log cd live = map Inr (concat (map ne_iter (take k cs))) \<and>
    log_append_to cd live = Inr lg \<and> commits lg = k \<and> written cd (world_over lg) (take k cs)"
proof -
  obtain ls where ok: "world_ok cd w cs ls" using written_ok assms(1,2) by blast
  then obtain t where ls: "framed cd 0 0 ls cs" "log_file (the_log w) = joined ls @ t" "newline \<notin> set t"
    and s: "synced (the_log w) \<le> length cs" "length (joined (take (synced (the_log w)) ls)) \<le> n"
    using assms(3) by (auto simp: world_ok_def log_ok_def)
  have nl: "\<forall>l\<in>set ls. newline \<notin> set l" using framed_intact [OF ls(1)] intact_no_newline by blast
  obtain k t' where k: "take n (joined ls @ t) = joined (take k ls) @ t'" "newline \<notin> set t'" "k \<le> length ls"
    "\<forall>m\<le>length ls. length (joined (take m ls)) \<le> n \<longrightarrow> m \<le> k"
    using take_file [OF nl ls(3)] by metis
  have len: "length ls = length cs" using framed_length [OF ls(1)] by simp
  have fk: "framed cd 0 0 (take k ls) (take k cs)" using framed_take [OF ls(1)] .
  define live where "live = joined (take k ls)"
  have q: "quarantine_tail cd (take n (log_file (the_log w))) = (live, t')"
    using quarantine_framed [OF fk k(2)] k(1) ls(2) by (simp add: live_def)
  have split: "split_lines live = take k ls"
    unfolding live_def by (rule split_lines_joined) (use nl in_set_takeD in fast)
  define lg :: "'r log" where "lg = log_over live k (length live)"
  have ext: "log_append_to cd live = Inr lg"
    using quarantine_whole(3) [OF q] k(3) by (simp add: log_append_to_def lg_def split min_def)
  have "commits_within cd live 0 0 (length live) = map Inr (take k cs)"
    using commits_from [OF fk, of "[]" 0] by (simp add: live_def)
  then have "written cd (world_over lg) (take k cs)"
    using written.opened [OF ext] by (simp add: lg_def log_over_def)
  moreover have "synced (the_log w) \<le> k" using k(4) s len by simp
  moreover have "read_log cd live = map Inr (concat (map ne_iter (take k cs)))"
    using read_framed [OF fk, of "[]"] by (simp add: live_def complete_len_torn)
  ultimately show ?thesis
    using q quarantine_whole(1) [OF q] ext k(3) len
    by (intro exI [of _ k] exI [of _ live] exI [of _ t'] exI [of _ lg] conjI) (simp_all add: lg_def log_over_def)
qed

end
