(* ===== verification/Ordered_Map.thy ===== *)
theory Ordered_Map
  imports Ral_Prelude
begin

text \<open>
  \<open>BTreeMap\<close> as the list of its entries in key order: what the standard library's operations
  answer on it, and that they keep the order.  A lookup is \<open>map_of\<close>, an iteration the list itself.
\<close>

fun bt_insert :: "'k::linorder \<Rightarrow> 'a \<Rightarrow> ('k \<times> 'a) list \<Rightarrow> ('k \<times> 'a) list" where
  "bt_insert k x [] = [(k, x)]"
| "bt_insert k x ((j, y) # m) =
     (if k < j then (k, x) # (j, y) # m
      else if k = j then (k, x) # m
      else (j, y) # bt_insert k x m)"

definition bt_remove :: "'k \<Rightarrow> ('k \<times> 'a) list \<Rightarrow> ('k \<times> 'a) list" where
  "bt_remove k m = filter (\<lambda>e. fst e \<noteq> k) m"

definition ordered :: "('k::linorder \<times> 'a) list \<Rightarrow> bool" where
  "ordered m \<longleftrightarrow> sorted_wrt (<) (map fst m)"

lemma ordered_Nil [simp]: "ordered []"
  by (simp add: ordered_def)

lemma ordered_Cons [simp]: "ordered ((k, x) # m) \<longleftrightarrow> (\<forall>e\<in>set m. k < fst e) \<and> ordered m"
  by (auto simp: ordered_def)

lemma ordered_snoc [simp]: "ordered (m @ [(k, x)]) \<longleftrightarrow> ordered m \<and> (\<forall>e\<in>set m. fst e < k)"
  by (auto simp: ordered_def sorted_wrt_append)

lemma ordered_distinct: "ordered m \<Longrightarrow> distinct (map fst m)"
  by (simp add: ordered_def strict_sorted_iff)

lemma ordered_filter: "ordered m \<Longrightarrow> ordered (filter P m)"
  by (induction m) auto

lemma ordered_remove [simp]: "ordered m \<Longrightarrow> ordered (bt_remove k m)"
  by (simp add: bt_remove_def ordered_filter)

lemma keys_insert [simp]: "fst ` set (bt_insert k x m) = insert k (fst ` set m)"
  by (induction k x m rule: bt_insert.induct) (simp_all add: insert_commute)

lemma ordered_insert [simp]: "ordered m \<Longrightarrow> ordered (bt_insert k x m)"
proof (induction m)
  case (Cons e m)
  obtain j y where e: "e = (j, y)" by fastforce
  have "j < fst d" if "d \<in> set (bt_insert k x m)" and "j < k" and "\<forall>d\<in>set m. j < fst d" for d
  proof -
    have "fst d \<in> insert k (fst ` set m)" using that(1) keys_insert [of k x m] by blast
    with that show ?thesis by auto
  qed
  with Cons e show ?case by (auto simp: not_less_iff_gr_or_eq)
qed simp

lemma lookup_insert [simp]: "map_of (bt_insert k x m) = (map_of m)(k \<mapsto> x)"
  by (induction m) auto

lemma lookup_remove [simp]: "map_of (bt_remove k m) = (map_of m)(k := None)"
  by (induction m) (auto simp: bt_remove_def)

lemma bt_insert_last: "\<forall>e\<in>set m. fst e < k \<Longrightarrow> bt_insert k x m = m @ [(k, x)]"
  by (induction m) (auto dest: order.asym)

lemma set_remove: "set (bt_remove k m) = {e\<in>set m. fst e \<noteq> k}"
  by (auto simp: bt_remove_def)

lemma remove_head [simp]: "ordered ((k, x) # m) \<Longrightarrow> bt_remove k ((k, x) # m) = m"
  by (auto simp: bt_remove_def filter_id_conv)

lemma lookup_in [simp]: "ordered m \<Longrightarrow> map_of m k = Some x \<longleftrightarrow> (k, x) \<in> set m"
  by (metis map_of_eq_Some_iff ordered_distinct)

lemma keys_remove [simp]: "fst ` set (bt_remove k m) = fst ` set m - {k}"
  by (auto simp: set_remove)

text \<open>Each key of a run of entries removed in turn.\<close>

lemma remove_keys: "fold bt_remove ks m = filter (\<lambda>e. fst e \<notin> set ks) m"
  by (induction ks arbitrary: m) (auto simp: bt_remove_def filter_filter conj_commute intro: filter_cong)

lemma entries_of_keys: "distinct (map fst m) \<Longrightarrow> map (\<lambda>k. (k, the (map_of m k))) (map fst m) = m"
  by (auto intro!: map_idI)

lemma ordered_same_set:
  "ordered m \<Longrightarrow> ordered n \<Longrightarrow> set m = set n \<Longrightarrow> m = n" for m :: "('k::linorder \<times> 'a) list"
proof -
  assume m: "ordered m" and n: "ordered n" and same: "set m = set n"
  have keys: "map fst m = map fst n"
    by (rule strict_sorted_equal) (use m n same in \<open>auto simp: ordered_def\<close>)
  have "map_of m = map_of n"
    using map_of_inject_set [OF ordered_distinct [OF m] ordered_distinct [OF n]] same by simp
  with keys show "m = n"
    using entries_of_keys [OF ordered_distinct [OF m]] entries_of_keys [OF ordered_distinct [OF n]] by simp
qed

lemma set_insert_absent: "k \<notin> fst ` set m \<Longrightarrow> set (bt_insert k x m) = insert (k, x) (set m)"
  by (induction m) (auto split: if_splits)

end
