(* ===== verification/Control_Folds.thy ===== *)
theory Control_Folds
  imports Ordered_Map Record_Types Log_Frame
begin

text \<open>
  The folds over control records, and what they mean for an agent.
\<close>

chapter \<open>The folds\<close>

text \<open>
  The three folds over a session's control records: the mail and what it obliges
  (\<open>exarch/src/record/mail.rs\<close>), the booked wakeups (\<open>schedules.rs\<close>) and the model in force
  (\<open>model.rs\<close>), stepped together as \<open>record/control.rs\<close> does; and the records themselves, from
  \<open>exarch/src/record.rs\<close>.  Ids are numbers, a reply's value and the tuning's effort are opaque, and
  a refusal keeps what its message names.
\<close>

section \<open>Control records\<close>

datatype 'v child_status = Replied 'v | Failed bytes | Stopped

datatype settlement = SettledReplied | SettledFailed bytes | SettledStopped

fun settlement_of :: "'v child_status \<Rightarrow> settlement" where
  "settlement_of (Replied _) = SettledReplied"
| "settlement_of (Failed why) = SettledFailed why"
| "settlement_of Stopped = SettledStopped"

datatype tuning = Tuning (effort: "bytes option") (temperature: "64 word option") (top_p: "64 word option")

record selected =
  sel_model :: bytes
  sel_window :: "nat option"
  sel_label :: bytes
  sel_service :: bytes
  sel_account :: bytes
  sel_via :: "bytes list option"
  sel_tuning :: tuning
  sel_max_tokens :: "nat option"

record started =
  session_id :: nat
  session_name :: bytes
  started_parent :: "nat option"
  started_returns :: bool
  started_selected :: selected
  log_dir :: bytes
  started_ms :: nat

datatype post = Post (post_voice: "voice option") (post_text: bytes) (post_from: "nat option")

record schedule =
  sch_prompt :: bytes
  sch_trigger :: bytes
  sch_cron :: "bytes option"
  sch_next :: nat
  sch_fires :: nat

datatype 'v control =
    SessionStarted started
  | SessionResumed selected bool nat
  | JobOpened
  | JobSettled nat bool
  | Status "'v child_status"
  | Posted post
  | Taken "nat non_empty"
  | Withdrawn "nat non_empty"
  | Scheduled bytes schedule
  | Unscheduled bytes
  | ModelChanged selected
  | WindowNarrowed bytes nat

fun voice_word :: "post \<Rightarrow> bytes" where
  "voice_word (Post (Some Human) _ _) = ''human''"
| "voice_word (Post (Some Peer) _ _) = ''peer''"
| "voice_word (Post (Some Harness) _ _) = ''harness''"
| "voice_word (Post (Some Wakeup) _ _) = ''wakeup''"
| "voice_word (Post None _ _) = ''command''"

datatype control_refusal =
    JobNotFresh
  | WrongJob nat "nat option"
  | PostNotFresh
  | NotPending nat
  | NoSchedule bytes
  | NotNarrowing bytes nat
  | NotTheHead

section \<open>Mail\<close>

record 'v mail =
  parent :: "nat option"
  returns :: bool
  pending :: "(nat \<times> post) list"
  answering :: bool
  status :: "'v child_status option"
  job :: "nat option"
  named :: nat

definition mail_new :: "started \<Rightarrow> 'v mail" where
  "mail_new s =
     \<lparr>parent = started_parent s, returns = started_returns s, pending = [], answering = False,
      status = None, job = None, named = 0\<rparr>"

definition pending_post :: "nat \<Rightarrow> 'v mail \<Rightarrow> post option" where
  "pending_post i m = map_of (pending m) i"

definition by_parent :: "'v mail \<Rightarrow> post \<Rightarrow> bool" where
  "by_parent m p =
     (case parent m of
        Some a \<Rightarrow> post_from p = Some a
      | None \<Rightarrow> post_voice p = Some Human \<and> post_from p = None)"

definition owes :: "'v mail \<Rightarrow> bool" where
  "owes m \<longleftrightarrow> returns m \<and> (answering m \<or> list_ex (\<lambda>e. by_parent m (snd e)) (pending m))"

fun mail_remove :: "nat list \<Rightarrow> bool \<Rightarrow> 'v mail \<Rightarrow> control_refusal + 'v mail" where
  "mail_remove [] taken m = Inr m"
| "mail_remove (i # is') taken m =
     (case pending_post i m of
        None \<Rightarrow> Inl (NotPending i)
      | Some p \<Rightarrow>
          mail_remove is' taken
            (m\<lparr>pending := bt_remove i (pending m),
               answering := answering m \<or> taken \<and> returns m \<and> by_parent m p\<rparr>))"

fun mail_step :: "nat \<Rightarrow> 'v control \<Rightarrow> 'v mail \<Rightarrow> control_refusal + 'v mail" where
  "mail_step n (SessionResumed _ r _) m = Inr (m\<lparr>returns := r, answering := answering m \<and> r\<rparr>)"
| "mail_step n JobOpened m =
     (if job m \<noteq> None \<or> n \<le> named m then Inl JobNotFresh else Inr (m\<lparr>job := Some n, named := n\<rparr>))"
| "mail_step n (JobSettled j _) m =
     (if job m \<noteq> Some j then Inl (WrongJob j (job m)) else Inr (m\<lparr>job := None\<rparr>))"
| "mail_step n (Status s) m = Inr (m\<lparr>status := Some s, answering := False\<rparr>)"
| "mail_step n (Posted p) m =
     (if n \<le> named m then Inl PostNotFresh
      else Inr (m\<lparr>pending := bt_insert n p (pending m), named := n\<rparr>))"
| "mail_step n (Taken ids) m = mail_remove (ne_iter ids) True m"
| "mail_step n (Withdrawn ids) m = mail_remove (ne_iter ids) False m"
| "mail_step n _ m = Inr m"

section \<open>Schedules and the model\<close>

type_synonym schedules = "(bytes \<times> schedule) list"

fun schedules_step :: "'v control \<Rightarrow> schedules \<Rightarrow> control_refusal + schedules" where
  "schedules_step (Scheduled l s) ss = Inr (bt_insert l s ss)"
| "schedules_step (Unscheduled l) ss =
     (if map_of ss l = None then Inl (NoSchedule l) else Inr (bt_remove l ss))"
| "schedules_step _ ss = Inr ss"

record model =
  mod_selected :: selected
  mod_narrowed :: "nat option"

definition model_new :: "selected \<Rightarrow> model" where
  "model_new s = \<lparr>mod_selected = s, mod_narrowed = None\<rparr>"

definition model_name :: "model \<Rightarrow> bytes" where
  "model_name m = sel_model (mod_selected m)"

definition window :: "model \<Rightarrow> nat option" where
  "window m =
     (case (sel_window (mod_selected m), mod_narrowed m) of
        (Some listed, Some narrowed) \<Rightarrow> Some (min listed narrowed)
      | (Some listed, None) \<Rightarrow> Some listed
      | (None, narrowed) \<Rightarrow> narrowed)"

definition narrows :: "model \<Rightarrow> bytes \<Rightarrow> nat \<Rightarrow> bool" where
  "narrows m name limit \<longleftrightarrow>
     name = model_name m \<and> (case window m of None \<Rightarrow> True | Some w \<Rightarrow> limit < w)"

fun model_step :: "'v control \<Rightarrow> model \<Rightarrow> control_refusal + model" where
  "model_step (SessionResumed s _ _) m =
     Inr ((if model_name m \<noteq> sel_model s then m\<lparr>mod_narrowed := None\<rparr> else m)\<lparr>mod_selected := s\<rparr>)"
| "model_step (ModelChanged s) m = Inr (model_new s)"
| "model_step (WindowNarrowed name limit) m =
     (if \<not> narrows m name limit then Inl (NotNarrowing name limit)
      else Inr (m\<lparr>mod_narrowed := Some limit\<rparr>))"
| "model_step _ m = Inr m"

section \<open>The folds together\<close>

record 'v folds =
  the_mail :: "'v mail"
  the_schedules :: schedules
  the_model :: model

definition seed :: "started \<Rightarrow> 'v folds" where
  "seed s = \<lparr>the_mail = mail_new s, the_schedules = [], the_model = model_new (started_selected s)\<rparr>"

fun is_head :: "'v control \<Rightarrow> bool" where
  "is_head (SessionStarted _) = True"
| "is_head _ = False"

definition folds_step :: "nat \<Rightarrow> 'v control \<Rightarrow> 'v folds \<Rightarrow> control_refusal + 'v folds" where
  "folds_step n c f =
     (if is_head c then Inl NotTheHead
      else (case mail_step n c (the_mail f) of
              Inl e \<Rightarrow> Inl e
            | Inr m \<Rightarrow>
                (case schedules_step c (the_schedules f) of
                   Inl e \<Rightarrow> Inl e
                 | Inr s \<Rightarrow>
                     (case model_step c (the_model f) of
                        Inl e \<Rightarrow> Inl e
                      | Inr d \<Rightarrow> Inr \<lparr>the_mail = m, the_schedules = s, the_model = d\<rparr>))))"

text \<open>The controls of one commit, stepped in turn.\<close>

fun folds_line :: "nat \<Rightarrow> 'v control list \<Rightarrow> 'v folds \<Rightarrow> control_refusal + 'v folds" where
  "folds_line n [] f = Inr f"
| "folds_line n (c # cs) f =
     (case folds_step n c f of Inl e \<Rightarrow> Inl e | Inr f' \<Rightarrow> folds_line n cs f')"

lemma folds_line_append:
  "folds_line n (cs @ ds) f =
     (case folds_line n cs f of Inl e \<Rightarrow> Inl e | Inr f' \<Rightarrow> folds_line n ds f')"
  by (induction cs arbitrary: f) (auto split: sum.splits)

section \<open>The line a resume commits\<close>

definition reopen_line :: "selected \<Rightarrow> bool \<Rightarrow> nat \<Rightarrow> 'v folds \<Rightarrow> 'v control non_empty" where
  "reopen_line s r ms f =
     NonEmpty (SessionResumed s r ms)
       ((case ne_collect (map fst (pending (the_mail f))) of
           Some ids \<Rightarrow> [Withdrawn ids] | None \<Rightarrow> []) @
        (case job (the_mail f) of Some j \<Rightarrow> [JobSettled j False] | None \<Rightarrow> []) @
        map (\<lambda>e. Unscheduled (fst e)) (the_schedules f))"

section \<open>What the folds keep\<close>

definition mail_ok :: "'v mail \<Rightarrow> bool" where
  "mail_ok m \<longleftrightarrow>
     ordered (pending m) \<and> (\<forall>e\<in>set (pending m). fst e \<le> named m) \<and>
     (\<forall>j. job m = Some j \<longrightarrow> j \<le> named m \<and> j \<notin> fst ` set (pending m)) \<and>
     (answering m \<longrightarrow> returns m)"

definition folds_ok :: "'v folds \<Rightarrow> bool" where
  "folds_ok f \<longleftrightarrow> mail_ok (the_mail f) \<and> ordered (the_schedules f)"

text \<open>What the removal of a run of posts answers: each was pending, and once.\<close>

lemma mail_remove_Inr:
  "ordered (pending m) \<Longrightarrow>
     (\<exists>m'. mail_remove ids taken m = Inr m') \<longleftrightarrow> distinct ids \<and> set ids \<subseteq> fst ` set (pending m)"
proof (induction ids arbitrary: m)
  case (Cons i ids)
  show ?case
  proof (cases "pending_post i m")
    case None
    then have "i \<notin> fst ` set (pending m)" by (auto simp: pending_post_def map_of_eq_None_iff)
    with None show ?thesis by auto
  next
    case (Some p)
    then have "i \<in> fst ` set (pending m)" using Cons.prems by (force simp: pending_post_def)
    moreover have "(\<exists>m'. mail_remove (i # ids) taken m = Inr m') \<longleftrightarrow>
        distinct ids \<and> set ids \<subseteq> fst ` set (pending m) - {i}"
      using Some Cons.prems Cons.IH [of "m\<lparr>pending := bt_remove i (pending m),
        answering := answering m \<or> taken \<and> returns m \<and> by_parent m p\<rparr>"] by simp
    ultimately show ?thesis by auto
  qed
qed simp

lemma by_parent_update [simp]:
  "by_parent (m\<lparr>pending := x\<rparr>) = by_parent m" "by_parent (m\<lparr>answering := b\<rparr>) = by_parent m"
  "by_parent (m\<lparr>returns := b\<rparr>) = by_parent m" "by_parent (m\<lparr>status := s\<rparr>) = by_parent m"
  "by_parent (m\<lparr>job := j\<rparr>) = by_parent m" "by_parent (m\<lparr>named := n\<rparr>) = by_parent m"
  by (auto simp: by_parent_def fun_eq_iff)

lemma mail_removed:
  "ordered (pending m) \<Longrightarrow> mail_remove ids taken m = Inr m' \<Longrightarrow>
     m' = m\<lparr>pending := filter (\<lambda>e. fst e \<notin> set ids) (pending m),
            answering := answering m \<or> taken \<and> returns m \<and>
              (\<exists>e\<in>set (pending m). fst e \<in> set ids \<and> by_parent m (snd e))\<rparr>"
proof (induction ids arbitrary: m)
  case (Cons i ids)
  from Cons.prems(2) obtain p where p: "pending_post i m = Some p"
    "mail_remove ids taken (m\<lparr>pending := bt_remove i (pending m),
       answering := answering m \<or> taken \<and> returns m \<and> by_parent m p\<rparr>) = Inr m'"
    by (auto split: option.splits)
  let ?m = "m\<lparr>pending := bt_remove i (pending m), answering := answering m \<or> taken \<and> returns m \<and> by_parent m p\<rparr>"
  have i: "(i, p) \<in> set (pending m)" using p Cons.prems(1) by (simp add: pending_post_def)
  then have only: "\<And>q. (i, q) \<in> set (pending m) \<Longrightarrow> q = p"
    using ordered_distinct [OF Cons.prems(1)] by (metis eq_key_imp_eq_value)
  have kept: "filter (\<lambda>e. fst e \<notin> set ids) (pending ?m) = filter (\<lambda>e. fst e \<notin> set (i # ids)) (pending m)"
    by (auto simp: bt_remove_def intro: filter_cong)
  have debt: "(\<exists>e\<in>set (pending m). fst e \<in> set (i # ids) \<and> by_parent m (snd e)) \<longleftrightarrow>
      by_parent m p \<or> (\<exists>e\<in>set (pending ?m). fst e \<in> set ids \<and> by_parent m (snd e))"
  proof (cases "by_parent m p")
    case True
    with i show ?thesis by force
  next
    case False
    then have "\<And>e. e \<in> set (pending m) \<Longrightarrow> by_parent m (snd e) \<Longrightarrow> fst e \<noteq> i"
      using only by (metis prod.collapse)
    with False show ?thesis by (simp add: set_remove) (metis fst_conv snd_conv prod.collapse)
  qed
  have m': "m' = ?m\<lparr>pending := filter (\<lambda>e. fst e \<notin> set ids) (pending ?m),
      answering := answering ?m \<or> taken \<and> returns ?m \<and>
        (\<exists>e\<in>set (pending ?m). fst e \<in> set ids \<and> by_parent ?m (snd e))\<rparr>"
    using Cons.IH [OF _ p(2)] Cons.prems(1) by simp
  have "answering ?m \<or> taken \<and> returns ?m \<and>
        (\<exists>e\<in>set (pending ?m). fst e \<in> set ids \<and> by_parent ?m (snd e)) \<longleftrightarrow>
      answering m \<or> taken \<and> returns m \<and>
        (\<exists>e\<in>set (pending m). fst e \<in> set (i # ids) \<and> by_parent m (snd e))"
    unfolding debt by auto
  then show ?case unfolding m' kept by simp
qed auto

lemma mail_ok_same:
  "mail_ok m \<Longrightarrow> pending m' = pending m \<Longrightarrow> named m' = named m \<Longrightarrow> job m' = job m \<or> job m' = None \<Longrightarrow>
     (answering m' \<longrightarrow> returns m') \<Longrightarrow> mail_ok m'"
  by (elim disjE) (simp_all add: mail_ok_def)

lemma mail_step_ok:
  assumes "mail_step n c m = Inr m'" and "mail_ok m"
  shows "mail_ok m' \<and> named m \<le> named m'"
proof -
  have removed: "mail_ok m' \<and> named m' = named m" if "mail_remove ids taken m = Inr m'" for ids taken
  proof -
    have "ordered (pending m)" using assms(2) by (simp add: mail_ok_def)
    then have "m' = m\<lparr>pending := filter (\<lambda>e. fst e \<notin> set ids) (pending m),
        answering := answering m \<or> taken \<and> returns m \<and>
          (\<exists>e\<in>set (pending m). fst e \<in> set ids \<and> by_parent m (snd e))\<rparr>"
      using mail_removed that by blast
    then show ?thesis using assms(2) by (auto simp: mail_ok_def ordered_filter)
  qed
  show ?thesis
  proof (cases c)
    case JobOpened
    with assms show ?thesis by (fastforce simp: mail_ok_def split: if_splits)
  next
    case (Posted p)
    then have m': "m' = m\<lparr>pending := bt_insert n p (pending m), named := n\<rparr>" "named m < n"
      using assms(1) by (auto split: if_splits)
    have "fst e \<le> n" if "e \<in> set (bt_insert n p (pending m))" for e
    proof -
      have "fst e \<in> insert n (fst ` set (pending m))" using that keys_insert [of n p "pending m"] by blast
      with assms(2) m'(2) show ?thesis by (force simp: mail_ok_def)
    qed
    with m' assms(2) show ?thesis by (force simp: mail_ok_def)
  next
    case (Taken ids)
    with assms(1) removed show ?thesis by simp
  next
    case (Withdrawn ids)
    with assms(1) removed show ?thesis by simp
  qed (rule conjI, rule mail_ok_same [OF assms(2)];
      use assms in \<open>auto simp: mail_ok_def split: if_splits\<close>)+
qed

lemma schedules_step_ok: "schedules_step c ss = Inr ss' \<Longrightarrow> ordered ss \<Longrightarrow> ordered ss'"
  by (cases c) (auto split: if_splits)

lemma folds_step_Inr:
  "folds_step n c f = Inr f' \<longleftrightarrow>
     \<not> is_head c \<and> mail_step n c (the_mail f) = Inr (the_mail f') \<and>
     schedules_step c (the_schedules f) = Inr (the_schedules f') \<and>
     model_step c (the_model f) = Inr (the_model f')"
  by (cases f') (auto simp: folds_step_def split: sum.splits)

lemma folds_step_ok: "folds_step n c f = Inr f' \<Longrightarrow> folds_ok f \<Longrightarrow> folds_ok f'"
  using mail_step_ok schedules_step_ok by (fastforce simp: folds_step_Inr folds_ok_def)

lemma folds_line_ok: "folds_line n cs f = Inr f' \<Longrightarrow> folds_ok f \<Longrightarrow> folds_ok f'"
  by (induction cs arbitrary: f) (auto split: sum.splits dest: folds_step_ok)

lemma seed_ok: "folds_ok (seed s)"
  by (simp add: folds_ok_def seed_def mail_ok_def mail_new_def)

chapter \<open>What they mean\<close>

text \<open>
  What the control folds mean: what each record does to an agent's debt, that a window only
  narrows, which lines the folds take, and that the line a resume commits reconciles them.
\<close>

section \<open>Debts\<close>

lemma owes_iff:
  "owes m \<longleftrightarrow> returns m \<and> (answering m \<or> (\<exists>e\<in>set (pending m). by_parent m (snd e)))"
  by (simp add: owes_def list_ex_iff)

lemma mail_remove_fields:
  "mail_remove ids taken m = Inr m' \<Longrightarrow>
     parent m' = parent m \<and> returns m' = returns m \<and> status m' = status m \<and> job m' = job m \<and> named m' = named m"
  by (induction ids arbitrary: m) (auto split: option.splits)

lemma owes_taken:
  assumes "mail_remove ids True m = Inr m'" and "ordered (pending m)"
  shows "owes m' = owes m"
  unfolding mail_removed [OF assms(2,1)] by (auto simp: owes_iff Bex_def)

lemma owes_withdrawn:
  assumes "mail_remove ids False m = Inr m'" and "ordered (pending m)"
  shows "owes m' \<longleftrightarrow>
    returns m \<and> (answering m \<or> (\<exists>e\<in>set (pending m). fst e \<notin> set ids \<and> by_parent m (snd e)))"
  unfolding mail_removed [OF assms(2,1)] by (auto simp: owes_iff Bex_def)

lemma owes_posted:
  assumes "mail_step n (Posted p) m = Inr m'" and "mail_ok m"
  shows "owes m' \<longleftrightarrow> owes m \<or> returns m \<and> by_parent m p"
proof -
  have m': "m' = m\<lparr>pending := bt_insert n p (pending m), named := n\<rparr>" and "named m < n"
    using assms(1) by (auto split: if_splits)
  then have "\<forall>e\<in>set (pending m). fst e < n" using assms(2) by (fastforce simp: mail_ok_def)
  then have "pending m' = pending m @ [(n, p)]" using m' by (simp add: bt_insert_last)
  with m' show ?thesis by (auto simp: owes_iff)
qed

text \<open>What an agent owes after a record its mail takes.\<close>

definition owed_after :: "'v control \<Rightarrow> 'v mail \<Rightarrow> bool" where
  "owed_after c m =
     (case c of
        SessionResumed _ r _ \<Rightarrow>
          r \<and> (answering m \<or> (\<exists>e\<in>set (pending m). by_parent m (snd e)))
      | Status _ \<Rightarrow> returns m \<and> (\<exists>e\<in>set (pending m). by_parent m (snd e))
      | Posted p \<Rightarrow> owes m \<or> returns m \<and> by_parent m p
      | Withdrawn ids \<Rightarrow>
          returns m \<and> (answering m \<or>
            (\<exists>e\<in>set (pending m). fst e \<notin> set (ne_iter ids) \<and> by_parent m (snd e)))
      | _ \<Rightarrow> owes m)"

lemma owes_step:
  assumes "mail_step n c m = Inr m'" and "mail_ok m"
  shows "owes m' = owed_after c m"
proof (cases c)
  case (Posted p)
  with owes_posted assms show ?thesis by (simp add: owed_after_def)
next
  case (Taken ids)
  with owes_taken assms show ?thesis by (auto simp: owed_after_def mail_ok_def)
next
  case (Withdrawn ids)
  with assms have "mail_remove (ne_iter ids) False m = Inr m'" "ordered (pending m)"
    by (simp_all add: mail_ok_def)
  from owes_withdrawn [OF this] Withdrawn show ?thesis by (simp add: owed_after_def)
next
  case (Status st)
  with assms(1) have "m' = m\<lparr>status := Some st, answering := False\<rparr>" by simp
  with Status show ?thesis by (simp add: owed_after_def owes_iff)
qed (use assms in \<open>auto simp: owed_after_def owes_iff Bex_def split: if_splits\<close>)

section \<open>The window\<close>

lemma narrowed_window:
  "model_step (WindowNarrowed name limit) d = Inr d' \<Longrightarrow>
     window d' = Some limit \<and> model_name d' = name \<and> model_name d = name \<and>
     (\<forall>w. window d = Some w \<longrightarrow> limit < w)"
  by (auto simp: window_def narrows_def model_name_def split: option.splits if_splits)

section \<open>What the folds take\<close>

text \<open>The records an author may commit: each names what the folds hold, in a fresh commit.\<close>

definition takes_control :: "nat \<Rightarrow> 'v folds \<Rightarrow> 'v control \<Rightarrow> bool" where
  "takes_control n f c \<longleftrightarrow>
     (case c of
        SessionStarted _ \<Rightarrow> False
      | JobOpened \<Rightarrow> job (the_mail f) = None \<and> named (the_mail f) < n
      | JobSettled j _ \<Rightarrow> job (the_mail f) = Some j
      | Posted _ \<Rightarrow> named (the_mail f) < n
      | Taken ids \<Rightarrow> distinct (ne_iter ids) \<and> set (ne_iter ids) \<subseteq> fst ` set (pending (the_mail f))
      | Withdrawn ids \<Rightarrow> distinct (ne_iter ids) \<and> set (ne_iter ids) \<subseteq> fst ` set (pending (the_mail f))
      | Unscheduled l \<Rightarrow> l \<in> fst ` set (the_schedules f)
      | WindowNarrowed name limit \<Rightarrow> narrows (the_model f) name limit
      | _ \<Rightarrow> True)"

lemma folds_step_takes:
  "mail_ok (the_mail f) \<Longrightarrow> (\<exists>f'. folds_step n c f = Inr f') \<longleftrightarrow> takes_control n f c"
proof (cases c)
  case (Taken ids)
  assume "mail_ok (the_mail f)"
  then have "(\<exists>m'. mail_remove (ne_iter ids) True (the_mail f) = Inr m') \<longleftrightarrow> takes_control n f c"
    using Taken mail_remove_Inr [of "the_mail f"] by (simp add: takes_control_def mail_ok_def)
  with Taken show ?thesis by (auto simp: folds_step_def split: sum.splits)
next
  case (Withdrawn ids)
  assume "mail_ok (the_mail f)"
  then have "(\<exists>m'. mail_remove (ne_iter ids) False (the_mail f) = Inr m') \<longleftrightarrow> takes_control n f c"
    using Withdrawn mail_remove_Inr [of "the_mail f"] by (simp add: takes_control_def mail_ok_def)
  with Withdrawn show ?thesis by (auto simp: folds_step_def split: sum.splits)
next
  case (Unscheduled l)
  then show ?thesis by (simp add: takes_control_def folds_step_def map_of_eq_None_iff)
qed (auto simp: takes_control_def folds_step_def)

section \<open>The resume line\<close>

lemma withdraw_all:
  "ordered (pending m) \<Longrightarrow>
     mail_remove (map fst (pending m)) False m = Inr (m\<lparr>pending := []\<rparr>)"
proof -
  assume o: "ordered (pending m)"
  then obtain m' where m': "mail_remove (map fst (pending m)) False m = Inr m'"
    using mail_remove_Inr [OF o, of "map fst (pending m)" False] ordered_distinct by auto
  have "filter (\<lambda>e. fst e \<notin> fst ` set (pending m)) (pending m) = []"
    by (simp add: filter_empty_conv)
  with mail_removed [OF o m'] m' show ?thesis by simp
qed

lemma unschedule_all:
  "ordered (the_schedules f) \<Longrightarrow>
     folds_line n (map (\<lambda>e. Unscheduled (fst e)) (the_schedules f)) f = Inr (f\<lparr>the_schedules := []\<rparr>)"
proof (induction "the_schedules f" arbitrary: f)
  case (Cons e es)
  obtain l s where e: "e = (l, s)" by fastforce
  then have f: "the_schedules f = (l, s) # es" using Cons.hyps(2) by simp
  then have "bt_remove l (the_schedules f) = es" using Cons.prems by (metis remove_head)
  moreover from this have "es = the_schedules (f\<lparr>the_schedules := es\<rparr>)" by simp
  moreover from calculation have "folds_step n (Unscheduled l) f = Inr (f\<lparr>the_schedules := es\<rparr>)"
    using f by (simp add: folds_step_def)
  ultimately show ?case
    using Cons.hyps(1) [of "f\<lparr>the_schedules := es\<rparr>"] Cons.prems f by simp
qed simp

lemma reopen_line_reconciles:
  assumes "folds_ok f"
  shows "folds_line n (ne_iter (reopen_line s r ms f)) f =
    Inr \<lparr>the_mail = (the_mail f)\<lparr>returns := r, answering := answering (the_mail f) \<and> r,
                                pending := [], job := None\<rparr>,
         the_schedules = [],
         the_model = (if model_name (the_model f) \<noteq> sel_model s
                      then (the_model f)\<lparr>mod_narrowed := None\<rparr> else the_model f)\<lparr>mod_selected := s\<rparr>\<rparr>"
proof -
  define m1 where "m1 = (the_mail f)\<lparr>returns := r, answering := answering (the_mail f) \<and> r\<rparr>"
  define d where "d = (if model_name (the_model f) \<noteq> sel_model s
                      then (the_model f)\<lparr>mod_narrowed := None\<rparr> else the_model f)\<lparr>mod_selected := s\<rparr>"
  let ?ids = "map fst (pending (the_mail f))"
  have o: "ordered (pending m1)" "ordered (the_schedules f)"
    using assms by (auto simp: m1_def folds_ok_def mail_ok_def)
  have withdrawn: "folds_line n (case ne_collect ?ids of Some ids \<Rightarrow> [Withdrawn ids] | None \<Rightarrow> []) (f\<lparr>the_mail := m1, the_model := d\<rparr>) =
      Inr (f\<lparr>the_mail := m1\<lparr>pending := []\<rparr>, the_model := d\<rparr>)"
  proof (cases "ne_collect ?ids")
    case None
    then have "pending m1 = []" by (simp add: m1_def)
    then have "m1\<lparr>pending := []\<rparr> = m1" by simp
    with None show ?thesis by simp
  next
    case (Some ids)
    then have "map fst (pending m1) = ne_iter ids" by (simp add: m1_def)
    with Some withdraw_all [OF o(1)] show ?thesis by (simp add: folds_step_def)
  qed
  have settled: "folds_line n (case job (the_mail f) of Some j \<Rightarrow> [JobSettled j False] | None \<Rightarrow> [])
        (f\<lparr>the_mail := m1\<lparr>pending := []\<rparr>, the_model := d\<rparr>) =
      Inr (f\<lparr>the_mail := m1\<lparr>pending := [], job := None\<rparr>, the_model := d\<rparr>)"
    by (cases "job (the_mail f)") (simp_all add: folds_step_def m1_def)
  have "folds_step n (SessionResumed s r ms) f = Inr (f\<lparr>the_mail := m1, the_model := d\<rparr>)"
    by (simp add: folds_step_def m1_def d_def)
  with withdrawn settled show ?thesis
    using unschedule_all [of "f\<lparr>the_mail := m1\<lparr>pending := [], job := None\<rparr>, the_model := d\<rparr>" n] o(2)
    by (simp add: reopen_line_def folds_line_append m1_def d_def)
qed

end
