(* ===== verification/Session_Log.thy ===== *)
theory Session_Log
  imports Log_Recovery Control_Folds Record_Fork
begin

text \<open>
  A session over its log: the records of all classes (\<open>exarch/src/record.rs\<close>), the memo both folds
  make of them, the writes that step it (\<open>record/seam.rs\<close>, \<open>record/session.rs\<close>), resuming it from
  the file (\<open>context/resume.rs\<close>, \<open>record/control.rs\<close>) and reading turns back through pointers
  (\<open>context/transcript.rs\<close>).  Display records and most forensic ones fold nothing and are opaque.
\<close>

section \<open>Records\<close>

datatype 'x forensic = SystemNote bytes | CancelledMark | OtherForensic 'x

datatype ('m, 'v, 'x) log_record =
    Transcript "('m, locus) transcript"
  | Control "'v control"
  | Display 'x
  | Forensic "'x forensic"

fun is_control :: "('m, 'v, 'x) log_record \<Rightarrow> bool" where
  "is_control (Control _) = True"
| "is_control _ = False"

record ('m, 'v) memo =
  memo_ctx :: "('m, locus) ctx"
  memo_folds :: "'v folds"

definition memo_new :: "nat \<Rightarrow> started \<Rightarrow> ('m, 'v) memo" where
  "memo_new i s = \<lparr>memo_ctx = context_new i, memo_folds = seed s\<rparr>"

datatype session_fault =
    NoHead
  | NotASession
  | ChildLog nat "nat option"
  | Damaged nat unsealed
  | ContextRefused fault
  | ControlRefused control_refusal

fun step_record ::
  "'m chat_api \<Rightarrow> ('m, locus) reader \<Rightarrow> ('m, 'v) memo \<Rightarrow> ('m, 'v, 'x) log_record located
    \<Rightarrow> session_fault + ('m, 'v) memo" where
  "step_record api rd m (l, Transcript p) =
     map_sum ContextRefused (\<lambda>c. m\<lparr>memo_ctx := c\<rparr>) (step_transcript api rd (memo_ctx m) (Recorded l p))"
| "step_record api rd m (l, Control c) =
     map_sum ControlRefused (\<lambda>f. m\<lparr>memo_folds := f\<rparr>)
       (folds_step (seq_commit (locus_seq l)) c (memo_folds m))"
| "step_record api rd m (l, _) = Inr m"

definition step_commit ::
  "'m chat_api \<Rightarrow> ('m, locus) reader \<Rightarrow> ('m, 'v) memo \<Rightarrow> ('m, 'v, 'x) log_record log_commit
    \<Rightarrow> session_fault + ('m, 'v) memo" where
  "step_commit api rd m c = replay (step_record api rd) m (ne_iter c)"

section \<open>Reading pointers\<close>

fun transcript_of :: "('m, 'v, 'x) log_record \<Rightarrow> ('m, locus) transcript option" where
  "transcript_of (Transcript p) = Some p"
| "transcript_of _ = None"

text \<open>The loci of one pointer read in turn; \<open>None\<close> is the refusal of the first that fails.\<close>

fun read_loci ::
  "('m, 'v, 'x) log_record codec \<Rightarrow> bytes \<Rightarrow> ('m, 'v, 'x) log_record log_commit option \<Rightarrow> locus list
    \<Rightarrow> ('m, locus) transcript list option" where
  "read_loci cd file kept [] = Some []"
| "read_loci cd file kept (l # ls) =
     (case locus_record cd file kept l of
        (Inl _, _) \<Rightarrow> None
      | (Inr r, kept') \<Rightarrow>
          (case transcript_of r of
             None \<Rightarrow> None
           | Some p \<Rightarrow> map_option (Cons p) (read_loci cd file kept' ls)))"

definition read_pointer ::
  "('m, 'v, 'x) log_record codec \<Rightarrow> (nat \<Rightarrow> bytes option) \<Rightarrow> ('m, locus) reader" where
  "read_pointer cd sessions p =
     Option.bind (sessions (source p)) (\<lambda>file. read_loci cd file None (loci p))"

section \<open>Resuming\<close>

fun resume_records ::
  "'m chat_api \<Rightarrow> ('m, locus) reader \<Rightarrow> ('m, 'v) memo
    \<Rightarrow> ((nat \<times> unsealed) + ('m, 'v, 'x) log_record located) list \<Rightarrow> session_fault + ('m, 'v) memo" where
  "resume_records api rd m [] = Inr m"
| "resume_records api rd m (Inl (n, f) # rs) = Inl (Damaged n f)"
| "resume_records api rd m (Inr r # rs) =
     (case step_record api rd m r of Inl e \<Rightarrow> Inl e | Inr m' \<Rightarrow> resume_records api rd m' rs)"

text \<open>The memo, the file left live, and the torn tail put beside it.\<close>

definition resume ::
  "'m chat_api \<Rightarrow> ('m, locus) reader \<Rightarrow> ('m, 'v, 'x) log_record codec \<Rightarrow> nat \<Rightarrow> bytes
    \<Rightarrow> session_fault + ('m, 'v) memo \<times> bytes \<times> bytes" where
  "resume api rd cd i file =
     (case read_log cd file of
        [] \<Rightarrow> Inl NoHead
      | Inl (n, f) # _ \<Rightarrow> Inl (Damaged n f)
      | Inr (_, h) # rs \<Rightarrow>
          (case h of
             Control (SessionStarted s) \<Rightarrow>
               if started_parent s \<noteq> None then Inl (ChildLog (session_id s) (started_parent s))
               else map_sum id (\<lambda>m. (m, quarantine_tail cd file)) (resume_records api rd (memo_new i s) rs)
           | _ \<Rightarrow> Inl NotASession))"

text \<open>What a restart tells the log of the inputs it withdrew unread.\<close>

fun joined_by :: "bytes \<Rightarrow> bytes list \<Rightarrow> bytes" where
  "joined_by sep [] = []"
| "joined_by sep [t] = t"
| "joined_by sep (t # ts) = t @ sep @ joined_by sep ts"

definition withdrawn_note :: "post list \<Rightarrow> 'x forensic" where
  "withdrawn_note ps =
     SystemNote (''the restart withdrew '' @ decimal (length ps)
       @ '' queued input(s) no one had read: ''
       @ joined_by ''; '' (map (\<lambda>p. voice_word p @ '': '' @ take_chars 80 (first_line (post_text p))) ps))"

definition reopen_records ::
  "selected \<Rightarrow> bool \<Rightarrow> nat \<Rightarrow> 'v folds \<Rightarrow> ('m, 'v, 'x) log_record non_empty" where
  "reopen_records s r ms f =
     (case reopen_line s r ms f of
        NonEmpty c cs \<Rightarrow>
          NonEmpty (Control c)
            (map Control cs @
             (if pending (the_mail f) = [] then []
              else [Forensic (withdrawn_note (map snd (pending (the_mail f))))])))"

section \<open>Live sessions\<close>

text \<open>\<open>Emitter::begin\<close>: the head alone, and the folds of that one-line log.\<close>

definition log_begin ::
  "('m, 'v, 'x) log_record codec \<Rightarrow> nat \<Rightarrow> nat option \<Rightarrow> nat \<Rightarrow> started \<Rightarrow> ('m, 'v, 'x) log_record log
    \<Rightarrow> (failure + ('m, 'v, 'x) log_record log_commit \<times> ('m, 'v) memo) \<times> ('m, 'v, 'x) log_record log" where
  "log_begin cd now wr i s lg =
     (case append_line cd now wr (ne_one (Control (SessionStarted s))) lg of
        (Inl f, lg') \<Rightarrow> (Inl f, lg')
      | (Inr c, lg') \<Rightarrow> (Inr (c, memo_new i s), lg'))"

text \<open>
  \<open>Emitter::commit\<close>, \<open>emit\<close> and \<open>commit_to\<close>: append, then step each fold with what was witnessed.
  A refusal is the panic of the code, and the commit stays on the log.
\<close>

datatype ('m, 'v) committed = Failed_Writer failure | Stepped "('m, 'v) memo" | Fold_Panics session_fault

definition log_commit ::
  "'m chat_api \<Rightarrow> ('m, locus) reader \<Rightarrow> ('m, 'v, 'x) log_record codec \<Rightarrow> nat \<Rightarrow> nat option
    \<Rightarrow> ('m, 'v, 'x) log_record non_empty \<Rightarrow> ('m, 'v, 'x) log_record log \<Rightarrow> ('m, 'v) memo
    \<Rightarrow> ('m, 'v) committed \<times> ('m, 'v, 'x) log_record log_commit option \<times> ('m, 'v, 'x) log_record log" where
  "log_commit api rd cd now wr rs lg m =
     (case append_line cd now wr rs lg of
        (Inl f, lg') \<Rightarrow> (Failed_Writer f, None, lg')
      | (Inr c, lg') \<Rightarrow>
          (case step_commit api rd m c of
             Inl e \<Rightarrow> (Fold_Panics e, Some c, lg')
           | Inr m' \<Rightarrow> (Stepped m', Some c, lg')))"

text \<open>
  A session's log, its commits and its memo: created or resumed, then commit by commit, with
  syncs, failures and publishers in between.
\<close>

inductive session ::
  "'m chat_api \<Rightarrow> ('m, locus) reader \<Rightarrow> ('m, 'v, 'x) log_record codec \<Rightarrow> nat
    \<Rightarrow> ('m, 'v, 'x) log_record world \<Rightarrow> ('m, 'v, 'x) log_record log_commit list \<Rightarrow> ('m, 'v) memo \<Rightarrow> bool"
  for api rd cd i where
  created: "log_begin cd now wr i s log_create = (Inr (c, m), lg) \<Longrightarrow>
    session api rd cd i (world_over lg) [c] m"
| resumed: "resume api rd cd i file = Inr (m, whole, tail) \<Longrightarrow> log_append_to cd whole = Inr lg \<Longrightarrow>
    commits_within cd whole 0 0 (log_pos lg) = map Inr cs \<Longrightarrow> session api rd cd i (world_over lg) cs m"
| committed: "session api rd cd i w cs m \<Longrightarrow>
    log_commit api rd cd now wr rs (the_log w) m = (Stepped m', Some c, lg) \<Longrightarrow>
    session api rd cd i (w\<lparr>the_log := lg\<rparr>) (cs @ [c]) m'"
| between: "session api rd cd i w cs m \<Longrightarrow> quiet cd w w' \<Longrightarrow> session api rd cd i w' cs m"

section \<open>The memo is the fold of the log\<close>

definition head_of :: "('m, 'v, 'x) log_record log_commit list \<Rightarrow> started option" where
  "head_of cs =
     (case concat (map ne_iter cs) of (_, Control (SessionStarted s)) # _ \<Rightarrow> Some s | _ \<Rightarrow> None)"

definition folded ::
  "'m chat_api \<Rightarrow> ('m, locus) reader \<Rightarrow> nat \<Rightarrow> ('m, 'v, 'x) log_record log_commit list
    \<Rightarrow> session_fault + ('m, 'v) memo" where
  "folded api rd i cs =
     (case concat (map ne_iter cs) of
        [] \<Rightarrow> Inl NoHead
      | (_, Control (SessionStarted s)) # rs \<Rightarrow> replay (step_record api rd) (memo_new i s) rs
      | _ \<Rightarrow> Inl NotASession)"

lemma replay_run:
  "replay g m (xs @ ys) = (case replay g m xs of Inl e \<Rightarrow> Inl e | Inr m' \<Rightarrow> replay g m' ys)"
  by (induction xs arbitrary: m) (auto split: sum.splits)

lemma folded_snoc:
  "folded api rd i cs = Inr m \<Longrightarrow> folded api rd i (cs @ [c]) = step_commit api rd m c"
  by (auto simp: folded_def step_commit_def replay_run split: list.splits prod.splits log_record.splits control.splits)

lemma folded_head: "folded api rd i cs = Inr m \<Longrightarrow> \<exists>s. head_of cs = Some s"
  by (auto simp: folded_def head_of_def split: list.splits prod.splits log_record.splits control.splits)

lemma replay_prefix: "replay g m (xs @ ys) = Inr m' \<Longrightarrow> \<exists>m1. replay g m xs = Inr m1"
  by (auto simp: replay_run split: sum.splits)

lemma folded_take:
  assumes "folded api rd i cs = Inr m" and "0 < k"
  shows "\<exists>mk. folded api rd i (take k cs) = Inr mk"
proof -
  have "cs \<noteq> []" using assms(1) by (auto simp: folded_def)
  then obtain c cs' where cs: "cs = c # cs'" by (cases cs) auto
  obtain j where k: "k = Suc j" using assms(2) by (cases k) auto
  obtain r rs where c: "ne_iter c = r # rs" by (cases c) auto
  have "concat (map ne_iter cs') = concat (map ne_iter (take j cs')) @ concat (map ne_iter (drop j cs'))"
    by (metis append_take_drop_id concat_append map_append)
  moreover obtain l s where "r = (l, Control (SessionStarted s))"
    using assms(1) cs c by (auto simp: folded_def split: prod.splits log_record.splits control.splits)
  ultimately show ?thesis
    using assms(1) cs c k
      replay_prefix [of "step_record api rd" "memo_new i s" "rs @ concat (map ne_iter (take j cs'))"
        "concat (map ne_iter (drop j cs'))" m]
    by (auto simp: folded_def)
qed

lemma resume_records_Inr: "resume_records api rd m (map Inr rs) = replay (step_record api rd) m rs"
  by (induction rs arbitrary: m) (auto split: sum.splits)

lemma resume_whole:
  assumes "read_log cd file = map Inr (concat (map ne_iter cs))" and "folded api rd i cs = Inr m"
    and "head_of cs = Some s" and "started_parent s = None"
  shows "resume api rd cd i file = Inr (m, quarantine_tail cd file)"
proof -
  obtain l rs where "concat (map ne_iter cs) = (l, Control (SessionStarted s)) # rs"
    using assms(3) by (auto simp: head_of_def split: list.splits prod.splits log_record.splits control.splits)
  with assms show ?thesis by (auto simp: resume_def folded_def resume_records_Inr)
qed

lemma append_line_empty:
  "append_line cd now wr rs log_create = (Inr c, lg) \<Longrightarrow> written cd (world_over lg) [c]"
proof -
  assume c: "append_line cd now wr rs log_create = (Inr c, lg)"
  have "extent cd [] = Inr (0, 0)" by (simp add: extent_def complete_len_torn split_lines.simps [of "[]"])
  then have "log_append_to cd [] = Inr log_create" by (simp add: log_append_to_def log_create_def)
  then have "written cd (world_over log_create) []"
    by (rule written.opened)
      (simp add: log_create_def log_over_def commits_within_def split_lines.simps [of "[]"])
  then have "written cd ((world_over log_create)\<lparr>the_log := lg\<rparr>) ([] @ [c])"
    by (rule written.appended [where now = now and wr = wr and rs = rs]) (simp add: c world_over_def)
  then show ?thesis by (simp add: world_over_def)
qed

lemma resume_records_damage:
  "resume_records api rd m rs = Inr m' \<Longrightarrow> \<exists>xs. rs = map Inr xs \<and> replay (step_record api rd) m xs = Inr m'"
proof (induction api rd m rs rule: resume_records.induct)
  case (1 api rd m)
  then show ?case by (intro exI [of _ "[]"]) simp
next
  case (3 api rd m r rs)
  then obtain m1 where m1: "step_record api rd m r = Inr m1" "resume_records api rd m1 rs = Inr m'"
    by (auto split: sum.splits)
  with 3 obtain xs where "rs = map Inr xs" "replay (step_record api rd) m1 xs = Inr m'" by blast
  with m1 show ?case by (intro exI [of _ "r # xs"]) simp
qed simp

lemma resume_Inr:
  assumes "resume api rd cd i file = Inr (m, whole, tail)"
  obtains l s xs where "read_log cd file = map Inr ((l, Control (SessionStarted s)) # xs)"
    and "started_parent s = None" and "replay (step_record api rd) (memo_new i s) xs = Inr m"
    and "quarantine_tail cd file = (whole, tail)"
proof -
  obtain l s rs where r: "read_log cd file = Inr (l, Control (SessionStarted s)) # rs"
    "started_parent s = None"
    "map_sum id (\<lambda>m. (m, quarantine_tail cd file)) (resume_records api rd (memo_new i s) rs) = Inr (m, whole, tail)"
    using assms by (auto simp: resume_def split: list.splits sum.splits prod.splits log_record.splits control.splits if_splits)
  then have "resume_records api rd (memo_new i s) rs = Inr m" "quarantine_tail cd file = (whole, tail)"
    by (cases "resume_records api rd (memo_new i s) rs"; auto)+
  moreover from this obtain xs where "rs = map Inr xs" "replay (step_record api rd) (memo_new i s) xs = Inr m"
    using resume_records_damage by blast
  ultimately show thesis using that [of l s xs] r by simp
qed

lemma read_whole:
  assumes "quarantine_tail cd file = (whole, tail)"
  shows "read_log cd file = flatten (commits_within cd whole 0 0 (length whole))"
  using assms by (auto simp: read_log_def quarantine_tail_def commits_within_def Let_def)

lemma flatten_Inr [simp]: "flatten (map Inr cs) = map Inr (concat (map ne_iter cs))"
  by (simp add: flatten_def o_def map_concat)

lemma append_line_commit:
  "append_line cd now wr rs lg = (Inr c, lg') \<Longrightarrow>
     \<exists>b e s. c = commit_new (commits lg + 1) b e s rs"
  by (auto simp: append_line_def refusing_def Let_def split: if_splits option.splits) blast

lemma session_ok:
  assumes "session api rd cd i w cs m" and "codec_ok cd"
  shows "written cd w cs \<and> folded api rd i cs = Inr m"
  using assms
proof (induction rule: session.induct)
  case (created now wr s c m lg)
  then have a: "append_line cd now wr (ne_one (Control (SessionStarted s))) log_create = (Inr c, lg)"
    and m: "m = memo_new i s"
    by (auto simp: log_begin_def split: prod.splits sum.splits)
  obtain b e t where "c = commit_new 1 b e t (ne_one (Control (SessionStarted s)))"
    using append_line_commit [OF a] by (auto simp: log_create_def log_over_def)
  then have "ne_iter c = [(Locus (Seq 1 0) b e t, Control (SessionStarted s))]"
    by (simp add: commit_records)
  with append_line_empty [OF a] m show ?case by (simp add: folded_def)
next
  case (resumed f m whole tail lg cs)
  obtain l s xs where r: "read_log cd f = map Inr ((l, Control (SessionStarted s)) # xs)"
    "replay (step_record api rd) (memo_new i s) xs = Inr m" "quarantine_tail cd f = (whole, tail)"
    using resume_Inr [OF resumed.hyps(1)] by metis
  have "log_pos lg = length whole"
    using resumed.hyps(2) by (auto simp: log_append_to_def extent_def log_over_def Let_def split: if_splits)
  then have "read_log cd f = map Inr (concat (map ne_iter cs))"
    using read_whole [OF r(3)] resumed.hyps(3) by simp
  then have "concat (map ne_iter cs) = (l, Control (SessionStarted s)) # xs"
    using r(1) by (metis inj_Inr inj_map_eq_map)
  with r(2) written.opened [OF resumed.hyps(2,3)] show ?case by (simp add: folded_def)
next
  case (committed w cs m now wr rs m' c lg)
  then have "append_line cd now wr rs (the_log w) = (Inr c, lg)" "step_commit api rd m c = Inr m'"
    by (auto simp: log_commit_def split: prod.splits sum.splits)
  with committed folded_snoc written.appended show ?case by metis
next
  case (between w cs m w')
  then show ?case using written.stepped by blast
qed

section \<open>A resume restores the session\<close>

lemma resume_after_crash:
  fixes w :: "('m, 'v, 'x) log_record world"
  assumes session: "session api rd cd i w cs m" and codec: "codec_ok cd" and n: "durable w \<le> n"
    and root: "head_of cs = Some s" "started_parent s = None"
  shows "\<exists>k. synced (the_log w) \<le> k \<and> k \<le> length cs \<and>
    (k = 0 \<longrightarrow> resume api rd cd i (take n (log_file (the_log w))) = Inl NoHead) \<and>
    (0 < k \<longrightarrow> (\<exists>mk whole tail lg.
        folded api rd i (take k cs) = Inr mk \<and>
        resume api rd cd i (take n (log_file (the_log w))) = Inr (mk, whole, tail) \<and>
        log_append_to cd whole = Inr lg \<and> commits lg = k \<and>
        session api rd cd i (world_over lg) (take k cs) mk))"
proof -
  let ?f = "take n (log_file (the_log w))"
  have wr: "written cd w cs" and fo: "folded api rd i cs = Inr m" using session_ok [OF session codec] by auto
  obtain k whole tail lg where k: "synced (the_log w) \<le> k" "k \<le> length cs"
    and q: "quarantine_tail cd ?f = (whole, tail)"
    and r: "read_log cd whole = map Inr (concat (map ne_iter (take k cs)))"
    and lg: "log_append_to cd whole = Inr lg" "commits lg = k" and w': "written cd (world_over lg) (take k cs)"
    using crash_recovery [OF wr codec n] by blast
  have whole: "complete_len cd whole = length whole" using quarantine_whole(2) [OF q] .
  then have rf: "read_log cd ?f = map Inr (concat (map ne_iter (take k cs)))"
    using r read_whole [OF q] by (simp add: read_log_def)
  show ?thesis
  proof (cases "k = 0")
    case True
    with k rf show ?thesis by (intro exI [of _ 0]) (simp add: resume_def)
  next
    case False
    then obtain mk where mk: "folded api rd i (take k cs) = Inr mk" using folded_take [OF fo] by blast
    obtain c cs' where "cs = c # cs'" using False k(2) by (cases cs) auto
    then have "head_of (take k cs) = Some s"
      using root(1) False by (cases k; cases c) (auto simp: head_of_def split: prod.splits)
    then have res: "resume api rd cd i ?f = Inr (mk, whole, tail)"
      using resume_whole [OF rf mk _ root(2)] q by simp
    have "commits_within cd whole 0 0 (length whole) = map Inr (take k cs)"
      using written_commits [OF w' codec] lg(1)
      by (auto simp: log_append_to_def extent_def log_over_def world_over_def Let_def split: if_splits)
    then have "session api rd cd i (world_over lg) (take k cs) mk"
      using session.resumed [OF res lg(1)] lg(1)
      by (auto simp: log_append_to_def extent_def log_over_def Let_def split: if_splits)
    with False k mk res lg show ?thesis by (intro exI [of _ k]) blast
  qed
qed

end
