(* ===== verification/Session_Fork.thy ===== *)
theory Session_Fork
  imports Session_Log
begin

text \<open>
  A fork over the bytes of its parent's log: every turn of a session that inherits nothing has an
  address in the session's own log, and reading it there gives what the turn holds.  So what a
  fork asks of its reader (\<open>reads_back\<close>) is what the log provides.
\<close>

section \<open>Rows a log holds\<close>

fun own_body :: "nat \<Rightarrow> ('l \<times> ('m, 'l) transcript) set \<Rightarrow> ('m, 'l) body \<Rightarrow> bool" where
  "own_body src T (Here rs None) \<longleftrightarrow> (\<lambda>r. (locus r, val r)) ` set rs \<subseteq> T"
| "own_body src T (Here rs (Some _)) \<longleftrightarrow> False"
| "own_body src T (body.Evicted p _) \<longleftrightarrow> source p = src \<and> set (loci p) \<subseteq> fst ` T"
| "own_body src T (body.Withdrawn p) \<longleftrightarrow> source p = src \<and> set (loci p) \<subseteq> fst ` T"

definition rows_own :: "nat \<Rightarrow> ('l \<times> ('m, 'l) transcript) set \<Rightarrow> ('m, 'l) table \<Rightarrow> bool" where
  "rows_own src T t \<longleftrightarrow> table_source t = src \<and> (\<forall>u\<in>set (turns t). own_body src T (body u))"

lemma own_body_mono: "own_body src T b \<Longrightarrow> T \<subseteq> T' \<Longrightarrow> own_body src T' b"
  by (cases "(src, T, b)" rule: own_body.cases) auto

lemma own_body_depart: "own_body src T b \<Longrightarrow> own_body src T (depart_body src un b)"
  by (cases "(src, T, b)" rule: own_body.cases) (force split: option.splits simp: Let_def)+

lemma rows_own_mono: "rows_own src T t \<Longrightarrow> T \<subseteq> T' \<Longrightarrow> rows_own src T' t"
  unfolding rows_own_def using own_body_mono by blast

lemma rows_own_depart: "rows_own src T t \<Longrightarrow> rows_own src T (depart leaving un t)"
  using own_body_depart by (fastforce simp: rows_own_def depart_def depart_turn_def)

lemma rows_own_evict: "rows_own src T t \<Longrightarrow> rows_own src T (evict e t)"
  using rows_own_depart by (fastforce simp: evict_def rows_own_def Let_def)

lemma rows_own_place:
  "rows_own src T t \<Longrightarrow> place api t p = (t', i) \<Longrightarrow> rows_own src T t'"
  by (cases p) (auto simp: open_turn_def rows_own_def Let_def)

lemma rows_own_absorb:
  assumes "absorb i (Recorded l p) b t = Some t'" and "rows_own src T t" and "(l, p) \<in> T"
  shows "rows_own src T t'"
proof -
  obtain u where u: "i < length (turns t)" "absorb_turn (Recorded l p) b (turns t ! i) = Some u"
    "t' = t\<lparr>turns := (turns t)[i := u]\<rparr>"
    using assms(1) by (auto simp: absorb_def split: if_splits)
  have old: "own_body src T (body (turns t ! i))" using assms(2) u(1) by (simp add: rows_own_def)
  have "own_body src T (body u)"
    using u(2) old assms(3)
    by (cases "(src, T, body (turns t ! i))" rule: own_body.cases) auto
  with u assms(2) show ?thesis by (auto simp: rows_own_def dest!: set_update_subset_insert [THEN subsetD])
qed

lemma rows_own_step:
  assumes step: "step_transcript api rd c (Recorded l p) = Inr c'" and "\<not> is_link p"
    and own: "rows_own src T (ctx_table c)"
  shows "rows_own src (insert (l, p) T) (ctx_table c')"
proof -
  obtain c1 where c1: "effect api rd c p = Inr c1" "land api (Recorded l p) (c1\<lparr>ctx_len := ctx_len c + 1\<rparr>) = Inr c'"
    using step by (auto simp: step_accepted)
  have "rows_own src (insert (l, p) T) (ctx_table c)" using rows_own_mono [OF own] by blast
  then have "rows_own src (insert (l, p) T) (ctx_table c1)"
    using effect_table [OF assms(2) c1(1)] rows_own_evict rows_own_depart by (auto simp: withdraw_def)
  moreover obtain t i where t: "place api (ctx_table c1) p = (t, i)" by fastforce
  ultimately have "rows_own src (insert (l, p) T) t" using rows_own_place by blast
  with c1(2) t rows_own_absorb show ?thesis
    by (cases i) (fastforce simp: land_def split: option.splits)+
qed

section \<open>Sessions that inherit nothing\<close>

text \<open>The transcript records of a log, each with its locus.\<close>

fun located_transcript :: "('m, 'v, 'x) log_record located \<Rightarrow> (locus \<times> ('m, locus) transcript) option" where
  "located_transcript (l, Transcript p) = Some (l, p)"
| "located_transcript _ = None"

definition transcripts :: "('m, 'v, 'x) log_record log_commit list \<Rightarrow> (locus \<times> ('m, locus) transcript) list" where
  "transcripts cs = List.map_filter located_transcript (concat (map ne_iter cs))"

definition rooted_log :: "('m, 'v, 'x) log_record log_commit list \<Rightarrow> bool" where
  "rooted_log cs \<longleftrightarrow> (\<forall>(l, p)\<in>set (transcripts cs). fits p \<and> \<not> is_link p)"

lemma step_any_reader:
  "\<not> is_link p \<Longrightarrow> step_transcript api rd c (Recorded l p) = step_transcript api rd' c (Recorded l p)"
  by (cases p) (simp_all add: step_transcript_def effect_def split: sum.split)

lemma located_transcript_Some [simp]: "located_transcript r = Some (l, p) \<longleftrightarrow> r = (l, Transcript p)"
  by (cases r rule: located_transcript.cases) auto

lemma replayed_rows:
  "replay (step_record api rd) m rs = Inr m' \<Longrightarrow>
   \<forall>(l, p)\<in>set (List.map_filter located_transcript rs). fits p \<and> \<not> is_link p \<Longrightarrow>
   rows_own src T (ctx_table (memo_ctx m)) \<Longrightarrow> live api rd' (memo_ctx m) \<Longrightarrow>
   rows_own src (T \<union> set (List.map_filter located_transcript rs)) (ctx_table (memo_ctx m')) \<and>
   live api rd' (memo_ctx m')"
proof (induction rs arbitrary: m T)
  case (Cons r rs)
  obtain l x where r: "r = (l, x)" by fastforce
  from Cons.prems(1) obtain m1 where m1: "step_record api rd m r = Inr m1"
    "replay (step_record api rd) m1 rs = Inr m'" by (auto split: sum.splits)
  show ?case
  proof (cases x)
    case (Transcript p)
    have p: "fits p" "\<not> is_link p" using Cons.prems(2) r Transcript by (simp_all add: List.map_filter_simps)
    obtain c where c: "step_transcript api rd (memo_ctx m) (Recorded l p) = Inr c" "m1 = m\<lparr>memo_ctx := c\<rparr>"
      using m1(1) r Transcript by (cases "step_transcript api rd (memo_ctx m) (Recorded l p)") auto
    then have "rows_own src (insert (l, p) T) (ctx_table (memo_ctx m1))"
      using rows_own_step [OF _ p(2) Cons.prems(3)] by simp
    moreover have "live api rd' (memo_ctx m1)"
      using live.stepped [OF Cons.prems(4) p] c step_any_reader [OF p(2), of api rd _ l rd'] by simp
    ultimately show ?thesis
      using Cons.IH [OF m1(2), of "insert (l, p) T"] Cons.prems(2) r Transcript
      by (simp add: List.map_filter_simps)
  next
    case (Control k)
    then have "memo_ctx m1 = memo_ctx m"
      using m1(1) r by (cases "folds_step (seq_commit (locus_seq l)) k (memo_folds m)") auto
    with Cons.IH [OF m1(2)] Cons.prems r Control show ?thesis by (simp add: List.map_filter_simps)
  qed (use Cons m1 r in \<open>simp_all add: List.map_filter_simps\<close>)
qed (simp add: List.map_filter_simps)

lemma session_rows:
  assumes "session api rd cd i w cs m" and "codec_ok cd" and "rooted_log cs"
  shows "rows_own i (set (transcripts cs)) (ctx_table (memo_ctx m)) \<and> live api rd' (memo_ctx m)"
proof -
  have "folded api rd i cs = Inr m" using session_ok [OF assms(1,2)] by blast
  then obtain l s rs where rs: "concat (map ne_iter cs) = (l, Control (SessionStarted s)) # rs"
    "replay (step_record api rd) (memo_new i s) rs = Inr m"
    by (auto simp: folded_def split: list.splits prod.splits log_record.splits control.splits)
  then have t: "transcripts cs = List.map_filter located_transcript rs"
    by (simp add: transcripts_def List.map_filter_simps)
  have "rows_own i {} (ctx_table (memo_ctx (memo_new i s)))" "live api rd' (memo_ctx (memo_new i s))"
    by (simp_all add: rows_own_def memo_new_def context_new_def table_new_def live.fresh [of api rd' i, unfolded context_new_def table_new_def])
  from replayed_rows [OF rs(2) _ this] assms(3) show ?thesis by (simp add: t rooted_log_def)
qed

section \<open>Addresses read back\<close>

lemma read_loci_records:
  "locus_records cd file kept ls = Inr rs \<Longrightarrow> read_loci cd file kept ls = those (map transcript_of rs)"
proof (induction ls arbitrary: kept rs)
  case (Cons l ls)
  obtain a kept' where a: "locus_record cd file kept l = (a, kept')" by fastforce
  with Cons.prems obtain r rs' where r: "a = Inr r" "locus_records cd file kept' ls = Inr rs'" "rs = r # rs'"
    by (cases a; cases "locus_records cd file kept' ls") auto
  with a Cons.IH [OF r(2)] show ?case by (simp split: option.split)
qed simp

lemma those_map_some: "(\<And>x. x \<in> set xs \<Longrightarrow> f x = Some (g x)) \<Longrightarrow> those (map f xs) = Some (map g xs)"
  by (induction xs) auto

text \<open>Transcript records of a written log, read back through their loci.\<close>

lemma pointer_reads:
  fixes cs :: "('m, 'v, 'x) log_record log_commit list"
  assumes "written cd w cs" and "codec_ok cd" and "sessions i = Some (log_file (the_log w))"
    and "set xs \<subseteq> set (transcripts cs)"
  shows "read_pointer cd sessions (Pointer i (map fst xs)) = Some (map snd xs)"
proof -
  let ?ys = "map (\<lambda>(l, p). (l, Transcript p :: ('m, 'v, 'x) log_record)) xs"
  have "set ?ys \<subseteq> set (concat (map ne_iter cs))"
  proof
    fix y assume "y \<in> set ?ys"
    then obtain l p where y: "y = (l, Transcript p)" "(l, p) \<in> set xs" by auto
    then have "(l, p) \<in> set (transcripts cs)" using assms(4) by blast
    then show "y \<in> set (concat (map ne_iter cs))"
      using y(1) by (auto simp: transcripts_def List.map_filter_def)
  qed
  from written_locus_records [OF assms(1,2) this]
  have "locus_records cd (log_file (the_log w)) None (map fst xs) = Inr (map snd ?ys)"
    by (simp add: comp_def case_prod_beta)
  moreover have "those (map transcript_of (map snd ?ys)) = Some (map snd xs)"
    by (simp add: comp_def case_prod_beta those_map_some)
  ultimately show ?thesis
    using assms(3) read_loci_records by (fastforce simp: read_pointer_def)
qed

lemma session_reads_back:
  assumes "session api rd cd i w cs m" and "codec_ok cd" and "rooted_log cs"
    and "sessions i = Some (log_file (the_log w))" and "u \<in> set (ctx_turns (memo_ctx m))"
  shows "\<exists>ps. read_pointer cd sessions (turn_address i (body u)) = Some ps \<and>
    (is_resident u \<longrightarrow> ps = map val (turn_records u))"
proof -
  have w: "written cd w cs" using session_ok [OF assms(1,2)] by blast
  have own: "own_body i (set (transcripts cs)) (body u)"
    using session_rows [OF assms(1,2,3)] assms(5) by (simp add: rows_own_def)
  have gone: "\<exists>ps. read_pointer cd sessions p = Some ps"
    if p: "source p = i" "set (loci p) \<subseteq> fst ` set (transcripts cs)" for p
  proof -
    have "\<exists>xs. map fst xs = ls \<and> set xs \<subseteq> set (transcripts cs)" if "set ls \<subseteq> fst ` set (transcripts cs)" for ls
      using that
    proof (induction ls)
      case (Cons l ls)
      then obtain xs where "map fst xs = ls" "set xs \<subseteq> set (transcripts cs)" by auto
      moreover obtain q where "(l, q) \<in> set (transcripts cs)" using Cons.prems by auto
      ultimately show ?case by (intro exI [of _ "(l, q) # xs"]) simp
    qed simp
    from this [OF p(2)] obtain xs where xs: "map fst xs = loci p" "set xs \<subseteq> set (transcripts cs)" by blast
    moreover have "p = Pointer i (loci p)" using p(1) by (cases p) simp
    ultimately show ?thesis using pointer_reads [where sessions = sessions and i = i, OF w assms(2,4) xs(2)] by metis
  qed
  show ?thesis
  proof (cases "(i, set (transcripts cs), body u)" rule: own_body.cases)
    case (1 src T rs)
    then have rs: "body u = Here rs None" by simp
    let ?xs = "map (\<lambda>r. (locus r, val r)) rs"
    have "set ?xs \<subseteq> set (transcripts cs)" using own rs by simp
    from pointer_reads [where sessions = sessions and i = i, OF w assms(2,4) this] show ?thesis
      by (simp add: rs own_pointer_def comp_def turn_records_def)
  qed (use own gone in \<open>auto simp: is_resident_def turn_location_def\<close>)
qed

lemma session_reader:
  assumes "session api rd cd i w cs m" and "codec_ok cd" and "rooted_log cs"
    and "sessions i = Some (log_file (the_log w))"
  shows "\<forall>u\<in>set (ctx_turns (memo_ctx m)).
    reads_back (read_pointer cd sessions) (table_source (ctx_table (memo_ctx m))) u"
proof
  fix u assume u: "u \<in> set (ctx_turns (memo_ctx m))"
  have rows: "rows_own i (set (transcripts cs)) (ctx_table (memo_ctx m))"
    using session_rows [OF assms(1-3)] by blast
  then have "own_body i (set (transcripts cs)) (body u)" "table_source (ctx_table (memo_ctx m)) = i"
    using u by (simp_all add: rows_own_def)
  with session_reads_back [where sessions = sessions, OF assms u] show "reads_back (read_pointer cd sessions) (table_source (ctx_table (memo_ctx m))) u"
    by (cases "(i, set (transcripts cs), body u)" rule: own_body.cases)
      (auto simp: reads_back_def is_resident_def turn_location_def turn_records_def)
qed

end
