(* ===== verification/Mailbox.thy ===== *)
theory Mailbox
  imports Control_Folds Record_Context
begin

text \<open>
  An agent's cell and the transactions on it (\<open>exarch/src/bus/mailbox.rs\<close>, the payloads and
  notices of \<open>bus/post.rs\<close>): the queue of payloads beside the recorded mail, what is admitted and
  when a job opens and settles.  One transaction holds the cell's lock throughout, so it is one
  function.  The journal is the number of commits on the log and whether its writer has failed,
  which also ends the agent's life; whether an append or a sync succeeds is an argument.  A panic
  is an outcome.  Waiting on the condition variable is returning \<open>Parked\<close>, to be called again.
\<close>

section \<open>Payloads\<close>

datatype agent_message = AgentMessage (msg_from: nat) (msg_from_name: bytes) (msg_text: bytes)

datatype 'v input =
    Human bytes
  | Task agent_message
  | Message agent_message
  | Child nat bytes "'v child_status" nat
  | Wakeup nat bytes
  | Surface nat "'v list"

datatype memory = Amnemon | Mnemon

datatype read = Hatch memory "bytes option" | Context | Resources

datatype rewrite = Clear | Evict | Rewind nat | Close

datatype pick = Pick (pick_account: bytes) (pick_model: bytes) (pick_via: "bytes list option") (pick_tuning: tuning)

datatype command = Read read | Rewrite rewrite | Model pick

datatype 'v queued = Input "'v input" | Command command

datatype 'v item = Posted nat "'v queued" | Gone nat

fun read_text :: "read \<Rightarrow> bytes" where
  "read_text (Hatch m n) =
     (case m of Amnemon \<Rightarrow> ''/new'' | Mnemon \<Rightarrow> ''/branch'') @
     (case n of None \<Rightarrow> [] | Some x \<Rightarrow> '' '' @ x)"
| "read_text Context = ''/context''"
| "read_text Resources = ''/resources''"

fun rewrite_text :: "rewrite \<Rightarrow> bytes" where
  "rewrite_text Clear = ''/clear''"
| "rewrite_text Evict = ''/evict''"
| "rewrite_text (Rewind t) = ''/rewind '' @ decimal t"
| "rewrite_text Close = ''/close''"

fun command_text :: "command \<Rightarrow> bytes" where
  "command_text (Read r) = read_text r"
| "command_text (Rewrite r) = rewrite_text r"
| "command_text (Model p) = ''/model '' @ pick_model p"

definition render :: "agent_message \<Rightarrow> bytes" where
  "render m = ''[EXARCH AGENT '' @ decimal (msg_from m) @ '' MESSAGE: '' @ msg_from_name m @ '']''
     @ [CHR 0x0A] @ msg_text m @ [CHR 0x0A] @ ''[/EXARCH]''"

text \<open>How a duration reads, and the notice of a worker's end, are presentation code.\<close>

record 'v phrases =
  elapsed_phrase :: "nat \<Rightarrow> bytes"
  surface_notice :: "'v list \<Rightarrow> bytes"

fun notice :: "'v phrases \<Rightarrow> bytes \<Rightarrow> settlement \<Rightarrow> nat \<Rightarrow> bytes" where
  "notice ph n SettledReplied ms =
     ''[agent '' @ [CHR 0x27] @ n @ [CHR 0x27] @ '' replied after '' @ elapsed_phrase ph ms
     @ '': run '' @ [CHR 0x60, CHR 0x60] @ '' exarch-agents '' @ [CHR 0x60] @ ''read '' @ [CHR 0x27]
     @ n @ [CHR 0x27, CHR 0x20, CHR 0x60, CHR 0x60] @ '' to read it]''"
| "notice ph n (SettledFailed why) ms =
     ''[agent '' @ [CHR 0x27] @ n @ [CHR 0x27] @ '' failed after '' @ elapsed_phrase ph ms @ '': '' @ why @ '']''"
| "notice ph n SettledStopped ms =
     ''[agent '' @ [CHR 0x27] @ n @ [CHR 0x27] @ '' stopped after '' @ elapsed_phrase ph ms
     @ '': message it to continue]''"

fun posted :: "'v phrases \<Rightarrow> 'v queued \<Rightarrow> post" where
  "posted ph (Input (Human t)) = Post (Some voice.Human) t None"
| "posted ph (Input (Task m)) = Post (Some Peer) (msg_text m) (Some (msg_from m))"
| "posted ph (Input (Message m)) = Post (Some Peer) (render m) (Some (msg_from m))"
| "posted ph (Input (Child i n s ms)) = Post (Some Harness) (notice ph n (settlement_of s) ms) (Some i)"
| "posted ph (Input (Wakeup _ t)) = Post (Some voice.Wakeup) t None"
| "posted ph (Input (Surface _ vs)) = Post (Some Harness) (surface_notice ph vs) None"
| "posted ph (Command c) = Post None (command_text c) None"

datatype source = UserSource | ScheduleSource | AgentSource | MessageSource | ReadSource | RewriteSource
  | SurfaceSource | ModelSource

definition source_all :: "source list" where
  "source_all = [UserSource, ScheduleSource, AgentSource, MessageSource, ReadSource, RewriteSource,
     SurfaceSource, ModelSource]"

fun queued_source :: "'v queued \<Rightarrow> source" where
  "queued_source (Input (Human _)) = UserSource"
| "queued_source (Input (Task _)) = MessageSource"
| "queued_source (Input (Message _)) = MessageSource"
| "queued_source (Input (Child _ _ _ _)) = AgentSource"
| "queued_source (Input (Wakeup _ _)) = ScheduleSource"
| "queued_source (Input (Surface _ _)) = SurfaceSource"
| "queued_source (Command (Read _)) = ReadSource"
| "queued_source (Command (Rewrite _)) = RewriteSource"
| "queued_source (Command (Model _)) = ModelSource"

fun item_source :: "'v item \<Rightarrow> source" where
  "item_source (Posted _ q) = queued_source q"
| "item_source (Gone _) = AgentSource"

fun is_human :: "'v queued \<Rightarrow> bool" where
  "is_human (Input (Human _)) = True"
| "is_human _ = False"

section \<open>Runs of human posts\<close>

datatype ('t, 'h) part = HumanPart 'h | PostPart 't | AsidePart 't

datatype ('t, 'h) group = Run "'h non_empty" | One 't

fun ne_push :: "'a non_empty \<Rightarrow> 'a \<Rightarrow> 'a non_empty" where
  "ne_push (NonEmpty x xs) y = NonEmpty x (xs @ [y])"

fun close :: "('h non_empty \<times> 't list) option \<Rightarrow> ('t, 'h) group list" where
  "close None = []"
| "close (Some (run, asides)) = Run run # map One asides"

fun runs_from ::
  "('h non_empty \<times> 't list) option \<Rightarrow> ('t, 'h) part list \<Rightarrow> ('t, 'h) group list" where
  "runs_from open [] = close open"
| "runs_from (Some (run, asides)) (HumanPart h # ps) = runs_from (Some (ne_push run h, asides)) ps"
| "runs_from None (HumanPart h # ps) = runs_from (Some (ne_one h, [])) ps"
| "runs_from (Some (run, asides)) (AsidePart a # ps) = runs_from (Some (run, asides @ [a])) ps"
| "runs_from None (AsidePart a # ps) = One a # runs_from None ps"
| "runs_from open (PostPart t # ps) = close open @ One t # runs_from None ps"

definition runs :: "('i \<Rightarrow> ('t, 'h) part) \<Rightarrow> 'i list \<Rightarrow> ('t, 'h) group list" where
  "runs part is = runs_from None (map part is)"

fun joined_texts :: "bytes list \<Rightarrow> bytes" where
  "joined_texts [] = []"
| "joined_texts [t] = t"
| "joined_texts (t # ts) = t @ CHR 0x0A # joined_texts ts"

fun item_part :: "'v item \<Rightarrow> ('v item, nat) part" where
  "item_part (Posted i q) = (if is_human q then HumanPart i else PostPart (Posted i q))"
| "item_part (Gone a) = AsidePart (Gone a)"

fun queued_part :: "'v queued \<Rightarrow> ('v queued, bytes) part" where
  "queued_part (Input (Human t)) = HumanPart t"
| "queued_part q = PostPart q"

section \<open>State\<close>

datatype admission = Free | Gated | Parent nat

record 'v mailbox =
  admission :: admission
  has_parent :: bool
  ended :: bool
  failure_noticed :: bool
  last_commit :: nat
  broken :: bool
  box_folds :: "'v folds"
  queue :: "'v item list"
  stopped :: bool
  released :: bool
  since_ms :: nat
  exchange :: "bool option"
  waiting_for_input :: bool
  busy :: bool
  last_exchange :: "nat option"
  rung :: "(bytes \<times> nat) list"

abbreviation mail_in :: "'v mailbox \<Rightarrow> 'v mail" where
  "mail_in mb \<equiv> the_mail (box_folds mb)"

abbreviation schedules_in :: "'v mailbox \<Rightarrow> schedules" where
  "schedules_in mb \<equiv> the_schedules (box_folds mb)"

abbreviation model_in :: "'v mailbox \<Rightarrow> model" where
  "model_in mb \<equiv> the_model (box_folds mb)"

definition mailbox_new :: "admission \<Rightarrow> bool \<Rightarrow> nat \<Rightarrow> nat \<Rightarrow> 'v folds \<Rightarrow> 'v mailbox option" where
  "mailbox_new a p n now f =
     (if pending (the_mail f) = [] \<and> job (the_mail f) = None \<and> the_schedules f = []
      then Some \<lparr>admission = a, has_parent = p, ended = False, failure_noticed = False,
             last_commit = n, broken = False, box_folds = f, queue = [], stopped = False,
             released = False, since_ms = now, exchange = None, waiting_for_input = True,
             busy = False, last_exchange = None, rung = []\<rparr>
      else None)"

fun admitted :: "'v mailbox \<Rightarrow> 'v item \<Rightarrow> bool option" where
  "admitted mb (Gone _) = Some True"
| "admitted mb (Posted i q) =
     (if job (mail_in mb) \<noteq> None then Some True
      else (case q of
              Command _ \<Rightarrow> Some True
            | Input (Child _ _ _ _) \<Rightarrow> Some True
            | Input x \<Rightarrow>
                (case admission mb of
                   Free \<Rightarrow> Some True
                 | Gated \<Rightarrow> Some (released mb)
                 | Parent _ \<Rightarrow>
                     (case x of
                        Human _ \<Rightarrow> Some True
                      | _ \<Rightarrow> map_option (by_parent (mail_in mb)) (pending_post i (mail_in mb))))))"

text \<open>The first item admitted: a panic where one asked about before it is not pending.\<close>

fun next_index :: "'v mailbox \<Rightarrow> 'v item list \<Rightarrow> nat option option" where
  "next_index mb [] = Some None"
| "next_index mb (x # xs) =
     (case admitted mb x of
        None \<Rightarrow> None
      | Some True \<Rightarrow> Some (Some 0)
      | Some False \<Rightarrow> map_option (map_option Suc) (next_index mb xs))"

definition schedules_pending :: "'v mailbox \<Rightarrow> bool" where
  "schedules_pending mb \<longleftrightarrow> returns (mail_in mb) \<and> schedules_in mb \<noteq> []"

section \<open>Commits\<close>

datatype 'a outcome = Done 'a | Unavailable | Panicked

definition and_then ::
  "'a outcome \<times> 's \<Rightarrow> ('a \<Rightarrow> 's \<Rightarrow> 'b outcome \<times> 's) \<Rightarrow> 'b outcome \<times> 's" where
  "and_then r f =
     (case r of
        (Done a, s) \<Rightarrow> f a s
      | (Unavailable, s) \<Rightarrow> (Unavailable, s)
      | (Panicked, s) \<Rightarrow> (Panicked, s))"

definition journal_fails :: "'v mailbox \<Rightarrow> 'v mailbox" where
  "journal_fails mb = mb\<lparr>broken := True, ended := True\<rparr>"

definition commit_to :: "bool \<Rightarrow> 'v control non_empty \<Rightarrow> 'v mailbox \<Rightarrow> nat outcome \<times> 'v mailbox" where
  "commit_to ok line mb =
     (if broken mb then (Unavailable, mb)
      else if \<not> ok then (Unavailable, journal_fails mb)
      else let n = last_commit mb + 1 in
        (case folds_line n (ne_iter line) (box_folds mb) of
           Inl _ \<Rightarrow> (Panicked, mb\<lparr>last_commit := n\<rparr>)
         | Inr f \<Rightarrow> (Done n, mb\<lparr>last_commit := n, box_folds := f\<rparr>)))"

definition journal_sync :: "bool \<Rightarrow> 'v mailbox \<Rightarrow> unit outcome \<times> 'v mailbox" where
  "journal_sync ok mb =
     (if broken mb then (Unavailable, mb)
      else if ok then (Done (), mb) else (Unavailable, journal_fails mb))"

definition post_with ::
  "'v phrases \<Rightarrow> bool \<Rightarrow> 'v queued \<Rightarrow> 'v control option \<Rightarrow> 'v mailbox \<Rightarrow> nat outcome \<times> 'v mailbox" where
  "post_with ph ok q change mb =
     and_then
       (commit_to ok
          (NonEmpty (control.Posted (posted ph q)) (case change of None \<Rightarrow> [] | Some c \<Rightarrow> [c])) mb)
       (\<lambda>n mb. (Done n, mb\<lparr>queue := queue mb @ [Posted n q], waiting_for_input := False\<rparr>))"

fun is_posted :: "'v control \<Rightarrow> bool" where
  "is_posted (control.Posted _) = True"
| "is_posted _ = False"

fun departs :: "'v mail \<Rightarrow> 'v item \<Rightarrow> bool" where
  "departs m (Posted i _) = (pending_post i m = None)"
| "departs m (Gone _) = False"

fun payload :: "'v item \<Rightarrow> 'v queued list" where
  "payload (Posted _ q) = [q]"
| "payload (Gone _) = []"

definition prune :: "'v mailbox \<Rightarrow> 'v queued list \<times> 'v mailbox" where
  "prune mb =
     (concat (map payload (filter (departs (mail_in mb)) (queue mb))),
      mb\<lparr>queue := filter (\<lambda>x. \<not> departs (mail_in mb) x) (queue mb)\<rparr>)"

definition commit_line ::
  "bool \<Rightarrow> 'v control non_empty \<Rightarrow> 'v mailbox \<Rightarrow> 'v queued list outcome \<times> 'v mailbox" where
  "commit_line ok line mb =
     (if list_ex is_posted (ne_iter line) then (Panicked, mb)
      else and_then (commit_to ok line mb) (\<lambda>_ mb. map_prod Done id (prune mb)))"

section \<open>Posting\<close>

datatype refused = EndedRefusal | Resting | Unsynced

definition post_item ::
  "'v phrases \<Rightarrow> bool \<Rightarrow> 'v queued \<Rightarrow> 'v mailbox \<Rightarrow> (refused + nat) outcome \<times> 'v mailbox" where
  "post_item ph ok q mb =
     (if ended mb then (Done (Inl EndedRefusal), mb)
      else if (case admission mb of Parent _ \<Rightarrow> True | _ \<Rightarrow> False) \<and> job (mail_in mb) = None \<and>
              (case q of Input (Message _) \<Rightarrow> True | _ \<Rightarrow> False) \<and>
              \<not> by_parent (mail_in mb) (posted ph q)
      then (Done (Inl Resting), mb)
      else (case post_with ph ok q None mb of
              (Done n, mb') \<Rightarrow> (Done (Inr n), mb')
            | (Unavailable, mb') \<Rightarrow> (Done (Inl EndedRefusal), mb')
            | (Panicked, mb') \<Rightarrow> (Panicked, mb')))"

text \<open>\<open>AgentAddress::post\<close> and \<open>command\<close>: queued, then synced.\<close>

definition deliver ::
  "'v phrases \<Rightarrow> bool \<Rightarrow> bool \<Rightarrow> 'v queued \<Rightarrow> 'v mailbox \<Rightarrow> (refused + unit) outcome \<times> 'v mailbox" where
  "deliver ph ok synced_ok q mb =
     (case post_item ph ok q mb of
        (Done (Inr _), mb') \<Rightarrow>
          (case journal_sync synced_ok mb' of
             (Done _, mb'') \<Rightarrow> (Done (Inr ()), mb'')
           | (_, mb'') \<Rightarrow> (Done (Inl Unsynced), mb''))
      | (Done (Inl r), mb') \<Rightarrow> (Done (Inl r), mb')
      | (Unavailable, mb') \<Rightarrow> (Done (Inl EndedRefusal), mb')
      | (Panicked, mb') \<Rightarrow> (Panicked, mb'))"

section \<open>Reporting\<close>

definition retire_schedules :: "'v mailbox \<Rightarrow> 'v control list" where
  "retire_schedules mb = map (\<lambda>e. Unscheduled (fst e)) (schedules_in mb)"

definition withdrawing :: "nat list \<Rightarrow> 'v control list" where
  "withdrawing ids = (case ne_collect ids of Some n \<Rightarrow> [control.Withdrawn n] | None \<Rightarrow> [])"

fun wakeup_id :: "'v item \<Rightarrow> nat option" where
  "wakeup_id (Posted i (Input (Wakeup _ _))) = Some i"
| "wakeup_id _ = None"

definition report_line :: "'v child_status \<Rightarrow> 'v mailbox \<Rightarrow> 'v control non_empty" where
  "report_line st mb =
     NonEmpty (control.Status st)
       (retire_schedules mb @
        withdrawing
          (if \<not> ended mb then List.map_filter wakeup_id (queue mb)
           else map fst (pending (mail_in mb))))"

text \<open>The outcome, and the notices the parent is sent.\<close>

definition report ::
  "bool \<Rightarrow> bool \<Rightarrow> bytes \<Rightarrow> 'v child_status \<Rightarrow> 'v mailbox
    \<Rightarrow> (unit outcome \<times> 'v child_status list) \<times> 'v mailbox" where
  "report ok synced_ok why st mb =
     (let owed = owes (mail_in mb) in
      case and_then (commit_line ok (report_line st mb) mb) (\<lambda>_. journal_sync synced_ok) of
        (Done _, mb') \<Rightarrow> ((Done (), if owed \<and> has_parent mb' then [st] else []), mb')
      | (Unavailable, mb') \<Rightarrow>
          if owed then
            ((Unavailable, if failure_noticed mb' \<or> \<not> has_parent mb' then [] else [Failed why]),
             mb'\<lparr>failure_noticed := True\<rparr>)
          else ((Unavailable, []), mb')
      | (Panicked, mb') \<Rightarrow> ((Panicked, []), mb'))"

section \<open>Schedules and the model\<close>

definition txn_schedule :: "bool \<Rightarrow> bytes \<Rightarrow> schedule \<Rightarrow> 'v mailbox \<Rightarrow> bool outcome \<times> 'v mailbox" where
  "txn_schedule ok l s mb =
     (if map_of (schedules_in mb) l \<noteq> None then (Done False, mb)
      else and_then (commit_line ok (ne_one (Scheduled l s)) mb) (\<lambda>_ mb. (Done True, mb)))"

definition txn_unschedule :: "bool \<Rightarrow> bytes \<Rightarrow> 'v mailbox \<Rightarrow> bool outcome \<times> 'v mailbox" where
  "txn_unschedule ok l mb =
     (if map_of (schedules_in mb) l = None then (Done False, mb)
      else and_then (commit_line ok (ne_one (Unscheduled l)) mb) (\<lambda>_ mb. (Done True, mb)))"

fun is_wakeup :: "nat \<Rightarrow> 'v item \<Rightarrow> bool" where
  "is_wakeup i (Posted _ (Input (Wakeup j _))) = (j = i)"
| "is_wakeup i _ = False"

definition fire ::
  "'v phrases \<Rightarrow> bool \<Rightarrow> bytes \<Rightarrow> nat \<Rightarrow> nat option \<Rightarrow> bytes \<Rightarrow> 'v mailbox \<Rightarrow> bool outcome \<times> 'v mailbox" where
  "fire ph ok l i next_ms t mb =
     (case map_of (schedules_in mb) l of
        None \<Rightarrow> (Done False, mb)
      | Some s \<Rightarrow>
          let fresh = \<not> list_ex (is_wakeup i) (queue mb);
              change = (case next_ms of
                  Some ms \<Rightarrow> Scheduled l (s\<lparr>sch_next := ms, sch_fires := sch_fires s + (if fresh then 1 else 0)\<rparr>)
                | None \<Rightarrow> Unscheduled l) in
          if fresh then
            and_then (post_with ph ok (Input (Wakeup i t)) (Some change) mb) (\<lambda>_ mb. (Done True, mb))
          else and_then (commit_line ok (ne_one change) mb) (\<lambda>_ mb. (Done True, mb)))"

definition change_model :: "bool \<Rightarrow> selected \<Rightarrow> 'v mailbox \<Rightarrow> unit outcome \<times> 'v mailbox" where
  "change_model ok s mb = and_then (commit_line ok (ne_one (ModelChanged s)) mb) (\<lambda>_ mb. (Done (), mb))"

definition narrow :: "bool \<Rightarrow> bytes \<Rightarrow> nat \<Rightarrow> 'v mailbox \<Rightarrow> bool outcome \<times> 'v mailbox" where
  "narrow ok name limit mb =
     (if \<not> narrows (model_in mb) name limit then (Done False, mb)
      else and_then (commit_line ok (ne_one (WindowNarrowed name limit)) mb) (\<lambda>_ mb. (Done True, mb)))"

section \<open>Clearing and recalling\<close>

fun cleared_id :: "'v item \<Rightarrow> nat option" where
  "cleared_id (Posted i (Input (Child _ _ _ _))) = Some i"
| "cleared_id (Posted i (Input (Wakeup _ _))) = Some i"
| "cleared_id (Posted i (Input (Surface _ _))) = Some i"
| "cleared_id _ = None"

fun is_gone :: "'v item \<Rightarrow> bool" where
  "is_gone (Gone _) = True"
| "is_gone (Posted _ _) = False"

definition txn_clear :: "bool \<Rightarrow> 'v mailbox \<Rightarrow> unit outcome \<times> 'v mailbox" where
  "txn_clear ok mb =
     and_then
       (case ne_collect (withdrawing (List.map_filter cleared_id (queue mb)) @ retire_schedules mb) of
          None \<Rightarrow> (Done [], mb)
        | Some line \<Rightarrow> commit_line ok line mb)
       (\<lambda>_ mb. (Done (), mb\<lparr>queue := filter (\<lambda>x. \<not> is_gone x) (queue mb)\<rparr>))"

fun pending_part :: "nat \<times> post \<Rightarrow> (post, nat \<times> post) part" where
  "pending_part (i, p) = (if post_voice p = Some voice.Human then HumanPart (i, p) else PostPart p)"

definition pending_groups :: "'v mail \<Rightarrow> (post, nat \<times> post) group list" where
  "pending_groups m = runs pending_part (pending m)"

fun group_run :: "('t, 'h) group \<Rightarrow> 'h non_empty option" where
  "group_run (Run r) = Some r"
| "group_run (One _) = None"

definition txn_recall :: "bool \<Rightarrow> 'v mailbox \<Rightarrow> bytes list outcome \<times> 'v mailbox" where
  "txn_recall ok mb =
     (let rs = List.map_filter group_run (pending_groups (mail_in mb));
          texts = map (\<lambda>r. joined_texts (map (post_text \<circ> snd) (ne_iter r))) rs in
      case ne_collect (map fst (concat (map ne_iter rs))) of
        None \<Rightarrow> (Done texts, mb)
      | Some ids \<Rightarrow>
          and_then (commit_line ok (ne_one (control.Withdrawn ids)) mb) (\<lambda>_ mb. (Done texts, mb)))"

definition queued_texts :: "'v mailbox \<Rightarrow> bytes list" where
  "queued_texts mb =
     (if ended mb then []
      else List.map_filter
        (\<lambda>g. case g of
           Run r \<Rightarrow> Some (joined_texts (map (post_text \<circ> snd) (ne_iter r)))
         | One p \<Rightarrow> if post_voice p = None then Some (post_text p) else None)
        (pending_groups (mail_in mb)))"

section \<open>Taking and draining\<close>

definition take_at :: "bool \<Rightarrow> nat \<Rightarrow> 'v mailbox \<Rightarrow> 'v queued outcome \<times> 'v mailbox" where
  "take_at ok index mb =
     (case (case runs item_part (drop index (queue mb)) of
              Run ids # _ \<Rightarrow> Some ids
            | One (Posted i _) # _ \<Rightarrow> Some (ne_one i)
            | _ \<Rightarrow> None) of
        None \<Rightarrow> (Panicked, mb)
      | Some ids \<Rightarrow>
          and_then (commit_line ok (ne_one (Taken ids)) mb)
            (\<lambda>taken mb.
               (case runs queued_part taken of
                  Run ts # _ \<Rightarrow> (Done (Input (Human (joined_texts (ne_iter ts)))), mb)
                | One q # _ \<Rightarrow> (Done q, mb)
                | [] \<Rightarrow> (Panicked, mb))))"

definition exchange_cancelled :: "'v mailbox \<Rightarrow> bool" where
  "exchange_cancelled mb = (case exchange mb of None \<Rightarrow> False | Some c \<Rightarrow> c \<or> ended mb)"

definition txn_stop :: "nat option \<Rightarrow> 'v mailbox \<Rightarrow> bool \<times> 'v mailbox" where
  "txn_stop j mb =
     (if \<not> ended mb \<and>
         (case job (mail_in mb) of None \<Rightarrow> False | Some k \<Rightarrow> (case j of None \<Rightarrow> True | Some i \<Rightarrow> i = k))
      then (True, mb\<lparr>stopped := True, exchange := map_option (\<lambda>_. True) (exchange mb)\<rparr>)
      else (False, mb))"

datatype 'v drained = DrainedInput "'v input" | DrainedGone nat | DrainedRead read | DrainedModel pick

fun holds_drain :: "'v item \<Rightarrow> bool" where
  "holds_drain (Posted _ (Command (Rewrite _))) = True"
| "holds_drain _ = False"

text \<open>A slot of the drained prefix: a post's id, or who has gone.\<close>

fun slot_of :: "'v item \<Rightarrow> nat + nat" where
  "slot_of (Posted i _) = Inl i"
| "slot_of (Gone a) = Inr a"

fun fill :: "(nat + nat) list \<Rightarrow> 'v queued list \<Rightarrow> ('v queued + nat) list option" where
  "fill [] taken = Some []"
| "fill (Inr a # ss) taken = map_option (Cons (Inr a)) (fill ss taken)"
| "fill (Inl _ # ss) [] = None"
| "fill (Inl _ # ss) (q # taken) = map_option (Cons (Inl q)) (fill ss taken)"

fun slot_part :: "'v queued + nat \<Rightarrow> ('v drained, bytes) part option" where
  "slot_part (Inl (Input (Human t))) = Some (HumanPart t)"
| "slot_part (Inl (Input x)) = Some (PostPart (DrainedInput x))"
| "slot_part (Inl (Command (Read r))) = Some (PostPart (DrainedRead r))"
| "slot_part (Inl (Command (Model p))) = Some (PostPart (DrainedModel p))"
| "slot_part (Inl (Command (Rewrite _))) = None"
| "slot_part (Inr a) = Some (AsidePart (DrainedGone a))"

fun drained_group :: "('v drained, bytes) group \<Rightarrow> 'v drained" where
  "drained_group (Run ts) = DrainedInput (Human (joined_texts (ne_iter ts)))"
| "drained_group (One d) = d"

definition txn_drain :: "bool \<Rightarrow> 'v mailbox \<Rightarrow> 'v drained list outcome \<times> 'v mailbox" where
  "txn_drain ok mb =
     (if exchange_cancelled mb then (Done [], mb)
      else let slots = map slot_of (takeWhile (\<lambda>x. \<not> holds_drain x) (queue mb)) in
        and_then
          (case ne_collect (List.map_filter (\<lambda>s. case s of Inl i \<Rightarrow> Some i | Inr _ \<Rightarrow> None) slots) of
             None \<Rightarrow> (Done [], mb)
           | Some ids \<Rightarrow> commit_line ok (ne_one (Taken ids)) mb)
          (\<lambda>taken mb.
             let mb' = mb\<lparr>queue := drop (length (filter (\<lambda>s. case s of Inr _ \<Rightarrow> True | _ \<Rightarrow> False) slots)) (queue mb)\<rparr> in
             (case Option.bind (fill slots taken) (\<lambda>fs. those (map slot_part fs)) of
                None \<Rightarrow> (Panicked, mb')
              | Some ps \<Rightarrow> (Done (map drained_group (runs_from None ps)), mb'))))"

section \<open>The owner\<close>

datatype 'v next_step =
    Took "'v input" | Commanded command | Rung | Departed nat | Settled bool bool | Ended | Parked

definition next_settle ::
  "bool \<Rightarrow> nat \<Rightarrow> bool \<Rightarrow> 'v mailbox \<Rightarrow> 'v next_step outcome \<times> 'v mailbox" where
  "next_settle ok now pending_work mb =
     (let park = (Done Parked, mb\<lparr>waiting_for_input := \<not> pending_work \<and> \<not> schedules_pending mb\<rparr>) in
      case (job (mail_in mb), admission mb) of
        (Some j, _) \<Rightarrow>
          if \<not> pending_work \<and> \<not> schedules_pending mb then
            (case commit_line ok (ne_one (JobSettled j (stopped mb))) mb of
               (Done _, mb') \<Rightarrow>
                 (Done (Settled (stopped mb) (owes (mail_in mb'))),
                  mb'\<lparr>since_ms := now, waiting_for_input := False\<rparr>)
             | (Unavailable, mb') \<Rightarrow> (Done Ended, mb')
             | (Panicked, mb') \<Rightarrow> (Panicked, mb'))
          else park
      | (None, Parent idle) \<Rightarrow>
          if idle - (now - since_ms mb) = 0 then (Done Ended, mb\<lparr>ended := True\<rparr>) else park
      | _ \<Rightarrow> park)"

definition next_take :: "bool \<Rightarrow> nat \<Rightarrow> 'v mailbox \<Rightarrow> 'v next_step outcome \<times> 'v mailbox" where
  "next_take ok i mb =
     (let mb1 = mb\<lparr>waiting_for_input := False\<rparr> in
      case queue mb ! i of
        Gone a \<Rightarrow> (Done (Departed a), mb1\<lparr>queue := take i (queue mb) @ drop (Suc i) (queue mb)\<rparr>)
      | Posted _ _ \<Rightarrow>
          (case take_at ok i mb1 of
             (Done (Command c), mb') \<Rightarrow> (Done (Commanded c), mb')
           | (Done (Input x), mb') \<Rightarrow> (Done (Took x), mb'\<lparr>exchange := Some False\<rparr>)
           | (Unavailable, mb') \<Rightarrow> (Done Ended, mb')
           | (Panicked, mb') \<Rightarrow> (Panicked, mb')))"

definition next_once ::
  "bool \<Rightarrow> nat \<Rightarrow> bool \<Rightarrow> 'v mailbox \<Rightarrow> 'v next_step outcome \<times> 'v mailbox" where
  "next_once ok now pending_work mb =
     (if ended mb then (Done Ended, mb)
      else if rung mb \<noteq> [] then (Done Rung, mb)
      else let mb1 = mb\<lparr>busy := pending_work\<rparr> in
        (case next_index mb1 (queue mb1) of
           None \<Rightarrow> (Panicked, mb1)
         | Some (Some i) \<Rightarrow> next_take ok i mb1
         | Some None \<Rightarrow> next_settle ok now pending_work mb1))"

definition begin_job :: "bool \<Rightarrow> nat \<Rightarrow> 'v mailbox \<Rightarrow> bool outcome \<times> 'v mailbox" where
  "begin_job ok now mb =
     (if ended mb then (Done False, mb)
      else if job (mail_in mb) = None then
        (case commit_line ok (ne_one JobOpened) mb of
           (Done _, mb') \<Rightarrow> (Done True, mb'\<lparr>stopped := False, released := False, last_exchange := Some now\<rparr>)
         | (Unavailable, mb') \<Rightarrow> (Done False, mb')
         | (Panicked, mb') \<Rightarrow> (Panicked, mb'))
      else (Done True, mb\<lparr>last_exchange := Some now\<rparr>))"

fun from_outside :: "'v item \<Rightarrow> bool" where
  "from_outside (Posted _ (Input (Human _))) = True"
| "from_outside (Posted _ (Input (Task _))) = True"
| "from_outside (Posted _ (Input (Message _))) = True"
| "from_outside (Posted _ (Input (Child _ _ _ _))) = True"
| "from_outside _ = False"

definition has_input :: "'v mailbox \<Rightarrow> bool" where
  "has_input mb = list_ex from_outside (queue mb)"

definition source_depths :: "'v mailbox \<Rightarrow> (source \<times> nat) list" where
  "source_depths mb =
     (let ss = map (\<lambda>g. case g of Run _ \<Rightarrow> UserSource | One x \<Rightarrow> item_source x) (runs item_part (queue mb)) in
      map (\<lambda>s. (s, length (filter (\<lambda>q. q = s) ss))) source_all)"

definition box_drop :: "'v mailbox \<Rightarrow> 'v mailbox" where
  "box_drop mb = mb\<lparr>ended := True, queue := []\<rparr>"

section \<open>Addresses\<close>

definition ring :: "bytes \<Rightarrow> nat \<Rightarrow> 'v mailbox \<Rightarrow> 'v mailbox" where
  "ring l i mb =
     (if ended mb then mb
      else mb\<lparr>rung := bt_insert l (case map_of (rung mb) l of None \<Rightarrow> i | Some j \<Rightarrow> max i j) (rung mb)\<rparr>)"

definition take_rung :: "'v mailbox \<Rightarrow> (bytes \<times> nat) list \<times> 'v mailbox" where
  "take_rung mb = (rung mb, mb\<lparr>rung := []\<rparr>)"

definition gone :: "nat \<Rightarrow> 'v mailbox \<Rightarrow> 'v mailbox" where
  "gone a mb =
     (if ended mb then mb else mb\<lparr>queue := queue mb @ [Gone a], waiting_for_input := False\<rparr>)"

definition recall :: "bool \<Rightarrow> bool \<Rightarrow> 'v mailbox \<Rightarrow> bytes list outcome \<times> 'v mailbox" where
  "recall ok synced_ok mb =
     (if broken mb then (Unavailable, mb)
      else and_then (if \<not> ended mb then txn_recall ok mb else (Done [], mb))
        (\<lambda>texts mb. and_then (journal_sync synced_ok mb) (\<lambda>_ mb. (Done texts, mb))))"

definition stop :: "bool \<Rightarrow> bool \<Rightarrow> nat \<Rightarrow> 'v mailbox \<Rightarrow> bytes list option outcome \<times> 'v mailbox" where
  "stop ok synced_ok j mb =
     (if broken mb then (Unavailable, mb)
      else (case txn_stop (Some j) mb of
              (False, mb') \<Rightarrow> (Done None, mb')
            | (True, mb') \<Rightarrow>
                and_then (txn_recall ok mb')
                  (\<lambda>texts mb. and_then (journal_sync synced_ok mb) (\<lambda>_ mb. (Done (Some texts), mb)))))"

definition release :: "'v mailbox \<Rightarrow> bool \<times> 'v mailbox" where
  "release mb =
     (if ended mb then (False, mb)
      else (True, if admission mb = Gated \<and> job (mail_in mb) = None then mb\<lparr>released := True\<rparr> else mb))"

definition end_life :: "'v mailbox \<Rightarrow> 'v mailbox" where
  "end_life mb = mb\<lparr>ended := True\<rparr>"

record 'v status_view =
  st_selected :: selected
  st_rest :: "nat option"
  st_waiting :: bool
  st_busy :: bool
  st_job :: "nat option"
  st_report :: "'v child_status option"
  st_owes :: bool
  st_last_exchange :: "nat option"

definition status_of :: "'v mailbox \<Rightarrow> 'v status_view" where
  "status_of mb =
     \<lparr>st_selected = mod_selected (model_in mb),
      st_rest = (if job (mail_in mb) = None then Some (since_ms mb) else None),
      st_waiting = waiting_for_input mb, st_busy = busy mb, st_job = job (mail_in mb),
      st_report = status (mail_in mb), st_owes = owes (mail_in mb),
      st_last_exchange = last_exchange mb\<rparr>"

definition working :: "'v status_view \<Rightarrow> bool" where
  "working s \<longleftrightarrow> st_owes s \<or> st_job s \<noteq> None"

definition reply_pending :: "'v status_view \<Rightarrow> bool" where
  "reply_pending s \<longleftrightarrow> st_owes s \<or> st_report s = None \<and> st_job s \<noteq> None"

end
