(* ===== verification/Session_Reopen.thy ===== *)
theory Session_Reopen
  imports Session_Log Mailbox
begin

text \<open>
  Opening a session's log and reopening it (\<open>AgentLog::create\<close> and \<open>reopen\<close> of
  \<open>exarch/src/record/session.rs\<close>): the records each commits, in the code's order, and what they
  leave.  What each append of the operating system answers, and the clock at it, is \<open>io\<close>.
\<close>

section \<open>Commits in turn\<close>

text \<open>Lines committed one after another; the first failure ends it.\<close>

fun log_commits ::
  "'m chat_api \<Rightarrow> ('m, locus) reader \<Rightarrow> ('m, 'v, 'x) log_record codec \<Rightarrow> (nat \<Rightarrow> nat \<times> nat option)
    \<Rightarrow> ('m, 'v, 'x) log_record non_empty list \<Rightarrow> ('m, 'v, 'x) log_record log \<Rightarrow> ('m, 'v) memo
    \<Rightarrow> ('m, 'v) committed \<times> ('m, 'v, 'x) log_record log_commit list \<times> ('m, 'v, 'x) log_record log" where
  "log_commits api rd cd io [] lg m = (Stepped m, [], lg)"
| "log_commits api rd cd io (l # ls) lg m =
     (case log_commit api rd cd (fst (io 0)) (snd (io 0)) l lg m of
        (Stepped m', Some c, lg') \<Rightarrow>
          (case log_commits api rd cd (\<lambda>n. io (Suc n)) ls lg' m' of (r, cs, lg'') \<Rightarrow> (r, c # cs, lg''))
      | (r, None, lg') \<Rightarrow> (r, [], lg')
      | (r, Some c, lg') \<Rightarrow> (r, [c], lg'))"

section \<open>Creating\<close>

definition create_session ::
  "'m chat_api \<Rightarrow> ('m, locus) reader \<Rightarrow> ('m, 'v, 'x) log_record codec \<Rightarrow> (nat \<Rightarrow> nat \<times> nat option) \<Rightarrow> nat
    \<Rightarrow> started \<Rightarrow> ('m, locus) transcript option \<Rightarrow> bytes
    \<Rightarrow> ('m, 'v) committed \<times> ('m, 'v, 'x) log_record log_commit list \<times> ('m, 'v, 'x) log_record log" where
  "create_session api rd cd io i s inherited system =
     (case log_begin cd (fst (io 0)) (snd (io 0)) i s log_create of
        (Inl f, lg) \<Rightarrow> (Failed_Writer f, [], lg)
      | (Inr (c, m), lg) \<Rightarrow>
          (case log_commits api rd cd (\<lambda>n. io (Suc n))
              (map (\<lambda>p. ne_one (Transcript p))
                ((case inherited of Some p \<Rightarrow> [p] | None \<Rightarrow> []) @ [System system])) lg m of
             (r, cs, lg') \<Rightarrow> (r, c # cs, lg')))"

section \<open>Reopening\<close>

datatype unopened = NoRecordFile | Unresumed session_fault | TornTail nat

text \<open>What a reopen commits before the system prompt: what a quiesce owes, and the resume line.\<close>

definition reopen_lines ::
  "'m chat_api \<Rightarrow> selected \<Rightarrow> bool \<Rightarrow> nat \<Rightarrow> ('m, 'v) memo \<Rightarrow> ('m, 'v, 'x) log_record non_empty list" where
  "reopen_lines api s r ms m =
     (if is_ready (memo_ctx m) then []
      else map (\<lambda>p. ne_one (Transcript p))
        (quiesce_records api (ctx_state (memo_ctx m)) Aborted (next_id (memo_ctx m)))) @
     [reopen_records s r ms (memo_folds m)]"

definition reopen_session ::
  "'m chat_api \<Rightarrow> ('m, locus) reader \<Rightarrow> ('m, 'v, 'x) log_record codec \<Rightarrow> (nat \<Rightarrow> nat \<times> nat option) \<Rightarrow> nat
    \<Rightarrow> selected \<Rightarrow> bool \<Rightarrow> bytes \<Rightarrow> nat \<Rightarrow> bytes option
    \<Rightarrow> unopened + ('m, 'v) committed \<times> ('m, 'v, 'x) log_record log_commit list \<times> ('m, 'v, 'x) log_record log" where
  "reopen_session api rd cd io i s r system ms stored =
     (case stored of None \<Rightarrow> Inl NoRecordFile | Some file \<Rightarrow>
     (case resume api rd cd i file of
        Inl e \<Rightarrow> Inl (Unresumed e)
      | Inr (m, whole, tail) \<Rightarrow>
          (case log_append_to cd whole of
             Inl n \<Rightarrow> Inl (TornTail n)
           | Inr lg \<Rightarrow>
               let lines = reopen_lines api s r ms m in
               Inr (case log_commits api rd cd io lines lg m of
                  (Stepped m', cs, lg') \<Rightarrow>
                    (case log_commits api rd cd (\<lambda>n. io (length lines + n))
                        (if system \<noteq> ctx_system (memo_ctx m') then [ne_one (Transcript (System system))] else [])
                        lg' m' of
                       (r', cs', lg'') \<Rightarrow> (r', cs @ cs', lg''))
                | other \<Rightarrow> other))))"

section \<open>What commits keep\<close>

lemma log_commit_Stepped:
  "log_commit api rd cd now wr rs lg m = (Stepped m', c, lg') \<Longrightarrow> \<exists>c'. c = Some c'"
  by (auto simp: log_commit_def split: prod.splits sum.splits)

lemma log_commits_session:
  "log_commits api rd cd io ls (the_log w) m = (Stepped m', cs', lg) \<Longrightarrow> session api rd cd i w cs m \<Longrightarrow>
     session api rd cd i (w\<lparr>the_log := lg\<rparr>) (cs @ cs') m'"
proof (induction ls arbitrary: io w m cs cs')
  case (Cons l ls)
  obtain r c lg1 where c: "log_commit api rd cd (fst (io 0)) (snd (io 0)) l (the_log w) m = (r, c, lg1)"
    by (metis surj_pair)
  then obtain m1 where m1: "r = Stepped m1" using Cons.prems(1) by (cases r; cases c) auto
  obtain c1 where c1: "c = Some c1" using log_commit_Stepped c m1 by blast
  obtain r2 cs2 lg2 where rest: "log_commits api rd cd (\<lambda>n. io (Suc n)) ls lg1 m1 = (r2, cs2, lg2)"
    by (metis surj_pair)
  then have cs': "cs' = c1 # cs2" "r2 = Stepped m'" "lg2 = lg" using Cons.prems(1) c m1 c1 by auto
  have "session api rd cd i (w\<lparr>the_log := lg1\<rparr>) (cs @ [c1]) m1"
    using session.committed [OF Cons.prems(2)] c m1 c1 by blast
  from Cons.IH [OF _ this, of "\<lambda>n. io (Suc n)" cs2] rest cs' show ?case by simp
next
  case Nil
  then have "w\<lparr>the_log := lg\<rparr> = w" by simp
  with Nil show ?case by (metis Pair_inject append_Nil2 committed.inject(2) log_commits.simps(1))
qed

text \<open>Lines whose steps are never refused, whatever the loci they are given.\<close>

fun surely ::
  "'m chat_api \<Rightarrow> ('m, locus) reader \<Rightarrow> ('m, 'v, 'x) log_record non_empty list \<Rightarrow> (('m, 'v) memo \<Rightarrow> bool)
    \<Rightarrow> ('m, 'v) memo \<Rightarrow> bool" where
  "surely api rd [] Q m \<longleftrightarrow> Q m"
| "surely api rd (l # ls) Q m \<longleftrightarrow>
     (\<forall>n b e s. \<exists>m'. step_commit api rd m (commit_new n b e s l) = Inr m' \<and> surely api rd ls Q m')"

lemma surely_append: "surely api rd (xs @ ys) Q m \<longleftrightarrow> surely api rd xs (surely api rd ys Q) m"
  by (induction xs arbitrary: m) auto

lemma surely_mono: "surely api rd ls Q m \<Longrightarrow> (\<And>m. Q m \<Longrightarrow> R m) \<Longrightarrow> surely api rd ls R m"
  by (induction ls arbitrary: m) (simp_all, blast)

lemma log_commits_surely:
  "surely api rd ls Q m \<Longrightarrow>
   (\<exists>m' cs lg'. log_commits api rd cd io ls lg m = (Stepped m', cs, lg') \<and> Q m') \<or>
   (\<exists>f cs lg'. log_commits api rd cd io ls lg m = (Failed_Writer f, cs, lg'))"
proof (induction ls arbitrary: io lg m)
  case (Cons l ls)
  obtain a lg1 where a: "append_line cd (fst (io 0)) (snd (io 0)) l lg = (a, lg1)" by fastforce
  show ?case
  proof (cases a)
    case (Inl f)
    with a show ?thesis by (simp add: log_commit_def)
  next
    case (Inr c)
    with a append_line_commit obtain b e s where c: "c = commit_new (commits lg + 1) b e s l" by blast
    from Cons.prems obtain m1 where m1: "step_commit api rd m c = Inr m1" "surely api rd ls Q m1"
      unfolding c surely.simps by meson
    from Cons.IH [OF m1(2), of "\<lambda>n. io (Suc n)" lg1] a Inr m1(1) show ?thesis
      by (auto simp: log_commit_def)
  qed
qed simp

section \<open>The folds of a session\<close>

lemma step_record_folds:
  "step_record api rd m r = Inr m' \<Longrightarrow> folds_ok (memo_folds m) \<Longrightarrow> folds_ok (memo_folds m')"
  by (cases "(api, rd, m, r)" rule: step_record.cases)
    (auto dest: folds_step_ok split: sum.splits simp: map_sum_def)

lemma replay_folds:
  "replay (step_record api rd) m rs = Inr m' \<Longrightarrow> folds_ok (memo_folds m) \<Longrightarrow> folds_ok (memo_folds m')"
  by (induction rs arbitrary: m) (auto split: sum.splits dest: step_record_folds)

lemma folded_folds: "folded api rd i cs = Inr m \<Longrightarrow> folds_ok (memo_folds m)"
  by (auto simp: folded_def memo_new_def seed_ok dest!: replay_folds split: list.splits prod.splits log_record.splits control.splits)

text \<open>A commit of control records and forensic notes steps the folds alone.\<close>

fun line_controls :: "('m, 'v, 'x) log_record list \<Rightarrow> 'v control list option" where
  "line_controls [] = Some []"
| "line_controls (Control c # rs) = map_option (Cons c) (line_controls rs)"
| "line_controls (Forensic f # rs) = line_controls rs"
| "line_controls (_ # rs) = None"

lemma replay_controls:
  "line_controls (map snd rs) = Some cs \<Longrightarrow> \<forall>r\<in>set rs. seq_commit (locus_seq (fst r)) = n \<Longrightarrow>
   replay (step_record api rd) m rs =
     (case folds_line n cs (memo_folds m) of Inl e \<Rightarrow> Inl (ControlRefused e) | Inr f \<Rightarrow> Inr (m\<lparr>memo_folds := f\<rparr>))"
proof (induction rs arbitrary: m cs)
  case (Cons r rs)
  obtain l x where r: "r = (l, x)" by fastforce
  show ?case
  proof (cases x)
    case (Control c)
    with Cons.prems r obtain cs' where cs': "line_controls (map snd rs) = Some cs'" "cs = c # cs'" by auto
    with Cons.prems r Control show ?thesis
      by (cases "folds_step n c (memo_folds m)") (simp_all add: Cons.IH split: sum.split)
  qed (use Cons r in auto)
qed simp

lemma controls_map [simp]: "line_controls (map Control cs @ rs) = map_option ((@) cs) (line_controls rs)"
  by (induction cs) (simp_all add: option.map_ident option.map_comp comp_def)

lemma reopen_records_controls:
  "line_controls (ne_iter (reopen_records s r ms f)) = Some (ne_iter (reopen_line s r ms f))"
  by (cases "reopen_line s r ms f") (simp add: reopen_records_def)

lemma commit_steps_controls:
  assumes "line_controls (ne_iter rs) = Some cs"
  shows "step_commit api rd m (commit_new n b e s rs) =
    (case folds_line n cs (memo_folds m) of Inl e \<Rightarrow> Inl (ControlRefused e) | Inr f \<Rightarrow> Inr (m\<lparr>memo_folds := f\<rparr>))"
proof -
  let ?rs = "ne_iter (commit_new n b e s rs)"
  have "map snd ?rs = ne_iter rs" by (simp add: commit_records comp_def case_prod_beta)
  moreover have "\<forall>r\<in>set ?rs. seq_commit (locus_seq (fst r)) = n" by (auto simp: commit_records)
  ultimately show ?thesis unfolding step_commit_def using assms replay_controls by metis
qed

section \<open>What a reopen leaves\<close>

text \<open>The folds the resume line leaves: nothing pending, no job open, no wakeup booked, the model the caller's.\<close>

definition reconciled :: "selected \<Rightarrow> bool \<Rightarrow> 'v folds \<Rightarrow> 'v folds" where
  "reconciled s r f =
     \<lparr>the_mail = (the_mail f)\<lparr>returns := r, answering := answering (the_mail f) \<and> r, pending := [], job := None\<rparr>,
      the_schedules = [],
      the_model = (if model_name (the_model f) \<noteq> sel_model s
                   then (the_model f)\<lparr>mod_narrowed := None\<rparr> else the_model f)\<lparr>mod_selected := s\<rparr>\<rparr>"

lemma reopen_commit:
  "memo_folds m = f \<Longrightarrow> folds_ok f \<Longrightarrow>
     step_commit api rd m (commit_new n b e t (reopen_records s r ms f)) =
       Inr (m\<lparr>memo_folds := reconciled s r f\<rparr>)"
  by (simp add: commit_steps_controls [OF reopen_records_controls] reopen_line_reconciles reconciled_def)

lemma transcript_commit:
  "step_commit api rd m (commit_new n b e s (ne_one (Transcript p))) =
     map_sum ContextRefused (\<lambda>c. m\<lparr>memo_ctx := c\<rparr>)
       (step_transcript api rd (memo_ctx m) (Recorded (Locus (Seq n 0) b e s) p))"
  by (cases "step_transcript api rd (memo_ctx m) (Recorded (Locus (Seq n 0) b e s) p)")
    (simp_all add: step_commit_def commit_records ne_one_def)

lemma quiesce_surely:
  fixes m :: "('m, 'v) memo"
  assumes c: "live api rd (memo_ctx m)"
    and ids: "\<forall>pending. ctx_state (memo_ctx m) = AwaitingToolResults pending \<longrightarrow> distinct pending"
  shows "surely api rd
    (if is_ready (memo_ctx m) then []
      else map (\<lambda>p. ne_one (Transcript p :: ('m, 'v, 'x) log_record))
        (quiesce_records api (ctx_state (memo_ctx m)) Aborted (next_id (memo_ctx m))))
    (\<lambda>m'. is_ready (memo_ctx m') \<and> live api rd (memo_ctx m') \<and> memo_folds m' = memo_folds m) m"
proof (cases "is_ready (memo_ctx m)")
  case True
  with c show ?thesis by simp
next
  case False
  then obtain pending where p: "ctx_state (memo_ctx m) = AwaitingToolResults pending" by (auto simp: ready_admits)
  let ?owed = "ToolResults (unrun_results pending) :: ('m, locus) transcript"
  have "\<exists>c'. step_transcript api rd (memo_ctx m) (Recorded l ?owed) = Inr c' \<and> is_ready c' \<and> live api rd c'" for l
  proof -
    have "takes_record api (memo_ctx m) (Recorded l ?owed)"
      using results_taken [OF live_ok [OF c] p] unrun_results_valid ids p by blast
    then obtain c' where c': "step_transcript api rd (memo_ctx m) (Recorded l ?owed) = Inr c'"
      using model_fold.accepts [OF live_ok [OF c]] by blast
    then have "ctx_state c' = AwaitingAssistantAfterToolResults" using step_state [OF c'] p by simp
    moreover have "live api rd c'" using live.stepped [OF c _ _ c'] by (simp add: fits_def)
    ultimately show ?thesis using c' by (simp add: is_ready_def)
  qed
  note owed = this
  have "\<exists>m'. step_commit api rd m (commit_new n b e s (ne_one (Transcript ?owed :: ('m, 'v, 'x) log_record))) = Inr m' \<and>
      is_ready (memo_ctx m') \<and> live api rd (memo_ctx m') \<and> memo_folds m' = memo_folds m" for n b e s
    using owed [of "Locus (Seq n 0) b e s"] by (auto simp: transcript_commit)
  moreover have "quiesce_records api (ctx_state (memo_ctx m)) Aborted (next_id (memo_ctx m)) = [?owed]"
    by (simp add: quiesce_records_def p unrun_results_def)
  ultimately show ?thesis
    using False by simp
qed

lemma system_step:
  assumes "live api rd c" and "is_ready c"
  shows "\<exists>c'. step_transcript api rd c (Recorded l (System x)) = Inr c' \<and>
    is_ready c' \<and> live api rd c' \<and> ctx_system c' = x"
proof -
  have "takes_record api c (Recorded l (System x))" by (simp add: takes_record_def judge_ok fits_def)
  then obtain c' where c': "step_transcript api rd c (Recorded l (System x)) = Inr c'"
    using model_fold.accepts [OF live_ok [OF assms(1)]] by blast
  moreover have "live api rd c'" using live.stepped [OF assms(1) _ _ c'] by (simp add: fits_def)
  moreover have "is_ready c'" "ctx_system c' = x"
    using c' assms(2) by (auto simp: step_accepted effect_def land_def is_ready_def)
  ultimately show ?thesis by blast
qed

lemma system_surely:
  fixes m :: "('m, 'v) memo"
  assumes "live api rd (memo_ctx m)" and "is_ready (memo_ctx m)"
  shows "surely api rd (if x \<noteq> ctx_system (memo_ctx m) then [ne_one (Transcript (System x) :: ('m, 'v, 'x) log_record)] else [])
    (\<lambda>m'. is_ready (memo_ctx m') \<and> live api rd (memo_ctx m') \<and> ctx_system (memo_ctx m') = x \<and>
       memo_folds m' = memo_folds m) m"
proof (cases "x = ctx_system (memo_ctx m)")
  case False
  have "\<exists>m'. step_commit api rd m (commit_new n b e s (ne_one (Transcript (System x) :: ('m, 'v, 'x) log_record))) = Inr m' \<and>
      is_ready (memo_ctx m') \<and> live api rd (memo_ctx m') \<and> ctx_system (memo_ctx m') = x \<and>
      memo_folds m' = memo_folds m" for n b e s
    using system_step [OF assms, of "Locus (Seq n 0) b e s" x] by (auto simp: transcript_commit)
  with False show ?thesis by simp
qed (use assms in auto)

lemma flatten_whole: "flatten xs = map Inr ys \<Longrightarrow> \<exists>cs. xs = map Inr cs"
proof (induction xs arbitrary: ys)
  case (Cons x xs)
  show ?case
  proof (cases x)
    case (Inl e)
    with Cons.prems show ?thesis by (auto simp: flatten_def)
  next
    case (Inr c)
    with Cons.prems obtain zs where "flatten xs = map Inr zs"
      by (auto simp: flatten_def append_eq_map_conv)
    with Cons.IH obtain cs where "xs = map Inr cs" by blast
    with Inr show ?thesis by (intro exI [of _ "c # cs"]) simp
  qed
qed simp

lemma resume_appends:
  assumes "resume api rd cd i file = Inr (m, whole, tail)"
  shows "\<exists>lg cs. log_append_to cd whole = Inr lg \<and> session api rd cd i (world_over lg) cs m \<and>
    folds_ok (memo_folds m)"
proof -
  obtain l s xs where r: "read_log cd file = map Inr ((l, Control (SessionStarted s)) # xs)"
    "replay (step_record api rd) (memo_new i s) xs = Inr m" "quarantine_tail cd file = (whole, tail)"
    using resume_Inr [OF assms] by metis
  obtain lg where lg: "log_append_to cd whole = Inr lg" "log_pos lg = length whole"
    using quarantine_whole(3) [OF r(3)] by (simp add: log_append_to_def log_over_def)
  obtain cs where cs: "commits_within cd whole 0 0 (length whole) = map Inr cs"
    using flatten_whole r(1) read_whole [OF r(3)] by metis
  have "session api rd cd i (world_over lg) cs m" using session.resumed [OF assms lg(1)] lg(2) cs by simp
  moreover have "folds_ok (memo_folds m)" using replay_folds [OF r(2)] by (simp add: memo_new_def seed_ok)
  ultimately show ?thesis using lg(1) by blast
qed

lemma reopen_outcome:
  fixes cd :: "('m, 'v, 'x) log_record codec"
  assumes res: "resume api rd cd i file = Inr (m, whole, tail)"
    and c: "live api rd (memo_ctx m)"
    and ids: "\<forall>pending. ctx_state (memo_ctx m) = AwaitingToolResults pending \<longrightarrow> distinct pending"
  shows "(\<exists>m' lg lg' cs cs'.
      reopen_session api rd cd io i s r system ms (Some file) = Inr (Stepped m', cs', lg') \<and>
      log_append_to cd whole = Inr lg \<and>
      session api rd cd i (world_over lg) cs m \<and>
      session api rd cd i ((world_over lg)\<lparr>the_log := lg'\<rparr>) (cs @ cs') m' \<and>
      is_ready (memo_ctx m') \<and> ctx_system (memo_ctx m') = system \<and>
      memo_folds m' = reconciled s r (memo_folds m)) \<or>
    (\<exists>f cs' lg'. reopen_session api rd cd io i s r system ms (Some file) = Inr (Failed_Writer f, cs', lg'))"
proof -
  obtain lg cs where lg: "log_append_to cd whole = Inr lg" "session api rd cd i (world_over lg) cs m"
    "folds_ok (memo_folds m)"
    using resume_appends [OF res] by blast
  let ?lines = "reopen_lines api s r ms m :: ('m, 'v, 'x) log_record non_empty list"
  let ?Q = "\<lambda>m'. is_ready (memo_ctx m') \<and> live api rd (memo_ctx m') \<and> memo_folds m' = reconciled s r (memo_folds m)"
  have "surely api rd [reopen_records s r ms (memo_folds m) :: ('m, 'v, 'x) log_record non_empty] ?Q m'"
    if "is_ready (memo_ctx m') \<and> live api rd (memo_ctx m') \<and> memo_folds m' = memo_folds m" for m'
    using that lg(3) by (simp add: reopen_commit)
  then have "surely api rd ?lines ?Q m"
    unfolding reopen_lines_def surely_append using surely_mono [OF quiesce_surely [OF c ids]] by blast
  from log_commits_surely [OF this, of cd io lg] show ?thesis
  proof
    assume "\<exists>m' cs lg'. log_commits api rd cd io ?lines lg m = (Stepped m', cs, lg') \<and> ?Q m'"
    then obtain m1 cs1 lg1 where one: "log_commits api rd cd io ?lines lg m = (Stepped m1, cs1, lg1)" "?Q m1" by blast
    have s1: "session api rd cd i ((world_over lg)\<lparr>the_log := lg1\<rparr>) (cs @ cs1) m1"
      using log_commits_session [OF _ lg(2), of io ?lines m1 cs1 lg1] one(1) by (simp add: world_over_def)
    let ?sys = "if system \<noteq> ctx_system (memo_ctx m1) then [ne_one (Transcript (System system))] else []"
    have "surely api rd ?sys (\<lambda>m'. is_ready (memo_ctx m') \<and> live api rd (memo_ctx m') \<and>
        ctx_system (memo_ctx m') = system \<and> memo_folds m' = memo_folds m1) m1"
      using one(2) by (intro system_surely) auto
    from log_commits_surely [OF this, of cd "\<lambda>n. io (length ?lines + n)" lg1]
    consider (stepped) m2 cs2 lg2 where
        "log_commits api rd cd (\<lambda>n. io (length ?lines + n)) ?sys lg1 m1 = (Stepped m2, cs2, lg2)"
        "is_ready (memo_ctx m2)" "ctx_system (memo_ctx m2) = system" "memo_folds m2 = memo_folds m1"
      | (failed) f cs2 lg2 where
        "log_commits api rd cd (\<lambda>n. io (length ?lines + n)) ?sys lg1 m1 = (Failed_Writer f, cs2, lg2)"
      by blast
    then show ?thesis
    proof cases
      case stepped
      have "session api rd cd i ((world_over lg)\<lparr>the_log := lg2\<rparr>) ((cs @ cs1) @ cs2) m2"
        using log_commits_session [OF _ s1, of "\<lambda>n. io (length ?lines + n)" ?sys m2 cs2 lg2] stepped(1) by simp
      with stepped one lg show ?thesis
        by (intro disjI1 exI [of _ m2] exI [of _ lg] exI [of _ lg2] exI [of _ cs] exI [of _ "cs1 @ cs2"])
          (simp add: reopen_session_def res Let_def)
    next
      case failed
      with one lg show ?thesis
        by (intro disjI2 exI [of _ f] exI [of _ "cs1 @ cs2"] exI [of _ lg2])
          (simp add: reopen_session_def res Let_def)
    qed
  next
    assume "\<exists>f cs lg'. log_commits api rd cd io ?lines lg m = (Failed_Writer f, cs, lg')"
    then show ?thesis using lg by (auto simp: reopen_session_def res Let_def)
  qed
qed

text \<open>The folds a reopen leaves are ones the agent's cell is built over.\<close>

lemma reconciled_box: "\<exists>mb. mailbox_new a p n now (reconciled s r f) = Some mb"
  by (simp add: mailbox_new_def reconciled_def)

end
