(* ===== verification/Session_Properties.thy ===== *)
theory Session_Properties
  imports Session_Fork Session_Reopen Record_Properties
begin

text \<open>
  The properties of a session over its log: what the log answers, what a crash leaves, what
  resuming, reopening and forking make of it, and what an agent owes.  The witnesses run a codec
  that seals two lines, under a constant digest.
\<close>

section \<open>A sample session\<close>

type_synonym sample_record = "(bool \<times> bytes, nat, unit) log_record"

definition sample_selected :: selected where
  "sample_selected =
     \<lparr>sel_model = ''m'', sel_window = Some 100, sel_label = ''m'', sel_service = ''s'', sel_account = ''a'',
      sel_via = None, sel_tuning = Tuning None None None, sel_max_tokens = None\<rparr>"

definition sample_started :: started where
  "sample_started =
     \<lparr>session_id = 7, session_name = ''root'', started_parent = None, started_returns = True,
      started_selected = sample_selected, log_dir = ''d'', started_ms = 0\<rparr>"

definition head_record :: sample_record where
  "head_record = Control (SessionStarted sample_started)"

definition prompt_record :: sample_record where
  "prompt_record = Transcript (UserPrompt 1 ''hi'' voice.Human)"

definition sample_codec :: "sample_record codec" where
  "sample_codec =
     \<lparr>write_body = (\<lambda>_ rs. if rs = [head_record] then Some ''h'' else if rs = [prompt_record] then Some ''p'' else None),
      write_line = (\<lambda>s b. s @ b), read_line = (\<lambda>l. SealedAs (take 16 l) (drop 16 l)),
      read_body = (\<lambda>b. if b = ''h'' then Some [head_record] else if b = ''p'' then Some [prompt_record] else None),
      digest = (\<lambda>_. [])\<rparr>"

lemma sample_codec_simps [simp]:
  "write_body sample_codec ms rs =
     (if rs = [head_record] then Some ''h'' else if rs = [prompt_record] then Some ''p'' else None)"
  "write_line sample_codec s b = s @ b"
  "read_line sample_codec l = SealedAs (take 16 l) (drop 16 l)"
  "read_body sample_codec b =
     (if b = ''h'' then Some [head_record] else if b = ''p'' then Some [prompt_record] else None)"
  "sum_of sample_codec b = 0"
  by (simp_all add: sample_codec_def sum_of_def from_be_bytes_def)

lemma hex_numeral: "hex (numeral k) v = hex (pred_numeral k) (v div 16) @ [hex_digit (v mod 16)]"
  by (simp only: numeral_eq_Suc hex.simps)

lemma zero_digit: "hex_digit 0 = CHR ''0''"
  by (simp add: hex_digit_def char_of_def bit_0)

lemma zero_sum [simp]: "show_sum 0 = ''0000000000000000''"
  by (simp add: show_sum_def hex_numeral zero_digit)

lemma sample_codec_ok: "codec_ok sample_codec"
  by (simp add: codec_ok_def)

lemma sample_distinct [simp]: "prompt_record \<noteq> head_record"
  by (simp add: prompt_record_def head_record_def)

lemma sample_seals [simp]:
  "seal sample_codec ms [head_record] = Some (0, ''0000000000000000h'')"
  "seal sample_codec ms [prompt_record] = Some (0, ''0000000000000000p'')"
  by (simp_all add: seal_def)

definition no_reader :: "(bool \<times> bytes, locus) reader" where
  "no_reader p = None"

definition sample_head :: "sample_record log_commit" where
  "sample_head = commit_new 1 0 18 0 (ne_one head_record)"

definition sample_prompted :: "sample_record log_commit" where
  "sample_prompted = commit_new 2 18 36 0 (ne_one prompt_record)"

definition head_log :: "sample_record log" where
  "head_log = log_over (''0000000000000000h'' @ [newline]) 1 18"

definition prompt_log :: "sample_record log" where
  "prompt_log = log_over (''0000000000000000h'' @ [newline] @ ''0000000000000000p'' @ [newline]) 2 36"

lemma sample_begun:
  "log_begin sample_codec 0 None 7 sample_started log_create = (Inr (sample_head, memo_new 7 sample_started), head_log)"
  by (simp add: log_begin_def append_line_def log_create_def log_over_def Let_def published_def
      head_log_def sample_head_def flip: head_record_def) (simp add: eval_nat_numeral)

lemma sample_prompted_step:
  "step_commit sample_api no_reader (memo_new 7 sample_started) sample_prompted =
     Inr ((memo_new 7 sample_started)\<lparr>memo_ctx :=
       \<lparr>ctx_table = \<lparr>turns = [\<lparr>turn_id = 1, turn_role = User, kind = Own, label = ''hi'',
            turn_bytes = 2, body = Here [Recorded (Locus (Seq 2 0) 18 36 0) (UserPrompt 1 ''hi'' voice.Human)] None\<rparr>],
            evictions = [], table_source = 7\<rparr>,
        ctx_state = AwaitingAssistantAfterUser, ctx_system = [], ctx_len = 1, newest_edit = None\<rparr>\<rparr>)"
  by (simp add: step_commit_def sample_prompted_def commit_records ne_one_def prompt_record_def memo_new_def
      context_new_def table_new_def step_eval sample_api_def opening_line_def first_line_def OPENING_CHARS_def byte_in_def)

definition sample_memo :: "(bool \<times> bytes, nat) memo" where
  "sample_memo = (case step_commit sample_api no_reader (memo_new 7 sample_started) sample_prompted of Inr m \<Rightarrow> m)"

lemma sample_committed:
  "log_commit sample_api no_reader sample_codec 0 None (ne_one prompt_record) head_log (memo_new 7 sample_started) =
     (Stepped sample_memo, Some sample_prompted, prompt_log)"
proof -
  have "append_line sample_codec 0 None (ne_one prompt_record) head_log = (Inr sample_prompted, prompt_log)"
    by (simp add: append_line_def log_over_def Let_def published_def head_log_def prompt_log_def sample_prompted_def)
      (simp add: eval_nat_numeral)
  then show ?thesis using sample_prompted_step by (simp add: log_commit_def sample_memo_def)
qed

text \<open>The sample session: its head, then a prompt.\<close>

lemma sample_session:
  "session sample_api no_reader sample_codec 7 (world_over prompt_log) [sample_head, sample_prompted] sample_memo"
proof -
  have "session sample_api no_reader sample_codec 7 (world_over head_log) [sample_head] (memo_new 7 sample_started)"
    by (rule session.created [OF sample_begun])
  from session.committed [OF this, of 0 None "ne_one prompt_record" sample_memo sample_prompted prompt_log]
  show ?thesis by (simp add: sample_committed world_over_def)
qed

lemma sample_rooted: "rooted_log [sample_head, sample_prompted]"
  by (auto simp: rooted_log_def transcripts_def sample_head_def sample_prompted_def commit_records ne_one_def
      head_record_def prompt_record_def List.map_filter_def fits_def u64_max_def)

lemma sample_written: "written sample_codec (world_over prompt_log) [sample_head, sample_prompted]"
  using session_ok [OF sample_session sample_codec_ok] by blast

section \<open>The log\<close>

text \<open>
  C33. The log reads back what was written: in whatever order threads append, sync, fail and panic,
  and whatever a failed write left at its end, the file gives the records of the commits taken, in
  order; and a mirror that has read through a commit is given those after it.
\<close>

theorem log_reads_back:
  assumes "written cd w cs" and "codec_ok cd"
  shows "read_log cd (log_file (the_log w)) = map Inr (concat (map ne_iter cs)) \<and>
    (\<forall>k\<le>length cs. \<not> poisoned (the_log w) \<longrightarrow>
       since cd (Some (cursor_of k cs)) (the_log w) =
         Some (cursor_of k cs, synced (the_log w), map Inr (drop k cs)))"
  using written_read_back [OF assms] since_catches_up [OF assms] by blast

theorem log_reads_back_witness:
  "read_log sample_codec (log_file prompt_log) =
     [Inr (Locus (Seq 1 0) 0 18 0, head_record), Inr (Locus (Seq 2 0) 18 36 0, prompt_record)]"
  using log_reads_back [OF sample_written sample_codec_ok]
  by (simp add: world_over_def sample_head_def sample_prompted_def commit_records ne_one_def)

text \<open>
  C6. A crash loses nothing synced: of whatever prefix of the file the disk kept, at least the
  bytes made durable, quarantining the torn tail leaves the first \<open>k\<close> commits, all those a sync
  had answered for among them; the log opens for append over what is left, after commit \<open>k\<close>.
\<close>

theorem synced_commits_survive_a_crash:
  assumes "written cd w cs" and "codec_ok cd" and "durable w \<le> n"
  shows "\<exists>k whole tail lg. synced (the_log w) \<le> k \<and> k \<le> length cs \<and>
    quarantine_tail cd (take n (log_file (the_log w))) = (whole, tail) \<and>
    whole @ tail = take n (log_file (the_log w)) \<and>
    read_log cd whole = map Inr (concat (map ne_iter (take k cs))) \<and>
    log_append_to cd whole = Inr lg \<and> commits lg = k \<and> written cd (world_over lg) (take k cs)"
  by (rule crash_recovery [OF assms])

theorem synced_commits_survive_a_crash_witness:
  "\<exists>(k::nat) whole tail. k \<le> 2 \<and> quarantine_tail sample_codec (take 20 (log_file prompt_log)) = (whole, tail) \<and>
     read_log sample_codec whole = map Inr (concat (map ne_iter (take k [sample_head, sample_prompted])))"
proof -
  have "durable (world_over prompt_log) \<le> 20" by (simp add: world_over_def)
  from synced_commits_survive_a_crash [OF sample_written sample_codec_ok this]
  obtain k whole tail where "k \<le> length [sample_head, sample_prompted]"
    "quarantine_tail sample_codec (take 20 (log_file (the_log (world_over prompt_log)))) = (whole, tail)"
    "read_log sample_codec whole = map Inr (concat (map ne_iter (take k [sample_head, sample_prompted])))" by blast
  then show ?thesis by (intro exI [of _ k] exI [of _ whole] exI [of _ tail]) (simp add: world_over_def)
qed

text \<open>
  A locus names its record: read through one reader in any order, the loci the log handed out
  give their records; and of any file at all, even one written since by another run, what a locus
  answers lies in a line whose commit hashes to the sum the locus carries, never in a neighbour.
\<close>

lemma locus_names_its_record:
  assumes "written cd w cs" and "codec_ok cd"
  shows "(\<forall>xs. set xs \<subseteq> set (concat (map ne_iter cs)) \<longrightarrow>
      locus_records cd (log_file (the_log w)) None (map fst xs) = Inr (map snd xs)) \<and>
    (\<forall>file l r kept. locus_record cd file None l = (Inr r, kept) \<longrightarrow>
      (\<exists>b rs. unseal cd (butlast (take (locus_end l - locus_start l) (drop (locus_start l) file))) =
          Inr (locus_sum l, b) \<and> sum_of cd b = locus_sum l \<and> records_of cd b = Inr rs \<and>
          seq_index (locus_seq l) < length (ne_iter rs) \<and> r = ne_iter rs ! seq_index (locus_seq l)))"
  using written_locus_records [OF assms] locus_never_a_neighbour by metis

section \<open>Resuming and reopening\<close>

text \<open>
  C2. A resume restores a state the session was in: after a crash, from the file as the disk kept
  it, resuming a root session rebuilds the memo the first \<open>k\<close> commits had made, with no commit
  synced left out, and the session goes on from there; a file with no whole line resumes nothing.
\<close>

theorem resume_restores_the_session:
  assumes "session api rd cd i w cs m" and "codec_ok cd" and "durable w \<le> n"
    and "head_of cs = Some s" and "started_parent s = None"
  shows "\<exists>k. synced (the_log w) \<le> k \<and> k \<le> length cs \<and>
    (k = 0 \<longrightarrow> resume api rd cd i (take n (log_file (the_log w))) = Inl NoHead) \<and>
    (0 < k \<longrightarrow> (\<exists>mk whole tail lg.
        folded api rd i (take k cs) = Inr mk \<and>
        resume api rd cd i (take n (log_file (the_log w))) = Inr (mk, whole, tail) \<and>
        log_append_to cd whole = Inr lg \<and> commits lg = k \<and>
        session api rd cd i (world_over lg) (take k cs) mk))"
  by (rule resume_after_crash [OF assms])

lemma sample_head_of: "head_of [sample_head, sample_prompted] = Some sample_started"
  by (simp add: head_of_def sample_head_def commit_records ne_one_def head_record_def)

lemma sample_root [simp]: "started_parent sample_started = None"
  by (simp add: sample_started_def)

theorem resume_restores_the_session_witness:
  "resume sample_api no_reader sample_codec 7 (take 30 (log_file prompt_log)) = Inl NoHead \<or>
   (\<exists>mk whole tail. resume sample_api no_reader sample_codec 7 (take 30 (log_file prompt_log)) = Inr (mk, whole, tail))"
proof -
  have "durable (world_over prompt_log) \<le> 30" by (simp add: world_over_def)
  from resume_restores_the_session [OF sample_session sample_codec_ok this sample_head_of sample_root]
  obtain k :: nat where "k = 0 \<longrightarrow> resume sample_api no_reader sample_codec 7
      (take 30 (log_file (the_log (world_over prompt_log)))) = Inl NoHead"
    "0 < k \<longrightarrow> (\<exists>mk whole tail. resume sample_api no_reader sample_codec 7
      (take 30 (log_file (the_log (world_over prompt_log)))) = Inr (mk, whole, tail))"
    by blast
  then show ?thesis by (cases "k = 0") (simp_all add: world_over_def)
qed


lemma sample_whole_log: "complete_len sample_codec (log_file prompt_log) = 36"
proof -
  have u: "unseal sample_codec ''0000000000000000h'' = Inr (0, ''h'')"
    "unseal sample_codec ''0000000000000000p'' = Inr (0, ''p'')"
    by (simp_all add: unseal_def flip: zero_sum)
  have "intact sample_codec ''0000000000000000h''" "intact sample_codec ''0000000000000000p''"
    by (simp_all add: intact_def u)
  then have "complete_len sample_codec (joined [''0000000000000000h'', ''0000000000000000p''] @ []) =
      length (joined [''0000000000000000h'', ''0000000000000000p''])"
    by (subst complete_len_joined) (simp_all add: complete_len_torn)
  then show ?thesis by (simp add: prompt_log_def log_over_def)
qed

lemma sample_resumes:
  "resume sample_api no_reader sample_codec 7 (log_file prompt_log) = Inr (sample_memo, log_file prompt_log, [])"
proof -
  have "folded sample_api no_reader 7 [sample_head, sample_prompted] = Inr sample_memo"
    using session_ok [OF sample_session sample_codec_ok] by blast
  from resume_whole [OF _ this sample_head_of sample_root, of sample_codec "log_file prompt_log"]
  have "resume sample_api no_reader sample_codec 7 (log_file prompt_log) =
      Inr (sample_memo, quarantine_tail sample_codec (log_file prompt_log))"
    using written_read_back [OF sample_written sample_codec_ok] by (simp add: world_over_def)
  moreover have "length (log_file prompt_log) = 36" by (simp add: prompt_log_def log_over_def)
  ultimately show ?thesis by (simp add: quarantine_tail_def sample_whole_log)
qed

lemma sample_memo_live: "live sample_api no_reader (memo_ctx sample_memo) \<and> is_ready (memo_ctx sample_memo)"
  using session_rows [OF sample_session sample_codec_ok, of no_reader] sample_rooted
  by (simp add: sample_memo_def sample_prompted_step is_ready_def)


section \<open>Forking\<close>

text \<open>
  C7. A fork over the log: where a session that inherits nothing stands ready, and its file is
  the one a child's reader opens under its id, a fresh log takes the link it hands out, and what
  the child sends the provider is what the parent would; each resident turn reads back through
  its address as the records it holds.
\<close>

theorem fork_over_the_log:
  assumes "session api rd cd i w cs m" and "codec_ok cd" and "rooted_log cs"
    and "sessions i = Some (log_file (the_log w))" and "is_ready (memo_ctx m)"
  shows "(\<exists>c. step_transcript api (read_pointer cd sessions) (context_new src)
        (Recorded l (inherited_context (memo_ctx m))) = Inr c \<and>
      is_ready c \<and> rendered api c = rendered api (memo_ctx m)) \<and>
    (\<forall>u\<in>set (resident (memo_ctx m)).
      read_pointer cd sessions (turn_address i (body u)) = Some (map val (turn_records u)))"
proof -
  have "live api (read_pointer cd sessions) (memo_ctx m)" using session_rows [OF assms(1-3)] by blast
  from fork_reads_parent [OF this assms(5) session_reader [where sessions = sessions, OF assms(1-4)], of src l]
  have "\<exists>c. step_transcript api (read_pointer cd sessions) (context_new src)
        (Recorded l (inherited_context (memo_ctx m))) = Inr c \<and>
      is_ready c \<and> rendered api c = rendered api (memo_ctx m)" by blast
  moreover have "read_pointer cd sessions (turn_address i (body u)) = Some (map val (turn_records u))"
    if "u \<in> set (resident (memo_ctx m))" for u
    using session_reads_back [where sessions = sessions, OF assms(1-4), of u] that by (auto simp: resident_def)
  ultimately show ?thesis by blast
qed

theorem fork_over_the_log_witness:
  "\<exists>c. step_transcript sample_api (read_pointer sample_codec (\<lambda>_. Some (log_file prompt_log))) (context_new 8)
        (Recorded (Locus (Seq 2 0) 0 9 0) (inherited_context (memo_ctx sample_memo))) = Inr c \<and>
      rendered sample_api c = rendered sample_api (memo_ctx sample_memo)"
proof -
  have "(\<lambda>_. Some (log_file prompt_log)) 7 = Some (log_file (the_log (world_over prompt_log)))"
    by (simp add: world_over_def)
  from fork_over_the_log [where sessions = "\<lambda>_. Some (log_file prompt_log)", OF sample_session sample_codec_ok sample_rooted this]
  show ?thesis using sample_memo_live by blast
qed

section \<open>Debts\<close>

text \<open>
  What an agent owes changes only where the records say so: a record the folds take ends a
  debt only as a report, a resume that does not return, or a withdrawal of what was pending, and
  starts one only as a post from whom the agent answers to, or a resume that returns; taking a post
  out of the queue never forgives it.
\<close>

lemma debts_follow_the_records:
  assumes "folds_step n c f = Inr f'" and "folds_ok f"
  shows "folds_ok f' \<and>
    (owes (the_mail f) \<and> \<not> owes (the_mail f') \<longrightarrow>
       (\<exists>st. c = Status st) \<or> (\<exists>s ms. c = SessionResumed s False ms) \<or> (\<exists>ids. c = control.Withdrawn ids)) \<and>
    (\<not> owes (the_mail f) \<and> owes (the_mail f') \<longrightarrow>
       (\<exists>p. c = control.Posted p \<and> returns (the_mail f) \<and> by_parent (the_mail f) p) \<or>
       (\<exists>s ms. c = SessionResumed s True ms))"
proof -
  have "mail_step n c (the_mail f) = Inr (the_mail f')" "mail_ok (the_mail f)"
    using assms by (simp_all add: folds_step_Inr folds_ok_def)
  then have "owes (the_mail f') = owed_after c (the_mail f)" by (rule owes_step)
  with folds_step_ok [OF assms] show ?thesis
    by (cases c) (auto simp: owed_after_def owes_iff)
qed

definition human_post :: post where
  "human_post = Post (Some voice.Human) ''do it'' None"

definition posted_folds :: "nat folds" where
  "posted_folds = (case folds_step 3 (control.Posted human_post) (seed sample_started) of Inr f \<Rightarrow> f)"

lemma posted_step: "folds_step 3 (control.Posted human_post) (seed sample_started) = Inr posted_folds"
  by (simp add: posted_folds_def folds_step_def seed_def mail_new_def)

end
