(* ===== verification/Mailbox_Invariant.thy ===== *)
theory Mailbox_Invariant
  imports Mailbox
begin

text \<open>
  What every agent's cell keeps: the queue mirrors the recorded mail, post for post, so no
  transaction's line is one the folds refuse and no \<open>expect\<close> on a queued post fails.  Actions are
  every transaction with whatever its journal and clock answer, and what happens around the cell.
\<close>

section \<open>The mirror\<close>

fun post_of :: "'v phrases \<Rightarrow> 'v item \<Rightarrow> (nat \<times> post) list" where
  "post_of ph (Posted i q) = [(i, posted ph q)]"
| "post_of ph (Gone _) = []"

definition mirror :: "'v phrases \<Rightarrow> 'v item list \<Rightarrow> (nat \<times> post) list" where
  "mirror ph xs = concat (map (post_of ph) xs)"

lemma mirror_simps [simp]:
  "mirror ph [] = []" "mirror ph (x # xs) = post_of ph x @ mirror ph xs"
  "mirror ph (xs @ ys) = mirror ph xs @ mirror ph ys"
  by (simp_all add: mirror_def)

lemma subseq_set: "subseq xs ys \<Longrightarrow> set xs \<subseteq> set ys"
  by (auto dest: list_emb_set)

lemma subseq_distinct: "subseq xs ys \<Longrightarrow> distinct ys \<Longrightarrow> distinct xs"
  by (induction rule: list_emb.induct) (auto dest: subseq_set)

definition box_ok :: "'v phrases \<Rightarrow> 'v mailbox \<Rightarrow> bool" where
  "box_ok ph mb \<longleftrightarrow>
     folds_ok (box_folds mb) \<and> named (mail_in mb) \<le> last_commit mb \<and>
     subseq (mirror ph (queue mb)) (pending (mail_in mb)) \<and>
     (ended mb \<or> mirror ph (queue mb) = pending (mail_in mb))"

text \<open>The item is not one of a set of posts.\<close>

fun outside :: "nat set \<Rightarrow> 'v item \<Rightarrow> bool" where
  "outside D (Posted i _) = (i \<notin> D)"
| "outside D (Gone _) = True"

lemma mirror_outside: "mirror ph (filter (outside D) xs) = filter (\<lambda>e. fst e \<notin> D) (mirror ph xs)"
proof (induction xs)
  case (Cons x xs)
  then show ?case by (cases x) simp_all
qed simp

lemma mirror_no_posts: "(\<And>x. x \<in> set xs \<Longrightarrow> is_gone x) \<Longrightarrow> mirror ph xs = []"
proof (induction xs)
  case (Cons x xs)
  then have "is_gone x" by simp
  with Cons show ?case by (cases x) simp_all
qed simp

lemma mirror_key: "Posted i q \<in> set xs \<Longrightarrow> i \<in> fst ` set (mirror ph xs)"
  by (induction xs) auto

lemma box_ok_ordered: "box_ok ph mb \<Longrightarrow> ordered (pending (mail_in mb))"
  by (simp add: box_ok_def folds_ok_def mail_ok_def)

lemma box_ok_key:
  assumes "box_ok ph mb" and "Posted i q \<in> set (queue mb)"
  shows "i \<in> fst ` set (pending (mail_in mb))"
proof -
  have "set (mirror ph (queue mb)) \<subseteq> set (pending (mail_in mb))"
    using assms(1) by (auto simp: box_ok_def dest: subseq_set)
  with mirror_key [OF assms(2), of ph] show ?thesis by blast
qed

text \<open>The ids of the posts of a run of items, in order.\<close>

definition ids_of :: "'v item list \<Rightarrow> nat list" where
  "ids_of xs = concat (map (\<lambda>x. case x of Posted i _ \<Rightarrow> [i] | Gone _ \<Rightarrow> []) xs)"

lemma ids_of_simps [simp]:
  "ids_of [] = []" "ids_of (Posted i q # xs) = i # ids_of xs" "ids_of (Gone a # xs) = ids_of xs"
  "ids_of (xs @ ys) = ids_of xs @ ids_of ys"
  by (simp_all add: ids_of_def)

lemma ids_of_mirror: "ids_of xs = map fst (mirror ph xs)"
proof (induction xs)
  case (Cons x xs)
  then show ?case by (cases x) simp_all
qed simp

lemma box_ok_ids:
  assumes "box_ok ph mb"
  shows "distinct (ids_of (queue mb))" and "set (ids_of (queue mb)) \<subseteq> fst ` set (pending (mail_in mb))"
proof -
  have s: "subseq (map fst (mirror ph (queue mb))) (map fst (pending (mail_in mb)))"
    using assms by (auto simp: box_ok_def intro: subseq_map)
  then show "distinct (ids_of (queue mb))"
    using ordered_distinct [OF box_ok_ordered [OF assms]]
    by (auto simp: ids_of_mirror [of _ ph] dest: subseq_distinct)
  show "set (ids_of (queue mb)) \<subseteq> fst ` set (pending (mail_in mb))"
    using subseq_set [OF s] by (simp add: ids_of_mirror [of _ ph])
qed

section \<open>Commits that post nothing\<close>

lemma step_no_post:
  assumes "mail_step n c m = Inr m'" and "\<not> is_posted c" and "ordered (pending m)"
  shows "\<exists>D. pending m' = filter (\<lambda>e. fst e \<notin> D) (pending m)"
proof (cases c)
  case (Taken ids)
  with assms mail_removed [OF assms(3), of "ne_iter ids" True m'] show ?thesis by auto
next
  case (Withdrawn ids)
  with assms mail_removed [OF assms(3), of "ne_iter ids" False m'] show ?thesis by auto
qed (use assms in \<open>auto intro: exI [of _ "{}"] split: if_splits\<close>)

lemma line_no_post:
  "folds_line n cs f = Inr f' \<Longrightarrow> \<not> list_ex is_posted cs \<Longrightarrow> folds_ok f \<Longrightarrow>
     \<exists>D. pending (the_mail f') = filter (\<lambda>e. fst e \<notin> D) (pending (the_mail f))"
proof (induction cs arbitrary: f)
  case Nil
  then show ?case by (auto intro: exI [of _ "{}"])
next
  case (Cons c cs)
  then obtain f1 where f1: "folds_step n c f = Inr f1" "folds_line n cs f1 = Inr f'"
    by (auto split: sum.splits)
  then have "mail_step n c (the_mail f) = Inr (the_mail f1)" by (simp add: folds_step_Inr)
  then obtain D where D: "pending (the_mail f1) = filter (\<lambda>e. fst e \<notin> D) (pending (the_mail f))"
    using step_no_post Cons.prems by (fastforce simp: folds_ok_def mail_ok_def)
  obtain E where "pending (the_mail f') = filter (\<lambda>e. fst e \<notin> E) (pending (the_mail f1))"
    using Cons.IH [OF f1(2)] Cons.prems folds_step_ok [OF f1(1)] by auto
  with D have "pending (the_mail f') = filter (\<lambda>e. fst e \<notin> D \<union> E) (pending (the_mail f))"
    by (simp add: filter_filter)
  then show ?case ..
qed

lemma step_named: "mail_step n c m = Inr m' \<Longrightarrow> mail_ok m \<Longrightarrow> named m \<le> n \<Longrightarrow> named m' \<le> n"
  by (cases c) (auto dest: mail_remove_fields split: if_splits)

lemma line_named:
  "folds_line n cs f = Inr f' \<Longrightarrow> folds_ok f \<Longrightarrow> named (the_mail f) \<le> n \<Longrightarrow> named (the_mail f') \<le> n"
proof (induction cs arbitrary: f)
  case (Cons c cs)
  then obtain f1 where f1: "folds_step n c f = Inr f1" "folds_line n cs f1 = Inr f'"
    by (auto split: sum.splits)
  then have "named (the_mail f1) \<le> n"
    using Cons.prems step_named by (auto simp: folds_step_Inr folds_ok_def)
  with f1 Cons.IH folds_step_ok Cons.prems(2) show ?case by blast
qed simp

text \<open>What pruning removes: the payloads of the posts the line removed.\<close>

lemma pruned:
  assumes "box_ok ph mb" and D: "pending (the_mail f) = filter (\<lambda>e. fst e \<notin> D) (pending (mail_in mb))"
    and x: "x \<in> set (queue mb)"
  shows "departs (the_mail f) x \<longleftrightarrow> \<not> outside D x"
proof (cases x)
  case (Posted i q)
  then have "i \<in> fst ` set (pending (mail_in mb))" using box_ok_key assms(1) x by blast
  with Posted show ?thesis
    by (auto simp: pending_post_def map_of_eq_None_iff D image_iff)
qed simp

lemma commit_line_outcome:
  assumes ok: "box_ok ph mb" and np: "\<not> list_ex is_posted (ne_iter line)"
    and acc: "folds_line (last_commit mb + 1) (ne_iter line) (box_folds mb) = Inr f"
  shows "(\<exists>mb'. commit_line b line mb = (Unavailable, mb') \<and> (mb' = mb \<or> mb' = journal_fails mb)) \<or>
    (\<exists>D. pending (the_mail f) = filter (\<lambda>e. fst e \<notin> D) (pending (mail_in mb)) \<and>
      commit_line b line mb =
        (Done (concat (map payload (filter (\<lambda>x. \<not> outside D x) (queue mb)))),
         mb\<lparr>last_commit := last_commit mb + 1, box_folds := f, queue := filter (outside D) (queue mb)\<rparr>))"
proof (cases "broken mb \<or> \<not> b")
  case True
  then show ?thesis using np by (auto simp: commit_line_def commit_to_def and_then_def)
next
  case False
  have fo: "folds_ok (box_folds mb)" using ok by (simp add: box_ok_def)
  obtain D where D: "pending (the_mail f) = filter (\<lambda>e. fst e \<notin> D) (pending (mail_in mb))"
    using line_no_post [OF acc np fo] by blast
  have "filter (departs (the_mail f)) (queue mb) = filter (\<lambda>x. \<not> outside D x) (queue mb)"
    "filter (\<lambda>x. \<not> departs (the_mail f) x) (queue mb) = filter (outside D) (queue mb)"
    using pruned [OF ok D] by (auto intro: filter_cong)
  with False np acc D show ?thesis
    by (intro disjI2 exI [of _ D])
      (simp add: commit_line_def commit_to_def and_then_def prune_def Let_def)
qed

lemma box_ok_fails [simp]: "box_ok ph mb \<Longrightarrow> box_ok ph (journal_fails mb)"
  by (auto simp: box_ok_def journal_fails_def)

lemma box_ok_committed:
  assumes ok: "box_ok ph mb" and acc: "folds_line (last_commit mb + 1) cs (box_folds mb) = Inr f"
    and D: "pending (the_mail f) = filter (\<lambda>e. fst e \<notin> D) (pending (mail_in mb))"
  shows "box_ok ph (mb\<lparr>last_commit := last_commit mb + 1, box_folds := f, queue := filter (outside D) (queue mb)\<rparr>)"
proof -
  have fo: "folds_ok (box_folds mb)" "named (mail_in mb) \<le> last_commit mb + 1"
    using ok by (auto simp: box_ok_def)
  then have "folds_ok f" "named (the_mail f) \<le> last_commit mb + 1"
    using folds_line_ok [OF acc] line_named [OF acc] by auto
  with ok D show ?thesis
    by (auto simp: box_ok_def mirror_outside intro: subseq_filter)
qed

text \<open>A transaction that commits a line the folds take keeps the cell, and does not panic.\<close>

definition safe :: "'v phrases \<Rightarrow> 'a outcome \<times> 'v mailbox \<Rightarrow> bool" where
  "safe ph r \<longleftrightarrow> fst r \<noteq> Panicked \<and> box_ok ph (snd r)"

lemma safeI [intro]: "box_ok ph mb \<Longrightarrow> r \<noteq> Panicked \<Longrightarrow> safe ph (r, mb)"
  by (simp add: safe_def)

lemma safe_and_then:
  assumes "safe ph r" and "\<And>a mb. r = (Done a, mb) \<Longrightarrow> box_ok ph mb \<Longrightarrow> safe ph (g a mb)"
  shows "safe ph (and_then r g)"
  using assms by (cases r; cases "fst r") (auto simp: and_then_def safe_def)

lemma safe_commit_line:
  assumes "box_ok ph mb" and "\<not> list_ex is_posted (ne_iter line)"
    and "folds_line (last_commit mb + 1) (ne_iter line) (box_folds mb) = Inr f"
  shows "safe ph (commit_line b line mb)"
  using commit_line_outcome [OF assms, of b] assms(1) box_ok_committed [OF assms(1,3)]
  by (auto simp: safe_def)

lemma safe_commit_one:
  assumes "box_ok ph mb" and "\<not> is_posted c" and "takes_control (last_commit mb + 1) (box_folds mb) c"
  shows "safe ph (commit_line b (ne_one c) mb)"
proof -
  have "mail_ok (mail_in mb)" using assms(1) by (simp add: box_ok_def folds_ok_def)
  then obtain f where "folds_step (last_commit mb + 1) c (box_folds mb) = Inr f"
    using folds_step_takes assms(3) by blast
  then show ?thesis using safe_commit_line [OF assms(1), of "ne_one c"] assms(2) by simp
qed

lemma safe_sync: "box_ok ph mb \<Longrightarrow> safe ph (journal_sync b mb)"
  by (auto simp: journal_sync_def)

section \<open>Posts\<close>

lemma safe_post_with:
  assumes ok: "box_ok ph mb"
    and change: "\<And>f n. change = Some c \<Longrightarrow> the_schedules f = schedules_in mb \<Longrightarrow>
      \<exists>f'. folds_step n c f = Inr f' \<and> the_mail f' = the_mail f"
    and c: "change = None \<or> change = Some c"
  shows "safe ph (post_with ph b q change mb)"
proof -
  let ?n = "last_commit mb + 1"
  let ?p = "posted ph q"
  have last: "\<forall>e\<in>set (pending (mail_in mb)). fst e < ?n"
  proof
    fix e assume "e \<in> set (pending (mail_in mb))"
    then have "fst e \<le> named (mail_in mb)" using ok by (simp add: box_ok_def folds_ok_def mail_ok_def)
    with ok show "fst e < ?n" by (simp add: box_ok_def)
  qed
  have named: "named (mail_in mb) < ?n" using ok by (simp add: box_ok_def)
  define m where "m = (mail_in mb)\<lparr>pending := pending (mail_in mb) @ [(?n, ?p)], named := ?n\<rparr>"
  have step: "folds_step ?n (control.Posted ?p) (box_folds mb) = Inr ((box_folds mb)\<lparr>the_mail := m\<rparr>)"
    using named last by (simp add: folds_step_def m_def bt_insert_last)
  obtain f where f: "folds_line ?n (control.Posted ?p # (case change of None \<Rightarrow> [] | Some c \<Rightarrow> [c])) (box_folds mb) = Inr f"
    "the_mail f = m"
  proof (cases change)
    case None
    with step that show thesis by simp
  next
    case (Some c')
    then have "c' = c" using c by simp
    moreover obtain f' where "folds_step ?n c ((box_folds mb)\<lparr>the_mail := m\<rparr>) = Inr f'" "the_mail f' = m"
      using change [of "(box_folds mb)\<lparr>the_mail := m\<rparr>" ?n] Some \<open>c' = c\<close> by auto
    ultimately show thesis using that step Some by simp
  qed
  have "folds_ok f" using folds_line_ok [OF f(1)] ok by (simp add: box_ok_def)
  then have "box_ok ph (mb\<lparr>last_commit := ?n, box_folds := f, queue := queue mb @ [Posted ?n q],
      waiting_for_input := False\<rparr>)"
    using ok f(2) by (auto simp: box_ok_def m_def intro: list_emb_append_mono)
  with ok f(1) show ?thesis
    by (auto simp: post_with_def and_then_def commit_to_def Let_def safe_def)
qed

lemma safe_post: "box_ok ph mb \<Longrightarrow> safe ph (post_with ph b q None mb)"
  using safe_post_with [of ph mb None] by simp

lemma safe_post_item: "box_ok ph mb \<Longrightarrow> safe ph (post_item ph b q mb)"
  using safe_post [of ph mb b q]
  by (auto simp: post_item_def safe_def split: prod.splits outcome.splits)

lemma safe_deliver: "box_ok ph mb \<Longrightarrow> safe ph (deliver ph b b' q mb)"
proof -
  assume ok: "box_ok ph mb"
  obtain r mb1 where r: "post_item ph b q mb = (r, mb1)" by fastforce
  with safe_post_item [OF ok, of b q] have s: "r \<noteq> Panicked" "box_ok ph mb1" by (auto simp: safe_def)
  with safe_sync [OF s(2), of b'] r show ?thesis
    by (auto simp: deliver_def safe_def split: outcome.splits sum.splits prod.splits)
qed

end
