(* ===== verification/Mailbox_Steps.thy ===== *)
theory Mailbox_Steps
  imports Mailbox_Invariant
begin

text \<open>
  Each transaction on a cell keeps its invariant and does not panic; what a take, a drain and a
  settling give; and the actions on a cell in whatever order.
\<close>

section \<open>Lines of several records\<close>

lemma accepts_withdrawing:
  assumes "mail_ok (the_mail f)" and "distinct ids" and "set ids \<subseteq> fst ` set (pending (the_mail f))"
  shows "\<exists>f'. folds_line n (withdrawing ids) f = Inr f' \<and> the_schedules f' = the_schedules f"
proof (cases "ne_collect ids")
  case (Some i)
  then have "takes_control n f (control.Withdrawn i)" using assms by (simp add: takes_control_def)
  then obtain f' where "folds_step n (control.Withdrawn i) f = Inr f'"
    using folds_step_takes [OF assms(1)] by blast
  then have "folds_step n (control.Withdrawn i) f = Inr f' \<and> the_schedules f' = the_schedules f"
    by (simp add: folds_step_Inr)
  with Some show ?thesis by (simp add: withdrawing_def)
qed (simp add: withdrawing_def)

lemma accepts_retiring:
  "ordered (the_schedules f) \<Longrightarrow> the_schedules f = schedules_in mb \<Longrightarrow>
     folds_line n (retire_schedules mb) f = Inr (f\<lparr>the_schedules := []\<rparr>)"
  using unschedule_all [of f n] by (simp add: retire_schedules_def)

lemma no_post_lines [simp]:
  "\<not> list_ex is_posted (withdrawing ids)" "\<not> list_ex is_posted (retire_schedules mb)"
  by (auto simp: withdrawing_def retire_schedules_def list_ex_iff split: option.splits)

lemma ids_of_chosen:
  assumes "\<And>x i. g x = Some i \<Longrightarrow> \<exists>q. x = Posted i q"
  shows "subseq (List.map_filter g xs) (ids_of xs)"
proof (induction xs)
  case (Cons x xs)
  show ?case
  proof (cases "g x")
    case None
    then show ?thesis using Cons by (cases x) (auto simp: List.map_filter_simps)
  next
    case (Some i)
    then obtain q where "x = Posted i q" using assms by blast
    with Some Cons show ?thesis by (simp add: List.map_filter_simps)
  qed
qed (simp add: List.map_filter_simps)

lemma chosen_pending:
  assumes "box_ok ph mb" and "\<And>x i. g x = Some i \<Longrightarrow> \<exists>q. x = Posted i q"
  shows "distinct (List.map_filter g (queue mb))"
    and "set (List.map_filter g (queue mb)) \<subseteq> fst ` set (pending (mail_in mb))"
proof -
  have s: "subseq (List.map_filter g (queue mb)) (ids_of (queue mb))" using ids_of_chosen assms(2) .
  show "distinct (List.map_filter g (queue mb))"
    using subseq_distinct [OF s] box_ok_ids(1) [OF assms(1)] .
  show "set (List.map_filter g (queue mb)) \<subseteq> fst ` set (pending (mail_in mb))"
    using subseq_set [OF s] box_ok_ids(2) [OF assms(1)] by blast
qed

lemma wakeup_posted: "wakeup_id x = Some i \<Longrightarrow> \<exists>q. x = Posted i q"
  by (cases x rule: wakeup_id.cases) auto

lemma cleared_posted: "cleared_id x = Some i \<Longrightarrow> \<exists>q. x = Posted i q"
  by (cases x rule: cleared_id.cases) auto

lemma box_parts:
  "box_ok ph mb \<Longrightarrow> mail_ok (mail_in mb) \<and> ordered (schedules_in mb)"
  by (simp add: box_ok_def folds_ok_def)

lemma report_accepted:
  assumes "box_ok ph mb"
  shows "\<exists>f. folds_line n (ne_iter (report_line st mb)) (box_folds mb) = Inr f"
proof -
  let ?ids = "if \<not> ended mb then List.map_filter wakeup_id (queue mb) else map fst (pending (mail_in mb))"
  have ids: "distinct ?ids" "set ?ids \<subseteq> fst ` set (pending (mail_in mb))"
    using chosen_pending [OF assms wakeup_posted] ordered_distinct [OF box_ok_ordered [OF assms]] by auto
  define m where "m = (mail_in mb)\<lparr>status := Some st, answering := False\<rparr>"
  define f1 where "f1 = (box_folds mb)\<lparr>the_mail := m\<rparr>"
  have "mail_ok m" using box_parts [OF assms] by (simp add: m_def mail_ok_def)
  then have "\<exists>f. folds_line n (withdrawing ?ids) (f1\<lparr>the_schedules := []\<rparr>) = Inr f"
    using accepts_withdrawing [of "f1\<lparr>the_schedules := []\<rparr>" ?ids n] ids by (auto simp: f1_def m_def)
  moreover have "folds_line n (retire_schedules mb) f1 = Inr (f1\<lparr>the_schedules := []\<rparr>)"
    using box_parts [OF assms] by (intro accepts_retiring) (simp_all add: f1_def)
  moreover have "folds_step n (control.Status st) (box_folds mb) = Inr f1"
    by (simp add: folds_step_def f1_def m_def)
  ultimately show ?thesis by (simp add: report_line_def folds_line_append)
qed

lemma safe_report_commit: "box_ok ph mb \<Longrightarrow> safe ph (commit_line b (report_line st mb) mb)"
proof -
  assume ok: "box_ok ph mb"
  obtain f where "folds_line (last_commit mb + 1) (ne_iter (report_line st mb)) (box_folds mb) = Inr f"
    using report_accepted [OF ok] by blast
  moreover have "\<not> list_ex is_posted (ne_iter (report_line st mb))" by (simp add: report_line_def)
  ultimately show ?thesis using safe_commit_line [OF ok] by blast
qed

lemma box_ok_flag [simp]:
  "box_ok ph (mb\<lparr>failure_noticed := x\<rparr>) = box_ok ph mb" "box_ok ph (mb\<lparr>waiting_for_input := x\<rparr>) = box_ok ph mb"
  "box_ok ph (mb\<lparr>stopped := x\<rparr>) = box_ok ph mb" "box_ok ph (mb\<lparr>released := x\<rparr>) = box_ok ph mb"
  "box_ok ph (mb\<lparr>exchange := e\<rparr>) = box_ok ph mb" "box_ok ph (mb\<lparr>busy := x\<rparr>) = box_ok ph mb"
  "box_ok ph (mb\<lparr>last_exchange := l\<rparr>) = box_ok ph mb" "box_ok ph (mb\<lparr>since_ms := n\<rparr>) = box_ok ph mb"
  "box_ok ph (mb\<lparr>rung := r\<rparr>) = box_ok ph mb" "box_ok ph (mb\<lparr>broken := x\<rparr>) = box_ok ph mb"
  by (simp_all add: box_ok_def)

lemma box_ok_ended [simp]: "box_ok ph mb \<Longrightarrow> box_ok ph (mb\<lparr>ended := True\<rparr>)"
  by (simp add: box_ok_def)

lemma safe_report:
  assumes "box_ok ph mb"
  shows "fst (fst (report b b' why st mb)) \<noteq> Panicked \<and> box_ok ph (snd (report b b' why st mb))"
proof -
  have "safe ph (and_then (commit_line b (report_line st mb) mb) (\<lambda>_. journal_sync b'))"
    using safe_report_commit [OF assms] safe_sync by (intro safe_and_then)
  then show ?thesis
    by (auto simp: report_def safe_def Let_def split: prod.splits outcome.splits)
qed

section \<open>Single records\<close>

lemma safe_schedule: "box_ok ph mb \<Longrightarrow> safe ph (txn_schedule b l s mb)"
  by (auto simp: txn_schedule_def takes_control_def intro!: safe_and_then safe_commit_one)

lemma safe_unschedule: "box_ok ph mb \<Longrightarrow> safe ph (txn_unschedule b l mb)"
  by (force simp: txn_unschedule_def takes_control_def map_of_eq_None_iff intro!: safe_and_then safe_commit_one)

lemma safe_change_model: "box_ok ph mb \<Longrightarrow> safe ph (change_model b s mb)"
  by (auto simp: change_model_def takes_control_def intro!: safe_and_then safe_commit_one)

lemma safe_narrow: "box_ok ph mb \<Longrightarrow> safe ph (narrow b name limit mb)"
  by (auto simp: narrow_def takes_control_def intro!: safe_and_then safe_commit_one)

lemma safe_fire: "box_ok ph mb \<Longrightarrow> safe ph (fire ph b l i next_ms t mb)"
proof (cases "map_of (schedules_in mb) l")
  case None
  then show "box_ok ph mb \<Longrightarrow> ?thesis" by (simp add: fire_def safeI)
next
  case (Some s)
  assume ok: "box_ok ph mb"
  have l: "l \<in> fst ` set (schedules_in mb)" using Some by (force dest: map_of_SomeD)
  define change :: "'a control" where "change = (case next_ms of
      Some ms \<Rightarrow> Scheduled l (s\<lparr>sch_next := ms, sch_fires := sch_fires s +
        (if \<not> list_ex (is_wakeup i) (queue mb) then 1 else 0)\<rparr>)
    | None \<Rightarrow> Unscheduled l)"
  have "\<not> is_posted change" "takes_control n (box_folds mb) change" for n
    using l by (auto simp: change_def takes_control_def split: option.splits)
  moreover have "\<exists>f'. folds_step n change f = Inr f' \<and> the_mail f' = the_mail f"
    if "the_schedules f = schedules_in mb" for f n
    using that Some by (auto simp: change_def folds_step_def split: option.splits)
  ultimately show ?thesis
    using ok Some
    by (auto simp: fire_def Let_def simp flip: change_def
        intro!: safe_and_then safe_commit_one safe_post_with [where c = change])
qed

lemma safe_clear: "box_ok ph mb \<Longrightarrow> safe ph (txn_clear b mb)"
proof -
  assume ok: "box_ok ph mb"
  let ?ids = "List.map_filter cleared_id (queue mb)"
  let ?line = "withdrawing ?ids @ retire_schedules mb"
  have "safe ph (case ne_collect ?line of None \<Rightarrow> (Done [], mb) | Some line \<Rightarrow> commit_line b line mb)"
  proof (cases "ne_collect ?line")
    case (Some line)
    then have line: "ne_iter line = ?line" by simp
    obtain f where "folds_line (last_commit mb + 1) (withdrawing ?ids) (box_folds mb) = Inr f"
      "the_schedules f = schedules_in mb"
      using accepts_withdrawing [OF conjunct1 [OF box_parts [OF ok]] chosen_pending [OF ok cleared_posted]]
      by blast
    then have "folds_line (last_commit mb + 1) (ne_iter line) (box_folds mb) = Inr (f\<lparr>the_schedules := []\<rparr>)"
      using box_parts [OF ok] by (simp add: line folds_line_append accepts_retiring)
    moreover have "\<not> list_ex is_posted (ne_iter line)" by (simp add: line)
    ultimately have "safe ph (commit_line b line mb)" using safe_commit_line [OF ok] by blast
    then show ?thesis unfolding Some by simp
  qed (use ok in \<open>auto\<close>)
  moreover have "box_ok ph (mb\<lparr>queue := filter (\<lambda>x. \<not> is_gone x) (queue mb)\<rparr>)" if "box_ok ph mb" for mb
  proof -
    have "mirror ph (filter (\<lambda>x. \<not> is_gone x) xs) = mirror ph xs" for xs
    proof (induction xs)
      case (Cons x xs)
      then show ?case by (cases x) simp_all
    qed simp
    with that show ?thesis by (simp add: box_ok_def)
  qed
  ultimately show ?thesis unfolding txn_clear_def by (intro safe_and_then) auto
qed

section \<open>Runs\<close>

fun human_of :: "('t, 'h) part \<Rightarrow> 'h option" where
  "human_of (HumanPart h) = Some h"
| "human_of _ = None"

lemma ne_iter_push [simp]: "ne_iter (ne_push n x) = ne_iter n @ [x]"
  by (cases n) simp

lemma group_run_ones [simp]: "List.map_filter group_run (map One xs) = []"
  by (induction xs) (simp_all add: List.map_filter_simps)

lemma map_filter_append [simp]: "List.map_filter g (xs @ ys) = List.map_filter g xs @ List.map_filter g ys"
  by (simp add: List.map_filter_def)

text \<open>The runs hold the human posts, in order.\<close>

lemma runs_humans:
  "concat (map ne_iter (List.map_filter group_run (runs_from run ps))) =
     (case run of None \<Rightarrow> [] | Some (r, _) \<Rightarrow> ne_iter r) @ List.map_filter human_of ps"
proof (induction run ps rule: runs_from.induct)
  case (6 run t ps)
  then show ?case by (cases run) (auto simp: List.map_filter_simps)
qed (auto simp: List.map_filter_simps split: option.splits elim: close.elims)

lemma pending_humans: "subseq (map fst (List.map_filter human_of (map pending_part es))) (map fst es)"
proof (induction es)
  case (Cons e es)
  obtain i p where "e = (i, p)" by fastforce
  with Cons show ?case by (auto simp: List.map_filter_simps)
qed (simp add: List.map_filter_simps)

lemma safe_txn_recall: "box_ok ph mb \<Longrightarrow> safe ph (txn_recall b mb)"
proof -
  assume ok: "box_ok ph mb"
  let ?rs = "List.map_filter group_run (pending_groups (mail_in mb))"
  have "map fst (concat (map ne_iter ?rs)) =
      map fst (List.map_filter human_of (map pending_part (pending (mail_in mb))))"
    by (simp add: pending_groups_def runs_def runs_humans)
  then have s: "subseq (map fst (concat (map ne_iter ?rs))) (map fst (pending (mail_in mb)))"
    using pending_humans by metis
  show ?thesis
  proof (cases "ne_collect (map fst (concat (map ne_iter ?rs)))")
    case None
    with ok show ?thesis by (auto simp: txn_recall_def Let_def)
  next
    case (Some ids)
    then have "ne_iter ids = map fst (concat (map ne_iter ?rs))" by simp
    then have "takes_control (last_commit mb + 1) (box_folds mb) (control.Withdrawn ids)"
      using subseq_distinct [OF s] subseq_set [OF s] ordered_distinct [OF box_ok_ordered [OF ok]]
      by (simp add: takes_control_def)
    with Some ok show ?thesis
      by (auto simp: txn_recall_def Let_def intro!: safe_and_then safe_commit_one)
  qed
qed

section \<open>Taking\<close>

text \<open>The human posts of the run an item opens, past who has gone.\<close>

fun human_run :: "'v item list \<Rightarrow> (nat \<times> bytes) list" where
  "human_run (Posted i (Input (Human t)) # xs) = (i, t) # human_run xs"
| "human_run (Gone a # xs) = human_run xs"
| "human_run _ = []"

lemma human_cases: "is_human q \<Longrightarrow> \<exists>t. q = Input (Human t)"
  by (cases q rule: is_human.cases) auto

lemma human_run_other: "\<not> is_human q \<Longrightarrow> human_run (Posted i q # xs) = []"
  by (cases q rule: is_human.cases) auto

fun ne_extend :: "'a non_empty \<Rightarrow> 'a list \<Rightarrow> 'a non_empty" where
  "ne_extend (NonEmpty x xs) ys = NonEmpty x (xs @ ys)"

lemma ne_extend_simps [simp]:
  "ne_extend n [] = n" "ne_extend (ne_push n x) ys = ne_extend n (x # ys)"
  by (cases n; simp)+

lemma ne_iter_extend [simp]: "ne_iter (ne_extend n ys) = ne_iter n @ ys"
  by (cases n) simp

lemma run_of_humans:
  "\<exists>rest. runs_from (Some (r, asides)) (map item_part xs) =
     Run (ne_extend r (map fst (human_run xs))) # rest"
proof (induction xs arbitrary: r asides)
  case (Cons x xs)
  show ?case
  proof (cases x)
    case (Posted i q)
    then show ?thesis
      using Cons [of "ne_push r i" asides] by (cases "is_human q") (auto simp: human_run_other dest: human_cases)
  next
    case (Gone a)
    then show ?thesis using Cons by simp
  qed
qed simp

text \<open>The posts a take at an index takes, and the payloads they carry.\<close>

definition taken_posts :: "nat \<Rightarrow> 'v item list \<Rightarrow> nat list" where
  "taken_posts k xs =
     (case xs ! k of
        Posted i q \<Rightarrow> if is_human q then map fst (human_run (drop k xs)) else [i]
      | Gone _ \<Rightarrow> [])"

definition taken_payload :: "nat \<Rightarrow> 'v item list \<Rightarrow> 'v queued" where
  "taken_payload k xs =
     (case xs ! k of
        Posted i q \<Rightarrow>
          if is_human q then Input (Human (joined_texts (map snd (human_run (drop k xs))))) else q
      | Gone _ \<Rightarrow> Input (Human []))"

lemma first_group:
  assumes "k < length xs" and "xs ! k = Posted i q"
  shows "(case runs item_part (drop k xs) of
      Run ids # _ \<Rightarrow> Some ids | One (Posted i _) # _ \<Rightarrow> Some (ne_one i) | _ \<Rightarrow> None) =
    ne_collect (taken_posts k xs)"
proof -
  have d: "drop k xs = Posted i q # drop (Suc k) xs" using assms Cons_nth_drop_Suc by metis
  show ?thesis
  proof (cases "is_human q")
    case True
    obtain rest where "runs_from (Some (ne_one i, [])) (map item_part (drop (Suc k) xs)) =
        Run (ne_extend (ne_one i) (map fst (human_run (drop (Suc k) xs)))) # rest"
      using run_of_humans by blast
    with True d assms human_cases [OF True] show ?thesis
      by (auto simp: runs_def taken_posts_def ne_one_def)
  next
    case False
    with d assms show ?thesis by (simp add: runs_def taken_posts_def ne_one_def)
  qed
qed

lemma human_run_items: "(i, t) \<in> set (human_run xs) \<Longrightarrow> Posted i (Input (Human t)) \<in> set xs"
  by (induction xs rule: human_run.induct) auto

lemma human_run_ids: "subseq (map fst (human_run xs)) (ids_of xs)"
  by (induction xs rule: human_run.induct) simp_all

lemma ids_of_drop: "subseq (ids_of (drop k xs)) (ids_of xs)"
  by (metis append_take_drop_id ids_of_simps(4) subseq_drop_many subseq_order.order_refl)

lemma taken_posts_ids:
  assumes "k < length xs"
  shows "subseq (taken_posts k xs) (ids_of xs)"
proof -
  have "subseq (taken_posts k xs) (ids_of (drop k xs))"
  proof (cases "xs ! k")
    case (Posted i q)
    then have "drop k xs = Posted i q # drop (Suc k) xs" using assms Cons_nth_drop_Suc by metis
    with Posted human_run_ids [of "drop k xs"] show ?thesis by (auto simp: taken_posts_def subseq_singleton_left)
  qed (simp add: taken_posts_def)
  then show ?thesis using ids_of_drop subseq_order.order_trans by blast
qed

text \<open>Of posts that lie apart, those of a set of ids are the ones that carry them.\<close>

lemma payloads_of_run:
  assumes "distinct (ids_of xs)"
  shows "concat (map payload (filter (\<lambda>x. \<not> outside (fst ` set (human_run xs)) x) xs)) =
    map (\<lambda>e. Input (Human (snd e))) (human_run xs)"
  using assms
proof (induction xs rule: human_run.induct)
  case (1 i t xs)
  have "outside (insert i (fst ` set (human_run xs))) x = outside (fst ` set (human_run xs)) x" if "x \<in> set xs" for x
  proof (cases x)
    case (Posted j q)
    then have "j \<in> set (ids_of xs)" using that by (force simp: ids_of_def)
    with 1 Posted show ?thesis by auto
  qed simp
  with 1 show ?case by (simp cong: filter_cong)
next
  case (2 a xs)
  then show ?case by simp
qed (auto simp: filter_empty_conv elim: outside.elims)

lemma outside_empty [simp]: "outside {} x"
  by (cases x) simp_all

lemma payload_of_one:
  "distinct (ids_of xs) \<Longrightarrow> k < length xs \<Longrightarrow> xs ! k = Posted i q \<Longrightarrow>
     concat (map payload (filter (\<lambda>x. \<not> outside {i} x) xs)) = [q]"
proof (induction xs arbitrary: k)
  case (Cons x xs)
  have none: "filter (\<lambda>x. \<not> outside {i} x) ys = []" if "i \<notin> set (ids_of ys)" for ys :: "'a item list"
  proof -
    have "outside {i} y" if y: "y \<in> set ys" for y
    proof (cases y)
      case (Posted j p)
      then have "j \<in> set (ids_of ys)" using y by (force simp: ids_of_def)
      with Posted \<open>i \<notin> set (ids_of ys)\<close> show ?thesis by auto
    qed simp
    then show ?thesis by (simp add: filter_empty_conv)
  qed
  show ?case
  proof (cases k)
    case 0
    with Cons.prems none show ?thesis by simp
  next
    case (Suc j)
    then have "Posted i q \<in> set xs" using Cons.prems by (auto dest: nth_mem)
    then have "i \<in> set (ids_of xs)" by (force simp: ids_of_def)
    with Cons.prems(1) have "outside {i} x" by (cases x) auto
    moreover have "distinct (ids_of xs)" using Cons.prems(1) by (cases x) auto
    ultimately show ?thesis using Cons.IH [of j] Cons.prems Suc by simp
  qed
qed simp

lemma before_run:
  assumes "distinct (ids_of xs)"
  shows "filter (\<lambda>x. \<not> outside (fst ` set (human_run (drop k xs))) x) xs =
    filter (\<lambda>x. \<not> outside (fst ` set (human_run (drop k xs))) x) (drop k xs)"
proof -
  let ?D = "fst ` set (human_run (drop k xs))"
  have "outside ?D x" if x: "x \<in> set (take k xs)" for x
  proof (cases x)
    case (Posted j p)
    then have "j \<in> set (ids_of (take k xs))" using x by (force simp: ids_of_def)
    moreover have "distinct (ids_of (take k xs) @ ids_of (drop k xs))"
      using assms by (metis append_take_drop_id ids_of_simps(4))
    moreover have "?D \<subseteq> set (ids_of (drop k xs))"
      using subseq_set [OF human_run_ids] by (metis list.set_map)
    ultimately show ?thesis using Posted by auto
  qed simp
  then have "filter (\<lambda>x. \<not> outside ?D x) (take k xs) = []" by (simp add: filter_empty_conv)
  then show ?thesis by (metis append_Nil append_take_drop_id filter_append)
qed

text \<open>
  A take at a post hands over its payload, joined with the run of human posts it opens, and
  leaves the rest of the queue in order.
\<close>

lemma runs_humans_only:
  "runs_from (Some (r, [])) (map queued_part (map (\<lambda>e. Input (Human (snd e))) es)) =
     [Run (ne_extend r (map snd es))]"
  by (induction es arbitrary: r) simp_all

lemma take_at_outcome:
  assumes ok: "box_ok ph mb" and k: "k < length (queue mb)" "queue mb ! k = Posted i q"
  shows "(\<exists>mb'. take_at b k mb = (Unavailable, mb') \<and> box_ok ph mb') \<or>
    (\<exists>f. take_at b k mb = (Done (taken_payload k (queue mb)),
        mb\<lparr>last_commit := last_commit mb + 1, box_folds := f,
           queue := filter (outside (set (taken_posts k (queue mb)))) (queue mb)\<rparr>) \<and>
      folds_line (last_commit mb + 1) [Taken (the (ne_collect (taken_posts k (queue mb))))] (box_folds mb) = Inr f \<and>
      box_ok ph (mb\<lparr>last_commit := last_commit mb + 1, box_folds := f,
           queue := filter (outside (set (taken_posts k (queue mb)))) (queue mb)\<rparr>))"
proof -
  let ?xs = "queue mb"
  let ?ids = "taken_posts k ?xs"
  have dr: "drop k ?xs = Posted i q # drop (Suc k) ?xs" using k Cons_nth_drop_Suc by metis
  have "?ids \<noteq> []" using k dr human_cases [of q] by (auto simp: taken_posts_def)
  then obtain n where n: "ne_collect ?ids = Some n" "ne_iter n = ?ids" by (cases ?ids) auto
  have s: "subseq ?ids (ids_of ?xs)" using taken_posts_ids k(1) .
  have d: "distinct (ids_of ?xs)" using box_ok_ids(1) ok .
  have "takes_control (last_commit mb + 1) (box_folds mb) (Taken n)"
    using subseq_set [OF s] subseq_distinct [OF s d] box_ok_ids(2) [OF ok] n by (auto simp: takes_control_def)
  then obtain f where f: "folds_step (last_commit mb + 1) (Taken n) (box_folds mb) = Inr f"
    using folds_step_takes box_parts [OF ok] by blast
  have acc: "folds_line (last_commit mb + 1) (ne_iter (ne_one (Taken n))) (box_folds mb) = Inr f"
    using f by simp
  have p: "pending (the_mail f) = filter (\<lambda>e. fst e \<notin> set ?ids) (pending (mail_in mb))"
    using f n mail_removed [OF box_ok_ordered [OF ok], of ?ids True "the_mail f"] by (simp add: folds_step_Inr)
  have pay: "concat (map payload (filter (\<lambda>x. \<not> outside (set ?ids) x) ?xs)) =
      (if is_human q then map (\<lambda>e. Input (Human (snd e))) (human_run (drop k ?xs)) else [q])"
  proof (cases "is_human q")
    case True
    have "distinct (ids_of (drop k ?xs))" using subseq_distinct [OF ids_of_drop d] .
    with True payloads_of_run before_run [OF d, of k] k show ?thesis by (simp add: taken_posts_def)
  next
    case False
    with payload_of_one [OF d k] k show ?thesis by (simp add: taken_posts_def)
  qed
  have result: "(case runs queued_part (concat (map payload (filter (\<lambda>x. \<not> outside (set ?ids) x) ?xs))) of
      Run ts # _ \<Rightarrow> (Done (Input (Human (joined_texts (ne_iter ts)))), s)
    | One q # _ \<Rightarrow> (Done q, s) | [] \<Rightarrow> (Panicked, s)) = (Done (taken_payload k ?xs), s)" for s :: "'a mailbox"
  proof (cases "is_human q")
    case True
    then obtain t where "q = Input (Human t)" using human_cases by blast
    then show ?thesis
      using True k dr unfolding pay
      by (simp add: runs_def runs_humans_only ne_one_def taken_payload_def del: map_map)
  next
    case False
    then have "queued_part q = PostPart q" by (cases q rule: queued_part.cases) auto
    with False k show ?thesis unfolding pay by (simp add: runs_def taken_payload_def)
  qed
  have same: "pending (the_mail f) = filter (\<lambda>e. fst e \<notin> D) (pending (mail_in mb)) \<Longrightarrow>
      filter (\<lambda>x. \<not> outside D x) ?xs = filter (\<lambda>x. \<not> outside (set ?ids) x) ?xs \<and>
      filter (outside D) ?xs = filter (outside (set ?ids)) ?xs" for D
    using pruned [OF ok, of f D] pruned [OF ok p] by (auto intro: filter_cong)
  have np: "\<not> list_ex is_posted (ne_iter (ne_one (Taken n)))" by simp
  show ?thesis
    using commit_line_outcome [OF ok np acc, of b]
  proof
    assume "\<exists>mb'. commit_line b (ne_one (Taken n)) mb = (Unavailable, mb') \<and> (mb' = mb \<or> mb' = journal_fails mb)"
    then show ?thesis using ok by (auto simp: take_at_def first_group [OF k] n and_then_def)
  next
    assume "\<exists>D. pending (the_mail f) = filter (\<lambda>e. fst e \<notin> D) (pending (mail_in mb)) \<and>
      commit_line b (ne_one (Taken n)) mb =
        (Done (concat (map payload (filter (\<lambda>x. \<not> outside D x) ?xs))),
         mb\<lparr>last_commit := last_commit mb + 1, box_folds := f, queue := filter (outside D) ?xs\<rparr>)"
    then have "take_at b k mb = (Done (taken_payload k ?xs),
        mb\<lparr>last_commit := last_commit mb + 1, box_folds := f, queue := filter (outside (set ?ids)) ?xs\<rparr>)"
      using same result by (auto simp: take_at_def first_group [OF k] n and_then_def)
    moreover have "folds_line (last_commit mb + 1) [Taken (the (ne_collect ?ids))] (box_folds mb) = Inr f"
      using acc n(1) by simp
    ultimately show ?thesis using box_ok_committed [OF ok acc p] by blast
  qed
qed

end
