(* ===== verification/Mailbox_Actions.thy ===== *)
theory Mailbox_Actions
  imports Mailbox_Steps
begin

text \<open>
  Draining and the owner's loop, and the actions on a cell in whatever order: each transaction
  with whatever its journal and clock answer, the records other writers append to the same log,
  and the ends of lives and exchanges.
\<close>

section \<open>Draining\<close>

fun content :: "'v item \<Rightarrow> 'v queued + nat" where
  "content (Posted _ q) = Inl q"
| "content (Gone a) = Inr a"

definition drained_items :: "'v item list \<Rightarrow> 'v drained list" where
  "drained_items xs = map drained_group (runs_from None (map (\<lambda>x. the (slot_part (content x))) xs))"

lemma slot_ids: "List.map_filter (\<lambda>s. case s of Inl i \<Rightarrow> Some i | Inr _ \<Rightarrow> None) (map slot_of xs) = ids_of xs"
proof (induction xs)
  case (Cons x xs)
  then show ?case by (cases x) (simp_all add: List.map_filter_simps)
qed (simp add: List.map_filter_simps)

lemma fill_items: "fill (map slot_of xs) (concat (map payload xs)) = Some (map content xs)"
proof (induction xs)
  case (Cons x xs)
  then show ?case by (cases x) simp_all
qed simp

lemma slot_part_drains: "\<not> holds_drain x \<Longrightarrow> \<exists>p. slot_part (content x) = Some p"
  by (cases x rule: holds_drain.cases; cases "content x" rule: slot_part.cases) auto

lemma slots_filled:
  assumes "\<forall>x\<in>set xs. \<not> holds_drain x"
  shows "Option.bind (fill (map slot_of xs) (concat (map payload xs))) (\<lambda>fs. those (map slot_part fs)) =
    Some (map (\<lambda>x. the (slot_part (content x))) xs)"
proof -
  have "those (map slot_part (map content xs)) = Some (map (\<lambda>x. the (slot_part (content x))) xs)"
    using assms
  proof (induction xs)
    case (Cons x xs)
    then obtain p where "slot_part (content x) = Some p" using slot_part_drains by auto
    with Cons show ?case by simp
  qed simp
  then show ?thesis by (simp add: fill_items)
qed

lemma outside_ids: "set (ids_of xs) \<inter> D = {} \<Longrightarrow> filter (outside D) xs = xs"
proof (induction xs)
  case (Cons x xs)
  then show ?case by (cases x) auto
qed simp

lemma outside_all: "set (ids_of xs) \<subseteq> D \<Longrightarrow> filter (outside D) xs = filter is_gone xs"
proof (induction xs)
  case (Cons x xs)
  then show ?case by (cases x) auto
qed simp

lemma payloads_all: "set (ids_of xs) \<subseteq> D \<Longrightarrow> concat (map payload (filter (\<lambda>x. \<not> outside D x) xs)) = concat (map payload xs)"
proof (induction xs)
  case (Cons x xs)
  then show ?case by (cases x) auto
qed simp

lemma count_gone:
  "length (filter (\<lambda>s. case s of Inr _ \<Rightarrow> True | _ \<Rightarrow> False) (map slot_of xs)) = length (filter is_gone xs)"
proof (induction xs)
  case (Cons x xs)
  then show ?case by (cases x) simp_all
qed simp

text \<open>A drain hands over the queue up to the first rewrite, in order, and leaves the rest.\<close>

lemma drain_outcome:
  fixes mb :: "'v mailbox"
  assumes ok: "box_ok ph mb" and running: "\<not> exchange_cancelled mb"
  shows "(\<exists>mb'. txn_drain b mb = (Unavailable, mb') \<and> box_ok ph mb') \<or>
    (\<exists>mb'. txn_drain b mb = (Done (drained_items (takeWhile (\<lambda>x. \<not> holds_drain x) (queue mb))), mb') \<and>
      queue mb' = dropWhile (\<lambda>x. \<not> holds_drain x) (queue mb) \<and> box_ok ph mb' \<and>
      owes (mail_in mb') = owes (mail_in mb) \<and> job (mail_in mb') = job (mail_in mb))"
proof -
  let ?xs = "queue mb"
  define us where "us = takeWhile (\<lambda>x. \<not> holds_drain x) ?xs"
  define vs where "vs = dropWhile (\<lambda>x. \<not> holds_drain x) ?xs"
  have xs: "?xs = us @ vs" by (simp add: us_def vs_def)
  have us: "\<forall>x\<in>set us. \<not> holds_drain x" by (auto simp: us_def dest: set_takeWhileD)
  have d: "distinct (ids_of us @ ids_of vs)" using box_ok_ids(1) [OF ok] by (simp add: xs)
  let ?finish = "\<lambda>taken (mb :: 'v mailbox).
      let mb' = mb\<lparr>queue := drop (length (filter is_gone us)) (queue mb)\<rparr> in
      (case Option.bind (fill (map slot_of us) taken) (\<lambda>fs. those (map slot_part fs)) of
         None \<Rightarrow> (Panicked, mb')
       | Some ps \<Rightarrow> (Done (map drained_group (runs_from None ps)), mb'))"
  have finish: "?finish (concat (map payload us)) (mb'\<lparr>queue := filter is_gone us @ vs\<rparr>) =
      (Done (drained_items us), mb'\<lparr>queue := vs\<rparr>)" for mb'
    unfolding slots_filled [OF us] by (simp add: drained_items_def Let_def)
  have mirrored: "box_ok ph (mb'\<lparr>queue := vs\<rparr>)" if "box_ok ph (mb'\<lparr>queue := filter is_gone us @ vs\<rparr>)" for mb'
    using that mirror_no_posts [of "filter is_gone us" ph] by (simp add: box_ok_def)
  have drain: "txn_drain b mb = and_then
      (case ne_collect (ids_of us) of None \<Rightarrow> (Done [], mb) | Some ids \<Rightarrow> commit_line b (ne_one (Taken ids)) mb) ?finish"
    unfolding txn_drain_def Let_def us_def [symmetric] slot_ids count_gone
    by (simp only: running if_False)
  show ?thesis
  proof (cases "ne_collect (ids_of us)")
    case None
    have gone: "is_gone x" if "x \<in> set us" for x
      using None that by (cases x) (force simp: ids_of_def)+
    then have "filter is_gone us = us" by simp
    moreover have "payload x = []" if "x \<in> set us" for x using gone [OF that] by (cases x) simp_all
    then have empty: "concat (map payload us) = []" by simp
    ultimately have "txn_drain b mb = (Done (drained_items us), mb\<lparr>queue := vs\<rparr>)"
      using finish [of mb, unfolded empty] None xs by (simp add: drain and_then_def)
    moreover have "mb\<lparr>queue := us @ vs\<rparr> = mb" using xs by simp
    then have "box_ok ph (mb\<lparr>queue := vs\<rparr>)"
      using mirrored [of mb] ok \<open>filter is_gone us = us\<close> by simp
    ultimately show ?thesis by (auto simp: us_def vs_def)
  next
    case (Some ids)
    then have i: "ne_iter ids = ids_of us" by simp
    have s: "set (ids_of us) \<subseteq> fst ` set (pending (mail_in mb))" using box_ok_ids(2) [OF ok] by (simp add: xs)
    then have "takes_control (last_commit mb + 1) (box_folds mb) (Taken ids)"
      using d i by (simp add: takes_control_def)
    then obtain f where f: "folds_step (last_commit mb + 1) (Taken ids) (box_folds mb) = Inr f"
      using folds_step_takes box_parts [OF ok] by blast
    have acc: "folds_line (last_commit mb + 1) (ne_iter (ne_one (Taken ids))) (box_folds mb) = Inr f"
      using f by simp
    have np: "\<not> list_ex is_posted (ne_iter (ne_one (Taken ids)))" by simp
    have removed: "mail_remove (ids_of us) True (mail_in mb) = Inr (the_mail f)"
      using f i by (simp add: folds_step_Inr)
    then have p: "pending (the_mail f) = filter (\<lambda>e. fst e \<notin> set (ids_of us)) (pending (mail_in mb))"
      using mail_removed [OF box_ok_ordered [OF ok] removed] by simp
    have debt: "owes (the_mail f) = owes (mail_in mb)" "job (the_mail f) = job (mail_in mb)"
      using owes_taken [OF removed box_ok_ordered [OF ok]] mail_remove_fields [OF removed] by auto
    from commit_line_outcome [OF ok np acc, of b] show ?thesis
    proof
      assume "\<exists>mb'. commit_line b (ne_one (Taken ids)) mb = (Unavailable, mb') \<and> (mb' = mb \<or> mb' = journal_fails mb)"
      then show ?thesis using Some ok by (auto simp: drain and_then_def)
    next
      assume "\<exists>D. pending (the_mail f) = filter (\<lambda>e. fst e \<notin> D) (pending (mail_in mb)) \<and>
        commit_line b (ne_one (Taken ids)) mb =
          (Done (concat (map payload (filter (\<lambda>x. \<not> outside D x) ?xs))),
           mb\<lparr>last_commit := last_commit mb + 1, box_folds := f, queue := filter (outside D) ?xs\<rparr>)"
      then obtain D where D: "pending (the_mail f) = filter (\<lambda>e. fst e \<notin> D) (pending (mail_in mb))"
        "commit_line b (ne_one (Taken ids)) mb =
          (Done (concat (map payload (filter (\<lambda>x. \<not> outside D x) ?xs))),
           mb\<lparr>last_commit := last_commit mb + 1, box_folds := f, queue := filter (outside D) ?xs\<rparr>)" by blast
      have "outside D x = outside (set (ids_of us)) x" if "x \<in> set ?xs" for x
        using pruned [OF ok D(1) that] pruned [OF ok p that] by blast
      then have same: "filter (\<lambda>x. \<not> outside D x) ?xs = filter (\<lambda>x. \<not> outside (set (ids_of us)) x) ?xs"
        "filter (outside D) ?xs = filter (outside (set (ids_of us))) ?xs" by (auto intro: filter_cong)
      have "filter (outside (set (ids_of us))) ?xs = filter is_gone us @ vs"
        using outside_all [of us] outside_ids [of vs "set (ids_of us)"] d by (auto simp: xs)
      moreover have "concat (map payload (filter (\<lambda>x. \<not> outside (set (ids_of us)) x) ?xs)) = concat (map payload us)"
      proof -
        have "filter (\<lambda>x. \<not> outside (set (ids_of us)) x) vs = []"
          using outside_ids [of vs "set (ids_of us)"] d by (auto simp: filter_empty_conv filter_id_conv)
        with payloads_all [of us] show ?thesis by (simp add: xs)
      qed
      ultimately have "txn_drain b mb =
          (Done (drained_items us), mb\<lparr>last_commit := last_commit mb + 1, box_folds := f, queue := vs\<rparr>)"
        using finish [of "mb\<lparr>last_commit := last_commit mb + 1, box_folds := f\<rparr>"] D(2) same Some
        by (simp add: drain and_then_def)
      moreover have "box_ok ph (mb\<lparr>last_commit := last_commit mb + 1, box_folds := f, queue := vs\<rparr>)"
        using box_ok_committed [OF ok acc p] mirrored [of "mb\<lparr>last_commit := last_commit mb + 1, box_folds := f\<rparr>"]
          \<open>filter (outside (set (ids_of us))) ?xs = filter is_gone us @ vs\<close> by simp
      ultimately show ?thesis using debt by (auto simp: us_def vs_def)
    qed
  qed
qed

lemma safe_drain: "box_ok ph mb \<Longrightarrow> safe ph (txn_drain b mb)"
proof (cases "exchange_cancelled mb")
  case True
  then show "box_ok ph mb \<Longrightarrow> ?thesis" by (simp add: txn_drain_def safeI)
next
  case False
  assume "box_ok ph mb"
  from drain_outcome [OF this False, of b] show ?thesis by (auto simp: safe_def)
qed

section \<open>The owner's loop\<close>

lemma admitted_defined:
  assumes "box_ok ph mb" and "x \<in> set (queue mb)"
  shows "\<exists>a. admitted mb x = Some a"
proof (cases x)
  case (Posted i q)
  then have "i \<in> fst ` set (pending (mail_in mb))" using box_ok_key assms by blast
  then have "\<exists>p. pending_post i (mail_in mb) = Some p"
    by (auto simp: pending_post_def map_of_eq_None_iff simp flip: not_None_eq)
  with Posted show ?thesis
    by (auto split: queued.splits input.splits admission.splits)
qed auto

lemma next_index_outcome:
  "\<forall>x\<in>set xs. \<exists>a. admitted mb x = Some a \<Longrightarrow>
     (next_index mb xs = Some None \<and> (\<forall>x\<in>set xs. admitted mb x = Some False)) \<or>
     (\<exists>k. next_index mb xs = Some (Some k) \<and> k < length xs \<and> admitted mb (xs ! k) = Some True \<and>
        (\<forall>j<k. admitted mb (xs ! j) = Some False))"
proof (induction xs)
  case (Cons x xs)
  then obtain a where a: "admitted mb x = Some a" by auto
  show ?case
  proof (cases a)
    case True
    with a show ?thesis by (intro disjI2 exI [of _ 0]) simp
  next
    case False
    from Cons have "(next_index mb xs = Some None \<and> (\<forall>x\<in>set xs. admitted mb x = Some False)) \<or>
       (\<exists>k. next_index mb xs = Some (Some k) \<and> k < length xs \<and> admitted mb (xs ! k) = Some True \<and>
          (\<forall>j<k. admitted mb (xs ! j) = Some False))" by simp
    then show ?thesis
    proof
      assume "next_index mb xs = Some None \<and> (\<forall>x\<in>set xs. admitted mb x = Some False)"
      with a False show ?thesis by simp
    next
      assume "\<exists>k. next_index mb xs = Some (Some k) \<and> k < length xs \<and> admitted mb (xs ! k) = Some True \<and>
          (\<forall>j<k. admitted mb (xs ! j) = Some False)"
      then obtain k where "next_index mb xs = Some (Some k)" "k < length xs" "admitted mb (xs ! k) = Some True"
        "\<forall>j<k. admitted mb (xs ! j) = Some False" by blast
      with a False show ?thesis
        by (intro disjI2 exI [of _ "Suc k"]) (auto simp: nth_Cons split: nat.splits)
    qed
  qed
qed simp

lemma admitted_busy [simp]: "admitted (mb\<lparr>busy := x\<rparr>) = admitted mb"
proof
  fix y show "admitted (mb\<lparr>busy := x\<rparr>) y = admitted mb y"
    by (cases "(mb, y)" rule: admitted.cases) (auto split: queued.splits input.splits admission.splits)
qed

lemma safe_settle: "box_ok ph mb \<Longrightarrow> safe ph (next_settle b now w mb)"
proof -
  assume ok: "box_ok ph mb"
  show ?thesis
  proof (cases "job (mail_in mb)")
    case None
    with ok show ?thesis by (auto simp: next_settle_def Let_def split: admission.splits)
  next
    case (Some j)
    have "safe ph (commit_line b (ne_one (JobSettled j (stopped mb))) mb)"
      using Some by (intro safe_commit_one [OF ok]) (simp_all add: takes_control_def)
    with Some ok show ?thesis
      by (auto simp: next_settle_def Let_def safe_def split: prod.splits outcome.splits)
  qed
qed

lemma safe_take_next:
  assumes "box_ok ph mb" and "k < length (queue mb)"
  shows "safe ph (next_take b k mb)"
proof (cases "queue mb ! k")
  case (Gone a)
  have "mirror ph (take k (queue mb) @ drop (Suc k) (queue mb)) = mirror ph (queue mb)"
    using id_take_nth_drop [OF assms(2)] Gone by (metis mirror_simps(2,3) post_of.simps(2) append_Nil)
  with assms Gone show ?thesis by (auto simp: next_take_def Let_def box_ok_def)
next
  case (Posted i q)
  have "box_ok ph (mb\<lparr>waiting_for_input := False\<rparr>)" using assms(1) by simp
  from take_at_outcome [OF this, of k i q b] assms(2) Posted show ?thesis
    by (auto simp: next_take_def Let_def safe_def split: queued.splits)
qed

lemma safe_next: "box_ok ph mb \<Longrightarrow> safe ph (next_once b now w mb)"
proof -
  assume ok: "box_ok ph mb"
  let ?mb = "mb\<lparr>busy := w\<rparr>"
  have ok': "box_ok ph ?mb" using ok by simp
  have "\<forall>x\<in>set (queue ?mb). \<exists>a. admitted ?mb x = Some a" using admitted_defined [OF ok'] by blast
  from next_index_outcome [OF this] show ?thesis
    using ok safe_settle [OF ok', of b now w] safe_take_next [OF ok']
    by (auto simp: next_once_def Let_def)
qed

lemma safe_begin: "box_ok ph mb \<Longrightarrow> safe ph (begin_job b now mb)"
proof -
  assume ok: "box_ok ph mb"
  show ?thesis
  proof (cases "job (mail_in mb) = None")
    case True
    have "named (mail_in mb) < last_commit mb + 1" using ok by (simp add: box_ok_def)
    then have "safe ph (commit_line b (ne_one JobOpened) mb)"
      using True by (intro safe_commit_one [OF ok]) (simp_all add: takes_control_def)
    with ok show ?thesis
      by (auto simp: begin_job_def safe_def split: prod.splits outcome.splits)
  qed (use ok in \<open>auto simp: begin_job_def\<close>)
qed

section \<open>Actions in any order\<close>

datatype 'v action =
    Deliver bool bool "'v queued"
  | Report bool bool bytes "'v child_status"
  | Schedule bool bytes schedule
  | Unschedule bool bytes
  | Fire bool bytes nat "nat option" bytes
  | ChangeModel bool selected
  | Narrow bool bytes nat
  | ClearBox bool
  | Drain bool
  | Next bool nat bool
  | Begin bool nat
  | StopCurrent
  | StopJob bool bool nat
  | Recall bool bool
  | Release
  | Ring bytes nat
  | TakeRung
  | HasGone nat
  | EndLife
  | DropBox
  | Elsewhere nat
  | WriterFails
  | CancelExchange

fun ran :: "'a outcome \<times> 'v mailbox \<Rightarrow> 'v mailbox option" where
  "ran (Panicked, _) = None"
| "ran (_, mb) = Some mb"

fun act :: "'v phrases \<Rightarrow> 'v action \<Rightarrow> 'v mailbox \<Rightarrow> 'v mailbox option" where
  "act ph (Deliver b b' q) mb = ran (deliver ph b b' q mb)"
| "act ph (Report b b' why st) mb = (case report b b' why st mb of ((r, _), mb') \<Rightarrow> ran (r, mb'))"
| "act ph (Schedule b l s) mb = ran (txn_schedule b l s mb)"
| "act ph (Unschedule b l) mb = ran (txn_unschedule b l mb)"
| "act ph (Fire b l i ms t) mb = ran (fire ph b l i ms t mb)"
| "act ph (ChangeModel b s) mb = ran (change_model b s mb)"
| "act ph (Narrow b n w) mb = ran (narrow b n w mb)"
| "act ph (ClearBox b) mb = ran (txn_clear b mb)"
| "act ph (Drain b) mb = ran (txn_drain b mb)"
| "act ph (Next b now w) mb = ran (next_once b now w mb)"
| "act ph (Begin b now) mb = ran (begin_job b now mb)"
| "act ph StopCurrent mb = Some (snd (txn_stop None mb))"
| "act ph (StopJob b b' j) mb = ran (stop b b' j mb)"
| "act ph (Recall b b') mb = ran (recall b b' mb)"
| "act ph Release mb = Some (snd (release mb))"
| "act ph (Ring l i) mb = Some (ring l i mb)"
| "act ph TakeRung mb = Some (snd (take_rung mb))"
| "act ph (HasGone a) mb = Some (gone a mb)"
| "act ph EndLife mb = Some (end_life mb)"
| "act ph DropBox mb = Some (box_drop mb)"
| "act ph (Elsewhere n) mb = Some (mb\<lparr>last_commit := last_commit mb + n\<rparr>)"
| "act ph WriterFails mb = Some (journal_fails mb)"
| "act ph CancelExchange mb = Some (mb\<lparr>exchange := map_option (\<lambda>_. True) (exchange mb)\<rparr>)"

fun acts :: "'v phrases \<Rightarrow> 'v action list \<Rightarrow> 'v mailbox \<Rightarrow> 'v mailbox option" where
  "acts ph [] mb = Some mb"
| "acts ph (a # as) mb = Option.bind (act ph a mb) (acts ph as)"

lemma ran_safe: "safe ph r \<Longrightarrow> \<exists>mb. ran r = Some mb \<and> box_ok ph mb"
  by (cases r; cases "fst r") (auto simp: safe_def)

lemma safe_recall: "box_ok ph mb \<Longrightarrow> safe ph (recall b b' mb)"
  by (auto simp: recall_def intro!: safe_and_then safe_txn_recall safe_sync)

lemma safe_stop: "box_ok ph mb \<Longrightarrow> safe ph (stop b b' j mb)"
  by (auto simp: stop_def txn_stop_def intro!: safe_and_then safe_txn_recall safe_sync)

lemma box_ok_queue_gone: "box_ok ph mb \<Longrightarrow> box_ok ph (mb\<lparr>queue := queue mb @ [Gone a]\<rparr>)"
  by (simp add: box_ok_def)

theorem act_ok:
  assumes "box_ok ph mb"
  shows "\<exists>mb'. act ph a mb = Some mb' \<and> box_ok ph mb'"
proof (cases a)
  case (Deliver b b' q)
  with ran_safe [OF safe_deliver [OF assms]] show ?thesis by simp
next
  case (Report b b' why st)
  obtain r ns mb' where "report b b' why st mb = ((r, ns), mb')" by (metis surj_pair)
  with safe_report [OF assms, of b b' why st] Report show ?thesis by (cases r) auto
next
  case (Schedule b l s)
  with ran_safe [OF safe_schedule [OF assms]] show ?thesis by simp
next
  case (Unschedule b l)
  with ran_safe [OF safe_unschedule [OF assms]] show ?thesis by simp
next
  case (Fire b l i ms t)
  with ran_safe [OF safe_fire [OF assms]] show ?thesis by simp
next
  case (ChangeModel b s)
  with ran_safe [OF safe_change_model [OF assms]] show ?thesis by simp
next
  case (Narrow b n w)
  with ran_safe [OF safe_narrow [OF assms]] show ?thesis by simp
next
  case (ClearBox b)
  with ran_safe [OF safe_clear [OF assms]] show ?thesis by simp
next
  case (Drain b)
  with ran_safe [OF safe_drain [OF assms]] show ?thesis by simp
next
  case (Next b now w)
  with ran_safe [OF safe_next [OF assms]] show ?thesis by simp
next
  case (Begin b now)
  with ran_safe [OF safe_begin [OF assms]] show ?thesis by simp
next
  case (StopJob b b' j)
  with ran_safe [OF safe_stop [OF assms]] show ?thesis by simp
next
  case (Recall b b')
  with ran_safe [OF safe_recall [OF assms]] show ?thesis by simp
next
  case (HasGone g)
  have "box_ok ph (mb\<lparr>queue := queue mb @ [Gone g], waiting_for_input := False\<rparr>)"
    using box_ok_queue_gone [OF assms] by simp
  with HasGone assms show ?thesis by (simp add: gone_def)
next
  case DropBox
  with assms show ?thesis by (simp add: box_drop_def box_ok_def)
next
  case (Elsewhere n)
  with assms show ?thesis by (simp add: box_ok_def)
qed (use assms in \<open>auto simp: txn_stop_def release_def ring_def take_rung_def end_life_def\<close>)

theorem acts_ok: "box_ok ph mb \<Longrightarrow> \<exists>mb'. acts ph as mb = Some mb' \<and> box_ok ph mb'"
proof (induction as arbitrary: mb)
  case (Cons a as)
  then obtain mb1 where "act ph a mb = Some mb1" "box_ok ph mb1" using act_ok by blast
  with Cons show ?case by simp
qed simp

lemma new_ok:
  "mailbox_new a p n now f = Some mb \<Longrightarrow> folds_ok f \<Longrightarrow> named (the_mail f) \<le> n \<Longrightarrow> box_ok ph mb"
  by (auto simp: mailbox_new_def box_ok_def split: if_splits)

end
