(* ===== verification/Mailbox_Jobs.thy ===== *)
theory Mailbox_Jobs
  imports Mailbox_Actions
begin

text \<open>
  The owner's loop (\<open>Mailbox::next\<close>): what it takes of its queue, when it settles a job, and that
  a job with nothing outstanding comes to settle.
\<close>

section \<open>What one call answers\<close>

lemma admitted_quiet [simp]:
  "admitted (mb\<lparr>waiting_for_input := x\<rparr>) = admitted mb"
proof
  fix y show "admitted (mb\<lparr>waiting_for_input := x\<rparr>) y = admitted mb y"
    by (cases "(mb, y)" rule: admitted.cases) (auto split: queued.splits input.splits admission.splits)
qed

lemma job_admits_all: "job (mail_in mb) = Some j \<Longrightarrow> admitted mb x = Some True"
  by (cases x) simp_all

lemma next_index_open: "job (mail_in mb) = Some j \<Longrightarrow>
    next_index mb xs = Some (if xs = [] then None else Some 0)"
  by (cases xs) (simp_all add: job_admits_all)

text \<open>The item a call looks at first: the first admitted, if any is.\<close>

lemma next_once_cases:
  assumes ok: "box_ok ph mb" and on: "\<not> ended mb" "rung mb = []"
  shows "((\<forall>x\<in>set (queue mb). admitted mb x = Some False) \<and>
      next_once b now w mb = next_settle b now w (mb\<lparr>busy := w\<rparr>)) \<or>
    (\<exists>k<length (queue mb). (\<forall>j<k. admitted mb (queue mb ! j) = Some False) \<and>
      admitted mb (queue mb ! k) = Some True \<and>
      next_once b now w mb = next_take b k (mb\<lparr>busy := w\<rparr>))"
proof -
  let ?mb = "mb\<lparr>busy := w\<rparr>"
  have "box_ok ph ?mb" using ok by simp
  then have "\<forall>x\<in>set (queue ?mb). \<exists>a. admitted ?mb x = Some a" using admitted_defined by blast
  from next_index_outcome [OF this] on show ?thesis
    by (auto simp: next_once_def Let_def)
qed

lemma taken_kept:
  assumes ok: "box_ok ph mb"
    and f: "folds_line n [Taken ids] (box_folds mb) = Inr f"
  shows "owes (the_mail f) = owes (mail_in mb) \<and> job (the_mail f) = job (mail_in mb) \<and>
    returns (the_mail f) = returns (mail_in mb) \<and> the_schedules f = schedules_in mb"
proof -
  have s: "folds_step n (Taken ids) (box_folds mb) = Inr f"
    using f by (cases "folds_step n (Taken ids) (box_folds mb)") auto
  then have "mail_remove (ne_iter ids) True (mail_in mb) = Inr (the_mail f)" "the_schedules f = schedules_in mb"
    by (simp_all add: folds_step_Inr)
  with owes_taken [OF _ box_ok_ordered [OF ok]] mail_remove_fields show ?thesis by blast
qed

text \<open>
  What a take hands over: with the head of a run of human posts the whole run, with another post
  that post; what is taken leaves the queue, and what the agent owes stays.
\<close>

lemma next_takes:
  assumes ok: "box_ok ph mb" and step: "next_once b now w mb = (Done s, mb')"
    and s: "s = Took x \<and> q = Input x \<or> s = Commanded c \<and> q = Command c"
  shows "\<exists>k<length (queue mb). (\<forall>j<k. admitted mb (queue mb ! j) = Some False) \<and>
    admitted mb (queue mb ! k) = Some True \<and> q = taken_payload k (queue mb) \<and>
    queue mb' = filter (outside (set (taken_posts k (queue mb)))) (queue mb) \<and>
    owes (mail_in mb') = owes (mail_in mb) \<and> job (mail_in mb') = job (mail_in mb)"
proof -
  have on: "\<not> ended mb" "rung mb = []" using step s by (auto simp: next_once_def split: if_splits)
  from next_once_cases [OF ok on, of b now w] show ?thesis
  proof
    assume "(\<forall>x\<in>set (queue mb). admitted mb x = Some False) \<and>
      next_once b now w mb = next_settle b now w (mb\<lparr>busy := w\<rparr>)"
    with step s show ?thesis
      by (auto simp: next_settle_def Let_def split: option.splits admission.splits if_splits prod.splits outcome.splits)
  next
    assume "\<exists>k<length (queue mb). (\<forall>j<k. admitted mb (queue mb ! j) = Some False) \<and>
      admitted mb (queue mb ! k) = Some True \<and> next_once b now w mb = next_take b k (mb\<lparr>busy := w\<rparr>)"
    then obtain k where k: "k < length (queue mb)" "\<forall>j<k. admitted mb (queue mb ! j) = Some False"
      "admitted mb (queue mb ! k) = Some True" "next_take b k (mb\<lparr>busy := w\<rparr>) = (Done s, mb')"
      using step by auto
    let ?mb = "mb\<lparr>busy := w, waiting_for_input := False\<rparr>"
    obtain i p where p: "queue mb ! k = Posted i p"
      using k(4) s by (cases "queue mb ! k") (auto simp: next_take_def Let_def)
    have "box_ok ph ?mb" using ok by simp
    from take_at_outcome [OF this, of k i p b] k(1) p
    consider (no) mb1 where "take_at b k ?mb = (Unavailable, mb1)"
      | (yes) f where "take_at b k ?mb = (Done (taken_payload k (queue mb)),
          ?mb\<lparr>last_commit := last_commit mb + 1, box_folds := f,
             queue := filter (outside (set (taken_posts k (queue mb)))) (queue mb)\<rparr>)"
        "folds_line (last_commit mb + 1) [Taken (the (ne_collect (taken_posts k (queue mb))))] (box_folds mb) = Inr f"
      by auto
    then show ?thesis
    proof cases
      case no
      with k(4) p s show ?thesis by (auto simp: next_take_def Let_def)
    next
      case yes
      have "q = taken_payload k (queue mb)"
        using k(4) p s yes(1) by (cases "taken_payload k (queue mb)") (auto simp: next_take_def Let_def)
      with k p s yes(1) taken_kept [OF ok yes(2)] show ?thesis
        by (intro exI [of _ k]) (auto simp: next_take_def Let_def split: queued.splits)
    qed
  qed
qed

text \<open>A job settles only where its queue is empty and nothing is outstanding, on the debt it has.\<close>

lemma settle_commit:
  assumes "commit_line b (ne_one (JobSettled j st)) mb = (Done qs, mb')"
  shows "job (mail_in mb') = None \<and> owes (mail_in mb') = owes (mail_in mb) \<and>
    (queue mb = [] \<longrightarrow> queue mb' = []) \<and> stopped mb' = stopped mb"
proof -
  let ?n = "last_commit mb + 1"
  obtain f where f: "folds_step ?n (JobSettled j st) (box_folds mb) = Inr f"
    and mb': "mb' = snd (prune (mb\<lparr>last_commit := ?n, box_folds := f\<rparr>))"
    using assms
    by (cases "folds_step ?n (JobSettled j st) (box_folds mb)")
      (auto simp: commit_line_def commit_to_def and_then_def Let_def prune_def split: if_splits)
  have "the_mail f = (mail_in mb)\<lparr>job := None\<rparr>"
    using f by (auto simp: folds_step_Inr split: if_splits)
  then show ?thesis by (simp add: mb' prune_def owes_def)
qed

lemma take_never_settles: "next_take b k mb \<noteq> (Done (Settled st d), mb')"
  by (cases "queue mb ! k") (auto simp: next_take_def Let_def split: prod.splits outcome.splits queued.splits)

lemma next_settles:
  assumes ok: "box_ok ph mb" and step: "next_once b now w mb = (Done (Settled st d), mb')"
  shows "queue mb = [] \<and> \<not> w \<and> \<not> schedules_pending mb \<and> job (mail_in mb) \<noteq> None \<and>
    st = stopped mb \<and> d = owes (mail_in mb) \<and>
    queue mb' = [] \<and> job (mail_in mb') = None \<and> owes (mail_in mb') = d"
proof -
  have on: "\<not> ended mb" "rung mb = []" using step by (auto simp: next_once_def split: if_splits)
  from next_once_cases [OF ok on, of b now w] show ?thesis
  proof
    assume a: "(\<forall>x\<in>set (queue mb). admitted mb x = Some False) \<and>
      next_once b now w mb = next_settle b now w (mb\<lparr>busy := w\<rparr>)"
    then obtain j qs mb1 where j: "job (mail_in mb) = Some j" "\<not> w" "\<not> schedules_pending (mb\<lparr>busy := w\<rparr>)"
      "commit_line b (ne_one (JobSettled j (stopped mb))) (mb\<lparr>busy := w\<rparr>) = (Done qs, mb1)"
      "st = stopped mb" "d = owes (mail_in mb1)"
      "mb' = mb1\<lparr>since_ms := now, waiting_for_input := False\<rparr>"
      using step by (auto simp: next_settle_def Let_def split: option.splits admission.splits if_splits prod.splits outcome.splits)
    have "queue mb = []" using a job_admits_all [OF j(1)] by (cases "queue mb") auto
    with j settle_commit [OF j(4)] show ?thesis by (simp add: schedules_pending_def)
  next
    assume "\<exists>k<length (queue mb). (\<forall>j<k. admitted mb (queue mb ! j) = Some False) \<and>
      admitted mb (queue mb ! k) = Some True \<and> next_once b now w mb = next_take b k (mb\<lparr>busy := w\<rparr>)"
    with step take_never_settles show ?thesis by metis
  qed
qed

section \<open>Coming to settle\<close>

text \<open>Calls while the journal answers and nothing is outstanding, as the owner makes them in turn.\<close>

definition owner_step :: "nat \<Rightarrow> 'v mailbox \<Rightarrow> 'v mailbox" where
  "owner_step now mb = snd (next_once True now False mb)"

definition at_work :: "'v mailbox \<Rightarrow> bool" where
  "at_work mb \<longleftrightarrow> \<not> ended mb \<and> \<not> broken mb \<and> rung mb = [] \<and> \<not> schedules_pending mb \<and> job (mail_in mb) \<noteq> None"

lemma commit_line_available: "\<not> broken mb \<Longrightarrow> fst (commit_line True line mb) \<noteq> Unavailable"
  by (auto simp: commit_line_def commit_to_def and_then_def Let_def prune_def split: sum.splits)

lemma take_available: "\<not> broken mb \<Longrightarrow> fst (take_at True k mb) \<noteq> Unavailable"
proof -
  assume "\<not> broken mb"
  then have "fst (commit_line True line mb) \<noteq> Unavailable" for line by (rule commit_line_available)
  then show ?thesis
    by (auto simp: take_at_def and_then_def split: option.splits prod.splits outcome.splits list.splits group.splits)
      (metis fst_conv)+
qed

lemma drain_available: "\<not> broken mb \<Longrightarrow> fst (txn_drain True mb) \<noteq> Unavailable"
proof -
  assume "\<not> broken mb"
  then have "fst (commit_line True line mb) \<noteq> Unavailable" for line by (rule commit_line_available)
  then show ?thesis
    by (auto simp: txn_drain_def and_then_def Let_def split: option.splits prod.splits outcome.splits)
      (metis fst_conv)+
qed

lemma owner_takes:
  assumes ok: "box_ok ph mb" and work: "at_work mb" and some: "queue mb \<noteq> []"
  shows "at_work (owner_step now mb) \<and> box_ok ph (owner_step now mb) \<and>
    length (queue (owner_step now mb)) < length (queue mb) \<and> owes (mail_in (owner_step now mb)) = owes (mail_in mb) \<and>
    stopped (owner_step now mb) = stopped mb"
proof -
  obtain x xs where q: "queue mb = x # xs" using some by (cases "queue mb") auto
  obtain j where j: "job (mail_in mb) = Some j" using work by (auto simp: at_work_def)
  let ?mb = "mb\<lparr>busy := False\<rparr>" and ?mb1 = "mb\<lparr>busy := False, waiting_for_input := False\<rparr>"
  have first: "next_once True now False mb = next_take True 0 ?mb"
    using work q job_admits_all [OF j] by (simp add: next_once_def at_work_def Let_def)
  show ?thesis
  proof (cases x)
    case (Gone a)
    then have "owner_step now mb = mb\<lparr>busy := False, waiting_for_input := False, queue := xs\<rparr>"
      using q by (simp add: owner_step_def first next_take_def)
    with ok work q Gone show ?thesis by (simp add: at_work_def box_ok_def schedules_pending_def)
  next
    case (Posted i p)
    have ok1: "box_ok ph ?mb1" using ok by simp
    have nf: "fst (take_at True 0 ?mb1) \<noteq> Unavailable" using work by (intro take_available) (simp add: at_work_def)
    from take_at_outcome [OF ok1, of 0 i p True] q Posted nf obtain f where
      f: "take_at True 0 ?mb1 = (Done (taken_payload 0 (queue mb)),
          ?mb1\<lparr>last_commit := last_commit mb + 1, box_folds := f,
             queue := filter (outside (set (taken_posts 0 (queue mb)))) (queue mb)\<rparr>)"
      "folds_line (last_commit mb + 1) [Taken (the (ne_collect (taken_posts 0 (queue mb))))] (box_folds mb) = Inr f"
      "box_ok ph (?mb1\<lparr>last_commit := last_commit mb + 1, box_folds := f,
             queue := filter (outside (set (taken_posts 0 (queue mb)))) (queue mb)\<rparr>)"
      by auto
    define mb2 where "mb2 = ?mb1\<lparr>last_commit := last_commit mb + 1, box_folds := f,
             queue := filter (outside (set (taken_posts 0 (queue mb)))) (queue mb)\<rparr>"
    have s: "owner_step now mb = mb2 \<or> owner_step now mb = mb2\<lparr>exchange := Some False\<rparr>"
      using q Posted f(1)
      by (cases "taken_payload 0 (queue mb)") (simp_all add: owner_step_def first next_take_def mb2_def)
    have "i \<in> set (taken_posts 0 (queue mb))"
      using q Posted by (auto simp: taken_posts_def dest!: human_cases)
    then have "\<not> outside (set (taken_posts 0 (queue mb))) x" using Posted by simp
    then have "length (queue mb2) < length (queue mb)"
      using q by (simp add: mb2_def less_Suc_eq_le)
    moreover have "box_ok ph mb2" using f(3) by (simp add: mb2_def)
    moreover have "owes (mail_in mb2) = owes (mail_in mb)" "job (mail_in mb2) = job (mail_in mb)"
      "returns (mail_in mb2) = returns (mail_in mb)" "schedules_in mb2 = schedules_in mb"
      using taken_kept [OF ok f(2)] by (simp_all add: mb2_def)
    moreover have "ended mb2 = ended mb" "broken mb2 = broken mb" "rung mb2 = rung mb" "stopped mb2 = stopped mb"
      by (simp_all add: mb2_def)
    moreover from calculation have "at_work mb2" using work by (simp add: at_work_def schedules_pending_def)
    moreover have "at_work (mb2\<lparr>exchange := x\<rparr>) = at_work mb2" for x
      by (simp add: at_work_def schedules_pending_def)
    ultimately show ?thesis using s by (elim disjE) simp_all
  qed
qed

lemma owner_settles:
  assumes ok: "box_ok ph mb" and work: "at_work mb" and none: "queue mb = []"
  shows "fst (next_once True now False mb) = Done (Settled (stopped mb) (owes (mail_in mb)))"
proof -
  obtain j where j: "job (mail_in mb) = Some j" using work by (auto simp: at_work_def)
  let ?mb = "mb\<lparr>busy := False\<rparr>"
  let ?n = "last_commit mb + 1"
  have ns: "\<not> schedules_pending ?mb" using work by (simp add: at_work_def schedules_pending_def)
  have first: "next_once True now False mb = next_settle True now False ?mb"
    using work none by (simp add: next_once_def at_work_def Let_def)
  define f where "f = (box_folds mb)\<lparr>the_mail := (mail_in mb)\<lparr>job := None\<rparr>\<rparr>"
  have "folds_step ?n (JobSettled j (stopped mb)) (box_folds mb) = Inr f"
    using j by (simp add: folds_step_def f_def)
  then have "commit_line True (ne_one (JobSettled j (stopped mb))) ?mb =
      (Done [], ?mb\<lparr>last_commit := ?n, box_folds := f\<rparr>)"
    using work none by (simp add: commit_line_def commit_to_def and_then_def at_work_def prune_def)
  then show ?thesis
    using j ns by (simp add: first next_settle_def f_def owes_def)
qed

lemma job_settles:
  "box_ok ph mb \<Longrightarrow> at_work mb \<Longrightarrow>
   \<exists>n\<le>length (queue mb). fst (next_once True now False ((owner_step now ^^ n) mb)) =
     Done (Settled (stopped mb) (owes (mail_in mb)))"
proof (induction "length (queue mb)" arbitrary: mb rule: less_induct)
  case less
  show ?case
  proof (cases "queue mb = []")
    case True
    with owner_settles [OF less.prems] show ?thesis by (intro exI [of _ 0]) simp
  next
    case False
    note t = owner_takes [OF less.prems False, of now]
    then obtain n where n: "n \<le> length (queue (owner_step now mb))"
      "fst (next_once True now False ((owner_step now ^^ n) (owner_step now mb))) =
        Done (Settled (stopped mb) (owes (mail_in mb)))"
      using less.hyps [of "owner_step now mb"] by auto
    with t show ?thesis by (intro exI [of _ "Suc n"]) (simp add: funpow_swap1)
  qed
qed

end
