(* ===== verification/Mailbox_Properties.thy ===== *)
theory Mailbox_Properties
  imports Mailbox_Jobs
begin

text \<open>
  The properties of an agent's mailbox: its transactions never panic and its queue stays the
  recorded mail, what the owner and a drain take of it, and when a job settles.  The witnesses run
  a cell freshly built and then posted to.
\<close>

section \<open>A sample cell\<close>

definition plain_phrases :: "nat phrases" where
  "plain_phrases = \<lparr>elapsed_phrase = decimal, surface_notice = (\<lambda>_. [])\<rparr>"

definition plain_selected :: selected where
  "plain_selected =
     \<lparr>sel_model = ''m'', sel_window = None, sel_label = ''m'', sel_service = ''s'', sel_account = ''a'',
      sel_via = None, sel_tuning = Tuning None None None, sel_max_tokens = None\<rparr>"

definition plain_started :: started where
  "plain_started =
     \<lparr>session_id = 7, session_name = ''root'', started_parent = None, started_returns = True,
      started_selected = plain_selected, log_dir = ''d'', started_ms = 0\<rparr>"

definition fresh_box :: "nat mailbox" where
  "fresh_box = (case mailbox_new Free False 1 0 (seed plain_started) of Some mb \<Rightarrow> mb)"

lemma fresh_box_new: "mailbox_new Free False 1 0 (seed plain_started) = Some fresh_box"
  by (simp add: fresh_box_def mailbox_new_def seed_def mail_new_def)

lemma seed_named: "named (the_mail (seed s)) \<le> n"
  by (simp add: seed_def mail_new_def)

lemma fresh_ok: "box_ok plain_phrases fresh_box"
  by (rule new_ok [OF fresh_box_new seed_ok seed_named])

text \<open>A job opened, and two human posts with a command between them.\<close>

definition posted_actions :: "nat action list" where
  "posted_actions =
     [Begin True 1, Deliver True True (Input (Human ''a'')), Deliver True True (Input (Human ''b'')),
      Deliver True True (Command (Read Context)), Deliver True True (Command (Rewrite Clear))]"

definition posted_box :: "nat mailbox" where
  "posted_box = (case acts plain_phrases posted_actions fresh_box of Some mb \<Rightarrow> mb)"

lemma posted_ok: "box_ok plain_phrases posted_box"
proof -
  obtain mb where "acts plain_phrases posted_actions fresh_box = Some mb" "box_ok plain_phrases mb"
    using acts_ok [OF fresh_ok] by blast
  then show ?thesis by (simp add: posted_box_def)
qed

lemmas posted_eval = posted_box_def posted_actions_def fresh_box_def mailbox_new_def seed_def mail_new_def
  begin_job_def commit_line_def commit_to_def and_then_def folds_step_def prune_def deliver_def post_item_def
  post_with_def journal_sync_def Let_def

lemma posted_queue:
  "queue posted_box =
     [item.Posted 3 (Input (Human ''a'')), item.Posted 4 (Input (Human ''b'')),
      item.Posted 5 (Command (Read Context)), item.Posted 6 (Command (Rewrite Clear))] \<and>
   job (mail_in posted_box) = Some 2 \<and> rung posted_box = [] \<and> \<not> ended posted_box \<and> \<not> broken posted_box \<and>
   exchange posted_box = None \<and> schedules_in posted_box = []"
  by (simp add: posted_eval)

section \<open>The cell\<close>

text \<open>
  C8. No transaction on an agent's cell panics and its queue stays the recorded mail: from a new
  cell, whatever sequence of transactions, commits of others to the same log, ends of lives and
  failures of the writer, each answers; and the queue holds the pending posts, post for post and in
  order, until the life ends, after which it holds no others.
\<close>

theorem mailbox_never_panics:
  assumes "mailbox_new a p n now f = Some mb" and "folds_ok f" and "named (the_mail f) \<le> n"
  shows "\<exists>mb'. acts ph as mb = Some mb' \<and> folds_ok (box_folds mb') \<and>
    subseq (mirror ph (queue mb')) (pending (mail_in mb')) \<and>
    (ended mb' \<or> mirror ph (queue mb') = pending (mail_in mb'))"
proof -
  obtain mb' where "acts ph as mb = Some mb'" "box_ok ph mb'" using acts_ok [OF new_ok [OF assms]] by blast
  then show ?thesis by (auto simp: box_ok_def)
qed

theorem mailbox_never_panics_witness:
  "\<exists>mb'. acts plain_phrases posted_actions fresh_box = Some mb' \<and>
     (ended mb' \<or> mirror plain_phrases (queue mb') = pending (mail_in mb'))"
  using mailbox_never_panics [OF fresh_box_new seed_ok seed_named] by blast

section \<open>What is taken\<close>



text \<open>
  The owner takes the first admitted item of its queue: with the head of a run of human posts
  the whole run, joined, with any other post that post; exactly what it takes leaves the queue, and
  its debt and its job stay.
\<close>

lemma owner_takes_the_first_admitted:
  assumes "box_ok ph mb" and "next_once b now w mb = (Done s, mb')"
    and "s = Took x \<and> q = Input x \<or> s = Commanded c \<and> q = Command c"
  shows "\<exists>k<length (queue mb). (\<forall>j<k. admitted mb (queue mb ! j) = Some False) \<and>
    admitted mb (queue mb ! k) = Some True \<and> q = taken_payload k (queue mb) \<and>
    queue mb' = filter (outside (set (taken_posts k (queue mb)))) (queue mb) \<and>
    owes (mail_in mb') = owes (mail_in mb) \<and> job (mail_in mb') = job (mail_in mb)"
  by (rule next_takes [OF assms])

section \<open>Jobs\<close>

text \<open>
  C36. Jobs settle when they are done and not before: a job settles only over an empty queue with
  nothing outstanding, on the debt the agent then has; and with a job open, its writer up and
  nothing outstanding, the owner's calls come to settle it after at most as many takes as the queue
  is long.
\<close>

theorem jobs_settle_when_done:
  assumes "box_ok ph mb"
  shows "(\<forall>b now w st d mb'. next_once b now w mb = (Done (Settled st d), mb') \<longrightarrow>
      queue mb = [] \<and> \<not> w \<and> \<not> schedules_pending mb \<and> job (mail_in mb) \<noteq> None \<and>
      st = stopped mb \<and> d = owes (mail_in mb) \<and> job (mail_in mb') = None \<and> owes (mail_in mb') = d) \<and>
    (at_work mb \<longrightarrow> (\<exists>n\<le>length (queue mb). fst (next_once True now False ((owner_step now ^^ n) mb)) =
      Done (Settled (stopped mb) (owes (mail_in mb)))))"
  using next_settles [OF assms] job_settles [OF assms] by metis

theorem jobs_settle_when_done_witness:
  "\<exists>n\<le>4. fst (next_once True 5 False ((owner_step 5 ^^ n) posted_box)) = Done (Settled (stopped posted_box) True)"
proof -
  have "owes (mail_in posted_box)" by (simp add: posted_eval owes_def by_parent_def plain_started_def)
  moreover have "at_work posted_box" using posted_queue by (simp add: at_work_def schedules_pending_def)
  moreover have "length (queue posted_box) = 4" using posted_queue by simp
  ultimately show ?thesis using jobs_settle_when_done [OF posted_ok, of 5] by metis
qed

end
