(* ===== verification/Ir_Terms.thy ===== *)
theory Ir_Terms
  imports Ral_Prelude "HOL-Library.Word"
begin

text \<open>
  The intermediate representation the evaluator steps (\<open>core/src/ir.rs\<close> and its modules
  \<open>ir/op.rs\<close>, \<open>ir/pattern.rs\<close>, \<open>ir/redirect.rs\<close>): values and computations of a
  call-by-push-value calculus, patterns, operators and redirects.  A shared node (\<open>Arc\<close>) is its
  contents; what a node mentions, which the code computes where it builds one, is computed from
  the contents.  A \<open>Site\<close>, the type a boundary was solved at (\<open>core/src/ty/site.rs\<close>), is a graph
  of shapes; a scheme of the checker is known by identity.
\<close>

section \<open>Spans, names and floats\<close>

type_synonym name = bytes

datatype span = Span (span_file: nat) (span_start: nat) (span_end: nat)

datatype 'a spanned = Spanned (item: 'a) (span_of: "span option")

definition synthetic :: "'a \<Rightarrow> 'a spanned" where
  "synthetic x = Spanned x None"

text \<open>A finite \<open>f64\<close>: its sign and its magnitude in units of \<open>2\<^sup>-\<^sup>1\<^sup>0\<^sup>7\<^sup>4\<close>, the least positive double.\<close>

datatype finite = Finite (negative: bool) (magnitude: nat)

section \<open>Sites\<close>

datatype grade_shape = ValueGrade | OutputGrade | FreeGrade nat

datatype row_tail = ClosedRow | OpenRow nat bool bool

datatype row = Row (row_labels: "(bytes \<times> nat) list") (row_tail: row_tail)

datatype shape =
  UnitShape | BytesShape | BoolShape | IntShape | FloatShape | StringShape
| ListShape nat
| MapShape nat
| HandleShape grade_shape nat
| RecordShape row
| VariantShape row
| ThunkShape nat
| FreeShape nat nat bool
| ReturnShape grade_shape nat
| FunShape nat nat
| FreeCompShape bool

datatype node = Node (node_shape: shape) (node_witness: "span option")

datatype site = Site (site_nodes: "node list") (site_root: nat) (site_unit: nat)

datatype scheme = Checked nat | SchemeOf site

definition project :: "site \<Rightarrow> nat \<Rightarrow> site" where
  "project s root = Site (site_nodes s) root (site_unit s)"

section \<open>Operators, patterns and redirects\<close>

datatype arith_op = Add | Sub | Mul | Div | Mod
datatype compare_op = Lt | Gt | Le | Ge
datatype eq_op = Eq | Ne
datatype binary_op = ArithOp arith_op | CompareOp compare_op | EqOp eq_op

datatype pattern =
  Wildcard
| NameP name
| ListP "pattern list" "name option"
| RecordP "field_pattern list"
and field_pattern = FieldPattern (field_key: bytes) (field_pattern: pattern)

datatype write_mode = WriteMode | AppendMode | StreamMode
datatype 't stdin_source = FileSource 't | HereSource 't
datatype 't redirect =
  StdinR "'t stdin_source" | StdoutR write_mode 't | StderrR write_mode 't | StderrToStdout
datatype 't stderr_target = FileTarget write_mode 't | StdoutTarget
datatype 't redirects =
  Redirects (rd_stdin: "'t stdin_source option") (rd_stdout: "(write_mode \<times> 't) option")
    (rd_stderr: "'t stderr_target option")

section \<open>Terms\<close>

datatype tilde_path = TildePath (suffix: "bytes option")

datatype command_name = Bare name | PathName bytes | TildeName tilde_path
datatype command_word = NameWord command_name | ExternalWord command_name

datatype 'v elem = Single "'v spanned" | Spread "'v spanned"
datatype 'v map_entry = EntryOf "'v spanned" "'v spanned" | SpreadMap "'v spanned"
datatype 'v key = LabelKey bytes | PositionKey nat | DataKey 'v

datatype 'v prim =
  Binary binary_op 'v 'v
| Negate 'v
| Not 'v
| Render 'v
| Concat "'v list"
| Decode 'v
| Index 'v "'v key spanned"
| Update "'v spanned" "(name \<times> 'v spanned) list"
| ListPrim "'v elem list"
| MapPrim "'v map_entry list"

datatype 'v exec =
  Exec (exec_head: command_word) (exec_argv: "'v elem list") (exec_redirects: "'v redirects")
    (exec_site: "site option")

datatype 'v handler_arm = HandlerArm (arm_name: bytes) (arm_value: "'v spanned")
datatype 'v case_arm = CaseArm (arm_tag: "bytes spanned") (arm_body: "'v spanned")

text \<open>A builtin row: its name, its arity, whether it is a boundary and whether its scheme settles at \<open>Unit\<close>.\<close>

datatype native =
  Native (native_name: name) (native_arity: nat) (native_boundary: bool) (native_unit: bool)

datatype val =
  UnitV
| StringV bytes
| IntV "64 word"
| FloatV finite
| BoolV bool
| Variable name
| Thunk "comp_kind spanned"
| ListV "val spanned list"
| RecordV "(name \<times> val spanned) list"
| MapV "(name \<times> val spanned) list"
| VariantV name val
| Protected val site
and comp_kind =
  Return val
| Force val
| Lam name "comp_kind spanned"
| App "comp_kind spanned" "val spanned list"
| Bind "comp_kind spanned" pattern "comp_kind spanned"
| Seq "comp_kind spanned" "comp_kind spanned"
| Rec "(name \<times> comp_kind spanned) list" nat
| If "val spanned" "val spanned" "val spanned"
| Case "val spanned" "val case_arm list"
| Try val val
| Guard val val
| Capture "comp_kind spanned"
| Prim "val prim"
| ExecC "val exec"
| Pipeline "comp_kind spanned list"
| RedirectC "comp_kind spanned" "val redirects"
| WithinC "(name \<times> val spanned) list" "val handler_arm list option" val
| Grant "(name \<times> val spanned) list" val
| Spawn "val spanned option" val
| Gather val
| Audit val
| Tilde tilde_path
| Protect "comp_kind spanned" site
| NativeC native "val list"

type_synonym comp = "comp_kind spanned"

section \<open>What a term mentions\<close>

fun slot :: "'v elem \<Rightarrow> 'v spanned" where
  "slot (Single v) = v"
| "slot (Spread v) = v"

fun entry_operands :: "'v map_entry \<Rightarrow> 'v list" where
  "entry_operands (EntryOf k v) = [item k, item v]"
| "entry_operands (SpreadMap v) = [item v]"

fun key_operands :: "'v key \<Rightarrow> 'v list" where
  "key_operands (DataKey v) = [v]"
| "key_operands _ = []"

fun prim_operands :: "'v prim \<Rightarrow> 'v list" where
  "prim_operands (Binary _ l r) = [l, r]"
| "prim_operands (Negate v) = [v]"
| "prim_operands (Not v) = [v]"
| "prim_operands (Render v) = [v]"
| "prim_operands (Decode v) = [v]"
| "prim_operands (Concat vs) = vs"
| "prim_operands (Index t k) = t # key_operands (item k)"
| "prim_operands (Update b fs) = item b # map (\<lambda>f. item (snd f)) fs"
| "prim_operands (ListPrim es) = map (\<lambda>e. item (slot e)) es"
| "prim_operands (MapPrim es) = concat (map entry_operands es)"

fun source_operand :: "'t stdin_source \<Rightarrow> 't" where
  "source_operand (FileSource t) = t"
| "source_operand (HereSource t) = t"

fun target_operand :: "'t stderr_target \<Rightarrow> 't list" where
  "target_operand (FileTarget _ t) = [t]"
| "target_operand StdoutTarget = []"

definition list_of_option :: "'a option \<Rightarrow> 'a list" where
  "list_of_option x = (case x of None \<Rightarrow> [] | Some y \<Rightarrow> [y])"

definition redirect_operands :: "'t redirects \<Rightarrow> 't list" where
  "redirect_operands r =
     map source_operand (list_of_option (rd_stdin r))
     @ map snd (list_of_option (rd_stdout r))
     @ concat (map target_operand (list_of_option (rd_stderr r)))"

fun word_name :: "command_word \<Rightarrow> command_name" where
  "word_name (NameWord n) = n"
| "word_name (ExternalWord n) = n"

fun word_mentions :: "command_name \<Rightarrow> name list" where
  "word_mentions (Bare n) = [n]"
| "word_mentions _ = []"

text \<open>\<open>Node::build\<close>: the mentions of a node's shape, sorted, each once.\<close>

definition occ_of :: "name list \<Rightarrow> name list" where
  "occ_of ns = remdups_adj (sort ns)"

abbreviation items :: "'a spanned list \<Rightarrow> 'a list" where
  "items xs \<equiv> map item xs"

abbreviation field_items :: "('k \<times> 'a spanned) list \<Rightarrow> 'a list" where
  "field_items fs \<equiv> map (\<lambda>f. item (snd f)) fs"

primrec mentions_val :: "val \<Rightarrow> name list" and mentions :: "comp_kind \<Rightarrow> name list" where
  "mentions_val UnitV = []"
| "mentions_val (StringV _) = []"
| "mentions_val (IntV _) = []"
| "mentions_val (FloatV _) = []"
| "mentions_val (BoolV _) = []"
| "mentions_val (Variable n) = [n]"
| "mentions_val (Protected v _) = mentions_val v"
| "mentions_val (Thunk c) = occ_of (item (map_spanned mentions c))"
| "mentions_val (ListV es) = occ_of (concat (items (map (map_spanned mentions_val) es)))"
| "mentions_val (RecordV fs) =
     occ_of (concat (field_items (map (map_prod id (map_spanned mentions_val)) fs)))"
| "mentions_val (MapV fs) =
     occ_of (concat (field_items (map (map_prod id (map_spanned mentions_val)) fs)))"
| "mentions_val (VariantV _ p) = mentions_val p"
| "mentions (Lam _ b) = item (map_spanned mentions b)"
| "mentions (Capture b) = item (map_spanned mentions b)"
| "mentions (Protect b _) = item (map_spanned mentions b)"
| "mentions (Bind c _ r) = item (map_spanned mentions c) @ item (map_spanned mentions r)"
| "mentions (Seq c r) = item (map_spanned mentions c) @ item (map_spanned mentions r)"
| "mentions (App h as) =
     item (map_spanned mentions h) @ concat (items (map (map_spanned mentions_val) as))"
| "mentions (ExecC x) =
     (let y = map_exec mentions_val x in
       word_mentions (word_name (exec_head y))
       @ concat (map (\<lambda>e. item (slot e)) (exec_argv y))
       @ concat (redirect_operands (exec_redirects y)))"
| "mentions (NativeC _ as) = concat (map mentions_val as)"
| "mentions (Pipeline ss) = concat (items (map (map_spanned mentions) ss))"
| "mentions (Prim p) = concat (prim_operands (map_prim mentions_val p))"
| "mentions (Force v) = mentions_val v"
| "mentions (Return v) = mentions_val v"
| "mentions (Rec g _) = occ_of (concat (field_items (map (map_prod id (map_spanned mentions)) g)))"
| "mentions (Tilde _) = []"
| "mentions (If c t e) =
     item (map_spanned mentions_val c) @ item (map_spanned mentions_val t)
     @ item (map_spanned mentions_val e)"
| "mentions (Case s as) =
     item (map_spanned mentions_val s)
     @ concat (map (\<lambda>a. item (arm_body a)) (map (map_case_arm mentions_val) as))"
| "mentions (Try b h) = mentions_val b @ mentions_val h"
| "mentions (Guard b c) = mentions_val b @ mentions_val c"
| "mentions (WithinC os hs b) =
     occ_of (concat (field_items (map (map_prod id (map_spanned mentions_val)) os)))
     @ concat (map (\<lambda>a. item (arm_value a))
         (concat (list_of_option (map_option (map (map_handler_arm mentions_val)) hs))))
     @ mentions_val b"
| "mentions (Grant cs b) =
     occ_of (concat (field_items (map (map_prod id (map_spanned mentions_val)) cs)))
     @ mentions_val b"
| "mentions (Audit b) = mentions_val b"
| "mentions (Gather b) = mentions_val b"
| "mentions (Spawn t b) =
     concat (list_of_option (map_option item (map_option (map_spanned mentions_val) t)))
     @ mentions_val b"
| "mentions (RedirectC b r) =
     item (map_spanned mentions b) @ concat (redirect_operands (map_redirects mentions_val r))"

end
