(* ===== verification/Value_Env.thy ===== *)
theory Value_Env
  imports Ir_Terms Ordered_Map "HOL-Library.AList"
begin

text \<open>
  Runtime values and the environments closures carry (\<open>core/src/shell/runtime/value.rs\<close>,
  \<open>env.rs\<close>, \<open>closure.rs\<close>, \<open>signature.rs\<close>; the representations of \<open>list.rs\<close> and \<open>map.rs\<close>).
  An environment is a flat sorted array up to eight entries and a hash map past that; the hash
  map is the list of its entries, in no promised order.  A persistent vector is a list and an
  \<open>OrdMap\<close> an ordered list of entries.
\<close>

section \<open>Values\<close>

datatype rvalue =
  UnitVal
| BoolVal bool
| IntVal "64 word"
| FloatVal finite
| StringVal bytes
| BytesVal bytes
| ListVal listv
| MapVal mapv
| VariantVal name "rvalue option"
| ThunkVal comp env
| NativeVal native
| HandleVal nat "site list"
and listv =
  BuiltList "rvalue list"
| LiteralList "val spanned list" env
and mapv =
  BuiltMap "(bytes \<times> rvalue) list"
| LiteralMap "(name \<times> val spanned) list" env
and env =
  SmallEnv "(name \<times> binding) list"
| LargeEnv "(name \<times> binding) list"
and binding = Binding (bound: rvalue) (bound_scheme: "scheme option")

section \<open>Environments\<close>

definition small :: nat where
  "small = 8"

fun env_entries :: "env \<Rightarrow> (name \<times> binding) list" where
  "env_entries (SmallEnv a) = a"
| "env_entries (LargeEnv m) = m"

definition small_or_large :: "(name \<times> binding) list \<Rightarrow> env" where
  "small_or_large es = (if length es > small then LargeEnv es else SmallEnv es)"

definition env_new :: env where
  "env_new = SmallEnv []"

definition env_len :: "env \<Rightarrow> nat" where
  "env_len \<rho> = length (env_entries \<rho>)"

definition env_names :: "env \<Rightarrow> name list" where
  "env_names \<rho> = map fst (env_entries \<rho>)"

definition env_binding :: "env \<Rightarrow> name \<Rightarrow> binding option" where
  "env_binding \<rho> = map_of (env_entries \<rho>)"

definition env_get :: "env \<Rightarrow> name \<Rightarrow> rvalue option" where
  "env_get \<rho> n = map_option bound (env_binding \<rho> n)"

fun env_extend :: "(name \<times> binding) list \<Rightarrow> env \<Rightarrow> env" where
  "env_extend es (SmallEnv a) =
     (if es = [] then SmallEnv a else small_or_large (fold (\<lambda>(n, b). bt_insert n b) es a))"
| "env_extend es (LargeEnv m) = LargeEnv (fold (\<lambda>(n, b). AList.update n b) es m)"

fun env_bind :: "name \<Rightarrow> binding \<Rightarrow> env \<Rightarrow> env" where
  "env_bind n b (SmallEnv a) =
     (if length (bt_remove n a) < small then SmallEnv (bt_insert n b a)
      else env_extend [(n, b)] (SmallEnv a))"
| "env_bind n b (LargeEnv m) = env_extend [(n, b)] (LargeEnv m)"

fun env_unset :: "name \<Rightarrow> env \<Rightarrow> rvalue option \<times> env" where
  "env_unset n (SmallEnv a) =
     (case map_of a n of
        None \<Rightarrow> (None, SmallEnv a)
      | Some b \<Rightarrow> (Some (bound b), small_or_large (bt_remove n a)))"
| "env_unset n (LargeEnv m) =
     (case map_of m n of
        None \<Rightarrow> (None, LargeEnv m)
      | Some b \<Rightarrow> (Some (bound b), LargeEnv (AList.delete n m)))"

definition env_restrict :: "name list \<Rightarrow> env \<Rightarrow> env" where
  "env_restrict occ \<rho> =
     (if env_len \<rho> \<le> length occ \<and> list_all (\<lambda>n. n \<in> set occ) (env_names \<rho>) then \<rho>
      else small_or_large
        (List.map_filter (\<lambda>n. map_option (Pair n) (env_binding \<rho> n)) occ))"

text \<open>\<open>Closure::new\<close>: a thunk over what its node mentions.\<close>

definition closure_new :: "comp \<Rightarrow> name list \<Rightarrow> env \<Rightarrow> rvalue" where
  "closure_new c occ \<rho> = ThunkVal c (env_restrict occ \<rho>)"

section \<open>The signature\<close>

record signature =
  natives :: "(bytes \<times> rvalue) list"
  prelude :: "(bytes \<times> binding) list"

definition sig_get :: "signature \<Rightarrow> name \<Rightarrow> rvalue option" where
  "sig_get \<Sigma> n =
     (case map_of (prelude \<Sigma>) n of
        Some b \<Rightarrow> Some (bound b)
      | None \<Rightarrow> map_of (natives \<Sigma>) n)"

definition lookup :: "name \<Rightarrow> env \<Rightarrow> signature \<Rightarrow> rvalue option" where
  "lookup n \<rho> \<Sigma> = (case env_get \<rho> n of Some v \<Rightarrow> Some v | None \<Rightarrow> sig_get \<Sigma> n)"

text \<open>\<open>Env::fold_union\<close>: the bindings of the environment, then those of the prelude it does not shadow.\<close>

definition fold_union :: "(binding \<Rightarrow> 'a) \<Rightarrow> env \<Rightarrow> signature \<Rightarrow> (bytes \<times> 'a) list" where
  "fold_union f \<rho> \<Sigma> =
     map (\<lambda>(n, b). (n, f b)) (env_entries \<rho>)
     @ map (\<lambda>(n, b). (n, f b)) (filter (\<lambda>e. fst e \<notin> set (env_names \<rho>)) (prelude \<Sigma>))"

definition all_bindings :: "env \<Rightarrow> signature \<Rightarrow> (bytes \<times> rvalue) list" where
  "all_bindings = fold_union bound"

definition binding_schemes :: "env \<Rightarrow> signature \<Rightarrow> (bytes \<times> scheme option) list" where
  "binding_schemes = fold_union bound_scheme"

definition distinct_name_count :: "env \<Rightarrow> signature \<Rightarrow> nat" where
  "distinct_name_count \<rho> \<Sigma> = card (set (env_names \<rho>) \<union> fst ` set (prelude \<Sigma>))"

section \<open>The map an environment is\<close>

fun env_ok :: "env \<Rightarrow> bool" where
  "env_ok (SmallEnv a) \<longleftrightarrow> ordered a \<and> length a \<le> small"
| "env_ok (LargeEnv m) \<longleftrightarrow> distinct (map fst m)"

lemma env_ok_new [simp]: "env_ok env_new"
  by (simp add: env_new_def)

lemma binding_new [simp]: "env_binding env_new n = None"
  by (simp add: env_binding_def env_new_def)

lemma entries_small_or_large [simp]: "env_entries (small_or_large es) = es"
  by (simp add: small_or_large_def)

lemma small_or_large_ok [simp]: "ordered es \<Longrightarrow> env_ok (small_or_large es)"
  by (simp add: small_or_large_def ordered_distinct)

lemma ordered_inserts: "ordered m \<Longrightarrow> ordered (fold (\<lambda>(n, b). bt_insert n b) es m)"
  by (induction es arbitrary: m) (auto split: prod.splits)

lemma lookup_inserts: "map_of (fold (\<lambda>(n, b). bt_insert n b) es m) = map_of m ++ map_of (rev es)"
  by (induction es arbitrary: m) (auto split: prod.splits simp: map_add_assoc [symmetric])

lemma lookup_updates: "map_of (fold (\<lambda>(n, b). AList.update n b) es m) = map_of m ++ map_of (rev es)"
  by (induction es arbitrary: m) (auto split: prod.splits simp: map_add_assoc [symmetric] update_conv')

lemma distinct_updates:
  "distinct (map fst m) \<Longrightarrow> distinct (map fst (fold (\<lambda>(n, b). AList.update n b) es m))"
  by (induction es arbitrary: m) (auto split: prod.splits simp: distinct_update)

lemma length_insert:
  "length (bt_insert n b a) = Suc (length (bt_remove n a))" if "ordered a"
  using that
proof (induction n b a rule: bt_insert.induct)
  case (2 k x j y m)
  have "bt_remove k m = m" if "k \<le> j"
    using that 2(2) by (auto simp: bt_remove_def filter_id_conv)
  with 2 show ?case by (auto simp: bt_remove_def)
qed (simp add: bt_remove_def)

lemma env_bind_ok [simp]: "env_ok \<rho> \<Longrightarrow> env_ok (env_bind n b \<rho>)"
  by (cases \<rho>) (auto simp: length_insert distinct_update)

lemma env_extend_ok [simp]: "env_ok \<rho> \<Longrightarrow> env_ok (env_extend es \<rho>)"
  by (cases \<rho>) (auto simp: ordered_inserts distinct_updates)

lemma env_unset_ok: "env_ok \<rho> \<Longrightarrow> env_ok (snd (env_unset n \<rho>))"
  by (cases \<rho>) (auto split: option.splits simp: distinct_delete)

lemma binding_bind [simp]: "env_binding (env_bind n b \<rho>) = (env_binding \<rho>)(n \<mapsto> b)"
  by (cases \<rho>) (auto simp: env_binding_def update_conv')

lemma binding_extend [simp]: "env_binding (env_extend es \<rho>) = env_binding \<rho> ++ map_of (rev es)"
  by (cases \<rho>) (auto simp: env_binding_def lookup_inserts lookup_updates)

lemma binding_unset: "env_binding (snd (env_unset n \<rho>)) = (env_binding \<rho>)(n := None)"
  by (cases \<rho>) (auto simp: env_binding_def delete_conv' split: option.splits)

lemma unset_value: "fst (env_unset n \<rho>) = env_get \<rho> n"
  by (cases \<rho>) (auto simp: env_binding_def env_get_def split: option.splits)

lemma get_bind [simp]: "env_get (env_bind n b \<rho>) = (env_get \<rho>)(n \<mapsto> bound b)"
  by (auto simp: env_get_def)

lemma set_env_names: "set (env_names \<rho>) = dom (env_binding \<rho>)"
  by (simp add: env_names_def env_binding_def dom_map_of_conv_image_fst)

end
