(* ===== verification/Value_Data.thy ===== *)
theory Value_Data
  imports Value_Env
begin

text \<open>
  Lists and maps of values (\<open>core/src/shell/runtime/list.rs\<close>, \<open>map.rs\<close>) and the membrane a
  checked boundary wraps a value in (\<open>protect.rs\<close>).  A literal is kept as the term and the
  environment it closed over; its elements are read one at a time by \<open>inspect\<close>.  Reading a name the
  environment does not bind is a panic of the code; here it reads as \<open>Unit\<close>.  The evaluator
  keeps a literal only where every name is bound (\<open>literal_names_bound\<close>).
\<close>

section \<open>Nesting\<close>

text \<open>
  How deep data nests, closures not entered: the measure every walk over a value descends, a
  literal's elements being no part of its representation.
\<close>

definition max_list :: "nat list \<Rightarrow> nat" where
  "max_list ns = foldr max ns 0"

primrec rank_in :: "(name \<times> nat) list \<Rightarrow> val \<Rightarrow> nat" where
  "rank_in rs UnitV = 0"
| "rank_in rs (StringV _) = 0"
| "rank_in rs (IntV _) = 0"
| "rank_in rs (FloatV _) = 0"
| "rank_in rs (BoolV _) = 0"
| "rank_in rs (Variable n) = (case map_of rs n of None \<Rightarrow> 0 | Some r \<Rightarrow> r)"
| "rank_in rs (Thunk _) = 0"
| "rank_in rs (ListV es) = Suc (max_list (items (map (map_spanned (rank_in rs)) es)))"
| "rank_in rs (RecordV fs) =
     Suc (max_list (field_items (map (map_prod id (map_spanned (rank_in rs))) fs)))"
| "rank_in rs (MapV fs) =
     Suc (max_list (field_items (map (map_prod id (map_spanned (rank_in rs))) fs)))"
| "rank_in rs (VariantV _ p) = Suc (rank_in rs p)"
| "rank_in rs (Protected v _) = rank_in rs v"

primrec rank :: "rvalue \<Rightarrow> nat"
  and list_rank :: "listv \<Rightarrow> nat"
  and map_rank :: "mapv \<Rightarrow> nat"
  and env_ranks :: "env \<Rightarrow> (name \<times> nat) list"
  and binding_rank :: "binding \<Rightarrow> nat" where
  "rank UnitVal = 0"
| "rank (BoolVal _) = 0"
| "rank (IntVal _) = 0"
| "rank (FloatVal _) = 0"
| "rank (StringVal _) = 0"
| "rank (BytesVal _) = 0"
| "rank (ListVal l) = Suc (list_rank l)"
| "rank (MapVal m) = Suc (map_rank m)"
| "rank (VariantVal _ p) = Suc (max_list (list_of_option (map_option rank p)))"
| "rank (ThunkVal _ _) = 0"
| "rank (NativeVal _) = 0"
| "rank (HandleVal _ _) = 0"
| "list_rank (BuiltList vs) = max_list (map rank vs)"
| "list_rank (LiteralList es \<rho>) = max_list (map (\<lambda>e. rank_in (env_ranks \<rho>) (item e)) es)"
| "map_rank (BuiltMap fs) = max_list (map snd (map (map_prod id rank) fs))"
| "map_rank (LiteralMap fs \<rho>) = max_list (map (\<lambda>f. rank_in (env_ranks \<rho>) (item (snd f))) fs)"
| "env_ranks (SmallEnv a) = map (map_prod id binding_rank) a"
| "env_ranks (LargeEnv m) = map (map_prod id binding_rank) m"
| "binding_rank (Binding v _) = rank v"

section \<open>Reading a literal\<close>

text \<open>\<open>Value::variant\<close>: a \<open>Unit\<close> payload is an absent one.\<close>

definition variant :: "name \<Rightarrow> rvalue option \<Rightarrow> rvalue" where
  "variant l p = VariantVal l (case p of Some UnitVal \<Rightarrow> None | _ \<Rightarrow> p)"

text \<open>One layer of \<open>\<langle>V, \<rho>\<rangle>\<close>; the membrane is an argument, itself a walk over values.\<close>

primrec inspect :: "(site \<Rightarrow> rvalue \<Rightarrow> rvalue) \<Rightarrow> env \<Rightarrow> val \<Rightarrow> rvalue" where
  "inspect w \<rho> (Protected v s) = w s (inspect w \<rho> v)"
| "inspect w \<rho> UnitV = UnitVal"
| "inspect w \<rho> (IntV n) = IntVal n"
| "inspect w \<rho> (FloatV f) = FloatVal f"
| "inspect w \<rho> (BoolV b) = BoolVal b"
| "inspect w \<rho> (StringV s) = StringVal s"
| "inspect w \<rho> (Variable n) = (case env_get \<rho> n of Some v \<Rightarrow> v | None \<Rightarrow> UnitVal)"
| "inspect w \<rho> (Thunk c) = ThunkVal c \<rho>"
| "inspect w \<rho> (ListV es) = ListVal (LiteralList es \<rho>)"
| "inspect w \<rho> (RecordV fs) = MapVal (LiteralMap fs \<rho>)"
| "inspect w \<rho> (MapV fs) = MapVal (LiteralMap fs \<rho>)"
| "inspect w \<rho> (VariantV l p) = variant l (Some (inspect w \<rho> p))"

fun read_list :: "(site \<Rightarrow> rvalue \<Rightarrow> rvalue) \<Rightarrow> listv \<Rightarrow> rvalue list" where
  "read_list w (BuiltList vs) = vs"
| "read_list w (LiteralList es \<rho>) = map (\<lambda>e. inspect w \<rho> (item e)) es"

fun read_map :: "(site \<Rightarrow> rvalue \<Rightarrow> rvalue) \<Rightarrow> mapv \<Rightarrow> (bytes \<times> rvalue) list" where
  "read_map w (BuiltMap fs) = fs"
| "read_map w (LiteralMap fs \<rho>) = map (\<lambda>(k, e). (k, inspect w \<rho> (item e))) fs"

text \<open>Collecting pairs into an \<open>OrdMap\<close>: the last of equal keys wins.\<close>

definition ord_map :: "(bytes \<times> rvalue) list \<Rightarrow> (bytes \<times> rvalue) list" where
  "ord_map fs = fold (\<lambda>(k, v). bt_insert k v) fs []"

definition map_of_pairs :: "(bytes \<times> rvalue) list \<Rightarrow> rvalue" where
  "map_of_pairs fs = MapVal (BuiltMap (ord_map fs))"

section \<open>The membrane\<close>

definition synthetic_name :: "bytes \<Rightarrow> nat \<Rightarrow> name" where
  "synthetic_name tag n = ''%'' @ tag @ decimal n"

definition is_synthetic :: "name \<Rightarrow> bool" where
  "is_synthetic n \<longleftrightarrow> (case n of c # _ \<Rightarrow> c = CHR ''%'' | [] \<Rightarrow> False)"

text \<open>
  \<open>self.nodes[self.root].shape\<close>.  The edges of a site stay inside its nodes; an index past them,
  which would panic, reads as a shape that asks nothing.
\<close>

definition shape_of :: "site \<Rightarrow> shape" where
  "shape_of s =
     (if site_root s < length (site_nodes s) then node_shape (site_nodes s ! site_root s)
      else FreeCompShape False)"

definition wrap_thunk :: "site \<Rightarrow> rvalue \<Rightarrow> rvalue" where
  "wrap_thunk s raw =
     (let raw_name = synthetic_name ''membrane'' 0;
          \<rho> = env_bind raw_name (Binding raw (Some (SchemeOf s))) env_new;
          force = synthetic (Force (Variable raw_name))
      in case shape_of s of
           ReturnShape _ result \<Rightarrow> ThunkVal (synthetic (Protect force (project s result))) \<rho>
         | FunShape arg rest \<Rightarrow>
             (let param = synthetic_name ''membrane'' 1;
                  checked = synthetic_name ''membrane'' 2;
                  call = Thunk (synthetic (App force [synthetic (Variable checked)]));
                  tail = synthetic (Force (Protected call (project s rest)));
                  body = Bind
                    (synthetic (Protect (synthetic (Return (Variable param))) (project s arg)))
                    (NameP checked) tail
              in ThunkVal (synthetic (Lam param (synthetic body))) \<rho>)
         | _ \<Rightarrow> raw)"

definition label_site :: "site \<Rightarrow> row \<Rightarrow> bytes \<Rightarrow> site option" where
  "label_site s r l = map_option (\<lambda>e. project s (snd e)) (List.find (\<lambda>e. fst e = l) (row_labels r))"

text \<open>\<open>Site::wrap\<close>, its recursive calls an argument.\<close>

definition wrap_step :: "(site \<Rightarrow> rvalue \<Rightarrow> rvalue) \<Rightarrow> site \<Rightarrow> rvalue \<Rightarrow> rvalue" where
  "wrap_step w s v =
     (case (shape_of s, v) of
        (ThunkShape body, ThunkVal _ _) \<Rightarrow> wrap_thunk (project s body) v
      | (ThunkShape body, NativeVal _) \<Rightarrow> wrap_thunk (project s body) v
      | (FunShape _ _, ThunkVal _ _) \<Rightarrow> wrap_thunk s v
      | (ReturnShape _ _, ThunkVal _ _) \<Rightarrow> wrap_thunk s v
      | (HandleShape _ p, HandleVal h gs) \<Rightarrow> HandleVal h (gs @ [project s p])
      | (ListShape e, ListVal l) \<Rightarrow> ListVal (BuiltList (map (w (project s e)) (read_list w l)))
      | (MapShape e, MapVal m) \<Rightarrow>
          map_of_pairs (map (\<lambda>(k, x). (k, w (project s e) x)) (read_map w m))
      | (RecordShape r, MapVal m) \<Rightarrow>
          map_of_pairs
            (map (\<lambda>(k, x). (k, case label_site s r k of Some t \<Rightarrow> w t x | None \<Rightarrow> x)) (read_map w m))
      | (VariantShape r, VariantVal l p) \<Rightarrow>
          VariantVal l
            (map_option (\<lambda>x. case label_site s r l of Some t \<Rightarrow> w t x | None \<Rightarrow> x) p)
      | _ \<Rightarrow> v)"

primrec wrap_to :: "nat \<Rightarrow> site \<Rightarrow> rvalue \<Rightarrow> rvalue" where
  "wrap_to 0 s v = v"
| "wrap_to (Suc d) s v = wrap_step (wrap_to d) s v"

text \<open>As many layers as the value has: \<open>wrap_unfold\<close> is the equation of the source.\<close>

definition wrap :: "site \<Rightarrow> rvalue \<Rightarrow> rvalue" where
  "wrap s v = wrap_to (Suc (rank v)) s v"

end
