(* ===== verification/Value_Facts.thy ===== *)
theory Value_Facts
  imports Value_Data
begin

text \<open>
  Laws of the data of values: what a scrubbed environment binds, that reading a literal and
  wrapping at a boundary never nest deeper, and the equation of \<open>Site::wrap\<close>.
\<close>

section \<open>Scrubbed environments\<close>

lemma item_map_spanned [simp]: "item (map_spanned f c) = f (item c)"
  by (cases c) simp

lemma set_occ_of [simp]: "set (occ_of ns) = set ns"
  by (simp add: occ_of_def)

lemma strict_remdups_adj: "sorted ns \<Longrightarrow> sorted_wrt (<) (remdups_adj ns)"
  by (induction ns rule: remdups_adj.induct) (auto simp: less_le)

lemma strict_occ_of: "sorted_wrt (<) (occ_of ns)"
  by (simp add: occ_of_def strict_remdups_adj)

lemma map_of_hits:
  "map_of (List.map_filter (\<lambda>n. map_option (Pair n) (f n)) ns) n = (if n \<in> set ns then f n else None)"
  by (induction ns) (auto simp: List.map_filter_simps split: option.splits)

lemma fst_hits: "e \<in> set (List.map_filter (\<lambda>n. map_option (Pair n) (f n)) ns) \<Longrightarrow> fst e \<in> set ns"
  by (auto simp: map_filter_set)

lemma ordered_hits:
  "sorted_wrt (<) ns \<Longrightarrow> ordered (List.map_filter (\<lambda>n. map_option (Pair n) (f n)) ns)"
proof (induction ns)
  case (Cons a ns)
  have "a < fst e" if "e \<in> set (List.map_filter (\<lambda>n. map_option (Pair n) (f n)) ns)" for e
    using fst_hits [OF that] Cons.prems by simp
  with Cons show ?case by (auto simp: List.map_filter_simps split: option.splits)
qed (simp add: List.map_filter_simps)

lemma binding_restrict:
  "env_binding (env_restrict occ \<rho>) n = (if n \<in> set occ then env_binding \<rho> n else None)"
proof (cases "env_len \<rho> \<le> length occ \<and> list_all (\<lambda>n. n \<in> set occ) (env_names \<rho>)")
  case True
  then have "env_binding \<rho> n = None" if "n \<notin> set occ"
    using that set_env_names [of \<rho>] by (auto simp: list_all_iff)
  with True show ?thesis by (simp add: env_restrict_def)
next
  case False
  then show ?thesis by (auto simp: env_restrict_def env_binding_def map_of_hits)
qed

lemma get_restrict: "env_get (env_restrict occ \<rho>) n = (if n \<in> set occ then env_get \<rho> n else None)"
  by (simp add: env_get_def binding_restrict)

lemma env_restrict_ok: "env_ok \<rho> \<Longrightarrow> sorted_wrt (<) occ \<Longrightarrow> env_ok (env_restrict occ \<rho>)"
  by (simp add: env_restrict_def ordered_hits)

lemma env_len_card: "env_ok \<rho> \<Longrightarrow> env_len \<rho> = card (set (env_names \<rho>))"
proof (cases \<rho>)
  case (SmallEnv a)
  assume "env_ok \<rho>"
  with SmallEnv have "distinct (map fst a)" by (simp add: ordered_distinct)
  from distinct_card [OF this] show ?thesis by (simp add: SmallEnv env_len_def env_names_def)
next
  case (LargeEnv m)
  assume "env_ok \<rho>"
  with LargeEnv have "distinct (map fst m)" by simp
  from distinct_card [OF this] show ?thesis by (simp add: LargeEnv env_len_def env_names_def)
qed

text \<open>The test of identity: an environment already scrubbed is scrubbed to itself.\<close>

lemma restrict_again:
  assumes "env_ok \<rho>" and "sorted_wrt (<) occ"
  shows "env_restrict occ (env_restrict occ \<rho>) = env_restrict occ \<rho>"
proof -
  let ?\<sigma> = "env_restrict occ \<rho>"
  have sub: "set (env_names ?\<sigma>) \<subseteq> set occ"
    by (auto simp: set_env_names binding_restrict split: if_splits)
  have "env_len ?\<sigma> = card (set (env_names ?\<sigma>))"
    by (rule env_len_card) (rule env_restrict_ok [OF assms])
  also have "\<dots> \<le> card (set occ)" by (rule card_mono) (simp_all add: sub)
  also have "\<dots> \<le> length occ" by (rule card_length)
  finally have "env_len ?\<sigma> \<le> length occ \<and> list_all (\<lambda>n. n \<in> set occ) (env_names ?\<sigma>)"
    using sub by (auto simp: list_all_iff)
  then show ?thesis by (subst env_restrict_def) simp
qed

section \<open>Nesting of what is read\<close>

lemma max_list_Nil [simp]: "max_list [] = 0"
  by (simp add: max_list_def)

lemma max_list_Cons [simp]: "max_list (n # ns) = max n (max_list ns)"
  by (simp add: max_list_def)

lemma max_list_le_iff [simp]: "max_list ns \<le> k \<longleftrightarrow> (\<forall>n\<in>set ns. n \<le> k)"
  by (induction ns) auto

lemma max_list_ge: "n \<in> set ns \<Longrightarrow> n \<le> max_list ns"
  by (induction ns) auto

lemma env_ranks_get:
  "map_of (env_ranks \<rho>) n = map_option rank (env_get \<rho> n)"
proof -
  have rb: "binding_rank b = rank (bound b)" for b by (cases b) simp
  have "map_of (map (map_prod id binding_rank) es) n = map_option rank (map_option bound (map_of es n))" for es
    by (induction es) (auto simp: rb)
  then show ?thesis by (cases \<rho>) (auto simp: env_get_def env_binding_def)
qed

abbreviation shallow :: "(site \<Rightarrow> rvalue \<Rightarrow> rvalue) \<Rightarrow> bool" where
  "shallow w \<equiv> \<forall>s v. rank (w s v) \<le> rank v"

lemma rank_variant: "rank (variant l (Some v)) \<le> Suc (rank v)"
  by (cases v) (simp_all add: variant_def list_of_option_def)

lemma rank_inspect: "shallow w \<Longrightarrow> rank (inspect w \<rho> v) \<le> rank_in (env_ranks \<rho>) v"
proof (induction v rule: val.induct [where ?P2.0 = "\<lambda>_. True"])
  case (Variable n)
  then show ?case by (auto simp: env_ranks_get split: option.splits)
next
  case (VariantV l p)
  then show ?case using rank_variant [of l "inspect w \<rho> p"] by fastforce
next
  case (Protected v s)
  then show ?case by (auto intro: le_trans)
qed (auto simp: o_def)


lemma read_list_rank:
  "shallow w \<Longrightarrow> v \<in> set (read_list w l) \<Longrightarrow> rank v \<le> list_rank l"
proof (cases l)
  case (LiteralList es \<rho>)
  assume w: "shallow w" and "v \<in> set (read_list w l)"
  with LiteralList obtain e where e: "e \<in> set es" "v = inspect w \<rho> (item e)" by auto
  with rank_inspect [OF w] have "rank v \<le> rank_in (env_ranks \<rho>) (item e)" by simp
  also have "\<dots> \<le> list_rank l" using e by (auto simp: LiteralList intro!: max_list_ge)
  finally show ?thesis .
qed (auto intro: max_list_ge)

lemma read_map_rank:
  "shallow w \<Longrightarrow> (k, v) \<in> set (read_map w m) \<Longrightarrow> rank v \<le> map_rank m"
proof (cases m)
  case (LiteralMap fs \<rho>)
  assume w: "shallow w" and "(k, v) \<in> set (read_map w m)"
  with LiteralMap obtain e where e: "(k, e) \<in> set fs" "v = inspect w \<rho> (item e)" by auto
  with rank_inspect [OF w] have "rank v \<le> rank_in (env_ranks \<rho>) (item e)" by simp
  also have "\<dots> \<le> map_rank m" using e by (force simp: LiteralMap intro!: max_list_ge)
  finally show ?thesis .
next
  case (BuiltMap fs)
  assume "(k, v) \<in> set (read_map w m)"
  then show ?thesis using BuiltMap by (force intro!: max_list_ge)
qed

lemma set_inserts: "set (fold (\<lambda>(k, v). bt_insert k v) fs m) \<subseteq> set m \<union> set fs"
proof (induction fs arbitrary: m)
  case (Cons f fs)
  have "set (bt_insert k v m) \<subseteq> insert (k, v) (set m)" for k v
    by (induction m) (auto split: if_splits)
  with Cons show ?case by (cases f) fastforce
qed simp

lemma set_ord_map: "set (ord_map fs) \<subseteq> set fs"
  using set_inserts [of fs "[]"] by (simp add: ord_map_def)

lemma rank_map_of_pairs:
  "(\<And>k v. (k, v) \<in> set fs \<Longrightarrow> rank v \<le> r) \<Longrightarrow> rank (map_of_pairs fs) \<le> Suc r"
  using set_ord_map [of fs] by (force simp: map_of_pairs_def)

section \<open>The membrane\<close>

lemma rank_wrap_thunk: "rank (wrap_thunk s v) \<le> rank v"
  by (auto simp: wrap_thunk_def Let_def split: shape.splits)

lemma rank_wrapped_list:
  "shallow w \<Longrightarrow> rank (ListVal (BuiltList (map (w t) (read_list w l)))) \<le> rank (ListVal l)"
  using read_list_rank [of w _ l] by (fastforce intro: le_trans)

lemma rank_wrapped_map:
  assumes "shallow w" and "\<And>k x. rank (f k x) \<le> rank x"
  shows "rank (map_of_pairs (map (\<lambda>(k, x). (k, f k x)) (read_map w m))) \<le> rank (MapVal m)"
proof -
  have "rank y \<le> map_rank m" if "(k, y) \<in> set (map (\<lambda>(k, x). (k, f k x)) (read_map w m))" for k y
  proof -
    from that obtain x where "(k, x) \<in> set (read_map w m)" "y = f k x" by auto
    with read_map_rank [OF assms(1)] assms(2) show ?thesis by (metis le_trans)
  qed
  then have "rank (map_of_pairs (map (\<lambda>(k, x). (k, f k x)) (read_map w m))) \<le> Suc (map_rank m)"
    by (rule rank_map_of_pairs)
  then show ?thesis by simp
qed

lemma rank_wrap_field: "shallow w \<Longrightarrow> rank (case o' of Some t \<Rightarrow> w t x | None \<Rightarrow> x) \<le> rank x"
  by (cases o') auto

lemma rank_wrap_step: "shallow w \<Longrightarrow> rank (wrap_step w s v) \<le> rank v"
proof (cases v)
  case (ListVal l)
  assume "shallow w"
  from rank_wrapped_list [OF this] show ?thesis
    by (cases "shape_of s") (simp_all add: wrap_step_def ListVal)
next
  case (MapVal m)
  assume w: "shallow w"
  have "rank (map_of_pairs (map (\<lambda>(k, x). (k, w t x)) (read_map w m))) \<le> rank (MapVal m)" for t
    by (rule rank_wrapped_map [OF w]) (simp add: w)
  moreover have "rank (map_of_pairs (map (\<lambda>(k, x).
      (k, case label_site s r k of Some t \<Rightarrow> w t x | None \<Rightarrow> x)) (read_map w m))) \<le> rank (MapVal m)" for r
    by (rule rank_wrapped_map [OF w]) (rule rank_wrap_field [OF w])
  ultimately show ?thesis by (cases "shape_of s") (simp_all add: wrap_step_def MapVal)
next
  case (VariantVal l p)
  assume w: "shallow w"
  show ?thesis
    by (cases "shape_of s"; cases p)
       (simp_all add: wrap_step_def VariantVal list_of_option_def rank_wrap_field [OF w])
next
  case (ThunkVal c \<rho>)
  then show ?thesis using rank_wrap_thunk [of _ v] by (cases "shape_of s") (simp_all add: wrap_step_def)
next
  case (NativeVal n)
  then show ?thesis using rank_wrap_thunk [of _ v] by (cases "shape_of s") (simp_all add: wrap_step_def)
qed (cases "shape_of s"; simp add: wrap_step_def)+

lemma shallow_wrap_to [simp]: "rank (wrap_to d s v) \<le> rank v"
  by (induction d arbitrary: s v) (simp_all add: rank_wrap_step)

lemma inspect_cong:
  assumes "shallow w" and "\<And>s x. rank x \<le> k \<Longrightarrow> w s x = w' s x"
  shows "rank_in (env_ranks \<rho>) v \<le> k \<Longrightarrow> inspect w \<rho> v = inspect w' \<rho> v"
proof (induction v rule: val.induct [where ?P2.0 = "\<lambda>_. True"])
  case (Protected v s)
  then have "rank (inspect w \<rho> v) \<le> k" using rank_inspect [OF assms(1), of \<rho> v] by simp
  from assms(2) [OF this] Protected show ?case by simp
qed auto

lemma read_list_cong:
  assumes "shallow w" and "\<And>s x. rank x \<le> list_rank l \<Longrightarrow> w s x = w' s x"
  shows "read_list w l = read_list w' l"
proof (cases l)
  case (LiteralList es \<rho>)
  have "inspect w \<rho> (item e) = inspect w' \<rho> (item e)" if "e \<in> set es" for e
    by (rule inspect_cong [OF assms]) (use that in \<open>auto simp: LiteralList intro!: max_list_ge\<close>)
  then show ?thesis by (simp add: LiteralList)
qed simp

lemma read_map_cong:
  assumes "shallow w" and "\<And>s x. rank x \<le> map_rank m \<Longrightarrow> w s x = w' s x"
  shows "read_map w m = read_map w' m"
proof (cases m)
  case (LiteralMap fs \<rho>)
  have "inspect w \<rho> (item e) = inspect w' \<rho> (item e)" if "(k, e) \<in> set fs" for k e
    by (rule inspect_cong [OF assms])
       (use that in \<open>force simp: LiteralMap intro!: max_list_ge\<close>)+
  then show ?thesis by (auto simp: LiteralMap)
qed simp

lemma wrap_step_cong:
  assumes w: "shallow w" and same: "\<And>s x. rank x < rank v \<Longrightarrow> w s x = w' s x"
  shows "wrap_step w s v = wrap_step w' s v"
proof (cases v)
  case (ListVal l)
  have l: "read_list w l = read_list w' l"
    by (rule read_list_cong [OF w]) (simp add: same ListVal)
  have "w t x = w' t x" if "x \<in> set (read_list w l)" for t x
    using same read_list_rank [OF w that] by (simp add: ListVal)
  with l have "map (w t) (read_list w l) = map (w' t) (read_list w' l)" for t by simp
  then show ?thesis by (cases "shape_of s") (simp_all add: wrap_step_def ListVal)
next
  case (MapVal m)
  have m: "read_map w m = read_map w' m"
    by (rule read_map_cong [OF w]) (simp add: same MapVal)
  have e: "w t x = w' t x" if "(k, x) \<in> set (read_map w m)" for t k x
    using same read_map_rank [OF w that] by (simp add: MapVal)
  have "map (\<lambda>(k, x). (k, w t x)) (read_map w m) = map (\<lambda>(k, x). (k, w' t x)) (read_map w' m)" for t
    unfolding m [symmetric] using e by auto
  moreover have "map (\<lambda>(k, x). (k, case label_site s r k of Some t \<Rightarrow> w t x | None \<Rightarrow> x)) (read_map w m)
      = map (\<lambda>(k, x). (k, case label_site s r k of Some t \<Rightarrow> w' t x | None \<Rightarrow> x)) (read_map w' m)" for r
    unfolding m [symmetric] using e by (auto split: option.splits)
  ultimately show ?thesis by (cases "shape_of s") (simp_all add: wrap_step_def MapVal)
next
  case (VariantVal l p)
  have "w t x = w' t x" if "p = Some x" for t x
    using same that by (simp add: VariantVal list_of_option_def)
  then show ?thesis
    by (cases "shape_of s"; cases p) (simp_all add: wrap_step_def VariantVal split: option.splits)
qed (cases "shape_of s"; simp add: wrap_step_def)+

lemma wrap_to_enough: "rank v < d \<Longrightarrow> rank v < e \<Longrightarrow> wrap_to d s v = wrap_to e s v"
proof (induction d arbitrary: e s v)
  case (Suc d)
  then obtain f where e: "e = Suc f" by (cases e) auto
  have "wrap_to d t x = wrap_to f t x" if "rank x < rank v" for t x
    by (rule Suc.IH) (use that Suc.prems e in simp_all)
  then have "wrap_step (wrap_to d) s v = wrap_step (wrap_to f) s v"
    by (intro wrap_step_cong) simp_all
  then show ?case by (simp add: e)
qed simp

declare wrap_to.simps [simp del]

lemma wrap_to_wrap: "rank v < d \<Longrightarrow> wrap_to d s v = wrap s v"
  unfolding wrap_def by (rule wrap_to_enough) simp_all

lemma rank_wrap [simp]: "rank (wrap s v) \<le> rank v"
  unfolding wrap_def by simp

text \<open>The equation of the source.\<close>

lemma wrap_unfold: "wrap s v = wrap_step wrap s v"
proof -
  have "wrap s v = wrap_step (wrap_to (rank v)) s v" by (simp add: wrap_def wrap_to.simps)
  also have "\<dots> = wrap_step wrap s v" by (rule wrap_step_cong) (simp_all add: wrap_to_wrap)
  finally show ?thesis .
qed

end
