(* ===== verification/Ral_Error.thy ===== *)
theory Ral_Error
  imports Value_Env
begin

text \<open>
  Errors and the breaks they ride in (\<open>core/src/shell/runtime/error.rs\<close>, \<open>flow.rs\<close>,
  \<open>coerce.rs\<close>).  A complaint is a constructor for each message the modelled code words, over what
  the message shows; complaints of code that is not modelled are numbered.  Hints and contexts are
  words no decision reads and are left out.
\<close>

section \<open>Reasons\<close>

datatype value_complaint =
  UndefinedVariable name
| Expected bytes bytes bytes
| SpreadNeedsList bytes
| SpreadNeedsMap bytes
| DuplicateKey bytes
| MapKeyNotString rvalue
| ExpectedList bytes
| ExpectedMap bytes
| NeedValues nat nat
| PatternKeyMissing bytes "bytes list"

datatype read_complaint =
  UnreadableField bytes bytes
| UnreadablePosition nat bytes
| UnreadableKey bytes bytes
| FieldNotFound bytes "bytes list"
| KeyNotFound bytes "bytes list"
| OutOfBounds nat nat
| BoundaryPayload bytes
| NotUtf8
| CannotInterpolate bytes

datatype number_complaint =
  NotBool bytes rvalue
| NotNumeric rvalue
| DivisionByZero
| ModuloByZero
| ModNeedsInt
| IntOverflow
| FloatOverflow
| EqualityRefused bytes bytes
| OrderRefused bytes bytes bytes

datatype machine_complaint =
  BareLambda
| CaptureOverflowed
| NotAFunction bytes
| CannotForce bytes
| CannotCall rvalue
| RecursionLimit nat
| ReentryLimit
| NotVariant rvalue
| NoArm name "bytes list"
| BoundaryArity name nat nat
| NoCheckedSite name

datatype scope_complaint =
  HomeUnset
| ReservedVariable bytes
| NotScalar bytes bytes
| EmptyDir
| NotAnArm bytes bytes

datatype worker_complaint =
  AlreadyClaimed bytes
| NoHandles bytes
| BroodEnded bytes
| CapReached bytes nat
| ThreadRefused
| TitleRequired

datatype complaint =
  OfValue value_complaint
| OfRead read_complaint
| OfNumber number_complaint
| OfMachine machine_complaint
| OfScope scope_complaint
| OfWorker worker_complaint
| Outside nat

datatype reason = Raised complaint | TimedOutReason | CancelledReason | OtherReason nat

text \<open>Where a failure was claimed: \<open>Live\<close> in a registered source, or coordinates.\<close>

datatype prov = Live bytes span | Resolved bytes bytes nat nat

record error =
  err_reason :: reason
  err_prov :: "prov option"
  abandoned_tail :: bool
  discarded :: nat

definition err :: "complaint \<Rightarrow> error" where
  "err c = \<lparr>err_reason = Raised c, err_prov = None, abandoned_tail = False, discarded = 0\<rparr>"

definition abandoning_tail :: "error \<Rightarrow> error" where
  "abandoning_tail e = e\<lparr>abandoned_tail := True\<rparr>"

text \<open>\<open>u32::saturating_add\<close>, of a count the caller cut to \<open>u32::MAX\<close>.\<close>

definition u32_max :: nat where
  "u32_max = 4294967295"

definition discarding :: "nat \<Rightarrow> error \<Rightarrow> error" where
  "discarding n e = e\<lparr>discarded := min u32_max (discarded e + n)\<rparr>"

section \<open>Breaks\<close>

datatype escape = Exit "8 word" | Stopped nat "nat option" "prov option"

datatype brk = ErrorB error | EscapeB escape

definition sig :: "complaint \<Rightarrow> brk" where
  "sig c = ErrorB (err c)"

definition claim :: "prov \<Rightarrow> prov option \<Rightarrow> prov option" where
  "claim p held = (case held of None \<Rightarrow> Some p | Some q \<Rightarrow> Some q)"

fun claimed_by :: "prov \<Rightarrow> brk \<Rightarrow> brk" where
  "claimed_by p (ErrorB e) = ErrorB (e\<lparr>err_prov := claim p (err_prov e)\<rparr>)"
| "claimed_by p (EscapeB (Stopped c owner held)) = EscapeB (Stopped c owner (claim p held))"
| "claimed_by p (EscapeB (Exit n)) = EscapeB (Exit n)"

text \<open>A span is resolved when its file is among the session's \<open>n\<close> registered sources.\<close>

definition resolvable :: "nat \<Rightarrow> span option \<Rightarrow> span option" where
  "resolvable n sp = (case sp of Some s \<Rightarrow> if span_file s < n then Some s else None | None \<Rightarrow> None)"

definition locate :: "bytes \<Rightarrow> span option \<Rightarrow> nat \<Rightarrow> brk \<Rightarrow> brk" where
  "locate name sp n b =
     (case resolvable n sp of Some s \<Rightarrow> claimed_by (Live name s) b | None \<Rightarrow> b)"

fun is_error :: "brk \<Rightarrow> bool" where
  "is_error (ErrorB _) = True"
| "is_error (EscapeB _) = False"

lemma is_error_claimed [simp]: "is_error (claimed_by p b) = is_error b"
  by (induction p b rule: claimed_by.induct) simp_all

lemma is_error_locate [simp]: "is_error (locate name sp n b) = is_error b"
  by (simp add: locate_def split: option.splits)

end
