(* ===== verification/Value_Form.thy ===== *)
theory Value_Form
  imports Value_Facts Ral_Error
begin

text \<open>
  The value layer: operations on lists and maps (\<open>core/src/shell/runtime/list.rs\<close>, \<open>map.rs\<close>), the
  readings of a value (\<open>value.rs\<close>, \<open>coerce.rs\<close>) and the formation of a value term
  (\<open>core/src/shell/evaluator/val.rs\<close>).
\<close>

section \<open>Lists\<close>

definition list_items :: "listv \<Rightarrow> rvalue list" where
  "list_items = read_list wrap"

definition list_literal :: "val spanned list \<Rightarrow> env \<Rightarrow> listv" where
  "list_literal es \<rho> = LiteralList es (env_restrict (mentions_val (ListV es)) \<rho>)"

fun list_len :: "listv \<Rightarrow> nat" where
  "list_len (BuiltList vs) = length vs"
| "list_len (LiteralList es _) = length es"

fun list_get :: "listv \<Rightarrow> nat \<Rightarrow> rvalue option" where
  "list_get (BuiltList vs) i = (if i < length vs then Some (vs ! i) else None)"
| "list_get (LiteralList es \<rho>) i =
     (if i < length es then Some (inspect wrap \<rho> (item (es ! i))) else None)"

text \<open>The mutators materialize first: \<open>built_mut\<close>.\<close>

definition list_push_back :: "rvalue \<Rightarrow> listv \<Rightarrow> listv" where
  "list_push_back v l = BuiltList (list_items l @ [v])"

definition list_push_front :: "rvalue \<Rightarrow> listv \<Rightarrow> listv" where
  "list_push_front v l = BuiltList (v # list_items l)"

definition list_append :: "listv \<Rightarrow> listv \<Rightarrow> listv" where
  "list_append l k = BuiltList (list_items l @ list_items k)"

definition list_split_off :: "nat \<Rightarrow> listv \<Rightarrow> listv \<times> listv" where
  "list_split_off i l = (BuiltList (take i (list_items l)), BuiltList (drop i (list_items l)))"

lemma length_list_items [simp]: "length (list_items l) = list_len l"
  by (cases l) (simp_all add: list_items_def)

lemma list_get_items: "list_get l i = (if i < list_len l then Some (list_items l ! i) else None)"
  by (cases l) (simp_all add: list_items_def)

section \<open>Maps\<close>

definition map_items :: "mapv \<Rightarrow> (bytes \<times> rvalue) list" where
  "map_items = read_map wrap"

definition map_literal :: "(name \<times> val spanned) list \<Rightarrow> env \<Rightarrow> mapv" where
  "map_literal fs \<rho> = LiteralMap fs (env_restrict (mentions_val (MapV fs)) \<rho>)"

definition map_len :: "mapv \<Rightarrow> nat" where
  "map_len m = length (map_items m)"

definition map_keys :: "mapv \<Rightarrow> bytes list" where
  "map_keys m = map fst (map_items m)"

text \<open>
  A literal's entries are sorted by key: \<open>partition_point\<close> is where the keys below the one sought
  end, and \<open>binary_search\<close> finds a key that is there.
\<close>

fun map_get :: "mapv \<Rightarrow> bytes \<Rightarrow> rvalue option" where
  "map_get (BuiltMap fs) k = map_of fs k"
| "map_get (LiteralMap fs \<rho>) k =
     (case dropWhile (\<lambda>f. fst f < k) fs of
        (j, e) # _ \<Rightarrow> if j = k then Some (inspect wrap \<rho> (item e)) else None
      | [] \<Rightarrow> None)"

fun map_contains :: "mapv \<Rightarrow> bytes \<Rightarrow> bool" where
  "map_contains (BuiltMap fs) k \<longleftrightarrow> k \<in> fst ` set fs"
| "map_contains (LiteralMap fs _) k \<longleftrightarrow> k \<in> fst ` set fs"

definition map_built :: "mapv \<Rightarrow> (bytes \<times> rvalue) list" where
  "map_built m = (case m of BuiltMap fs \<Rightarrow> fs | LiteralMap _ _ \<Rightarrow> ord_map (map_items m))"

definition map_insert :: "bytes \<Rightarrow> rvalue \<Rightarrow> mapv \<Rightarrow> mapv" where
  "map_insert k v m = BuiltMap (bt_insert k v (map_built m))"

section \<open>Readings of a value\<close>

text \<open>\<open>Comp::lam\<close>: the function a computation opens with, through a projection of a recursive group.\<close>

primrec lam_of :: "comp_kind \<Rightarrow> (name \<times> comp) option" where
  "lam_of (Lam p b) = Some (p, b)"
| "lam_of (Rec g i) =
     (if i < length g then field_items (map (map_prod id (map_spanned lam_of)) g) ! i else None)"
| "lam_of (Return _) = None"
| "lam_of (Force _) = None"
| "lam_of (App _ _) = None"
| "lam_of (Bind _ _ _) = None"
| "lam_of (Seq _ _) = None"
| "lam_of (If _ _ _) = None"
| "lam_of (Case _ _) = None"
| "lam_of (Try _ _) = None"
| "lam_of (Guard _ _) = None"
| "lam_of (Capture _) = None"
| "lam_of (Prim _) = None"
| "lam_of (ExecC _) = None"
| "lam_of (Pipeline _) = None"
| "lam_of (RedirectC _ _) = None"
| "lam_of (WithinC _ _ _) = None"
| "lam_of (Grant _ _) = None"
| "lam_of (Spawn _ _) = None"
| "lam_of (Gather _) = None"
| "lam_of (Audit _) = None"
| "lam_of (Tilde _) = None"
| "lam_of (Protect _ _) = None"
| "lam_of (NativeC _ _) = None"

definition type_name :: "rvalue \<Rightarrow> bytes" where
  "type_name v =
     (case v of
        UnitVal \<Rightarrow> ''Unit'' | BoolVal _ \<Rightarrow> ''Bool'' | IntVal _ \<Rightarrow> ''Int'' | FloatVal _ \<Rightarrow> ''Float''
      | StringVal _ \<Rightarrow> ''String'' | BytesVal _ \<Rightarrow> ''Bytes'' | ListVal _ \<Rightarrow> ''List''
      | MapVal _ \<Rightarrow> ''Map'' | VariantVal _ _ \<Rightarrow> ''Variant''
      | ThunkVal c _ \<Rightarrow> if lam_of (item c) \<noteq> None then ''Lambda'' else ''Block''
      | NativeVal _ \<Rightarrow> ''Native'' | HandleVal _ _ \<Rightarrow> ''Handle'')"

definition opaque :: "rvalue \<Rightarrow> bool" where
  "opaque v \<longleftrightarrow> (case v of ThunkVal _ _ \<Rightarrow> True | NativeVal _ \<Rightarrow> True | HandleVal _ _ \<Rightarrow> True | _ \<Rightarrow> False)"

definition as_str :: "bytes \<Rightarrow> rvalue \<Rightarrow> error + bytes" where
  "as_str ctx v =
     (case v of StringVal s \<Rightarrow> Inr s | _ \<Rightarrow> Inl (err (OfValue (Expected ctx ''String'' (type_name v)))))"

definition as_map :: "bytes \<Rightarrow> rvalue \<Rightarrow> error + mapv" where
  "as_map ctx v =
     (case v of MapVal m \<Rightarrow> Inr m | _ \<Rightarrow> Inl (err (OfValue (Expected ctx ''Map'' (type_name v)))))"

section \<open>Formation\<close>

primrec literal_names_bound :: "env \<Rightarrow> val \<Rightarrow> bool" where
  "literal_names_bound \<rho> (Protected v _) = literal_names_bound \<rho> v"
| "literal_names_bound \<rho> UnitV = True"
| "literal_names_bound \<rho> (IntV _) = True"
| "literal_names_bound \<rho> (FloatV _) = True"
| "literal_names_bound \<rho> (BoolV _) = True"
| "literal_names_bound \<rho> (StringV _) = True"
| "literal_names_bound \<rho> (Thunk _) = True"
| "literal_names_bound \<rho> (Variable n) = (env_get \<rho> n \<noteq> None)"
| "literal_names_bound \<rho> (VariantV _ p) = literal_names_bound \<rho> p"
| "literal_names_bound \<rho> (ListV es) =
     list_all id (items (map (map_spanned (literal_names_bound \<rho>)) es))"
| "literal_names_bound \<rho> (RecordV fs) =
     list_all id (field_items (map (map_prod id (map_spanned (literal_names_bound \<rho>))) fs))"
| "literal_names_bound \<rho> (MapV fs) =
     list_all id (field_items (map (map_prod id (map_spanned (literal_names_bound \<rho>))) fs))"

text \<open>The first error of a list of results, or all their values.\<close>

fun all_ok :: "('e + 'a) list \<Rightarrow> 'e + 'a list" where
  "all_ok [] = Inr []"
| "all_ok (r # rs) =
     (case r of Inl e \<Rightarrow> Inl e
      | Inr x \<Rightarrow> (case all_ok rs of Inl e \<Rightarrow> Inl e | Inr xs \<Rightarrow> Inr (x # xs)))"

primrec form :: "env \<Rightarrow> signature \<Rightarrow> val \<Rightarrow> error + rvalue" where
  "form \<rho> \<Sigma> (Protected v s) = map_sum id (wrap s) (form \<rho> \<Sigma> v)"
| "form \<rho> \<Sigma> UnitV = Inr UnitVal"
| "form \<rho> \<Sigma> (IntV n) = Inr (IntVal n)"
| "form \<rho> \<Sigma> (FloatV f) = Inr (FloatVal f)"
| "form \<rho> \<Sigma> (BoolV b) = Inr (BoolVal b)"
| "form \<rho> \<Sigma> (StringV s) = Inr (StringVal s)"
| "form \<rho> \<Sigma> (Variable n) =
     (case lookup n \<rho> \<Sigma> of Some v \<Rightarrow> Inr v | None \<Rightarrow> Inl (err (OfValue (UndefinedVariable n))))"
| "form \<rho> \<Sigma> (Thunk c) = Inr (closure_new c (occ_of (mentions (item c))) \<rho>)"
| "form \<rho> \<Sigma> (ListV es) =
     (if list_all (literal_names_bound \<rho>) (items es) then Inr (ListVal (list_literal es \<rho>))
      else map_sum id (\<lambda>vs. ListVal (BuiltList vs))
             (all_ok (items (map (map_spanned (form \<rho> \<Sigma>)) es))))"
| "form \<rho> \<Sigma> (RecordV fs) =
     (if list_all (literal_names_bound \<rho>) (field_items fs) then Inr (MapVal (map_literal fs \<rho>))
      else map_sum id (\<lambda>vs. map_of_pairs (zip (map fst fs) vs))
             (all_ok (field_items (map (map_prod id (map_spanned (form \<rho> \<Sigma>))) fs))))"
| "form \<rho> \<Sigma> (MapV fs) =
     (if list_all (literal_names_bound \<rho>) (field_items fs) then Inr (MapVal (map_literal fs \<rho>))
      else map_sum id (\<lambda>vs. map_of_pairs (zip (map fst fs) vs))
             (all_ok (field_items (map (map_prod id (map_spanned (form \<rho> \<Sigma>))) fs))))"
| "form \<rho> \<Sigma> (VariantV l p) = map_sum id (\<lambda>v. variant l (Some v)) (form \<rho> \<Sigma> p)"

definition form_args :: "env \<Rightarrow> signature \<Rightarrow> val list \<Rightarrow> error + rvalue list" where
  "form_args \<rho> \<Sigma> vs = all_ok (map (form \<rho> \<Sigma>) vs)"

end
