(* ===== verification/Finite_Float.thy ===== *)
theory Finite_Float
  imports Ir_Terms
begin

text \<open>
  Finite doubles (\<open>core/src/data/finite.rs\<close>) and what the source asks of \<open>f64\<close>: a double is a
  sign and a magnitude in units of \<open>2\<^sup>-\<^sup>1\<^sup>0\<^sup>7\<^sup>4\<close>; sums, products and quotients are exact and then
  rounded to the nearest double, a tie to the even one, and a result past the largest double is
  an infinity, which no \<open>Finite\<close> holds.
\<close>

section \<open>Magnitudes\<close>

definition unit_scale :: nat where
  "unit_scale = 2 ^ 1074"

definition units :: "finite \<Rightarrow> int" where
  "units f = (if negative f then - int (magnitude f) else int (magnitude f))"

fun bit_length :: "nat \<Rightarrow> nat" where
  "bit_length n = (if n = 0 then 0 else Suc (bit_length (n div 2)))"

declare bit_length.simps [simp del]

text \<open>The double nearest to \<open>p / q\<close> units; \<open>None\<close> is an infinity.\<close>

definition round_to :: "nat \<Rightarrow> nat \<Rightarrow> nat option" where
  "round_to p q =
     (let step = 2 ^ (bit_length (p div q) - 53);
          low = p div (q * step);
          rest = p mod (q * step);
          n = (if 2 * rest > q * step \<or> 2 * rest = q * step \<and> odd low then Suc low else low)
      in if n * step < 2 ^ 1024 * unit_scale then Some (n * step) else None)"

definition representable :: "nat \<Rightarrow> bool" where
  "representable m \<longleftrightarrow>
     m < 2 ^ 1024 * unit_scale \<and> 2 ^ (bit_length m - 53) dvd m"

section \<open>Operations\<close>

definition is_zero :: "finite \<Rightarrow> bool" where
  "is_zero f \<longleftrightarrow> magnitude f = 0"

definition float_neg :: "finite \<Rightarrow> finite" where
  "float_neg f = Finite (\<not> negative f) (magnitude f)"

text \<open>An exact zero sum is \<open>-0.0\<close> only of two negative zeros.\<close>

definition float_add :: "finite \<Rightarrow> finite \<Rightarrow> finite option" where
  "float_add a b =
     (let z = units a + units b
      in if z = 0 then Some (Finite (negative a \<and> negative b) 0)
         else map_option (Finite (z < 0)) (round_to (nat \<bar>z\<bar>) 1))"

definition float_sub :: "finite \<Rightarrow> finite \<Rightarrow> finite option" where
  "float_sub a b = float_add a (float_neg b)"

definition float_mul :: "finite \<Rightarrow> finite \<Rightarrow> finite option" where
  "float_mul a b =
     map_option (Finite (negative a \<noteq> negative b)) (round_to (magnitude a * magnitude b) unit_scale)"

text \<open>The divisor is not zero: its callers refuse one first.\<close>

definition float_div :: "finite \<Rightarrow> finite \<Rightarrow> finite option" where
  "float_div a b =
     map_option (Finite (negative a \<noteq> negative b)) (round_to (magnitude a * unit_scale) (magnitude b))"

text \<open>\<open>n as f64\<close>, which never overflows.\<close>

definition float_of_int :: "int \<Rightarrow> finite" where
  "float_of_int n =
     Finite (n < 0) (case round_to (nat \<bar>n\<bar> * unit_scale) 1 of Some m \<Rightarrow> m | None \<Rightarrow> 0)"

text \<open>\<open>Finite::to_i64\<close>: the integer part, when it fits.\<close>

definition to_i64 :: "finite \<Rightarrow> int option" where
  "to_i64 f =
     (if - (2 ^ 63) * int unit_scale \<le> units f \<and> units f < 2 ^ 63 * int unit_scale
      then Some ((if negative f then -1 else 1) * int (magnitude f div unit_scale)) else None)"

text \<open>\<open>f - f.trunc()\<close>, which is exact, in units.\<close>

definition frac_units :: "finite \<Rightarrow> int" where
  "frac_units f = (if negative f then -1 else 1) * int (magnitude f mod unit_scale)"

section \<open>Order\<close>

datatype ordering = Less | Equal | Greater

definition compare_int :: "int \<Rightarrow> int \<Rightarrow> ordering" where
  "compare_int a b = (if a < b then Less else if a = b then Equal else Greater)"

fun reverse :: "ordering \<Rightarrow> ordering" where
  "reverse Less = Greater"
| "reverse Equal = Equal"
| "reverse Greater = Less"

fun then_with :: "ordering \<Rightarrow> ordering \<Rightarrow> ordering" where
  "then_with Equal o' = o'"
| "then_with o' _ = o'"

fun order_holds :: "compare_op \<Rightarrow> ordering \<Rightarrow> bool" where
  "order_holds Lt o' = (o' = Less)"
| "order_holds Gt o' = (o' = Greater)"
| "order_holds Le o' = (o' \<noteq> Greater)"
| "order_holds Ge o' = (o' \<noteq> Less)"

definition float_cmp :: "finite \<Rightarrow> finite \<Rightarrow> ordering" where
  "float_cmp a b = compare_int (units a) (units b)"

definition cmp_int_float :: "int \<Rightarrow> finite \<Rightarrow> ordering" where
  "cmp_int_float i f =
     (case to_i64 f of
        None \<Rightarrow> if 0 < units f then Less else Greater
      | Some whole \<Rightarrow> then_with (compare_int i whole) (compare_int 0 (frac_units f)))"

section \<open>Numbers by magnitude\<close>

lemma unit_scale_pos [simp]: "0 < unit_scale"
  by (simp add: unit_scale_def)

lemma units_split:
  "units f = (if negative f then -1 else 1) * int (magnitude f div unit_scale) * int unit_scale
     + frac_units f"
proof -
  have "int (magnitude f) = int (magnitude f div unit_scale) * int unit_scale
      + int (magnitude f mod unit_scale)"
    by (metis div_mult_mod_eq of_nat_add of_nat_mult)
  then show ?thesis by (simp add: units_def frac_units_def)
qed

lemma frac_small: "\<bar>frac_units f\<bar> < int unit_scale"
  by (simp add: frac_units_def)

lemma compare_scaled:
  assumes "\<bar>r\<bar> < u" and "0 < (u::int)"
    and "w = 0 \<or> r = 0 \<or> (0 < w \<and> 0 < r) \<or> (w < 0 \<and> r < 0)"
  shows "then_with (compare_int i w) (compare_int 0 r) = compare_int (i * u) (w * u + r)"
proof (cases i w rule: linorder_cases)
  case less
  then have "(i + 1) * u \<le> w * u" using assms(2) by (intro mult_right_mono) auto
  then have "i * u < w * u + r" using assms(1) by (simp add: algebra_simps)
  with less show ?thesis by (simp add: compare_int_def)
next
  case equal
  then show ?thesis by (auto simp: compare_int_def)
next
  case greater
  then have "(w + 1) * u \<le> i * u" using assms(2) by (intro mult_right_mono) auto
  then have "w * u + r < i * u" using assms(1) by (simp add: algebra_simps)
  with greater show ?thesis by (simp add: compare_int_def)
qed

text \<open>The comparison of an integer with a double is that of the numbers they are: no rounding.\<close>

lemma cmp_int_float_exact:
  assumes "- (2 ^ 63) \<le> i" and "i < 2 ^ 63"
  shows "cmp_int_float i f = compare_int (i * int unit_scale) (units f)"
proof (cases "to_i64 f")
  case None
  then consider "units f < - (2 ^ 63) * int unit_scale" | "2 ^ 63 * int unit_scale \<le> units f"
    by (auto simp: to_i64_def split: if_splits)
  then show ?thesis
  proof cases
    case 1
    have "- (2 ^ 63) * int unit_scale \<le> i * int unit_scale"
      by (rule mult_right_mono) (use assms in simp_all)
    with 1 have "units f < i * int unit_scale" by linarith
    moreover have "units f < 0"
    proof -
      have "- (2 ^ 63) * int unit_scale \<le> 0" by simp
      with 1 show ?thesis by linarith
    qed
    ultimately show ?thesis using None by (simp add: cmp_int_float_def compare_int_def)
  next
    case 2
    have "i * int unit_scale < 2 ^ 63 * int unit_scale"
      by (rule mult_strict_right_mono) (use assms in simp_all)
    with 2 have "i * int unit_scale < units f" by linarith
    moreover have "0 < units f"
    proof -
      have "0 < (2::int) ^ 63 * int unit_scale" by simp
      with 2 show ?thesis by linarith
    qed
    ultimately show ?thesis using None by (simp add: cmp_int_float_def compare_int_def)
  qed
next
  case (Some w)
  then have w: "w = (if negative f then -1 else 1) * int (magnitude f div unit_scale)"
    by (auto simp: to_i64_def split: if_splits)
  have "then_with (compare_int i w) (compare_int 0 (frac_units f))
      = compare_int (i * int unit_scale) (w * int unit_scale + frac_units f)"
    by (rule compare_scaled [OF frac_small]) (auto simp: w frac_units_def)
  with Some show ?thesis by (simp add: cmp_int_float_def units_split w)
qed

end
