(* ===== verification/Value_Compare.thy ===== *)
theory Value_Compare
  imports Value_Form Finite_Float
begin

text \<open>
  ral's equality and order (\<open>core/src/shell/runtime/value/compare.rs\<close>), the text of a value
  (\<open>Display\<close> in \<open>value.rs\<close>) and the fold of a value into first-order data
  (\<open>value/first_order.rs\<close>).  A float's text is the \<open>ryu\<close> crate's, an argument, and so is the title
  of a handle.
\<close>

section \<open>Walks over the elements of a value\<close>

lemma rank_list_items: "v \<in> set (list_items l) \<Longrightarrow> rank v \<le> list_rank l"
  unfolding list_items_def by (rule read_list_rank) simp_all

lemma rank_map_items: "(k, v) \<in> set (map_items m) \<Longrightarrow> rank v \<le> map_rank m"
  unfolding map_items_def by (rule read_map_rank) simp_all

lemma rank_list_item [termination_simp]: "v \<in> set (list_items l) \<Longrightarrow> rank v < Suc (list_rank l)"
  using rank_list_items by (simp add: less_Suc_eq_le)

lemma rank_map_item [termination_simp]: "(k, v) \<in> set (map_items m) \<Longrightarrow> rank v < Suc (map_rank m)"
  using rank_map_items by (simp add: less_Suc_eq_le)

lemma rank_payload [termination_simp]: "p = Some v \<Longrightarrow> rank v < Suc (max_list (list_of_option (map_option rank p)))"
  by (simp add: list_of_option_def)

section \<open>Order\<close>

definition number_order :: "rvalue \<Rightarrow> rvalue \<Rightarrow> ordering option" where
  "number_order a b =
     (case (a, b) of
        (IntVal m, IntVal n) \<Rightarrow> Some (compare_int (sint m) (sint n))
      | (IntVal m, FloatVal f) \<Rightarrow> Some (cmp_int_float (sint m) f)
      | (FloatVal f, IntVal n) \<Rightarrow> Some (reverse (cmp_int_float (sint n) f))
      | (FloatVal f, FloatVal g) \<Rightarrow> Some (float_cmp f g)
      | _ \<Rightarrow> None)"

definition compare_bytes :: "bytes \<Rightarrow> bytes \<Rightarrow> ordering" where
  "compare_bytes a b = (if a < b then Less else if a = b then Equal else Greater)"

definition compare_values :: "bytes \<Rightarrow> rvalue \<Rightarrow> rvalue \<Rightarrow> brk + ordering" where
  "compare_values op a b =
     (case number_order a b of
        Some o' \<Rightarrow> Inr o'
      | None \<Rightarrow>
          (case (a, b) of
             (StringVal s, StringVal t) \<Rightarrow> Inr (compare_bytes s t)
           | _ \<Rightarrow> Inl (sig (OfNumber (OrderRefused op (type_name a) (type_name b))))))"

section \<open>Equality\<close>

text \<open>Conjunction that stops at the first \<open>false\<close> or error.\<close>

fun all_true :: "('e + bool) list \<Rightarrow> 'e + bool" where
  "all_true [] = Inr True"
| "all_true (r # rs) = (case r of Inl e \<Rightarrow> Inl e | Inr False \<Rightarrow> Inr False | Inr True \<Rightarrow> all_true rs)"

lemma all_true_cong [fundef_cong]: "xs = ys \<Longrightarrow> all_true xs = all_true ys"
  by simp

definition refuse_equality :: "rvalue \<Rightarrow> rvalue \<Rightarrow> brk + bool" where
  "refuse_equality a b =
     (if opaque a \<or> opaque b
      then Inl (sig (OfNumber (EqualityRefused (type_name a) (type_name b)))) else Inr False)"

definition numeric :: "rvalue \<Rightarrow> bool" where
  "numeric v \<longleftrightarrow> (case v of IntVal _ \<Rightarrow> True | FloatVal _ \<Rightarrow> True | _ \<Rightarrow> False)"

function equals :: "rvalue \<Rightarrow> rvalue \<Rightarrow> brk + bool" where
  "equals a b =
     (if numeric a \<and> numeric b then Inr (number_order a b = Some Equal)
      else case (a, b) of
        (UnitVal, UnitVal) \<Rightarrow> Inr True
      | (BoolVal x, BoolVal y) \<Rightarrow> Inr (x = y)
      | (StringVal s, StringVal t) \<Rightarrow> Inr (s = t)
      | (BytesVal s, BytesVal t) \<Rightarrow> Inr (s = t)
      | (ListVal l, ListVal k) \<Rightarrow>
          if list_len l = list_len k
          then all_true (map (\<lambda>(x, y). equals x y) (zip (list_items l) (list_items k)))
          else Inr False
      | (MapVal m, MapVal n) \<Rightarrow>
          if map_len m = map_len n
          then all_true (map (\<lambda>((j, x), (k, y)). if j = k then equals x y else Inr False)
                  (zip (map_items m) (map_items n)))
          else Inr False
      | (VariantVal i p, VariantVal j q) \<Rightarrow>
          if i = j
          then (case p of
                  Some x \<Rightarrow> (case q of Some y \<Rightarrow> equals x y | None \<Rightarrow> Inr False)
                | None \<Rightarrow> Inr (q = None))
          else Inr False
      | _ \<Rightarrow> refuse_equality a b)"
  by pat_completeness auto
termination
  by (relation "measure (\<lambda>(a, b). rank a)")
     (auto dest!: set_zip_leftD simp: rank_list_item rank_map_item list_of_option_def)

declare equals.simps [simp del]

section \<open>Text\<close>

record texts =
  ryu :: "finite \<Rightarrow> bytes"
  title :: "nat \<Rightarrow> bytes"

definition int_text :: "int \<Rightarrow> bytes" where
  "int_text n = (if n < 0 then ''-'' @ decimal (nat (- n)) else decimal (nat n))"

fun joined :: "bytes \<Rightarrow> bytes list \<Rightarrow> bytes" where
  "joined sep [] = []"
| "joined sep [s] = s"
| "joined sep (s # t # ts) = s @ sep @ joined sep (t # ts)"

fun pattern_text :: "pattern \<Rightarrow> bytes" and field_text :: "field_pattern \<Rightarrow> bytes" where
  "pattern_text Wildcard = ''_''"
| "pattern_text (NameP n) = n"
| "pattern_text (ListP ps r) =
     ''['' @ joined '' '' (map pattern_text ps @ map (\<lambda>n. ''...'' @ n) (list_of_option r)) @ '']''"
| "pattern_text (RecordP fs) = ''['' @ joined '' '' (map field_text fs) @ '']''"
| "field_text (FieldPattern k p) = (if p = NameP k then k else k @ '': '' @ pattern_text p)"

text \<open>\<open>fmt_lambda\<close>: a curried function's parameters, the patterns they are taken apart by recovered.\<close>

fun lam_chain :: "comp_kind \<Rightarrow> name list \<times> comp_kind" where
  "lam_chain (Lam p (Spanned b _)) = (let (ns, c) = lam_chain b in (p # ns, c))"
| "lam_chain c = ([], c)"

fun recovered :: "name list \<Rightarrow> bytes list \<Rightarrow> comp_kind \<Rightarrow> bytes list" where
  "recovered ns ps (Bind (Spanned (Return (Variable n)) _) pat (Spanned rest _)) =
     (if is_synthetic n
      then recovered ns
        (case List.extract (\<lambda>m. m = n) ns of
           Some (before, _, _) \<Rightarrow> ps[length before := pattern_text pat] | None \<Rightarrow> ps) rest
      else ps)"
| "recovered ns ps _ = ps"

definition lambda_text :: "name \<Rightarrow> comp \<Rightarrow> bytes" where
  "lambda_text p body =
     (let (ns, c) = lam_chain (item body); ns = p # ns
      in ''<|'' @ joined '' ''
           (recovered ns (map (\<lambda>n. if is_synthetic n then ''_'' else n) ns) c) @ ''| block>'')"

function text_of :: "texts \<Rightarrow> rvalue \<Rightarrow> bytes" where
  "text_of t v =
     (case v of
        UnitVal \<Rightarrow> ''()''
      | BoolVal b \<Rightarrow> if b then ''true'' else ''false''
      | IntVal n \<Rightarrow> int_text (sint n)
      | FloatVal f \<Rightarrow> ryu t f
      | StringVal s \<Rightarrow> s
      | BytesVal b \<Rightarrow> utf8_lossy b
      | ListVal l \<Rightarrow> ''['' @ joined '', '' (map (text_of t) (list_items l)) @ '']''
      | MapVal m \<Rightarrow>
          if map_items m = [] then ''[:]''
          else ''['' @ joined '', '' (map (\<lambda>(k, x). k @ '': '' @ text_of t x) (map_items m)) @ '']''
      | VariantVal l p \<Rightarrow>
          (case p of None \<Rightarrow> CHR 0x60 # l | Some x \<Rightarrow> CHR 0x60 # l @ '' '' @ text_of t x)
      | ThunkVal c _ \<Rightarrow>
          (case lam_of (item c) of Some (p, b) \<Rightarrow> lambda_text p b | None \<Rightarrow> ''<block>'')
      | NativeVal n \<Rightarrow> ''<native '' @ native_name n @ ''>''
      | HandleVal h _ \<Rightarrow> ''<handle:'' @ title t h @ ''>'')"
  by pat_completeness auto
termination
  by (relation "measure (\<lambda>(t, v). rank v)") (auto simp: rank_list_item rank_map_item list_of_option_def)

declare text_of.simps [simp del]

definition scalar_text :: "texts \<Rightarrow> rvalue \<Rightarrow> bytes option" where
  "scalar_text t v =
     (case v of
        StringVal _ \<Rightarrow> Some (text_of t v) | IntVal _ \<Rightarrow> Some (text_of t v)
      | FloatVal _ \<Rightarrow> Some (text_of t v) | BoolVal _ \<Rightarrow> Some (text_of t v)
      | _ \<Rightarrow> None)"

definition render_argv :: "texts \<Rightarrow> rvalue list \<Rightarrow> bytes list" where
  "render_argv t vs = map (text_of t) vs"

section \<open>Size\<close>

text \<open>\<open>Value::shallow_size\<close>; an estimate that never enters a capture.\<close>

function shallow_size :: "rvalue \<Rightarrow> nat" where
  "shallow_size v =
     (case v of
        UnitVal \<Rightarrow> 0
      | BoolVal _ \<Rightarrow> 1
      | IntVal _ \<Rightarrow> 8
      | FloatVal _ \<Rightarrow> 8
      | StringVal s \<Rightarrow> length s
      | BytesVal b \<Rightarrow> length b
      | ListVal l \<Rightarrow> sum_list (map shallow_size (list_items l))
      | MapVal m \<Rightarrow> sum_list (map (\<lambda>(k, x). length k + shallow_size x) (map_items m))
      | VariantVal l p \<Rightarrow> length l + (case p of None \<Rightarrow> 0 | Some x \<Rightarrow> shallow_size x)
      | ThunkVal _ _ \<Rightarrow> 32
      | NativeVal _ \<Rightarrow> 32
      | HandleVal _ _ \<Rightarrow> 32)"
  by pat_completeness auto
termination
  by (relation "measure rank") (auto simp: rank_list_item rank_map_item list_of_option_def)

declare shallow_size.simps [simp del]

end
