(* ===== verification/Pure_Ops.thy ===== *)
theory Pure_Ops
  imports Value_Compare "HOL-Library.Signed_Division"
begin

text \<open>
  The operations that look no name up and run nothing: patterns
  (\<open>core/src/shell/evaluator/pattern.rs\<close>), reads, arithmetic and rendering (\<open>expr.rs\<close>,
  \<open>core/src/ir/op.rs\<close>) and the assembly of collections (\<open>assemble.rs\<close>).
\<close>

section \<open>Patterns\<close>

text \<open>\<open>Pattern::names\<close>, in pattern order.\<close>

fun pattern_names :: "pattern \<Rightarrow> name list" and field_names :: "field_pattern \<Rightarrow> name list" where
  "pattern_names Wildcard = []"
| "pattern_names (NameP n) = [n]"
| "pattern_names (ListP ps r) = concat (map pattern_names ps) @ list_of_option r"
| "pattern_names (RecordP fs) = concat (map field_names fs)"
| "field_names (FieldPattern _ p) = pattern_names p"

fun first_repeat :: "name list \<Rightarrow> name list \<Rightarrow> name option" where
  "first_repeat seen [] = None"
| "first_repeat seen (n # ns) = (if n \<in> set seen then Some n else first_repeat (n # seen) ns)"

definition duplicate_name :: "pattern \<Rightarrow> name option" where
  "duplicate_name p = first_repeat [] (pattern_names p)"

definition then_all :: "'e + 'a list \<Rightarrow> 'e + 'a list \<Rightarrow> 'e + 'a list" where
  "then_all r s = (case r of Inl e \<Rightarrow> Inl e | Inr xs \<Rightarrow> map_sum id (\<lambda>ys. xs @ ys) s)"

text \<open>The bindings staged, in pattern order; the elements of a list pattern are there, its length checked.\<close>

fun stage :: "pattern \<Rightarrow> rvalue \<Rightarrow> error + (name \<times> rvalue) list"
  and stage_elems :: "pattern list \<Rightarrow> rvalue list \<Rightarrow> error + (name \<times> rvalue) list"
  and stage_fields :: "field_pattern list \<Rightarrow> mapv \<Rightarrow> error + (name \<times> rvalue) list" where
  "stage Wildcard v = Inr []"
| "stage (NameP n) v = Inr [(n, v)]"
| "stage (ListP ps r) v =
     (case v of
        ListVal l \<Rightarrow>
          if length ps > list_len l \<or> r = None \<and> list_len l > length ps
          then Inl (err (OfValue (NeedValues (length ps) (list_len l))))
          else then_all (stage_elems ps (list_items l))
            (Inr (map (\<lambda>n. (n, ListVal (snd (list_split_off (length ps) l)))) (list_of_option r)))
      | _ \<Rightarrow> Inl (err (OfValue (ExpectedList (type_name v)))))"
| "stage (RecordP fs) v =
     (case v of
        MapVal m \<Rightarrow> stage_fields fs m
      | _ \<Rightarrow> Inl (err (OfValue (ExpectedMap (type_name v)))))"
| "stage_elems [] vs = Inr []"
| "stage_elems (p # ps) (v # vs) = then_all (stage p v) (stage_elems ps vs)"
| "stage_elems (p # ps) [] = Inr []"
| "stage_fields [] m = Inr []"
| "stage_fields (FieldPattern k p # fs) m =
     (case map_get m k of
        None \<Rightarrow> Inl (err (OfValue (PatternKeyMissing k (map_keys m))))
      | Some v \<Rightarrow> then_all (stage p v) (stage_fields fs m))"

definition destructure :: "pattern \<Rightarrow> rvalue \<Rightarrow> brk + (name \<times> rvalue) list" where
  "destructure p v = map_sum ErrorB id (stage p v)"

definition unschemed :: "name \<times> rvalue \<Rightarrow> name \<times> binding" where
  "unschemed e = (fst e, Binding (snd e) None)"

definition pattern_bind :: "pattern \<Rightarrow> rvalue \<Rightarrow> env \<Rightarrow> brk + env" where
  "pattern_bind p v \<rho> = map_sum id (\<lambda>bs. env_extend (map unschemed bs) \<rho>) (destructure p v)"

section \<open>Reads\<close>

definition entry_of :: "mapv \<Rightarrow> bytes \<Rightarrow> (bytes \<Rightarrow> bytes list \<Rightarrow> read_complaint) \<Rightarrow> error + rvalue" where
  "entry_of m k missing =
     (case map_get m k of Some v \<Rightarrow> Inr v | None \<Rightarrow> Inl (err (OfRead (missing k (map_keys m)))))"

definition read_field :: "rvalue \<Rightarrow> bytes \<Rightarrow> error + rvalue" where
  "read_field v l =
     (case v of
        MapVal m \<Rightarrow> entry_of m l FieldNotFound
      | _ \<Rightarrow> Inl (err (OfRead (UnreadableField l (type_name v)))))"

definition read_position :: "rvalue \<Rightarrow> nat \<Rightarrow> error + rvalue" where
  "read_position v n =
     (case v of
        ListVal l \<Rightarrow>
          (case list_get l n of
             Some x \<Rightarrow> Inr x
           | None \<Rightarrow> Inl (err (OfRead (OutOfBounds n (list_len l)))))
      | _ \<Rightarrow> Inl (err (OfRead (UnreadablePosition n (type_name v)))))"

definition read_key :: "rvalue \<Rightarrow> rvalue \<Rightarrow> error + rvalue" where
  "read_key v k =
     (case k of
        StringVal s \<Rightarrow>
          (case v of
             MapVal m \<Rightarrow> entry_of m s KeyNotFound
           | _ \<Rightarrow> Inl (err (OfRead (UnreadableKey s (type_name v)))))
      | _ \<Rightarrow> Inl (err (OfValue (MapKeyNotString k))))"

section \<open>Arithmetic\<close>

definition i64_min :: int where
  "i64_min = - (2 ^ 63)"

definition in_i64 :: "int \<Rightarrow> bool" where
  "in_i64 n \<longleftrightarrow> i64_min \<le> n \<and> n < 2 ^ 63"

definition checked :: "int \<Rightarrow> 64 word option" where
  "checked n = (if in_i64 n then Some (word_of_int n) else None)"

text \<open>
  The checked operations of \<open>i64\<close>; division truncates, and the remainder of the least integer by
  \<open>-1\<close> is refused as its quotient is.
\<close>

fun int_op :: "arith_op \<Rightarrow> int \<Rightarrow> int \<Rightarrow> 64 word option" where
  "int_op Add a b = checked (a + b)"
| "int_op Sub a b = checked (a - b)"
| "int_op Mul a b = checked (a * b)"
| "int_op Div a b = (if b = 0 then None else checked (a sdiv b))"
| "int_op Mod a b = (if b = 0 \<or> \<not> in_i64 (a sdiv b) then None else checked (a smod b))"

text \<open>An infinite result is none: \<open>Finite::new\<close> refuses it.\<close>

fun float_op :: "arith_op \<Rightarrow> finite \<Rightarrow> finite \<Rightarrow> finite option option" where
  "float_op Add a b = Some (float_add a b)"
| "float_op Sub a b = Some (float_sub a b)"
| "float_op Mul a b = Some (float_mul a b)"
| "float_op Div a b = Some (float_div a b)"
| "float_op Mod _ _ = None"

fun as_float :: "rvalue \<Rightarrow> finite option" where
  "as_float (IntVal n) = Some (float_of_int (sint n))"
| "as_float (FloatVal f) = Some f"
| "as_float _ = None"

definition nfail :: "number_complaint \<Rightarrow> error + 'a" where
  "nfail c = Inl (err (OfNumber c))"

definition float_arithmetic :: "rvalue \<Rightarrow> arith_op \<Rightarrow> rvalue \<Rightarrow> error + rvalue" where
  "float_arithmetic l op r =
     (case (as_float l, as_float r) of
        (Some a, Some b) \<Rightarrow>
          if op = Div \<and> is_zero b then nfail DivisionByZero
          else (case float_op op a b of
                  None \<Rightarrow> nfail ModNeedsInt
                | Some None \<Rightarrow> nfail FloatOverflow
                | Some (Some f) \<Rightarrow> Inr (FloatVal f))
      | (None, _) \<Rightarrow> nfail (NotNumeric l)
      | (_, None) \<Rightarrow> nfail (NotNumeric r))"

definition arithmetic :: "rvalue \<Rightarrow> arith_op \<Rightarrow> rvalue \<Rightarrow> error + rvalue" where
  "arithmetic l op r =
     (case (l, r) of
        (IntVal a, IntVal b) \<Rightarrow>
          if op = Div \<and> sint b = 0 then nfail DivisionByZero
          else if op = Mod \<and> sint b = 0 then nfail ModuloByZero
          else (case int_op op (sint a) (sint b) of
                  Some n \<Rightarrow> Inr (IntVal n) | None \<Rightarrow> nfail IntOverflow)
      | _ \<Rightarrow> float_arithmetic l op r)"

fun binop :: "rvalue \<Rightarrow> binary_op \<Rightarrow> rvalue \<Rightarrow> brk + rvalue" where
  "binop l (EqOp Eq) r = map_sum id BoolVal (equals l r)"
| "binop l (EqOp Ne) r = map_sum id (\<lambda>b. BoolVal (\<not> b)) (equals l r)"
| "binop l (CompareOp c) r = map_sum id (\<lambda>o'. BoolVal (order_holds c o')) (compare_values ''comparison'' l r)"
| "binop l (ArithOp a) r = map_sum ErrorB id (arithmetic l a r)"

definition negate_value :: "rvalue \<Rightarrow> error + rvalue" where
  "negate_value v =
     (case v of
        IntVal n \<Rightarrow> (case checked (- sint n) of Some m \<Rightarrow> Inr (IntVal m) | None \<Rightarrow> nfail IntOverflow)
      | FloatVal f \<Rightarrow> Inr (FloatVal (float_neg f))
      | _ \<Rightarrow> nfail (NotNumeric v))"

definition not_value :: "rvalue \<Rightarrow> error + rvalue" where
  "not_value v = (case v of BoolVal b \<Rightarrow> Inr (BoolVal (\<not> b)) | _ \<Rightarrow> nfail (NotBool ''not'' v))"

definition render_value :: "texts \<Rightarrow> rvalue \<Rightarrow> error + bytes" where
  "render_value t v =
     (case scalar_text t v of
        Some s \<Rightarrow> Inr s
      | None \<Rightarrow> Inl (err (OfRead (CannotInterpolate (type_name v)))))"

section \<open>Decoding a capture\<close>

text \<open>Without one trailing CRLF or LF.\<close>

definition without_terminator :: "bytes \<Rightarrow> bytes" where
  "without_terminator b =
     (case rev b of
        c # r \<Rightarrow>
          if c = CHR 0x0A
          then (case r of d # r' \<Rightarrow> if d = CHR 0x0D then rev r' else rev r | [] \<Rightarrow> rev r)
          else b
      | [] \<Rightarrow> b)"

definition decode_value :: "rvalue \<Rightarrow> error + rvalue" where
  "decode_value v =
     (case v of
        BytesVal b \<Rightarrow>
          if utf8_ok (without_terminator b) then Inr (StringVal (without_terminator b))
          else Inl (err (OfRead NotUtf8))
      | _ \<Rightarrow> Inl (err (OfRead (BoundaryPayload (type_name v)))))"

section \<open>Assembly\<close>

definition spread_list :: "rvalue \<Rightarrow> error + listv" where
  "spread_list v =
     (case v of ListVal l \<Rightarrow> Inr l | _ \<Rightarrow> Inl (err (OfValue (SpreadNeedsList (type_name v)))))"

text \<open>A list literal spliced element by element.\<close>

fun splice_list :: "env \<Rightarrow> signature \<Rightarrow> listv \<Rightarrow> val elem list \<Rightarrow> error + listv" where
  "splice_list \<rho> \<Sigma> acc [] = Inr acc"
| "splice_list \<rho> \<Sigma> acc (Single v # es) =
     (case form \<rho> \<Sigma> (item v) of Inl e \<Rightarrow> Inl e | Inr x \<Rightarrow> splice_list \<rho> \<Sigma> (list_push_back x acc) es)"
| "splice_list \<rho> \<Sigma> acc (Spread v # es) =
     (case form \<rho> \<Sigma> (item v) of
        Inl e \<Rightarrow> Inl e
      | Inr x \<Rightarrow>
          (case spread_list x of Inl e \<Rightarrow> Inl e | Inr l \<Rightarrow> splice_list \<rho> \<Sigma> (list_append acc l) es))"

text \<open>A cons and a snoc reuse the spread's spine.\<close>

definition eval_list :: "env \<Rightarrow> signature \<Rightarrow> val elem list \<Rightarrow> error + rvalue" where
  "eval_list \<rho> \<Sigma> es =
     (case es of
        [Single sx, Spread sxs] \<Rightarrow>
          (case form \<rho> \<Sigma> (item sx) of
             Inl e \<Rightarrow> Inl e
           | Inr x \<Rightarrow>
               (case form \<rho> \<Sigma> (item sxs) of
                  Inl e \<Rightarrow> Inl e
                | Inr xs \<Rightarrow> map_sum id (\<lambda>l. ListVal (list_push_front x l)) (spread_list xs)))
      | [Spread sxs, Single sx] \<Rightarrow>
          (case form \<rho> \<Sigma> (item sxs) of
             Inl e \<Rightarrow> Inl e
           | Inr xs \<Rightarrow>
               (case form \<rho> \<Sigma> (item sx) of
                  Inl e \<Rightarrow> Inl e
                | Inr x \<Rightarrow> map_sum id (\<lambda>l. ListVal (list_push_back x l)) (spread_list xs)))
      | _ \<Rightarrow> map_sum id ListVal (splice_list \<rho> \<Sigma> (BuiltList []) es))"

definition form_map :: "env \<Rightarrow> signature \<Rightarrow> val spanned \<Rightarrow> error + mapv" where
  "form_map \<rho> \<Sigma> v =
     (case form \<rho> \<Sigma> (item v) of
        Inl e \<Rightarrow> Inl e
      | Inr (MapVal m) \<Rightarrow> Inr m
      | Inr x \<Rightarrow> Inl (err (OfValue (SpreadNeedsMap (type_name x)))))"

fun update_fields ::
  "env \<Rightarrow> signature \<Rightarrow> bytes list \<Rightarrow> (name \<times> val spanned) list \<Rightarrow> error + (bytes \<times> rvalue) list" where
  "update_fields \<rho> \<Sigma> seen [] = Inr []"
| "update_fields \<rho> \<Sigma> seen ((k, v) # fs) =
     (if k \<in> set seen then Inl (err (OfValue (DuplicateKey k)))
      else case form \<rho> \<Sigma> (item v) of
        Inl e \<Rightarrow> Inl e
      | Inr x \<Rightarrow> map_sum id (Cons (k, x)) (update_fields \<rho> \<Sigma> (k # seen) fs))"

text \<open>The base's entries a field does not set; the first of equal keys.\<close>

fun unset_entries :: "bytes list \<Rightarrow> (bytes \<times> rvalue) list \<Rightarrow> (bytes \<times> rvalue) list" where
  "unset_entries seen [] = []"
| "unset_entries seen ((k, v) # fs) =
     (if k \<in> set seen then unset_entries seen fs else (k, v) # unset_entries (k # seen) fs)"

definition eval_update ::
  "env \<Rightarrow> signature \<Rightarrow> val spanned \<Rightarrow> (name \<times> val spanned) list \<Rightarrow> error + rvalue" where
  "eval_update \<rho> \<Sigma> base fs =
     (case update_fields \<rho> \<Sigma> [] fs of
        Inl e \<Rightarrow> Inl e
      | Inr ps \<Rightarrow>
          (case form_map \<rho> \<Sigma> base of
             Inl e \<Rightarrow> Inl e
           | Inr m \<Rightarrow> Inr (map_of_pairs (ps @ unset_entries (map fst ps) (map_items m)))))"

text \<open>Keys a spread would set and the map already has are left.\<close>

fun add_missing :: "(bytes \<times> rvalue) list \<Rightarrow> mapv \<Rightarrow> mapv" where
  "add_missing [] acc = acc"
| "add_missing ((k, v) # fs) acc =
     add_missing fs (if map_contains acc k then acc else map_insert k v acc)"

definition map_located :: "nat \<Rightarrow> span option \<Rightarrow> error + 'a \<Rightarrow> brk + 'a" where
  "map_located n sp r = map_sum (\<lambda>e. locate ''map'' sp n (ErrorB e)) id r"

fun map_entries ::
  "nat \<Rightarrow> env \<Rightarrow> signature \<Rightarrow> bytes list \<Rightarrow> mapv \<Rightarrow> val map_entry list \<Rightarrow> brk + mapv" where
  "map_entries n \<rho> \<Sigma> explicit acc [] = Inr acc"
| "map_entries n \<rho> \<Sigma> explicit acc (EntryOf k v # es) =
     (case map_located n (span_of k) (form \<rho> \<Sigma> (item k)) of
        Inl b \<Rightarrow> Inl b
      | Inr (StringVal l) \<Rightarrow>
          if l \<in> set explicit
          then map_located n (span_of k) (Inl (err (OfValue (DuplicateKey l))))
          else (case map_located n (span_of v) (form \<rho> \<Sigma> (item v)) of
                  Inl b \<Rightarrow> Inl b
                | Inr x \<Rightarrow> map_entries n \<rho> \<Sigma> (l # explicit) (map_insert l x acc) es)
      | Inr x \<Rightarrow> map_located n (span_of k) (Inl (err (OfValue (MapKeyNotString x)))))"
| "map_entries n \<rho> \<Sigma> explicit acc (SpreadMap v # es) =
     (case map_located n (span_of v) (form_map \<rho> \<Sigma> v) of
        Inl b \<Rightarrow> Inl b
      | Inr m \<Rightarrow> map_entries n \<rho> \<Sigma> explicit (add_missing (map_items m) acc) es)"

definition eval_map :: "nat \<Rightarrow> env \<Rightarrow> signature \<Rightarrow> val map_entry list \<Rightarrow> brk + rvalue" where
  "eval_map n \<rho> \<Sigma> es = map_sum id MapVal (map_entries n \<rho> \<Sigma> [] (BuiltMap []) es)"

section \<open>Primitives\<close>

fun concat_texts :: "env \<Rightarrow> signature \<Rightarrow> val list \<Rightarrow> error + bytes" where
  "concat_texts \<rho> \<Sigma> [] = Inr []"
| "concat_texts \<rho> \<Sigma> (v # vs) =
     (case form \<rho> \<Sigma> v of
        Inl e \<Rightarrow> Inl e
      | Inr x \<Rightarrow>
          (case as_str ''concat'' x of
             Inl e \<Rightarrow> Inl e
           | Inr s \<Rightarrow> map_sum id (\<lambda>t. s @ t) (concat_texts \<rho> \<Sigma> vs)))"

text \<open>A value formed, then read: an error of either is raised as it is.\<close>

definition formed :: "env \<Rightarrow> signature \<Rightarrow> val \<Rightarrow> (rvalue \<Rightarrow> error + 'a) \<Rightarrow> error + 'a" where
  "formed \<rho> \<Sigma> v f = (case form \<rho> \<Sigma> v of Inl e \<Rightarrow> Inl e | Inr x \<Rightarrow> f x)"

definition read_index :: "env \<Rightarrow> signature \<Rightarrow> rvalue \<Rightarrow> val key \<Rightarrow> error + rvalue" where
  "read_index \<rho> \<Sigma> v k =
     (case k of
        LabelKey l \<Rightarrow> read_field v l
      | PositionKey n \<Rightarrow> read_position v n
      | DataKey d \<Rightarrow> formed \<rho> \<Sigma> d (read_key v))"

definition eval_binary :: "env \<Rightarrow> signature \<Rightarrow> binary_op \<Rightarrow> val \<Rightarrow> val \<Rightarrow> brk + rvalue" where
  "eval_binary \<rho> \<Sigma> op l r =
     (case form \<rho> \<Sigma> l of
        Inl e \<Rightarrow> Inl (ErrorB e)
      | Inr x \<Rightarrow> (case form \<rho> \<Sigma> r of Inl e \<Rightarrow> Inl (ErrorB e) | Inr y \<Rightarrow> binop x op y))"

definition eval_prim :: "texts \<Rightarrow> nat \<Rightarrow> env \<Rightarrow> signature \<Rightarrow> val prim \<Rightarrow> brk + rvalue" where
  "eval_prim t n \<rho> \<Sigma> p =
     (case p of
        Binary op l r \<Rightarrow> eval_binary \<rho> \<Sigma> op l r
      | Negate v \<Rightarrow> map_sum ErrorB id (formed \<rho> \<Sigma> v negate_value)
      | Not v \<Rightarrow> map_sum ErrorB id (formed \<rho> \<Sigma> v not_value)
      | Index v k \<Rightarrow> map_sum ErrorB id (formed \<rho> \<Sigma> v (\<lambda>x. read_index \<rho> \<Sigma> x (item k)))
      | Update b fs \<Rightarrow> map_sum ErrorB id (eval_update \<rho> \<Sigma> b fs)
      | ListPrim es \<Rightarrow> map_sum ErrorB id (eval_list \<rho> \<Sigma> es)
      | MapPrim es \<Rightarrow> eval_map n \<rho> \<Sigma> es
      | Render v \<Rightarrow> map_sum ErrorB StringVal (formed \<rho> \<Sigma> v (render_value t))
      | Concat vs \<Rightarrow> map_sum ErrorB StringVal (concat_texts \<rho> \<Sigma> vs)
      | Decode v \<Rightarrow> map_sum ErrorB id (formed \<rho> \<Sigma> v decode_value))"

end
