(* ===== verification/Handler_Stack.thy ===== *)
theory Handler_Stack
  imports Value_Compare
begin

text \<open>
  The user handler stack (\<open>core/src/shell/runtime/handler.rs\<close>): one flat stack of frames shared by
  \<open>alias\<close> and \<open>within [handlers: \<dots>]\<close>, innermost last, each frame beside the handle the stack minted
  for it.  An arm is vetted by the type checker, which is not modelled: \<open>vetted\<close> is what it answered.
\<close>

section \<open>Frames\<close>

datatype handler_arity = CatchAll | Unary

record handler_entry =
  he_name :: bytes
  he_arity :: handler_arity
  he_thunk :: rvalue
  he_scheme :: "scheme option"

datatype frame_kind = WithinKind | AliasKind

record handler_frame =
  hf_entries :: "handler_entry list"
  hf_catch_all :: "rvalue option"
  hf_kind :: frame_kind

definition is_alias_for :: "bytes \<Rightarrow> handler_frame \<Rightarrow> bool" where
  "is_alias_for n f \<longleftrightarrow>
     hf_kind f = AliasKind \<and> (case hf_entries f of e # _ \<Rightarrow> he_name e = n | [] \<Rightarrow> False)"

datatype handler_lookup = FrameHit handler_entry nat | BaseHit native

record handler_stack =
  hs_frames :: "(nat \<times> handler_frame) list"
  hs_base :: "native list"
  hs_next :: nat

section \<open>Pushing and removing\<close>

definition hs_push_frame :: "handler_frame \<Rightarrow> handler_stack \<Rightarrow> nat \<times> handler_stack" where
  "hs_push_frame f s =
     (hs_next s, s\<lparr>hs_next := Suc (hs_next s), hs_frames := hs_frames s @ [(hs_next s, f)]\<rparr>)"

definition hs_push :: "handler_entry list \<Rightarrow> rvalue option \<Rightarrow> handler_stack \<Rightarrow> nat \<times> handler_stack" where
  "hs_push es c = hs_push_frame \<lparr>hf_entries = es, hf_catch_all = c, hf_kind = WithinKind\<rparr>"

definition hs_push_alias :: "handler_entry list \<Rightarrow> handler_stack \<Rightarrow> nat \<times> handler_stack" where
  "hs_push_alias es = hs_push_frame \<lparr>hf_entries = es, hf_catch_all = None, hf_kind = AliasKind\<rparr>"

definition hs_over :: "native list \<Rightarrow> handler_frame list \<Rightarrow> handler_stack" where
  "hs_over base fs =
     fold (\<lambda>f s. snd (hs_push_frame f s)) fs \<lparr>hs_frames = [], hs_base = base, hs_next = 0\<rparr>"

text \<open>\<open>rposition\<close>: the last index whose element satisfies the test.\<close>

fun rposition :: "('a \<Rightarrow> bool) \<Rightarrow> 'a list \<Rightarrow> nat option" where
  "rposition P [] = None"
| "rposition P (x # xs) =
     (case rposition P xs of Some i \<Rightarrow> Some (Suc i) | None \<Rightarrow> if P x then Some 0 else None)"

definition remove_at :: "nat \<Rightarrow> 'a list \<Rightarrow> 'a list" where
  "remove_at i xs = take i xs @ drop (Suc i) xs"

definition hs_remove_where ::
  "(nat \<times> handler_frame \<Rightarrow> bool) \<Rightarrow> handler_stack \<Rightarrow> handler_frame option \<times> handler_stack" where
  "hs_remove_where P s =
     (case rposition P (hs_frames s) of
        None \<Rightarrow> (None, s)
      | Some i \<Rightarrow> (Some (snd (hs_frames s ! i)), s\<lparr>hs_frames := remove_at i (hs_frames s)\<rparr>))"

definition hs_remove_by_handle :: "nat \<Rightarrow> handler_stack \<Rightarrow> handler_frame option \<times> handler_stack" where
  "hs_remove_by_handle h = hs_remove_where (\<lambda>e. fst e = h)"

definition hs_remove_alias :: "bytes \<Rightarrow> handler_stack \<Rightarrow> handler_frame option \<times> handler_stack" where
  "hs_remove_alias n = hs_remove_where (\<lambda>e. is_alias_for n (snd e))"

text \<open>\<open>Shell::commit_alias\<close>: any alias of the name replaced.\<close>

definition commit_alias :: "handler_entry \<Rightarrow> handler_stack \<Rightarrow> nat \<times> handler_stack" where
  "commit_alias e s = hs_push_alias [e] (snd (hs_remove_alias (he_name e) s))"

section \<open>Lookup\<close>

definition named_entry :: "bytes \<Rightarrow> handler_frame \<Rightarrow> handler_entry option" where
  "named_entry n f = List.find (\<lambda>e. he_name e = n) (hf_entries f)"

text \<open>The first frame from the top that answers, with its depth from the top.\<close>

fun first_hit :: "(handler_frame \<Rightarrow> 'a option) \<Rightarrow> nat \<Rightarrow> handler_frame list \<Rightarrow> ('a \<times> nat) option" where
  "first_hit f d [] = None"
| "first_hit f d (x # xs) =
     (case f x of Some e \<Rightarrow> Some (e, Suc d) | None \<Rightarrow> first_hit f (Suc d) xs)"

definition hs_lookup :: "bytes \<Rightarrow> handler_stack \<Rightarrow> handler_lookup option" where
  "hs_lookup n s =
     (let tops = rev (map snd (hs_frames s)) in
      case first_hit (named_entry n) 0 tops of
        Some (e, d) \<Rightarrow> Some (FrameHit e d)
      | None \<Rightarrow>
          (case List.find (\<lambda>b. native_name b = n) (hs_base s) of
             Some b \<Rightarrow> Some (BaseHit b)
           | None \<Rightarrow>
               map_option
                 (\<lambda>(t, d). FrameHit
                    \<lparr>he_name = n, he_arity = CatchAll, he_thunk = t, he_scheme = None\<rparr> d)
                 (first_hit hf_catch_all 0 tops)))"

section \<open>Masking\<close>

text \<open>The frame at a depth lifted off; a depth past the stack panics.\<close>

definition hs_strip :: "nat \<Rightarrow> handler_stack \<Rightarrow> ((nat \<times> handler_frame) \<times> handler_stack) option" where
  "hs_strip d s =
     (let i = length (hs_frames s) - d in
      if d \<le> length (hs_frames s) \<and> i < length (hs_frames s)
      then Some (hs_frames s ! i, s\<lparr>hs_frames := remove_at i (hs_frames s)\<rparr>) else None)"

definition hs_restore :: "nat \<times> handler_frame \<Rightarrow> handler_stack \<Rightarrow> handler_stack" where
  "hs_restore f s =
     (let i = (case rposition (\<lambda>e. fst e < fst f) (hs_frames s) of Some j \<Rightarrow> Suc j | None \<Rightarrow> 0)
      in s\<lparr>hs_frames := take i (hs_frames s) @ f # drop i (hs_frames s)\<rparr>)"

definition alias_schemes :: "handler_stack \<Rightarrow> (bytes \<times> scheme) list" where
  "alias_schemes s =
     List.map_filter (\<lambda>e. map_option (Pair (he_name e)) (he_scheme e))
       (concat (map hf_entries (filter (\<lambda>f. hf_kind f = AliasKind) (map snd (hs_frames s)))))"

section \<open>Handles\<close>

definition handles :: "handler_stack \<Rightarrow> nat list" where
  "handles s = map fst (hs_frames s)"

definition stack_ok :: "handler_stack \<Rightarrow> bool" where
  "stack_ok s \<longleftrightarrow> sorted_wrt (<) (handles s) \<and> (\<forall>h\<in>set (handles s). h < hs_next s)"

lemma map_remove_at: "map f (remove_at i xs) = remove_at i (map f xs)"
  by (simp add: remove_at_def take_map drop_map)

lemma set_remove_at: "set (remove_at i xs) \<subseteq> set xs"
  by (auto simp: remove_at_def dest: in_set_takeD in_set_dropD)

lemma strict_remove_at: "sorted_wrt (<) xs \<Longrightarrow> sorted_wrt (<) (remove_at i (xs :: nat list))"
proof -
  assume "sorted_wrt (<) xs"
  then have "sorted_wrt (<) (take i xs @ drop i xs)" by simp
  then have "\<forall>x\<in>set (take i xs). \<forall>y\<in>set (drop i xs). x < y"
    unfolding sorted_wrt_append by blast
  moreover have "set (drop (Suc i) xs) \<subseteq> set (drop i xs)" by (simp add: set_drop_subset_set_drop)
  ultimately show ?thesis using \<open>sorted_wrt (<) xs\<close>
    unfolding remove_at_def sorted_wrt_append by (meson sorted_wrt_drop sorted_wrt_take subsetD)
qed

lemma stack_ok_push: "stack_ok s \<Longrightarrow> stack_ok (snd (hs_push_frame f s))"
  by (auto simp: stack_ok_def hs_push_frame_def handles_def sorted_wrt_append less_Suc_eq)

lemma stack_ok_remove: "stack_ok s \<Longrightarrow> stack_ok (snd (hs_remove_where P s))"
proof (cases "rposition P (hs_frames s)")
  case (Some i)
  assume "stack_ok s"
  then show ?thesis
    using Some set_remove_at [of i "map fst (hs_frames s)"] strict_remove_at [of "map fst (hs_frames s)" i]
    by (auto simp: stack_ok_def hs_remove_where_def handles_def map_remove_at)
qed (simp add: hs_remove_where_def)

lemma remove_at_missing: "sorted_wrt (<) xs \<Longrightarrow> i < length xs \<Longrightarrow> xs ! i \<notin> set (remove_at i (xs :: nat list))"
proof
  assume s: "sorted_wrt (<) xs" and i: "i < length xs" and "xs ! i \<in> set (remove_at i xs)"
  then consider "xs ! i \<in> set (take i xs)" | "xs ! i \<in> set (drop (Suc i) xs)"
    by (auto simp: remove_at_def)
  then show False
  proof cases
    case 1
    then obtain j where "j < i" "xs ! j = xs ! i" by (auto simp: in_set_conv_nth)
    with s i sorted_wrt_nth_less [OF s, of j i] show ?thesis by simp
  next
    case 2
    then obtain j where "j < length xs - Suc i" "xs ! (Suc i + j) = xs ! i" by (auto simp: in_set_conv_nth)
    moreover from this i have "Suc i + j < length xs" by linarith
    ultimately show ?thesis using sorted_wrt_nth_less [OF s, of i "Suc i + j"] by simp
  qed
qed

lemma stack_ok_strip:
  assumes "stack_ok s" and "hs_strip d s = Some (f, t)"
  shows "stack_ok t" and "fst f < hs_next t" and "fst f \<notin> set (handles t)"
    and "hs_next t = hs_next s" and "hs_base t = hs_base s"
    and "set (hs_frames s) = insert f (set (hs_frames t))"
proof -
  let ?i = "length (hs_frames s) - d"
  from assms(2) have i: "?i < length (hs_frames s)" and f: "f = hs_frames s ! ?i"
    and t: "t = s\<lparr>hs_frames := remove_at ?i (hs_frames s)\<rparr>"
    by (auto simp: hs_strip_def Let_def split: if_splits)
  have sorted: "sorted_wrt (<) (map fst (hs_frames s))"
    using assms(1) by (simp add: stack_ok_def handles_def)
  show "stack_ok t"
    using assms(1) strict_remove_at [OF sorted, of ?i] set_remove_at [of ?i "map fst (hs_frames s)"]
    by (auto simp: t stack_ok_def handles_def map_remove_at)
  show "fst f < hs_next t" using assms(1) i by (auto simp: f t stack_ok_def handles_def)
  show "fst f \<notin> set (handles t)"
    using remove_at_missing [OF sorted, of ?i] i by (simp add: f t handles_def map_remove_at)
  show "hs_next t = hs_next s" "hs_base t = hs_base s" by (simp_all add: t)
  show "set (hs_frames s) = insert f (set (hs_frames t))"
    using i by (simp add: t f remove_at_def)
      (metis (no_types, lifting) Un_insert_right append_take_drop_id Cons_nth_drop_Suc list.simps(15) set_append)
qed

section \<open>The lifted frame goes back to its place\<close>

lemma rposition_none: "\<forall>x\<in>set xs. \<not> P x \<Longrightarrow> rposition P xs = None"
  by (induction xs) auto

lemma rposition_prefix:
  "ordered m \<Longrightarrow> (case rposition (\<lambda>e. fst e < h) m of Some j \<Rightarrow> Suc j | None \<Rightarrow> 0)
     = length (filter (\<lambda>e. fst e < h) m)" for m :: "(nat \<times> 'a) list"
proof (induction m)
  case (Cons e m)
  obtain k x where e: "e = (k, x)" by fastforce
  show ?case
  proof (cases "k < h")
    case True
    with Cons show ?thesis by (auto simp: e split: option.splits)
  next
    case False
    then have none: "\<forall>d\<in>set m. \<not> fst d < h" using Cons.prems by (fastforce simp: e)
    then show ?thesis using False rposition_none [of m "\<lambda>e. fst e < h"] by (simp add: e filter_False)
  qed
qed simp

lemma take_below:
  "ordered m \<Longrightarrow> take (length (filter (\<lambda>e. fst e < h) m)) m @ (h, x) # drop (length (filter (\<lambda>e. fst e < h) m)) m
     = bt_insert h x m" if "h \<notin> fst ` set m" for m :: "(nat \<times> 'a) list"
  using that
proof (induction m)
  case (Cons e m)
  obtain k y where e: "e = (k, y)" by fastforce
  show ?case
  proof (cases "k < h")
    case True
    with Cons show ?thesis by (auto simp: e)
  next
    case False
    then have "h < k" using Cons.prems by (auto simp: e)
    then have "\<forall>d\<in>set m. \<not> fst d < h" using Cons.prems by (fastforce simp: e)
    with \<open>h < k\<close> show ?thesis by (simp add: e filter_False)
  qed
qed simp

lemma stack_ok_ordered: "stack_ok s \<Longrightarrow> ordered (hs_frames s)"
  by (simp add: stack_ok_def handles_def ordered_def)

lemma restore_inserts:
  "stack_ok s \<Longrightarrow> fst f \<notin> set (handles s) \<Longrightarrow>
     hs_restore f s = s\<lparr>hs_frames := bt_insert (fst f) (snd f) (hs_frames s)\<rparr>"
  using rposition_prefix [OF stack_ok_ordered, of s "fst f"] take_below [of "fst f" "hs_frames s" "snd f"]
  by (simp add: hs_restore_def handles_def stack_ok_ordered Let_def)

lemma stack_ok_restore:
  assumes "stack_ok s" and "fst f \<notin> set (handles s)" and "fst f < hs_next s"
  shows "stack_ok (hs_restore f s)"
  using assms ordered_insert [OF stack_ok_ordered [OF assms(1)], of "fst f" "snd f"]
  by (auto simp: restore_inserts stack_ok_def handles_def ordered_def)

text \<open>What is put back after a strip is the stack there was.\<close>

lemma restore_strip:
  assumes "stack_ok s" and "hs_strip d s = Some (f, t)"
  shows "hs_restore f t = s"
proof -
  note t = stack_ok_strip [OF assms]
  have absent: "fst f \<notin> fst ` set (hs_frames t)" using t(3) by (simp add: handles_def)
  have "bt_insert (fst f) (snd f) (hs_frames t) = hs_frames s"
    by (rule ordered_same_set)
       (simp_all add: stack_ok_ordered t assms(1) set_insert_absent [OF absent])
  then show ?thesis using t by (simp add: restore_inserts)
qed

end
