(* ===== verification/Shell_State.thy ===== *)
theory Shell_State
  imports Pure_Ops Handler_Stack Grant_Lattice
begin

text \<open>
  The state one evaluation works on (\<open>Shell\<close> of \<open>core/src/shell/runtime/state\<close>, its audit
  collector \<open>audit.rs\<close>, capture buffers of \<open>core/src/io/sink.rs\<close>), what the evaluator asks of code
  that is not modelled, and redirect scopes (\<open>core/src/shell/exec/redirect/scope.rs\<close>).  A scope, a
  cradle, an open file and an admission are known by number.  What an observation is belongs to the
  recorders: here it is the value its datum encodes to.
\<close>

section \<open>Results\<close>

text \<open>\<open>Settled\<close>, and the unwinding of a panic.\<close>

datatype 'a flow = Done 'a | Broke brk | Panicked

definition flow_of :: "brk + 'a \<Rightarrow> 'a flow" where
  "flow_of r = (case r of Inl b \<Rightarrow> Broke b | Inr x \<Rightarrow> Done x)"

definition raised :: "error + 'a \<Rightarrow> brk + 'a" where
  "raised r = map_sum ErrorB id r"

text \<open>\<open>?\<close> on a result: what follows, or the break with the state there is.\<close>

definition ensure :: "brk + 'a \<Rightarrow> 's \<Rightarrow> ('a \<Rightarrow> 'b flow \<times> 's) \<Rightarrow> 'b flow \<times> 's" where
  "ensure r s k = (case r of Inl b \<Rightarrow> (Broke b, s) | Inr x \<Rightarrow> k x)"

definition after :: "'a flow \<times> 's \<Rightarrow> ('a \<Rightarrow> 's \<Rightarrow> 'b flow \<times> 's) \<Rightarrow> 'b flow \<times> 's" where
  "after rs k =
     (case rs of (Done x, s) \<Rightarrow> k x s | (Broke b, s) \<Rightarrow> (Broke b, s) | (Panicked, s) \<Rightarrow> (Panicked, s))"

fun map_flow_brk :: "(brk \<Rightarrow> brk) \<Rightarrow> 'a flow \<Rightarrow> 'a flow" where
  "map_flow_brk f (Broke b) = Broke (f b)"
| "map_flow_brk f r = r"

section \<open>The audit collector\<close>

type_synonym observation = rvalue

datatype policy = PolicyOff | PolicyBytes

definition policy_max :: "policy \<Rightarrow> policy \<Rightarrow> policy" where
  "policy_max p q = (if p = PolicyBytes \<or> q = PolicyBytes then PolicyBytes else PolicyOff)"

record audit =
  trail :: "observation list option"
  capture_policy :: policy
  call_site :: prov

datatype trail_scope = TrailScope (ts_opened: bool) (ts_mark: nat) (ts_saved: policy)

definition audit_push :: "observation \<Rightarrow> audit \<Rightarrow> audit" where
  "audit_push obs a = a\<lparr>trail := map_option (\<lambda>t. t @ [obs]) (trail a)\<rparr>"

definition audit_open :: "policy \<Rightarrow> audit \<Rightarrow> trail_scope \<times> audit" where
  "audit_open p a =
     (let t = (case trail a of None \<Rightarrow> [] | Some t \<Rightarrow> t)
      in (TrailScope (trail a = None) (length t) (capture_policy a),
          a\<lparr>capture_policy := policy_max (capture_policy a) p, trail := Some t\<rparr>))"

text \<open>A slice past the end would panic; the trail only grows while a scope is open.\<close>

definition audit_close :: "trail_scope \<Rightarrow> audit \<Rightarrow> observation list \<times> audit" where
  "audit_close s a =
     (let b = a\<lparr>capture_policy := ts_saved s\<rparr>;
          t = (case trail a of None \<Rightarrow> [] | Some t \<Rightarrow> t)
      in if ts_opened s then (t, b\<lparr>trail := None\<rparr>) else (drop (ts_mark s) t, b))"

definition active_policy :: "audit \<Rightarrow> policy option" where
  "active_policy a = (if trail a = None then None else Some (capture_policy a))"

definition install_active_policy :: "policy option \<Rightarrow> audit \<Rightarrow> audit" where
  "install_active_policy p a =
     (case p of
        None \<Rightarrow> a
      | Some q \<Rightarrow>
          a\<lparr>trail := Some (case trail a of None \<Rightarrow> [] | Some t \<Rightarrow> t), capture_policy := q\<rparr>)"

definition take_fragment :: "audit \<Rightarrow> observation list \<times> audit" where
  "take_fragment a =
     (case trail a of None \<Rightarrow> ([], a) | Some t \<Rightarrow> (t, a\<lparr>trail := Some []\<rparr>))"

section \<open>Captured bytes\<close>

datatype sink = TerminalSink | StderrSink | BufferSink nat | FileSink nat | OtherSink nat

record captured =
  cap_bytes :: bytes
  cap_total :: nat

definition sink_buffer_cap :: nat where
  "sink_buffer_cap = 16 * 1024 * 1024"

definition trunc_marker :: bytes where
  "trunc_marker =
     [CHR 0x0A] @ ''[ral: buffer exceeded 16 MiB; remaining output dropped]'' @ [CHR 0x0A]"

definition captured_new :: captured where
  "captured_new = \<lparr>cap_bytes = [], cap_total = 0\<rparr>"

definition captured_append :: "bytes \<Rightarrow> captured \<Rightarrow> captured" where
  "captured_append b c =
     (let cur = length (cap_bytes c);
          keep = min (length b) (sink_buffer_cap - cur);
          kept = (if cur \<le> sink_buffer_cap
                  then cap_bytes c @ take keep b @ (if keep < length b then trunc_marker else [])
                  else cap_bytes c)
      in \<lparr>cap_bytes = kept, cap_total = cap_total c + length b\<rparr>)"

definition captured_take :: "captured \<Rightarrow> bytes \<times> captured" where
  "captured_take c = (cap_bytes c, c\<lparr>cap_bytes := []\<rparr>)"

definition overflowed :: "captured \<Rightarrow> bool" where
  "overflowed c \<longleftrightarrow> sink_buffer_cap < cap_total c"

section \<open>The state\<close>

text \<open>Buffers are shared: a sink names one by its address in \<open>sh_buffers\<close>.\<close>

record 'w shell_state =
  sh_env :: env
  sh_sig :: signature
  sh_overrides :: "(bytes \<times> bytes) list"
  sh_cwd :: bytes
  sh_grants :: grant_stack
  sh_handlers :: handler_stack
  sh_stdout :: sink
  sh_stderr :: sink
  sh_buffers :: "captured list"
  sh_scope :: nat
  sh_sources :: nat
  sh_stack_limit :: nat
  sh_audit :: audit
  sh_cradle :: nat
  sh_depth :: nat
  sh_world :: 'w

section \<open>Code that is not modelled\<close>

text \<open>
  Each field is one call the evaluator makes: the poll of the current scope; a builtin's body; the
  resolution and admission of an external and its run; a pipeline; a worker; the brood of a
  \<open>gather\<close>; the shield of a cleanup; the decoding of a grant; the checker's vetting of a handler
  arm; the walk to a directory; admission of a value at a site; the files of a redirect; the record
  of an error.
\<close>

record 'w outside =
  o_texts :: texts
  o_poll :: "'w shell_state \<Rightarrow> brk option"
  o_body :: "native \<Rightarrow> rvalue list \<Rightarrow> site option \<Rightarrow> 'w shell_state \<Rightarrow> rvalue flow \<times> 'w shell_state"
  o_admit :: "command_name \<Rightarrow> 'w shell_state \<Rightarrow> nat flow \<times> 'w shell_state"
  o_external :: "nat \<Rightarrow> rvalue list \<Rightarrow> 'w shell_state \<Rightarrow> rvalue flow \<times> 'w shell_state"
  o_pipeline :: "comp list \<Rightarrow> env \<Rightarrow> 'w shell_state \<Rightarrow> rvalue flow \<times> 'w shell_state"
  o_title :: "rvalue \<Rightarrow> brk + bytes"
  o_spawn :: "bytes option \<Rightarrow> rvalue \<Rightarrow> 'w shell_state \<Rightarrow> rvalue flow \<times> 'w shell_state"
  o_owner :: "'w shell_state \<Rightarrow> nat \<times> 'w shell_state"
  o_cradle :: "nat \<Rightarrow> nat \<Rightarrow> nat"
  o_exit_brood :: "nat \<Rightarrow> brk + rvalue \<Rightarrow> 'w shell_state \<Rightarrow> rvalue flow \<times> 'w shell_state"
  o_end_brood :: "nat \<Rightarrow> 'w shell_state \<Rightarrow> 'w shell_state"
  o_drop_owner :: "nat \<Rightarrow> 'w shell_state \<Rightarrow> 'w shell_state"
  o_shield :: "nat \<Rightarrow> nat"
  o_grant :: "rvalue \<Rightarrow> 'w shell_state \<Rightarrow> brk + grant_layer"
  o_deputy :: "'w shell_state \<Rightarrow> 'w shell_state"
  o_arm :: "bytes \<Rightarrow> rvalue \<Rightarrow> 'w shell_state \<Rightarrow> brk + scheme option"
  o_catch_all :: "rvalue \<Rightarrow> 'w shell_state \<Rightarrow> brk + unit"
  o_dir :: "bytes \<Rightarrow> 'w shell_state \<Rightarrow> bytes flow \<times> 'w shell_state"
  o_admitted :: "site \<Rightarrow> rvalue \<Rightarrow> 'w shell_state \<Rightarrow> rvalue flow \<times> 'w shell_state"
  o_stdin :: "bytes stdin_source option \<Rightarrow> 'w shell_state \<Rightarrow> nat flow \<times> 'w shell_state"
  o_restore_stdin :: "nat \<Rightarrow> 'w shell_state \<Rightarrow> 'w shell_state"
  o_open_write :: "write_mode \<Rightarrow> bytes \<Rightarrow> 'w shell_state \<Rightarrow> (nat \<times> nat option) flow \<times> 'w shell_state"
  o_flush :: "'w shell_state \<Rightarrow> 'w shell_state"
  o_settle :: "nat list \<Rightarrow> bool \<Rightarrow> 'w shell_state \<Rightarrow> unit flow \<times> 'w shell_state"
  o_drop_writes :: "nat list \<Rightarrow> 'w shell_state \<Rightarrow> 'w shell_state"
  o_record :: "error \<Rightarrow> prov \<Rightarrow> 'w shell_state \<Rightarrow> rvalue"
  o_home :: "'w shell_state \<Rightarrow> bytes option"
  o_shown :: "tilde_path \<Rightarrow> bytes \<Rightarrow> bytes"
  o_note_define :: "name \<Rightarrow> binding \<Rightarrow> 'w shell_state \<Rightarrow> 'w shell_state"

definition poll :: "'w outside \<Rightarrow> 'w shell_state \<Rightarrow> brk + unit" where
  "poll out sh = (case o_poll out sh of Some b \<Rightarrow> Inl b | None \<Rightarrow> Inr ())"

section \<open>The dispatch register\<close>

text \<open>\<open>Shell::enter_frame\<close>: the site displaced, unless the span is outside the session's sources.\<close>

definition enter_frame ::
  "bytes \<Rightarrow> span option \<Rightarrow> 'w shell_state \<Rightarrow> prov option \<times> 'w shell_state" where
  "enter_frame name sp sh =
     (case resolvable (sh_sources sh) sp of
        None \<Rightarrow> (None, sh)
      | Some s \<Rightarrow>
          (Some (call_site (sh_audit sh)), sh\<lparr>sh_audit := (sh_audit sh)\<lparr>call_site := Live name s\<rparr>\<rparr>))"

definition restore_site :: "prov \<Rightarrow> 'w shell_state \<Rightarrow> 'w shell_state" where
  "restore_site p sh = sh\<lparr>sh_audit := (sh_audit sh)\<lparr>call_site := p\<rparr>\<rparr>"

definition restore_displaced :: "prov option \<Rightarrow> 'w shell_state \<Rightarrow> 'w shell_state" where
  "restore_displaced p sh = (case p of None \<Rightarrow> sh | Some q \<Rightarrow> restore_site q sh)"

definition at_site ::
  "bytes \<Rightarrow> span option \<Rightarrow> ('w shell_state \<Rightarrow> 'a flow \<times> 'w shell_state) \<Rightarrow> 'w shell_state \<Rightarrow>
     'a flow \<times> 'w shell_state" where
  "at_site name sp f sh =
     (let (saved, sh1) = enter_frame name sp sh;
          (r, sh2) = f sh1
      in (r, restore_displaced saved sh2))"

definition locating ::
  "bytes \<Rightarrow> span option \<Rightarrow> 'a flow \<times> 'w shell_state \<Rightarrow> 'a flow \<times> 'w shell_state" where
  "locating name sp rs = (map_flow_brk (locate name sp (sh_sources (snd rs))) (fst rs), snd rs)"

section \<open>Redirects\<close>

record redirect_state =
  rs_stdin :: nat
  rs_stdout :: "sink option"
  rs_stderr :: "sink option"
  rs_intents :: "nat list"
  rs_span :: "span option"

definition open_sink ::
  "'w outside \<Rightarrow> write_mode \<Rightarrow> bytes \<Rightarrow> nat list \<Rightarrow> 'w shell_state \<Rightarrow> (sink \<times> nat list) flow \<times> 'w shell_state" where
  "open_sink out mode path intents sh =
     after (o_open_write out mode path sh) (\<lambda>(f, opened) sh.
       (Done (FileSink f, intents @ list_of_option opened), sh))"

text \<open>
  \<open>install_sink_redirects\<close>: on an error the intents opened so far are left for the caller to abort.
\<close>

definition open_sinks ::
  "'w outside \<Rightarrow> bytes redirects \<Rightarrow> 'w shell_state \<Rightarrow>
     nat list \<times> (sink option \<times> sink option) flow \<times> 'w shell_state" where
  "open_sinks out r sh =
     (let (res, sh1) =
        (case rd_stdout r of
           None \<Rightarrow> (Done (None, []), sh)
         | Some (mode, path) \<Rightarrow>
             after (open_sink out mode path [] sh) (\<lambda>(s, is) sh. (Done (Some s, is), sh)))
      in case res of
           Broke b \<Rightarrow> ([], Broke b, sh1)
         | Panicked \<Rightarrow> ([], Panicked, sh1)
         | Done (stdout, intents) \<Rightarrow>
             (case rd_stderr r of
                Some (FileTarget mode path) \<Rightarrow>
                  (case open_sink out mode path intents sh1 of
                     (Done (s, is), sh2) \<Rightarrow> (is, Done (stdout, Some s), sh2)
                   | (Broke b, sh2) \<Rightarrow> (intents, Broke b, sh2)
                   | (Panicked, sh2) \<Rightarrow> (intents, Panicked, sh2))
              | Some StdoutTarget \<Rightarrow>
                  (intents,
                   Done (stdout, Some (case stdout of Some s \<Rightarrow> s | None \<Rightarrow> sh_stdout sh1)), sh1)
              | None \<Rightarrow> (intents, Done (stdout, None), sh1)))"

definition install_sinks ::
  "sink option \<Rightarrow> sink option \<Rightarrow> 'w shell_state \<Rightarrow> (sink option \<times> sink option) \<times> 'w shell_state" where
  "install_sinks so se sh =
     ((map_option (\<lambda>_. sh_stdout sh) so, map_option (\<lambda>_. sh_stderr sh) se),
      sh\<lparr>sh_stdout := (case so of Some s \<Rightarrow> s | None \<Rightarrow> sh_stdout sh),
         sh_stderr := (case se of Some s \<Rightarrow> s | None \<Rightarrow> sh_stderr sh)\<rparr>)"

definition redirect_open ::
  "'w outside \<Rightarrow> bytes redirects \<Rightarrow> span option \<Rightarrow> 'w shell_state \<Rightarrow> redirect_state flow \<times> 'w shell_state" where
  "redirect_open out r sp sh =
     after (o_stdin out (rd_stdin r) sh) (\<lambda>guard sh.
       (case open_sinks out r sh of
          (intents, Done (so, se), sh) \<Rightarrow>
            (let ((po, pe), sh) = install_sinks so se sh
             in (Done \<lparr>rs_stdin = guard, rs_stdout = po, rs_stderr = pe, rs_intents = intents,
                  rs_span = sp\<rparr>, sh))
        | (intents, Broke b, sh) \<Rightarrow>
            (Broke b, o_restore_stdin out guard (snd (o_settle out intents False sh)))
        | (intents, Panicked, sh) \<Rightarrow> (Panicked, sh)))"

definition redirect_enter ::
  "'w outside \<Rightarrow> bytes redirects \<Rightarrow> span option \<Rightarrow> 'w shell_state \<Rightarrow> redirect_state flow \<times> 'w shell_state" where
  "redirect_enter out r sp =
     at_site ''redirect'' sp (\<lambda>sh. locating ''redirect'' sp (redirect_open out r sp sh))"

definition tear_down :: "'w outside \<Rightarrow> redirect_state \<Rightarrow> 'w shell_state \<Rightarrow> 'w shell_state" where
  "tear_down out rs sh =
     (let sh = o_flush out sh in
      o_restore_stdin out (rs_stdin rs)
        (sh\<lparr>sh_stdout := (case rs_stdout rs of Some s \<Rightarrow> s | None \<Rightarrow> sh_stdout sh),
            sh_stderr := (case rs_stderr rs of Some s \<Rightarrow> s | None \<Rightarrow> sh_stderr sh)\<rparr>))"

text \<open>The writes are published when \<open>commit\<close>, dropped otherwise.\<close>

definition redirect_leave ::
  "'w outside \<Rightarrow> redirect_state \<Rightarrow> bool \<Rightarrow> 'w shell_state \<Rightarrow> unit flow \<times> 'w shell_state" where
  "redirect_leave out rs commit sh =
     at_site ''redirect'' (rs_span rs)
       (\<lambda>sh. locating ''redirect'' (rs_span rs) (o_settle out (rs_intents rs) commit sh))
       (tear_down out rs sh)"

definition redirect_abandon :: "'w outside \<Rightarrow> redirect_state \<Rightarrow> 'w shell_state \<Rightarrow> 'w shell_state" where
  "redirect_abandon out rs sh = o_drop_writes out (rs_intents rs) (tear_down out rs sh)"

definition redirects_empty :: "'t redirects \<Rightarrow> bool" where
  "redirects_empty r \<longleftrightarrow> rd_stdin r = None \<and> rd_stdout r = None \<and> rd_stderr r = None"

text \<open>A synchronous call under redirects; the body's own break outranks a failed commit.\<close>

definition with_redirects ::
  "'w outside \<Rightarrow> bytes redirects \<Rightarrow> span option \<Rightarrow> ('w shell_state \<Rightarrow> rvalue flow \<times> 'w shell_state) \<Rightarrow>
     'w shell_state \<Rightarrow> rvalue flow \<times> 'w shell_state" where
  "with_redirects out r sp body sh =
     (if redirects_empty r then body sh
      else after (redirect_enter out r sp sh) (\<lambda>rs sh.
        (case body sh of
           (Panicked, sh) \<Rightarrow> (Panicked, redirect_abandon out rs sh)
         | (Broke b, sh) \<Rightarrow>
             (case redirect_leave out rs False sh of
                (Panicked, sh) \<Rightarrow> (Panicked, sh) | (_, sh) \<Rightarrow> (Broke b, sh))
         | (Done v, sh) \<Rightarrow> after (redirect_leave out rs True sh) (\<lambda>_ sh. (Done v, sh)))))"

end
