(* ===== verification/Machine.thy ===== *)
theory Machine
  imports Shell_State
begin

text \<open>
  The machine that evaluates a computation (\<open>core/src/shell/evaluator/machine.rs\<close>): a focus and a
  stack of frames, one transition.  A rule works on the stack and the shell state and answers the
  next focus, a break that becomes the focus, or a panic, which unwinds the stack.  The scope
  options of \<open>within\<close> are \<open>evaluator/scope.rs\<close>, the resolution of a command and the doors of its
  arms \<open>core/src/shell/exec/dispatch.rs\<close>, a builtin's call frame \<open>runtime/builtin.rs\<close>.
\<close>

section \<open>Focus and frames\<close>

datatype terminal = ValueT rvalue | LambdaT comp env

datatype focus = Eval comp env | ReturnF terminal | HaltF brk

record within_undo =
  wu_env :: "(bytes \<times> bytes) list option"
  wu_cwd :: "bytes option"
  wu_handlers :: "nat option"

datatype frame =
  CallSite prov
| ToF comp env
| SeqF comp env "span option"
| ArgF rvalue "span option"
| CaptureF sink nat "span option"
| RedirectF redirect_state
| UnmaskF "nat \<times> handler_frame"
| TryF rvalue "span option"
| GuardF rvalue "span option"
| ProtectF site "span option"
| CleanupF "brk + rvalue" nat
| WithinF within_undo
| GrantF nat
| AuditF trail_scope "span option"
| GatherF nat nat "span option"

type_synonym 'w conf = "frame list \<times> 'w shell_state"

definition on_shell ::
  "('w shell_state \<Rightarrow> 'a flow \<times> 'w shell_state) \<Rightarrow> 'w conf \<Rightarrow> 'a flow \<times> 'w conf" where
  "on_shell f s = (let (r, sh) = f (snd s) in (r, (fst s, sh)))"

definition on_conf :: "('w shell_state \<Rightarrow> 'w shell_state) \<Rightarrow> 'w conf \<Rightarrow> 'w conf" where
  "on_conf f s = (fst s, f (snd s))"

definition located ::
  "bytes \<Rightarrow> span option \<Rightarrow> 'a flow \<times> 'w conf \<Rightarrow> 'a flow \<times> 'w conf" where
  "located name sp rs = (map_flow_brk (locate name sp (sh_sources (snd (snd rs)))) (fst rs), snd rs)"

section \<open>Small helpers\<close>

fun arith_symbol :: "arith_op \<Rightarrow> bytes" where
  "arith_symbol Add = ''+''" | "arith_symbol Sub = ''-''" | "arith_symbol Mul = ''*''"
| "arith_symbol Div = ''/''" | "arith_symbol Mod = ''%''"

fun compare_symbol :: "compare_op \<Rightarrow> bytes" where
  "compare_symbol Lt = ''<''" | "compare_symbol Gt = ''>''"
| "compare_symbol Le = ''<=''" | "compare_symbol Ge = ''>=''"

fun op_symbol :: "binary_op \<Rightarrow> bytes" where
  "op_symbol (ArithOp a) = arith_symbol a"
| "op_symbol (CompareOp c) = compare_symbol c"
| "op_symbol (EqOp Eq) = ''==''"
| "op_symbol (EqOp Ne) = ''!=''"

fun prim_name :: "'v prim \<Rightarrow> bytes" where
  "prim_name (Binary op _ _) = op_symbol op"
| "prim_name (Negate _) = ''-''"
| "prim_name (Not _) = ''not''"
| "prim_name (Render _) = ''str''"
| "prim_name (Concat _) = ''concat''"
| "prim_name (Decode _) = ''decode''"
| "prim_name (Index _ _) = ''index''"
| "prim_name (Update _ _) = ''update''"
| "prim_name (ListPrim _) = ''list''"
| "prim_name (MapPrim _) = ''map''"

fun operation_name :: "comp_kind \<Rightarrow> bytes option" where
  "operation_name (ExecC _) = None"
| "operation_name (App _ _) = None"
| "operation_name (Force _) = None"
| "operation_name (Prim p) = Some (prim_name p)"
| "operation_name (NativeC n _) = Some (native_name n)"
| "operation_name (Protect _ _) = Some ''decode''"
| "operation_name (Return _) = Some ''return''"
| "operation_name (Lam _ _) = Some ''lambda''"
| "operation_name (Bind _ _ _) = Some ''let''"
| "operation_name (Seq _ _) = Some ''sequence''"
| "operation_name (Rec _ _) = Some ''rec''"
| "operation_name (If _ _ _) = Some ''if''"
| "operation_name (Case _ _) = Some ''case''"
| "operation_name (Try _ _) = Some ''try''"
| "operation_name (Guard _ _) = Some ''guard''"
| "operation_name (Capture _) = Some ''capture''"
| "operation_name (Pipeline _) = Some ''pipeline''"
| "operation_name (RedirectC _ _) = Some ''redirect''"
| "operation_name (WithinC _ _ _) = Some ''within''"
| "operation_name (Grant _ _) = Some ''grant''"
| "operation_name (Spawn _ _) = Some ''spawn''"
| "operation_name (Gather _) = Some ''gather''"
| "operation_name (Audit _) = Some ''audit''"
| "operation_name (Tilde _) = Some ''~''"

fun forced_name :: "val \<Rightarrow> name option" where
  "forced_name (Protected v _) = forced_name v"
| "forced_name (Variable n) = (if is_synthetic n then None else Some n)"
| "forced_name _ = None"

definition mfail :: "machine_complaint \<Rightarrow> brk" where
  "mfail c = sig (OfMachine c)"

fun as_value :: "terminal \<Rightarrow> brk + rvalue" where
  "as_value (ValueT v) = Inr v"
| "as_value (LambdaT _ _) = Inl (mfail BareLambda)"

definition native_code :: "native \<Rightarrow> span option \<Rightarrow> comp" where
  "native_code n sp =
     (let params = map (synthetic_name ''native'') [0..<native_arity n];
          call = NativeC n (map Variable params)
      in Spanned (foldr (\<lambda>p body. Lam p (synthetic body)) params call) sp)"

text \<open>A body with no span of its own runs where it was called.\<close>

definition located_comp :: "comp \<Rightarrow> span option \<Rightarrow> comp" where
  "located_comp body sp =
     (if span_of body = None \<and> sp \<noteq> None then Spanned (item body) sp else body)"

fun close_argv :: "env \<Rightarrow> signature \<Rightarrow> val elem list \<Rightarrow> error + rvalue list" where
  "close_argv \<rho> \<Sigma> [] = Inr []"
| "close_argv \<rho> \<Sigma> (Single v # es) =
     (case form \<rho> \<Sigma> (item v) of Inl e \<Rightarrow> Inl e | Inr x \<Rightarrow> map_sum id (Cons x) (close_argv \<rho> \<Sigma> es))"
| "close_argv \<rho> \<Sigma> (Spread v # es) =
     (case form \<rho> \<Sigma> (item v) of
        Inl e \<Rightarrow> Inl e
      | Inr x \<Rightarrow>
          (case spread_list x of
             Inl e \<Rightarrow> Inl e
           | Inr l \<Rightarrow> map_sum id (\<lambda>vs. list_items l @ vs) (close_argv \<rho> \<Sigma> es)))"

text \<open>\<open>Redirects::try_map\<close>: the operands in opening order, the first error stopping it.\<close>

fun try_source :: "('t \<Rightarrow> 'e + 'u) \<Rightarrow> 't stdin_source \<Rightarrow> 'e + 'u stdin_source" where
  "try_source f (FileSource t) = map_sum id FileSource (f t)"
| "try_source f (HereSource t) = map_sum id HereSource (f t)"

fun try_target :: "('t \<Rightarrow> 'e + 'u) \<Rightarrow> 't stderr_target \<Rightarrow> 'e + 'u stderr_target" where
  "try_target f (FileTarget m t) = map_sum id (FileTarget m) (f t)"
| "try_target f StdoutTarget = Inr StdoutTarget"

fun try_option :: "('t \<Rightarrow> 'e + 'u) \<Rightarrow> 't option \<Rightarrow> 'e + 'u option" where
  "try_option f None = Inr None"
| "try_option f (Some t) = map_sum id Some (f t)"

definition try_redirects :: "('t \<Rightarrow> 'e + 'u) \<Rightarrow> 't redirects \<Rightarrow> 'e + 'u redirects" where
  "try_redirects f r =
     (case try_option (try_source f) (rd_stdin r) of
        Inl e \<Rightarrow> Inl e
      | Inr i \<Rightarrow>
          (case try_option (\<lambda>(m, t). map_sum id (Pair m) (f t)) (rd_stdout r) of
             Inl e \<Rightarrow> Inl e
           | Inr so \<Rightarrow> map_sum id (Redirects i so) (try_option (try_target f) (rd_stderr r))))"

definition close_redirects ::
  "texts \<Rightarrow> env \<Rightarrow> signature \<Rightarrow> val redirects \<Rightarrow> error + bytes redirects" where
  "close_redirects t \<rho> \<Sigma> = try_redirects (\<lambda>v. map_sum id (text_of t) (form \<rho> \<Sigma> v))"

definition render_handler_args :: "texts \<Rightarrow> bytes \<Rightarrow> handler_arity \<Rightarrow> rvalue list \<Rightarrow> rvalue list" where
  "render_handler_args t name arity argv =
     (let argl = ListVal (BuiltList (map StringVal (render_argv t argv)))
      in case arity of CatchAll \<Rightarrow> [StringVal name, argl] | Unary \<Rightarrow> [argl])"

section \<open>The stack\<close>

fun is_call_site :: "frame \<Rightarrow> bool" where
  "is_call_site (CallSite _) = True"
| "is_call_site _ = False"

text \<open>Provenance frames do not consume the computational stack budget.\<close>

definition comp_frames :: "frame list \<Rightarrow> nat" where
  "comp_frames st = length (filter (\<lambda>f. \<not> is_call_site f) st)"

definition room :: "nat \<Rightarrow> 'w conf \<Rightarrow> brk + unit" where
  "room n s =
     (if comp_frames (fst s) + n > sh_stack_limit (snd s)
      then Inl (mfail (RecursionLimit (sh_stack_limit (snd s)))) else Inr ())"

definition push_frame :: "frame \<Rightarrow> 'w conf \<Rightarrow> 'w conf" where
  "push_frame f s = (f # fst s, snd s)"

text \<open>\<open>reserve(..)?.push(frame)\<close>: the cap is checked before any effect.\<close>

definition reserve_push :: "frame \<Rightarrow> 'w conf \<Rightarrow> unit flow \<times> 'w conf" where
  "reserve_push f s = ensure (room 1 s) s (\<lambda>_. (Done (), push_frame f s))"

definition push_args :: "rvalue list \<Rightarrow> span option \<Rightarrow> 'w conf \<Rightarrow> unit flow \<times> 'w conf" where
  "push_args args sp s =
     ensure (room (length args) s) s (\<lambda>_. (Done (), (map (\<lambda>v. ArgF v sp) args @ fst s, snd s)))"

section \<open>Call and force\<close>

definition enter_call :: "bytes \<Rightarrow> span option \<Rightarrow> 'w conf \<Rightarrow> 'w conf" where
  "enter_call name sp s =
     (case enter_frame name sp (snd s) of
        (None, sh) \<Rightarrow> (fst s, sh)
      | (Some p, sh) \<Rightarrow>
          (case fst s of
             CallSite q # st \<Rightarrow> (CallSite q # st, sh)
           | st \<Rightarrow> (CallSite p # st, sh)))"

fun force :: "rvalue \<Rightarrow> span option \<Rightarrow> brk + focus" where
  "force (ThunkVal c \<rho>) sp = Inr (Eval c \<rho>)"
| "force (NativeVal n) sp = Inr (Eval (native_code n sp) env_new)"
| "force v sp = Inl (mfail (CannotForce (type_name v)))"

definition forcing :: "rvalue \<Rightarrow> span option \<Rightarrow> 'w conf \<Rightarrow> focus flow \<times> 'w conf" where
  "forcing v sp s = (flow_of (force v sp), s)"

definition call :: "rvalue \<Rightarrow> rvalue list \<Rightarrow> span option \<Rightarrow> 'w conf \<Rightarrow> focus flow \<times> 'w conf" where
  "call f args sp s = after (push_args args sp s) (\<lambda>_ s. forcing f sp s)"

fun force_val :: "val \<Rightarrow> env \<Rightarrow> span option \<Rightarrow> signature \<Rightarrow> brk + focus" where
  "force_val (Thunk c) \<rho> sp \<Sigma> = Inr (Eval c \<rho>)"
| "force_val v \<rho> sp \<Sigma> = (case form \<rho> \<Sigma> v of Inl e \<Rightarrow> Inl (ErrorB e) | Inr x \<Rightarrow> force x sp)"

definition push_redirect ::
  "'w outside \<Rightarrow> bytes redirects \<Rightarrow> span option \<Rightarrow> 'w conf \<Rightarrow> unit flow \<times> 'w conf" where
  "push_redirect out r sp s =
     (if redirects_empty r then (Done (), s)
      else ensure (room 1 s) s (\<lambda>_.
        after (on_shell (redirect_enter out r sp) s) (\<lambda>rs s. (Done (), push_frame (RedirectF rs) s))))"

section \<open>Builtins and externals\<close>

text \<open>\<open>call_body\<close>: the declared scheme decides what the body settles at.\<close>

definition call_body ::
  "'w outside \<Rightarrow> native \<Rightarrow> rvalue list \<Rightarrow> site option \<Rightarrow> 'w shell_state \<Rightarrow> rvalue flow \<times> 'w shell_state" where
  "call_body out n args site sh =
     (if native_boundary n \<and> site = None
      then (Broke (mfail (NoCheckedSite (native_name n))), sh)
      else after (o_body out n args site sh)
        (\<lambda>v sh. (Done (if native_unit n then UnitVal else v), sh)))"

definition framed ::
  "native \<Rightarrow> span option \<Rightarrow> ('w shell_state \<Rightarrow> rvalue flow \<times> 'w shell_state) \<Rightarrow>
     'w shell_state \<Rightarrow> rvalue flow \<times> 'w shell_state" where
  "framed n sp f = at_site (native_name n) sp (\<lambda>sh. locating (native_name n) sp (f sh))"

definition run_native ::
  "'w outside \<Rightarrow> native \<Rightarrow> rvalue list \<Rightarrow> site option \<Rightarrow> span option \<Rightarrow>
     'w shell_state \<Rightarrow> rvalue flow \<times> 'w shell_state" where
  "run_native out n args site sp = framed n sp (call_body out n args site)"

definition run_boundary ::
  "'w outside \<Rightarrow> native \<Rightarrow> rvalue list \<Rightarrow> site option \<Rightarrow> span option \<Rightarrow>
     'w shell_state \<Rightarrow> rvalue flow \<times> 'w shell_state" where
  "run_boundary out n argv site sp sh =
     (if length argv \<noteq> native_arity n
      then (Broke (mfail (BoundaryArity (native_name n) (native_arity n) (length argv))), sh)
      else run_native out n argv site sp sh)"

definition run_base_frame ::
  "'w outside \<Rightarrow> native \<Rightarrow> rvalue list \<Rightarrow> bytes redirects \<Rightarrow> span option \<Rightarrow>
     'w shell_state \<Rightarrow> rvalue flow \<times> 'w shell_state" where
  "run_base_frame out n args r sp =
     framed n sp (with_redirects out r sp (call_body out n args None))"

text \<open>An external's door; the tee and the observation it settles are the recorder's.\<close>

definition command_text :: "command_name \<Rightarrow> bytes" where
  "command_text n =
     (case n of
        Bare s \<Rightarrow> s
      | PathName s \<Rightarrow> s
      | TildeName p \<Rightarrow> CHR ''~'' # (case suffix p of Some s \<Rightarrow> s | None \<Rightarrow> []))"

definition run_external ::
  "'w outside \<Rightarrow> command_name \<Rightarrow> nat \<Rightarrow> rvalue list \<Rightarrow> bytes redirects \<Rightarrow> span option \<Rightarrow>
     'w shell_state \<Rightarrow> rvalue flow \<times> 'w shell_state" where
  "run_external out name adm args r sp =
     at_site (command_text name) sp (\<lambda>sh.
       locating (command_text name) sp (with_redirects out r sp (o_external out adm args) sh))"

datatype resolution =
  EnvR rvalue | HandlerR handler_entry nat | BaseR native | ExternalR command_name

definition resolve :: "name \<Rightarrow> env \<Rightarrow> 'w shell_state \<Rightarrow> resolution" where
  "resolve n \<rho> sh =
     (case lookup n \<rho> (sh_sig sh) of
        Some v \<Rightarrow> EnvR v
      | None \<Rightarrow>
          (case hs_lookup n (sh_handlers sh) of
             Some (FrameHit e d) \<Rightarrow> HandlerR e d
           | Some (BaseHit b) \<Rightarrow> BaseR b
           | None \<Rightarrow> ExternalR (Bare n)))"

definition resolve_command_word :: "command_word \<Rightarrow> env \<Rightarrow> 'w shell_state \<Rightarrow> resolution" where
  "resolve_command_word w \<rho> sh =
     (case w of
        NameWord (Bare n) \<Rightarrow> resolve n \<rho> sh
      | NameWord n \<Rightarrow> ExternalR n
      | ExternalWord n \<Rightarrow> ExternalR n)"

section \<open>Dispatch\<close>

definition returned :: "rvalue flow \<times> 'w conf \<Rightarrow> focus flow \<times> 'w conf" where
  "returned rs = after rs (\<lambda>v s. (Done (ReturnF (ValueT v)), s))"

text \<open>The matched frame is lifted off while its arm runs.\<close>

definition run_handler ::
  "'w outside \<Rightarrow> handler_entry \<Rightarrow> nat \<Rightarrow> rvalue list \<Rightarrow> span option \<Rightarrow> 'w conf \<Rightarrow> focus flow \<times> 'w conf" where
  "run_handler out e d argv sp s =
     ensure (room 1 s) s (\<lambda>_.
       (case hs_strip d (sh_handlers (snd s)) of
          None \<Rightarrow> (Panicked, s)
        | Some (f, hs) \<Rightarrow>
            call (he_thunk e) (render_handler_args (o_texts out) (he_name e) (he_arity e) argv) sp
              (push_frame (UnmaskF f) (fst s, (snd s)\<lparr>sh_handlers := hs\<rparr>))))"

definition run_resolution ::
  "'w outside \<Rightarrow> site option \<Rightarrow> resolution \<Rightarrow> rvalue list \<Rightarrow> bytes redirects \<Rightarrow> span option \<Rightarrow>
     'w conf \<Rightarrow> focus flow \<times> 'w conf" where
  "run_resolution out site res argv r sp s =
     (case res of
        EnvR v \<Rightarrow>
          after (push_redirect out r sp s) (\<lambda>_ s.
            (case v of
               NativeVal n \<Rightarrow>
                 if native_boundary n then returned (on_shell (run_boundary out n argv site sp) s)
                 else if length argv = native_arity n
                 then returned (on_shell (run_native out n argv None sp) s)
                 else call v argv sp s
             | _ \<Rightarrow> call v argv sp s))
      | HandlerR e d \<Rightarrow> after (push_redirect out r sp s) (\<lambda>_ s. run_handler out e d argv sp s)
      | BaseR n \<Rightarrow> returned (on_shell (run_base_frame out n argv r sp) s)
      | ExternalR name \<Rightarrow>
          after (on_shell (o_admit out name) s) (\<lambda>adm s.
            returned (on_shell (run_external out name adm argv r sp) s)))"

definition dispatch_exec ::
  "'w outside \<Rightarrow> val exec \<Rightarrow> span option \<Rightarrow> env \<Rightarrow> 'w conf \<Rightarrow> focus flow \<times> 'w conf" where
  "dispatch_exec out x sp \<rho> s =
     ensure (poll out (snd s)) s (\<lambda>_.
     ensure (raised (close_argv \<rho> (sh_sig (snd s)) (exec_argv x))) s (\<lambda>argv.
     ensure (raised (close_redirects (o_texts out) \<rho> (sh_sig (snd s)) (exec_redirects x))) s (\<lambda>r.
       run_resolution out (exec_site x) (resolve_command_word (exec_head x) \<rho> (snd s)) argv r sp s)))"

definition step_exec ::
  "'w outside \<Rightarrow> val exec \<Rightarrow> span option \<Rightarrow> env \<Rightarrow> 'w conf \<Rightarrow> focus flow \<times> 'w conf" where
  "step_exec out x sp \<rho> s =
     (let name = command_text (word_name (exec_head x))
      in located name sp (dispatch_exec out x sp \<rho> (enter_call name sp s)))"

end
