(* ===== verification/Machine_Eval.thy ===== *)
theory Machine_Eval
  imports Machine
begin

text \<open>
  The options of \<open>within\<close>, and the rules on a computation in focus.
\<close>

chapter \<open>The options of within\<close>

text \<open>
  The options of \<open>within\<close> (\<open>core/src/shell/evaluator/scope.rs\<close>): parsed and vetted before anything
  is installed, installed in the order env, cwd, handlers, undone in the reverse.  The walk to the
  directory and the checker's verdict on an arm are parameters.
\<close>

section \<open>Parsing\<close>

text \<open>\<open>arm_closure\<close> and \<open>HandlerEntry::vet\<close>; a scoped arm keeps no scheme.\<close>

definition arm_closure :: "rvalue \<Rightarrow> bytes \<Rightarrow> brk + rvalue" where
  "arm_closure v ctx =
     (case v of
        ThunkVal _ _ \<Rightarrow> Inr v
      | _ \<Rightarrow> Inl (sig (OfScope (NotAnArm ctx (type_name v)))))"

definition vet_scoped ::
  "'w outside \<Rightarrow> 'w shell_state \<Rightarrow> bytes \<times> rvalue \<Rightarrow> brk + handler_entry" where
  "vet_scoped out sh arm =
     (case arm_closure (snd arm) (''within handlers: `'' @ fst arm @ ''`'') of
        Inl b \<Rightarrow> Inl b
      | Inr c \<Rightarrow>
          map_sum id
            (\<lambda>_. \<lparr>he_name = fst arm, he_arity = Unary, he_thunk = snd arm, he_scheme = None\<rparr>)
            (o_arm out (fst arm) c sh))"

definition parse_handlers ::
  "'w outside \<Rightarrow> 'w shell_state \<Rightarrow> (bytes \<times> rvalue) list \<Rightarrow> brk + handler_entry list" where
  "parse_handlers out sh arms = all_ok (map (vet_scoped out sh) arms)"

definition parse_catch_all :: "'w outside \<Rightarrow> 'w shell_state \<Rightarrow> rvalue \<Rightarrow> brk + rvalue" where
  "parse_catch_all out sh v =
     (case arm_closure v ''within handler: catch-all'' of
        Inl b \<Rightarrow> Inl b
      | Inr c \<Rightarrow> map_sum id (\<lambda>_. v) (o_catch_all out c sh))"

definition reserved :: "bytes \<Rightarrow> bool" where
  "reserved k \<longleftrightarrow> k = ''PWD'' \<or> k = ''OLDPWD''"

definition override_text :: "texts \<Rightarrow> bytes \<times> rvalue \<Rightarrow> brk + bytes \<times> bytes" where
  "override_text t e =
     (case scalar_text t (snd e) of
        Some s \<Rightarrow> Inr (fst e, s)
      | None \<Rightarrow> Inl (sig (OfScope (NotScalar (fst e) (type_name (snd e))))))"

definition parse_env :: "texts \<Rightarrow> rvalue \<Rightarrow> brk + (bytes \<times> bytes) list" where
  "parse_env t v =
     (case as_map ''within env'' v of
        Inl e \<Rightarrow> Inl (ErrorB e)
      | Inr m \<Rightarrow>
          (case List.find reserved (map_keys m) of
             Some k \<Rightarrow> Inl (sig (OfScope (ReservedVariable k)))
           | None \<Rightarrow> all_ok (map (override_text t) (map_items m))))"

definition parse_dir ::
  "'w outside \<Rightarrow> rvalue \<Rightarrow> 'w shell_state \<Rightarrow> bytes flow \<times> 'w shell_state" where
  "parse_dir out v sh =
     (let path = text_of (o_texts out) v
      in if path = [] then (Broke (sig (OfScope EmptyDir)), sh) else o_dir out path sh)"

record within_scope =
  ws_env :: "(bytes \<times> bytes) list option"
  ws_cwd :: "bytes option"
  ws_handlers :: "(handler_entry list \<times> rvalue option) option"

text \<open>The options in key order; a key that is none of the three panics.\<close>

fun parse_options ::
  "'w outside \<Rightarrow> (bytes \<times> rvalue) list \<Rightarrow> handler_entry list \<Rightarrow> within_scope \<Rightarrow> 'w shell_state \<Rightarrow>
     within_scope flow \<times> 'w shell_state" where
  "parse_options out [] es ws sh = (Done ws, sh)"
| "parse_options out ((k, v) # os) es ws sh =
     (if k = ''env'' then
        ensure (parse_env (o_texts out) v) sh (\<lambda>e.
          parse_options out os es (ws\<lparr>ws_env := Some e\<rparr>) sh)
      else if k = ''dir'' then
        after (parse_dir out v sh) (\<lambda>d sh. parse_options out os es (ws\<lparr>ws_cwd := Some d\<rparr>) sh)
      else if k = ''handler'' then
        ensure (parse_catch_all out sh v) sh (\<lambda>c.
          parse_options out os es (ws\<lparr>ws_handlers := Some (es, Some c)\<rparr>) sh)
      else (Panicked, sh))"

definition within_parse ::
  "'w outside \<Rightarrow> mapv \<Rightarrow> (bytes \<times> rvalue) list option \<Rightarrow> 'w shell_state \<Rightarrow>
     within_scope flow \<times> 'w shell_state" where
  "within_parse out opts arms sh =
     ensure (parse_handlers out sh (case arms of None \<Rightarrow> [] | Some as \<Rightarrow> as)) sh (\<lambda>es.
       parse_options out (map_items opts) es
         \<lparr>ws_env = None, ws_cwd = None, ws_handlers = map_option (\<lambda>_. (es, None)) arms\<rparr> sh)"

section \<open>Entering and undoing\<close>

definition extend_overrides :: "(bytes \<times> bytes) list \<Rightarrow> (bytes \<times> bytes) list \<Rightarrow> (bytes \<times> bytes) list" where
  "extend_overrides new env = fold (\<lambda>(k, v). bt_insert k v) new env"

definition within_enter :: "within_scope \<Rightarrow> 'w shell_state \<Rightarrow> within_undo \<times> 'w shell_state" where
  "within_enter ws sh =
     (let saved_env = map_option (\<lambda>_. sh_overrides sh) (ws_env ws);
          sh1 = (case ws_env ws of
                   None \<Rightarrow> sh | Some e \<Rightarrow> sh\<lparr>sh_overrides := extend_overrides e (sh_overrides sh)\<rparr>);
          saved_cwd = map_option (\<lambda>_. sh_cwd sh1) (ws_cwd ws);
          sh2 = (case ws_cwd ws of None \<Rightarrow> sh1 | Some d \<Rightarrow> sh1\<lparr>sh_cwd := d\<rparr>)
      in case ws_handlers ws of
           None \<Rightarrow> (\<lparr>wu_env = saved_env, wu_cwd = saved_cwd, wu_handlers = None\<rparr>, sh2)
         | Some (es, c) \<Rightarrow>
             (let (h, hs) = hs_push es c (sh_handlers sh2)
              in (\<lparr>wu_env = saved_env, wu_cwd = saved_cwd, wu_handlers = Some h\<rparr>,
                  sh2\<lparr>sh_handlers := hs\<rparr>)))"

definition within_undo_apply :: "within_undo \<Rightarrow> 'w shell_state \<Rightarrow> 'w shell_state" where
  "within_undo_apply u sh =
     (let sh1 = (case wu_handlers u of
                   None \<Rightarrow> sh
                 | Some h \<Rightarrow> sh\<lparr>sh_handlers := snd (hs_remove_by_handle h (sh_handlers sh))\<rparr>);
          sh2 = (case wu_cwd u of None \<Rightarrow> sh1 | Some d \<Rightarrow> sh1\<lparr>sh_cwd := d\<rparr>)
      in case wu_env u of None \<Rightarrow> sh2 | Some e \<Rightarrow> sh2\<lparr>sh_overrides := e\<rparr>)"

chapter \<open>The rules\<close>

text \<open>
  The rules on a computation in focus (\<open>Machine::eval_rules\<close>, \<open>step_case\<close>, \<open>step_eval\<close> of
  \<open>core/src/shell/evaluator/machine.rs\<close>), one definition for each node whose rule has effects.
\<close>

section \<open>Forming operands\<close>

definition forming ::
  "env \<Rightarrow> val \<Rightarrow> 'w conf \<Rightarrow> (rvalue \<Rightarrow> 'b flow \<times> 'w conf) \<Rightarrow> 'b flow \<times> 'w conf" where
  "forming \<rho> v s k = ensure (raised (form \<rho> (sh_sig (snd s)) v)) s k"

definition focusing :: "focus \<Rightarrow> 'w conf \<Rightarrow> focus flow \<times> 'w conf" where
  "focusing f s = (Done f, s)"

definition giving :: "rvalue \<Rightarrow> 'w conf \<Rightarrow> focus flow \<times> 'w conf" where
  "giving v s = (Done (ReturnF (ValueT v)), s)"

definition polling :: "'w outside \<Rightarrow> 'w conf \<Rightarrow> ('w conf \<Rightarrow> 'b flow \<times> 'w conf) \<Rightarrow> 'b flow \<times> 'w conf" where
  "polling out s k = ensure (poll out (snd s)) s (\<lambda>_. k s)"

text \<open>\<open>force_val\<close> as a rule's last step.\<close>

definition forcing_val :: "val \<Rightarrow> env \<Rightarrow> span option \<Rightarrow> 'w conf \<Rightarrow> focus flow \<times> 'w conf" where
  "forcing_val v \<rho> sp s = (flow_of (force_val v \<rho> sp (sh_sig (snd s))), s)"

section \<open>Recursion\<close>

definition rec_thunk :: "comp \<Rightarrow> (name \<times> comp) list \<Rightarrow> nat \<Rightarrow> env \<Rightarrow> nat \<Rightarrow> name \<times> binding" where
  "rec_thunk c members i \<rho> j =
     (fst (members ! j),
      Binding (ThunkVal (if j = i then c else synthetic (Rec members j)) \<rho>) None)"

definition rec_env :: "comp \<Rightarrow> (name \<times> comp) list \<Rightarrow> nat \<Rightarrow> env \<Rightarrow> env" where
  "rec_env c members i \<rho> =
     (let restricted = env_restrict (mentions (item c)) \<rho>
      in env_extend (map (rec_thunk c members i restricted) [0..<length members]) restricted)"

text \<open>A member past the members would panic.\<close>

definition eval_rec ::
  "'w outside \<Rightarrow> comp \<Rightarrow> (name \<times> comp) list \<Rightarrow> nat \<Rightarrow> env \<Rightarrow> 'w conf \<Rightarrow> focus flow \<times> 'w conf" where
  "eval_rec out c members i \<rho> s =
     polling out s (\<lambda>s.
       if i < length members then focusing (Eval (snd (members ! i)) (rec_env c members i \<rho>)) s
       else (Panicked, s))"

section \<open>Choice\<close>

definition eval_if ::
  "val spanned \<Rightarrow> val spanned \<Rightarrow> val spanned \<Rightarrow> span option \<Rightarrow> env \<Rightarrow> 'w conf \<Rightarrow> focus flow \<times> 'w conf" where
  "eval_if c t e sp \<rho> s =
     forming \<rho> (item c) s (\<lambda>v.
       case v of
         BoolVal b \<Rightarrow> forcing_val (item (if b then t else e)) \<rho> sp s
       | _ \<Rightarrow> (Broke (sig (OfNumber (NotBool ''if'' v))), s))"

definition step_case ::
  "val spanned \<Rightarrow> val case_arm list \<Rightarrow> span option \<Rightarrow> env \<Rightarrow> 'w conf \<Rightarrow> focus flow \<times> 'w conf" where
  "step_case sc arms sp \<rho> s =
     forming \<rho> (item sc) s (\<lambda>v.
       case v of
         VariantVal l p \<Rightarrow>
           (case List.find (\<lambda>a. item (arm_tag a) = l) arms of
              None \<Rightarrow> (Broke (mfail (NoArm l (map (\<lambda>a. item (arm_tag a)) arms))), s)
            | Some a \<Rightarrow>
                after (push_args [case p of None \<Rightarrow> UnitVal | Some x \<Rightarrow> x] sp s) (\<lambda>_ s.
                  forcing_val (item (arm_body a)) \<rho> sp s))
       | _ \<Rightarrow> (Broke (mfail (NotVariant v)), s))"

section \<open>Calls\<close>

definition eval_force :: "'w outside \<Rightarrow> val \<Rightarrow> span option \<Rightarrow> env \<Rightarrow> 'w conf \<Rightarrow> focus flow \<times> 'w conf" where
  "eval_force out v sp \<rho> s =
     (let name = (case forced_name v of None \<Rightarrow> ''!'' | Some n \<Rightarrow> n)
      in located name sp (forcing_val v \<rho> sp (enter_call name sp s)))"

definition applied_name :: "comp \<Rightarrow> bytes" where
  "applied_name h =
     (case item h of
        Force v \<Rightarrow> (case forced_name v of None \<Rightarrow> ''apply'' | Some n \<Rightarrow> n)
      | _ \<Rightarrow> ''apply'')"

definition eval_app ::
  "'w outside \<Rightarrow> comp \<Rightarrow> val spanned list \<Rightarrow> span option \<Rightarrow> env \<Rightarrow> 'w conf \<Rightarrow> focus flow \<times> 'w conf" where
  "eval_app out h args sp \<rho> s =
     located (applied_name h) sp
       (polling out (enter_call (applied_name h) sp s) (\<lambda>s.
          ensure (raised (form_args \<rho> (sh_sig (snd s)) (items args))) s (\<lambda>vs.
            after (push_args vs sp s) (\<lambda>_ s. focusing (Eval h \<rho>) s))))"

definition eval_native ::
  "'w outside \<Rightarrow> native \<Rightarrow> val list \<Rightarrow> span option \<Rightarrow> env \<Rightarrow> 'w conf \<Rightarrow> focus flow \<times> 'w conf" where
  "eval_native out n args sp \<rho> s =
     ensure (raised (form_args \<rho> (sh_sig (snd s)) args)) s (\<lambda>vs.
       returned (on_shell (run_native out n vs None sp) s))"

definition eval_tilde :: "'w outside \<Rightarrow> tilde_path \<Rightarrow> 'w conf \<Rightarrow> focus flow \<times> 'w conf" where
  "eval_tilde out p s =
     (case o_home out (snd s) of
        None \<Rightarrow> (Broke (sig (OfScope HomeUnset)), s)
      | Some home \<Rightarrow> giving (StringVal (o_shown out p home)) s)"

section \<open>Scopes\<close>

definition eval_capture :: "comp \<Rightarrow> span option \<Rightarrow> env \<Rightarrow> 'w conf \<Rightarrow> focus flow \<times> 'w conf" where
  "eval_capture body sp \<rho> s =
     ensure (room 1 s) s (\<lambda>_.
       (let sh = snd s; buf = length (sh_buffers sh)
        in focusing (Eval body \<rho>)
             (push_frame (CaptureF (sh_stdout sh) buf sp)
                (fst s, sh\<lparr>sh_buffers := sh_buffers sh @ [captured_new],
                           sh_stdout := BufferSink buf\<rparr>))))"

definition eval_redirect ::
  "'w outside \<Rightarrow> comp \<Rightarrow> val redirects \<Rightarrow> span option \<Rightarrow> env \<Rightarrow> 'w conf \<Rightarrow> focus flow \<times> 'w conf" where
  "eval_redirect out body r sp \<rho> s =
     ensure (raised (close_redirects (o_texts out) \<rho> (sh_sig (snd s)) r)) s (\<lambda>rs.
       after (push_redirect out rs sp s) (\<lambda>_ s. focusing (Eval body \<rho>) s))"

definition form_arms ::
  "env \<Rightarrow> signature \<Rightarrow> val handler_arm list option \<Rightarrow> error + (bytes \<times> rvalue) list option" where
  "form_arms \<rho> \<Sigma> arms =
     (case arms of
        None \<Rightarrow> Inr None
      | Some as \<Rightarrow>
          map_sum id Some
            (all_ok (map (\<lambda>a. map_sum id (Pair (arm_name a)) (form \<rho> \<Sigma> (item (arm_value a)))) as)))"

definition eval_within ::
  "'w outside \<Rightarrow> (name \<times> val spanned) list \<Rightarrow> val handler_arm list option \<Rightarrow> val \<Rightarrow> span option \<Rightarrow>
     env \<Rightarrow> 'w conf \<Rightarrow> focus flow \<times> 'w conf" where
  "eval_within out opts arms body sp \<rho> s =
     forming \<rho> (RecordV opts) s (\<lambda>v.
     ensure (raised (form_arms \<rho> (sh_sig (snd s)) arms)) s (\<lambda>as.
     ensure (raised (as_map ''within'' v)) s (\<lambda>m.
     after (on_shell (within_parse out m as) s) (\<lambda>ws s.
     forming \<rho> body s (\<lambda>b.
     ensure (room 1 s) s (\<lambda>_.
       (let (u, sh) = within_enter ws (snd s)
        in forcing b sp (push_frame (WithinF u) (fst s, sh)))))))))"

definition eval_grant ::
  "'w outside \<Rightarrow> (name \<times> val spanned) list \<Rightarrow> val \<Rightarrow> span option \<Rightarrow> env \<Rightarrow> 'w conf \<Rightarrow> focus flow \<times> 'w conf" where
  "eval_grant out caps body sp \<rho> s =
     forming \<rho> (RecordV caps) s (\<lambda>c.
     ensure (o_grant out c (snd s)) s (\<lambda>layer.
     forming \<rho> body s (\<lambda>b.
     ensure (room 1 s) s (\<lambda>_.
       (let sh = snd s; depth = length (sh_grants sh)
        in forcing b sp
             (push_frame (GrantF depth) (fst s, o_deputy out (sh\<lparr>sh_grants := push (sh_grants sh) layer\<rparr>))))))))"

definition eval_try :: "val \<Rightarrow> val \<Rightarrow> span option \<Rightarrow> env \<Rightarrow> 'w conf \<Rightarrow> focus flow \<times> 'w conf" where
  "eval_try body handler sp \<rho> s =
     forming \<rho> body s (\<lambda>b. forming \<rho> handler s (\<lambda>h.
       after (reserve_push (TryF h sp) s) (\<lambda>_ s. forcing b sp s)))"

definition eval_guard :: "val \<Rightarrow> val \<Rightarrow> span option \<Rightarrow> env \<Rightarrow> 'w conf \<Rightarrow> focus flow \<times> 'w conf" where
  "eval_guard body cleanup sp \<rho> s =
     forming \<rho> body s (\<lambda>b. forming \<rho> cleanup s (\<lambda>c.
       after (reserve_push (GuardF c sp) s) (\<lambda>_ s. forcing b sp s)))"

definition eval_audit :: "val \<Rightarrow> span option \<Rightarrow> env \<Rightarrow> 'w conf \<Rightarrow> focus flow \<times> 'w conf" where
  "eval_audit body sp \<rho> s =
     forming \<rho> body s (\<lambda>b.
     ensure (room 1 s) s (\<lambda>_.
       (let (scope, a) = audit_open PolicyBytes (sh_audit (snd s))
        in forcing b sp (push_frame (AuditF scope sp) (fst s, (snd s)\<lparr>sh_audit := a\<rparr>)))))"

definition eval_spawn ::
  "'w outside \<Rightarrow> val spanned option \<Rightarrow> val \<Rightarrow> env \<Rightarrow> 'w conf \<Rightarrow> focus flow \<times> 'w conf" where
  "eval_spawn out heading body \<rho> s =
     ensure
       (case heading of
          None \<Rightarrow> Inr None
        | Some t \<Rightarrow>
            (case form \<rho> (sh_sig (snd s)) (item t) of
               Inl e \<Rightarrow> Inl (ErrorB e)
             | Inr v \<Rightarrow> map_sum id Some (o_title out v)))
       s (\<lambda>t. forming \<rho> body s (\<lambda>b. returned (on_shell (o_spawn out t b) s)))"

definition eval_gather :: "'w outside \<Rightarrow> val \<Rightarrow> span option \<Rightarrow> env \<Rightarrow> 'w conf \<Rightarrow> focus flow \<times> 'w conf" where
  "eval_gather out body sp \<rho> s =
     forming \<rho> body s (\<lambda>b.
     ensure (room 1 s) s (\<lambda>_.
       (let (owner, sh) = o_owner out (snd s)
        in forcing b sp
             (push_frame (GatherF owner (sh_cradle sh) sp)
                (fst s, sh\<lparr>sh_cradle := o_cradle out (sh_scope sh) owner\<rparr>)))))"

section \<open>The rules\<close>

fun eval_rules :: "'w outside \<Rightarrow> comp \<Rightarrow> env \<Rightarrow> 'w conf \<Rightarrow> focus flow \<times> 'w conf" where
  "eval_rules out (Spanned (Protect body site) sp) \<rho> s =
     after (reserve_push (ProtectF site sp) s) (\<lambda>_ s. focusing (Eval body \<rho>) s)"
| "eval_rules out (Spanned (Return v) sp) \<rho> s = forming \<rho> v s (\<lambda>x. giving x s)"
| "eval_rules out (Spanned (Lam p b) sp) \<rho> s =
     focusing (ReturnF (LambdaT (Spanned (Lam p b) sp) \<rho>)) s"
| "eval_rules out (Spanned (Rec g i) sp) \<rho> s = eval_rec out (Spanned (Rec g i) sp) g i \<rho> s"
| "eval_rules out (Spanned (Tilde p) sp) \<rho> s = eval_tilde out p s"
| "eval_rules out (Spanned (Force v) sp) \<rho> s = eval_force out v sp \<rho> s"
| "eval_rules out (Spanned (Prim p) sp) \<rho> s =
     ensure (eval_prim (o_texts out) (sh_sources (snd s)) \<rho> (sh_sig (snd s)) p) s (\<lambda>v. giving v s)"
| "eval_rules out (Spanned (Bind c p r) sp) \<rho> s =
     polling out s (\<lambda>s.
       after (reserve_push (ToF (Spanned (Bind c p r) sp) \<rho>) s) (\<lambda>_ s. focusing (Eval c \<rho>) s))"
| "eval_rules out (Spanned (Seq c r) sp) \<rho> s =
     polling out s (\<lambda>s.
       after (reserve_push (SeqF r \<rho> sp) s) (\<lambda>_ s. focusing (Eval c \<rho>) s))"
| "eval_rules out (Spanned (If c t e) sp) \<rho> s = eval_if c t e sp \<rho> s"
| "eval_rules out (Spanned (Case sc arms) sp) \<rho> s = step_case sc arms sp \<rho> s"
| "eval_rules out (Spanned (App h args) sp) \<rho> s = eval_app out h args sp \<rho> s"
| "eval_rules out (Spanned (ExecC x) sp) \<rho> s = step_exec out x sp \<rho> s"
| "eval_rules out (Spanned (NativeC n args) sp) \<rho> s = eval_native out n args sp \<rho> s"
| "eval_rules out (Spanned (Pipeline ss) sp) \<rho> s = returned (on_shell (o_pipeline out ss \<rho>) s)"
| "eval_rules out (Spanned (Capture b) sp) \<rho> s = eval_capture b sp \<rho> s"
| "eval_rules out (Spanned (RedirectC b r) sp) \<rho> s = eval_redirect out b r sp \<rho> s"
| "eval_rules out (Spanned (WithinC os hs b) sp) \<rho> s = eval_within out os hs b sp \<rho> s"
| "eval_rules out (Spanned (Grant cs b) sp) \<rho> s = eval_grant out cs b sp \<rho> s"
| "eval_rules out (Spanned (Try b h) sp) \<rho> s = eval_try b h sp \<rho> s"
| "eval_rules out (Spanned (Guard b c) sp) \<rho> s = eval_guard b c sp \<rho> s"
| "eval_rules out (Spanned (Audit b) sp) \<rho> s = eval_audit b sp \<rho> s"
| "eval_rules out (Spanned (Spawn t b) sp) \<rho> s = eval_spawn out t b \<rho> s"
| "eval_rules out (Spanned (Gather b) sp) \<rho> s = eval_gather out b sp \<rho> s"

declare eval_rules.simps [simp del]

text \<open>\<open>step_eval\<close>: calls and commands claim their own site, every other operation is a frame.\<close>

definition conf_at_site ::
  "bytes \<Rightarrow> span option \<Rightarrow> ('w conf \<Rightarrow> 'a flow \<times> 'w conf) \<Rightarrow> 'w conf \<Rightarrow> 'a flow \<times> 'w conf" where
  "conf_at_site name sp f s =
     (let (saved, sh) = enter_frame name sp (snd s);
          (r, s') = f (fst s, sh)
      in (r, (fst s', restore_displaced saved (snd s'))))"

definition step_eval :: "'w outside \<Rightarrow> comp \<Rightarrow> env \<Rightarrow> 'w conf \<Rightarrow> focus flow \<times> 'w conf" where
  "step_eval out c \<rho> s =
     (case operation_name (item c) of
        Some name \<Rightarrow>
          conf_at_site name (span_of c) (\<lambda>s. located name (span_of c) (eval_rules out c \<rho> s)) s
      | None \<Rightarrow> eval_rules out c \<rho> s)"

end
