(* ===== verification/Machine_Run.thy ===== *)
theory Machine_Run
  imports Machine_Eval
begin

text \<open>
  The rules of frames, the loop and its boundaries, and the phrases of a session.
\<close>

chapter \<open>Frames and runs\<close>

text \<open>
  Each frame's two rules (\<open>step_return\<close>, \<open>step_halt\<close>), its undoing by a panic (\<open>Frame::abandon\<close>), the
  loop and its boundaries (\<open>run\<close>, \<open>evaluate\<close>, \<open>apply\<close>) of
  \<open>core/src/shell/evaluator/machine.rs\<close>, and the phrases of \<open>evaluator.rs\<close>.  A program may run for
  ever, so the loop takes fuel and answers \<open>None\<close> when it runs out.
\<close>

section \<open>Reports\<close>

definition outcome_value :: "bytes \<Rightarrow> rvalue \<Rightarrow> rvalue" where
  "outcome_value tag v = variant tag (Some v)"

definition report_value :: "rvalue \<Rightarrow> observation list \<Rightarrow> rvalue" where
  "report_value outcome obs =
     map_of_pairs [(''outcome'', outcome), (''trail'', ListVal (BuiltList obs))]"

definition prov_or :: "error \<Rightarrow> prov \<Rightarrow> prov" where
  "prov_or e p = (case err_prov e of Some q \<Rightarrow> q | None \<Rightarrow> p)"

text \<open>\<open>Error::record\<close>: what \<open>try\<close> hands its handler, encoded by code that is not modelled.\<close>

definition error_record :: "'w outside \<Rightarrow> error \<Rightarrow> 'w shell_state \<Rightarrow> rvalue" where
  "error_record out e sh = o_record out e (prov_or e (call_site (sh_audit sh))) sh"

definition close_scope :: "trail_scope \<Rightarrow> 'w conf \<Rightarrow> observation list \<times> 'w conf" where
  "close_scope ts s =
     (let (obs, a) = audit_close ts (sh_audit (snd s)) in (obs, (fst s, (snd s)\<lparr>sh_audit := a\<rparr>)))"

section \<open>Undoing\<close>

definition set_site :: "prov \<Rightarrow> 'w conf \<Rightarrow> 'w conf" where
  "set_site p s = (fst s, restore_site p (snd s))"

definition set_stdout :: "sink \<Rightarrow> 'w conf \<Rightarrow> 'w conf" where
  "set_stdout k s = (fst s, (snd s)\<lparr>sh_stdout := k\<rparr>)"

definition set_scope :: "nat \<Rightarrow> 'w conf \<Rightarrow> 'w conf" where
  "set_scope n s = (fst s, (snd s)\<lparr>sh_scope := n\<rparr>)"

definition set_cradle :: "nat \<Rightarrow> 'w conf \<Rightarrow> 'w conf" where
  "set_cradle n s = (fst s, (snd s)\<lparr>sh_cradle := n\<rparr>)"

fun abandon :: "'w outside \<Rightarrow> frame \<Rightarrow> 'w shell_state \<Rightarrow> unit flow \<times> 'w shell_state" where
  "abandon out (CallSite p) sh = (Done (), restore_site p sh)"
| "abandon out (CaptureF prev _ _) sh = (Done (), sh\<lparr>sh_stdout := prev\<rparr>)"
| "abandon out (RedirectF rs) sh = (Done (), redirect_abandon out rs sh)"
| "abandon out (UnmaskF f) sh = (Done (), sh\<lparr>sh_handlers := hs_restore f (sh_handlers sh)\<rparr>)"
| "abandon out (AuditF ts _) sh = (Done (), sh\<lparr>sh_audit := snd (audit_close ts (sh_audit sh))\<rparr>)"
| "abandon out (WithinF u) sh = (Done (), within_undo_apply u sh)"
| "abandon out (GrantF n) sh =
     (case remove (sh_grants sh) n 1 of
        None \<Rightarrow> (Panicked, sh) | Some g \<Rightarrow> (Done (), sh\<lparr>sh_grants := g\<rparr>))"
| "abandon out (CleanupF _ prev) sh = (Done (), sh\<lparr>sh_scope := prev\<rparr>)"
| "abandon out (GatherF owner prev _) sh = (Done (), o_drop_owner out owner (sh\<lparr>sh_cradle := prev\<rparr>))"
| "abandon out _ sh = (Done (), sh)"

text \<open>A panic inside the unwinding leaves the frames below as they are.\<close>

fun abandon_all :: "'w outside \<Rightarrow> frame list \<Rightarrow> 'w shell_state \<Rightarrow> 'w shell_state" where
  "abandon_all out [] sh = sh"
| "abandon_all out (f # st) sh =
     (case abandon out f sh of (Done _, sh) \<Rightarrow> abandon_all out st sh | (_, sh) \<Rightarrow> sh)"

section \<open>Returning to a frame\<close>

definition return_protect ::
  "'w outside \<Rightarrow> site \<Rightarrow> span option \<Rightarrow> terminal \<Rightarrow> 'w conf \<Rightarrow> focus flow \<times> 'w conf" where
  "return_protect out site sp t =
     conf_at_site ''decode'' sp (\<lambda>s.
       located ''decode'' sp
         (ensure (as_value t) s (\<lambda>v. returned (on_shell (o_admitted out site v) s))))"

definition return_bind :: "comp \<Rightarrow> env \<Rightarrow> terminal \<Rightarrow> 'w conf \<Rightarrow> focus flow \<times> 'w conf" where
  "return_bind c \<rho> t s =
     located ''let'' (span_of c)
       (ensure (as_value t) s (\<lambda>v.
          case item c of
            Bind _ p r \<Rightarrow> ensure (pattern_bind p v \<rho>) s (\<lambda>\<rho>'. focusing (Eval r \<rho>') s)
          | _ \<Rightarrow> (Panicked, s)))"

definition return_arg ::
  "'w outside \<Rightarrow> rvalue \<Rightarrow> span option \<Rightarrow> terminal \<Rightarrow> 'w conf \<Rightarrow> focus flow \<times> 'w conf" where
  "return_arg out x sp t s =
     located ''apply'' sp
       (case t of
          LambdaT c \<rho> \<Rightarrow>
            (case lam_of (item c) of
               None \<Rightarrow> (Panicked, s)
             | Some (p, body) \<Rightarrow>
                 polling out s (\<lambda>s.
                   focusing (Eval (located_comp body sp) (env_bind p (Binding x None) \<rho>)) s))
        | ValueT v \<Rightarrow> (Broke (mfail (NotAFunction (type_name v))), s))"

definition return_capture :: "nat \<Rightarrow> span option \<Rightarrow> 'w conf \<Rightarrow> focus flow \<times> 'w conf" where
  "return_capture buf sp s =
     (let c = sh_buffers (snd s) ! buf
      in located ''capture'' sp
           (if overflowed c then (Broke (mfail CaptureOverflowed), s)
            else
              (let (bytes, c) = captured_take c
               in giving (BytesVal bytes)
                    (fst s, (snd s)\<lparr>sh_buffers := (sh_buffers (snd s))[buf := c]\<rparr>))))"

text \<open>The cleanup runs under a shielded scope; the outcome waits in its frame.\<close>

definition enter_cleanup ::
  "'w outside \<Rightarrow> brk + rvalue \<Rightarrow> rvalue \<Rightarrow> span option \<Rightarrow> 'w conf \<Rightarrow> focus flow \<times> 'w conf" where
  "enter_cleanup out outcome cleanup sp s =
     located ''guard'' sp
       (ensure (room 1 s) s (\<lambda>_.
          (let sh = snd s
           in forcing cleanup sp
                (push_frame (CleanupF outcome (sh_scope sh))
                   (fst s, sh\<lparr>sh_scope := o_shield out (sh_scope sh)\<rparr>)))))"

definition return_gather ::
  "'w outside \<Rightarrow> nat \<Rightarrow> span option \<Rightarrow> terminal \<Rightarrow> 'w conf \<Rightarrow> focus flow \<times> 'w conf" where
  "return_gather out owner sp t s =
     located ''gather'' sp (returned (on_shell (o_exit_brood out owner (as_value t)) s))"

definition undoing :: "'w outside \<Rightarrow> frame \<Rightarrow> focus flow \<Rightarrow> 'w conf \<Rightarrow> focus flow \<times> 'w conf" where
  "undoing out f r s = after (on_shell (abandon out f) s) (\<lambda>_ s. (r, s))"

fun step_return :: "'w outside \<Rightarrow> frame \<Rightarrow> terminal \<Rightarrow> 'w conf \<Rightarrow> focus flow \<times> 'w conf" where
  "step_return out (CallSite p) t s = (Done (ReturnF t), set_site p s)"
| "step_return out (ProtectF site sp) t s = return_protect out site sp t s"
| "step_return out (ToF c \<rho>) t s = return_bind c \<rho> t s"
| "step_return out (SeqF r \<rho> sp) t s =
     located ''sequence'' sp (ensure (as_value t) s (\<lambda>_. focusing (Eval r \<rho>) s))"
| "step_return out (ArgF x sp) t s = return_arg out x sp t s"
| "step_return out (CaptureF prev buf sp) t s = return_capture buf sp (set_stdout prev s)"
| "step_return out (RedirectF rs) t s =
     after (on_shell (redirect_leave out rs True) s) (\<lambda>_ s. (Done (ReturnF t), s))"
| "step_return out (TryF h sp) t s = (Done (ReturnF t), s)"
| "step_return out (GuardF c sp) t s =
     ensure (map_sum (locate ''guard'' sp (sh_sources (snd s))) id (as_value t)) s (\<lambda>v.
       enter_cleanup out (Inr v) c sp s)"
| "step_return out (CleanupF outcome prev) t s =
     ensure outcome (set_scope prev s) (\<lambda>v. giving v (set_scope prev s))"
| "step_return out (UnmaskF f) t s = undoing out (UnmaskF f) (Done (ReturnF t)) s"
| "step_return out (WithinF u) t s = undoing out (WithinF u) (Done (ReturnF t)) s"
| "step_return out (GrantF n) t s = undoing out (GrantF n) (Done (ReturnF t)) s"
| "step_return out (AuditF ts sp) t s =
     (let (obs, s) = close_scope ts s
      in located ''audit'' sp
           (ensure (as_value t) s (\<lambda>v. giving (report_value (outcome_value ''ok'' v) obs) s)))"
| "step_return out (GatherF owner prev sp) t s = return_gather out owner sp t (set_cradle prev s)"

section \<open>Halting into a frame\<close>

fun is_synthetic_name :: "pattern \<Rightarrow> bool" where
  "is_synthetic_name (NameP n) = is_synthetic n"
| "is_synthetic_name _ = False"

definition abandon_tail :: "brk \<Rightarrow> brk" where
  "abandon_tail b = (case b of ErrorB e \<Rightarrow> ErrorB (abandoning_tail e) | EscapeB e \<Rightarrow> EscapeB e)"

definition halt_bind :: "comp_kind \<Rightarrow> brk \<Rightarrow> brk flow" where
  "halt_bind k b =
     (case k of
        Bind _ p _ \<Rightarrow> Done (if is_synthetic_name p then b else abandon_tail b)
      | _ \<Rightarrow> Panicked)"

definition halt_capture :: "nat \<Rightarrow> brk \<Rightarrow> brk" where
  "halt_capture n b =
     (case b of
        ErrorB e \<Rightarrow> ErrorB (if n > 0 then discarding (min n u32_max) e else e)
      | EscapeB e \<Rightarrow> EscapeB e)"

fun prov_frame :: "prov \<Rightarrow> bytes \<times> span option" where
  "prov_frame (Live n sp) = (n, Some sp)"
| "prov_frame (Resolved n _ _ _) = (n, None)"

definition locate_at :: "prov \<Rightarrow> nat \<Rightarrow> brk \<Rightarrow> brk" where
  "locate_at p n b = locate (fst (prov_frame p)) (snd (prov_frame p)) n b"

definition halting :: "brk \<Rightarrow> 'w conf \<Rightarrow> focus flow \<times> 'w conf" where
  "halting b s = (Broke b, s)"

fun step_halt :: "'w outside \<Rightarrow> frame \<Rightarrow> brk \<Rightarrow> 'w conf \<Rightarrow> focus flow \<times> 'w conf" where
  "step_halt out (CallSite p) b s =
     halting (locate_at (call_site (sh_audit (snd s))) (sh_sources (snd s)) b) (set_site p s)"
| "step_halt out (ToF c \<rho>) b s =
     (case halt_bind (item c) b of Done b \<Rightarrow> halting b s | _ \<Rightarrow> (Panicked, s))"
| "step_halt out (SeqF r \<rho> sp) b s = halting (abandon_tail b) s"
| "step_halt out (CaptureF prev buf sp) b s =
     halting (halt_capture (cap_total (sh_buffers (snd s) ! buf)) b) (set_stdout prev s)"
| "step_halt out (ArgF x sp) b s = halting b s"
| "step_halt out (ProtectF site sp) b s = halting b s"
| "step_halt out (CleanupF outcome prev) b s = halting b (set_scope prev s)"
| "step_halt out (RedirectF rs) b s =
     (case on_shell (redirect_leave out rs False) s of
        (Panicked, s) \<Rightarrow> (Panicked, s) | (_, s) \<Rightarrow> halting b s)"
| "step_halt out (UnmaskF f) b s = undoing out (UnmaskF f) (Broke b) s"
| "step_halt out (WithinF u) b s = undoing out (WithinF u) (Broke b) s"
| "step_halt out (GrantF n) b s = undoing out (GrantF n) (Broke b) s"
| "step_halt out (TryF h sp) b s =
     (case b of
        ErrorB e \<Rightarrow> located ''try'' sp (call h [error_record out e (snd s)] sp s)
      | EscapeB e \<Rightarrow> halting b s)"
| "step_halt out (GuardF c sp) b s = enter_cleanup out (Inl b) c sp s"
| "step_halt out (AuditF ts sp) b s =
     (let (obs, s') = close_scope ts s
      in case b of
           ErrorB e \<Rightarrow> giving (report_value (outcome_value ''err'' (error_record out e (snd s'))) obs) s'
         | EscapeB e \<Rightarrow> halting b s')"
| "step_halt out (GatherF owner prev sp) b s =
     halting b (on_conf (o_end_brood out owner) (set_cradle prev s))"

section \<open>The loop\<close>

fun step :: "'w outside \<Rightarrow> focus \<Rightarrow> 'w conf \<Rightarrow> focus flow \<times> 'w conf" where
  "step out (Eval c \<rho>) s = step_eval out c \<rho> s"
| "step out (ReturnF t) (f # st, sh) = step_return out f t (st, sh)"
| "step out (HaltF b) (f # st, sh) = step_halt out f b (st, sh)"
| "step out g ([], sh) = (Panicked, ([], sh))"

fun finished :: "focus \<Rightarrow> frame list \<Rightarrow> bool" where
  "finished (Eval _ _) st = False"
| "finished _ st = (st = [])"

text \<open>A break becomes the focus.\<close>

definition settle :: "focus flow \<Rightarrow> focus option" where
  "settle r = (case r of Done f \<Rightarrow> Some f | Broke b \<Rightarrow> Some (HaltF b) | Panicked \<Rightarrow> None)"

fun drive :: "nat \<Rightarrow> 'w outside \<Rightarrow> focus option \<Rightarrow> 'w conf \<Rightarrow> (focus option \<times> 'w conf) option" where
  "drive fuel out None s = Some (None, s)"
| "drive fuel out (Some f) s =
     (if finished f (fst s) then Some (Some f, s)
      else case fuel of
        0 \<Rightarrow> None
      | Suc n \<Rightarrow> (let (r, s') = step out f s in drive n out (settle r) s'))"

definition nested_machine_limit :: nat where
  "nested_machine_limit = 24"

text \<open>The loop stops on a terminal or a halt only.\<close>

fun end_of_run :: "focus \<Rightarrow> rvalue flow" where
  "end_of_run (ReturnF t) = flow_of (as_value t)"
| "end_of_run (HaltF b) = Broke b"
| "end_of_run (Eval _ _) = Panicked"

definition run ::
  "nat \<Rightarrow> 'w outside \<Rightarrow> ('w conf \<Rightarrow> focus flow \<times> 'w conf) \<Rightarrow> 'w shell_state \<Rightarrow>
     (rvalue flow \<times> 'w shell_state) option" where
  "run fuel out seed sh =
     (if sh_depth sh \<ge> nested_machine_limit then Some (Broke (mfail ReentryLimit), sh)
      else
        (let (r, s) = seed ([], sh\<lparr>sh_depth := Suc (sh_depth sh)\<rparr>)
         in map_option
              (\<lambda>(f, s).
                 (let sh = (snd s)\<lparr>sh_depth := sh_depth (snd s) - 1\<rparr>
                  in case f of
                       Some f \<Rightarrow> (end_of_run f, sh)
                     | None \<Rightarrow> (Panicked, abandon_all out (fst s) sh)))
              (drive fuel out (settle r) s)))"

definition evaluate ::
  "nat \<Rightarrow> 'w outside \<Rightarrow> comp \<Rightarrow> env \<Rightarrow> 'w shell_state \<Rightarrow> (rvalue flow \<times> 'w shell_state) option" where
  "evaluate fuel out c \<rho> = run fuel out (focusing (Eval c \<rho>))"

definition apply_machine ::
  "nat \<Rightarrow> 'w outside \<Rightarrow> rvalue \<Rightarrow> rvalue list \<Rightarrow> 'w shell_state \<Rightarrow> (rvalue flow \<times> 'w shell_state) option" where
  "apply_machine fuel out f args = run fuel out (call f args None)"

definition apply_value ::
  "nat \<Rightarrow> 'w outside \<Rightarrow> rvalue \<Rightarrow> rvalue list \<Rightarrow> 'w shell_state \<Rightarrow> (rvalue flow \<times> 'w shell_state) option" where
  "apply_value fuel out f args sh =
     (case f of
        ThunkVal _ _ \<Rightarrow> apply_machine fuel out f args sh
      | NativeVal _ \<Rightarrow> apply_machine fuel out f args sh
      | _ \<Rightarrow> Some (Broke (mfail (CannotCall f)), sh))"

chapter \<open>Phrases\<close>

text \<open>
  The phrases of a session or a \<open>use\<close> body over the machine (\<open>run_phrases\<close> of
  \<open>core/src/shell/evaluator.rs\<close>).  Noting a definition on the lease ledger is a parameter.
\<close>

datatype phrase = Define pattern comp "(name \<times> scheme) list" | RunPhrase comp

datatype mode = SessionMode | LocalMode | ModuleMode | PreludeMode

record ran =
  ran_env :: env
  ran_defined :: "name list"
  ran_outcome :: "rvalue flow"

definition scheme_binding :: "(name \<times> scheme) list \<Rightarrow> name \<times> rvalue \<Rightarrow> name \<times> binding" where
  "scheme_binding schemes e = (fst e, Binding (snd e) (map_of schemes (fst e)))"

definition bind_one :: "name \<times> binding \<Rightarrow> env \<Rightarrow> env" where
  "bind_one e \<rho> = env_bind (fst e) (snd e) \<rho>"

definition note_all ::
  "'w outside \<Rightarrow> (name \<times> binding) list \<Rightarrow> 'w shell_state \<Rightarrow> 'w shell_state" where
  "note_all out bs sh = fold (\<lambda>e. o_note_define out (fst e) (snd e)) bs sh"

text \<open>\<open>Ran::define\<close>: every name the pattern binds, or none.\<close>

definition define_landed ::
  "'w outside \<Rightarrow> pattern \<Rightarrow> (name \<times> scheme) list \<Rightarrow> mode \<Rightarrow> rvalue \<Rightarrow> ran \<Rightarrow> 'w shell_state \<Rightarrow>
     (brk + ran) \<times> 'w shell_state" where
  "define_landed out p schemes mode v rn sh =
     (case destructure p v of
        Inl b \<Rightarrow> (Inl b, sh)
      | Inr vs \<Rightarrow>
          (let bs = map (scheme_binding schemes) vs;
               env = fold bind_one bs (ran_env rn)
           in (Inr (rn\<lparr>ran_env := env, ran_defined := ran_defined rn @ map fst bs,
                       ran_outcome := Done UnitVal\<rparr>),
               if mode = SessionMode then (note_all out bs sh)\<lparr>sh_env := env\<rparr> else sh)))"

definition phrase_name :: "phrase \<Rightarrow> bytes" where
  "phrase_name p = (case p of RunPhrase _ \<Rightarrow> ''sequence'' | Define _ _ _ \<Rightarrow> ''let'')"

text \<open>
  One phrase: what ran, or the break that stops the run; a panic leaves by unwinding.
\<close>

datatype 'a ended = Went 'a | Halted brk | Unwound

definition run_phrase ::
  "nat \<Rightarrow> 'w outside \<Rightarrow> mode \<Rightarrow> phrase spanned \<Rightarrow> ran \<Rightarrow> 'w shell_state \<Rightarrow>
     (ran ended \<times> 'w shell_state) option" where
  "run_phrase fuel out mode p rn sh =
     (let loc = (\<lambda>name sh b. locate name (span_of p) (sh_sources sh) b) in
      case poll out sh of
        Inl b \<Rightarrow> Some (Halted (loc (phrase_name (item p)) sh b), sh)
      | Inr _ \<Rightarrow>
          (case item p of
             RunPhrase c \<Rightarrow>
               map_option
                 (\<lambda>(r, sh). (case r of Done v \<Rightarrow> Went (rn\<lparr>ran_outcome := Done v\<rparr>)
                                     | Broke b \<Rightarrow> Halted b | Panicked \<Rightarrow> Unwound, sh))
                 (evaluate fuel out c (ran_env rn) sh)
           | Define pat c schemes \<Rightarrow>
               map_option
                 (\<lambda>(r, sh).
                    case r of
                      Broke b \<Rightarrow> (Halted (loc ''let'' sh b), sh)
                    | Panicked \<Rightarrow> (Unwound, sh)
                    | Done v \<Rightarrow>
                        (case define_landed out pat schemes mode v rn sh of
                           (Inl b, sh) \<Rightarrow> (Halted (loc ''let'' sh b), sh)
                         | (Inr rn, sh) \<Rightarrow> (Went rn, sh)))
                 (evaluate fuel out c (ran_env rn) sh)))"

text \<open>A non-final phrase's error says what it abandoned.\<close>

definition halted_outcome :: "bool \<Rightarrow> brk \<Rightarrow> rvalue flow" where
  "halted_outcome final b = Broke (if final then b else abandon_tail b)"

fun run_each ::
  "nat \<Rightarrow> 'w outside \<Rightarrow> mode \<Rightarrow> phrase spanned list \<Rightarrow> ran \<Rightarrow> 'w shell_state \<Rightarrow>
     (ran \<times> 'w shell_state) option" where
  "run_each fuel out mode [] rn sh = Some (rn, sh)"
| "run_each fuel out mode (p # ps) rn sh =
     (case run_phrase fuel out mode p rn sh of
        None \<Rightarrow> None
      | Some (Went rn, sh) \<Rightarrow> run_each fuel out mode ps rn sh
      | Some (Halted b, sh) \<Rightarrow> Some (rn\<lparr>ran_outcome := halted_outcome (ps = []) b\<rparr>, sh)
      | Some (Unwound, sh) \<Rightarrow> Some (rn\<lparr>ran_outcome := Panicked\<rparr>, sh))"

definition run_phrases ::
  "nat \<Rightarrow> 'w outside \<Rightarrow> phrase spanned list \<Rightarrow> env \<Rightarrow> mode \<Rightarrow> 'w shell_state \<Rightarrow>
     (ran \<times> 'w shell_state) option" where
  "run_phrases fuel out ps \<rho> mode sh =
     run_each fuel out mode ps \<lparr>ran_env = \<rho>, ran_defined = [], ran_outcome = Done UnitVal\<rparr> sh"

end
