(* ===== verification/Machine_Moves.thy ===== *)
theory Machine_Moves
  imports Machine_Run
begin

text \<open>
  The stack discipline of the machine as a relation between configurations.  A rule of a computation
  goes through doors to code that changes the state and pushes frames for which there is room
  (\<open>grown\<close>); a frame's rule closes it first (\<open>closes\<close>).  Every transition is one of these moves, and
  invariants of the machine are proved by induction on them.
\<close>

section \<open>Doors\<close>

text \<open>The state changes of a rule that push nothing.\<close>

inductive door :: "'w outside \<Rightarrow> 'w shell_state \<Rightarrow> 'w shell_state \<Rightarrow> bool" for out where
  native: "door out sh (snd (run_native out n args site sp sh))"
| base: "door out sh (snd (run_base_frame out n args r sp sh))"
| external: "door out sh (snd (run_external out c adm args r sp sh))"
| admission: "door out sh (snd (o_admit out c sh))"
| pipeline: "door out sh (snd (o_pipeline out ss \<rho> sh))"
| spawn: "door out sh (snd (o_spawn out t v sh))"
| brood: "door out sh (snd (o_exit_brood out i r sh))"
| admitted: "door out sh (snd (o_admitted out s v sh))"
| options: "door out sh (snd (within_parse out m as sh))"
| drained: "door out sh (sh\<lparr>sh_buffers := bs\<rparr>)"
| refused: "redirect_enter out r sp sh = (x, sh') \<Longrightarrow> (\<forall>rs. x \<noteq> Done rs) \<Longrightarrow> door out sh sh'"

section \<open>Pushes\<close>

text \<open>Frames with nothing to undo.\<close>

fun is_plain :: "frame \<Rightarrow> bool" where
  "is_plain (ProtectF _ _) = True"
| "is_plain (ToF _ _) = True"
| "is_plain (SeqF _ _ _) = True"
| "is_plain (TryF _ _) = True"
| "is_plain (GuardF _ _) = True"
| "is_plain (ArgF _ _) = True"
| "is_plain _ = False"

text \<open>The frames a rule pushes, with the state each is pushed over.\<close>

inductive opens :: "'w outside \<Rightarrow> frame \<Rightarrow> 'w shell_state \<Rightarrow> 'w shell_state \<Rightarrow> bool" for out where
  plain: "is_plain f \<Longrightarrow> opens out f sh sh"
| capture: "opens out (CaptureF (sh_stdout sh) n sp) sh (sh\<lparr>sh_buffers := bs, sh_stdout := k\<rparr>)"
| redirect: "redirect_enter out r sp sh = (Done rs, sh') \<Longrightarrow> opens out (RedirectF rs) sh sh'"
| unmask: "hs_strip d (sh_handlers sh) = Some (g, hs) \<Longrightarrow>
    opens out (UnmaskF g) sh (sh\<lparr>sh_handlers := hs\<rparr>)"
| within: "within_enter ws sh = (u, sh') \<Longrightarrow> opens out (WithinF u) sh sh'"
| grant: "opens out (GrantF (length (sh_grants sh))) sh
    (o_deputy out (sh\<lparr>sh_grants := push (sh_grants sh) l\<rparr>))"
| audit: "audit_open PolicyBytes (sh_audit sh) = (ts, a) \<Longrightarrow>
    opens out (AuditF ts sp) sh (sh\<lparr>sh_audit := a\<rparr>)"
| gather: "o_owner out sh = (i, sh1) \<Longrightarrow>
    opens out (GatherF i (sh_cradle sh1) sp) sh (sh1\<lparr>sh_cradle := k\<rparr>)"
| cleanup: "opens out (CleanupF r (sh_scope sh)) sh (sh\<lparr>sh_scope := n\<rparr>)"

lemma plain_not_site: "is_plain f \<Longrightarrow> \<not> is_call_site f"
  by (cases f) simp_all

lemma opens_not_site: "opens out f sh sh' \<Longrightarrow> \<not> is_call_site f"
  by (induction rule: opens.induct) (simp_all add: plain_not_site)

inductive grown :: "'w outside \<Rightarrow> 'w conf \<Rightarrow> 'w conf \<Rightarrow> bool" for out where
  still: "grown out s s"
| through: "grown out s (st, sh) \<Longrightarrow> door out sh sh' \<Longrightarrow> grown out s (st, sh')"
| pushed: "grown out s (st, sh) \<Longrightarrow> comp_frames st < sh_stack_limit sh \<Longrightarrow> opens out f sh sh' \<Longrightarrow>
    grown out s (f # st, sh')"
| sited: "grown out (st, restore_site p sh) (st', sh') \<Longrightarrow>
    grown out (st, sh) (st', restore_site (call_site (sh_audit sh)) sh')"
| onward: "grown out s t \<Longrightarrow> grown out t u \<Longrightarrow> grown out s u"

section \<open>Closing a frame\<close>

text \<open>The state in which a frame's rule goes on, the frame's effect undone.\<close>

inductive closes :: "'w outside \<Rightarrow> frame \<Rightarrow> 'w shell_state \<Rightarrow> 'w shell_state \<Rightarrow> bool" for out where
  plain: "is_plain f \<Longrightarrow> closes out f sh sh"
| site: "closes out (CallSite p) sh (restore_site p sh)"
| capture: "closes out (CaptureF prev n sp) sh (sh\<lparr>sh_stdout := prev\<rparr>)"
| redirect: "closes out (RedirectF rs) sh (snd (redirect_leave out rs c sh))"
| torn: "closes out (RedirectF rs) sh (redirect_abandon out rs sh)"
| unmask: "closes out (UnmaskF g) sh (sh\<lparr>sh_handlers := hs_restore g (sh_handlers sh)\<rparr>)"
| within: "closes out (WithinF u) sh (within_undo_apply u sh)"
| grant: "remove (sh_grants sh) n 1 = Some g \<Longrightarrow> closes out (GrantF n) sh (sh\<lparr>sh_grants := g\<rparr>)"
| lost: "remove (sh_grants sh) n 1 = None \<Longrightarrow> closes out (GrantF n) sh sh"
| audit: "closes out (AuditF ts sp) sh (sh\<lparr>sh_audit := snd (audit_close ts (sh_audit sh))\<rparr>)"
| cleanup: "closes out (CleanupF r prev) sh (sh\<lparr>sh_scope := prev\<rparr>)"
| gather: "closes out (GatherF i prev sp) sh (sh\<lparr>sh_cradle := prev\<rparr>)"
| ended: "closes out (GatherF i prev sp) sh (o_end_brood out i (sh\<lparr>sh_cradle := prev\<rparr>))"
| dropped: "closes out (GatherF i prev sp) sh (o_drop_owner out i (sh\<lparr>sh_cradle := prev\<rparr>))"

inductive moves :: "'w outside \<Rightarrow> 'w conf \<Rightarrow> 'w conf \<Rightarrow> bool" for out where
  rule: "grown out s t \<Longrightarrow> moves out s t"
| called: "grown out (enter_call name sp s) t \<Longrightarrow> moves out s t"
| frame: "closes out f sh sh' \<Longrightarrow> grown out (st, sh') t \<Longrightarrow> moves out (f # st, sh) t"

section \<open>The rules grow\<close>

abbreviation grows :: "'w outside \<Rightarrow> 'w conf \<Rightarrow> 'a \<times> 'w conf \<Rightarrow> bool" where
  "grows out s r \<equiv> grown out s (snd r)"

named_theorems grow \<open>how a rule's steps grow the stack\<close>

lemmas [grow, simp] = grown.still

lemma grows_ensure [grow]: "(\<And>x. r = Inr x \<Longrightarrow> grows out s (k x)) \<Longrightarrow> grows out s (ensure r s k)"
  by (simp add: ensure_def grown.still split: sum.split)

lemma grows_after [grow]:
  assumes "grows out s rs" "\<And>x t. rs = (Done x, t) \<Longrightarrow> grows out t (k x t)"
  shows "grows out s (after rs k)"
proof -
  obtain r t where rs: "rs = (r, t)" by (cases rs)
  with assms show ?thesis by (cases r) (auto simp: after_def intro: grown.onward)
qed

lemma grown_through: "door out (snd s) sh \<Longrightarrow> grown out s (fst s, sh)"
  by (metis grown.still grown.through prod.collapse)

lemma snd_on_shell: "snd (on_shell f s) = (fst s, snd (f (snd s)))"
  by (simp add: on_shell_def split: prod.split)

lemma grows_door: "door out (snd s) (snd (f (snd s))) \<Longrightarrow> grows out s (on_shell f s)"
  by (simp add: snd_on_shell grown_through)

lemma grows_doors [grow]:
  "grows out s (on_shell (run_native out n args site sp) s)"
  "grows out s (on_shell (run_base_frame out n args r sp) s)"
  "grows out s (on_shell (run_external out c adm args r sp) s)"
  "grows out s (on_shell (o_admit out c) s)"
  "grows out s (on_shell (o_pipeline out ss \<rho>) s)"
  "grows out s (on_shell (o_spawn out t v) s)"
  "grows out s (on_shell (o_exit_brood out i o') s)"
  "grows out s (on_shell (o_admitted out si v) s)"
  "grows out s (on_shell (within_parse out m as) s)"
  by (simp_all add: snd_on_shell grown_through door.intros)

lemma grows_boundary [grow]: "grows out s (on_shell (run_boundary out n args site sp) s)"
proof (cases "length args = native_arity n")
  case True
  then show ?thesis by (intro grows_door) (simp add: run_boundary_def door.native)
next
  case False
  then show ?thesis by (simp add: snd_on_shell run_boundary_def grown.still)
qed

lemma grows_located [grow]: "grows out s rs \<Longrightarrow> grows out s (located name sp rs)"
  by (simp add: located_def)

lemma grows_returned [grow]: "grows out s rs \<Longrightarrow> grows out s (returned rs)"
  unfolding returned_def by (erule grows_after) (simp add: grown.still)

lemma grows_forming [grow]: "(\<And>v. grows out s (k v)) \<Longrightarrow> grows out s (forming \<rho> v s k)"
  unfolding forming_def by (rule grows_ensure)

lemma grows_polling [grow]: "grows out s (k s) \<Longrightarrow> grows out s (polling out s k)"
  unfolding polling_def by (rule grows_ensure)

lemma grows_at_once [grow]:
  "grows out s (focusing f s)" "grows out s (giving v s)" "grows out s (forcing v sp s)"
  "grows out s (forcing_val w \<rho> sp s)" "grows out s (halting b s)" "grows out s (x, s)"
  by (simp_all add: focusing_def giving_def forcing_def forcing_val_def halting_def grown.still)

lemma room_frames: "room n s = Inr x \<Longrightarrow> comp_frames (fst s) + n \<le> sh_stack_limit (snd s)"
  by (simp add: room_def split: if_splits)

lemma grown_push:
  assumes "room 1 s = Inr x" "opens out f (snd s) sh"
  shows "grown out s (push_frame f (fst s, sh))"
proof -
  have "comp_frames (fst s) < sh_stack_limit (snd s)" using room_frames [OF assms(1)] by simp
  then show ?thesis
    using assms(2) by (simp add: push_frame_def grown.pushed [of out s "fst s" "snd s"])
qed

text \<open>A reservation and the frame pushed on it, whatever the rule goes on to do.\<close>

lemma grows_pushing:
  assumes "room 1 s = Inr x" "opens out f (snd s) sh" "\<And>t. grows out t (k t)"
  shows "grows out s (k (push_frame f (fst s, sh)))"
  using grown_push [OF assms(1,2)] assms(3) by (rule grown.onward)

lemma grows_then [grow]:
  assumes "room 1 s = Inr x" "opens out f (snd s) sh"
  shows "grows out s (forcing v sp (push_frame f (fst s, sh)))"
    "grows out s (focusing g (push_frame f (fst s, sh)))"
    "grows out s (y, push_frame f (fst s, sh))"
  using assms by (auto intro!: grows_pushing grows_at_once simp: grown_push)

lemma grows_reserve [grow]: "opens out f (snd s) (snd s) \<Longrightarrow> grows out s (reserve_push f s)"
  unfolding reserve_push_def using grown_push [of s _ out f "snd s"] by (auto intro!: grows_ensure)

lemma comp_frames_args: "comp_frames (map (\<lambda>v. ArgF v sp) vs @ st) = length vs + comp_frames st"
  by (simp add: comp_frames_def comp_def)

lemma grown_args:
  "comp_frames st + length vs \<le> sh_stack_limit sh \<Longrightarrow>
     grown out (st, sh) (map (\<lambda>v. ArgF v sp) vs @ st, sh)"
proof (induction vs)
  case (Cons v vs)
  then have "grown out (st, sh) (map (\<lambda>v. ArgF v sp) vs @ st, sh)" by simp
  moreover have "comp_frames (map (\<lambda>v. ArgF v sp) vs @ st) < sh_stack_limit sh"
    using Cons.prems by (simp add: comp_frames_args)
  ultimately have "grown out (st, sh) (ArgF v sp # map (\<lambda>v. ArgF v sp) vs @ st, sh)"
    by (rule grown.pushed) (simp add: opens.plain)
  then show ?case by simp
qed (simp add: grown.still)

lemma grows_push_args [grow]: "grows out s (push_args vs sp s)"
  unfolding push_args_def
  using grown_args [of "fst s" vs "snd s" out sp] room_frames [of "length vs" s]
  by (auto intro!: grows_ensure)

lemma grows_call [grow]: "grows out s (call f vs sp s)"
  unfolding call_def by (intro grow)

lemma grows_conf_at_site [grow]:
  assumes f: "\<And>t. grows out t (f t)" shows "grows out s (conf_at_site name sp f s)"
proof (cases "resolvable (sh_sources (snd s)) sp")
  case None
  then have "conf_at_site name sp f s = f s"
    by (simp add: conf_at_site_def enter_frame_def restore_displaced_def split: prod.split)
  with f show ?thesis by simp
next
  case (Some p)
  obtain r st sh' where e: "f (fst s, restore_site (Live name p) (snd s)) = (r, (st, sh'))"
    by (metis prod.exhaust)
  have "conf_at_site name sp f s = (r, (st, restore_site (call_site (sh_audit (snd s))) sh'))"
    using Some e
    by (simp add: conf_at_site_def enter_frame_def restore_displaced_def restore_site_def [symmetric])
  moreover have "grown out (fst s, restore_site (Live name p) (snd s)) (st, sh')"
    using f [of "(fst s, restore_site (Live name p) (snd s))"] e by simp
  from grown.sited [OF this]
  have "grown out s (st, restore_site (call_site (sh_audit (snd s))) sh')" by simp
  ultimately show ?thesis by simp
qed

lemma grows_push_redirect [grow]: "grows out s (push_redirect out r sp s)"
proof -
  obtain res sh where e: "redirect_enter out r sp (snd s) = (res, sh)"
    by (cases "redirect_enter out r sp (snd s)")
  have "grows out s (after (on_shell (redirect_enter out r sp) s)
      (\<lambda>rs s. (Done (), push_frame (RedirectF rs) s)))" if "room 1 s = Inr x" for x
  proof (cases res)
    case (Done rs)
    with e have "opens out (RedirectF rs) (snd s) sh" by (simp add: opens.redirect)
    from grown_push [OF that this] Done show ?thesis by (simp add: on_shell_def e after_def)
  next
    case (Broke b)
    with e have "door out (snd s) sh" by (auto intro: door.refused)
    with Broke show ?thesis by (simp add: on_shell_def e after_def grown_through)
  next
    case Panicked
    with e have "door out (snd s) sh" by (auto intro: door.refused)
    with Panicked show ?thesis by (simp add: on_shell_def e after_def grown_through)
  qed
  then show ?thesis by (simp add: push_redirect_def grows_ensure)
qed


lemma grows_run_handler [grow]: "grows out s (run_handler out e d argv sp s)"
  by (auto simp: run_handler_def intro!: grow grows_pushing [where k = "call f vs sp" for f vs] opens.unmask
      split: option.split)

lemma grows_run_resolution [grow]: "grows out s (run_resolution out site res argv r sp s)"
  by (auto simp: run_resolution_def intro!: grow split: resolution.split rvalue.split)

lemma grows_dispatch_exec [grow]: "grows out s (dispatch_exec out x sp \<rho> s)"
  unfolding dispatch_exec_def by (intro grow)

lemma grows_choice:
  "grows out s (eval_if c t e sp \<rho> s)" "grows out s (step_case v arms sp \<rho> s)"
  by (auto simp: eval_if_def step_case_def intro!: grow split: rvalue.split option.split)

lemma grows_simple:
  "grows out s (eval_rec out c g i \<rho> s)" "grows out s (eval_tilde out p s)"
  "grows out s (eval_try b h sp \<rho> s)" "grows out s (eval_guard b h sp \<rho> s)"
  "grows out s (eval_native out n args sp \<rho> s)" "grows out s (eval_redirect out c r sp \<rho> s)"
  "grows out s (eval_spawn out t b \<rho> s)"
  by (auto simp: eval_rec_def eval_tilde_def eval_try_def eval_guard_def eval_native_def
      eval_redirect_def eval_spawn_def intro!: grow opens.plain split: option.split)

lemma grows_capture: "grows out s (eval_capture b sp \<rho> s)"
  unfolding eval_capture_def Let_def by (intro grow opens.capture)

lemma grows_within: "grows out s (eval_within out os hs b sp \<rho> s)"
proof -
  have "grows out s (let (u, sh) = within_enter ws (snd s) in forcing v sp (push_frame (WithinF u) (fst s, sh)))"
    if "room 1 s = Inr x" for ws v x and s :: "'a conf"
    using that by (cases "within_enter ws (snd s)") (auto intro!: grow opens.within)
  then show ?thesis unfolding eval_within_def by (intro grow)
qed

lemma grows_grant: "grows out s (eval_grant out cs b sp \<rho> s)"
  unfolding eval_grant_def Let_def by (intro grow opens.grant)

lemma grows_audit: "grows out s (eval_audit b sp \<rho> s)"
  unfolding eval_audit_def by (auto intro!: grow opens.audit split: prod.split)

lemma grows_gather: "grows out s (eval_gather out b sp \<rho> s)"
  unfolding eval_gather_def by (auto intro!: grow opens.gather split: prod.split)

text \<open>A rule of \<open>eval_rules\<close> that is a frame of its own grows; a call first enters its site.\<close>

lemma grows_eval_rules:
  "operation_name (item c) \<noteq> None \<Longrightarrow> grows out s (eval_rules out c \<rho> s)"
  by (cases "(out, c, \<rho>, s)" rule: eval_rules.cases)
    (auto simp: eval_rules.simps intro!: grow opens.plain grows_choice grows_simple grows_capture
      grows_within grows_grant grows_audit grows_gather)

lemma moves_call:
  "operation_name (item c) = None \<Longrightarrow> moves out s (snd (eval_rules out c \<rho> s))"
  by (cases "(out, c, \<rho>, s)" rule: eval_rules.cases)
    (auto simp: eval_rules.simps eval_force_def eval_app_def step_exec_def Let_def
      intro!: moves.called grow)

lemma moves_step_eval: "moves out s (snd (step_eval out c \<rho> s))"
proof (cases "operation_name (item c)")
  case (Some name)
  then have "grows out t (eval_rules out c \<rho> t)" for t by (simp add: grows_eval_rules)
  with Some show ?thesis by (auto simp: step_eval_def intro!: moves.rule grow)
qed (simp add: step_eval_def moves_call)

section \<open>The frames close\<close>

definition finishes :: "'w outside \<Rightarrow> frame \<Rightarrow> 'w conf \<Rightarrow> 'a \<times> 'w conf \<Rightarrow> bool" where
  "finishes out f s r \<longleftrightarrow> (\<exists>sh. closes out f (snd s) sh \<and> grows out (fst s, sh) r)"

lemma finishesI: "closes out f (snd s) (snd t) \<Longrightarrow> fst t = fst s \<Longrightarrow> grows out t r \<Longrightarrow> finishes out f s r"
  unfolding finishes_def by (metis prod.collapse)

lemma grows_return_bind: "grows out s (return_bind c \<rho> t s)"
  by (auto simp: return_bind_def intro!: grow split: comp_kind.split)

lemma grows_return_arg: "grows out s (return_arg out x sp t s)"
  by (auto simp: return_arg_def intro!: grow split: terminal.split option.split)

lemma grows_return_capture: "grows out s (return_capture n sp s)"
  by (auto simp: return_capture_def captured_take_def Let_def giving_def
      intro!: grow grown_through door.drained)

lemma grows_return_protect: "grows out s (return_protect out site sp t s)"
  unfolding return_protect_def by (intro grow)

lemma grows_return_gather: "grows out s (return_gather out i sp t s)"
  unfolding return_gather_def by (intro grow)

lemma grows_enter_cleanup: "grows out s (enter_cleanup out r c sp s)"
  unfolding enter_cleanup_def Let_def by (intro grow opens.cleanup)

lemma finishes_undoing:
  assumes "\<And>sh'. abandon out f (snd s) = (Done (), sh') \<Longrightarrow> closes out f (snd s) sh'"
    and "\<And>sh'. abandon out f (snd s) = (Panicked, sh') \<Longrightarrow> closes out f (snd s) sh'"
    and "\<And>b sh'. abandon out f (snd s) \<noteq> (Broke b, sh')"
  shows "finishes out f s (undoing out f r s)"
proof -
  obtain x sh where a: "abandon out f (snd s) = (x, sh)" by (cases "abandon out f (snd s)")
  with assms have "closes out f (snd s) sh" by (cases x) auto
  with a show ?thesis
    by (cases x) (auto simp: undoing_def on_shell_def after_def finishes_def grown.still)
qed

lemma moves_finishes: "finishes out f (st, sh) r \<Longrightarrow> moves out (f # st, sh) (snd r)"
  by (auto simp: finishes_def intro: moves.frame)


lemma finishes_plain: "is_plain f \<Longrightarrow> grows out s r \<Longrightarrow> finishes out f s r"
  by (rule finishesI [where t = s]) (simp_all add: closes.plain)

lemma closes_audit:
  "audit_close ts (sh_audit sh) = (obs, a) \<Longrightarrow> closes out (AuditF ts sp) sh (sh\<lparr>sh_audit := a\<rparr>)"
  by (metis closes.audit snd_conv)

lemma finishes_return: "finishes out f s (step_return out f t s)"
proof (cases f)
  case (CallSite p)
  then show ?thesis by (auto simp: set_site_def intro!: finishesI [of _ _ _ "set_site p s"] closes.site)
next
  case (CaptureF prev buf sp)
  then show ?thesis
    by (auto intro!: finishesI [of _ _ _ "set_stdout prev s"] closes.capture grows_return_capture
        simp: set_stdout_def)
next
  case (RedirectF rs)
  then show ?thesis
    by (auto intro!: finishesI [of _ _ _ "snd (on_shell (redirect_leave out rs True) s)"] closes.redirect
        simp: snd_on_shell after_def split: prod.split flow.split dest: arg_cong [of _ _ snd])
next
  case (CleanupF r prev)
  then show ?thesis
    by (auto intro!: finishesI [of _ _ _ "set_scope prev s"] closes.cleanup grow simp: set_scope_def)
next
  case (UnmaskF g)
  then show ?thesis by (auto intro!: finishes_undoing closes.unmask)
next
  case (WithinF u)
  then show ?thesis by (auto intro!: finishes_undoing closes.within)
next
  case (GrantF n)
  then show ?thesis by (auto intro!: finishes_undoing closes.grant closes.lost split: option.splits)
next
  case (AuditF ts sp)
  then show ?thesis
    by (auto intro!: finishesI [of _ _ _ "snd (close_scope ts s)"] closes_audit grow
        simp: close_scope_def split: prod.split)
next
  case (GatherF i prev sp)
  then show ?thesis
    by (auto intro!: finishesI [of _ _ _ "set_cradle prev s"] closes.gather grows_return_gather
        simp: set_cradle_def)
qed (auto intro!: finishes_plain grow grows_return_bind grows_return_arg grows_return_protect
    grows_enter_cleanup)

lemma finishes_halt: "finishes out f s (step_halt out f b s)"
proof (cases f)
  case (CallSite p)
  then show ?thesis
    by (auto simp: set_site_def halting_def intro!: finishesI [of _ _ _ "set_site p s"] closes.site)
next
  case (ToF c \<rho>)
  then show ?thesis by (auto intro!: finishes_plain grow split: flow.split)
next
  case (CaptureF prev buf sp)
  then show ?thesis
    by (auto intro!: finishesI [of _ _ _ "set_stdout prev s"] closes.capture grow simp: set_stdout_def)
next
  case (RedirectF rs)
  then show ?thesis
    by (auto intro!: finishesI [of _ _ _ "snd (on_shell (redirect_leave out rs False) s)"] closes.redirect
        simp: snd_on_shell halting_def split: prod.split flow.split dest: arg_cong [of _ _ snd])
next
  case (CleanupF r prev)
  then show ?thesis
    by (auto intro!: finishesI [of _ _ _ "set_scope prev s"] closes.cleanup grow simp: set_scope_def)
next
  case (UnmaskF g)
  then show ?thesis by (auto intro!: finishes_undoing closes.unmask)
next
  case (WithinF u)
  then show ?thesis by (auto intro!: finishes_undoing closes.within)
next
  case (GrantF n)
  then show ?thesis by (auto intro!: finishes_undoing closes.grant closes.lost split: option.splits)
next
  case (TryF h sp)
  then show ?thesis by (auto intro!: finishes_plain grow split: brk.split)
next
  case (AuditF ts sp)
  then show ?thesis
    by (auto intro!: finishesI [of _ _ _ "snd (close_scope ts s)"] closes_audit grow
        simp: close_scope_def split: prod.split brk.split)
next
  case (GatherF i prev sp)
  then show ?thesis
    by (auto intro!: finishesI [of _ _ _ "on_conf (o_end_brood out i) (set_cradle prev s)"]
        closes.ended grow simp: set_cradle_def on_conf_def)
qed (auto intro!: finishes_plain grow grows_enter_cleanup)

text \<open>Every transition is a move.\<close>

theorem step_moves: "moves out s (snd (step out g s))"
proof (cases "(out, g, s)" rule: step.cases)
  case (1 out' c \<rho> s')
  then show ?thesis by (simp add: moves_step_eval)
next
  case (2 out' t f st sh)
  then show ?thesis by (simp add: moves_finishes [OF finishes_return])
next
  case (3 out' b f st sh)
  then show ?thesis by (simp add: moves_finishes [OF finishes_halt])
qed (auto intro: moves.rule)

section \<open>Runs move\<close>

lemma drive_induct:
  assumes "I s" "\<And>s t. I s \<Longrightarrow> moves out s t \<Longrightarrow> I t"
    and "drive fuel out g s = Some (g', s')"
  shows "I s'"
  using assms(1,3)
proof (induction fuel arbitrary: g s)
  case 0
  then show ?case by (cases g) (auto split: if_splits)
next
  case (Suc n)
  show ?case
  proof (cases g)
    case (Some f)
    obtain r t where t: "step out f s = (r, t)" by (cases "step out f s")
    have "I t" using assms(2) [OF Suc.prems(1) step_moves, of f] t by simp
    with Suc Some t show ?thesis by (auto split: if_splits)
  qed (use Suc in simp)
qed

lemma drive_finished: "drive fuel out g s = Some (Some f, s') \<Longrightarrow> finished f (fst s')"
  by (induction fuel arbitrary: g s) (auto split: if_splits prod.splits option.splits elim!: drive.elims)

lemma finished_empty: "finished f st \<Longrightarrow> st = []"
  by (cases f) simp_all

end
