(* ===== verification/Machine_Frames.thy ===== *)
theory Machine_Frames
  imports Machine_Moves
begin

text \<open>
  The part of the shell state frames bracket, and that a run gives it back.
\<close>

chapter \<open>What a frame gives back\<close>

text \<open>
  What the frames of the machine give back.  A \<open>view\<close> is the part of the shell state that frames
  bracket; \<open>unwind\<close> undoes a stack on it.  A call of a builtin, a command or a redirect scope keeps
  the view, provided the calls that are not modelled do.
\<close>

section \<open>The view\<close>

record view =
  v_stdout :: sink
  v_stderr :: sink
  v_scope :: nat
  v_cradle :: nat
  v_site :: prov
  v_policy :: policy
  v_open :: bool
  v_grants :: grant_stack

definition view_of :: "'w shell_state \<Rightarrow> view" where
  "view_of sh =
     \<lparr>v_stdout = sh_stdout sh, v_stderr = sh_stderr sh, v_scope = sh_scope sh,
      v_cradle = sh_cradle sh, v_site = call_site (sh_audit sh),
      v_policy = capture_policy (sh_audit sh), v_open = (trail (sh_audit sh) \<noteq> None),
      v_grants = sh_grants sh\<rparr>"

fun undo :: "frame \<Rightarrow> view \<Rightarrow> view option" where
  "undo (CallSite p) v = Some (v\<lparr>v_site := p\<rparr>)"
| "undo (CaptureF prev _ _) v = Some (v\<lparr>v_stdout := prev\<rparr>)"
| "undo (RedirectF rs) v =
     Some (v\<lparr>v_stdout := (case rs_stdout rs of Some s \<Rightarrow> s | None \<Rightarrow> v_stdout v),
             v_stderr := (case rs_stderr rs of Some s \<Rightarrow> s | None \<Rightarrow> v_stderr v)\<rparr>)"
| "undo (AuditF ts _) v =
     Some (v\<lparr>v_policy := ts_saved ts, v_open := (\<not> ts_opened ts \<and> v_open v)\<rparr>)"
| "undo (GrantF n) v = map_option (\<lambda>g. v\<lparr>v_grants := g\<rparr>) (remove (v_grants v) n 1)"
| "undo (CleanupF _ prev) v = Some (v\<lparr>v_scope := prev\<rparr>)"
| "undo (GatherF _ prev _) v = Some (v\<lparr>v_cradle := prev\<rparr>)"
| "undo _ v = Some v"

fun unwind :: "frame list \<Rightarrow> view \<Rightarrow> view option" where
  "unwind [] v = Some v"
| "unwind (f # st) v = (case undo f v of None \<Rightarrow> None | Some u \<Rightarrow> unwind st u)"

lemma unwind_append:
  "unwind (new @ gs) v = (case unwind new v of None \<Rightarrow> None | Some u \<Rightarrow> unwind gs u)"
  by (induction new v rule: unwind.induct) (simp_all split: option.splits)

lemma undo_site: "\<not> is_call_site f \<Longrightarrow> undo f (v\<lparr>v_site := p\<rparr>) = map_option (v_site_update (\<lambda>_. p)) (undo f v)"
  by (cases f) (auto simp: map_option_case split: option.splits)

lemma unwind_site:
  "list_all (\<lambda>f. \<not> is_call_site f) new \<Longrightarrow>
     unwind new (v\<lparr>v_site := p\<rparr>) = map_option (v_site_update (\<lambda>_. p)) (unwind new v)"
  by (induction new arbitrary: v) (auto simp: undo_site split: option.splits)

section \<open>Calls that keep a reading of the state\<close>

definition keeps :: "('s \<Rightarrow> 'a) \<Rightarrow> ('s \<Rightarrow> 'b \<times> 's) \<Rightarrow> bool" where
  "keeps p f \<longleftrightarrow> (\<forall>s. p (snd (f s)) = p s)"

definition steady :: "('s \<Rightarrow> 'a) \<Rightarrow> ('s \<Rightarrow> 's) \<Rightarrow> bool" where
  "steady p f \<longleftrightarrow> (\<forall>s. p (f s) = p s)"

text \<open>Every call of the host that answers a state keeps the reading.\<close>

definition keeps_outside :: "('w shell_state \<Rightarrow> 'a) \<Rightarrow> 'w outside \<Rightarrow> bool" where
  "keeps_outside p out \<longleftrightarrow>
     (\<forall>n args site. keeps p (o_body out n args site)) \<and> (\<forall>c. keeps p (o_admit out c))
     \<and> (\<forall>a args. keeps p (o_external out a args)) \<and> (\<forall>ss \<rho>. keeps p (o_pipeline out ss \<rho>))
     \<and> (\<forall>t v. keeps p (o_spawn out t v)) \<and> keeps p (o_owner out)
     \<and> (\<forall>n r. keeps p (o_exit_brood out n r)) \<and> (\<forall>n. steady p (o_end_brood out n))
     \<and> (\<forall>n. steady p (o_drop_owner out n)) \<and> steady p (o_deputy out)
     \<and> (\<forall>d. keeps p (o_dir out d)) \<and> (\<forall>s v. keeps p (o_admitted out s v))
     \<and> (\<forall>i. keeps p (o_stdin out i)) \<and> (\<forall>n. steady p (o_restore_stdin out n))
     \<and> (\<forall>m b. keeps p (o_open_write out m b)) \<and> steady p (o_flush out)
     \<and> (\<forall>is c. keeps p (o_settle out is c)) \<and> (\<forall>is. steady p (o_drop_writes out is))"

lemma keeps_outsideD:
  assumes "keeps_outside p out"
  shows "keeps p (o_body out n args site)" "keeps p (o_admit out c)"
    "keeps p (o_external out a vs)" "keeps p (o_pipeline out ss \<rho>)" "keeps p (o_spawn out t v)"
    "keeps p (o_owner out)" "keeps p (o_exit_brood out i r)" "steady p (o_end_brood out i)"
    "steady p (o_drop_owner out i)" "steady p (o_deputy out)" "keeps p (o_dir out d)"
    "keeps p (o_admitted out si v)" "keeps p (o_stdin out inp)" "steady p (o_restore_stdin out i)"
    "keeps p (o_open_write out m b)" "steady p (o_flush out)" "keeps p (o_settle out is cm)"
    "steady p (o_drop_writes out is)"
  using assms by (simp_all add: keeps_outside_def)

lemma keeps_id [simp]: "keeps p (Pair x)"
  by (simp add: keeps_def)

lemma keepsD: "keeps p f \<Longrightarrow> f s = (x, s') \<Longrightarrow> p s' = p s"
  by (auto simp: keeps_def dest: spec [of _ s])

lemma keepsE: "keeps p f \<Longrightarrow> p (snd (f s)) = p s"
  by (simp add: keeps_def)

lemma keeps_after:
  "keeps p f \<Longrightarrow> (\<And>x. keeps p (k x)) \<Longrightarrow> keeps p (\<lambda>s. after (f s) k)"
  unfolding keeps_def after_def
  by (auto split: prod.split flow.split) (metis snd_conv)+

lemma keeps_ensure: "(\<And>x. keeps p (k x)) \<Longrightarrow> keeps p (\<lambda>s. ensure (r s) s (\<lambda>x. k x s))"
  by (auto simp: keeps_def ensure_def split: sum.split)

lemma keeps_locating: "keeps p f \<Longrightarrow> keeps p (\<lambda>s. locating name sp (f s))"
  by (simp add: keeps_def locating_def)

lemma view_restore_site [simp]: "view_of (restore_site p sh) = (view_of sh)\<lparr>v_site := p\<rparr>"
  by (simp add: view_of_def restore_site_def)

lemma keeps_at_site:
  assumes "keeps view_of f" shows "keeps view_of (at_site name sp f)"
proof -
  have "view_of (snd (at_site name sp f sh)) = view_of sh" for sh
  proof (cases "resolvable (sh_sources sh) sp")
    case None
    with assms show ?thesis
      by (simp add: at_site_def enter_frame_def restore_displaced_def keeps_def split_def)
  next
    case (Some s)
    obtain r sh' where f: "f (restore_site (Live name s) sh) = (r, sh')" by fastforce
    with assms have "view_of sh' = (view_of sh)\<lparr>v_site := Live name s\<rparr>"
      by (auto dest: keepsD)
    then have "(view_of sh')\<lparr>v_site := call_site (sh_audit sh)\<rparr> = view_of sh"
      by (simp add: view_of_def)
    with Some f show ?thesis
      by (simp add: at_site_def enter_frame_def restore_displaced_def restore_site_def [symmetric])
  qed
  then show ?thesis by (simp add: keeps_def)
qed


section \<open>Redirect scopes\<close>

text \<open>An opened scope is undone to where it was entered; a failed one has changed nothing.\<close>

definition opens_over :: "'w shell_state \<Rightarrow> redirect_state flow \<times> 'w shell_state \<Rightarrow> bool" where
  "opens_over sh r \<longleftrightarrow>
     (case r of
        (Done rs, sh') \<Rightarrow> undo (RedirectF rs) (view_of sh') = Some (view_of sh)
      | (_, sh') \<Rightarrow> view_of sh' = view_of sh)"

lemma keeps_open_sink:
  assumes "keeps_outside p out" shows "keeps p (open_sink out m b is)"
proof -
  have "keeps p (o_open_write out m b)" using assms by (rule keeps_outsideD)
  then show ?thesis
    unfolding open_sink_def by (rule keeps_after) (simp add: keeps_def split: prod.split)
qed

lemma keeps_open_sinks:
  assumes out: "keeps_outside p out"
  shows "p (snd (snd (open_sinks out r sh))) = p sh"
proof -
  obtain res sh1 where first:
    "(case rd_stdout r of
        None \<Rightarrow> (Done (None, []), sh)
      | Some (m, b) \<Rightarrow>
          after (open_sink out m b [] sh) (\<lambda>(s, is) sh. (Done (Some s, is), sh))) = (res, sh1)"
    by fastforce
  have "p sh1 = p sh"
  proof (cases "rd_stdout r")
    case (Some mb)
    have "keeps p (\<lambda>sh. after (open_sink out (fst mb) (snd mb) [] sh) (\<lambda>(s, is) sh. (Done (Some s, is), sh)))"
      by (rule keeps_after [OF keeps_open_sink [OF out]]) (simp add: keeps_def split: prod.split)
    with first Some show ?thesis by (cases mb) (auto dest: keepsD)
  qed (use first in simp)
  moreover have "p sh2 = p sh1" if "open_sink out m b is sh1 = (x, sh2)" for m b "is" x sh2
    using keeps_open_sink [OF out] that by (rule keepsD)
  ultimately show ?thesis
    by (auto simp: open_sinks_def first split: flow.splits option.splits stderr_target.splits prod.splits)
qed

lemma view_tear_down:
  assumes "keeps_outside view_of out"
  shows "undo (RedirectF rs) (view_of sh) = Some (view_of (tear_down out rs sh))"
proof -
  have "steady view_of (o_restore_stdin out (rs_stdin rs))" "steady view_of (o_flush out)"
    using assms by (auto intro: keeps_outsideD)
  then have "view_of (tear_down out rs sh) =
      view_of ((o_flush out sh)\<lparr>sh_stdout := (case rs_stdout rs of Some s \<Rightarrow> s | None \<Rightarrow> sh_stdout (o_flush out sh)),
        sh_stderr := (case rs_stderr rs of Some s \<Rightarrow> s | None \<Rightarrow> sh_stderr (o_flush out sh))\<rparr>)"
    and "view_of (o_flush out sh) = view_of sh"
    by (simp_all add: tear_down_def steady_def Let_def)
  then show ?thesis by (simp add: view_of_def split: option.split)
qed

lemma install_opens:
  "install_sinks so se sh = ((po, pe), sh') \<Longrightarrow>
     undo (RedirectF \<lparr>rs_stdin = i, rs_stdout = po, rs_stderr = pe, rs_intents = is, rs_span = sp\<rparr>)
       (view_of sh') = Some (view_of sh)"
  by (auto simp: install_sinks_def view_of_def split: option.splits)

lemma redirect_open_opens:
  assumes out: "keeps_outside view_of out"
  shows "opens_over sh (redirect_open out r sp sh)"
proof -
  obtain x sh1 where i: "o_stdin out (rd_stdin r) sh = (x, sh1)" by fastforce
  obtain ints res sh2 where o: "open_sinks out r sh1 = (ints, res, sh2)" by (metis prod.exhaust)
  have 1: "view_of sh1 = view_of sh" using keeps_outsideD(13) [OF out] i by (rule keepsD)
  have 2: "view_of sh2 = view_of sh1" using keeps_open_sinks [OF out, of r sh1] o by simp
  have 3: "view_of (snd (o_settle out ints False sh2)) = view_of sh2"
    and 4: "view_of (o_restore_stdin out g s) = view_of s" for g s
    using keeps_outsideD(17) [OF out, of ints False] keeps_outsideD(14) [OF out, of g]
    by (simp_all add: keeps_def steady_def)
  have 5: "undo (RedirectF \<lparr>rs_stdin = g, rs_stdout = po, rs_stderr = pe, rs_intents = ints, rs_span = sp\<rparr>)
      (view_of sh') = Some (view_of sh)"
    if "install_sinks so se sh2 = ((po, pe), sh')" for g so se po pe sh'
    using install_opens [OF that] 1 2 by (simp del: undo.simps)
  show ?thesis
    using i o 1 2 3 4 5
    by (auto simp: redirect_open_def opens_over_def after_def simp del: undo.simps
        split: flow.split prod.split)
qed

lemma undo_redirect_site:
  "undo (RedirectF rs) u = Some v \<Longrightarrow>
     undo (RedirectF rs) (u\<lparr>v_site := p\<rparr>) = Some (v\<lparr>v_site := p\<rparr>)"
  by (subst undo_site) simp_all

lemma redirect_enter_opens:
  assumes out: "keeps_outside view_of out"
  shows "opens_over sh (redirect_enter out r sp sh)"
proof -
  obtain saved sh1 where e: "enter_frame ''redirect'' sp sh = (saved, sh1)" by fastforce
  obtain res sh2 where o: "redirect_open out r sp sh1 = (res, sh2)" by fastforce
  have "opens_over sh1 (res, sh2)" using redirect_open_opens [OF out, of sh1 r sp] o by simp
  then show ?thesis
  proof (cases saved)
    case None
    with e have "sh1 = sh" by (auto simp: enter_frame_def split: option.splits)
    with None o \<open>opens_over sh1 (res, sh2)\<close> show ?thesis
      by (cases res) (simp_all add: redirect_enter_def at_site_def e locating_def opens_over_def
          restore_displaced_def del: undo.simps)
  next
    case (Some q)
    with e obtain p where q: "q = call_site (sh_audit sh)" and sh1: "sh1 = restore_site p sh"
      by (auto simp: enter_frame_def restore_site_def split: option.splits)
    have again: "(view_of sh1)\<lparr>v_site := q\<rparr> = view_of sh" by (simp add: sh1 q) (simp add: view_of_def)
    show ?thesis
    proof (cases res)
      case (Done rs)
      with \<open>opens_over sh1 (res, sh2)\<close> have "undo (RedirectF rs) (view_of sh2) = Some (view_of sh1)"
        by (simp add: opens_over_def)
      then have "undo (RedirectF rs) ((view_of sh2)\<lparr>v_site := q\<rparr>) = Some (view_of sh)"
        unfolding again [symmetric] by (rule undo_redirect_site)
      with Done Some show ?thesis
        by (simp add: redirect_enter_def at_site_def e o locating_def opens_over_def
            restore_displaced_def del: undo.simps)
    qed (use Some again \<open>opens_over sh1 (res, sh2)\<close> in \<open>simp_all add: redirect_enter_def at_site_def e o
        locating_def opens_over_def restore_displaced_def\<close>)
  qed
qed


lemma view_redirect_leave:
  assumes out: "keeps_outside view_of out"
  shows "undo (RedirectF rs) (view_of sh) = Some (view_of (snd (redirect_leave out rs c sh)))"
proof -
  have "keeps view_of (\<lambda>sh. locating ''redirect'' (rs_span rs) (o_settle out (rs_intents rs) c sh))"
    using out by (intro keeps_locating keeps_outsideD)
  from keeps_at_site [OF this, of "''redirect''" "rs_span rs"]
  show ?thesis by (simp add: redirect_leave_def keeps_def view_tear_down [OF out] del: undo.simps)
qed

lemma view_redirect_abandon:
  assumes out: "keeps_outside view_of out"
  shows "undo (RedirectF rs) (view_of sh) = Some (view_of (redirect_abandon out rs sh))"
  using keeps_outsideD(18) [OF out] by (simp add: redirect_abandon_def steady_def view_tear_down [OF out] del: undo.simps)

lemma keeps_with_redirects:
  assumes out: "keeps_outside view_of out" and body: "keeps view_of body"
  shows "keeps view_of (with_redirects out r sp body)"
proof -
  have "view_of (snd (with_redirects out r sp body sh)) = view_of sh" for sh
  proof (cases "redirects_empty r")
    case True
    with body show ?thesis by (simp add: with_redirects_def keeps_def)
  next
    case False
    obtain res sh1 where e: "redirect_enter out r sp sh = (res, sh1)" by fastforce
    have o: "opens_over sh (res, sh1)" using redirect_enter_opens [OF out, of sh r sp] e by simp
    show ?thesis
    proof (cases res)
      case (Done rs)
      obtain y sh2 where b: "body sh1 = (y, sh2)" by fastforce
      have v: "undo (RedirectF rs) (view_of sh2) = Some (view_of sh)"
        using o Done keepsD [OF body b] by (simp add: opens_over_def del: undo.simps)
      have l: "view_of sh3 = view_of sh" if "redirect_leave out rs c sh2 = (z, sh3)" for c z sh3
        using view_redirect_leave [OF out, of rs sh2 c] v that by simp
      have a: "view_of (redirect_abandon out rs sh2) = view_of sh"
        using view_redirect_abandon [OF out, of rs sh2] v by simp
      show ?thesis
        using False e Done b l a
        by (auto simp: with_redirects_def after_def simp del: undo.simps split: flow.splits prod.splits)
    qed (use False e o in \<open>simp_all add: with_redirects_def after_def opens_over_def\<close>)
  qed
  then show ?thesis by (simp add: keeps_def)
qed

section \<open>Builtins and externals\<close>

lemma keeps_call_body:
  assumes "keeps_outside p out" shows "keeps p (call_body out n args site)"
proof -
  have "keeps p (o_body out n args site)" using assms by (rule keeps_outsideD)
  then show ?thesis
    by (auto simp: keeps_def call_body_def after_def split: flow.splits prod.splits)
      (metis snd_conv)+
qed

lemma keeps_framed:
  "keeps view_of f \<Longrightarrow> keeps view_of (framed n sp f)"
  unfolding framed_def by (rule keeps_at_site, rule keeps_locating)

lemma keeps_run_native:
  "keeps_outside view_of out \<Longrightarrow> keeps view_of (run_native out n args site sp)"
  unfolding run_native_def by (rule keeps_framed, rule keeps_call_body)

lemma keeps_run_boundary:
  "keeps_outside view_of out \<Longrightarrow> keeps view_of (run_boundary out n args site sp)"
  using keeps_run_native by (force simp: run_boundary_def keeps_def)

lemma keeps_run_base_frame:
  "keeps_outside view_of out \<Longrightarrow> keeps view_of (run_base_frame out n args r sp)"
  unfolding run_base_frame_def by (intro keeps_framed keeps_with_redirects keeps_call_body)

lemma keeps_run_external:
  "keeps_outside view_of out \<Longrightarrow> keeps view_of (run_external out c adm args r sp)"
  unfolding run_external_def
  by (intro keeps_at_site keeps_locating keeps_with_redirects keeps_outsideD)

chapter \<open>What a run gives back\<close>

text \<open>
  What a run gives back: whatever way it ends, by a value, a break or a panic, the standard streams,
  the scope, the cradle, the call site, the audit policy and the grants are those it was entered
  with.
\<close>

section \<open>Doors and pushes\<close>

lemma view_within_enter [simp]: "view_of (snd (within_enter ws sh)) = view_of sh"
  by (auto simp: within_enter_def view_of_def Let_def split: option.split prod.split)

lemma keeps_parse_options:
  assumes out: "keeps_outside view_of out"
  shows "keeps view_of (parse_options out os es ws)"
proof -
  have d: "keeps view_of (parse_dir out v)" for v
    using keeps_outsideD(11) [OF out] by (simp add: parse_dir_def keeps_def Let_def)
  have "keeps view_of (\<lambda>sh. parse_options out os es ws sh)"
  proof (induction os arbitrary: ws)
    case (Cons o' os)
    obtain k v where o': "o' = (k, v)" by (cases o')
    from Cons show ?case
      by (cases "k = ''env'' \<or> k = ''dir'' \<or> k = ''handler''")
        (auto simp: o' intro!: keeps_ensure keeps_after d)
  qed (simp add: keeps_def)
  then show ?thesis .
qed

lemma keeps_within_parse: "keeps_outside view_of out \<Longrightarrow> keeps view_of (within_parse out m as)"
  unfolding within_parse_def by (intro keeps_ensure keeps_parse_options)

lemma view_door:
  assumes out: "keeps_outside view_of out" and d: "door out sh sh'"
  shows "view_of sh' = view_of sh"
  using d
proof (cases rule: door.cases)
  case (refused r sp x)
  with redirect_enter_opens [OF out, of sh r sp] show ?thesis
    by (cases x) (simp_all add: opens_over_def)
next
  case (drained bs)
  then show ?thesis by (simp add: view_of_def)
qed (simp_all add: keepsE [OF keeps_run_native [OF out]] keepsE [OF keeps_run_base_frame [OF out]]
    keepsE [OF keeps_run_external [OF out]] keepsE [OF keeps_within_parse [OF out]]
    keepsE [OF keeps_outsideD(2) [OF out]] keepsE [OF keeps_outsideD(4) [OF out]]
    keepsE [OF keeps_outsideD(5) [OF out]] keepsE [OF keeps_outsideD(7) [OF out]]
    keepsE [OF keeps_outsideD(12) [OF out]])

lemma view_opens:
  assumes out: "keeps_outside view_of out" and o: "opens out f sh sh'"
  shows "undo f (view_of sh') = Some (view_of sh)"
  using o
proof (cases rule: opens.cases)
  case plain
  then show ?thesis by (cases f) simp_all
next
  case (redirect r sp rs)
  with redirect_enter_opens [OF out, of sh r sp] show ?thesis by (simp add: opens_over_def)
next
  case (within ws u)
  with view_within_enter [of ws sh] show ?thesis by simp
next
  case (grant l)
  with keeps_outsideD(10) [OF out] show ?thesis
    by (simp add: steady_def view_of_def remove_def push_def)
next
  case (gather i sh1 sp k)
  then have "view_of sh1 = view_of sh" using keepsD [OF keeps_outsideD(6) [OF out]] by blast
  with gather show ?thesis by (simp add: view_of_def)
qed (auto simp: view_of_def audit_open_def split: option.splits)

lemma view_grown:
  assumes out: "keeps_outside view_of out"
  shows "grown out s t \<Longrightarrow>
    \<exists>new. fst t = new @ fst s \<and> list_all (\<lambda>f. \<not> is_call_site f) new
      \<and> unwind new (view_of (snd t)) = Some (view_of (snd s))"
proof (induction rule: grown.induct)
  case (through s st sh sh')
  with view_door [OF out] show ?case by simp
next
  case (pushed s st sh f sh')
  then obtain new where "st = new @ fst s" "list_all (\<lambda>f. \<not> is_call_site f) new"
    "unwind new (view_of sh) = Some (view_of (snd s))" by auto
  with pushed opens_not_site view_opens [OF out] show ?case
    by (intro exI [of _ "f # new"]) auto
next
  case (sited st p sh st' sh')
  moreover have "(view_of sh)\<lparr>v_site := call_site (sh_audit sh)\<rparr> = view_of sh"
    by (simp add: view_of_def)
  ultimately show ?case by (auto simp: unwind_site)
next
  case (onward s t u)
  then show ?case by (auto simp: unwind_append)
qed simp

section \<open>Moves\<close>

definition bracketed :: "view \<Rightarrow> 'w conf \<Rightarrow> bool" where
  "bracketed v s \<longleftrightarrow> unwind (fst s) (view_of (snd s)) = Some v"

lemma bracketed_grown:
  "keeps_outside view_of out \<Longrightarrow> grown out s t \<Longrightarrow> bracketed v s \<Longrightarrow> bracketed v t"
  using view_grown [of out s t] by (auto simp: bracketed_def unwind_append)

lemma bracketed_enter_call: "bracketed v s \<Longrightarrow> bracketed v (enter_call name sp s)"
proof (cases "resolvable (sh_sources (snd s)) sp")
  case (Some p)
  have again: "(view_of (snd s))\<lparr>v_site := call_site (sh_audit (snd s))\<rparr> = view_of (snd s)"
    by (simp add: view_of_def)
  assume "bracketed v s"
  with Some again show ?thesis
    by (cases "fst s" rule: list.exhaust; cases "hd (fst s)")
      (simp_all add: enter_call_def enter_frame_def bracketed_def restore_site_def [symmetric])
qed (simp add: enter_call_def enter_frame_def bracketed_def)

lemma view_closes:
  assumes out: "keeps_outside view_of out" and c: "closes out f sh sh'"
    and u: "undo f (view_of sh) = Some v"
  shows "view_of sh' = v"
  using c
proof (cases rule: closes.cases)
  case plain
  with u show ?thesis by (cases f) simp_all
next
  case (redirect rs c)
  with view_redirect_leave [OF out, of rs sh c] u show ?thesis by simp
next
  case (torn rs)
  with view_redirect_abandon [OF out, of rs sh] u show ?thesis by simp
next
  case (ended i prev sp)
  with keeps_outsideD(8) [OF out] u show ?thesis by (auto simp: steady_def view_of_def)
next
  case (dropped i prev sp)
  with keeps_outsideD(9) [OF out] u show ?thesis by (auto simp: steady_def view_of_def)
qed (use u in \<open>auto simp: view_of_def within_undo_apply_def audit_close_def Let_def
    restore_site_def split: option.splits\<close>)

lemma bracketed_moves:
  assumes out: "keeps_outside view_of out" and "bracketed v s" and "moves out s t"
  shows "bracketed v t"
  using assms(3)
proof (cases rule: moves.cases)
  case rule
  with assms show ?thesis by (blast intro: bracketed_grown)
next
  case (called name sp)
  with assms show ?thesis by (blast intro: bracketed_grown bracketed_enter_call)
next
  case (frame f sh sh' st)
  with assms(2) obtain u where "undo f (view_of sh) = Some u" "unwind st u = Some v"
    by (auto simp: bracketed_def split: option.splits)
  with frame view_closes [OF out] have "bracketed v (st, sh')" by (simp add: bracketed_def)
  with frame show ?thesis by (blast intro: bracketed_grown [OF out])
qed

section \<open>Runs\<close>

lemma abandon_view:
  assumes out: "keeps_outside view_of out" and u: "undo f (view_of sh) = Some v"
  obtains sh' where "abandon out f sh = (Done (), sh')" "view_of sh' = v"
proof -
  have "view_of (redirect_abandon out rs sh) = v" if "f = RedirectF rs" for rs
    using view_redirect_abandon [OF out, of rs sh] u that by simp
  moreover have "steady view_of (o_drop_owner out i)" for i using out by (rule keeps_outsideD)
  ultimately have "\<exists>sh'. abandon out f sh = (Done (), sh') \<and> view_of sh' = v"
    using u
    by (cases f) (auto simp: steady_def view_of_def within_undo_apply_def audit_close_def Let_def
        restore_site_def split: option.splits)
  with that show ?thesis by blast
qed

lemma abandon_all_view:
  assumes out: "keeps_outside view_of out"
  shows "unwind st (view_of sh) = Some v \<Longrightarrow> view_of (abandon_all out st sh) = v"
proof (induction st arbitrary: sh)
  case (Cons f st)
  then obtain u where u: "undo f (view_of sh) = Some u" "unwind st u = Some v"
    by (auto split: option.splits)
  from abandon_view [OF out u(1)] obtain sh' where "abandon out f sh = (Done (), sh')" "view_of sh' = u" .
  with Cons.IH u(2) show ?case by simp
qed simp

lemma view_depth [simp]: "view_of (sh\<lparr>sh_depth := n\<rparr>) = view_of sh"
  by (simp add: view_of_def)

lemma run_restores:
  assumes out: "keeps_outside view_of out" and seed: "\<And>s. grows out s (seed s)"
    and r: "run fuel out seed sh = Some (r, sh')"
  shows "view_of sh' = view_of sh"
proof (cases "sh_depth sh \<ge> nested_machine_limit")
  case False
  define sh0 where "sh0 = sh\<lparr>sh_depth := Suc (sh_depth sh)\<rparr>"
  obtain r0 s0 where s0: "seed ([], sh0) = (r0, s0)" by (cases "seed ([], sh0)")
  have "grown out ([], sh0) s0" using seed [of "([], sh0)"] by (simp add: s0)
  then have b0: "bracketed (view_of sh) s0"
    by (rule bracketed_grown [OF out]) (simp add: bracketed_def sh0_def)
  from r False obtain g s where d: "drive fuel out (settle r0) s0 = Some (g, s)"
    and end_of: "(case g of
        Some f \<Rightarrow> (end_of_run f, (snd s)\<lparr>sh_depth := sh_depth (snd s) - 1\<rparr>)
      | None \<Rightarrow> (Panicked, abandon_all out (fst s) ((snd s)\<lparr>sh_depth := sh_depth (snd s) - 1\<rparr>))) = (r, sh')"
    by (auto simp: run_def s0 sh0_def [symmetric] Let_def simp del: One_nat_def)
  have b: "bracketed (view_of sh) s" using b0 bracketed_moves [OF out] d by (rule drive_induct)
  show ?thesis
  proof (cases g)
    case None
    with b end_of abandon_all_view [OF out] show ?thesis by (auto simp: bracketed_def)
  next
    case (Some f)
    with d have "fst s = []" by (blast intro: finished_empty drive_finished)
    with b end_of Some show ?thesis by (auto simp: bracketed_def)
  qed
qed (use r in \<open>simp add: run_def\<close>)


lemma evaluate_restores:
  "keeps_outside view_of out \<Longrightarrow> evaluate fuel out c \<rho> sh = Some (r, sh') \<Longrightarrow> view_of sh' = view_of sh"
  unfolding evaluate_def by (rule run_restores [OF _ grows_at_once(1)])

lemma apply_restores:
  "keeps_outside view_of out \<Longrightarrow> apply_value fuel out f args sh = Some (r, sh') \<Longrightarrow> view_of sh' = view_of sh"
  unfolding apply_value_def apply_machine_def
  by (auto intro: run_restores [OF _ grows_call] split: rvalue.splits)

end
