(* ===== verification/Machine_Blind.thy ===== *)
theory Machine_Blind
  imports Machine_Frames
begin

text \<open>
  The parts of the shell state the machine never writes: the session environment, the signature, the
  registered sources, the stack limit, the depth.  A reading that is blind to what frames and
  doors write is kept by every move.  With the limit kept, the stack never outgrows it.
\<close>

section \<open>Blind readings\<close>

locale blind =
  fixes p :: "'w shell_state \<Rightarrow> 'a"
  assumes stdout: "p (sh\<lparr>sh_stdout := k\<rparr>) = p sh"
    and stderr: "p (sh\<lparr>sh_stderr := k\<rparr>) = p sh"
    and buffers: "p (sh\<lparr>sh_buffers := bs\<rparr>) = p sh"
    and audit: "p (sh\<lparr>sh_audit := a\<rparr>) = p sh"
    and handlers: "p (sh\<lparr>sh_handlers := hs\<rparr>) = p sh"
    and grants: "p (sh\<lparr>sh_grants := g\<rparr>) = p sh"
    and scope: "p (sh\<lparr>sh_scope := n\<rparr>) = p sh"
    and cradle: "p (sh\<lparr>sh_cradle := n\<rparr>) = p sh"
    and cwd: "p (sh\<lparr>sh_cwd := d\<rparr>) = p sh"
    and overrides: "p (sh\<lparr>sh_overrides := os\<rparr>) = p sh"
begin

lemmas unseen = stdout stderr buffers audit handlers grants scope cradle cwd overrides

lemma site_unseen: "p (restore_site q sh) = p sh"
  by (simp add: restore_site_def audit)

lemma at_site_keeps: "keeps p f \<Longrightarrow> keeps p (at_site name sp f)"
  by (auto simp: keeps_def at_site_def enter_frame_def restore_displaced_def site_unseen
      restore_site_def [symmetric] split: option.split prod.split) (metis site_unseen snd_conv)+

lemma tear_down_keeps: "keeps_outside p out \<Longrightarrow> p (tear_down out rs sh) = p sh"
  using keeps_outsideD(14) [of p out] keeps_outsideD(16) [of p out]
  by (simp add: tear_down_def Let_def steady_def unseen)

lemma leave_keeps: "keeps_outside p out \<Longrightarrow> p (snd (redirect_leave out rs c sh)) = p sh"
  unfolding redirect_leave_def
  by (subst keepsE [OF at_site_keeps [OF keeps_locating]])
    (simp_all add: keeps_outsideD tear_down_keeps)

lemma abandon_keeps: "keeps_outside p out \<Longrightarrow> p (redirect_abandon out rs sh) = p sh"
  using keeps_outsideD(18) [of p out] by (simp add: redirect_abandon_def steady_def tear_down_keeps)

lemma install_keeps: "p (snd (install_sinks so se sh)) = p sh"
  by (simp add: install_sinks_def unseen)

lemma enter_keeps:
  assumes out: "keeps_outside p out" shows "keeps p (redirect_enter out r sp)"
proof -
  have "p (snd (redirect_open out r sp sh)) = p sh" for sh
  proof -
    obtain x sh1 where i: "o_stdin out (rd_stdin r) sh = (x, sh1)" by fastforce
    obtain ints res sh2 where o: "open_sinks out r sh1 = (ints, res, sh2)" by (metis prod.exhaust)
    have "p sh1 = p sh" using keeps_outsideD(13) [OF out] i by (rule keepsD)
    moreover have "p sh2 = p sh1" using keeps_open_sinks [OF out, of r sh1] o by simp
    moreover have "p (snd (o_settle out ints False sh2)) = p sh2"
      "p (o_restore_stdin out g s) = p s" for g s
      using keeps_outsideD(17) [OF out, of ints False] keeps_outsideD(14) [OF out, of g]
      by (simp_all add: keeps_def steady_def)
    moreover have "p sh3 = p sh2" if "install_sinks so se sh2 = (y, sh3)" for so se y sh3
      using install_keeps [of so se sh2] that by simp
    ultimately show ?thesis
      using i o by (auto simp: redirect_open_def after_def split: flow.split prod.split)
  qed
  then have "keeps p (redirect_open out r sp)" by (simp add: keeps_def)
  then show ?thesis unfolding redirect_enter_def by (intro at_site_keeps keeps_locating)
qed

lemma with_redirects_keeps:
  assumes out: "keeps_outside p out" and body: "keeps p body"
  shows "keeps p (with_redirects out r sp body)"
proof -
  have "p (snd (with_redirects out r sp body sh)) = p sh" for sh
  proof -
    obtain res sh1 where e: "redirect_enter out r sp sh = (res, sh1)" by fastforce
    obtain y sh2 where b: "body sh1 = (y, sh2)" by fastforce
    have 1: "p sh1 = p sh" using enter_keeps [OF out] e by (rule keepsD)
    have 2: "p sh2 = p sh1" using body b by (rule keepsD)
    have 3: "p sh3 = p sh2" if "redirect_leave out rs c sh2 = (z, sh3)" for rs c z sh3
      using leave_keeps [OF out, of rs c sh2] that by simp
    show ?thesis
      using body e b 1 2 3 abandon_keeps [OF out]
      by (auto simp: with_redirects_def after_def keepsE split: flow.split prod.split)
  qed
  then show ?thesis by (simp add: keeps_def)
qed

lemma door_keeps:
  assumes out: "keeps_outside p out" and d: "door out sh sh'"
  shows "p sh' = p sh"
proof -
  have native: "keeps p (run_native out n args si sp)" for n args si sp
    unfolding run_native_def framed_def by (intro at_site_keeps keeps_locating keeps_call_body out)
  have base: "keeps p (run_base_frame out n args r sp)" for n args r sp
    unfolding run_base_frame_def framed_def
    by (intro at_site_keeps keeps_locating with_redirects_keeps keeps_call_body out)
  have ext: "keeps p (run_external out c adm args r sp)" for c adm args r sp
    unfolding run_external_def
    by (intro at_site_keeps keeps_locating with_redirects_keeps keeps_outsideD out)
  have dir: "keeps p (parse_dir out v)" for v
    using keeps_outsideD(11) [OF out] by (simp add: parse_dir_def keeps_def Let_def)
  have "keeps p (\<lambda>sh. parse_options out os es ws sh)" for os es ws
  proof (induction os arbitrary: ws)
    case (Cons o' os)
    obtain k v where o': "o' = (k, v)" by (cases o')
    from Cons show ?case
      by (cases "k = ''env'' \<or> k = ''dir'' \<or> k = ''handler''")
        (auto simp: o' intro!: keeps_ensure keeps_after dir)
  qed (simp add: keeps_def)
  then have opts: "keeps p (within_parse out m as)" for m as
    unfolding within_parse_def by (intro keeps_ensure)
  show ?thesis
    using d
    by (cases rule: door.cases)
      (auto simp: keepsE [OF native] keepsE [OF base] keepsE [OF ext] keepsE [OF opts] unseen
        keepsE [OF keeps_outsideD(2) [OF out]] keepsE [OF keeps_outsideD(4) [OF out]]
        keepsE [OF keeps_outsideD(5) [OF out]] keepsE [OF keeps_outsideD(7) [OF out]]
        keepsE [OF keeps_outsideD(12) [OF out]] dest: keepsD [OF enter_keeps [OF out]])
qed

lemma opens_keeps:
  assumes out: "keeps_outside p out" and o: "opens out f sh sh'"
  shows "p sh' = p sh"
  using o
proof (cases rule: opens.cases)
  case (within ws u)
  then show ?thesis
    by (auto simp: within_enter_def Let_def unseen split: option.splits prod.splits)
next
  case (gather i sh1 sp k)
  then have "p sh1 = p sh" using keepsD [OF keeps_outsideD(6) [OF out]] by blast
  with gather show ?thesis by (simp add: unseen)
qed (use keeps_outsideD(10) [OF out] in \<open>auto simp: unseen steady_def
    dest: keepsD [OF enter_keeps [OF out]]\<close>)

lemma closes_keeps:
  assumes out: "keeps_outside p out" and c: "closes out f sh sh'"
  shows "p sh' = p sh"
  using c
  by (cases rule: closes.cases)
    (use keeps_outsideD(8) [OF out] keeps_outsideD(9) [OF out] leave_keeps [OF out]
      abandon_keeps [OF out] in \<open>auto simp: unseen site_unseen steady_def within_undo_apply_def Let_def
      split: option.splits\<close>)

lemma abandon_frame_keeps:
  assumes "keeps_outside p out" shows "keeps p (abandon out f)"
proof -
  have "p (snd (abandon out f sh)) = p sh" for sh
    using keeps_outsideD(9) [OF assms] abandon_keeps [OF assms]
    by (cases f) (auto simp: unseen site_unseen steady_def within_undo_apply_def Let_def split: option.split)
  then show ?thesis by (simp add: keeps_def)
qed

lemma abandon_all_keeps:
  assumes "keeps_outside p out" shows "p (abandon_all out st sh) = p sh"
proof (induction st arbitrary: sh)
  case (Cons f st)
  obtain x sh' where a: "abandon out f sh = (x, sh')" by fastforce
  with abandon_frame_keeps [OF assms] have "p sh' = p sh" by (rule keepsD)
  with Cons a show ?case by (simp split: flow.split)
qed simp

lemma enter_call_keeps: "p (snd (enter_call name sp s)) = p (snd s)"
  by (auto simp: enter_call_def enter_frame_def audit split: option.split list.split frame.split)

lemma grown_keeps:
  assumes out: "keeps_outside p out"
  shows "grown out s t \<Longrightarrow> p (snd t) = p (snd s)"
  by (induction rule: grown.induct)
    (simp_all add: site_unseen door_keeps [OF out] opens_keeps [OF out])

lemma moves_keep:
  assumes "keeps_outside p out" "moves out s t"
  shows "p (snd t) = p (snd s)"
  using assms(2)
  by (cases rule: moves.cases)
    (simp_all add: grown_keeps [OF assms(1)] enter_call_keeps closes_keeps [OF assms(1)])

lemma run_keeps:
  assumes out: "keeps_outside p out" and seed: "\<And>s. grows out s (seed s)"
    and deep: "\<And>sh d. p (sh\<lparr>sh_depth := d\<rparr>) = p sh"
    and r: "run fuel out seed sh = Some (r, sh')"
  shows "p sh' = p sh"
proof (cases "sh_depth sh \<ge> nested_machine_limit")
  case False
  define sh0 where "sh0 = sh\<lparr>sh_depth := Suc (sh_depth sh)\<rparr>"
  obtain r0 s0 where s0: "seed ([], sh0) = (r0, s0)" by (cases "seed ([], sh0)")
  from r False obtain g s where d: "drive fuel out (settle r0) s0 = Some (g, s)"
    and end_of: "sh' = (snd s)\<lparr>sh_depth := sh_depth (snd s) - 1\<rparr>
      \<or> sh' = abandon_all out (fst s) ((snd s)\<lparr>sh_depth := sh_depth (snd s) - 1\<rparr>)"
    by (auto simp: run_def s0 sh0_def [symmetric] Let_def simp del: One_nat_def split: option.splits)
  have "p (snd s0) = p sh0" using grown_keeps [OF out seed [of "([], sh0)"]] by (simp add: s0)
  moreover have "p (snd s) = p sh" if "p (snd s0) = p sh"
    using that _ d by (rule drive_induct) (simp add: moves_keep [OF out])
  ultimately have "p (snd s) = p sh" by (simp add: sh0_def deep)
  with end_of show ?thesis by (auto simp: deep abandon_all_keeps [OF out])
qed (use r in \<open>simp add: run_def\<close>)

lemma evaluate_keeps:
  "keeps_outside p out \<Longrightarrow> (\<And>sh d. p (sh\<lparr>sh_depth := d\<rparr>) = p sh) \<Longrightarrow>
     evaluate fuel out c \<rho> sh = Some (r, sh') \<Longrightarrow> p sh' = p sh"
  unfolding evaluate_def by (rule run_keeps [OF _ grows_at_once(1)])

end

interpretation limit: blind sh_stack_limit by unfold_locales simp_all
interpretation session: blind sh_env by unfold_locales simp_all
interpretation signature: blind sh_sig by unfold_locales simp_all
interpretation sources: blind sh_sources by unfold_locales simp_all
interpretation depth: blind sh_depth by unfold_locales simp_all


section \<open>The stack cap\<close>

definition within_cap :: "'w conf \<Rightarrow> bool" where
  "within_cap s \<longleftrightarrow> comp_frames (fst s) \<le> sh_stack_limit (snd s)"

text \<open>No two call sites are adjacent: tail calls share one.\<close>

fun spaced :: "frame list \<Rightarrow> bool" where
  "spaced (f # g # st) \<longleftrightarrow> \<not> (is_call_site f \<and> is_call_site g) \<and> spaced (g # st)"
| "spaced _ = True"

lemma spaced_push: "\<not> is_call_site f \<Longrightarrow> spaced st \<Longrightarrow> spaced (f # st)"
  by (cases st) simp_all

lemma spaced_pop: "spaced (f # st) \<Longrightarrow> spaced st"
  by (cases st) simp_all

lemma comp_frames_Cons: "comp_frames (f # st) = (if is_call_site f then 0 else 1) + comp_frames st"
  by (simp add: comp_frames_def)

lemma spaced_length_top:
  "spaced st \<Longrightarrow> length st \<le> 2 * comp_frames st + (if st \<noteq> [] \<and> is_call_site (hd st) then 1 else 0)"
proof (induction st)
  case (Cons f st)
  then show ?case
    by (cases st) (auto simp: comp_frames_Cons split: if_splits)
qed simp

lemma spaced_length: "spaced st \<Longrightarrow> length st \<le> 2 * comp_frames st + 1"
  using spaced_length_top [of st] by (simp split: if_splits)

definition well_stacked :: "'w conf \<Rightarrow> bool" where
  "well_stacked s \<longleftrightarrow> comp_frames (fst s) \<le> sh_stack_limit (snd s) \<and> spaced (fst s)"

lemma well_stacked_grown:
  assumes out: "keeps_outside sh_stack_limit out"
  shows "grown out s t \<Longrightarrow> well_stacked s \<Longrightarrow> well_stacked t"
proof (induction rule: grown.induct)
  case (through s st sh sh')
  with limit.door_keeps [OF out] show ?case by (simp add: well_stacked_def)
next
  case (pushed s st sh f sh')
  with limit.opens_keeps [OF out pushed.hyps(3)] opens_not_site [OF pushed.hyps(3)] show ?case
    by (simp add: well_stacked_def comp_frames_Cons spaced_push)
qed (auto simp: well_stacked_def limit.site_unseen)

lemma well_stacked_moves:
  assumes out: "keeps_outside sh_stack_limit out" and s: "well_stacked s" and m: "moves out s t"
  shows "well_stacked t"
  using m
proof (cases rule: moves.cases)
  case rule
  with s show ?thesis by (blast intro: well_stacked_grown [OF out])
next
  case (called name sp)
  have "well_stacked (enter_call name sp s)"
    using s
    by (cases "fst s"; cases "hd (fst s)")
      (auto simp: well_stacked_def enter_call_def enter_frame_def comp_frames_Cons split: option.split)
  with called show ?thesis by (blast intro: well_stacked_grown [OF out])
next
  case (frame f sh sh' st)
  then have "well_stacked (st, sh')"
    using s limit.closes_keeps [OF out]
    by (auto simp: well_stacked_def comp_frames_Cons dest: spaced_pop split: if_splits)
  with frame show ?thesis by (blast intro: well_stacked_grown [OF out])
qed

section \<open>Steps\<close>

text \<open>The configuration after some steps; a finished or panicked machine stays.\<close>

fun steps :: "nat \<Rightarrow> 'w outside \<Rightarrow> focus option \<Rightarrow> 'w conf \<Rightarrow> focus option \<times> 'w conf" where
  "steps 0 out g s = (g, s)"
| "steps (Suc n) out g s =
     (case g of
        None \<Rightarrow> (None, s)
      | Some f \<Rightarrow>
          if finished f (fst s) then (g, s)
          else (let (r, s') = step out f s in steps n out (settle r) s'))"

lemma steps_induct:
  assumes "I s" "\<And>s t. I s \<Longrightarrow> moves out s t \<Longrightarrow> I t"
  shows "I (snd (steps n out g s))"
  using assms(1)
proof (induction n arbitrary: g s)
  case (Suc n)
  have "I t" if "step out f s = (r, t)" for f r t
    using assms(2) [OF Suc.prems step_moves, of f] that by simp
  with Suc show ?case by (auto split: option.split prod.split)
qed simp

text \<open>A run is a run of steps.\<close>

lemma drive_steps: "drive n out g s = Some x \<Longrightarrow> steps n out g s = x"
proof (induction n arbitrary: g s)
  case 0
  then show ?case by (cases g) (auto split: if_splits)
next
  case (Suc n)
  then show ?case by (cases g) (auto split: if_splits prod.splits)
qed

end
