(* ===== verification/Machine_Ends.thy ===== *)
theory Machine_Ends
  imports Machine_Blind Machine_Run
begin

text \<open>
  How a run ends: an escape climbs the stack in as many steps as there are frames, only a cleanup
  stands in its way, and a run of phrases keeps what was defined before it halted.
\<close>

section \<open>Escapes\<close>

text \<open>The same escape, up to who claimed where it struck.\<close>

fun same_escape :: "escape \<Rightarrow> escape \<Rightarrow> bool" where
  "same_escape (Exit m) (Exit n) \<longleftrightarrow> m = n"
| "same_escape (Stopped c o' _) (Stopped d p _) \<longleftrightarrow> c = d \<and> o' = p"
| "same_escape _ _ \<longleftrightarrow> False"

lemma same_escape_refl [simp]: "same_escape e e"
  by (cases e) simp_all

lemma same_escape_trans: "same_escape a b \<Longrightarrow> same_escape b c \<Longrightarrow> same_escape a c"
  by (cases a; cases b; cases c) simp_all

lemma locate_escape: "\<exists>e'. locate name sp n (EscapeB e) = EscapeB e' \<and> same_escape e e'"
  by (cases e) (auto simp: locate_def split: option.split)

fun is_guard :: "frame \<Rightarrow> bool" where
  "is_guard (GuardF _ _) = True"
| "is_guard _ = False"

text \<open>One frame takes an escape and hands it on, or panics.\<close>

definition escapes_with :: "escape \<Rightarrow> frame list \<Rightarrow> focus flow \<times> 'w conf \<Rightarrow> bool" where
  "escapes_with e st r \<longleftrightarrow>
     fst (snd r) = st
     \<and> (fst r = Panicked \<or> (\<exists>e'. fst r = Broke (EscapeB e') \<and> same_escape e e'))"

lemma escapes_undoing:
  assumes "\<And>b sh'. abandon out f (snd s) \<noteq> (Broke b, sh')"
  shows "escapes_with e (fst s) (undoing out f (Broke (EscapeB e)) s)"
  using assms
  by (cases "abandon out f (snd s)"; cases "fst (abandon out f (snd s))")
    (auto simp: undoing_def on_shell_def after_def escapes_with_def)

lemma escape_climbs:
  assumes "\<not> is_guard f"
  shows "escapes_with e st (step_halt out f (EscapeB e) (st, sh))"
proof (cases f)
  case (CallSite p)
  obtain e' where "locate_at (call_site (sh_audit sh)) (sh_sources sh) (EscapeB e) = EscapeB e'"
    "same_escape e e'"
    using locate_escape by (metis locate_at_def)
  with CallSite show ?thesis by (simp add: escapes_with_def halting_def set_site_def)
next
  case (ToF c \<rho>)
  then show ?thesis
    by (auto simp: escapes_with_def halting_def halt_bind_def abandon_tail_def
        split: flow.split comp_kind.splits if_splits)
next
  case (RedirectF rs)
  then show ?thesis
    by (auto simp: escapes_with_def halting_def on_shell_def split: prod.split flow.split)
next
  case (AuditF ts sp)
  then show ?thesis by (auto simp: escapes_with_def halting_def close_scope_def split: prod.split)
next
  case (UnmaskF g)
  then show ?thesis using escapes_undoing [of out f "(st, sh)" e] by simp
next
  case (WithinF u)
  then show ?thesis using escapes_undoing [of out f "(st, sh)" e] by simp
next
  case (GrantF n)
  then show ?thesis
    using escapes_undoing [of out f "(st, sh)" e] by (simp split: option.splits)
qed (use assms in \<open>auto simp: escapes_with_def halting_def abandon_tail_def halt_capture_def
    set_stdout_def set_scope_def set_cradle_def on_conf_def\<close>)

lemma escape_drives:
  "list_all (\<lambda>f. \<not> is_guard f) st \<Longrightarrow>
     \<exists>g s'. drive (length st) out (Some (HaltF (EscapeB e))) (st, sh) = Some (g, s')
       \<and> (g = None \<or> fst s' = [] \<and> (\<exists>e'. g = Some (HaltF (EscapeB e')) \<and> same_escape e e'))"
proof (induction st arbitrary: e sh)
  case (Cons f st)
  obtain r sh1 st1 where r: "step_halt out f (EscapeB e) (st, sh) = (r, (st1, sh1))"
    by (metis prod.exhaust)
  from Cons.prems have "escapes_with e st (r, (st1, sh1))"
    using escape_climbs [of f e st out sh] by (simp add: r)
  then consider "r = Panicked" "st1 = st" | e1 where "r = Broke (EscapeB e1)" "same_escape e e1" "st1 = st"
    by (auto simp: escapes_with_def)
  then show ?case
  proof cases
    case 1
    with r show ?thesis by (cases "length st") (simp_all add: settle_def)
  next
    case 2
    from Cons.IH [of e1 sh1] Cons.prems obtain g s' where
      "drive (length st) out (Some (HaltF (EscapeB e1))) (st, sh1) = Some (g, s')"
      "g = None \<or> fst s' = [] \<and> (\<exists>e'. g = Some (HaltF (EscapeB e')) \<and> same_escape e1 e')" by auto
    with 2 r show ?thesis by (auto simp: settle_def intro: same_escape_trans)
  qed
qed simp

section \<open>Phrases\<close>

definition abreast :: "mode \<Rightarrow> env \<Rightarrow> ran \<Rightarrow> 'w shell_state \<Rightarrow> bool" where
  "abreast mode \<rho> rn sh \<longleftrightarrow> sh_env sh = (if mode = SessionMode then ran_env rn else \<rho>)"

lemma note_all_env:
  "(\<And>n b. steady sh_env (o_note_define out n b)) \<Longrightarrow> sh_env (note_all out bs sh) = sh_env sh"
  unfolding note_all_def by (induction bs arbitrary: sh) (simp_all add: steady_def)

lemma define_landed_abreast:
  assumes "\<And>n b. steady sh_env (o_note_define out n b)" "abreast mode \<rho> rn sh"
    and "define_landed out p ss mode v rn sh = (x, sh')"
  shows "case x of Inl _ \<Rightarrow> sh' = sh | Inr rn' \<Rightarrow> abreast mode \<rho> rn' sh'"
  using assms by (auto simp: define_landed_def abreast_def Let_def split: sum.splits if_splits)

lemma evaluate_session:
  "keeps_outside sh_env out \<Longrightarrow> evaluate fuel out c \<rho> sh = Some (r, sh') \<Longrightarrow> sh_env sh' = sh_env sh"
  by (rule session.evaluate_keeps) simp_all

lemma run_phrase_abreast:
  assumes out: "keeps_outside sh_env out" "\<And>n b. steady sh_env (o_note_define out n b)"
    and a: "abreast mode \<rho> rn sh" and r: "run_phrase fuel out mode p rn sh = Some (x, sh')"
  shows "abreast mode \<rho> (case x of Went rn' \<Rightarrow> rn' | _ \<Rightarrow> rn) sh'"
proof (cases "poll out sh")
  case (Inl b)
  with a r show ?thesis by (auto simp: run_phrase_def Let_def)
next
  case (Inr u)
  show ?thesis
  proof (cases "item p")
    case (RunPhrase c)
    with Inr r obtain y where "evaluate fuel out c (ran_env rn) sh = Some (y, sh')"
      "x = (case y of Done v \<Rightarrow> Went (rn\<lparr>ran_outcome := Done v\<rparr>) | Broke b \<Rightarrow> Halted b | Panicked \<Rightarrow> Unwound)"
      by (auto simp: run_phrase_def Let_def)
    with a evaluate_session [OF out(1)] show ?thesis
      by (cases y) (auto simp: abreast_def)
  next
    case (Define pat c ss)
    with Inr r obtain y sh1 where e: "evaluate fuel out c (ran_env rn) sh = Some (y, sh1)"
      and x: "(x, sh') =
        (case y of
           Broke b \<Rightarrow> (Halted (locate ''let'' (span_of p) (sh_sources sh1) b), sh1)
         | Panicked \<Rightarrow> (Unwound, sh1)
         | Done v \<Rightarrow>
             (case define_landed out pat ss mode v rn sh1 of
                (Inl b, sh) \<Rightarrow> (Halted (locate ''let'' (span_of p) (sh_sources sh) b), sh)
              | (Inr rn, sh) \<Rightarrow> (Went rn, sh)))"
      by (auto simp: run_phrase_def Let_def)
    have a1: "abreast mode \<rho> rn sh1" using a evaluate_session [OF out(1) e] by (simp add: abreast_def)
    show ?thesis
    proof (cases y)
      case (Done v)
      obtain z sh2 where d: "define_landed out pat ss mode v rn sh1 = (z, sh2)" by fastforce
      with define_landed_abreast [OF out(2) a1 d] a1 x Done show ?thesis by (cases z) auto
    qed (use x a1 in auto)
  qed
qed

lemma abreast_outcome [simp]: "abreast mode \<rho> (rn\<lparr>ran_outcome := r\<rparr>) sh = abreast mode \<rho> rn sh"
  by (simp add: abreast_def)

lemma run_each_abreast:
  assumes out: "keeps_outside sh_env out" "\<And>n b. steady sh_env (o_note_define out n b)"
  shows "abreast mode \<rho> rn sh \<Longrightarrow> run_each fuel out mode ps rn sh = Some (rn', sh') \<Longrightarrow>
    abreast mode \<rho> rn' sh'"
proof (induction ps arbitrary: rn sh)
  case (Cons p ps)
  then obtain x sh1 where x: "run_phrase fuel out mode p rn sh = Some (x, sh1)"
    by (auto split: option.splits)
  from run_phrase_abreast [OF out Cons.prems(1) x] Cons x show ?case
    by (cases x) auto
qed simp

text \<open>Phrases that all went well run the same whatever follows them.\<close>

lemma run_each_through:
  "run_each fuel out mode ps rn sh = Some (rn1, sh1) \<Longrightarrow> ran_outcome rn1 = Done v \<Longrightarrow>
     run_each fuel out mode (ps @ qs) rn sh = run_each fuel out mode qs rn1 sh1"
proof (induction ps arbitrary: rn sh)
  case (Cons p ps)
  then show ?case
    by (auto simp: halted_outcome_def split: option.splits ended.splits prod.splits)
qed simp

text \<open>What the phrases defined is added to the environment, every other name read as before.\<close>

definition builds_on :: "ran \<Rightarrow> ran \<Rightarrow> bool" where
  "builds_on rn rn' \<longleftrightarrow>
     (\<exists>new. ran_defined rn' = ran_defined rn @ new
        \<and> (\<forall>n. n \<notin> set new \<longrightarrow> env_get (ran_env rn') n = env_get (ran_env rn) n))"

lemma builds_on_same: "ran_env rn' = ran_env rn \<Longrightarrow> ran_defined rn' = ran_defined rn \<Longrightarrow> builds_on rn rn'"
  by (simp add: builds_on_def)

lemma builds_on_trans: "builds_on a b \<Longrightarrow> builds_on b c \<Longrightarrow> builds_on a c"
  unfolding builds_on_def by (elim exE, rule_tac x = "new @ newa" in exI) auto

lemma get_bind_all:
  "n \<notin> set (map fst bs) \<Longrightarrow> env_get (fold bind_one bs \<rho>) n = env_get \<rho> n"
  by (induction bs arbitrary: \<rho>) (auto simp: bind_one_def)

lemma define_landed_builds_on:
  assumes "define_landed out p ss mode v rn sh = (Inr rn', sh')"
  shows "builds_on rn rn'"
proof -
  obtain bs where "ran_env rn' = fold bind_one bs (ran_env rn)"
    "ran_defined rn' = ran_defined rn @ map fst bs"
    using assms by (auto simp: define_landed_def Let_def split: sum.splits)
  then show ?thesis
    unfolding builds_on_def using get_bind_all by (intro exI [of _ "map fst bs"]) simp
qed

lemma run_phrase_builds_on:
  assumes "run_phrase fuel out mode p rn sh = Some (Went rn', sh')"
  shows "builds_on rn rn'"
proof -
  from assms have polled: "poll out sh = Inr ()"
    by (cases "poll out sh") (simp_all add: run_phrase_def Let_def)
  show ?thesis
  proof (cases "item p")
    case (RunPhrase c)
    with assms polled obtain y where
      "(case y of Done v \<Rightarrow> Went (rn\<lparr>ran_outcome := Done v\<rparr>)
         | Broke b \<Rightarrow> Halted b | Panicked \<Rightarrow> Unwound) = Went rn'"
      by (auto simp: run_phrase_def Let_def)
    then show ?thesis by (cases y) (auto simp: builds_on_def)
  next
    case (Define pat c ss)
    with assms polled obtain r sh1 where "evaluate fuel out c (ran_env rn) sh = Some (r, sh1)"
      and r: "(case r of
          Broke b \<Rightarrow> (Halted (locate ''let'' (span_of p) (sh_sources sh1) b), sh1)
        | Panicked \<Rightarrow> (Unwound, sh1)
        | Done v \<Rightarrow>
            (case define_landed out pat ss mode v rn sh1 of
               (Inl b, sh) \<Rightarrow> (Halted (locate ''let'' (span_of p) (sh_sources sh) b), sh)
             | (Inr rn, sh) \<Rightarrow> (Went rn, sh))) = (Went rn', sh')"
      by (auto simp: run_phrase_def Let_def)
    then obtain v where v: "r = Done v" by (cases r) simp_all
    obtain x sh2 where d: "define_landed out pat ss mode v rn sh1 = (x, sh2)" by fastforce
    with r v have "x = Inr rn'" by (cases x) simp_all
    with d define_landed_builds_on show ?thesis by blast
  qed
qed

lemma run_each_builds_on: "run_each fuel out mode ps rn sh = Some (rn', sh') \<Longrightarrow> builds_on rn rn'"
proof (induction ps arbitrary: rn sh)
  case (Cons p ps)
  then obtain x sh1 where x: "run_phrase fuel out mode p rn sh = Some (x, sh1)"
    by (auto split: option.splits)
  show ?case
  proof (cases x)
    case (Went rn1)
    with x Cons have "builds_on rn1 rn'" by simp
    with x Went show ?thesis by (blast intro: builds_on_trans run_phrase_builds_on)
  qed (use x Cons in \<open>auto intro: builds_on_same\<close>)
qed (simp add: builds_on_same)

section \<open>Fuel\<close>

text \<open>A run that ends, ends the same with more fuel.\<close>

lemma drive_more: "drive m out g s = Some x \<Longrightarrow> m \<le> n \<Longrightarrow> drive n out g s = Some x"
proof (induction m arbitrary: n g s)
  case 0
  then show ?case by (cases g; cases n) (auto split: if_splits)
next
  case (Suc m)
  then obtain k where n: "n = Suc k" by (cases n) auto
  with Suc show ?case by (cases g) (auto split: if_splits prod.splits)
qed

lemma run_more: "run m out seed sh = Some x \<Longrightarrow> m \<le> n \<Longrightarrow> run n out seed sh = Some x"
  by (auto simp: run_def Let_def split: if_splits prod.splits dest: drive_more)

lemma evaluate_more: "evaluate m out c \<rho> sh = Some x \<Longrightarrow> m \<le> n \<Longrightarrow> evaluate n out c \<rho> sh = Some x"
  unfolding evaluate_def by (rule run_more)

end
