(* ===== verification/Machine_Properties.thy ===== *)
theory Machine_Properties
  imports Machine_Ends
begin

text \<open>
  The properties of the machine and of a run of phrases.  Each asks of the calls that are not
  modelled only that they keep some reading of the state; \<open>still\<close> is a host for which they do, and
  the witnesses run programs over it.
\<close>

section \<open>A host\<close>

text \<open>A host whose calls change nothing and answer at once.\<close>

definition still :: "unit outside" where
  "still =
     \<lparr>o_texts = \<lparr>ryu = (\<lambda>_. ''0''), title = decimal\<rparr>, o_poll = (\<lambda>_. None),
      o_body = (\<lambda>n args site. Pair (Done UnitVal)), o_admit = (\<lambda>c. Pair (Done 0)),
      o_external = (\<lambda>a args. Pair (Done UnitVal)), o_pipeline = (\<lambda>ss \<rho>. Pair (Done UnitVal)),
      o_title = (\<lambda>v. Inr ''''), o_spawn = (\<lambda>t v. Pair (Done UnitVal)), o_owner = Pair 0,
      o_cradle = (\<lambda>s n. n), o_exit_brood = (\<lambda>n r. Pair (flow_of r)), o_end_brood = (\<lambda>n sh. sh),
      o_drop_owner = (\<lambda>n sh. sh), o_shield = id, o_grant = (\<lambda>v sh. Inr layer_root),
      o_deputy = (\<lambda>sh. sh), o_arm = (\<lambda>n v sh. Inr None), o_catch_all = (\<lambda>v sh. Inr ()),
      o_dir = (\<lambda>d. Pair (Done d)), o_admitted = (\<lambda>s v. Pair (Done v)),
      o_stdin = (\<lambda>i. Pair (Done 0)), o_restore_stdin = (\<lambda>n sh. sh),
      o_open_write = (\<lambda>m b. Pair (Done (0, None))), o_flush = (\<lambda>sh. sh),
      o_settle = (\<lambda>is c. Pair (Done ())), o_drop_writes = (\<lambda>is sh. sh),
      o_record = (\<lambda>e p sh. UnitVal), o_home = (\<lambda>sh. None), o_shown = (\<lambda>p h. h),
      o_note_define = (\<lambda>n b sh. sh)\<rparr>"

lemma still_keeps: "keeps_outside p still"
  by (simp add: keeps_outside_def still_def keeps_def steady_def)

lemma still_notes: "steady p (o_note_define still n b)"
  by (simp add: still_def steady_def)

definition idle_shell :: "unit shell_state" where
  "idle_shell =
     \<lparr>sh_env = env_new, sh_sig = \<lparr>natives = [], prelude = []\<rparr>, sh_overrides = [], sh_cwd = ''/'',
      sh_grants = stack_root, sh_handlers = hs_over [] [], sh_stdout = TerminalSink,
      sh_stderr = StderrSink, sh_buffers = [], sh_scope = 0, sh_sources = 0, sh_stack_limit = 8,
      sh_audit = \<lparr>trail = None, capture_policy = PolicyOff, call_site = Resolved ''ral'' '''' 0 0\<rparr>,
      sh_cradle = 0, sh_depth = 0, sh_world = ()\<rparr>"

lemmas running = evaluate_def run_def focusing_def settle_def nested_machine_limit_def step_eval_def
  conf_at_site_def enter_frame_def resolvable_def restore_displaced_def located_def eval_rules.simps
  eval_capture_def ensure_def after_def room_def comp_frames_def push_frame_def forming_def
  raised_def giving_def flow_of_def locate_def synthetic_def set_stdout_def on_conf_def halting_def
  halt_capture_def captured_new_def idle_shell_def still_def sig_def err_def lookup_def env_get_def
  sig_get_def polling_def poll_def reserve_push_def abandon_tail_def

definition failing :: comp where
  "failing = synthetic (Capture (synthetic (Return (Variable ''x''))))"

lemma failing_run:
  "evaluate 9 still failing env_new idle_shell
     = Some (Broke (sig (OfValue (UndefinedVariable ''x''))), idle_shell\<lparr>sh_buffers := [captured_new]\<rparr>)"
  by (simp add: running failing_def)

section \<open>Runs\<close>





text \<open>
  C24. An escape ends the run: an exit or a cancellation climbs whatever stack it strikes in, one
  frame a step, and where no cleanup of a \<open>guard\<close> stands in its way it reaches the edge as itself in
  exactly that many steps, or a frame's undoing panics; nothing below runs on.
\<close>

theorem escapes_reach_the_edge:
  assumes "list_all (\<lambda>f. \<not> is_guard f) st"
  shows "\<exists>g s'. drive (length st) out (Some (HaltF (EscapeB e))) (st, sh) = Some (g, s')
    \<and> (g = None \<or> fst s' = [] \<and> (\<exists>e'. g = Some (HaltF (EscapeB e')) \<and> same_escape e e'))"
  by (rule escape_drives [OF assms])

theorem escapes_reach_the_edge_witness:
  "\<exists>g s'. drive 2 still (Some (HaltF (EscapeB (Exit 3)))) ([TryF UnitVal None, CaptureF TerminalSink 0 None], idle_shell)
       = Some (g, s')
    \<and> (g = None \<or> fst s' = [] \<and> (\<exists>e'. g = Some (HaltF (EscapeB e')) \<and> same_escape (Exit 3) e'))"
  using escapes_reach_the_edge [of "[TryF UnitVal None, CaptureF TerminalSink 0 None]" still "Exit 3" idle_shell]
  by simp

section \<open>Phrases\<close>

text \<open>
  C14. What a session defined before it halted stays: phrases that went well run the same whatever
  follows them, and afterwards, however the rest ends, the session reads every name the rest did not
  define as those phrases left it; the session's environment is the one the phrases built, and in
  any other mode it is not touched.
\<close>

theorem definitions_survive_a_halt:
  assumes "keeps_outside sh_env out" and "\<And>n b. steady sh_env (o_note_define out n b)"
    and "mode = SessionMode \<Longrightarrow> sh_env sh = \<rho>"
    and "run_phrases fuel out ps \<rho> mode sh = Some (rn1, sh1)" and "ran_outcome rn1 = Done v"
    and "run_phrases fuel out (ps @ qs) \<rho> mode sh = Some (rn2, sh2)"
  shows "(\<exists>new. ran_defined rn2 = ran_defined rn1 @ new
      \<and> (\<forall>n. n \<notin> set new \<longrightarrow> env_get (ran_env rn2) n = env_get (ran_env rn1) n))
    \<and> sh_env sh2 = (if mode = SessionMode then ran_env rn2 else sh_env sh)"
proof -
  let ?rn = "\<lparr>ran_env = \<rho>, ran_defined = [], ran_outcome = Done UnitVal\<rparr>"
  from assms(4,6) have r: "run_each fuel out mode ps ?rn sh = Some (rn1, sh1)"
    "run_each fuel out mode (ps @ qs) ?rn sh = Some (rn2, sh2)"
    by (simp_all add: run_phrases_def)
  then have "run_each fuel out mode qs rn1 sh1 = Some (rn2, sh2)"
    using run_each_through [OF r(1) assms(5)] by simp
  then have "builds_on rn1 rn2" by (rule run_each_builds_on)
  moreover have "abreast mode (sh_env sh) rn2 sh2"
    by (rule run_each_abreast [OF assms(1,2) _ r(2)]) (use assms(3) in \<open>simp add: abreast_def\<close>)
  ultimately show ?thesis by (simp add: builds_on_def abreast_def)
qed

definition defining :: "phrase spanned" where
  "defining = synthetic (Define (NameP ''y'') (synthetic (Return UnitV)) [])"

theorem definitions_survive_a_halt_witness:
  "\<exists>rn sh b. run_phrases 9 still ([defining] @ [synthetic (RunPhrase failing)]) env_new SessionMode idle_shell
       = Some (rn, sh)
     \<and> ran_outcome rn = Broke b \<and> env_get (sh_env sh) ''y'' = Some UnitVal"
proof -
  obtain rn1 sh1 where d: "run_phrases 9 still [defining] env_new SessionMode idle_shell = Some (rn1, sh1)"
      "ran_outcome rn1 = Done UnitVal" "ran_defined rn1 = [''y'']" "env_get (ran_env rn1) ''y'' = Some UnitVal"
    by (simp add: run_phrases_def run_phrase_def running defining_def define_landed_def
        destructure_def scheme_binding_def bind_one_def Let_def)
  obtain rn sh b where h: "run_phrases 9 still ([defining] @ [synthetic (RunPhrase failing)]) env_new
      SessionMode idle_shell = Some (rn, sh)" "ran_outcome rn = Broke b" "ran_defined rn = [''y'']"
    by (simp add: run_phrases_def run_phrase_def running defining_def define_landed_def failing_def
        destructure_def scheme_binding_def bind_one_def Let_def halted_outcome_def note_all_def)
  have "env_get (sh_env sh) ''y'' = Some UnitVal"
    using definitions_survive_a_halt [OF still_keeps still_notes _ d(1,2) h(1)] d(3,4) h(3)
    by (simp add: idle_shell_def)
  with h(1,2) show ?thesis by blast
qed

end
