(* ===== verification/First_Order.thy ===== *)
theory First_Order
  imports Pure_Ops
begin

text \<open>
  The first-order vocabulary (\<open>core/src/data.rs\<close>) and the walk each way between it and values
  (\<open>core/src/shell/runtime/value/first_order.rs\<close>).  Under them, what a value is as data: a number is
  the number it denotes, a literal its elements; \<open>==\<close> decides equality of the data.
\<close>

section \<open>The vocabulary\<close>

datatype 'x fo =
  FUnit
| FBool bool
| FInt "64 word"
| FFloat finite
| FString bytes
| FBytes bytes
| FList "'x fo list"
| FMap "(bytes \<times> 'x fo) list"
| FVariant name "'x fo option"
| FExt 'x

datatype opaque_kind = OpaqueBlock | OpaqueFunction | OpaqueHandle

definition opacity :: "rvalue \<Rightarrow> opaque_kind option" where
  "opacity v =
     (case v of
        ThunkVal c _ \<Rightarrow> Some (if lam_of (item c) = None then OpaqueBlock else OpaqueFunction)
      | NativeVal _ \<Rightarrow> Some OpaqueFunction
      | HandleVal _ _ \<Rightarrow> Some OpaqueHandle
      | _ \<Rightarrow> None)"

fun opaque_word :: "opaque_kind \<Rightarrow> bytes" where
  "opaque_word OpaqueBlock = ''block''"
| "opaque_word OpaqueFunction = ''function''"
| "opaque_word OpaqueHandle = ''handle''"

definition placeholder :: "opaque_kind \<Rightarrow> 'x fo" where
  "placeholder k = FVariant ''opaque'' (Some (FMap [(''type'', FString (opaque_word k))]))"

section \<open>The walks\<close>

lemma all_ok_cong [fundef_cong]: "xs = ys \<Longrightarrow> all_ok xs = all_ok ys"
  by simp

text \<open>Each leaf that is not data is handed to \<open>leaf\<close>.\<close>

function walk :: "(rvalue \<Rightarrow> 'e + 'x fo) \<Rightarrow> rvalue \<Rightarrow> 'e + 'x fo" where
  "walk leaf v =
     (case v of
        UnitVal \<Rightarrow> Inr FUnit
      | BoolVal b \<Rightarrow> Inr (FBool b)
      | IntVal n \<Rightarrow> Inr (FInt n)
      | FloatVal f \<Rightarrow> Inr (FFloat f)
      | StringVal s \<Rightarrow> Inr (FString s)
      | BytesVal b \<Rightarrow> Inr (FBytes b)
      | ListVal l \<Rightarrow> map_sum id FList (all_ok (map (walk leaf) (list_items l)))
      | MapVal m \<Rightarrow>
          map_sum id FMap
            (all_ok (map (\<lambda>(k, x). map_sum id (Pair k) (walk leaf x)) (map_items m)))
      | VariantVal l p \<Rightarrow>
          (case p of
             None \<Rightarrow> Inr (FVariant l None)
           | Some x \<Rightarrow> map_sum id (\<lambda>d. FVariant l (Some d)) (walk leaf x))
      | _ \<Rightarrow> leaf v)"
  by pat_completeness auto
termination
  by (relation "measure (\<lambda>(leaf, v). rank v)")
    (auto simp: rank_list_item rank_map_item list_of_option_def)

declare walk.simps [simp del]

fun unwalk :: "('x \<Rightarrow> 'e + rvalue) \<Rightarrow> 'x fo \<Rightarrow> 'e + rvalue" where
  "unwalk ext FUnit = Inr UnitVal"
| "unwalk ext (FBool b) = Inr (BoolVal b)"
| "unwalk ext (FInt n) = Inr (IntVal n)"
| "unwalk ext (FFloat f) = Inr (FloatVal f)"
| "unwalk ext (FString s) = Inr (StringVal s)"
| "unwalk ext (FBytes b) = Inr (BytesVal b)"
| "unwalk ext (FList ds) = map_sum id (\<lambda>vs. ListVal (BuiltList vs)) (all_ok (map (unwalk ext) ds))"
| "unwalk ext (FMap es) =
     map_sum id map_of_pairs (all_ok (map (\<lambda>(k, d). map_sum id (Pair k) (unwalk ext d)) es))"
| "unwalk ext (FVariant l p) =
     (case p of
        None \<Rightarrow> Inr (variant l None)
      | Some d \<Rightarrow> map_sum id (\<lambda>v. variant l (Some v)) (unwalk ext d))"
| "unwalk ext (FExt x) = ext x"

text \<open>\<open>FOValue::try_from\<close>: the first leaf that is not data, and whether it sat inside.\<close>

definition try_data :: "rvalue \<Rightarrow> opaque_kind \<times> bool + 'x fo" where
  "try_data v =
     map_sum (\<lambda>k. (k, opacity v = None)) id
       (walk (\<lambda>l. Inl (case opacity l of Some k \<Rightarrow> k | None \<Rightarrow> OpaqueHandle)) v)"

definition scrubbed :: "rvalue \<Rightarrow> 'x fo" where
  "scrubbed v =
     (case walk (\<lambda>l. Inr (placeholder (case opacity l of Some k \<Rightarrow> k | None \<Rightarrow> OpaqueHandle))) v of
        Inr d \<Rightarrow> d | Inl () \<Rightarrow> FUnit)"

section \<open>Round trip\<close>

text \<open>Data as the code builds it: keys in order, each once, and no variant of \<open>Unit\<close>; no extension.\<close>

fun canonical :: "'x fo \<Rightarrow> bool" where
  "canonical (FList ds) \<longleftrightarrow> list_all canonical ds"
| "canonical (FMap es) \<longleftrightarrow> ordered es \<and> list_all (\<lambda>(k, d). canonical d) es"
| "canonical (FVariant l p) \<longleftrightarrow> (case p of None \<Rightarrow> True | Some d \<Rightarrow> d \<noteq> FUnit \<and> canonical d)"
| "canonical (FExt x) \<longleftrightarrow> False"
| "canonical _ \<longleftrightarrow> True"

lemma all_ok_map:
  "(\<And>x. x \<in> set xs \<Longrightarrow> f x = Inr (g x)) \<Longrightarrow> all_ok (map f xs) = Inr (map g xs)"
  by (induction xs) simp_all

lemma ord_map_ordered: "ordered es \<Longrightarrow> ord_map es = es"
proof (induction es rule: rev_induct)
  case (snoc e es)
  obtain k v where e: "e = (k, v)" by fastforce
  with snoc have "ordered es" "\<forall>d\<in>set es. fst d < k" by simp_all
  with snoc.IH show ?case by (simp add: e ord_map_def bt_insert_last)
qed (simp add: ord_map_def)

lemma walk_unwalk:
  "canonical d \<Longrightarrow> \<exists>v. unwalk ext d = Inr v \<and> walk leaf v = Inr d \<and> (v = UnitVal \<longrightarrow> d = FUnit)"
proof (induction d)
  case (FList ds)
  then have "\<forall>d\<in>set ds. \<exists>v. unwalk ext d = Inr v \<and> walk leaf v = Inr d" by (auto simp: list_all_iff)
  then obtain g where g: "\<And>d. d \<in> set ds \<Longrightarrow> unwalk ext d = Inr (g d) \<and> walk leaf (g d) = Inr d"
    by metis
  then have "all_ok (map (unwalk ext) ds) = Inr (map g ds)" by (intro all_ok_map) simp
  moreover have "all_ok (map (walk leaf) (map g ds)) = Inr ds"
    using g all_ok_map [of ds "walk leaf \<circ> g" id] by simp
  ultimately show ?case by (simp add: walk.simps list_items_def)
next
  case (FMap es)
  then have "\<forall>d\<in>snd ` set es. \<exists>v. unwalk ext d = Inr v \<and> walk leaf v = Inr d"
    by (fastforce simp: list_all_iff)
  then obtain g where g: "\<And>d. d \<in> snd ` set es \<Longrightarrow> unwalk ext d = Inr (g d) \<and> walk leaf (g d) = Inr d"
    by metis
  let ?vs = "map (\<lambda>(k, d). (k, g d)) es"
  have "all_ok (map (\<lambda>(k, d). map_sum id (Pair k) (unwalk ext d)) es) = Inr ?vs"
    by (intro all_ok_map) (use g in force)
  moreover have "ordered ?vs"
    using FMap.prems by (simp add: ordered_def split_def comp_def)
  moreover have "all_ok (map (\<lambda>(k, x). map_sum id (Pair k) (walk leaf x)) ?vs) = Inr es"
  proof -
    have "all_ok (map ((\<lambda>(k, x). map_sum id (Pair k) (walk leaf x)) \<circ> (\<lambda>(k, d). (k, g d))) es) = Inr (map id es)"
      by (intro all_ok_map) (use g in force)
    then show ?thesis by simp
  qed
  ultimately show ?case by (simp add: walk.simps map_items_def map_of_pairs_def ord_map_ordered)
next
  case (FVariant l p)
  show ?case
  proof (cases p)
    case (Some d)
    with FVariant obtain v where "unwalk ext d = Inr v" "walk leaf v = Inr d" "v = UnitVal \<longrightarrow> d = FUnit"
      by auto
    with Some FVariant.prems show ?thesis
      by (auto simp: variant_def walk.simps [of leaf "VariantVal l q" for q] split: rvalue.split)
  qed (simp add: variant_def walk.simps)
qed (simp_all add: walk.simps)


section \<open>What a value is as data\<close>

text \<open>A number is what it denotes, in the units of a double, whichever of the two types holds it.\<close>

datatype datum =
  DUnit
| DBool bool
| DNumber int
| DString bytes
| DBytes bytes
| DList "datum list"
| DMap "(bytes \<times> datum) list"
| DVariant name "datum option"

lemma those_cong [fundef_cong]: "xs = ys \<Longrightarrow> those xs = those ys"
  by simp

function datum_of :: "rvalue \<Rightarrow> datum option" where
  "datum_of v =
     (case v of
        UnitVal \<Rightarrow> Some DUnit
      | BoolVal b \<Rightarrow> Some (DBool b)
      | IntVal n \<Rightarrow> Some (DNumber (sint n * int unit_scale))
      | FloatVal f \<Rightarrow> Some (DNumber (units f))
      | StringVal s \<Rightarrow> Some (DString s)
      | BytesVal b \<Rightarrow> Some (DBytes b)
      | ListVal l \<Rightarrow> map_option DList (those (map datum_of (list_items l)))
      | MapVal m \<Rightarrow>
          map_option DMap (those (map (\<lambda>(k, x). map_option (Pair k) (datum_of x)) (map_items m)))
      | VariantVal l p \<Rightarrow>
          (case p of
             None \<Rightarrow> Some (DVariant l None)
           | Some x \<Rightarrow> map_option (\<lambda>d. DVariant l (Some d)) (datum_of x))
      | _ \<Rightarrow> None)"
  by pat_completeness auto
termination
  by (relation "measure rank") (auto simp: rank_list_item rank_map_item list_of_option_def)

declare datum_of.simps [simp del]

section \<open>Order is exact\<close>

fun number_of :: "rvalue \<Rightarrow> int option" where
  "number_of (IntVal n) = Some (sint n * int unit_scale)"
| "number_of (FloatVal f) = Some (units f)"
| "number_of _ = None"

lemma sint_64: "- (2 ^ 63) \<le> sint (n :: 64 word)" "sint (n :: 64 word) < 2 ^ 63"
  using sint_range_size [of n] by (simp_all add: word_size)

lemma reverse_compare: "reverse (compare_int a b) = compare_int b a"
  by (simp add: compare_int_def)

lemma compare_scale: "compare_int a b = compare_int (a * int unit_scale) (b * int unit_scale)"
  by (simp add: compare_int_def mult_less_cancel_right unit_scale_def)

lemma number_order_number:
  "number_order a b =
     (case (number_of a, number_of b) of (Some x, Some y) \<Rightarrow> Some (compare_int x y) | _ \<Rightarrow> None)"
  by (cases a; cases b)
    (simp_all add: number_order_def cmp_int_float_exact [OF sint_64] reverse_compare float_cmp_def
      compare_scale [symmetric])

lemma numeric_number: "numeric v \<longleftrightarrow> number_of v \<noteq> None"
  by (cases v) (simp_all add: numeric_def)

lemma datum_number: "number_of v = Some n \<Longrightarrow> datum_of v = Some (DNumber n)"
  by (cases v) (simp_all add: datum_of.simps)

lemma datum_not_number: "datum_of v = Some d \<Longrightarrow> number_of v = None \<Longrightarrow> d \<noteq> DNumber n"
  by (cases v) (auto simp: datum_of.simps split: option.splits)

lemma compare_equal: "compare_int a b = Equal \<longleftrightarrow> a = b"
  by (simp add: compare_int_def)

section \<open>Equality is equality of data\<close>

lemma those_Some: "those xs = Some ys \<longleftrightarrow> xs = map Some ys"
  by (induction xs arbitrary: ys) (auto split: option.splits)

lemma those_map: "those (map f xs) = Some ys \<longleftrightarrow> list_all2 (\<lambda>x y. f x = Some y) xs ys"
  by (induction xs arbitrary: ys) (auto split: option.splits simp: list_all2_Cons1)

lemma datum_list:
  "datum_of (ListVal l) = Some d \<longleftrightarrow>
     (\<exists>ds. d = DList ds \<and> list_all2 (\<lambda>x y. datum_of x = Some y) (list_items l) ds)"
  by (auto simp: datum_of.simps [of "ListVal l"] those_map)

abbreviation entry_datum :: "bytes \<times> rvalue \<Rightarrow> (bytes \<times> datum) option" where
  "entry_datum \<equiv> \<lambda>(k, x). map_option (Pair k) (datum_of x)"

lemma datum_map:
  "datum_of (MapVal m) = Some d \<longleftrightarrow>
     (\<exists>ds. d = DMap ds \<and> list_all2 (\<lambda>e y. entry_datum e = Some y) (map_items m) ds)"
  by (auto simp: datum_of.simps [of "MapVal m"] those_map)

lemma datum_variant:
  "datum_of (VariantVal l p) = Some d \<longleftrightarrow>
     (case p of None \<Rightarrow> d = DVariant l None | Some x \<Rightarrow> \<exists>e. datum_of x = Some e \<and> d = DVariant l (Some e))"
  by (auto simp: datum_of.simps [of "VariantVal l p"] split: option.split)

lemma all_true_zip:
  assumes "length xs = length ys" "list_all2 (\<lambda>x d. f x = Some d) xs ds" "list_all2 (\<lambda>y d. f y = Some d) ys es"
    and "\<And>x y d e. x \<in> set xs \<Longrightarrow> f x = Some d \<Longrightarrow> f y = Some e \<Longrightarrow> eq (x, y) = Inr (d = e)"
  shows "all_true (map eq (zip xs ys)) = Inr (ds = es)"
  using assms
proof (induction xs arbitrary: ys ds es)
  case (Cons x xs)
  then obtain y ys' d ds' e es' where s: "ys = y # ys'" "ds = d # ds'" "es = e # es'"
    by (cases ys; cases ds; cases es) auto
  with Cons.prems have "eq (x, y) = Inr (d = e)" by simp
  moreover have "all_true (map eq (zip xs ys')) = Inr (ds' = es')"
    using Cons.prems s by (intro Cons.IH) auto
  ultimately show ?case by (cases "d = e") (simp_all add: s)
qed simp

lemma length_items: "list_all2 P xs ds \<Longrightarrow> length ds = length xs"
  by (simp add: list_all2_lengthD)

lemma equals_variant:
  "equals (VariantVal i p) (VariantVal j q) =
     (if i = j
      then (case p of
              Some x \<Rightarrow> (case q of Some y \<Rightarrow> equals x y | None \<Rightarrow> Inr False)
            | None \<Rightarrow> Inr (q = None))
      else Inr False)"
  by (simp add: equals.simps [of "VariantVal i p" "VariantVal j q"] numeric_def)

lemma equals_datum:
  "datum_of a = Some d \<Longrightarrow> datum_of b = Some e \<Longrightarrow> equals a b = Inr (d = e)"
proof (induction "rank a" arbitrary: a b d e rule: less_induct)
  case less
  show ?case
  proof (cases "numeric a \<and> numeric b")
    case True
    then obtain x y where n: "number_of a = Some x" "number_of b = Some y" by (auto simp: numeric_number)
    with less.prems have "d = DNumber x" "e = DNumber y" by (auto dest: datum_number)
    with True n show ?thesis
      by (simp add: equals.simps [of a b] number_order_number compare_equal)
  next
    case False
    consider l k where "a = ListVal l" "b = ListVal k" | m n where "a = MapVal m" "b = MapVal n"
      | i p j q where "a = VariantVal i p" "b = VariantVal j q"
      | "\<nexists>l k. a = ListVal l \<and> b = ListVal k" "\<nexists>m n. a = MapVal m \<and> b = MapVal n"
        "\<nexists>i p j q. a = VariantVal i p \<and> b = VariantVal j q"
      by blast
    then show ?thesis
    proof cases
      case (1 l k)
      with less.prems obtain ds es where d: "d = DList ds" "e = DList es"
        and xs: "list_all2 (\<lambda>x y. datum_of x = Some y) (list_items l) ds"
          "list_all2 (\<lambda>x y. datum_of x = Some y) (list_items k) es"
        by (auto simp: datum_list)
      show ?thesis
      proof (cases "list_len l = list_len k")
        case True
        have "all_true (map (\<lambda>(x, y). equals x y) (zip (list_items l) (list_items k))) = Inr (ds = es)"
          using True xs by (intro all_true_zip) (auto intro: less.hyps simp: 1 rank_list_item)
        with True 1 d show ?thesis by (simp add: equals.simps [of "ListVal l" "ListVal k"] numeric_def)
      next
        case False
        with xs [THEN length_items] have "length ds \<noteq> length es" by simp
        with False 1 d show ?thesis by (auto simp: equals.simps [of "ListVal l" "ListVal k"] numeric_def)
      qed
    next
      case (2 m n)
      from 2 less.prems obtain ds es where d: "d = DMap ds" "e = DMap es"
        and xs: "list_all2 (\<lambda>e y. entry_datum e = Some y) (map_items m) ds"
          "list_all2 (\<lambda>e y. entry_datum e = Some y) (map_items n) es"
        by (auto simp: datum_map)
      show ?thesis
      proof (cases "map_len m = map_len n")
        case True
        have step: "equals x y = Inr (p = q)"
          if "(k, x) \<in> set (map_items m)" "datum_of x = Some p" "datum_of y = Some q" for k x y p q
          by (rule less.hyps) (use that 2 rank_map_item [of k x m] in auto)
        have "all_true (map (\<lambda>((j, x), (k, y)). if j = k then equals x y else Inr False)
            (zip (map_items m) (map_items n))) = Inr (ds = es)"
          using True xs
          by (intro all_true_zip [where f = entry_datum])
            (auto simp: map_len_def step)
        with True 2 d show ?thesis by (simp add: equals.simps [of "MapVal m" "MapVal n"] numeric_def)
      next
        case False
        with xs [THEN length_items] have "length ds \<noteq> length es" by (simp add: map_len_def)
        with False 2 d show ?thesis by (auto simp: equals.simps [of "MapVal m" "MapVal n"] numeric_def)
      qed
    next
      case (3 i p j q)
      have "equals x y = Inr (u = v)" if "p = Some x" "datum_of x = Some u" "datum_of y = Some v" for x y u v
        by (rule less.hyps) (use that 3 in \<open>simp_all add: list_of_option_def\<close>)
      with less.prems 3 show ?thesis
        by (auto simp: equals_variant datum_variant split: option.splits)
    next
      case 4
      with False less.prems show ?thesis
        unfolding equals.simps [of a b] datum_of.simps [of a] datum_of.simps [of b]
        by (cases a; cases b)
          (auto simp: refuse_equality_def opaque_def numeric_def split: option.splits)
    qed
  qed
qed

end
