(* ===== verification/Binding_Lease.thy ===== *)
theory Binding_Lease
  imports First_Order
begin

text \<open>
  The binding-lease ledger (\<open>core/src/shell/runtime/state/bindings.rs\<close>): a host that arms it has idle
  top-level names of a session expire.  An epoch is a committed run.  Whether a handle is live is a
  parameter.
\<close>

section \<open>The ledger\<close>

record lease =
  idle_calls :: nat
  large_binding_bytes :: nat

record armed =
  a_lease :: lease
  a_epoch :: nat
  a_baseline :: "name list"
  a_last_used :: "(name \<times> nat) list"
  a_large :: "(name \<times> nat) list"

type_synonym ledger = "armed option"

definition arm :: "lease \<Rightarrow> name list \<Rightarrow> ledger" where
  "arm l baseline =
     Some \<lparr>a_lease = l, a_epoch = 0, a_baseline = baseline, a_last_used = [], a_large = []\<rparr>"

text \<open>\<open>arm_binding_lease\<close>: every name visible in the scope chain is exempt.\<close>

definition arm_binding_lease :: "lease \<Rightarrow> env \<Rightarrow> signature \<Rightarrow> ledger" where
  "arm_binding_lease l \<rho> \<Sigma> = arm l (map fst (all_bindings \<rho> \<Sigma>))"

definition tick :: "armed \<Rightarrow> armed" where
  "tick a = a\<lparr>a_epoch := Suc (a_epoch a)\<rparr>"

definition stamp :: "name \<Rightarrow> armed \<Rightarrow> armed" where
  "stamp n a = a\<lparr>a_last_used := bt_insert n (a_epoch a) (a_last_used a)\<rparr>"

definition note_install :: "name \<Rightarrow> armed \<Rightarrow> armed" where
  "note_install n a = (if n \<in> set (a_baseline a) then a else stamp n a)"

text \<open>Renewal never starts a lease.\<close>

definition renew_one :: "name \<Rightarrow> armed \<Rightarrow> armed" where
  "renew_one n a = (if map_of (a_last_used a) n = None then a else stamp n a)"

definition renew :: "name list \<Rightarrow> armed \<Rightarrow> armed" where
  "renew ns a = fold renew_one ns a"

definition expired :: "armed \<Rightarrow> (name \<times> nat) list" where
  "expired a =
     filter (\<lambda>e. idle_calls (a_lease a) \<le> snd e)
       (map (\<lambda>(n, last_use). (n, a_epoch a - last_use)) (a_last_used a))"

definition drop_entry :: "name \<Rightarrow> armed \<Rightarrow> armed" where
  "drop_entry n a = a\<lparr>a_last_used := bt_remove n (a_last_used a)\<rparr>"

definition adopt :: "name \<Rightarrow> armed \<Rightarrow> armed" where
  "adopt n a =
     (if n \<in> set (a_baseline a) \<or> map_of (a_last_used a) n \<noteq> None then a else stamp n a)"

definition queue_large :: "name \<Rightarrow> nat \<Rightarrow> armed \<Rightarrow> armed" where
  "queue_large n b a = a\<lparr>a_large := a_large a @ [(n, b)]\<rparr>"

definition take_large :: "ledger \<Rightarrow> (name \<times> nat) list \<times> ledger" where
  "take_large led =
     (case led of None \<Rightarrow> ([], None) | Some a \<Rightarrow> (a_large a, Some (a\<lparr>a_large := []\<rparr>)))"

definition leased_count :: "ledger \<Rightarrow> nat" where
  "leased_count led = (case led of None \<Rightarrow> 0 | Some a \<Rightarrow> length (a_last_used a))"

text \<open>\<open>Shell::note_define\<close>: an install, and a notice when the value is large.\<close>

definition note_define :: "name \<Rightarrow> rvalue \<Rightarrow> ledger \<Rightarrow> ledger" where
  "note_define n v =
     map_option (\<lambda>a.
       let a = note_install n a
       in if large_binding_bytes (a_lease a) \<le> shallow_size v then queue_large n (shallow_size v) a else a)"

section \<open>Pruning\<close>

text \<open>\<open>pins_live_work\<close>: whether a value structurally reaches a live handle.\<close>

function pins_live_work :: "(nat \<Rightarrow> bool) \<Rightarrow> rvalue \<Rightarrow> bool" where
  "pins_live_work live v =
     (case v of
        HandleVal h _ \<Rightarrow> live h
      | ListVal l \<Rightarrow> list_ex id (map (pins_live_work live) (list_items l))
      | MapVal m \<Rightarrow> list_ex id (map (\<lambda>(k, x). pins_live_work live x) (map_items m))
      | VariantVal _ p \<Rightarrow> (case p of None \<Rightarrow> False | Some x \<Rightarrow> pins_live_work live x)
      | _ \<Rightarrow> False)"
  by pat_completeness auto
termination
  by (relation "measure (\<lambda>(live, v). rank v)")
    (auto simp: rank_list_item rank_map_item list_of_option_def)

declare pins_live_work.simps [simp del]

record pruned =
  p_name :: name
  p_idle :: nat
  p_kind :: bytes

definition prune_one ::
  "(nat \<Rightarrow> bool) \<Rightarrow> name \<times> nat \<Rightarrow> pruned list \<times> env \<times> armed \<Rightarrow> pruned list \<times> env \<times> armed" where
  "prune_one live e s =
     (let (out, \<rho>, a) = s in
      case env_get \<rho> (fst e) of
        None \<Rightarrow> (out, \<rho>, drop_entry (fst e) a)
      | Some v \<Rightarrow>
          if pins_live_work live v then (out, \<rho>, a)
          else (out @ [\<lparr>p_name = fst e, p_idle = snd e, p_kind = type_name v\<rparr>],
                snd (env_unset (fst e) \<rho>), drop_entry (fst e) a))"

definition prune :: "(nat \<Rightarrow> bool) \<Rightarrow> ledger \<Rightarrow> env \<Rightarrow> pruned list \<times> env \<times> ledger" where
  "prune live led \<rho> =
     (case led of
        None \<Rightarrow> ([], \<rho>, None)
      | Some a \<Rightarrow>
          (let (out, \<rho>', a') = fold (prune_one live) (expired a) ([], \<rho>, a)
           in (out, \<rho>', Some (fold adopt (env_names \<rho>') a'))))"

section \<open>Laws\<close>

text \<open>No baseline name is ever leased, and a lease has been used no later than now.\<close>

definition ledger_ok :: "armed \<Rightarrow> bool" where
  "ledger_ok a \<longleftrightarrow>
     ordered (a_last_used a)
     \<and> (\<forall>(n, t)\<in>set (a_last_used a). n \<notin> set (a_baseline a) \<and> t \<le> a_epoch a)"

lemma ledger_ok_lookup:
  "ledger_ok a \<longleftrightarrow> ordered (a_last_used a)
     \<and> (\<forall>n t. map_of (a_last_used a) n = Some t \<longrightarrow> n \<notin> set (a_baseline a) \<and> t \<le> a_epoch a)"
  by (auto simp: ledger_ok_def ordered_distinct dest: map_of_SomeD)

lemma stamp_ok: "ledger_ok a \<Longrightarrow> n \<notin> set (a_baseline a) \<Longrightarrow> ledger_ok (stamp n a)"
  by (auto simp: ledger_ok_lookup stamp_def)

lemma note_install_ok: "ledger_ok a \<Longrightarrow> ledger_ok (note_install n a)"
  by (simp add: note_install_def stamp_ok)

lemma leased_not_baseline: "ledger_ok a \<Longrightarrow> map_of (a_last_used a) n \<noteq> None \<Longrightarrow> n \<notin> set (a_baseline a)"
  by (auto simp: ledger_ok_def dest: map_of_SomeD)

lemma renew_one_ok: "ledger_ok a \<Longrightarrow> ledger_ok (renew_one n a)"
  using leased_not_baseline [of a n] by (simp add: renew_one_def stamp_ok)

lemma renew_ok: "ledger_ok a \<Longrightarrow> ledger_ok (renew ns a)"
  unfolding renew_def by (induction ns arbitrary: a) (simp_all add: renew_one_ok)

lemma tick_ok: "ledger_ok a \<Longrightarrow> ledger_ok (tick a)"
  by (force simp: ledger_ok_def tick_def)

lemma adopt_ok: "ledger_ok a \<Longrightarrow> ledger_ok (adopt n a)"
  by (simp add: adopt_def stamp_ok)

lemma drop_entry_ok: "ledger_ok a \<Longrightarrow> ledger_ok (drop_entry n a)"
  by (auto simp: ledger_ok_lookup drop_entry_def split: if_splits)

lemma arm_ok: "arm l b = Some a \<Longrightarrow> ledger_ok a"
  by (auto simp: arm_def ledger_ok_def)

lemma adopt_all:
  "ledger_ok a \<Longrightarrow> ledger_ok (fold adopt ns a) \<and> a_baseline (fold adopt ns a) = a_baseline a
     \<and> a_epoch (fold adopt ns a) = a_epoch a
     \<and> dom (map_of (a_last_used (fold adopt ns a)))
         = dom (map_of (a_last_used a)) \<union> (set ns - set (a_baseline a))"
proof (induction ns arbitrary: a)
  case (Cons n ns)
  have "dom (map_of (a_last_used (adopt n a))) = dom (map_of (a_last_used a)) \<union> ({n} - set (a_baseline a))"
    by (auto simp: adopt_def stamp_def)
  moreover have "a_baseline (adopt n a) = a_baseline a" "a_epoch (adopt n a) = a_epoch a"
    by (simp_all add: adopt_def stamp_def)
  ultimately show ?case using Cons.IH [of "adopt n a"] Cons.prems by (auto simp: adopt_ok)
qed simp

text \<open>What a pass of pruning has done to a name.\<close>

definition pruned_from :: "(nat \<Rightarrow> bool) \<Rightarrow> env \<Rightarrow> (name \<times> nat) list \<Rightarrow> env \<Rightarrow> bool" where
  "pruned_from live \<rho> es \<rho>' \<longleftrightarrow>
     (\<forall>n. env_get \<rho>' n =
        (case env_get \<rho> n of
           None \<Rightarrow> None
         | Some v \<Rightarrow> if n \<in> fst ` set es \<and> \<not> pins_live_work live v then None else Some v))"

lemma get_unset: "env_get (snd (env_unset n \<rho>)) m = (if m = n then None else env_get \<rho> m)"
  by (simp add: env_get_def binding_unset)

lemma prune_fold:
  assumes "fold (prune_one live) es (out, \<rho>, a) = (out', \<rho>', a')" and "ledger_ok a"
  shows "pruned_from live \<rho> es \<rho>' \<and> ledger_ok a' \<and> a_baseline a' = a_baseline a \<and> a_epoch a' = a_epoch a
    \<and> (\<forall>n. n \<notin> fst ` set es \<longrightarrow> map_of (a_last_used a') n = map_of (a_last_used a) n)"
  using assms
proof (induction es arbitrary: out \<rho> a)
  case (Cons e es)
  obtain out1 \<rho>1 a1 where one: "prune_one live e (out, \<rho>, a) = (out1, \<rho>1, a1)" by (metis prod.exhaust)
  then have a1: "ledger_ok a1" "a_baseline a1 = a_baseline a" "a_epoch a1 = a_epoch a"
    "\<And>n. n \<noteq> fst e \<Longrightarrow> map_of (a_last_used a1) n = map_of (a_last_used a) n"
    using Cons.prems(2)
    using drop_entry_ok [of a "fst e"]
    by (auto simp: prune_one_def drop_entry_def split: option.splits if_splits)
  have \<rho>1: "env_get \<rho>1 n =
      (if n = fst e \<and> (\<exists>v. env_get \<rho> n = Some v \<and> \<not> pins_live_work live v) then None else env_get \<rho> n)" for n
    using one by (auto simp: prune_one_def get_unset split: option.splits if_splits)
  from Cons.IH [of out1 \<rho>1 a1] Cons.prems(1) one a1(1) have
    IH: "pruned_from live \<rho>1 es \<rho>'" "ledger_ok a'" "a_baseline a' = a_baseline a1" "a_epoch a' = a_epoch a1"
    "\<forall>n. n \<notin> fst ` set es \<longrightarrow> map_of (a_last_used a') n = map_of (a_last_used a1) n" by auto
  have "pruned_from live \<rho> (e # es) \<rho>'"
    using IH(1) \<rho>1 by (auto simp: pruned_from_def split: option.splits)
  with IH a1 show ?case by auto
qed (simp add: pruned_from_def split: option.splits)

lemma expired_iff:
  "ledger_ok a \<Longrightarrow> n \<in> fst ` set (expired a) \<longleftrightarrow>
     (\<exists>t. map_of (a_last_used a) n = Some t \<and> idle_calls (a_lease a) \<le> a_epoch a - t)"
  by (force simp: expired_def ledger_ok_def image_iff ordered_distinct)


lemma prune_result:
  assumes "ledger_ok a" "prune live (Some a) \<rho> = (out, \<rho>', led)"
  obtains a' where "led = Some a'" "ledger_ok a'" "a_baseline a' = a_baseline a"
    "pruned_from live \<rho> (expired a) \<rho>'"
    "set (env_names \<rho>') \<subseteq> set (a_baseline a') \<union> dom (map_of (a_last_used a'))"
proof -
  obtain out1 \<rho>1 a1 where f: "fold (prune_one live) (expired a) ([], \<rho>, a) = (out1, \<rho>1, a1)"
    by (metis prod.exhaust)
  with assms(2) have r: "\<rho>1 = \<rho>'" "led = Some (fold adopt (env_names \<rho>') a1)"
    by (auto simp: prune_def)
  from prune_fold [OF f assms(1)] r(1) have a1: "ledger_ok a1" "a_baseline a1 = a_baseline a"
    "pruned_from live \<rho> (expired a) \<rho>'" by auto
  with adopt_all [OF a1(1), of "env_names \<rho>'"] r(2) that show ?thesis by auto
qed

end
