(* ===== verification/Value_Laws.thy ===== *)
theory Value_Laws
  imports Binding_Lease Shell_State
begin

text \<open>
  Laws of the operations on values and of the shell state.
\<close>

chapter \<open>Operations on values\<close>

text \<open>
  Laws of the operations on values: what a pattern binds, that integer arithmetic is exact or
  refused, that the shapes of a list literal agree with splicing, what a map literal and an update
  hold.
\<close>

section \<open>Patterns\<close>

lemma then_all_names:
  "then_all r s = Inr bs \<Longrightarrow> (\<And>xs. r = Inr xs \<Longrightarrow> map fst xs = ms) \<Longrightarrow>
     (\<And>ys. s = Inr ys \<Longrightarrow> map fst ys = ns) \<Longrightarrow> map fst bs = ms @ ns"
  by (auto simp: then_all_def split: sum.splits) (metis Inr_Inl_False map_append map_sum.simps obj_sumE sum.inject(2))

lemma stage_names:
  "stage p v = Inr bs \<Longrightarrow> map fst bs = pattern_names p"
  "stage_elems ps vs = Inr bs \<Longrightarrow> length ps \<le> length vs \<Longrightarrow> map fst bs = concat (map pattern_names ps)"
  "stage_fields fds m = Inr bs \<Longrightarrow> map fst bs = concat (map field_names fds)"
proof (induction p v and ps vs and fds m arbitrary: bs and bs and bs rule: stage_stage_elems_stage_fields.induct)
  case (3 ps r v)
  show ?case
  proof (cases v)
    case (ListVal l)
    with 3 have "stage_elems ps (list_items l) = Inr xs \<Longrightarrow> map fst xs = concat (map pattern_names ps)" for xs
      by (auto split: if_splits)
    moreover have "map fst ys = list_of_option r"
      if "Inr (map (\<lambda>n. (n, ListVal (snd (list_split_off (length ps) l)))) (list_of_option r)) = Inr ys" for ys
      using that by (auto simp: comp_def)
    ultimately show ?thesis using 3(2) ListVal then_all_names by (fastforce split: if_splits)
  qed (use 3(2) in auto)
next
  case (4 fds v)
  then show ?case by (cases v) auto
next
  case (6 p ps v vs)
  then show ?case by (auto intro: then_all_names)
next
  case (9 k p fds m)
  then show ?case by (auto split: option.splits intro!: then_all_names)
qed auto

section \<open>Integer arithmetic\<close>

text \<open>The operation on the integers themselves; a division truncates.\<close>

fun exact_op :: "arith_op \<Rightarrow> int \<Rightarrow> int \<Rightarrow> int" where
  "exact_op Add a b = a + b"
| "exact_op Sub a b = a - b"
| "exact_op Mul a b = a * b"
| "exact_op Div a b = a sdiv b"
| "exact_op Mod a b = a smod b"

lemma sint_checked: "checked n = Some w \<Longrightarrow> sint w = n"
  by (auto simp: checked_def in_i64_def i64_min_def signed_take_bit_int_eq_self sint_sbintrunc' split: if_splits)

lemma checked_none: "checked n = None \<longleftrightarrow> \<not> in_i64 n"
  by (simp add: checked_def)

lemma int_op_exact: "int_op op a b = Some w \<Longrightarrow> sint w = exact_op op a b"
  by (cases op) (auto dest: sint_checked split: if_splits)

lemma int_op_none:
  "int_op op a b = None \<longleftrightarrow>
     (op = Div \<or> op = Mod) \<and> (b = 0 \<or> \<not> in_i64 (a sdiv b)) \<or> \<not> in_i64 (exact_op op a b)"
  by (cases op) (auto simp: checked_none)

section \<open>List literals\<close>

lemma items_push_back [simp]: "list_items (list_push_back v l) = list_items l @ [v]"
  by (simp add: list_push_back_def list_items_def)

lemma items_append [simp]: "list_items (list_append l k) = list_items l @ list_items k"
  by (simp add: list_append_def list_items_def)

lemma items_push_front [simp]: "list_items (list_push_front v l) = v # list_items l"
  by (simp add: list_push_front_def list_items_def)

lemma items_built [simp]: "list_items (BuiltList vs) = vs"
  by (simp add: list_items_def)

text \<open>What a list literal denotes: its elements in order, spreads spliced in; the first error.\<close>

fun elem_values :: "env \<Rightarrow> signature \<Rightarrow> val elem \<Rightarrow> error + rvalue list" where
  "elem_values \<rho> \<Sigma> (Single v) = map_sum id (\<lambda>x. [x]) (form \<rho> \<Sigma> (item v))"
| "elem_values \<rho> \<Sigma> (Spread v) =
     (case form \<rho> \<Sigma> (item v) of Inl e \<Rightarrow> Inl e | Inr x \<Rightarrow> map_sum id list_items (spread_list x))"

definition splices :: "env \<Rightarrow> signature \<Rightarrow> val elem list \<Rightarrow> error + rvalue list" where
  "splices \<rho> \<Sigma> es = map_sum id concat (all_ok (map (elem_values \<rho> \<Sigma>) es))"

lemma splice_list_splices:
  "map_sum id list_items (splice_list \<rho> \<Sigma> acc es) = map_sum id (\<lambda>vs. list_items acc @ vs) (splices \<rho> \<Sigma> es)"
proof (induction es arbitrary: acc)
  case (Cons e es)
  show ?case
  proof (cases e)
    case (Single v)
    then show ?thesis
      using Cons.IH by (auto simp: splices_def split: sum.splits)
  next
    case (Spread v)
    then show ?thesis
      using Cons.IH by (auto simp: splices_def split: sum.splits)
  qed
qed (simp add: splices_def)

definition list_result :: "error + rvalue \<Rightarrow> error + rvalue list" where
  "list_result r =
     (case r of Inl e \<Rightarrow> Inl e | Inr v \<Rightarrow> Inr (case v of ListVal l \<Rightarrow> list_items l | _ \<Rightarrow> []))"


lemma list_result_map [simp]:
  "list_result (map_sum id ListVal r) = map_sum id list_items r"
  by (cases r) (simp_all add: list_result_def)

lemma splice_result:
  "list_result (map_sum id ListVal (splice_list \<rho> \<Sigma> (BuiltList []) es)) = splices \<rho> \<Sigma> es"
proof -
  have "map_sum id (\<lambda>vs. vs) r = r" for r :: "error + rvalue list" by (cases r) simp_all
  then show ?thesis by (simp add: splice_list_splices)
qed

lemma spread_items:
  "spread_list x = Inr l \<longleftrightarrow> x = ListVal l"
  by (cases x) (auto simp: spread_list_def)

lemma eval_list_other:
  "(\<forall>a b. es \<noteq> [Single a, Spread b]) \<Longrightarrow> (\<forall>a b. es \<noteq> [Spread a, Single b]) \<Longrightarrow>
     eval_list \<rho> \<Sigma> es = map_sum id ListVal (splice_list \<rho> \<Sigma> (BuiltList []) es)"
  unfolding eval_list_def by (auto simp del: splice_list.simps split: list.split elem.split)

lemma map_sum_case: "map_sum f g r = (case r of Inl e \<Rightarrow> Inl (f e) | Inr x \<Rightarrow> Inr (g x))"
  by (cases r) simp_all

lemma eval_list_splices:
  "list_result (eval_list \<rho> \<Sigma> es) = Inr vs \<longleftrightarrow> splices \<rho> \<Sigma> es = Inr vs"
proof -
  consider sx sxs where "es = [Single sx, Spread sxs]" | sxs sx where "es = [Spread sxs, Single sx]"
    | "eval_list \<rho> \<Sigma> es = map_sum id ListVal (splice_list \<rho> \<Sigma> (BuiltList []) es)"
    using eval_list_other by blast
  then show ?thesis
  proof cases
    case 1
    then show ?thesis
      by (auto simp: eval_list_def splices_def list_result_def map_sum_case split: sum.splits)
  next
    case 2
    then show ?thesis
      by (auto simp: eval_list_def splices_def list_result_def map_sum_case split: sum.splits)
  next
    case 3
    then show ?thesis by (simp only: splice_result)
  qed
qed

section \<open>Map literals and updates\<close>

lemma map_get_built [simp]: "map_get (BuiltMap fds) k = map_of fds k"
  by simp

lemma insert_built [simp]: "map_insert k v (BuiltMap fds) = BuiltMap (bt_insert k v fds)"
  by (simp add: map_insert_def map_built_def)

lemma contains_built: "map_contains (BuiltMap fds) k \<longleftrightarrow> map_of fds k \<noteq> None"
  by (simp add: map_of_eq_None_iff)

lemma add_missing_built:
  "\<exists>gs. add_missing es (BuiltMap fds) = BuiltMap gs
     \<and> map_of gs = map_of es ++ map_of fds"
proof (induction es arbitrary: fds)
  case (Cons e es)
  obtain k v where e: "e = (k, v)" by fastforce
  show ?case
  proof (cases "map_of fds k")
    case None
    then have "add_missing (e # es) (BuiltMap fds) = add_missing es (BuiltMap (bt_insert k v fds))"
      by (simp add: e contains_built del: map_contains.simps)
    moreover obtain gs where "add_missing es (BuiltMap (bt_insert k v fds)) = BuiltMap gs"
      "map_of gs = map_of es ++ map_of (bt_insert k v fds)"
      using Cons.IH by blast
    moreover have "map_of es ++ map_of (bt_insert k v fds) = map_of (e # es) ++ map_of fds"
      using None by (intro ext) (auto simp: e map_add_def split: option.split)
    ultimately show ?thesis by metis
  next
    case (Some w)
    then have "add_missing (e # es) (BuiltMap fds) = add_missing es (BuiltMap fds)"
      by (simp add: e contains_built del: map_contains.simps)
    moreover have "map_of es ++ map_of fds = map_of (e # es) ++ map_of fds"
      using Some by (intro ext) (auto simp: e map_add_def split: option.split)
    ultimately show ?thesis using Cons.IH [of fds] by metis
  qed
qed simp

text \<open>What the entries say of a key: those written out, and the spreads, the first that has it.\<close>

fun written :: "env \<Rightarrow> signature \<Rightarrow> val map_entry list \<Rightarrow> (bytes \<times> rvalue) list" where
  "written \<rho> \<Sigma> [] = []"
| "written \<rho> \<Sigma> (EntryOf k v # es) =
     (case (form \<rho> \<Sigma> (item k), form \<rho> \<Sigma> (item v)) of
        (Inr (StringVal l), Inr x) \<Rightarrow> (l, x) # written \<rho> \<Sigma> es
      | _ \<Rightarrow> written \<rho> \<Sigma> es)"
| "written \<rho> \<Sigma> (SpreadMap _ # es) = written \<rho> \<Sigma> es"

fun spread_over :: "env \<Rightarrow> signature \<Rightarrow> val map_entry list \<Rightarrow> (bytes \<times> rvalue) list" where
  "spread_over \<rho> \<Sigma> [] = []"
| "spread_over \<rho> \<Sigma> (EntryOf _ _ # es) = spread_over \<rho> \<Sigma> es"
| "spread_over \<rho> \<Sigma> (SpreadMap v # es) =
     (case form_map \<rho> \<Sigma> v of Inr m \<Rightarrow> map_items m | Inl _ \<Rightarrow> []) @ spread_over \<rho> \<Sigma> es"

lemma map_located_Inr [simp]: "map_located n sp r = Inr x \<longleftrightarrow> r = Inr x"
  by (cases r) (simp_all add: map_located_def)

lemma map_entries_lookup:
  "map_entries n \<rho> \<Sigma> ex (BuiltMap fds) es = Inr m \<Longrightarrow>
     (\<exists>gs. m = BuiltMap gs
        \<and> map_of gs = map_of (spread_over \<rho> \<Sigma> es) ++ map_of fds ++ map_of (written \<rho> \<Sigma> es))
     \<and> set (map fst (written \<rho> \<Sigma> es)) \<inter> set ex = {} \<and> distinct (map fst (written \<rho> \<Sigma> es))"
proof (induction es arbitrary: ex fds)
  case (Cons e es)
  show ?case
  proof (cases e)
    case (EntryOf k v)
    with Cons.prems obtain l x where l: "form \<rho> \<Sigma> (item k) = Inr (StringVal l)" "l \<notin> set ex"
      and x: "form \<rho> \<Sigma> (item v) = Inr x"
      and m: "map_entries n \<rho> \<Sigma> (l # ex) (BuiltMap (bt_insert l x fds)) es = Inr m"
      by (auto split: sum.splits rvalue.splits if_splits)
    from Cons.IH [OF m] obtain gs where gs: "m = BuiltMap gs"
      "map_of gs = map_of (spread_over \<rho> \<Sigma> es) ++ map_of (bt_insert l x fds) ++ map_of (written \<rho> \<Sigma> es)"
      and d: "set (map fst (written \<rho> \<Sigma> es)) \<inter> set (l # ex) = {}" "distinct (map fst (written \<rho> \<Sigma> es))"
      by blast
    have none: "map_of (written \<rho> \<Sigma> es) l = None"
      using d by (auto simp: map_of_eq_None_iff)
    have "map_of (spread_over \<rho> \<Sigma> es) ++ map_of (bt_insert l x fds) ++ map_of (written \<rho> \<Sigma> es)
        = map_of (spread_over \<rho> \<Sigma> es) ++ map_of fds ++ map_of ((l, x) # written \<rho> \<Sigma> es)"
      using none by (intro ext) (auto simp: map_add_def split: option.split)
    moreover have step: "written \<rho> \<Sigma> (e # es) = (l, x) # written \<rho> \<Sigma> es"
      "spread_over \<rho> \<Sigma> (e # es) = spread_over \<rho> \<Sigma> es"
      using l x by (simp_all add: EntryOf)
    ultimately have "map_of gs =
        map_of (spread_over \<rho> \<Sigma> (e # es)) ++ map_of fds ++ map_of (written \<rho> \<Sigma> (e # es))"
      using gs(2) by (simp only:)
    moreover have "set (map fst (written \<rho> \<Sigma> (e # es))) \<inter> set ex = {}"
      "distinct (map fst (written \<rho> \<Sigma> (e # es)))"
      using d l by (auto simp: step)
    ultimately show ?thesis using gs(1) by blast
  next
    case (SpreadMap v)
    with Cons.prems obtain m0 where f: "form_map \<rho> \<Sigma> v = Inr m0"
      and m: "map_entries n \<rho> \<Sigma> ex (add_missing (map_items m0) (BuiltMap fds)) es = Inr m"
      by (auto split: sum.splits)
    obtain gs where g: "add_missing (map_items m0) (BuiltMap fds) = BuiltMap gs"
      "map_of gs = map_of (map_items m0) ++ map_of fds" using add_missing_built by blast
    from Cons.IH [of ex gs] m g show ?thesis
      by (auto simp: SpreadMap f map_of_append)
  qed
qed auto

lemma eval_map_lookup:
  assumes "eval_map n \<rho> \<Sigma> es = Inr (MapVal m)"
  shows "map_get m = map_of (spread_over \<rho> \<Sigma> es) ++ map_of (written \<rho> \<Sigma> es)"
    and "distinct (map fst (written \<rho> \<Sigma> es))"
proof -
  have "map_entries n \<rho> \<Sigma> [] (BuiltMap []) es = Inr m"
    using assms by (auto simp: eval_map_def map_sum_case split: sum.splits)
  from map_entries_lookup [OF this]
  show "map_get m = map_of (spread_over \<rho> \<Sigma> es) ++ map_of (written \<rho> \<Sigma> es)"
    and "distinct (map fst (written \<rho> \<Sigma> es))"
    by (auto simp: fun_eq_iff)
qed

chapter \<open>The shell state\<close>

text \<open>
  Laws of the shell state: the frame a handler lookup names is the one a strip lifts off, and a
  capture keeps every byte up to its cap and says when it has not.
\<close>

section \<open>Handlers\<close>

lemma first_hit_depth:
  "first_hit f d xs = Some (e, k) \<Longrightarrow> d < k \<and> k \<le> d + length xs \<and> f (xs ! (k - Suc d)) = Some e"
proof (induction xs arbitrary: d)
  case (Cons x xs)
  show ?case
  proof (cases "f x")
    case None
    with Cons.prems have "first_hit f (Suc d) xs = Some (e, k)" by simp
    from Cons.IH [OF this] show ?thesis by (auto simp: nth_Cons' Suc_diff_Suc)
  next
    case (Some y)
    with Cons.prems show ?thesis by simp
  qed
qed simp

text \<open>What a search from the top hits is the frame \<open>strip\<close> lifts off.\<close>

lemma hit_strip:
  assumes "first_hit f 0 (rev (map snd (hs_frames s))) = Some (e, d)"
  shows "\<exists>x t. hs_strip d s = Some (x, t) \<and> f (snd x) = Some e"
proof -
  from first_hit_depth [OF assms] have d: "0 < d" "d \<le> length (hs_frames s)"
    and hit: "f (rev (map snd (hs_frames s)) ! (d - Suc 0)) = Some e" by auto
  from d hit have "f (snd (hs_frames s ! (length (hs_frames s) - d))) = Some e"
    by (simp add: rev_nth)
  moreover from d have "hs_strip d s = Some (hs_frames s ! (length (hs_frames s) - d),
      s\<lparr>hs_frames := remove_at (length (hs_frames s) - d) (hs_frames s)\<rparr>)"
    by (simp add: hs_strip_def Let_def)
  ultimately show ?thesis by blast
qed

lemma lookup_strip:
  assumes "hs_lookup n s = Some (FrameHit e d)"
  shows "\<exists>x t. hs_strip d s = Some (x, t)
    \<and> (named_entry n (snd x) = Some e \<or> hf_catch_all (snd x) = Some (he_thunk e))"
  using assms
  by (auto simp: hs_lookup_def Let_def dest!: hit_strip split: option.splits)

text \<open>A frame pushed while another is lifted off lies above it once that is back.\<close>

lemma restore_push:
  assumes "stack_ok s" "hs_strip d s = Some (x, t)"
  shows "hs_restore x (snd (hs_push_frame g t)) = snd (hs_push_frame g s)"
proof -
  note t = stack_ok_strip [OF assms]
  have absent: "fst x \<notin> set (handles (snd (hs_push_frame g t)))"
    using t(2,3) by (simp add: hs_push_frame_def handles_def)
  have "stack_ok (hs_restore x (snd (hs_push_frame g t)))"
    by (rule stack_ok_restore)
      (use absent t stack_ok_push [OF t(1), of g] in \<open>simp_all add: hs_push_frame_def\<close>)
  moreover have "stack_ok (snd (hs_push_frame g s))" using assms(1) by (rule stack_ok_push)
  moreover have "set (hs_frames (hs_restore x (snd (hs_push_frame g t))))
      = set (hs_frames (snd (hs_push_frame g s)))"
    using absent t(4,6) restore_inserts [OF stack_ok_push [OF t(1)], of x g]
    by (simp add: set_insert_absent handles_def hs_push_frame_def insert_commute)
  ultimately have "hs_frames (hs_restore x (snd (hs_push_frame g t))) = hs_frames (snd (hs_push_frame g s))"
    by (intro ordered_same_set stack_ok_ordered)
  then show ?thesis
    using t(4,5) by (simp add: hs_restore_def hs_push_frame_def Let_def)
qed

section \<open>Captures\<close>

text \<open>A capture of these bytes, whole or cut at the cap and marked.\<close>

definition captures :: "bytes \<Rightarrow> captured \<Rightarrow> bool" where
  "captures s c \<longleftrightarrow>
     cap_total c = length s
     \<and> cap_bytes c = (if length s \<le> sink_buffer_cap then s else take sink_buffer_cap s @ trunc_marker)"

lemma captures_append: "captures s c \<Longrightarrow> captures (s @ b) (captured_append b c)"
  by (auto simp: captures_def captured_append_def Let_def trunc_marker_def min_def)

lemma captures_fold: "captures s c \<Longrightarrow> captures (s @ concat bs) (fold captured_append bs c)"
proof (induction bs arbitrary: s c)
  case (Cons b bs)
  from Cons.IH [OF captures_append [OF Cons.prems]] show ?case by simp
qed simp

end
