(* ===== verification/Value_Properties.thy ===== *)
theory Value_Properties
  imports Value_Laws
begin

text \<open>
  The properties of values, environments, handlers and leases, over the laws of the theories they
  are stated of.
\<close>

section \<open>Values\<close>

lemma dom_get: "dom (env_get \<rho>) = dom (env_binding \<rho>)"
  by (simp add: env_get_def dom_def)

text \<open>
  C18. Equality decides equality of data: of two values that hold no suspension, \<open>==\<close> answers
  whether they are the same data, a number being the number it denotes whichever of \<open>Int\<close> and
  \<open>Float\<close> holds it, a list or a map its elements whether kept as a literal or built; it refuses no
  such pair.
\<close>

theorem equality_decides_data:
  assumes "datum_of a = Some d" and "datum_of b = Some e"
  shows "equals a b = Inr (d = e)"
  by (rule equals_datum [OF assms])

theorem equality_decides_data_witness:
  "equals (ListVal (BuiltList [IntVal 1])) (ListVal (BuiltList [FloatVal (Finite False unit_scale)]))
     = Inr True"
  using equality_decides_data [of "ListVal (BuiltList [IntVal 1])" "DList [DNumber (int unit_scale)]"
      "ListVal (BuiltList [FloatVal (Finite False unit_scale)])" "DList [DNumber (int unit_scale)]"]
  by (simp add: datum_of.simps [of "ListVal l" for l] datum_of.simps [of "IntVal n" for n]
      datum_of.simps [of "FloatVal f" for f] units_def)

text \<open>
  C32. Integer arithmetic is exact or refused: an operation on two integers answers the integer it
  denotes, a division truncating, or it says why not: a zero divisor, or a result, or the quotient a
  remainder is taken of, outside the 64-bit range.
\<close>

theorem integers_are_exact_or_refused:
  "case arithmetic (IntVal a) op (IntVal b) of
     Inr v \<Rightarrow> (\<exists>w. v = IntVal w \<and> sint w = exact_op op (sint a) (sint b))
   | Inl e \<Rightarrow>
       (e = err (OfNumber (if op = Div then DivisionByZero else ModuloByZero))
          \<and> op \<in> {Div, Mod} \<and> sint b = 0)
       \<or> (e = err (OfNumber IntOverflow)
          \<and> \<not> (in_i64 (exact_op op (sint a) (sint b)) \<and> in_i64 (exact_op (if op = Mod then Div else op) (sint a) (sint b))))"
  by (cases op) (auto simp: arithmetic_def nfail_def checked_none dest: sint_checked
      split: option.split sum.split)

theorem integers_are_exact_or_refused_witness:
  "arithmetic (IntVal (- 7)) Div (IntVal 2) = Inr (IntVal (- 3))
     \<and> (\<exists>w. IntVal (- 3) = IntVal w \<and> sint w = (- 7) sdiv (2 :: int))"
proof -
  have r: "arithmetic (IntVal (- 7)) Div (IntVal 2) = Inr (IntVal (- 3))" by code_simp
  with integers_are_exact_or_refused [where op = Div and a = "- 7" and b = 2] show ?thesis by simp
qed

text \<open>
  C27. A pattern binds its names and nothing else: where it matches, the bindings staged are those of
  its names, in its order, and the environment it leaves has its names beside those there were, and
  reads every other name as before.
\<close>

theorem pattern_binds_its_names:
  assumes "destructure p v = Inr bs"
  shows "map fst bs = pattern_names p
    \<and> (\<exists>\<rho>'. pattern_bind p v \<rho> = Inr \<rho>'
        \<and> dom (env_get \<rho>') = dom (env_get \<rho>) \<union> set (pattern_names p)
        \<and> (\<forall>n. n \<notin> set (pattern_names p) \<longrightarrow> env_get \<rho>' n = env_get \<rho> n))"
proof -
  from assms have names: "map fst bs = pattern_names p"
    by (auto simp: destructure_def map_sum_case split: sum.splits intro: stage_names)
  have "fst ` set bs = set (pattern_names p)" by (simp add: names [symmetric])
  then have "dom (env_binding (env_extend (map unschemed bs) \<rho>)) = dom (env_binding \<rho>) \<union> set (pattern_names p)"
    and "n \<notin> set (pattern_names p) \<Longrightarrow> env_binding (env_extend (map unschemed bs) \<rho>) n = env_binding \<rho> n" for n
    by (auto simp: dom_map_of_conv_image_fst image_image unschemed_def rev_map map_add_dom_app_simps)
  with names assms show ?thesis by (simp add: pattern_bind_def dom_get) (simp add: env_get_def)
qed

theorem pattern_binds_its_names_witness:
  "destructure (ListP [NameP ''x''] (Some ''r'')) (ListVal (BuiltList [UnitVal, BoolVal True]))
     = Inr [(''x'', UnitVal), (''r'', ListVal (BuiltList [BoolVal True]))]
   \<and> (\<exists>\<rho>'. pattern_bind (ListP [NameP ''x''] (Some ''r'')) (ListVal (BuiltList [UnitVal, BoolVal True])) env_new
        = Inr \<rho>' \<and> dom (env_get \<rho>') = {''x'', ''r''})"
proof -
  have r: "destructure (ListP [NameP ''x''] (Some ''r'')) (ListVal (BuiltList [UnitVal, BoolVal True]))
      = Inr [(''x'', UnitVal), (''r'', ListVal (BuiltList [BoolVal True]))]"
    by code_simp
  have "dom (env_get env_new) = {}" by (auto simp: env_get_def)
  with pattern_binds_its_names [OF r, of env_new] r show ?thesis by (auto simp: list_of_option_def)
qed

text \<open>
  Data survives the walk to a value and back: first-order data as the code builds it, keys in
  order and no variant of \<open>Unit\<close>, becomes a value, and the walk of that value reads the same data,
  whatever is done with leaves that are not data.
\<close>

lemma data_survives_the_walk:
  assumes "canonical d"
  shows "\<exists>v. unwalk ext d = Inr v \<and> walk leaf v = Inr d"
  using walk_unwalk [OF assms] by blast

section \<open>Environments\<close>

text \<open>
  C28. An environment is a finite map, whichever of its two representations it has: binding,
  extending, unsetting and restricting it act on the map as they should and keep it well formed,
  sorted and at most eight entries where it is a flat array, and each name once where it is a hash
  map; what is unset is what was bound.
\<close>

theorem environment_is_a_finite_map:
  assumes "env_ok \<rho>" and "sorted_wrt (<) occ"
  shows "env_binding (env_bind n b \<rho>) = (env_binding \<rho>)(n \<mapsto> b)
    \<and> env_binding (env_extend es \<rho>) = env_binding \<rho> ++ map_of (rev es)
    \<and> env_binding (snd (env_unset n \<rho>)) = (env_binding \<rho>)(n := None)
    \<and> fst (env_unset n \<rho>) = env_get \<rho> n
    \<and> env_binding (env_restrict occ \<rho>) = env_binding \<rho> |` set occ
    \<and> env_ok (env_bind n b \<rho>) \<and> env_ok (env_extend es \<rho>) \<and> env_ok (snd (env_unset n \<rho>))
    \<and> env_ok (env_restrict occ \<rho>) \<and> env_len \<rho> = card (dom (env_binding \<rho>))"
proof -
  have "env_binding (env_restrict occ \<rho>) = env_binding \<rho> |` set occ"
    by (auto simp: binding_restrict restrict_map_def)
  with assms show ?thesis
    by (simp add: binding_unset unset_value env_unset_ok env_restrict_ok env_len_card set_env_names)
qed

theorem environment_is_a_finite_map_witness:
  "env_len (env_bind ''x'' (Binding UnitVal None) env_new)
     = card (dom (env_binding (env_bind ''x'' (Binding UnitVal None) env_new)))
   \<and> env_binding (env_restrict [''y''] (env_bind ''x'' (Binding UnitVal None) env_new))
     = env_binding (env_bind ''x'' (Binding UnitVal None) env_new) |` {''y''}"
  using environment_is_a_finite_map [of "env_bind ''x'' (Binding UnitVal None) env_new" "[''y'']"]
  by simp

section \<open>Handlers\<close>

text \<open>
  A handler is lifted off while its arm runs and comes back: the frame a lookup hits is there to
  lift off and holds the arm, by name or as its catch-all; without it the stack is well formed, what
  the arm pushes lies above it once it is back, and where the arm pushed nothing the stack is the
  one there was.
\<close>

lemma masked_handler_comes_back:
  assumes "stack_ok s" and "hs_lookup n s = Some (FrameHit e d)"
  shows "\<exists>x t. hs_strip d s = Some (x, t) \<and> stack_ok t
    \<and> (named_entry n (snd x) = Some e \<or> hf_catch_all (snd x) = Some (he_thunk e))
    \<and> hs_restore x t = s
    \<and> (\<forall>g. hs_restore x (snd (hs_push_frame g t)) = snd (hs_push_frame g s))"
proof -
  from lookup_strip [OF assms(2)] obtain x t where t: "hs_strip d s = Some (x, t)"
    and hit: "named_entry n (snd x) = Some e \<or> hf_catch_all (snd x) = Some (he_thunk e)" by blast
  with stack_ok_strip(1) [OF assms(1) t] restore_strip [OF assms(1) t] restore_push [OF assms(1) t]
  show ?thesis by blast
qed

section \<open>Leases\<close>

text \<open>
  Pruning is safe and leaves nothing immortal: a name goes exactly where its lease has been idle
  for the bound and its value pins no live work; no name of the baseline goes, every other name and
  every value stays as it was, and whatever name is left is of the baseline or leased.
\<close>

lemma pruning_is_safe:
  assumes "ledger_ok a" and "prune busy (Some a) \<rho> = (out, \<rho>', led)"
  shows "env_get \<rho>' n =
      (case env_get \<rho> n of
         None \<Rightarrow> None
       | Some v \<Rightarrow>
           if (\<exists>t. map_of (a_last_used a) n = Some t \<and> idle_calls (a_lease a) \<le> a_epoch a - t)
              \<and> \<not> pins_live_work busy v
           then None else Some v)
    \<and> (n \<in> set (a_baseline a) \<longrightarrow> env_get \<rho>' n = env_get \<rho> n)
    \<and> (\<exists>a'. led = Some a' \<and> ledger_ok a'
      \<and> set (env_names \<rho>') \<subseteq> set (a_baseline a) \<union> dom (map_of (a_last_used a')))"
    (is "?gone \<and> ?base \<and> ?leased")
proof -
  obtain a' where a': "led = Some a'" "ledger_ok a'" "a_baseline a' = a_baseline a"
    "pruned_from busy \<rho> (expired a) \<rho>'"
    "set (env_names \<rho>') \<subseteq> set (a_baseline a') \<union> dom (map_of (a_last_used a'))"
    using prune_result [OF assms] .
  then have gone: ?gone
    unfolding pruned_from_def expired_iff [OF assms(1), symmetric] by blast
  moreover have ?base
  proof
    assume "n \<in> set (a_baseline a)"
    then have "map_of (a_last_used a) n = None" using leased_not_baseline [OF assms(1)] by blast
    with gone show "env_get \<rho>' n = env_get \<rho> n" by (simp split: option.split)
  qed
  moreover have ?leased using a' by auto
  ultimately show ?thesis by blast
qed

end
