(* ===== verification/Cancel_Scope.thy ===== *)
theory Cancel_Scope
  imports Ral_Error
begin

text \<open>
  Structured cancellation (\<open>core/src/process/cancel.rs\<close>): a tree of scope nodes, each with a flag that
  only rises and the instant it first rose.  What is in force on a scope is folded root first over
  its chain; a cleanup's node masks what is above it for a grace.  A node is known by its number,
  a parent's lower than its child's, since a node is minted over a parent that exists.  A write is
  two steps, the instant before the flag, so that others may read between them; the clock is an
  argument of each step.  A base frame's closing poll is \<open>core/src/shell/runtime/flow.rs\<close>, the switch
  of a worker's own stop \<open>core/src/shell/builtins/concurrency/birth.rs\<close>.
\<close>

section \<open>Causes\<close>

datatype cancel_cause = ReaderGone | Interrupted | Cancelled | TimedOut | Terminated | Aborted

fun cause_code :: "cancel_cause \<Rightarrow> nat" where
  "cause_code ReaderGone = 1"
| "cause_code Interrupted = 2"
| "cause_code Cancelled = 3"
| "cause_code TimedOut = 4"
| "cause_code Terminated = 5"
| "cause_code Aborted = 6"

text \<open>\<open>CancelCause::from_repr\<close>.\<close>

definition cause_of :: "nat \<Rightarrow> cancel_cause option" where
  "cause_of n =
     List.find (\<lambda>c. cause_code c = n)
       [ReaderGone, Interrupted, Cancelled, TimedOut, Terminated, Aborted]"

fun cause_message :: "cancel_cause \<Rightarrow> bytes" where
  "cause_message ReaderGone = ''its reader ended''"
| "cause_message Interrupted = ''interrupted''"
| "cause_message Cancelled = ''cancelled''"
| "cause_message TimedOut = ''timed out''"
| "cause_message Terminated = ''terminated''"
| "cause_message Aborted = ''aborted''"

datatype worker_stop = StopCancelled | StopTimedOut

definition worker_stop_of :: "cancel_cause \<Rightarrow> worker_stop option" where
  "worker_stop_of c =
     (case c of Cancelled \<Rightarrow> Some StopCancelled | TimedOut \<Rightarrow> Some StopTimedOut | _ \<Rightarrow> None)"

fun worker_stop_cause :: "worker_stop \<Rightarrow> cancel_cause" where
  "worker_stop_cause StopCancelled = Cancelled"
| "worker_stop_cause StopTimedOut = TimedOut"

section \<open>The tree\<close>

record vertex =
  v_flag :: nat
  v_since :: "nat option"
  v_parent :: "nat option"
  v_shield :: "nat option"

type_synonym scopes = "vertex list"

definition vertex_new :: "nat option \<Rightarrow> nat option \<Rightarrow> vertex" where
  "vertex_new p s = \<lparr>v_flag = 0, v_since = None, v_parent = p, v_shield = s\<rparr>"

definition scope_mint :: "nat option \<Rightarrow> nat option \<Rightarrow> scopes \<Rightarrow> nat \<times> scopes" where
  "scope_mint p s w = (length w, w @ [vertex_new p s])"

definition root_new :: "scopes \<Rightarrow> nat \<times> scopes" where
  "root_new = scope_mint None None"

definition scope_child :: "nat \<Rightarrow> scopes \<Rightarrow> nat \<times> scopes" where
  "scope_child n = scope_mint (Some n) None"

text \<open>The chain of a node, itself first; a parent's number is lower.\<close>

function scope_chain :: "scopes \<Rightarrow> nat \<Rightarrow> nat list" where
  "scope_chain w n =
     n # (case v_parent (w ! n) of Some p \<Rightarrow> if p < n then scope_chain w p else [] | None \<Rightarrow> [])"
  by pat_completeness auto
termination
  by (relation "measure snd") auto

declare scope_chain.simps [simp del]

definition scope_shielded :: "nat \<Rightarrow> nat \<Rightarrow> scopes \<Rightarrow> nat \<times> scopes" where
  "scope_shielded n grace w =
     (let enclosing = List.map_filter (\<lambda>m. v_shield (w ! m)) (scope_chain w n)
      in scope_mint (Some n) (Some (case enclosing of [] \<Rightarrow> grace | e # _ \<Rightarrow> min grace e)) w)"

section \<open>Writing\<close>

text \<open>\<open>cancelled_at.get_or_init\<close>, then \<open>flag.fetch_max\<close>.\<close>

definition strike :: "nat \<Rightarrow> nat \<Rightarrow> scopes \<Rightarrow> scopes" where
  "strike n t w =
     w[n := (w ! n)\<lparr>v_since := Some (case v_since (w ! n) of Some s \<Rightarrow> s | None \<Rightarrow> t)\<rparr>]"

definition raise_flag :: "nat \<Rightarrow> cancel_cause \<Rightarrow> scopes \<Rightarrow> scopes" where
  "raise_flag n c w = w[n := (w ! n)\<lparr>v_flag := max (v_flag (w ! n)) (cause_code c)\<rparr>]"

definition scope_cancel :: "nat \<Rightarrow> cancel_cause \<Rightarrow> nat \<Rightarrow> scopes \<Rightarrow> scopes" where
  "scope_cancel n c t w = raise_flag n c (strike n t w)"

section \<open>Reading\<close>

record in_force =
  f_code :: nat
  f_node :: nat
  f_since :: nat

text \<open>What a shielded node lets through of what is above it at time \<open>t\<close>.\<close>

definition admitted_through :: "nat \<Rightarrow> vertex \<Rightarrow> in_force \<Rightarrow> bool" where
  "admitted_through t v j \<longleftrightarrow>
     (case v_shield v of
        None \<Rightarrow> True
      | Some grace \<Rightarrow> f_code j \<ge> cause_code Aborted \<or> t \<ge> f_since j + grace)"

text \<open>One node joined to what is above it; a struck node without its instant panics, \<open>None\<close>.\<close>

definition join_node :: "nat \<Rightarrow> scopes \<Rightarrow> nat \<Rightarrow> in_force option \<Rightarrow> in_force option option" where
  "join_node t w n up =
     (let v = w ! n;
          up = (case up of Some j \<Rightarrow> if admitted_through t v j then Some j else None | None \<Rightarrow> None);
          own = v_flag v
      in if own = 0 then Some up
         else case v_since v of
           None \<Rightarrow> None
         | Some s \<Rightarrow>
             (case up of
                None \<Rightarrow> Some (Some \<lparr>f_code = own, f_node = n, f_since = s\<rparr>)
              | Some j \<Rightarrow>
                  if own \<le> f_code j then Some (Some (j\<lparr>f_since := min (f_since j) s\<rparr>))
                  else Some (Some \<lparr>f_code = own, f_node = n, f_since = min (f_since j) s\<rparr>)))"

text \<open>
  The fold over a chain, outermost node first; each node is read at a time of its own, since others
  write between the reads.
\<close>

fun fold_reads :: "(nat \<times> nat \<times> scopes) list \<Rightarrow> in_force option option" where
  "fold_reads [] = Some None"
| "fold_reads ((n, t, w) # rs) =
     (case fold_reads rs of None \<Rightarrow> None | Some up \<Rightarrow> join_node t w n up)"

definition scope_resolve :: "nat \<Rightarrow> scopes \<Rightarrow> nat \<Rightarrow> in_force option option" where
  "scope_resolve t w n = fold_reads (map (\<lambda>m. (m, t, w)) (scope_chain w n))"

text \<open>\<open>Scope::in_force\<close>: the cause and its owner; a flag that is no cause panics.\<close>

definition scope_in_force :: "nat \<Rightarrow> scopes \<Rightarrow> nat \<Rightarrow> (cancel_cause \<times> nat) option option" where
  "scope_in_force t w n =
     (case scope_resolve t w n of
        None \<Rightarrow> None
      | Some None \<Rightarrow> Some None
      | Some (Some j) \<Rightarrow>
          (case cause_of (f_code j) of None \<Rightarrow> None | Some c \<Rightarrow> Some (Some (c, f_node j))))"

definition scope_cause :: "nat \<Rightarrow> scopes \<Rightarrow> nat \<Rightarrow> cancel_cause option option" where
  "scope_cause t w n = map_option (map_option fst) (scope_in_force t w n)"

definition stop_of :: "cancel_cause \<times> nat \<Rightarrow> brk" where
  "stop_of c = EscapeB (Stopped (cause_code (fst c)) (Some (snd c)) None)"

section \<open>The closing poll\<close>

text \<open>\<open>final_poll\<close>, over what is in force on the base's own node.\<close>

definition final_poll :: "brk + 'a \<Rightarrow> (cancel_cause \<times> nat) option \<Rightarrow> brk + 'a" where
  "final_poll r node =
     (case (node, r) of
        (_, Inl (EscapeB (Exit n))) \<Rightarrow> r
      | (Some (join, owner), Inl (EscapeB (Stopped c held at'))) \<Rightarrow>
          if c > cause_code join \<or> c = cause_code join \<and> held = Some owner then r
          else Inl (stop_of (join, owner))
      | (Some (join, owner), _) \<Rightarrow> Inl (stop_of (join, owner))
      | (None, _) \<Rightarrow> r)"

text \<open>
  \<open>convert_own_stop\<close>: a cancel or a timeout owned inside the session becomes the handle's error,
  which carries where it struck.
\<close>

fun worker_stopped :: "worker_stop \<Rightarrow> error" where
  "worker_stopped StopCancelled =
     \<lparr>err_reason = CancelledReason, err_prov = None, abandoned_tail = False, discarded = 0\<rparr>"
| "worker_stopped StopTimedOut =
     \<lparr>err_reason = TimedOutReason, err_prov = None, abandoned_tail = False, discarded = 0\<rparr>"

definition convert_own_stop :: "nat \<Rightarrow> brk + 'a \<Rightarrow> brk + 'a" where
  "convert_own_stop root r =
     (case r of
        Inl (EscapeB (Stopped c owner p)) \<Rightarrow>
          (case owner of
             Some n \<Rightarrow>
               if n = root then r
               else (case Option.bind (cause_of c) worker_stop_of of
                       Some s \<Rightarrow> Inl (ErrorB ((worker_stopped s)\<lparr>err_prov := p\<rparr>))
                     | None \<Rightarrow> r)
           | None \<Rightarrow> r)
      | _ \<Rightarrow> r)"

end
