(* ===== verification/Worker_Handle.thy ===== *)
theory Worker_Handle
  imports Cancel_Scope Shell_State
begin

text \<open>
  A spawned worker's shared cells (\<open>core/src/shell/runtime/handle.rs\<close>): its lifecycle and result under
  one lock, the buffers it writes, the node that stops it.  The pool holds every handle by number,
  beside the tree of scopes.  Each operation is what happens under the handle's lock; a permit still
  to be spent is a bit of the handle.  The clock is an argument.
\<close>

section \<open>Endings\<close>

datatype 'v worker_end =
  EndOk 'v
| EndErr error
| EndExited "8 word"
| EndStopped nat "nat option" "prov option"
| EndPanic bytes

text \<open>\<open>End::settled\<close> and \<open>End::into_settled\<close>, a panic resumed.\<close>

definition end_settled :: "brk + 'v \<Rightarrow> 'v worker_end" where
  "end_settled r =
     (case r of
        Inr v \<Rightarrow> EndOk v
      | Inl (ErrorB e) \<Rightarrow> EndErr e
      | Inl (EscapeB (Exit n)) \<Rightarrow> EndExited n
      | Inl (EscapeB (Stopped c owner p)) \<Rightarrow> EndStopped c owner p)"

fun into_settled :: "'v worker_end \<Rightarrow> 'v flow" where
  "into_settled (EndOk v) = Done v"
| "into_settled (EndErr e) = Broke (ErrorB e)"
| "into_settled (EndExited n) = Broke (EscapeB (Exit n))"
| "into_settled (EndStopped c owner p) = Broke (EscapeB (Stopped c owner p))"
| "into_settled (EndPanic text) = Panicked"

text \<open>\<open>Ending::outcome\<close>: what is handed over as data, or the rest to raise again.\<close>

fun ending_outcome :: "'v worker_end \<Rightarrow> (error + 'v) + 'v worker_end" where
  "ending_outcome (EndOk v) = Inl (Inr v)"
| "ending_outcome (EndErr e) = Inl (Inl e)"
| "ending_outcome e = Inr e"

section \<open>Cells\<close>

text \<open>\<open>Stamp\<close>: one instant on the monotonic and the wall clock.\<close>

datatype instant = Instant (mono_at: nat) (wall_at: nat)

record 'v completed =
  c_stdout :: bytes
  c_stderr :: bytes
  c_end :: "'v worker_end"

datatype 'v cell = Running | Stopping | Ended instant "'v completed option"

definition cell_ended :: "'v cell \<Rightarrow> instant option" where
  "cell_ended c = (case c of Ended t _ \<Rightarrow> Some t | _ \<Rightarrow> None)"

datatype ('r, 'l) sampled = SRunning 'l | SStopping | SReady 'r | SConsumed

definition is_live :: "('r, 'l) sampled \<Rightarrow> bool" where
  "is_live s \<longleftrightarrow> (case s of SRunning _ \<Rightarrow> True | SStopping \<Rightarrow> True | _ \<Rightarrow> False)"

definition has_ended :: "('r, 'l) sampled \<Rightarrow> bool" where
  "has_ended s \<longleftrightarrow> \<not> is_live s"

definition is_claimed :: "('r, 'l) sampled \<Rightarrow> bool" where
  "is_claimed s \<longleftrightarrow> (case s of SStopping \<Rightarrow> True | SConsumed \<Rightarrow> True | _ \<Rightarrow> False)"

record 'v handle =
  h_cell :: "'v cell"
  h_stdout :: captured
  h_stderr :: captured
  h_id :: nat
  h_title :: bytes
  h_started :: instant
  h_node :: nat
  h_permit :: bool

record 'v pool =
  handles :: "'v handle list"
  nodes :: scopes

definition on_handle :: "nat \<Rightarrow> ('v handle \<Rightarrow> 'v handle) \<Rightarrow> 'v pool \<Rightarrow> 'v pool" where
  "on_handle h f w = w\<lparr>handles := (handles w)[h := f (handles w ! h)]\<rparr>"

definition handle_new ::
  "nat \<Rightarrow> bytes \<Rightarrow> nat \<Rightarrow> instant \<Rightarrow> 'v pool \<Rightarrow> nat \<times> 'v pool" where
  "handle_new i t n now w =
     (length (handles w),
      w\<lparr>handles := handles w @
         [\<lparr>h_cell = Running, h_stdout = captured_new, h_stderr = captured_new, h_id = i,
           h_title = t, h_started = now, h_node = n, h_permit = True\<rparr>]\<rparr>)"

section \<open>Observing\<close>

text \<open>\<open>HandleInner::project\<close>: the lifecycle, the elapsed time and the end under one lock.\<close>

definition handle_project ::
  "('v handle \<Rightarrow> 'l) \<Rightarrow> ('v completed \<Rightarrow> 'r) \<Rightarrow> instant \<Rightarrow> 'v handle \<Rightarrow> ('r, 'l) sampled \<times> nat \<times> instant option" where
  "handle_project running ready now v =
     (let e = cell_ended (h_cell v)
      in (case h_cell v of
            Running \<Rightarrow> SRunning (running v)
          | Stopping \<Rightarrow> SStopping
          | Ended _ (Some c) \<Rightarrow> SReady (ready c)
          | Ended _ None \<Rightarrow> SConsumed,
          mono_at (case e of Some t \<Rightarrow> t | None \<Rightarrow> now) - mono_at (h_started v), e))"

definition cell_sample :: "'v cell \<Rightarrow> (unit, unit) sampled" where
  "cell_sample c =
     (case c of
        Running \<Rightarrow> SRunning ()
      | Stopping \<Rightarrow> SStopping
      | Ended _ (Some _) \<Rightarrow> SReady ()
      | Ended _ None \<Rightarrow> SConsumed)"

text \<open>\<open>HandleInner::sample\<close> and \<open>snapshot_io\<close>.\<close>

definition handle_sample :: "nat \<Rightarrow> 'v pool \<Rightarrow> (unit, unit) sampled" where
  "handle_sample h w = cell_sample (h_cell (handles w ! h))"

definition snapshot_io ::
  "instant \<Rightarrow> nat \<Rightarrow> 'v pool \<Rightarrow> ('v completed, bytes \<times> bytes) sampled \<times> nat \<times> instant option" where
  "snapshot_io now h w =
     handle_project (\<lambda>v. (cap_bytes (h_stdout v), cap_bytes (h_stderr v))) id now (handles w ! h)"

section \<open>Claiming\<close>

definition claim_ready :: "nat \<Rightarrow> 'v pool \<Rightarrow> ('v completed, unit) sampled \<times> 'v pool" where
  "claim_ready h w =
     (case h_cell (handles w ! h) of
        Running \<Rightarrow> (SRunning (), w)
      | Stopping \<Rightarrow> (SStopping, w)
      | Ended t (Some c) \<Rightarrow> (SReady c, on_handle h (\<lambda>v. v\<lparr>h_cell := Ended t None\<rparr>) w)
      | Ended t None \<Rightarrow> (SConsumed, w))"

text \<open>
  \<open>HandleInner::claim_and_stop\<close> at time \<open>t\<close>.  The node is struck under the handle's lock, before the
  cell is \<open>Stopping\<close>.
\<close>

definition claim_and_stop :: "nat \<Rightarrow> instant \<Rightarrow> 'v pool \<Rightarrow> bool \<times> 'v pool" where
  "claim_and_stop h t w =
     (case h_cell (handles w ! h) of
        Running \<Rightarrow>
          (True,
           on_handle h (\<lambda>v. v\<lparr>h_cell := Stopping\<rparr>)
             (w\<lparr>nodes := scope_cancel (h_node (handles w ! h)) Cancelled (mono_at t) (nodes w)\<rparr>))
      | Stopping \<Rightarrow> (False, w)
      | Ended e (Some c) \<Rightarrow> (True, on_handle h (\<lambda>v. v\<lparr>h_cell := Ended e None\<rparr>) w)
      | Ended e None \<Rightarrow> (False, w))"

section \<open>Ending\<close>

text \<open>
  \<open>HandleInner::install_terminal\<close>, of a cell that has not ended: the buffers drained, the result kept
  of a running worker and dropped of one that was stopped.
\<close>

definition install_terminal :: "'v worker_end \<Rightarrow> instant \<Rightarrow> 'v handle \<Rightarrow> 'v handle" where
  "install_terminal e now v =
     (let (out, o') = captured_take (h_stdout v);
          (eb, e') = captured_take (h_stderr v);
          c = \<lparr>c_stdout = out, c_stderr = eb, c_end = e\<rparr>
      in v\<lparr>h_stdout := o', h_stderr := e',
           h_cell := Ended now (case h_cell v of Running \<Rightarrow> Some c | _ \<Rightarrow> None)\<rparr>)"

text \<open>\<open>HandleInner::publish\<close>, and the fallback of a permit dropped unspent.\<close>

definition publish :: "'v worker_end \<Rightarrow> instant \<Rightarrow> 'v handle \<Rightarrow> 'v handle" where
  "publish e now v = (case cell_ended (h_cell v) of Some _ \<Rightarrow> v | None \<Rightarrow> install_terminal e now v)"

definition publish_abandoned :: "instant \<Rightarrow> 'v handle \<Rightarrow> 'v handle" where
  "publish_abandoned now v =
     (case cell_ended (h_cell v) of
        Some _ \<Rightarrow> v
      | None \<Rightarrow> install_terminal (EndPanic (h_title v @ '': spawned thread panicked'')) now v)"

text \<open>\<open>CompletionPermit::finish\<close>, whose permit is dropped as it returns; and its drop alone.\<close>

definition permit_drop :: "nat \<Rightarrow> instant \<Rightarrow> 'v pool \<Rightarrow> 'v pool" where
  "permit_drop h now = on_handle h (\<lambda>v. (publish_abandoned now v)\<lparr>h_permit := False\<rparr>)"

definition permit_finish :: "nat \<Rightarrow> 'v worker_end \<Rightarrow> instant \<Rightarrow> 'v pool \<Rightarrow> 'v pool" where
  "permit_finish h e now w = permit_drop h now (on_handle h (publish e now) w)"

text \<open>A write of the worker's, or of a child it still has.\<close>

definition worker_write :: "nat \<Rightarrow> bool \<Rightarrow> bytes \<Rightarrow> 'v pool \<Rightarrow> 'v pool" where
  "worker_write h to_err b =
     on_handle h (\<lambda>v. if to_err then v\<lparr>h_stderr := captured_append b (h_stderr v)\<rparr>
                     else v\<lparr>h_stdout := captured_append b (h_stdout v)\<rparr>)"

end
