(* ===== verification/Cancel_Facts.thy ===== *)
theory Cancel_Facts
  imports Cancel_Scope
begin

text \<open>
  What any order of writes makes of a tree of scopes, and what a read of a scope answers.
\<close>

chapter \<open>Any order of writes\<close>

text \<open>
  Laws of cancellation: what any order of writes keeps, that nothing in force is ever taken back, what
  a chain without a shield joins to, and what a shield holds off.
\<close>

section \<open>Steps\<close>

definition vertex_ok :: "nat \<Rightarrow> vertex \<Rightarrow> bool" where
  "vertex_ok n v \<longleftrightarrow>
     v_flag v \<le> 6 \<and> (v_flag v \<noteq> 0 \<longrightarrow> v_since v \<noteq> None)
     \<and> (case v_parent v of None \<Rightarrow> True | Some p \<Rightarrow> p < n)"

definition scopes_ok :: "scopes \<Rightarrow> bool" where
  "scopes_ok w \<longleftrightarrow> (\<forall>n<length w. vertex_ok n (w ! n))"

text \<open>A writer's two steps, and a birth.  Whoever raises a flag has struck the node.\<close>

inductive scope_step :: "scopes \<Rightarrow> scopes \<Rightarrow> bool" where
  child: "n < length w \<Longrightarrow> scope_step w (snd (scope_child n w))"
| shielded: "n < length w \<Longrightarrow> scope_step w (snd (scope_shielded n g w))"
| struck: "n < length w \<Longrightarrow> scope_step w (strike n t w)"
| raised: "n < length w \<Longrightarrow> v_since (w ! n) \<noteq> None \<Longrightarrow> scope_step w (raise_flag n c w)"

abbreviation scope_steps :: "scopes \<Rightarrow> scopes \<Rightarrow> bool" where
  "scope_steps \<equiv> scope_step\<^sup>*\<^sup>*"

lemma cause_code_range: "0 < cause_code c" "cause_code c \<le> 6"
  by (cases c; simp)+

lemma scope_step_ok: "scope_step w w' \<Longrightarrow> scopes_ok w \<Longrightarrow> scopes_ok w'"
proof (induction rule: scope_step.induct)
  case (raised n w c)
  then show ?case
    using cause_code_range [of c]
    by (auto simp: scopes_ok_def raise_flag_def nth_list_update vertex_ok_def)
qed (auto simp: scopes_ok_def scope_child_def scope_shielded_def scope_mint_def vertex_new_def Let_def
    strike_def nth_list_update nth_append vertex_ok_def less_Suc_eq split: option.splits)

lemma scope_steps_ok: "scope_steps w w' \<Longrightarrow> scopes_ok w \<Longrightarrow> scopes_ok w'"
  by (induction rule: rtranclp_induct) (auto intro: scope_step_ok)

lemma root_ok: "scopes_ok (snd (root_new []))"
  by (simp add: scopes_ok_def root_new_def scope_mint_def vertex_new_def vertex_ok_def)

section \<open>Nothing is taken back\<close>

definition vertex_later :: "vertex \<Rightarrow> vertex \<Rightarrow> bool" where
  "vertex_later v v' \<longleftrightarrow>
     v_flag v \<le> v_flag v' \<and> (v_since v = None \<or> v_since v' = v_since v)
     \<and> v_parent v' = v_parent v \<and> v_shield v' = v_shield v"

definition later :: "scopes \<Rightarrow> scopes \<Rightarrow> bool" where
  "later w w' \<longleftrightarrow> length w \<le> length w' \<and> (\<forall>n<length w. vertex_later (w ! n) (w' ! n))"

lemma later_refl [simp]: "later w w"
  by (simp add: later_def vertex_later_def)

lemma vertex_later_trans: "vertex_later a b \<Longrightarrow> vertex_later b c \<Longrightarrow> vertex_later a c"
  by (auto simp: vertex_later_def)

lemma later_trans: "later a b \<Longrightarrow> later b c \<Longrightarrow> later a c"
  unfolding later_def by (meson less_le_trans order_trans vertex_later_trans)

lemma scope_step_later: "scope_step w w' \<Longrightarrow> later w w'"
  by (induction rule: scope_step.induct)
    (auto simp: later_def vertex_later_def scope_child_def scope_shielded_def scope_mint_def Let_def
      nth_append strike_def raise_flag_def nth_list_update split: option.split)

lemma scope_steps_later: "scope_steps w w' \<Longrightarrow> later w w'"
  by (induction rule: rtranclp_induct) (auto intro: later_trans scope_step_later)

lemma scope_chain_later:
  "scopes_ok w \<Longrightarrow> n < length w \<Longrightarrow> later w w' \<Longrightarrow> scope_chain w' n = scope_chain w n"
proof (induction n rule: less_induct)
  case (less n)
  then have "v_parent (w' ! n) = v_parent (w ! n)" by (simp add: later_def vertex_later_def)
  with less show ?case
    by (auto simp: scope_chain.simps [of w n] scope_chain.simps [of w' n] split: option.split)
qed

lemma scope_chain_below:
  "scopes_ok w \<Longrightarrow> n < length w \<Longrightarrow> m \<in> set (scope_chain w n) \<Longrightarrow> m \<le> n"
proof (induction n arbitrary: m rule: less_induct)
  case (less n)
  then show ?case
    by (auto simp: scope_chain.simps [of w n] split: option.splits if_splits)
      (metis less_imp_le_nat less_trans order_trans)
qed

definition rises :: "in_force option \<Rightarrow> in_force option \<Rightarrow> bool" where
  "rises a b \<longleftrightarrow>
     (case a of
        None \<Rightarrow> True
      | Some j \<Rightarrow> (case b of None \<Rightarrow> False | Some k \<Rightarrow> f_code j \<le> f_code k \<and> f_since k \<le> f_since j))"

lemma admitted_rises:
  "admitted_through t v j \<Longrightarrow> vertex_later v v' \<Longrightarrow> t \<le> t' \<Longrightarrow> f_code j \<le> f_code k \<Longrightarrow>
     f_since k \<le> f_since j \<Longrightarrow> admitted_through t' v' k"
  by (auto simp: admitted_through_def vertex_later_def split: option.splits)

text \<open>The join of a node's own flag to what it let through.\<close>

definition join_own :: "nat \<Rightarrow> nat option \<Rightarrow> nat \<Rightarrow> in_force option \<Rightarrow> in_force option option" where
  "join_own own since n up =
     (if own = 0 then Some up
      else case since of
        None \<Rightarrow> None
      | Some s \<Rightarrow>
          (case up of
             None \<Rightarrow> Some (Some \<lparr>f_code = own, f_node = n, f_since = s\<rparr>)
           | Some j \<Rightarrow>
               if own \<le> f_code j then Some (Some (j\<lparr>f_since := min (f_since j) s\<rparr>))
               else Some (Some \<lparr>f_code = own, f_node = n, f_since = min (f_since j) s\<rparr>)))"

lemma join_own_rises:
  assumes "own \<le> own'" "since = None \<or> since' = since" "rises a b"
    and "join_own own since n a = Some r" "join_own own' since' n b = Some r'"
  shows "rises r r'"
proof (cases "own = 0")
  case True
  with assms show ?thesis
    by (cases a; cases b) (auto simp: join_own_def rises_def split: if_splits option.splits)
next
  case False
  with assms obtain s where "since = Some s" "since' = Some s" "own' \<noteq> 0"
    by (cases since) (auto simp: join_own_def)
  with False assms show ?thesis
    by (cases a; cases b) (auto simp: join_own_def rises_def split: if_splits)
qed

lemma join_node_rises:
  assumes "vertex_later (w ! n) (w' ! n)" "t \<le> t'" "rises a b"
    and "join_node t w n a = Some r" "join_node t' w' n b = Some r'"
  shows "rises r r'"
proof -
  define a1 where "a1 = (case a of Some j \<Rightarrow> if admitted_through t (w ! n) j then Some j else None | None \<Rightarrow> None)"
  define b1 where "b1 = (case b of Some j \<Rightarrow> if admitted_through t' (w' ! n) j then Some j else None | None \<Rightarrow> None)"
  have up: "rises a1 b1"
    using assms(3) admitted_rises [OF _ assms(1,2)]
    by (auto simp: a1_def b1_def rises_def split: option.splits)
  have r: "join_own (v_flag (w ! n)) (v_since (w ! n)) n a1 = Some r"
    using assms(4) by (simp add: join_node_def join_own_def Let_def a1_def)
  have r': "join_own (v_flag (w' ! n)) (v_since (w' ! n)) n b1 = Some r'"
    using assms(5) by (simp add: join_node_def join_own_def Let_def b1_def)
  show ?thesis
    using join_own_rises [OF _ _ up r r'] assms(1) by (auto simp: vertex_later_def)
qed

text \<open>Two reads of one chain, each node of the second read no earlier.\<close>

lemma fold_reads_rises:
  assumes "list_all2 (\<lambda>(n, t, w) (n', t', w'). n' = n \<and> t \<le> t' \<and> vertex_later (w ! n) (w' ! n)) rs rs'"
    and "fold_reads rs = Some r" "fold_reads rs' = Some r'"
  shows "rises r r'"
  using assms
proof (induction rs rs' arbitrary: r r' rule: list_all2_induct)
  case (Cons x rs y rs')
  obtain n t w where x: "x = (n, t, w)" by (cases x)
  obtain t' w' where y: "y = (n, t', w')" "t \<le> t'" "vertex_later (w ! n) (w' ! n)"
    using Cons.hyps(1) by (cases y) (auto simp: x)
  obtain a where a: "fold_reads rs = Some a" "join_node t w n a = Some r"
    using Cons.prems(1) by (auto simp: x split: option.splits)
  obtain b where b: "fold_reads rs' = Some b" "join_node t' w' n b = Some r'"
    using Cons.prems(2) by (auto simp: y(1) split: option.splits)
  from join_node_rises [OF y(3,2) Cons.IH [OF a(1) b(1)] a(2) b(2)] show ?case .
qed (simp add: rises_def)

section \<open>No read panics\<close>

lemma join_node_total:
  "vertex_ok n (w ! n) \<Longrightarrow> (\<And>j. a = Some j \<Longrightarrow> 0 < f_code j \<and> f_code j \<le> 6) \<Longrightarrow>
     \<exists>r. join_node t w n a = Some r \<and> (\<forall>j. r = Some j \<longrightarrow> 0 < f_code j \<and> f_code j \<le> 6)"
  by (auto simp: join_node_def Let_def vertex_ok_def split: option.split if_splits)

lemma fold_reads_total:
  "(\<forall>(n, t, w)\<in>set rs. vertex_ok n (w ! n)) \<Longrightarrow>
     \<exists>r. fold_reads rs = Some r \<and> (\<forall>j. r = Some j \<longrightarrow> 0 < f_code j \<and> f_code j \<le> 6)"
proof (induction rs)
  case (Cons x rs)
  obtain n t w where x: "x = (n, t, w)" by (cases x)
  from Cons obtain r where "fold_reads rs = Some r" "\<forall>j. r = Some j \<longrightarrow> 0 < f_code j \<and> f_code j \<le> 6"
    by auto
  with Cons.prems join_node_total [of n w r t] show ?case by (auto simp: x)
qed simp

lemma scope_reads_ok:
  "scopes_ok w \<Longrightarrow> n < length w \<Longrightarrow> \<forall>(m, t', w')\<in>set (map (\<lambda>m. (m, t, w)) (scope_chain w n)). vertex_ok m (w' ! m)"
  using scope_chain_below [of w n]
  by (auto simp: scopes_ok_def [of w, THEN iffD1] dest: le_less_trans) (meson le_less_trans scopes_ok_def)

lemma cause_of_code: "0 < k \<Longrightarrow> k \<le> 6 \<Longrightarrow> \<exists>c. cause_of k = Some c \<and> cause_code c = k"
proof -
  assume "0 < k" "k \<le> 6"
  then have "k = 1 \<or> k = 2 \<or> k = 3 \<or> k = 4 \<or> k = 5 \<or> k = 6" by linarith
  then show ?thesis by (elim disjE) (simp_all add: cause_of_def)
qed

lemma cause_of_cause_code [simp]: "cause_of (cause_code c) = Some c"
  by (cases c) (simp_all add: cause_of_def)

text \<open>What a read answers is what its fold does, named.\<close>

lemma in_force_read:
  assumes "scopes_ok w" "n < length w"
  obtains r where "scope_resolve t w n = Some r"
    "case r of
       None \<Rightarrow> scope_in_force t w n = Some None
     | Some j \<Rightarrow> \<exists>c. cause_code c = f_code j \<and> scope_in_force t w n = Some (Some (c, f_node j))"
proof -
  obtain r where r: "scope_resolve t w n = Some r" "\<And>j. r = Some j \<Longrightarrow> 0 < f_code j \<and> f_code j \<le> 6"
    using fold_reads_total [OF scope_reads_ok [OF assms]] by (auto simp: scope_resolve_def)
  have "case r of
       None \<Rightarrow> scope_in_force t w n = Some None
     | Some j \<Rightarrow> \<exists>c. cause_code c = f_code j \<and> scope_in_force t w n = Some (Some (c, f_node j))"
  proof (cases r)
    case (Some j)
    with r(2) cause_of_code [of "f_code j"] obtain c where "cause_of (f_code j) = Some c" "cause_code c = f_code j"
      by auto
    with r(1) Some show ?thesis by (auto simp: scope_in_force_def)
  qed (simp add: scope_in_force_def r(1))
  with r(1) that show ?thesis by blast
qed

chapter \<open>Reads of a scope\<close>

text \<open>
  What a read of a scope answers: never less than its own flag, never less than an earlier read, and
  over a chain without a shield the strongest cause with its outermost owner.
\<close>

section \<open>A read and its node\<close>

lemma join_node_own:
  "join_node t w n up = Some r \<Longrightarrow> v_flag (w ! n) \<noteq> 0 \<Longrightarrow> \<exists>j. r = Some j \<and> v_flag (w ! n) \<le> f_code j"
  by (auto simp: join_node_def Let_def split: option.splits if_splits)

lemma resolve_own:
  "scope_resolve t w n = Some r \<Longrightarrow> v_flag (w ! n) \<noteq> 0 \<Longrightarrow> \<exists>j. r = Some j \<and> v_flag (w ! n) \<le> f_code j"
  by (auto simp: scope_resolve_def scope_chain.simps [of w n] split: option.splits dest: join_node_own)

lemma own_flag_in_force:
  assumes "scopes_ok w" "n < length w" "v_flag (w ! n) \<noteq> 0"
  shows "\<exists>c m. scope_in_force t w n = Some (Some (c, m)) \<and> v_flag (w ! n) \<le> cause_code c"
proof -
  obtain r where r: "scope_resolve t w n = Some r"
    "case r of None \<Rightarrow> scope_in_force t w n = Some None
     | Some j \<Rightarrow> \<exists>c. cause_code c = f_code j \<and> scope_in_force t w n = Some (Some (c, f_node j))"
    by (rule in_force_read [OF assms(1,2)])
  from resolve_own [OF r(1) assms(3)] obtain j where "r = Some j" "v_flag (w ! n) \<le> f_code j" by blast
  with r(2) show ?thesis by auto
qed

section \<open>Reads of a chain while others write\<close>

lemma chain_reads_ok:
  assumes "scopes_ok w" "n < length w" "map fst rs = scope_chain w n"
    and "\<forall>(m, t', w')\<in>set rs. t \<le> t' \<and> scopes_ok w' \<and> later w w'"
    and "(m, t', w') \<in> set rs"
  shows "vertex_ok m (w' ! m) \<and> t \<le> t' \<and> vertex_later (w ! m) (w' ! m)"
proof -
  have "m \<in> set (scope_chain w n)" using assms(3,5) by (metis fst_conv image_eqI list.set_map)
  then have "m < length w" using scope_chain_below [OF assms(1,2)] assms(2) by (blast intro: le_less_trans)
  with assms(4,5) show ?thesis by (fastforce simp: later_def scopes_ok_def)
qed

lemma fold_chain_total:
  assumes "scopes_ok w" "n < length w" "map fst rs = scope_chain w n"
    and "\<forall>(m, t', w')\<in>set rs. t \<le> t' \<and> scopes_ok w' \<and> later w w'"
  shows "\<exists>r. fold_reads rs = Some r \<and> (\<forall>j. r = Some j \<longrightarrow> 0 < f_code j \<and> f_code j \<le> 6)"
  using fold_reads_total [of rs] chain_reads_ok [OF assms] by fastforce

lemma fold_reads_later:
  assumes "scopes_ok w" "n < length w" "map fst rs = scope_chain w n"
    and "\<forall>(m, t', w')\<in>set rs. t \<le> t' \<and> scopes_ok w' \<and> later w w'"
    and "scope_resolve t w n = Some (Some j)"
  shows "\<exists>k. fold_reads rs = Some (Some k) \<and> f_code j \<le> f_code k \<and> f_since k \<le> f_since j"
proof -
  note ok = chain_reads_ok [OF assms(1-4)]
  obtain r where r: "fold_reads rs = Some r" using fold_chain_total [OF assms(1-4)] by blast
  have "list_all2 (\<lambda>(n, t, w) (n', t', w'). n' = n \<and> t \<le> t' \<and> vertex_later (w ! n) (w' ! n))
          (map (\<lambda>m. (m, t, w)) (map fst rs)) rs"
    using ok by (auto simp: list_all2_conv_all_nth in_set_conv_nth split: prod.split)
  from fold_reads_rises [OF this _ r] assms(5) have "rises (Some j) r"
    by (simp add: scope_resolve_def assms(3))
  with r show ?thesis by (auto simp: rises_def split: option.splits)
qed

section \<open>A chain without a shield\<close>

lemma scope_chain_not_empty: "scope_chain w n \<noteq> []"
  by (subst scope_chain.simps) simp

definition flag_of :: "scopes \<Rightarrow> nat \<Rightarrow> nat" where
  "flag_of w m = v_flag (w ! m)"

definition strongest :: "scopes \<Rightarrow> nat list \<Rightarrow> nat" where
  "strongest w ms = Max (insert 0 (flag_of w ` set ms))"

text \<open>The outermost of the nodes that have the strongest flag: the last of the chain.\<close>

definition outermost :: "scopes \<Rightarrow> nat list \<Rightarrow> nat" where
  "outermost w ms = last (filter (\<lambda>m. flag_of w m = strongest w ms) ms)"

lemma strongest_Cons: "strongest w (m # ms) = max (flag_of w m) (strongest w ms)"
proof -
  have "insert 0 (flag_of w ` set (m # ms)) = insert (flag_of w m) (insert 0 (flag_of w ` set ms))" by auto
  moreover have "Max (insert (flag_of w m) (insert 0 (flag_of w ` set ms)))
      = max (flag_of w m) (Max (insert 0 (flag_of w ` set ms)))"
    by (rule Max_insert) simp_all
  ultimately show ?thesis by (simp add: strongest_def)
qed

lemma flag_le_strongest: "m \<in> set ms \<Longrightarrow> flag_of w m \<le> strongest w ms"
  by (simp add: strongest_def)

lemma strongest_attained: "strongest w ms \<noteq> 0 \<Longrightarrow> \<exists>m\<in>set ms. flag_of w m = strongest w ms"
  using Max_in [of "insert 0 (flag_of w ` set ms)"] by (auto simp: strongest_def)

lemma outermost_own:
  assumes "strongest w ms < flag_of w m"
  shows "outermost w (m # ms) = m"
proof -
  have "filter (\<lambda>x. flag_of w x = flag_of w m) ms = []"
    using assms flag_le_strongest [of _ ms w] by (fastforce simp: filter_empty_conv)
  with assms show ?thesis by (simp add: outermost_def strongest_Cons max_def)
qed

lemma outermost_above:
  assumes "flag_of w m \<le> strongest w ms" "strongest w ms \<noteq> 0"
  shows "outermost w (m # ms) = outermost w ms"
proof -
  have "filter (\<lambda>x. flag_of w x = strongest w ms) ms \<noteq> []"
    using strongest_attained [OF assms(2)] by (auto simp: filter_empty_conv)
  with assms(1) show ?thesis by (simp add: outermost_def strongest_Cons max_absorb2)
qed

lemma unshielded_reads:
  assumes "\<forall>m\<in>set ms. v_shield (w ! m) = None \<and> (v_flag (w ! m) \<noteq> 0 \<longrightarrow> v_since (w ! m) \<noteq> None)"
  shows "case fold_reads (map (\<lambda>m. (m, t, w)) ms) of
           None \<Rightarrow> False
         | Some None \<Rightarrow> strongest w ms = 0
         | Some (Some j) \<Rightarrow> strongest w ms \<noteq> 0 \<and> f_code j = strongest w ms \<and> f_node j = outermost w ms"
  using assms
proof (induction ms)
  case Nil
  then show ?case by (simp add: strongest_def)
next
  case (Cons m ms)
  have m: "v_shield (w ! m) = None" "v_since (w ! m) = None \<Longrightarrow> v_flag (w ! m) = 0" using Cons.prems by auto
  have IH: "case fold_reads (map (\<lambda>m. (m, t, w)) ms) of
           None \<Rightarrow> False
         | Some None \<Rightarrow> strongest w ms = 0
         | Some (Some j) \<Rightarrow> strongest w ms \<noteq> 0 \<and> f_code j = strongest w ms \<and> f_node j = outermost w ms"
    using Cons.IH Cons.prems by auto
  show ?case
  proof (cases "fold_reads (map (\<lambda>m. (m, t, w)) ms)")
    case (Some up)
    have flag: "flag_of w m = v_flag (w ! m)" by (simp add: flag_of_def)
    show ?thesis
    proof (cases up)
      case None
      with Some IH m show ?thesis
        using outermost_own [of w ms m]
        by (auto simp: join_node_def Let_def strongest_Cons flag not_less split: option.splits)
    next
      case (Some j)
      with \<open>fold_reads (map (\<lambda>m. (m, t, w)) ms) = Some up\<close> IH m show ?thesis
        using outermost_own [of w ms m] outermost_above [of w m ms]
        by (auto simp: join_node_def admitted_through_def Let_def strongest_Cons flag max_def
            split: option.splits)
    qed
  qed (use IH in simp)
qed

end
