(* ===== verification/Worker_Claims.thy ===== *)
theory Worker_Claims
  imports Worker_Handle Cancel_Facts
begin

text \<open>
  Histories of what threads do to the handles: what a handle promises of one, what every act keeps.
\<close>

chapter \<open>What a handle promises\<close>

text \<open>
  Every order of what threads do to a pool of handles: births, writes, endings, claims, stops and the
  writes of scopes.  A history is a list of such acts; what a handle promises is read off the history
  alone, and what was taken of it off the acts as they ran.
\<close>

section \<open>Histories\<close>

datatype 'v deed =
  Born nat bytes nat instant
| Wrote nat bool bytes
| Finished nat "'v worker_end" instant
| Dropped nat instant
| Claimed nat
| Halted nat instant
| Struck nat nat
| Raised nat cancel_cause
| Minted nat "nat option"

text \<open>What an act needs: a handle there is, a permit unspent, a node struck before it is raised.\<close>

fun deed_ok :: "'v deed \<Rightarrow> 'v pool \<Rightarrow> bool" where
  "deed_ok (Born i t n now) w \<longleftrightarrow> n < length (nodes w)"
| "deed_ok (Wrote h e b) w \<longleftrightarrow> h < length (handles w)"
| "deed_ok (Finished h e now) w \<longleftrightarrow> h < length (handles w) \<and> h_permit (handles w ! h)"
| "deed_ok (Dropped h now) w \<longleftrightarrow> h < length (handles w) \<and> h_permit (handles w ! h)"
| "deed_ok (Claimed h) w \<longleftrightarrow> h < length (handles w)"
| "deed_ok (Halted h now) w \<longleftrightarrow> h < length (handles w)"
| "deed_ok (Struck n t) w \<longleftrightarrow> n < length (nodes w)"
| "deed_ok (Raised n c) w \<longleftrightarrow> n < length (nodes w) \<and> v_since (nodes w ! n) \<noteq> None"
| "deed_ok (Minted n g) w \<longleftrightarrow> n < length (nodes w)"

fun worker_act :: "'v deed \<Rightarrow> 'v pool \<Rightarrow> 'v pool" where
  "worker_act (Born i t n now) w =
     (let (m, ns) = scope_child n (nodes w) in snd (handle_new i t m now (w\<lparr>nodes := ns\<rparr>)))"
| "worker_act (Wrote h e b) w = worker_write h e b w"
| "worker_act (Finished h e now) w = permit_finish h e now w"
| "worker_act (Dropped h now) w = permit_drop h now w"
| "worker_act (Claimed h) w = snd (claim_ready h w)"
| "worker_act (Halted h now) w = snd (claim_and_stop h now w)"
| "worker_act (Struck n t) w = w\<lparr>nodes := strike n t (nodes w)\<rparr>"
| "worker_act (Raised n c) w = w\<lparr>nodes := raise_flag n c (nodes w)\<rparr>"
| "worker_act (Minted n g) w =
     w\<lparr>nodes := snd (case g of None \<Rightarrow> scope_child n (nodes w) | Some g \<Rightarrow> scope_shielded n g (nodes w))\<rparr>"

definition history_run :: "'v deed list \<Rightarrow> 'v pool \<Rightarrow> 'v pool" where
  "history_run acts w = foldl (\<lambda>w a. worker_act a w) w acts"

fun legal :: "'v deed list \<Rightarrow> 'v pool \<Rightarrow> bool" where
  "legal [] w \<longleftrightarrow> True"
| "legal (a # as) w \<longleftrightarrow> deed_ok a w \<and> legal as (worker_act a w)"

lemma history_run_simps [simp]:
  "history_run [] w = w"
  "history_run (a # as) w = history_run as (worker_act a w)"
  "history_run (as @ bs) w = history_run bs (history_run as w)"
  by (simp_all add: history_run_def)

lemma legal_append [simp]: "legal (as @ bs) w \<longleftrightarrow> legal as w \<and> legal bs (history_run as w)"
  by (induction as arbitrary: w) auto

text \<open>The completions of \<open>h\<close> that acts took out of it, delivered or discarded.\<close>

fun taken_by :: "nat \<Rightarrow> 'v deed \<Rightarrow> 'v pool \<Rightarrow> 'v completed list" where
  "taken_by h (Claimed g) w =
     (case claim_ready g w of (SReady c, _) \<Rightarrow> if g = h then [c] else [] | _ \<Rightarrow> [])"
| "taken_by h (Halted g now) w =
     (case h_cell (handles w ! g) of Ended _ (Some c) \<Rightarrow> if g = h then [c] else [] | _ \<Rightarrow> [])"
| "taken_by h _ w = []"

fun taken_of :: "nat \<Rightarrow> 'v deed list \<Rightarrow> 'v pool \<Rightarrow> 'v completed list" where
  "taken_of h [] w = []"
| "taken_of h (a # as) w = taken_by h a w @ taken_of h as (worker_act a w)"

lemma taken_append [simp]: "taken_of h (as @ bs) w = taken_of h as w @ taken_of h bs (history_run as w)"
  by (induction as arbitrary: w) auto

section \<open>What a handle promises\<close>

definition ends_it :: "nat \<Rightarrow> 'v deed \<Rightarrow> bool" where
  "ends_it h a \<longleftrightarrow> (case a of Finished g _ _ \<Rightarrow> g = h | Dropped g _ \<Rightarrow> g = h | _ \<Rightarrow> False)"

definition writes_of :: "nat \<Rightarrow> bool \<Rightarrow> 'v deed list \<Rightarrow> bytes list" where
  "writes_of h e acts =
     List.map_filter (\<lambda>a. case a of Wrote g e' b \<Rightarrow> if g = h \<and> e' = e then Some b else None | _ \<Rightarrow> None) acts"

text \<open>What a buffer keeps of what was written to it: a prefix, and one marker if there was more.\<close>

definition retained :: "bytes list \<Rightarrow> bytes" where
  "retained bs =
     (if length (concat bs) \<le> sink_buffer_cap then concat bs
      else take sink_buffer_cap (concat bs) @ trunc_marker)"

definition buffered :: "bytes list \<Rightarrow> captured" where
  "buffered bs = foldl (\<lambda>c b. captured_append b c) captured_new bs"

lemma buffered_simps [simp]:
  "buffered [] = captured_new"
  "buffered (bs @ [b]) = captured_append b (buffered bs)"
  by (simp_all add: buffered_def)

lemma buffered_keeps: "cap_bytes (buffered bs) = retained bs"
proof (induction bs rule: rev_induct)
  case Nil
  then show ?case by (simp add: captured_new_def retained_def)
next
  case (snoc b bs)
  have "trunc_marker \<noteq> []" by (simp add: trunc_marker_def)
  with snoc show ?case
    by (auto simp: captured_append_def Let_def retained_def min_def)
qed

definition ending_of :: "bytes \<Rightarrow> 'v deed \<Rightarrow> 'v worker_end" where
  "ending_of t a = (case a of Finished _ e _ \<Rightarrow> e | _ \<Rightarrow> EndPanic (t @ '': spawned thread panicked''))"

definition promised :: "nat \<Rightarrow> bytes \<Rightarrow> 'v deed list \<Rightarrow> 'v completed option" where
  "promised h t acts =
     (let pre = takeWhile (\<lambda>a. \<not> ends_it h a) acts
      in case dropWhile (\<lambda>a. \<not> ends_it h a) acts of
           [] \<Rightarrow> None
         | a # _ \<Rightarrow>
             Some \<lparr>c_stdout = retained (writes_of h False pre), c_stderr = retained (writes_of h True pre),
                   c_end = ending_of t a\<rparr>)"

lemma promised_Nil [simp]: "promised h t [] = None"
  by (simp add: promised_def)

lemma promised_snoc:
  "promised h t (acts @ [a]) =
     (case promised h t acts of
        Some c \<Rightarrow> Some c
      | None \<Rightarrow>
          if ends_it h a
          then Some \<lparr>c_stdout = retained (writes_of h False acts), c_stderr = retained (writes_of h True acts),
                     c_end = ending_of t a\<rparr>
          else None)"
proof (cases "\<exists>x\<in>set acts. ends_it h x")
  case True
  then obtain x where x: "x \<in> set acts" "\<not> \<not> ends_it h x" by auto
  then have "dropWhile (\<lambda>a. \<not> ends_it h a) acts \<noteq> []" by (auto simp: dropWhile_eq_Nil_conv)
  then show ?thesis
    by (auto simp: promised_def Let_def dropWhile_append1 [where P = "\<lambda>a. \<not> ends_it h a", OF x]
        takeWhile_append1 [where P = "\<lambda>a. \<not> ends_it h a", OF x] split: list.split)
next
  case False
  then have "takeWhile (\<lambda>a. \<not> ends_it h a) acts = acts" "dropWhile (\<lambda>a. \<not> ends_it h a) acts = []"
    by (auto simp: takeWhile_eq_all_conv)
  with False show ?thesis
    by (simp add: promised_def Let_def dropWhile_append2 takeWhile_append2
        del: dropWhile_eq_Nil_conv takeWhile_eq_all_conv)
qed

section \<open>What its cell holds\<close>

text \<open>A born handle at its birth, and how it stands after a history.\<close>

definition fresh :: "nat \<Rightarrow> bytes \<Rightarrow> 'v pool \<Rightarrow> bool" where
  "fresh h t w \<longleftrightarrow>
     h < length (handles w) \<and>
     (let v = handles w ! h
      in h_cell v = Running \<and> h_stdout v = captured_new \<and> h_stderr v = captured_new \<and> h_title v = t
         \<and> h_permit v)"

definition stands :: "nat \<Rightarrow> bytes \<Rightarrow> 'v deed list \<Rightarrow> 'v completed list \<Rightarrow> 'v handle \<Rightarrow> bool" where
  "stands h t acts gone v \<longleftrightarrow>
     h_title v = t \<and> (h_permit v \<longleftrightarrow> promised h t acts = None) \<and>
     (case promised h t acts of
        None \<Rightarrow>
          cell_ended (h_cell v) = None \<and> gone = []
          \<and> h_stdout v = buffered (writes_of h False acts) \<and> h_stderr v = buffered (writes_of h True acts)
      | Some c \<Rightarrow>
          (\<exists>e r. h_cell v = Ended e r \<and> (r = Some c \<and> gone = [] \<or> r = None \<and> (gone = [] \<or> gone = [c]))))"

lemma writes_of_simps [simp]:
  "writes_of h e [] = []"
  "writes_of h e (acts @ bs) = writes_of h e acts @ writes_of h e bs"
  by (simp_all add: writes_of_def List.map_filter_def)

lemma fresh_stands: "fresh h t w \<Longrightarrow> stands h t [] [] (handles w ! h)"
  by (simp add: fresh_def stands_def Let_def cell_ended_def)

lemma handles_length: "deed_ok a w \<Longrightarrow> length (handles w) \<le> length (handles (worker_act a w))"
  by (cases a)
    (auto simp: worker_write_def permit_finish_def permit_drop_def on_handle_def claim_ready_def
      claim_and_stop_def handle_new_def split: cell.splits option.splits prod.splits)

lemma history_length: "legal acts w \<Longrightarrow> length (handles w) \<le> length (handles (history_run acts w))"
  by (induction acts arbitrary: w) (auto intro: order_trans handles_length)

lemma nth_on_handle [simp]:
  "h < length (handles w) \<Longrightarrow>
     handles (on_handle g f w) ! h = (if g = h then f (handles w ! h) else handles w ! h)"
  by (auto simp: on_handle_def)

lemma length_on_handle [simp]: "length (handles (on_handle g f w)) = length (handles w)"
  by (simp add: on_handle_def)

lemma handles_nodes [simp]: "handles (w\<lparr>nodes := ns\<rparr>) = handles w"
  by simp

lemma stands_other:
  "\<not> ends_it h a \<Longrightarrow> writes_of h False [a] = [] \<Longrightarrow> writes_of h True [a] = [] \<Longrightarrow>
     stands h t acts gone v \<Longrightarrow> stands h t (acts @ [a]) gone v"
  by (auto simp: stands_def promised_snoc split: option.splits)

lemma stands_write:
  "stands h t acts gone v \<Longrightarrow>
     stands h t (acts @ [Wrote h e b]) gone
       (if e then v\<lparr>h_stderr := captured_append b (h_stderr v)\<rparr>
        else v\<lparr>h_stdout := captured_append b (h_stdout v)\<rparr>)"
  by (auto simp: stands_def promised_snoc ends_it_def writes_of_def List.map_filter_def split: option.splits)

lemma install_ends:
  "stands h t acts gone v \<Longrightarrow> ends_it h a \<Longrightarrow> promised h t acts = None \<Longrightarrow> ending_of t a = e \<Longrightarrow>
     stands h t (acts @ [a]) gone ((install_terminal e now v)\<lparr>h_permit := False\<rparr>)"
  by (auto simp: stands_def promised_snoc install_terminal_def captured_take_def buffered_keeps Let_def
      split: cell.split)

lemma installed_ended [simp]: "cell_ended (h_cell (install_terminal e now v)) = Some now"
  by (simp add: install_terminal_def cell_ended_def Let_def captured_take_def)

lemma finish_handle:
  "h < length (handles w) \<Longrightarrow>
     handles (permit_finish g e now w) ! h =
       (if g = h then (publish e now (handles w ! h))\<lparr>h_permit := False\<rparr> else handles w ! h)"
  by (auto simp: permit_finish_def permit_drop_def publish_abandoned_def publish_def split: option.split)

lemma stands_finish:
  assumes "stands h t acts gone v" "h_permit v"
  shows "stands h t (acts @ [Finished h e now]) gone ((publish e now v)\<lparr>h_permit := False\<rparr>)"
    and "stands h t (acts @ [Dropped h now]) gone ((publish_abandoned now v)\<lparr>h_permit := False\<rparr>)"
proof -
  from assms have p: "promised h t acts = None" "cell_ended (h_cell v) = None" "h_title v = t"
    by (auto simp: stands_def)
  show "stands h t (acts @ [Finished h e now]) gone ((publish e now v)\<lparr>h_permit := False\<rparr>)"
    using install_ends [OF assms(1) _ p(1), of "Finished h e now" e now] p
    by (simp add: publish_def ends_it_def ending_of_def)
  show "stands h t (acts @ [Dropped h now]) gone ((publish_abandoned now v)\<lparr>h_permit := False\<rparr>)"
    using install_ends [OF assms(1) _ p(1), of "Dropped h now" "EndPanic (t @ '': spawned thread panicked'')" now] p
    by (simp add: publish_abandoned_def ends_it_def ending_of_def)
qed

text \<open>A result taken: the cell held it, and holds it no more.\<close>

lemma stands_taken:
  "stands h t acts gone v \<Longrightarrow> h_cell v = Ended e (Some c) \<Longrightarrow>
     stands h t acts (gone @ [c]) (v\<lparr>h_cell := Ended e None\<rparr>)"
  by (auto simp: stands_def cell_ended_def split: option.splits)

lemma stands_stopped:
  "stands h t acts gone v \<Longrightarrow> h_cell v = Running \<Longrightarrow> stands h t acts gone (v\<lparr>h_cell := Stopping\<rparr>)"
  by (auto simp: stands_def cell_ended_def split: option.splits)

lemma stands_claimed:
  assumes "stands h t acts gone (handles w ! h)" "h < length (handles w)"
  shows "stands h t acts (gone @ taken_by h (Claimed g) w) (handles (snd (claim_ready g w)) ! h)"
    and "stands h t acts (gone @ taken_by h (Halted g now) w) (handles (snd (claim_and_stop g now w)) ! h)"
  using assms stands_taken [OF assms(1)] stands_stopped [OF assms(1)]
  by (auto simp: claim_ready_def claim_and_stop_def split: cell.splits option.splits)

lemma stands_act:
  assumes "stands h t acts gone (handles w ! h)" "h < length (handles w)" "deed_ok a w"
  shows "stands h t (acts @ [a]) (gone @ taken_by h a w) (handles (worker_act a w) ! h)"
proof (cases a)
  case (Wrote g e b)
  with assms stands_write [OF assms(1), of e b] show ?thesis
    by (cases "g = h")
      (auto simp: worker_write_def ends_it_def writes_of_def List.map_filter_def intro!: stands_other)
next
  case (Finished g e now)
  with assms stands_finish(1) [OF assms(1)] show ?thesis
    by (cases "g = h")
      (auto simp: finish_handle ends_it_def writes_of_def List.map_filter_def intro!: stands_other)
next
  case (Dropped g now)
  with assms stands_finish(2) [OF assms(1)] show ?thesis
    by (cases "g = h")
      (auto simp: permit_drop_def ends_it_def writes_of_def List.map_filter_def intro!: stands_other)
next
  case (Claimed g)
  with stands_claimed(1) [OF assms(1,2), of g] show ?thesis
    by (auto simp: ends_it_def writes_of_def List.map_filter_def intro!: stands_other)
next
  case (Halted g now)
  with stands_claimed(2) [OF assms(1,2), of g now] show ?thesis
    by (auto simp: ends_it_def writes_of_def List.map_filter_def simp del: taken_by.simps intro!: stands_other)
next
  case (Born i t' n now)
  with assms show ?thesis
    by (auto simp: handle_new_def nth_append ends_it_def writes_of_def List.map_filter_def split: prod.split
        intro!: stands_other)
qed (use assms in \<open>auto simp: ends_it_def writes_of_def List.map_filter_def intro!: stands_other\<close>)

lemma stands_after:
  assumes "fresh h t w" "legal acts w"
  shows "stands h t acts (taken_of h acts w) (handles (history_run acts w) ! h)"
  using assms(2)
proof (induction acts rule: rev_induct)
  case Nil
  then show ?case using fresh_stands [OF assms(1)] by simp
next
  case (snoc a acts)
  then have "legal acts w" "deed_ok a (history_run acts w)" by auto
  moreover have "h < length (handles (history_run acts w))"
    using assms(1) history_length [OF \<open>legal acts w\<close>] by (simp add: fresh_def)
  ultimately show ?case using stands_act [OF snoc.IH] by simp
qed

chapter \<open>What every act keeps\<close>

text \<open>
  What every act keeps of a pool of handles, and that nothing it does is taken back: a cell only goes
  forward, a node stays struck, and whoever sees a cell stopping can see its node stopped.
\<close>

section \<open>Cells only go forward\<close>

fun cell_later :: "'v cell \<Rightarrow> 'v cell \<Rightarrow> bool" where
  "cell_later Running c \<longleftrightarrow> True"
| "cell_later Stopping c \<longleftrightarrow> c = Stopping \<or> (\<exists>t. c = Ended t None)"
| "cell_later (Ended t (Some d)) c \<longleftrightarrow> c = Ended t (Some d) \<or> c = Ended t None"
| "cell_later (Ended t None) c \<longleftrightarrow> c = Ended t None"

lemma cell_later_refl [simp]: "cell_later c c"
  by (cases "(c, c)" rule: cell_later.cases) auto

lemma cell_later_trans: "cell_later a b \<Longrightarrow> cell_later b c \<Longrightarrow> cell_later a c"
  by (cases "(a, b)" rule: cell_later.cases) (auto elim: cell_later.elims)

lemma later_not_running: "cell_later c c' \<Longrightarrow> c \<noteq> Running \<Longrightarrow> c' \<noteq> Running"
  by (cases "(c, c')" rule: cell_later.cases) auto

lemma later_ended: "cell_later c c' \<Longrightarrow> cell_ended c = Some t \<Longrightarrow> cell_ended c' = Some t"
  by (cases "(c, c')" rule: cell_later.cases) (auto simp: cell_ended_def)

definition handle_later :: "'v handle \<Rightarrow> 'v handle \<Rightarrow> bool" where
  "handle_later v v' \<longleftrightarrow>
     cell_later (h_cell v) (h_cell v') \<and> h_id v' = h_id v \<and> h_title v' = h_title v
     \<and> h_node v' = h_node v \<and> (h_permit v' \<longrightarrow> h_permit v)"

definition pool_later :: "'v pool \<Rightarrow> 'v pool \<Rightarrow> bool" where
  "pool_later w w' \<longleftrightarrow>
     length (handles w) \<le> length (handles w') \<and> later (nodes w) (nodes w')
     \<and> (\<forall>h<length (handles w). handle_later (handles w ! h) (handles w' ! h))"

lemma handle_later_refl [simp]: "handle_later v v"
  by (simp add: handle_later_def)

lemma handle_later_trans: "handle_later a b \<Longrightarrow> handle_later b c \<Longrightarrow> handle_later a c"
  by (auto simp: handle_later_def intro: cell_later_trans)

lemma pool_later_refl [simp]: "pool_later w w"
  by (simp add: pool_later_def)

lemma pool_later_trans: "pool_later a b \<Longrightarrow> pool_later b c \<Longrightarrow> pool_later a c"
  unfolding pool_later_def by (meson handle_later_trans later_trans less_le_trans order_trans)

text \<open>
  What every history keeps: the tree is well formed, a handle's node is in it, a cell without an end
  has its permit unspent, and one that reads \<open>Stopping\<close> has its node struck.
\<close>

definition handle_ok :: "scopes \<Rightarrow> 'v handle \<Rightarrow> bool" where
  "handle_ok ns v \<longleftrightarrow>
     h_node v < length ns \<and> (cell_ended (h_cell v) = None \<longleftrightarrow> h_permit v)
     \<and> (h_cell v = Stopping \<longrightarrow> cause_code Cancelled \<le> v_flag (ns ! h_node v))"

definition pool_ok :: "'v pool \<Rightarrow> bool" where
  "pool_ok w \<longleftrightarrow> scopes_ok (nodes w) \<and> (\<forall>v\<in>set (handles w). handle_ok (nodes w) v)"

text \<open>An act is a write of the tree and at most one handle put in a later state.\<close>

definition moves_handle :: "nat \<Rightarrow> 'v pool \<Rightarrow> 'v pool \<Rightarrow> bool" where
  "moves_handle h w w' \<longleftrightarrow>
     h < length (handles w) \<and> later (nodes w) (nodes w') \<and> (scopes_ok (nodes w) \<longrightarrow> scopes_ok (nodes w')) \<and>
     (\<exists>v. handles w' = (handles w)[h := v] \<and> handle_later (handles w ! h) v
          \<and> (pool_ok w \<longrightarrow> handle_ok (nodes w') v))"

lemma handle_ok_later: "handle_ok ns v \<Longrightarrow> later ns ns' \<Longrightarrow> handle_ok ns' v"
  by (fastforce simp: handle_ok_def later_def vertex_later_def dest: le_trans)

lemma moves_handle_later: "moves_handle h w w' \<Longrightarrow> pool_later w w'"
  by (auto simp: moves_handle_def pool_later_def nth_list_update)

lemma moves_handle_ok: "moves_handle h w w' \<Longrightarrow> pool_ok w \<Longrightarrow> pool_ok w'"
  by (auto simp: moves_handle_def pool_ok_def intro: handle_ok_later dest!: set_update_subset_insert [THEN subsetD])

definition writes_scopes :: "'v pool \<Rightarrow> 'v pool \<Rightarrow> bool" where
  "writes_scopes w w' \<longleftrightarrow>
     handles w' = handles w \<and> later (nodes w) (nodes w') \<and> (scopes_ok (nodes w) \<longrightarrow> scopes_ok (nodes w'))"

lemma writes_scopes_later: "writes_scopes w w' \<Longrightarrow> pool_later w w'"
  by (simp add: writes_scopes_def pool_later_def)

lemma writes_scopes_ok: "writes_scopes w w' \<Longrightarrow> pool_ok w \<Longrightarrow> pool_ok w'"
  by (auto simp: writes_scopes_def pool_ok_def intro: handle_ok_later)

lemma writes_scopesI: "scope_steps ns ns' \<Longrightarrow> ns = nodes w \<Longrightarrow> writes_scopes w (w\<lparr>nodes := ns'\<rparr>)"
  by (auto simp: writes_scopes_def intro: scope_steps_later scope_steps_ok)

lemma scope_cancel_steps:
  "n < length ns \<Longrightarrow> scope_steps ns (scope_cancel n c t ns)"
proof -
  assume n: "n < length ns"
  have "v_since (strike n t ns ! n) \<noteq> None" using n by (simp add: strike_def)
  moreover have "n < length (strike n t ns)" using n by (simp add: strike_def)
  ultimately have "scope_step (strike n t ns) (scope_cancel n c t ns)"
    unfolding scope_cancel_def by (intro scope_step.raised)
  with scope_step.struck [OF n] show ?thesis by (meson converse_rtranclp_into_rtranclp r_into_rtranclp)
qed

lemma scope_cancel_flag:
  "n < length ns \<Longrightarrow> cause_code c \<le> v_flag (scope_cancel n c t ns ! n)"
  by (simp add: scope_cancel_def raise_flag_def strike_def)

text \<open>A handle moved with the tree as it was.\<close>

lemma on_handle_moves:
  "h < length (handles w) \<Longrightarrow> handle_later (handles w ! h) (f (handles w ! h)) \<Longrightarrow>
     (pool_ok w \<Longrightarrow> handle_ok (nodes w) (handles w ! h) \<Longrightarrow> handle_ok (nodes w) (f (handles w ! h))) \<Longrightarrow>
     moves_handle h w (on_handle h f w)"
  unfolding moves_handle_def
  by (auto simp: on_handle_def pool_ok_def intro!: exI [of _ "f (handles w ! h)"])

lemma write_moves: "h < length (handles w) \<Longrightarrow> moves_handle h w (worker_write h e b w)"
  unfolding worker_write_def by (rule on_handle_moves) (auto simp: handle_later_def handle_ok_def)

lemma publish_later: "handle_later v (publish e now v)"
  by (auto simp: publish_def install_terminal_def handle_later_def captured_take_def Let_def cell_ended_def
      split: option.split cell.split)

lemma publish_ends: "cell_ended (h_cell (publish e now v)) \<noteq> None" "h_cell (publish e now v) \<noteq> Stopping"
  by (auto simp: publish_def install_terminal_def captured_take_def Let_def cell_ended_def
      split: option.split cell.splits)

lemma publish_node [simp]: "h_node (publish e now v) = h_node v"
  by (simp add: publish_def install_terminal_def captured_take_def Let_def split: option.split)

lemma abandoned_is_publish:
  "publish_abandoned now v = publish (EndPanic (h_title v @ '': spawned thread panicked'')) now v"
  by (simp add: publish_abandoned_def publish_def)

lemma spent_later: "handle_later v w \<Longrightarrow> handle_later v (w\<lparr>h_permit := False\<rparr>)"
  by (simp add: handle_later_def)

lemma spent_ok: "handle_ok ns v \<Longrightarrow> handle_ok ns ((publish e now v)\<lparr>h_permit := False\<rparr>)"
  using publish_ends [of e now v] by (simp add: handle_ok_def)

lemma drop_moves: "h < length (handles w) \<Longrightarrow> moves_handle h w (permit_drop h now w)"
  unfolding permit_drop_def
  by (rule on_handle_moves) (simp_all add: abandoned_is_publish spent_later publish_later spent_ok)

lemma finish_as_one:
  "permit_finish h e now w = on_handle h (\<lambda>v. (publish e now v)\<lparr>h_permit := False\<rparr>) w"
proof (cases "h < length (handles w)")
  case True
  have "publish_abandoned now (publish e now v) = publish e now v" for v :: "'a handle"
    using publish_ends(1) [of e now v] by (auto simp: publish_abandoned_def)
  with True show ?thesis by (simp add: permit_finish_def permit_drop_def on_handle_def)
qed (simp add: permit_finish_def permit_drop_def on_handle_def list_update_beyond)

lemma finish_moves: "h < length (handles w) \<Longrightarrow> moves_handle h w (permit_finish h e now w)"
  unfolding finish_as_one by (rule on_handle_moves) (simp_all add: spent_later publish_later spent_ok)

lemma same_moves: "h < length (handles w) \<Longrightarrow> moves_handle h w w"
  unfolding moves_handle_def by (auto simp: pool_ok_def intro!: exI [of _ "handles w ! h"])

lemma taken_moves:
  "h < length (handles w) \<Longrightarrow> h_cell (handles w ! h) = Ended e (Some c) \<Longrightarrow>
     moves_handle h w (on_handle h (\<lambda>v. v\<lparr>h_cell := Ended e None\<rparr>) w)"
  by (rule on_handle_moves) (auto simp: handle_later_def handle_ok_def cell_ended_def)

lemma claim_moves: "h < length (handles w) \<Longrightarrow> moves_handle h w (snd (claim_ready h w))"
  by (auto simp: claim_ready_def intro: same_moves taken_moves split: cell.split option.split)

lemma stopped_moves:
  assumes "h < length (handles w)" "h_cell (handles w ! h) = Running"
  shows "moves_handle h w
           (on_handle h (\<lambda>v. v\<lparr>h_cell := Stopping\<rparr>)
             (w\<lparr>nodes := scope_cancel (h_node (handles w ! h)) Cancelled t (nodes w)\<rparr>))"
proof (cases "h_node (handles w ! h) < length (nodes w)")
  case True
  define ns where "ns = scope_cancel (h_node (handles w ! h)) Cancelled t (nodes w)"
  have steps: "scope_steps (nodes w) ns" "cause_code Cancelled \<le> v_flag (ns ! h_node (handles w ! h))"
    unfolding ns_def by (rule scope_cancel_steps [OF True], rule scope_cancel_flag [OF True])
  have "later (nodes w) ns" "scopes_ok (nodes w) \<longrightarrow> scopes_ok ns"
    using steps(1) by (auto intro: scope_steps_later scope_steps_ok)
  moreover have "h_node (handles w ! h) < length ns"
    using True \<open>later (nodes w) ns\<close> by (simp add: later_def)
  moreover have "pool_ok w \<Longrightarrow> h_permit (handles w ! h)"
    using assms by (auto simp: pool_ok_def handle_ok_def cell_ended_def)
  ultimately show ?thesis
    unfolding moves_handle_def ns_def [symmetric]
    using assms steps(2)
    by (auto simp: on_handle_def handle_later_def handle_ok_def cell_ended_def
        intro!: exI [of _ "(handles w ! h)\<lparr>h_cell := Stopping\<rparr>"])
next
  case False
  then have "scope_cancel (h_node (handles w ! h)) Cancelled t (nodes w) = nodes w"
    by (simp add: scope_cancel_def raise_flag_def strike_def list_update_beyond)
  moreover have "\<not> pool_ok w"
    using False assms(1) by (auto simp: pool_ok_def handle_ok_def)
  ultimately show ?thesis
    using assms by (auto simp: moves_handle_def on_handle_def handle_later_def
        intro!: exI [of _ "(handles w ! h)\<lparr>h_cell := Stopping\<rparr>"])
qed

lemma halt_moves: "h < length (handles w) \<Longrightarrow> moves_handle h w (snd (claim_and_stop h now w))"
  by (auto simp: claim_and_stop_def intro: same_moves taken_moves stopped_moves split: cell.split option.split)

lemma born_later: "n < length (nodes w) \<Longrightarrow> pool_later w (worker_act (Born i t n now) w)"
  using scope_step_later [OF scope_step.child, of n "nodes w"]
  by (auto simp: pool_later_def handle_new_def nth_append split: prod.split)

lemma born_ok: "n < length (nodes w) \<Longrightarrow> pool_ok w \<Longrightarrow> pool_ok (worker_act (Born i t n now) w)"
  using scope_step_later [OF scope_step.child, of n "nodes w"] scope_step_ok [OF scope_step.child, of n "nodes w"]
  by (auto simp: pool_ok_def handle_new_def handle_ok_def scope_child_def scope_mint_def cell_ended_def
      nth_append less_Suc_eq)

lemma act_cases:
  assumes "deed_ok a w"
  obtains (moves) h where "moves_handle h w (worker_act a w)"
  | (scopes) "writes_scopes w (worker_act a w)"
  | (born) i t n now where "a = Born i t n now" "n < length (nodes w)"
proof (cases a)
  case (Struck n t)
  with assms scopes show ?thesis by (auto intro!: writes_scopesI scope_step.struck)
next
  case (Raised n c)
  with assms scopes show ?thesis by (auto intro!: writes_scopesI scope_step.raised)
next
  case (Minted n g)
  with assms scopes show ?thesis
    by (cases g) (auto intro!: writes_scopesI scope_step.child scope_step.shielded)
qed (use assms moves born in \<open>auto intro: write_moves drop_moves finish_moves claim_moves halt_moves\<close>)

lemma act_later: "deed_ok a w \<Longrightarrow> pool_later w (worker_act a w)"
  by (erule act_cases [of a w]) (auto intro: moves_handle_later writes_scopes_later born_later simp del: worker_act.simps)

lemma act_keeps_ok: "deed_ok a w \<Longrightarrow> pool_ok w \<Longrightarrow> pool_ok (worker_act a w)"
  by (erule act_cases [of a w]) (auto intro: moves_handle_ok writes_scopes_ok born_ok simp del: worker_act.simps)

lemma history_later: "legal acts w \<Longrightarrow> pool_later w (history_run acts w)"
  by (induction acts arbitrary: w) (auto intro: pool_later_trans act_later)

lemma history_ok: "legal acts w \<Longrightarrow> pool_ok w \<Longrightarrow> pool_ok (history_run acts w)"
  by (induction acts arbitrary: w) (auto intro: act_keeps_ok)

end
