(* ===== verification/Worker_Registry.thy ===== *)
theory Worker_Registry
  imports Worker_Claims
begin

text \<open>
  The directory of every worker a shell spawned (\<open>core/src/shell/runtime/state/workers.rs\<close>) over the
  list of handles that forgets the consumed (\<open>handle/compacting.rs\<close>).  One lock guards its ledgers;
  each operation is what happens under it, the handles sampled at that moment.
\<close>

section \<open>A list that forgets\<close>

record 'a compacting =
  c_items :: "'a list"
  c_sweep_at :: nat

definition min_sweep_at :: nat where
  "min_sweep_at = 32"

definition compacting_new :: "'a compacting" where
  "compacting_new = \<lparr>c_items = [], c_sweep_at = min_sweep_at\<rparr>"

text \<open>\<open>Compacting::prune\<close>, the entries' handles by \<open>key\<close>.\<close>

definition compacting_prune :: "('a \<Rightarrow> nat) \<Rightarrow> 'v pool \<Rightarrow> 'a compacting \<Rightarrow> 'a compacting" where
  "compacting_prune key w c =
     (let kept = filter (\<lambda>x. handle_sample (key x) w \<noteq> SConsumed) (c_items c)
      in \<lparr>c_items = kept, c_sweep_at = max (length kept * 2) min_sweep_at\<rparr>)"

text \<open>What \<open>prune_observing\<close> hands to its caller: each entry's one sample.\<close>

definition compacting_observed :: "('a \<Rightarrow> nat) \<Rightarrow> 'v pool \<Rightarrow> 'a compacting \<Rightarrow> (unit, unit) sampled list" where
  "compacting_observed key w c = map (\<lambda>x. handle_sample (key x) w) (c_items c)"

definition compacting_push :: "('a \<Rightarrow> nat) \<Rightarrow> 'v pool \<Rightarrow> 'a \<Rightarrow> 'a compacting \<Rightarrow> 'a compacting" where
  "compacting_push key w x c =
     (let c = (if c_sweep_at c \<le> length (c_items c) then compacting_prune key w c else c)
      in c\<lparr>c_items := c_items c @ [x]\<rparr>)"

section \<open>Forgetting\<close>

text \<open>
  What a list of handles promises whoever keeps one: a push adds its element, and nothing goes that is
  not gone.
\<close>

locale forgetful =
  fixes listed :: "'c \<Rightarrow> 'a list" and pushed :: "'p \<Rightarrow> 'a \<Rightarrow> 'c \<Rightarrow> 'c" and pruned :: "'p \<Rightarrow> 'c \<Rightarrow> 'c"
    and is_gone :: "'p \<Rightarrow> 'a \<Rightarrow> bool"
  assumes push_adds: "y \<in> set (listed (pushed w y c))"
    and push_only: "x \<in> set (listed (pushed w y c)) \<Longrightarrow> x = y \<or> x \<in> set (listed c)"
    and push_keeps: "x \<in> set (listed c) \<Longrightarrow> x \<in> set (listed (pushed w y c)) \<or> is_gone w x"
    and prune_only: "x \<in> set (listed (pruned w c)) \<Longrightarrow> x \<in> set (listed c)"
    and prune_keeps: "x \<in> set (listed c) \<Longrightarrow> x \<in> set (listed (pruned w c)) \<or> is_gone w x"
begin

lemma push_bounded: "set (listed (pushed w y c)) \<subseteq> insert y (set (listed c))"
  using push_only by blast

lemma prune_bounded: "set (listed (pruned w c)) \<subseteq> set (listed c)"
  using prune_only by blast

end

text \<open>The compacting list, whichever its entries.\<close>

interpretation roll: forgetful c_items "compacting_push key" "compacting_prune key"
  "\<lambda>w x. handle_sample (key x) w = SConsumed" for key :: "'a \<Rightarrow> nat"
  by unfold_locales
    (auto simp: compacting_push_def compacting_prune_def Let_def split: if_splits)

section \<open>Entries\<close>

datatype worker_owner = OwnSession | OwnWorker nat | OwnGather

datatype reap_cause = Retention

record reap_notice =
  rn_id :: nat
  rn_title :: bytes
  rn_cause :: reap_cause

record worker_entry =
  e_owner :: worker_owner
  e_settled :: "nat option"
  e_handle :: nat

text \<open>\<open>r_live\<close> counts the tickets of worker threads.\<close>

record registry =
  r_entries :: "worker_entry compacting"
  r_notices :: "reap_notice list"
  r_reserved :: nat
  r_epoch :: nat
  r_retention :: "nat option"
  r_live :: nat
  r_grace :: nat
  r_deadline :: "nat option"

text \<open>\<open>WORKER_DRAIN_GRACE\<close>, in nanoseconds.\<close>

definition worker_drain_grace :: nat where
  "worker_drain_grace = 5500 * 1000000"

definition registry_new :: registry where
  "registry_new =
     \<lparr>r_entries = compacting_new, r_notices = [], r_reserved = 0, r_epoch = 0, r_retention = None,
      r_live = 0, r_grace = worker_drain_grace, r_deadline = None\<rparr>"

text \<open>\<open>Roster::fresh\<close>: a registry of its own with this one's retention.\<close>

definition roster_fresh :: "registry \<Rightarrow> registry" where
  "roster_fresh g = registry_new\<lparr>r_retention := r_retention g\<rparr>"

section \<open>Admission\<close>

text \<open>\<open>reserve\<close>: with a cap, the live entries beside the seats held decide.\<close>

definition reserve :: "nat option \<Rightarrow> 'v pool \<Rightarrow> registry \<Rightarrow> (nat + unit) \<times> registry" where
  "reserve cap w g =
     (case cap of
        None \<Rightarrow> (Inr (), g\<lparr>r_reserved := r_reserved g + 1\<rparr>)
      | Some c \<Rightarrow>
          (let alive = length (filter is_live (compacting_observed e_handle w (r_entries g)));
               g = g\<lparr>r_entries := compacting_prune e_handle w (r_entries g)\<rparr>
           in if c \<le> alive + r_reserved g then (Inl c, g)
              else (Inr (), g\<lparr>r_reserved := r_reserved g + 1\<rparr>)))"

text \<open>A reservation dropped unconsumed; and one consumed by the entry it was held for.\<close>

definition release_seat :: "registry \<Rightarrow> registry" where
  "release_seat g = g\<lparr>r_reserved := r_reserved g - 1\<rparr>"

definition register :: "worker_entry \<Rightarrow> 'v pool \<Rightarrow> registry \<Rightarrow> registry" where
  "register e w g =
     (let g = release_seat g
      in if handle_sample (e_handle e) w = SConsumed then g
         else g\<lparr>r_entries := compacting_push e_handle w e (r_entries g)\<rparr>)"

section \<open>Reading\<close>

definition registry_retained :: "'v pool \<Rightarrow> registry \<Rightarrow> registry" where
  "registry_retained w g = g\<lparr>r_entries := compacting_prune e_handle w (r_entries g)\<rparr>"

definition registry_snapshot :: "'v pool \<Rightarrow> registry \<Rightarrow> worker_entry list \<times> registry" where
  "registry_snapshot w g =
     (let g = registry_retained w g
      in (sort_key (\<lambda>e. h_id (handles w ! e_handle e)) (c_items (r_entries g)), g))"

definition registry_count :: "'v pool \<Rightarrow> registry \<Rightarrow> nat \<times> registry" where
  "registry_count w g = (let g = registry_retained w g in (length (c_items (r_entries g)), g))"

definition take_reap_notices :: "registry \<Rightarrow> reap_notice list \<times> registry" where
  "take_reap_notices g = (r_notices g, g\<lparr>r_notices := []\<rparr>)"

section \<open>Retention\<close>

definition arm_retention :: "nat \<Rightarrow> registry \<Rightarrow> registry" where
  "arm_retention r g = g\<lparr>r_retention := Some r\<rparr>"

definition tick_epoch :: "registry \<Rightarrow> registry" where
  "tick_epoch g = g\<lparr>r_epoch := r_epoch g + 1\<rparr>"

definition retention_left :: "nat option \<Rightarrow> registry \<Rightarrow> nat option" where
  "retention_left settled g =
     (case r_retention g of
        None \<Rightarrow> None
      | Some r \<Rightarrow> Some (case settled of None \<Rightarrow> r | Some s \<Rightarrow> r - (r_epoch g - s)))"

text \<open>
  The ids of the ready and of the live entries, sampled once; an entry not ready, or whose owner will
  settle it, is held.
\<close>

definition ids_with :: "((unit, unit) sampled \<Rightarrow> bool) \<Rightarrow> 'v pool \<Rightarrow> worker_entry list \<Rightarrow> nat list" where
  "ids_with p w es =
     map (\<lambda>e. h_id (handles w ! e_handle e)) (filter (\<lambda>e. p (handle_sample (e_handle e) w)) es)"

definition entry_held :: "nat list \<Rightarrow> nat list \<Rightarrow> 'v pool \<Rightarrow> worker_entry \<Rightarrow> bool" where
  "entry_held ready alive w e \<longleftrightarrow>
     h_id (handles w ! e_handle e) \<notin> set ready \<or> e_owner e = OwnGather
     \<or> (case e_owner e of OwnWorker parent \<Rightarrow> parent \<in> set alive | _ \<Rightarrow> False)"

text \<open>One entry's verdict: whether it is reaped, and what it is if it stays.\<close>

definition verdict :: "nat \<Rightarrow> nat \<Rightarrow> bool \<Rightarrow> worker_entry \<Rightarrow> bool \<times> worker_entry" where
  "verdict epoch retention held e =
     (if held then (False, e)
      else case e_settled e of
        None \<Rightarrow> (False, e\<lparr>e_settled := Some epoch\<rparr>)
      | Some s \<Rightarrow> (retention \<le> epoch - s, e))"

definition sweep_retention :: "'v pool \<Rightarrow> registry \<Rightarrow> registry" where
  "sweep_retention w g =
     (let g = registry_retained w g
      in case r_retention g of
           None \<Rightarrow> g
         | Some retention \<Rightarrow>
             (let es = c_items (r_entries g);
                  ready = ids_with (\<lambda>s. s = SReady ()) w es;
                  alive = ids_with is_live w es;
                  judged = map (\<lambda>e. verdict (r_epoch g) retention (entry_held ready alive w e) e) es;
                  reaped = map snd (filter fst judged)
              in g\<lparr>r_entries := (r_entries g)\<lparr>c_items := map snd (filter (\<lambda>v. \<not> fst v) judged)\<rparr>,
                   r_notices := r_notices g @
                     map (\<lambda>e. let v = handles w ! e_handle e
                              in \<lparr>rn_id = h_id v, rn_title = h_title v, rn_cause = Retention\<rparr>) reaped\<rparr>))"

section \<open>The wipe\<close>

text \<open>What \<open>cancel_all\<close> does under the lock at time \<open>t\<close>: the entries taken, and the shared deadline.\<close>

definition roster_taken :: "nat \<Rightarrow> 'v pool \<Rightarrow> registry \<Rightarrow> (worker_entry list \<times> nat) \<times> registry" where
  "roster_taken t w g =
     (let g = registry_retained w g;
          d = (case r_deadline g of Some d \<Rightarrow> d | None \<Rightarrow> t + r_grace g)
      in ((c_items (r_entries g), d),
          g\<lparr>r_entries := compacting_new, r_notices := [], r_deadline := Some d\<rparr>))"

definition is_drained :: "registry \<Rightarrow> bool" where
  "is_drained g \<longleftrightarrow> r_live g = 0"

end
