(* ===== verification/Worker_Brood.thy ===== *)
theory Worker_Brood
  imports Worker_Registry Pure_Ops
begin

text \<open>
  Memberships and their owners, waits for what workers hand over, and births: the operations a thread
  performs on handles it shares with others.
\<close>

chapter \<open>Memberships and their owners\<close>

text \<open>
  Who answers for a birth (\<open>core/src/shell/runtime/handle/brood.rs\<close>): the membership of a
  \<open>gather\<close> or of a worker's body.  A thread sees the pool, the memberships and the registry through
  its accesses: between two of them others move, as the host's \<open>moves\<close> says, and the clock is read
  at each.
\<close>

section \<open>Membership\<close>

datatype brood_owner = OfWorkerBody nat | OfGather

record brood =
  b_owner :: brood_owner
  b_open :: bool
  b_children :: "nat compacting"

record nursery =
  pool_of :: "rvalue pool"
  broods :: "brood list"
  roster :: registry

definition on_brood :: "nat \<Rightarrow> (brood \<Rightarrow> brood) \<Rightarrow> nursery \<Rightarrow> nursery" where
  "on_brood b f n = n\<lparr>broods := (broods n)[b := f (broods n ! b)]\<rparr>"

definition owner_new :: "brood_owner \<Rightarrow> nursery \<Rightarrow> nat \<times> nursery" where
  "owner_new o' n =
     (length (broods n),
      n\<lparr>broods := broods n @ [\<lparr>b_owner = o', b_open = True, b_children = compacting_new\<rparr>]\<rparr>)"

text \<open>\<open>Brood::enrol\<close> under the membership's lock: whether the handle is accepted.\<close>

definition brood_enrol :: "nat \<Rightarrow> nat \<Rightarrow> nursery \<Rightarrow> bool \<times> nursery" where
  "brood_enrol b h n =
     (if b_open (broods n ! b)
      then (True, on_brood b (\<lambda>m. m\<lparr>b_children := compacting_push id (pool_of n) h (b_children m)\<rparr>) n)
      else (False, n))"

definition brood_close :: "nat \<Rightarrow> nursery \<Rightarrow> nursery" where
  "brood_close b n =
     on_brood b
       (\<lambda>m. if b_open m
            then m\<lparr>b_open := False, b_children := compacting_prune id (pool_of n) (b_children m)\<rparr> else m) n"

definition brood_children :: "nat \<Rightarrow> nursery \<Rightarrow> nat list" where
  "brood_children b n = c_items (b_children (broods n ! b))"

section \<open>A thread among others\<close>

record seen =
  turn :: nat
  nursery :: nursery

type_synonym waiter = "seen shell_state"

record others =
  moves :: "nat \<Rightarrow> nursery \<Rightarrow> nursery"
  clock :: "nat \<Rightarrow> instant"
  put :: "bool \<Rightarrow> bytes \<Rightarrow> waiter \<Rightarrow> unit flow \<times> waiter"
  protects :: "site \<Rightarrow> rvalue \<Rightarrow> waiter \<Rightarrow> rvalue flow \<times> waiter"

definition access :: "others \<Rightarrow> (instant \<Rightarrow> nursery \<Rightarrow> 'x \<times> nursery) \<Rightarrow> waiter \<Rightarrow> 'x \<times> waiter" where
  "access E f sh =
     (let i = turn (sh_world sh);
          (x, n) = f (clock E i) (moves E i (nursery (sh_world sh)))
      in (x, sh\<lparr>sh_world := \<lparr>turn = Suc i, nursery = n\<rparr>\<rparr>))"

definition access_pool :: "others \<Rightarrow> (instant \<Rightarrow> rvalue pool \<Rightarrow> 'x \<times> rvalue pool) \<Rightarrow> waiter \<Rightarrow> 'x \<times> waiter" where
  "access_pool E f = access E (\<lambda>t n. let (x, w) = f t (pool_of n) in (x, n\<lparr>pool_of := w\<rparr>))"

definition now_is :: "others \<Rightarrow> waiter \<Rightarrow> nat \<times> waiter" where
  "now_is E = access E (\<lambda>t n. (mono_at t, n))"

definition halt_handle :: "others \<Rightarrow> nat \<Rightarrow> waiter \<Rightarrow> bool \<times> waiter" where
  "halt_handle E h = access_pool E (\<lambda>t. claim_and_stop h t)"

text \<open>\<open>Brood::enrol\<close>: one refused is stopped once the lock is released.\<close>

definition enrol :: "others \<Rightarrow> nat \<Rightarrow> nat \<Rightarrow> waiter \<Rightarrow> bool \<times> waiter" where
  "enrol E b h sh =
     (case access E (\<lambda>_. brood_enrol b h) sh of
        (True, sh) \<Rightarrow> (True, sh)
      | (False, sh) \<Rightarrow> (False, snd (halt_handle E h sh)))"

fun halt_each :: "others \<Rightarrow> nat list \<Rightarrow> waiter \<Rightarrow> waiter" where
  "halt_each E [] sh = sh"
| "halt_each E (h # hs) sh = halt_each E hs (snd (halt_handle E h sh))"

text \<open>\<open>iter().any\<close> stops at the first that has not ended.\<close>

fun any_live :: "others \<Rightarrow> nat list \<Rightarrow> waiter \<Rightarrow> bool \<times> waiter" where
  "any_live E [] sh = (False, sh)"
| "any_live E (h # hs) sh =
     (case access_pool E (\<lambda>_ w. (handle_sample h w, w)) sh of
        (s, sh) \<Rightarrow> if has_ended s then any_live E hs sh else (True, sh))"

text \<open>\<open>wait_ended\<close>: rounds until every handle has ended or the deadline is past, in \<open>k\<close> rounds at most.\<close>

fun wait_ended_until :: "nat \<Rightarrow> others \<Rightarrow> nat list \<Rightarrow> nat \<Rightarrow> waiter \<Rightarrow> waiter option" where
  "wait_ended_until 0 E hs d sh = None"
| "wait_ended_until (Suc k) E hs d sh =
     (case any_live E hs sh of
        (False, sh) \<Rightarrow> Some sh
      | (True, sh) \<Rightarrow>
          (case now_is E sh of
             (t, sh) \<Rightarrow> if t < d then wait_ended_until k E hs d sh else Some sh))"

definition wait_ended :: "nat \<Rightarrow> others \<Rightarrow> nat list \<Rightarrow> nat \<Rightarrow> waiter \<Rightarrow> waiter option" where
  "wait_ended k E hs grace sh =
     (case now_is E sh of (t, sh) \<Rightarrow> wait_ended_until k E hs (t + grace) sh)"

section \<open>The owner\<close>

definition owner_close :: "others \<Rightarrow> nat \<Rightarrow> waiter \<Rightarrow> waiter" where
  "owner_close E b sh = snd (access E (\<lambda>_ n. ((), brood_close b n)) sh)"

definition owner_children :: "others \<Rightarrow> nat \<Rightarrow> waiter \<Rightarrow> nat list \<times> waiter" where
  "owner_children E b = access E (\<lambda>_ n. (brood_children b n, n))"

definition owner_stop :: "others \<Rightarrow> nat \<Rightarrow> waiter \<Rightarrow> waiter" where
  "owner_stop E b sh =
     (case owner_children E b (owner_close E b sh) of (hs, sh) \<Rightarrow> halt_each E hs sh)"

definition owner_drain :: "nat \<Rightarrow> others \<Rightarrow> nat \<Rightarrow> nat \<Rightarrow> waiter \<Rightarrow> waiter option" where
  "owner_drain k E b grace sh = (case owner_children E b sh of (hs, sh) \<Rightarrow> wait_ended k E hs grace sh)"

definition owner_end :: "nat \<Rightarrow> others \<Rightarrow> nat \<Rightarrow> nat \<Rightarrow> waiter \<Rightarrow> waiter option" where
  "owner_end k E b grace sh = owner_drain k E b grace (owner_stop E b sh)"

text \<open>\<open>stop_and_drain\<close>.\<close>

definition stop_and_drain :: "nat \<Rightarrow> others \<Rightarrow> nat list \<Rightarrow> nat \<Rightarrow> waiter \<Rightarrow> waiter option" where
  "stop_and_drain k E hs grace sh = wait_ended k E hs grace (halt_each E hs sh)"

chapter \<open>Waits\<close>

text \<open>
  How a worker's handle is awaited, raced and cancelled (\<open>core/src/shell/builtins/concurrency/eliminate.rs\<close>)
  and how a \<open>gather\<close> ends (\<open>birth.rs\<close>).  A wait is given the number of rounds it may take; \<open>None\<close> is a
  wait that has not ended in them.
\<close>

section \<open>Waiting\<close>

text \<open>\<open>?\<close> on a wait: what follows its value, or its break or its unwinding.\<close>

definition onward ::
  "('a flow \<times> 's) option \<Rightarrow> ('a \<Rightarrow> 's \<Rightarrow> ('b flow \<times> 's) option) \<Rightarrow> ('b flow \<times> 's) option" where
  "onward m k =
     (case m of
        None \<Rightarrow> None
      | Some (Done x, s) \<Rightarrow> k x s
      | Some (Broke b, s) \<Rightarrow> Some (Broke b, s)
      | Some (Panicked, s) \<Rightarrow> Some (Panicked, s))"

text \<open>\<open>Shell::poll\<close>: what is in force on the current scope, as the break it is.\<close>

definition shell_poll :: "others \<Rightarrow> waiter \<Rightarrow> unit flow \<times> waiter" where
  "shell_poll E sh =
     access_pool E
       (\<lambda>t w. (case scope_in_force (mono_at t) (nodes w) (sh_scope sh) of
                 None \<Rightarrow> Panicked
               | Some None \<Rightarrow> Done ()
               | Some (Some c) \<Rightarrow> Broke (stop_of c), w)) sh"

type_synonym 'r reading = "nat \<Rightarrow> rvalue pool \<Rightarrow> ('r, unit) sampled \<times> rvalue pool"

definition sampling :: "unit reading" where
  "sampling h w = (handle_sample h w, w)"

text \<open>
  One sweep in list order, from the \<open>i\<close>th: the first ready, if any, else whether one was running.
\<close>

fun sweep :: "others \<Rightarrow> 'r reading \<Rightarrow> nat \<Rightarrow> nat list \<Rightarrow> bool \<Rightarrow> waiter \<Rightarrow> ((nat \<times> 'r) option \<times> bool) \<times> waiter" where
  "sweep E rd i [] running sh = ((None, running), sh)"
| "sweep E rd i (h # hs) running sh =
     (case access_pool E (\<lambda>_. rd h) sh of
        (SReady v, sh) \<Rightarrow> ((Some (i, v), running), sh)
      | (SRunning _, sh) \<Rightarrow> sweep E rd (Suc i) hs True sh
      | (_, sh) \<Rightarrow> sweep E rd (Suc i) hs running sh)"

fun first_ready :: "nat \<Rightarrow> others \<Rightarrow> 'r reading \<Rightarrow> nat list \<Rightarrow> waiter \<Rightarrow> ((nat \<times> 'r) option flow \<times> waiter) option" where
  "first_ready 0 E rd hs sh = None"
| "first_ready (Suc k) E rd hs sh =
     onward (Some (shell_poll E sh)) (\<lambda>_ sh.
       case sweep E rd 0 hs False sh of
         ((Some r, _), sh) \<Rightarrow> Some (Done (Some r), sh)
       | ((None, running), sh) \<Rightarrow> if running then first_ready k E rd hs sh else Some (Done None, sh))"

definition claim_first ::
  "nat \<Rightarrow> others \<Rightarrow> nat list \<Rightarrow> waiter \<Rightarrow> ((nat \<times> rvalue completed) option flow \<times> waiter) option" where
  "claim_first k E hs sh = first_ready k E claim_ready hs sh"

section \<open>Concluding\<close>

definition replay_bytes :: "others \<Rightarrow> bytes \<Rightarrow> bytes \<Rightarrow> waiter \<Rightarrow> unit flow \<times> waiter" where
  "replay_bytes E out eb sh = after (put E False out sh) (\<lambda>_. put E True eb)"

text \<open>\<open>HandleInner::protect_value\<close>, over the contracts of a handle's payload.\<close>

fun protect_value :: "others \<Rightarrow> site list \<Rightarrow> rvalue \<Rightarrow> waiter \<Rightarrow> rvalue flow \<times> waiter" where
  "protect_value E [] v sh = (Done v, sh)"
| "protect_value E (s # ss) v sh = after (protects E s v sh) (\<lambda>v. protect_value E ss v)"

definition exact :: "others \<Rightarrow> site list \<Rightarrow> rvalue completed \<Rightarrow> waiter \<Rightarrow> rvalue flow \<times> waiter" where
  "exact E ss c sh =
     after (replay_bytes E (c_stdout c) (c_stderr c) sh) (\<lambda>_ sh.
       after (into_settled (c_end c), sh) (\<lambda>v. protect_value E ss v))"

definition already_claimed :: "bytes \<Rightarrow> brk" where
  "already_claimed verb = sig (OfWorker (AlreadyClaimed verb))"

text \<open>A handle with the contracts its value carries.\<close>

type_synonym held = "nat \<times> site list"

definition join_handle :: "nat \<Rightarrow> others \<Rightarrow> held \<Rightarrow> waiter \<Rightarrow> (rvalue option flow \<times> waiter) option" where
  "join_handle k E h sh =
     onward (claim_first k E [fst h] sh) (\<lambda>r sh.
       case r of
         None \<Rightarrow> Some (Done None, sh)
       | Some (_, c) \<Rightarrow> Some (after (exact E (snd h) c sh) (\<lambda>v. Pair (Done (Some v)))))"

definition await_handle :: "nat \<Rightarrow> others \<Rightarrow> held \<Rightarrow> bytes \<Rightarrow> waiter \<Rightarrow> (rvalue flow \<times> waiter) option" where
  "await_handle k E h verb sh =
     onward (join_handle k E h sh) (\<lambda>r sh.
       case r of Some v \<Rightarrow> Some (Done v, sh) | None \<Rightarrow> Some (Broke (already_claimed verb), sh))"

section \<open>The builtins\<close>

definition expect_handle :: "bytes \<Rightarrow> rvalue \<Rightarrow> error + held" where
  "expect_handle ctx v =
     (case v of
        HandleVal h ss \<Rightarrow> Inr (h, ss)
      | _ \<Rightarrow> Inl (err (OfValue (Expected ctx ''Handle'' (type_name v)))))"

fun expect_handles :: "bytes \<Rightarrow> rvalue list \<Rightarrow> error + held list" where
  "expect_handles verb [] = Inr []"
| "expect_handles verb (v # vs) =
     (case expect_handle verb v of
        Inl e \<Rightarrow> Inl e
      | Inr h \<Rightarrow> map_sum id (\<lambda>hs. h # hs) (expect_handles verb vs))"

definition handles_of :: "bytes \<Rightarrow> rvalue \<Rightarrow> brk + held list" where
  "handles_of verb v =
     (case v of
        ListVal l \<Rightarrow>
          (case expect_handles verb (list_items l) of
             Inl e \<Rightarrow> Inl (ErrorB e)
           | Inr [] \<Rightarrow> Inl (sig (OfWorker (NoHandles verb)))
           | Inr hs \<Rightarrow> Inr hs)
      | _ \<Rightarrow> Inl (sig (OfValue (Expected verb ''List'' (type_name v)))))"

definition builtin_cancel :: "others \<Rightarrow> rvalue \<Rightarrow> waiter \<Rightarrow> rvalue flow \<times> waiter" where
  "builtin_cancel E v sh =
     ensure (raised (expect_handle ''cancel'' v)) sh (\<lambda>h. (Done UnitVal, snd (halt_handle E (fst h) sh)))"

definition builtin_is_done :: "others \<Rightarrow> rvalue \<Rightarrow> waiter \<Rightarrow> rvalue flow \<times> waiter" where
  "builtin_is_done E v sh =
     ensure (raised (expect_handle ''is-done'' v)) sh (\<lambda>h.
       case access_pool E (\<lambda>_ w. (handle_sample (fst h) w, w)) sh of
         (s, sh) \<Rightarrow> (Done (BoolVal (has_ended s)), sh))"

definition builtin_await :: "nat \<Rightarrow> others \<Rightarrow> rvalue \<Rightarrow> waiter \<Rightarrow> (rvalue flow \<times> waiter) option" where
  "builtin_await k E v sh =
     (case expect_handle ''await'' v of
        Inl e \<Rightarrow> Some (Broke (ErrorB e), sh)
      | Inr h \<Rightarrow> await_handle k E h ''await'' sh)"

text \<open>What \<open>poll\<close> reports, before it is encoded; the elapsed time in nanoseconds.\<close>

datatype poll_report =
  PollRunning bytes bytes nat
| PollStopping nat
| PollReady bytes bytes nat "error + rvalue"
| PollConsumed nat

definition builtin_poll :: "others \<Rightarrow> rvalue \<Rightarrow> waiter \<Rightarrow> poll_report flow \<times> waiter" where
  "builtin_poll E v sh =
     ensure (raised (expect_handle ''poll'' v)) sh (\<lambda>h.
       case access_pool E (\<lambda>t w. (snapshot_io t (fst h) w, w)) sh of
         ((s, elapsed, _), sh) \<Rightarrow>
           (case s of
              SRunning (out, eb) \<Rightarrow> (Done (PollRunning out eb elapsed), sh)
            | SStopping \<Rightarrow> (Done (PollStopping elapsed), sh)
            | SConsumed \<Rightarrow> (Done (PollConsumed elapsed), sh)
            | SReady c \<Rightarrow>
                (case ending_outcome (c_end c) of
                   Inl (Inr x) \<Rightarrow>
                     after (protect_value E (snd h) x sh) (\<lambda>x.
                       Pair (Done (PollReady (c_stdout c) (c_stderr c) elapsed (Inr x))))
                 | Inl (Inl e) \<Rightarrow> (Done (PollReady (c_stdout c) (c_stderr c) elapsed (Inl e)), sh)
                 | Inr e \<Rightarrow> after (into_settled e, sh) (\<lambda>_. Pair Panicked))))"

text \<open>
  \<open>race\<close>: whatever ends the wait, the handles are stopped and drained; a panic of the wait unwinds
  past that.
\<close>

definition builtin_race ::
  "nat \<Rightarrow> others \<Rightarrow> nat \<Rightarrow> rvalue \<Rightarrow> waiter \<Rightarrow> (rvalue flow \<times> waiter) option" where
  "builtin_race k E grace vs sh =
     (case handles_of ''race'' vs of
        Inl b \<Rightarrow> Some (Broke b, sh)
      | Inr hs \<Rightarrow>
          (case claim_first k E (map fst hs) sh of
             None \<Rightarrow> None
           | Some (Panicked, sh) \<Rightarrow> Some (Panicked, sh)
           | Some (first, sh) \<Rightarrow>
               (case stop_and_drain k E (map fst hs) grace sh of
                  None \<Rightarrow> None
                | Some sh \<Rightarrow>
                    onward (Some (first, sh)) (\<lambda>r sh.
                      case r of
                        None \<Rightarrow> Some (Broke (already_claimed ''race''), sh)
                      | Some (i, c) \<Rightarrow> Some (exact E (snd (hs ! i)) c sh)))))"

definition builtin_first_settled ::
  "nat \<Rightarrow> others \<Rightarrow> rvalue \<Rightarrow> waiter \<Rightarrow> (rvalue flow \<times> waiter) option" where
  "builtin_first_settled k E vs sh =
     (case handles_of ''first-settled'' vs of
        Inl b \<Rightarrow> Some (Broke b, sh)
      | Inr hs \<Rightarrow>
          onward (first_ready k E sampling (map fst hs) sh) (\<lambda>r sh.
            case r of
              None \<Rightarrow> Some (Broke (already_claimed ''first-settled''), sh)
            | Some (i, _) \<Rightarrow>
                Some (if i < 2 ^ 63 then Done (IntVal (word_of_nat i)) else Panicked, sh)))"

section \<open>The exit of a brood\<close>

fun join_each :: "nat \<Rightarrow> others \<Rightarrow> nat list \<Rightarrow> waiter \<Rightarrow> (unit flow \<times> waiter) option" where
  "join_each k E [] sh = Some (Done (), sh)"
| "join_each k E (h # hs) sh = onward (join_handle k E (h, []) sh) (\<lambda>_. join_each k E hs)"

text \<open>\<open>exit_brood\<close>.\<close>

definition exit_brood ::
  "nat \<Rightarrow> others \<Rightarrow> nat \<Rightarrow> nat \<Rightarrow> brk + rvalue \<Rightarrow> waiter \<Rightarrow> (rvalue flow \<times> waiter) option" where
  "exit_brood k E b grace body sh =
     (let sh = owner_close E b sh;
          r = (case body of
                 Inl e \<Rightarrow> Some (Broke e, sh)
               | Inr v \<Rightarrow>
                   (case owner_children E b sh of
                      (hs, sh) \<Rightarrow> onward (join_each k E hs sh) (\<lambda>_ sh. Some (Done v, sh))))
      in case r of
           None \<Rightarrow> None
         | Some (Panicked, sh) \<Rightarrow> Some (Panicked, sh)
         | Some (Broke e, sh) \<Rightarrow> map_option (Pair (Broke e)) (owner_end k E b grace sh)
         | Some (Done v, sh) \<Rightarrow> map_option (Pair (Done v)) (owner_drain k E b grace sh))"

text \<open>The owner is dropped as its scope is left, by a return or by an unwinding: \<open>ScopeOwner::drop\<close>.\<close>

definition leave_brood ::
  "nat \<Rightarrow> others \<Rightarrow> nat \<Rightarrow> nat \<Rightarrow> brk + rvalue \<Rightarrow> waiter \<Rightarrow> (rvalue flow \<times> waiter) option" where
  "leave_brood k E b grace body sh = map_option (\<lambda>(r, sh). (r, owner_stop E b sh)) (exit_brood k E b grace body sh)"

chapter \<open>Births\<close>

text \<open>
  A worker's birth and its base (\<open>core/src/shell/builtins/concurrency/birth.rs\<close>), and the wipe of a
  shell's roster (\<open>state/workers.rs\<close>).  The body is an argument, as are the id minted, whether the
  thread started and the text a panic left.  Where a worker's bytes and surfaces go beyond its
  buffers (a \<open>watch\<close>, a deferred surface and its receipt), the note to observers and the provenance
  an ending is given are not modelled.
\<close>

section \<open>The base\<close>

text \<open>
  The return clause: the exit of the brood, the closing poll of the worker's own node, the switch of
  its own stop; then its owner is dropped, as it is by a panic on the way.
\<close>

definition worker_settle ::
  "nat \<Rightarrow> others \<Rightarrow> nat \<Rightarrow> nat \<Rightarrow> nat \<Rightarrow> bytes \<Rightarrow> nat \<Rightarrow> brk + rvalue \<Rightarrow> waiter \<Rightarrow> (rvalue worker_end \<times> waiter) option" where
  "worker_settle k E grace home session panic b body sh =
     (case exit_brood k E b grace body sh of
        None \<Rightarrow> None
      | Some (Panicked, sh) \<Rightarrow> Some (EndPanic panic, owner_stop E b sh)
      | Some (r, sh) \<Rightarrow>
          (case access_pool E (\<lambda>t w. (scope_in_force (mono_at t) (nodes w) home, w)) sh of
             (None, sh) \<Rightarrow> Some (EndPanic panic, owner_stop E b sh)
           | (Some node, sh) \<Rightarrow>
               (let settled = (case r of Done v \<Rightarrow> Inr v | Broke e \<Rightarrow> Inl e)
                in Some (end_settled (convert_own_stop session (final_poll settled node)), owner_stop E b sh))))"

text \<open>The closure under \<open>catch_unwind\<close>: a fresh owner, the body, the return clause.\<close>

definition worker_base ::
  "nat \<Rightarrow> others \<Rightarrow> nat \<Rightarrow> nat \<Rightarrow> nat \<Rightarrow> bytes \<Rightarrow> nat \<Rightarrow> (nat \<Rightarrow> waiter \<Rightarrow> rvalue flow \<times> waiter) \<Rightarrow> waiter \<Rightarrow>
     (rvalue worker_end \<times> waiter) option" where
  "worker_base k E grace home session panic i body sh =
     (case access E (\<lambda>_. owner_new (OfWorkerBody i)) sh of
        (b, sh) \<Rightarrow>
          (case body b sh of
             (Panicked, sh) \<Rightarrow> Some (EndPanic panic, owner_stop E b sh)
           | (Broke e, sh) \<Rightarrow> worker_settle k E grace home session panic b (Inl e) sh
           | (Done v, sh) \<Rightarrow> worker_settle k E grace home session panic b (Inr v) sh))"

section \<open>The birth\<close>

definition access_roster :: "others \<Rightarrow> (instant \<Rightarrow> rvalue pool \<Rightarrow> registry \<Rightarrow> 'x \<times> registry) \<Rightarrow> waiter \<Rightarrow> 'x \<times> waiter" where
  "access_roster E f =
     access E (\<lambda>t n. let (x, g) = f t (pool_of n) (roster n) in (x, n\<lparr>roster := g\<rparr>))"

definition owner_of_brood :: "brood_owner \<Rightarrow> worker_owner" where
  "owner_of_brood o' = (case o' of OfWorkerBody i \<Rightarrow> OwnWorker i | OfGather \<Rightarrow> OwnGather)"

text \<open>A cradle: where births hang, and the brood they are enrolled in.\<close>

record cradle =
  cr_under :: nat
  cr_brood :: "nat option"

text \<open>The node under the cradle's, and the handle over it.\<close>

definition birth_handle :: "others \<Rightarrow> cradle \<Rightarrow> bytes \<Rightarrow> nat \<Rightarrow> waiter \<Rightarrow> nat \<times> waiter" where
  "birth_handle E cr said i sh =
     (case access_pool E
             (\<lambda>_ w. let (m, ns) = scope_child (cr_under cr) (nodes w) in (m, w\<lparr>nodes := ns\<rparr>)) sh of
        (m, sh) \<Rightarrow> access_pool E (\<lambda>t. handle_new i said m t) sh)"

definition cradle_owner :: "cradle \<Rightarrow> waiter \<Rightarrow> worker_owner" where
  "cradle_owner cr sh =
     (case cr_brood cr of
        None \<Rightarrow> OwnSession
      | Some b \<Rightarrow> owner_of_brood (b_owner (broods (nursery (sh_world sh)) ! b)))"

text \<open>A thread that does not start drops the permit with its closure and gives the seat back.\<close>

definition birth_refused :: "others \<Rightarrow> nat \<Rightarrow> waiter \<Rightarrow> waiter" where
  "birth_refused E h sh =
     snd (access_roster E (\<lambda>_ _ g. ((), release_seat g))
           (snd (access_pool E (\<lambda>t w. ((), permit_drop h t w)) sh)))"

definition file_entry :: "others \<Rightarrow> cradle \<Rightarrow> nat \<Rightarrow> waiter \<Rightarrow> waiter" where
  "file_entry E cr h sh =
     (let e = \<lparr>e_owner = cradle_owner cr sh, e_settled = None, e_handle = h\<rparr>
      in snd (access_roster E (\<lambda>_ w g. ((), register e w g)) sh))"

text \<open>\<open>spawn_child\<close>: the seat, the node and the handle, the thread, the entry, the brood.\<close>

definition spawn_child ::
  "others \<Rightarrow> nat option \<Rightarrow> cradle \<Rightarrow> bytes \<Rightarrow> bytes \<Rightarrow> nat \<Rightarrow> bool \<Rightarrow> waiter \<Rightarrow> nat flow \<times> waiter" where
  "spawn_child E cap cr verb said i started sh =
     (case access_roster E (\<lambda>_. reserve cap) sh of
        (Inl c, sh) \<Rightarrow> (Broke (sig (OfWorker (CapReached verb c))), sh)
      | (Inr _, sh) \<Rightarrow>
          (case birth_handle E cr said i sh of
             (h, sh) \<Rightarrow>
               if \<not> started then (Broke (sig (OfWorker ThreadRefused)), birth_refused E h sh)
               else
                 (let sh = file_entry E cr h sh
                  in case cr_brood cr of
                       None \<Rightarrow> (Done h, sh)
                     | Some b \<Rightarrow>
                         (case enrol E b h sh of
                            (True, sh) \<Rightarrow> (Done h, sh)
                          | (False, sh) \<Rightarrow> (Broke (sig (OfWorker (BroodEnded verb))), sh)))))"

text \<open>\<open>spawn_form\<close>: a host that requires a title refuses a birth without one before it looks further.\<close>

definition spawn_form ::
  "others \<Rightarrow> bool \<Rightarrow> nat option \<Rightarrow> cradle \<Rightarrow> bytes option \<Rightarrow> bytes \<Rightarrow> rvalue \<Rightarrow> nat \<Rightarrow> bool \<Rightarrow> waiter \<Rightarrow>
     rvalue flow \<times> waiter" where
  "spawn_form E required cap cr given untitled body i started sh =
     (if given = None \<and> required then (Broke (sig (OfWorker TitleRequired)), sh)
      else case body of
        ThunkVal c \<rho> \<Rightarrow>
          after (spawn_child E cap cr ''spawn'' (case given of Some t \<Rightarrow> t | None \<Rightarrow> untitled) i started sh)
            (\<lambda>h. Pair (Done (HandleVal h [])))
      | _ \<Rightarrow> (Broke (sig (OfValue (Expected ''spawn'' ''Block'' (type_name body)))), sh))"

section \<open>The wipe\<close>

text \<open>\<open>WorkerRegistry::drain\<close> and \<open>cancel_all\<close>, in \<open>k\<close> rounds at most.\<close>

fun roster_drain :: "nat \<Rightarrow> others \<Rightarrow> nat \<Rightarrow> waiter \<Rightarrow> waiter option" where
  "roster_drain 0 E d sh = None"
| "roster_drain (Suc k) E d sh =
     (case access_roster E (\<lambda>_ _ g. (is_drained g, g)) sh of
        (True, sh) \<Rightarrow> Some sh
      | (False, sh) \<Rightarrow>
          (case now_is E sh of (t, sh) \<Rightarrow> if t < d then roster_drain k E d sh else Some sh))"

definition cancel_all :: "nat \<Rightarrow> others \<Rightarrow> waiter \<Rightarrow> (nat \<times> waiter) option" where
  "cancel_all k E sh =
     (case access_roster E (\<lambda>t. roster_taken (mono_at t)) sh of
        ((es, d), sh) \<Rightarrow>
          map_option (Pair (length es)) (roster_drain k E d (halt_each E (map e_handle es) sh)))"

end
