(* ===== verification/Worker_Halts.thy ===== *)
theory Worker_Halts
  imports Worker_Brood
begin

text \<open>
  What a thread relies on of the others and gives them, and that a stop stays.
\<close>

chapter \<open>What threads rely on\<close>

text \<open>
  What a thread may rely on of the others, and gives them: a well-formed pool stays so, cells only go
  forward, a membership only closes, and a child it forgets is consumed.  Every operation of an owner
  and of a waiter gives as much, whatever happens between its accesses.
\<close>

section \<open>Drifting\<close>

definition nursery_ok :: "nursery \<Rightarrow> bool" where
  "nursery_ok n \<longleftrightarrow>
     pool_ok (pool_of n) \<and>
     (\<forall>m\<in>set (broods n). \<forall>h\<in>set (c_items (b_children m)). h < length (handles (pool_of n)))"

definition forgotten :: "nat \<Rightarrow> nursery \<Rightarrow> bool" where
  "forgotten h n \<longleftrightarrow> handle_sample h (pool_of n) = SConsumed"

definition brood_later :: "nat \<Rightarrow> nursery \<Rightarrow> nursery \<Rightarrow> bool" where
  "brood_later b n n' \<longleftrightarrow>
     (b_open (broods n' ! b) \<longrightarrow> b_open (broods n ! b)) \<and>
     (\<forall>h\<in>set (brood_children b n). h \<in> set (brood_children b n') \<or> forgotten h n') \<and>
     (\<not> b_open (broods n ! b) \<longrightarrow> brood_children b n' = brood_children b n)"

definition nursery_later :: "nursery \<Rightarrow> nursery \<Rightarrow> bool" where
  "nursery_later n n' \<longleftrightarrow>
     pool_later (pool_of n) (pool_of n') \<and> length (broods n) \<le> length (broods n')
     \<and> (\<forall>b<length (broods n). brood_later b n n')"

definition drifts :: "nursery \<Rightarrow> nursery \<Rightarrow> bool" where
  "drifts n n' \<longleftrightarrow> (nursery_ok n \<longrightarrow> nursery_ok n' \<and> nursery_later n n')"

lemma consumed_iff: "cell_sample c = SConsumed \<longleftrightarrow> (\<exists>t. c = Ended t None)"
  by (auto simp: cell_sample_def split: cell.splits option.splits)

lemma forgotten_later:
  "pool_later (pool_of n) (pool_of n') \<Longrightarrow> h < length (handles (pool_of n)) \<Longrightarrow> forgotten h n \<Longrightarrow>
     forgotten h n'"
  by (auto simp: forgotten_def handle_sample_def consumed_iff pool_later_def handle_later_def)

lemma child_has: "nursery_ok n \<Longrightarrow> b < length (broods n) \<Longrightarrow> h \<in> set (brood_children b n) \<Longrightarrow>
    h < length (handles (pool_of n))"
  by (auto simp: nursery_ok_def brood_children_def)

lemma nursery_later_trans:
  assumes "nursery_ok l" "nursery_later l m" "nursery_later m n"
  shows "nursery_later l n"
proof -
  from assms(2,3) have p: "pool_later (pool_of l) (pool_of n)" "pool_later (pool_of m) (pool_of n)"
    and b: "length (broods l) \<le> length (broods m)" "length (broods m) \<le> length (broods n)"
    by (auto simp: nursery_later_def intro: pool_later_trans)
  have "brood_later b l n" if "b < length (broods l)" for b
  proof -
    have lm: "brood_later b l m" and mn: "brood_later b m n"
      using that assms(2,3) b(1) by (auto simp: nursery_later_def)
    have "h \<in> set (brood_children b n) \<or> forgotten h n" if h: "h \<in> set (brood_children b l)" for h
    proof -
      have "h < length (handles (pool_of m))"
        using child_has [OF assms(1) \<open>b < length (broods l)\<close> h] assms(2)
        by (auto simp: nursery_later_def pool_later_def)
      then show ?thesis
        using lm mn h forgotten_later [OF p(2)] by (auto simp: brood_later_def)
    qed
    then show ?thesis using lm mn by (auto simp: brood_later_def)
  qed
  with p b show ?thesis by (auto simp: nursery_later_def)
qed

lemma nursery_later_refl [simp]: "nursery_later n n"
  by (simp add: nursery_later_def brood_later_def)

lemma drifts_refl [simp]: "drifts n n"
  by (simp add: drifts_def)

lemma drifts_trans: "drifts l m \<Longrightarrow> drifts m n \<Longrightarrow> drifts l n"
  unfolding drifts_def by (blast intro: nursery_later_trans)

text \<open>What an act on the pool, a reading of it and a turn of the registry give.\<close>

lemma brood_later_pool [simp]:
  "brood_later b n (n\<lparr>pool_of := w\<rparr>)" "brood_later b n (n\<lparr>roster := g\<rparr>)"
  by (simp_all add: brood_later_def brood_children_def)

lemma drifts_pool:
  "(pool_ok (pool_of n) \<Longrightarrow> pool_ok w \<and> pool_later (pool_of n) w) \<Longrightarrow> drifts n (n\<lparr>pool_of := w\<rparr>)"
  unfolding drifts_def nursery_later_def nursery_ok_def
  by (auto simp: pool_later_def dest!: bspec intro: less_le_trans)

lemma drifts_act: "deed_ok a (pool_of n) \<Longrightarrow> drifts n (n\<lparr>pool_of := worker_act a (pool_of n)\<rparr>)"
  by (rule drifts_pool) (simp add: act_keeps_ok act_later)

lemma drifts_moved:
  "moves_handle h (pool_of n) w \<Longrightarrow> drifts n (n\<lparr>pool_of := w\<rparr>)"
  by (rule drifts_pool) (simp add: moves_handle_ok moves_handle_later)

lemma beyond_same: "\<not> h < length (handles w) \<Longrightarrow> on_handle h f w = w"
  by (simp add: on_handle_def list_update_beyond)

lemma drifts_claim: "drifts n (n\<lparr>pool_of := snd (claim_ready h (pool_of n))\<rparr>)"
proof (cases "h < length (handles (pool_of n))")
  case False
  then have "snd (claim_ready h (pool_of n)) = pool_of n"
    by (auto simp: claim_ready_def beyond_same split: cell.split option.split)
  then show ?thesis by simp
qed (auto intro: drifts_moved claim_moves)

lemma drifts_roster: "drifts n (n\<lparr>roster := g\<rparr>)"
  by (simp add: drifts_def nursery_later_def nursery_ok_def)

section \<open>A membership's operations\<close>

lemma drifts_on_brood:
  assumes "b_open (f (broods n ! b)) \<Longrightarrow> b_open (broods n ! b)"
    and "\<And>h. h \<in> set (c_items (b_children (broods n ! b))) \<Longrightarrow>
           h \<in> set (c_items (b_children (f (broods n ! b)))) \<or> forgotten h n"
    and "\<not> b_open (broods n ! b) \<Longrightarrow> c_items (b_children (f (broods n ! b))) = c_items (b_children (broods n ! b))"
    and "\<And>h. h \<in> set (c_items (b_children (f (broods n ! b)))) \<Longrightarrow>
           h \<in> set (c_items (b_children (broods n ! b))) \<or> h < length (handles (pool_of n))"
  shows "drifts n (on_brood b f n)"
proof (cases "b < length (broods n)")
  case True
  then have "h < length (handles (pool_of n))"
    if "nursery_ok n" "h \<in> set (c_items (b_children (f (broods n ! b))))" for h
    using assms(4) [OF that(2)] child_has [OF that(1)] by (auto simp: brood_children_def)
  with True show ?thesis
    using assms(1-3)
    by (auto simp: drifts_def nursery_ok_def nursery_later_def brood_later_def brood_children_def
        forgotten_def on_brood_def nth_list_update dest!: set_update_subset_insert [THEN subsetD])
qed (simp add: on_brood_def list_update_beyond)

lemma drifts_close: "drifts n (brood_close b n)"
  unfolding brood_close_def
  by (rule drifts_on_brood)
    (auto simp: forgotten_def dest: roll.prune_keeps [of _ _ id] roll.prune_bounded [THEN subsetD] split: if_splits)

lemma drifts_enrol: "h < length (handles (pool_of n)) \<Longrightarrow> drifts n (snd (brood_enrol b h n))"
  unfolding brood_enrol_def
  by (auto simp: forgotten_def dest: roll.push_keeps [of _ _ id] roll.push_bounded [THEN subsetD] intro!: drifts_on_brood)

lemma drifts_owner_new: "drifts n (snd (owner_new o' n))"
  by (auto simp: owner_new_def drifts_def nursery_ok_def nursery_later_def brood_later_def brood_children_def
      compacting_new_def nth_append)

chapter \<open>Accesses one after another\<close>

text \<open>
  A thread's accesses one after another: each gives what it relies on, and what a stop has done stays
  done.
\<close>

section \<open>From one moment to a later one\<close>

abbreviation pool_at :: "waiter \<Rightarrow> rvalue pool" where
  "pool_at sh \<equiv> pool_of (nursery (sh_world sh))"

definition onwards :: "waiter \<Rightarrow> waiter \<Rightarrow> bool" where
  "onwards sh sh' \<longleftrightarrow>
     turn (sh_world sh) \<le> turn (sh_world sh') \<and> sh_scope sh' = sh_scope sh
     \<and> drifts (nursery (sh_world sh)) (nursery (sh_world sh'))"

lemma onwards_refl [simp]: "onwards sh sh"
  by (simp add: onwards_def)

lemma onwards_trans [trans]: "onwards a b \<Longrightarrow> onwards b c \<Longrightarrow> onwards a c"
  by (auto simp: onwards_def intro: drifts_trans)

text \<open>What a thread relies on: others' moves drift, and so does what its sinks and contracts do.\<close>

definition relies :: "others \<Rightarrow> bool" where
  "relies E \<longleftrightarrow>
     (\<forall>i n. drifts n (moves E i n)) \<and> (\<forall>e b sh. onwards sh (snd (put E e b sh)))
     \<and> (\<forall>s v sh. onwards sh (snd (protects E s v sh)))"

definition sound_at :: "waiter \<Rightarrow> bool" where
  "sound_at sh \<longleftrightarrow> nursery_ok (nursery (sh_world sh))"

lemma onwards_sound: "onwards sh sh' \<Longrightarrow> sound_at sh \<Longrightarrow> sound_at sh'"
  by (auto simp: onwards_def sound_at_def drifts_def)

lemma onwards_later: "onwards sh sh' \<Longrightarrow> sound_at sh \<Longrightarrow> pool_later (pool_at sh) (pool_at sh')"
  by (auto simp: onwards_def sound_at_def drifts_def nursery_later_def)

lemma access_onwards:
  assumes "relies E" "\<And>t n. drifts n (snd (f t n))"
  shows "onwards sh (snd (access E f sh))"
proof -
  have "drifts n (snd (f t (moves E i n)))" for i n t
    using assms(1) by (intro drifts_trans [OF _ assms(2)]) (simp add: relies_def)
  then show ?thesis by (simp add: access_def onwards_def Let_def case_prod_beta)
qed

lemma access_pool_onwards:
  assumes "relies E" "\<And>t n. drifts n (n\<lparr>pool_of := snd (f t (pool_of n))\<rparr>)"
  shows "onwards sh (snd (access_pool E f sh))"
  unfolding access_pool_def
  by (rule access_onwards [OF assms(1)]) (use assms(2) in \<open>simp add: case_prod_beta\<close>)

lemma reading_onwards: "relies E \<Longrightarrow> onwards sh (snd (access_pool E (\<lambda>t w. (f t w, w)) sh))"
  by (rule access_pool_onwards) auto

lemma cancel_writes: "writes_scopes w (w\<lparr>nodes := scope_cancel m c t (nodes w)\<rparr>)"
proof (cases "m < length (nodes w)")
  case True
  then show ?thesis by (intro writes_scopesI [OF _ refl] scope_cancel_steps)
next
  case False
  then have "scope_cancel m c t (nodes w) = nodes w"
    by (simp add: scope_cancel_def raise_flag_def strike_def list_update_beyond)
  then show ?thesis by (simp add: writes_scopes_def)
qed

lemma drifts_halt: "drifts n (n\<lparr>pool_of := snd (claim_and_stop h t (pool_of n))\<rparr>)"
proof (cases "h < length (handles (pool_of n))")
  case True
  then show ?thesis by (auto intro: drifts_moved halt_moves)
next
  case False
  have "drifts n (n\<lparr>pool_of := (pool_of n)\<lparr>nodes := scope_cancel m c s (nodes (pool_of n))\<rparr>\<rparr>)" for m c s
    by (rule drifts_pool) (use cancel_writes in \<open>blast intro: writes_scopes_later writes_scopes_ok\<close>)
  with False show ?thesis
    by (auto simp: claim_and_stop_def beyond_same split: cell.split option.split)
qed

lemma halt_onwards: "relies E \<Longrightarrow> onwards sh (snd (halt_handle E h sh))"
  unfolding halt_handle_def by (rule access_pool_onwards) (auto intro: drifts_halt)

lemma halt_each_onwards: "relies E \<Longrightarrow> onwards sh (halt_each E hs sh)"
  by (induction hs arbitrary: sh) (auto intro: onwards_trans halt_onwards)

section \<open>A stop stays\<close>

definition stopped_at :: "nat \<Rightarrow> waiter \<Rightarrow> bool" where
  "stopped_at h sh \<longleftrightarrow> h < length (handles (pool_at sh)) \<and> h_cell (handles (pool_at sh) ! h) \<noteq> Running"

lemma stopped_later: "stopped_at h sh \<Longrightarrow> onwards sh sh' \<Longrightarrow> sound_at sh \<Longrightarrow> stopped_at h sh'"
  using onwards_later [of sh sh'] later_not_running
  by (fastforce simp: stopped_at_def pool_later_def handle_later_def)

definition has_handle :: "nat \<Rightarrow> waiter \<Rightarrow> bool" where
  "has_handle h sh \<longleftrightarrow> h < length (handles (pool_at sh))"

lemma has_later: "has_handle h sh \<Longrightarrow> onwards sh sh' \<Longrightarrow> sound_at sh \<Longrightarrow> has_handle h sh'"
  using onwards_later [of sh sh'] by (auto simp: has_handle_def pool_later_def)

text \<open>The moment a thread takes for an access: the others have moved, it has not.\<close>

definition others_moved :: "others \<Rightarrow> waiter \<Rightarrow> nursery" where
  "others_moved E sh = moves E (turn (sh_world sh)) (nursery (sh_world sh))"

lemma others_moved_later:
  "relies E \<Longrightarrow> sound_at sh \<Longrightarrow>
     nursery_ok (others_moved E sh) \<and> pool_later (pool_at sh) (pool_of (others_moved E sh))"
  by (auto simp: others_moved_def relies_def drifts_def sound_at_def nursery_later_def)

lemma access_parts:
  "fst (access E f sh) = fst (f (clock E (turn (sh_world sh))) (others_moved E sh))"
  "nursery (sh_world (snd (access E f sh))) = snd (f (clock E (turn (sh_world sh))) (others_moved E sh))"
  "turn (sh_world (snd (access E f sh))) = Suc (turn (sh_world sh))"
  by (simp_all add: access_def others_moved_def Let_def split: prod.split)

lemma access_pool_parts:
  "fst (access_pool E f sh) = fst (f (clock E (turn (sh_world sh))) (pool_of (others_moved E sh)))"
  "pool_at (snd (access_pool E f sh)) = snd (f (clock E (turn (sh_world sh))) (pool_of (others_moved E sh)))"
  "turn (sh_world (snd (access_pool E f sh))) = Suc (turn (sh_world sh))"
  by (simp_all add: access_pool_def access_parts case_prod_beta)

lemma claim_and_stop_stops:
  "h < length (handles w) \<Longrightarrow> h_cell (handles (snd (claim_and_stop h t w)) ! h) \<noteq> Running"
  by (auto simp: claim_and_stop_def split: cell.splits option.splits)

lemma claim_and_stop_length [simp]:
  "length (handles (snd (claim_and_stop h t w))) = length (handles w)"
  by (auto simp: claim_and_stop_def split: cell.split option.split)

lemma halted_is_stopped:
  assumes "relies E" "sound_at sh" "has_handle h sh"
  shows "stopped_at h (snd (halt_handle E h sh))"
proof -
  have "h < length (handles (pool_of (others_moved E sh)))"
    using others_moved_later [OF assms(1,2)] assms(3) by (auto simp: has_handle_def pool_later_def)
  then show ?thesis
    by (simp add: stopped_at_def halt_handle_def access_pool_parts claim_and_stop_stops)
qed

lemma halt_each_stops:
  "relies E \<Longrightarrow> sound_at sh \<Longrightarrow> \<forall>h\<in>set hs. has_handle h sh \<Longrightarrow>
     \<forall>h\<in>set hs. stopped_at h (halt_each E hs sh)"
proof (induction hs arbitrary: sh)
  case (Cons g hs)
  let ?sh = "snd (halt_handle E g sh)"
  have on: "onwards sh ?sh" "sound_at ?sh"
    using Cons.prems halt_onwards onwards_sound by blast+
  then have "stopped_at g (halt_each E hs ?sh)"
    using halted_is_stopped [OF Cons.prems(1,2)] halt_each_onwards [OF Cons.prems(1)] Cons.prems(3)
    by (auto intro: stopped_later)
  with Cons.IH [OF Cons.prems(1) on(2)] Cons.prems(2,3) on(1) show ?case
    by (auto intro: has_later)
qed simp

section \<open>The owner's stop\<close>

lemma close_onwards: "relies E \<Longrightarrow> onwards sh (owner_close E b sh)"
  unfolding owner_close_def by (rule access_onwards) (simp_all add: drifts_close)

lemma children_onwards: "relies E \<Longrightarrow> onwards sh (snd (owner_children E b sh))"
  unfolding owner_children_def by (rule access_onwards) simp_all

text \<open>A brood whose membership has closed over children of which none is running.\<close>

definition hushed :: "nat \<Rightarrow> waiter \<Rightarrow> bool" where
  "hushed b sh \<longleftrightarrow>
     b < length (broods (nursery (sh_world sh))) \<and> \<not> b_open (broods (nursery (sh_world sh)) ! b)
     \<and> (\<forall>h\<in>set (brood_children b (nursery (sh_world sh))). stopped_at h sh)"

definition closed_with :: "nat \<Rightarrow> nat list \<Rightarrow> waiter \<Rightarrow> bool" where
  "closed_with b hs sh \<longleftrightarrow>
     b < length (broods (nursery (sh_world sh))) \<and> \<not> b_open (broods (nursery (sh_world sh)) ! b)
     \<and> brood_children b (nursery (sh_world sh)) = hs"

lemma closed_later:
  "closed_with b hs sh \<Longrightarrow> onwards sh sh' \<Longrightarrow> sound_at sh \<Longrightarrow> closed_with b hs sh'"
  by (auto simp: closed_with_def onwards_def drifts_def sound_at_def nursery_later_def brood_later_def)

lemma closed_quiet: "closed_with b hs sh \<Longrightarrow> \<forall>h\<in>set hs. stopped_at h sh \<Longrightarrow> hushed b sh"
  by (simp add: closed_with_def hushed_def)

lemma quiet_later: "hushed b sh \<Longrightarrow> onwards sh sh' \<Longrightarrow> sound_at sh \<Longrightarrow> hushed b sh'"
  using closed_later [of b "brood_children b (nursery (sh_world sh))" sh sh']
  by (auto simp: hushed_def closed_with_def intro: stopped_later)

definition has_brood :: "nat \<Rightarrow> waiter \<Rightarrow> bool" where
  "has_brood b sh \<longleftrightarrow> b < length (broods (nursery (sh_world sh)))"

lemma brood_stays: "has_brood b sh \<Longrightarrow> onwards sh sh' \<Longrightarrow> sound_at sh \<Longrightarrow> has_brood b sh'"
  by (auto simp: has_brood_def onwards_def drifts_def sound_at_def nursery_later_def)

lemma close_closes:
  assumes "relies E" "sound_at sh" "has_brood b sh"
  obtains hs where "closed_with b hs (owner_close E b sh)"
proof -
  have "b < length (broods (others_moved E sh))"
    using assms by (auto simp: relies_def drifts_def sound_at_def nursery_later_def others_moved_def has_brood_def
        intro: less_le_trans)
  then have "closed_with b (brood_children b (nursery (sh_world (owner_close E b sh)))) (owner_close E b sh)"
    by (simp add: closed_with_def owner_close_def access_parts brood_close_def on_brood_def)
  with that show ?thesis by blast
qed

lemma closed_children:
  assumes "relies E" "sound_at sh" "closed_with b hs sh"
  shows "fst (owner_children E b sh) = hs" "closed_with b hs (snd (owner_children E b sh))"
    "\<forall>h\<in>set hs. has_handle h (snd (owner_children E b sh))"
proof -
  let ?sh = "snd (owner_children E b sh)"
  have on: "onwards sh ?sh" by (rule children_onwards [OF assms(1)])
  from closed_later [OF assms(3) on assms(2)] show c: "closed_with b hs ?sh" .
  then show "fst (owner_children E b sh) = hs"
    by (simp add: owner_children_def access_parts closed_with_def)
  from onwards_sound [OF on assms(2)] c show "\<forall>h\<in>set hs. has_handle h ?sh"
    by (auto simp: closed_with_def sound_at_def has_handle_def intro: child_has)
qed

lemma stop_onwards: "relies E \<Longrightarrow> onwards sh (owner_stop E b sh)"
  unfolding owner_stop_def case_prod_beta
  by (blast intro: onwards_trans close_onwards children_onwards halt_each_onwards)

lemma stop_quiets:
  assumes "relies E" "sound_at sh" "has_brood b sh"
  shows "hushed b (owner_stop E b sh)"
proof -
  let ?c = "owner_close E b sh" and ?k = "snd (owner_children E b (owner_close E b sh))"
  obtain hs where hs: "closed_with b hs ?c" by (rule close_closes [OF assms])
  have c: "sound_at ?c" using close_onwards onwards_sound assms by blast
  have k: "sound_at ?k" using children_onwards onwards_sound assms(1) c by blast
  note kids = closed_children [OF assms(1) c hs]
  have "owner_stop E b sh = halt_each E hs ?k"
    by (simp add: owner_stop_def case_prod_beta kids(1))
  moreover have "closed_with b hs (halt_each E hs ?k)"
    by (rule closed_later [OF kids(2) halt_each_onwards [OF assms(1)] k])
  ultimately show ?thesis
    using halt_each_stops [OF assms(1) k kids(3)] by (auto intro: closed_quiet)
qed

end
