(* ===== verification/Worker_Exits.thy ===== *)
theory Worker_Exits
  imports Worker_Halts
begin

text \<open>
  Waits in rounds, joins, and the exit of a brood.
\<close>

chapter \<open>Waits\<close>

text \<open>
  Waits: what they give and rely on, what they have seen when they return, and why they return.  A
  bound on rounds is a bound on nothing else: a wait that returns in some returns the same in more.
\<close>

section \<open>Rounds\<close>

definition settles :: "(nat \<Rightarrow> 'a option) \<Rightarrow> 'a \<Rightarrow> bool" where
  "settles f r \<longleftrightarrow> (\<exists>k. \<forall>j\<ge>k. f j = Some r)"

lemma settles_now: "settles (\<lambda>k. Some r) r"
  by (simp add: settles_def)

lemma settles_onward:
  assumes "settles f (x, s)"
    and "\<And>v. x = Done v \<Longrightarrow> settles (\<lambda>k. g k v s) r"
    and "\<And>b. x = Broke b \<Longrightarrow> r = (Broke b, s)"
    and "x = Panicked \<Longrightarrow> r = (Panicked, s)"
  shows "settles (\<lambda>k. onward (f k) (g k)) r"
proof -
  obtain i where i: "\<forall>k\<ge>i. f k = Some (x, s)" using assms(1) by (auto simp: settles_def)
  show ?thesis
  proof (cases x)
    case (Done v)
    then obtain j where "\<forall>k\<ge>j. g k v s = Some r" using assms(2) by (auto simp: settles_def)
    with i Done have "\<forall>k\<ge>max i j. onward (f k) (g k) = Some r" by (simp add: onward_def)
    then show ?thesis unfolding settles_def by blast
  qed (use i assms(3,4) in \<open>auto simp: settles_def onward_def intro!: exI [of _ i]\<close>)
qed

lemma settles_map: "settles f x \<Longrightarrow> settles (\<lambda>k. map_option h (f k)) (h x)"
  by (auto simp: settles_def)

lemma settlesI: "f k = Some r \<Longrightarrow> (\<And>i j. f i = Some r \<Longrightarrow> i \<le> j \<Longrightarrow> f j = Some r) \<Longrightarrow> settles f r"
  by (auto simp: settles_def)

lemma settles_some: "settles f r \<Longrightarrow> \<exists>k. f k = Some r"
  by (auto simp: settles_def)

section \<open>Waiting for an end\<close>

lemma any_live_onwards: "relies E \<Longrightarrow> onwards sh (snd (any_live E hs sh))"
proof (induction hs arbitrary: sh)
  case (Cons h hs)
  let ?r = "access_pool E (\<lambda>_ w. (handle_sample h w, w)) sh"
  have "onwards sh (snd ?r)" by (rule reading_onwards [OF Cons.prems])
  with Cons.IH [OF Cons.prems, of "snd ?r"] show ?case
    by (auto simp: case_prod_beta intro: onwards_trans)
qed simp

lemma now_onwards: "relies E \<Longrightarrow> onwards sh (snd (now_is E sh))"
  unfolding now_is_def by (rule access_onwards) simp_all

lemma wait_until_onwards:
  "relies E \<Longrightarrow> wait_ended_until k E hs d sh = Some sh' \<Longrightarrow> onwards sh sh'"
proof (induction k arbitrary: sh)
  case (Suc k)
  let ?a = "any_live E hs sh" and ?t = "now_is E (snd (any_live E hs sh))"
  have on: "onwards sh (snd ?a)" "onwards (snd ?a) (snd ?t)"
    using any_live_onwards now_onwards Suc.prems(1) by blast+
  with Suc show ?case
    by (cases "fst ?a"; cases "fst ?t < d")
      (auto simp: case_prod_beta intro: onwards_trans)
qed simp

lemma wait_onwards: "relies E \<Longrightarrow> wait_ended k E hs g sh = Some sh' \<Longrightarrow> onwards sh sh'"
  by (auto simp: wait_ended_def case_prod_beta intro: onwards_trans [OF now_onwards] wait_until_onwards)

lemma drain_onwards: "relies E \<Longrightarrow> owner_drain k E b g sh = Some sh' \<Longrightarrow> onwards sh sh'"
  by (auto simp: owner_drain_def case_prod_beta intro: onwards_trans [OF children_onwards] wait_onwards)

lemma wait_until_more:
  "wait_ended_until i E hs d sh = Some sh' \<Longrightarrow> i \<le> j \<Longrightarrow> wait_ended_until j E hs d sh = Some sh'"
proof (induction i arbitrary: j sh)
  case (Suc i)
  then obtain j' where "j = Suc j'" "i \<le> j'" by (cases j) auto
  with Suc show ?case by (auto simp: case_prod_beta split: if_splits bool.splits)
qed simp

text \<open>A clock that passes every deadline ends every wait.\<close>

definition clock_runs :: "others \<Rightarrow> bool" where
  "clock_runs E \<longleftrightarrow> (\<forall>d. \<exists>N. \<forall>i\<ge>N. d \<le> mono_at (clock E i))"

lemma access_turn [simp]: "turn (sh_world (snd (access E f sh))) = Suc (turn (sh_world sh))"
  by (simp add: access_parts)

lemma any_live_turn: "turn (sh_world sh) \<le> turn (sh_world (snd (any_live E hs sh)))"
proof (induction hs arbitrary: sh)
  case (Cons h hs)
  show ?case
    using Cons [of "snd (access_pool E (\<lambda>_ w. (handle_sample h w, w)) sh)"]
    by (auto simp: case_prod_beta access_pool_parts)
qed simp

lemma wait_until_ends:
  assumes "\<forall>i\<ge>N. d \<le> mono_at (clock E i)"
  shows "N \<le> k + turn (sh_world sh) \<Longrightarrow> wait_ended_until (Suc k) E hs d sh \<noteq> None"
proof (induction k arbitrary: sh)
  case 0
  let ?a = "any_live E hs sh"
  have "N \<le> turn (sh_world (snd ?a))" using 0 any_live_turn [of sh E hs] by simp
  with assms show ?case
    by (auto simp: case_prod_beta now_is_def access_parts split: bool.split dest: leD)
next
  case (Suc k)
  let ?a = "any_live E hs sh" and ?t = "now_is E (snd (any_live E hs sh))"
  have "Suc (turn (sh_world sh)) \<le> turn (sh_world (snd ?t))"
    using any_live_turn [of sh E hs] by (simp add: now_is_def)
  then have "wait_ended_until (Suc k) E hs d (snd ?t) \<noteq> None"
    using Suc.prems by (intro Suc.IH) linarith
  then show ?case
    by (auto simp: case_prod_beta simp del: wait_ended_until.simps(2)
        simp: wait_ended_until.simps(2) [of "Suc k"] split: bool.split)
qed

lemma wait_settles: "clock_runs E \<Longrightarrow> \<exists>sh'. settles (\<lambda>k. wait_ended k E hs g sh) sh'"
proof -
  let ?d = "fst (now_is E sh) + g" and ?s = "snd (now_is E sh)"
  assume "clock_runs E"
  then obtain N where "\<forall>i\<ge>N. ?d \<le> mono_at (clock E i)" unfolding clock_runs_def by blast
  from wait_until_ends [OF this, of N ?s hs] obtain sh' where
    "wait_ended_until (Suc N) E hs ?d ?s = Some sh'" by auto
  then have "settles (\<lambda>k. wait_ended_until k E hs ?d ?s) sh'"
    by (rule settlesI) (rule wait_until_more)
  then show ?thesis by (auto simp: wait_ended_def case_prod_beta)
qed

lemma drain_settles: "clock_runs E \<Longrightarrow> \<exists>sh'. settles (\<lambda>k. owner_drain k E b g sh) sh'"
  by (simp add: owner_drain_def case_prod_beta wait_settles)

lemma end_settles: "clock_runs E \<Longrightarrow> \<exists>sh'. settles (\<lambda>k. owner_end k E b g sh) sh'"
  by (simp add: owner_end_def drain_settles)

text \<open>What the wait has seen: every handle ended, or the deadline past.\<close>

definition ended_at :: "nat \<Rightarrow> waiter \<Rightarrow> bool" where
  "ended_at h sh \<longleftrightarrow> h < length (handles (pool_at sh)) \<and> cell_ended (h_cell (handles (pool_at sh) ! h)) \<noteq> None"

lemma ended_later: "ended_at h sh \<Longrightarrow> onwards sh sh' \<Longrightarrow> sound_at sh \<Longrightarrow> ended_at h sh'"
  using onwards_later [of sh sh']
  by (auto simp: ended_at_def pool_later_def handle_later_def
      dest!: later_ended [of "h_cell (handles (pool_at sh) ! h)"] spec [of _ h])

lemma ended_stopped: "ended_at h sh \<Longrightarrow> stopped_at h sh"
  by (auto simp: ended_at_def stopped_at_def cell_ended_def)

lemma sample_ended: "has_ended (handle_sample h w) \<longleftrightarrow> cell_ended (h_cell (handles w ! h)) \<noteq> None"
  by (auto simp: has_ended_def is_live_def handle_sample_def cell_sample_def cell_ended_def
      split: cell.split option.split)

lemma any_live_seen:
  "relies E \<Longrightarrow> sound_at sh \<Longrightarrow> \<forall>h\<in>set hs. has_handle h sh \<Longrightarrow> any_live E hs sh = (False, sh') \<Longrightarrow>
     \<forall>h\<in>set hs. ended_at h sh'"
proof (induction hs arbitrary: sh)
  case (Cons h hs)
  let ?r = "access_pool E (\<lambda>_ w. (handle_sample h w, w)) sh"
  have on: "onwards sh (snd ?r)" by (rule reading_onwards [OF Cons.prems(1)])
  have ok: "sound_at (snd ?r)" by (rule onwards_sound [OF on Cons.prems(2)])
  from Cons.prems(4) have e: "has_ended (fst ?r)" and rest: "any_live E hs (snd ?r) = (False, sh')"
    by (auto simp: case_prod_beta split: if_splits)
  have "ended_at h (snd ?r)"
    using e has_later [OF _ on Cons.prems(2), of h] Cons.prems(3)
    by (simp add: access_pool_parts ended_at_def has_handle_def sample_ended)
  moreover have "onwards (snd ?r) sh'"
    using any_live_onwards [OF Cons.prems(1), of "snd ?r" hs] rest by simp
  moreover have "\<forall>h\<in>set hs. ended_at h sh'"
    using Cons.IH [OF Cons.prems(1) ok _ rest] has_later [OF _ on Cons.prems(2)] Cons.prems(3) by simp
  ultimately show ?case using ok by (auto intro: ended_later)
qed simp

section \<open>Waiting for a result\<close>

text \<open>A reading that tells a running cell from another, and drifts.\<close>

definition faithful :: "'r reading \<Rightarrow> bool" where
  "faithful rd \<longleftrightarrow>
     (\<forall>h n. drifts n (n\<lparr>pool_of := snd (rd h (pool_of n))\<rparr>)) \<and>
     (\<forall>h w. (\<exists>u. fst (rd h w) = SRunning u) \<longleftrightarrow> h_cell (handles w ! h) = Running) \<and>
     (\<forall>h w. h_cell (handles w ! h) \<noteq> Running \<longrightarrow> h_cell (handles (snd (rd h w)) ! h) \<noteq> Running)"

lemma claimed_not_running:
  "h_cell (handles w ! h) \<noteq> Running \<Longrightarrow> h_cell (handles (snd (claim_ready h w)) ! h) \<noteq> Running"
  by (cases "h < length (handles w)")
    (auto simp: claim_ready_def beyond_same split: cell.split option.split)

lemma claim_faithful: "faithful claim_ready"
  unfolding faithful_def
  by (auto simp: drifts_claim claimed_not_running) (auto simp: claim_ready_def split: cell.splits option.splits)

lemma sampling_faithful: "faithful sampling"
  by (auto simp: faithful_def sampling_def handle_sample_def cell_sample_def split: cell.splits option.splits)

lemma faithful_stopped:
  "faithful rd \<Longrightarrow> fst (rd h w) \<noteq> SRunning () \<Longrightarrow> h_cell (handles (snd (rd h w)) ! h) \<noteq> Running"
  by (auto simp: faithful_def)

lemma reading_drifts:
  "relies E \<Longrightarrow> faithful rd \<Longrightarrow> onwards sh (snd (access_pool E (\<lambda>_. rd h) sh))"
  by (rule access_pool_onwards) (simp_all add: faithful_def)

lemma sweep_onwards:
  "relies E \<Longrightarrow> faithful rd \<Longrightarrow> onwards sh (snd (sweep E rd i hs r sh))"
proof (induction hs arbitrary: sh i r)
  case (Cons h hs)
  let ?r = "access_pool E (\<lambda>_. rd h) sh"
  have "onwards sh (snd ?r)" by (rule reading_drifts [OF Cons.prems])
  with Cons.IH [OF Cons.prems, of "snd ?r"] show ?case
    by (cases "fst ?r") (auto simp: case_prod_beta intro: onwards_trans)
qed simp

lemma poll_onwards: "relies E \<Longrightarrow> onwards sh (snd (shell_poll E sh))"
  unfolding shell_poll_def by (rule reading_onwards)

lemma first_ready_onwards:
  "relies E \<Longrightarrow> faithful rd \<Longrightarrow> first_ready k E rd hs sh = Some (r, sh') \<Longrightarrow> onwards sh sh'"
proof (induction k arbitrary: sh)
  case (Suc k)
  let ?p = "shell_poll E sh" and ?s = "sweep E rd 0 hs False (snd (shell_poll E sh))"
  have p: "onwards sh (snd ?p)" by (rule poll_onwards [OF Suc.prems(1)])
  have s: "onwards sh (snd ?s)" by (rule onwards_trans [OF p sweep_onwards [OF Suc.prems(1,2)]])
  show ?case
  proof (cases "fst ?p")
    case (Done u)
    then show ?thesis
      using Suc.prems(3) s Suc.IH [OF Suc.prems(1,2), of "snd ?s"]
      by (cases "fst (fst ?s)"; cases "snd (fst ?s)")
        (auto simp: onward_def case_prod_beta split: option.splits intro: onwards_trans)
  qed (use Suc.prems(3) p in \<open>auto simp: onward_def case_prod_beta\<close>)
qed simp

lemma first_ready_more:
  "first_ready i E rd hs sh = Some r \<Longrightarrow> i \<le> j \<Longrightarrow> first_ready j E rd hs sh = Some r"
proof (induction i arbitrary: j sh)
  case (Suc i)
  then obtain j' where "j = Suc j'" "i \<le> j'" by (cases j) auto
  with Suc show ?case
    by (auto simp: onward_def case_prod_beta split: flow.splits option.splits if_splits)
qed simp

text \<open>A sweep that saw nothing running leaves nothing running.\<close>

lemma sweep_seen:
  "relies E \<Longrightarrow> faithful rd \<Longrightarrow> sound_at sh \<Longrightarrow> \<forall>h\<in>set hs. has_handle h sh \<Longrightarrow>
     sweep E rd i hs r sh = ((None, False), sh') \<Longrightarrow> \<not> r \<and> (\<forall>h\<in>set hs. stopped_at h sh')"
proof (induction hs arbitrary: sh i r)
  case (Cons h hs)
  let ?r = "access_pool E (\<lambda>_. rd h) sh"
  have on: "onwards sh (snd ?r)" by (rule reading_drifts [OF Cons.prems(1,2)])
  have ok: "sound_at (snd ?r)" by (rule onwards_sound [OF on Cons.prems(3)])
  have has: "\<forall>g\<in>set hs. has_handle g (snd ?r)" "has_handle h (snd ?r)"
    using has_later [OF _ on Cons.prems(3)] Cons.prems(4) by auto
  note IH = Cons.IH [OF Cons.prems(1,2) ok has(1)]
  have seen: ?case
    if "fst ?r \<noteq> SRunning ()" "sweep E rd (Suc i) hs r (snd ?r) = ((None, False), sh')"
  proof -
    have "stopped_at h (snd ?r)"
      using faithful_stopped [OF Cons.prems(2)] that(1) has(2)
      by (auto simp: stopped_at_def has_handle_def access_pool_parts)
    moreover have "onwards (snd ?r) sh'"
      using sweep_onwards [OF Cons.prems(1,2), of "snd ?r" "Suc i" hs r] that(2) by simp
    ultimately show ?thesis using IH [OF that(2)] ok by (auto intro: stopped_later)
  qed
  show ?case
  proof (cases "fst ?r")
    case (SRunning u)
    with Cons.prems(5) IH [of "Suc i" True] show ?thesis by (auto simp: case_prod_beta)
  next
    case (SReady v)
    with Cons.prems(5) show ?thesis by (auto simp: case_prod_beta)
  qed (use Cons.prems(5) seen in \<open>auto simp: case_prod_beta\<close>)
qed simp

lemma first_ready_seen:
  "relies E \<Longrightarrow> faithful rd \<Longrightarrow> sound_at sh \<Longrightarrow> \<forall>h\<in>set hs. has_handle h sh \<Longrightarrow>
     first_ready k E rd hs sh = Some (Done None, sh') \<Longrightarrow> \<forall>h\<in>set hs. stopped_at h sh'"
proof (induction k arbitrary: sh)
  case (Suc k)
  let ?p = "shell_poll E sh" and ?s = "sweep E rd 0 hs False (snd (shell_poll E sh))"
  have p: "onwards sh (snd ?p)" by (rule poll_onwards [OF Suc.prems(1)])
  have s: "onwards sh (snd ?s)" by (rule onwards_trans [OF p sweep_onwards [OF Suc.prems(1,2)]])
  have ok: "sound_at (snd ?p)" "sound_at (snd ?s)"
    using onwards_sound [OF p Suc.prems(3)] onwards_sound [OF s Suc.prems(3)] by auto
  have has: "\<forall>h\<in>set hs. has_handle h (snd ?p)" "\<forall>h\<in>set hs. has_handle h (snd ?s)"
    using has_later [OF _ p Suc.prems(3)] has_later [OF _ s Suc.prems(3)] Suc.prems(4) by auto
  obtain u where u: "fst ?p = Done u"
    using Suc.prems(5) by (auto simp: onward_def case_prod_beta split: flow.splits)
  obtain running where r: "fst ?s = (None, running)"
    using Suc.prems(5) u by (cases "fst ?s") (auto simp: onward_def case_prod_beta split: option.splits)
  show ?case
  proof (cases running)
    case True
    then have "first_ready k E rd hs (snd ?s) = Some (Done None, sh')"
      using Suc.prems(5) u r by (simp add: onward_def case_prod_beta)
    then show ?thesis by (rule Suc.IH [OF Suc.prems(1,2) ok(2) has(2)])
  next
    case False
    then have "?s = ((None, False), sh')"
      using Suc.prems(5) u r by (simp add: onward_def case_prod_beta prod_eq_iff)
    with sweep_seen [OF Suc.prems(1,2) ok(1) has(1)] show ?thesis by blast
  qed
qed simp

chapter \<open>Exits\<close>

text \<open>
  The exit of a brood, an \<open>await\<close> and a \<open>race\<close>: that they leave nothing they answer for running, and
  when they return.
\<close>

section \<open>What a result was taken from\<close>

lemma sweep_found:
  "relies E \<Longrightarrow> faithful rd \<Longrightarrow> sound_at sh \<Longrightarrow> \<forall>h\<in>set hs. has_handle h sh \<Longrightarrow>
     sweep E rd i hs r sh = ((Some (j, v), q), sh') \<Longrightarrow>
     i \<le> j \<and> j < i + length hs \<and> stopped_at (hs ! (j - i)) sh'"
proof (induction hs arbitrary: sh i r)
  case (Cons h hs)
  let ?r = "access_pool E (\<lambda>_. rd h) sh"
  have on: "onwards sh (snd ?r)" by (rule reading_drifts [OF Cons.prems(1,2)])
  have ok: "sound_at (snd ?r)" by (rule onwards_sound [OF on Cons.prems(3)])
  have has: "\<forall>g\<in>set hs. has_handle g (snd ?r)" "has_handle h (snd ?r)"
    using has_later [OF _ on Cons.prems(3)] Cons.prems(4) by auto
  show ?case
  proof (cases "\<exists>v. fst ?r = SReady v")
    case True
    then have "stopped_at h (snd ?r)"
      using faithful_stopped [OF Cons.prems(2), of h "pool_of (others_moved E sh)"] has(2)
      by (auto simp: stopped_at_def has_handle_def access_pool_parts)
    with True Cons.prems(5) show ?thesis by (auto simp: case_prod_beta)
  next
    case False
    then obtain r' where "sweep E rd (Suc i) hs r' (snd ?r) = ((Some (j, v), q), sh')"
      using Cons.prems(5) by (cases "fst ?r") (auto simp: case_prod_beta)
    from Cons.IH [OF Cons.prems(1,2) ok has(1) this] show ?thesis by (auto simp: nth_Cons')
  qed
qed simp

lemma first_ready_found:
  "relies E \<Longrightarrow> faithful rd \<Longrightarrow> sound_at sh \<Longrightarrow> \<forall>h\<in>set hs. has_handle h sh \<Longrightarrow>
     first_ready k E rd hs sh = Some (Done (Some (j, v)), sh') \<Longrightarrow> j < length hs \<and> stopped_at (hs ! j) sh'"
proof (induction k arbitrary: sh)
  case (Suc k)
  let ?p = "shell_poll E sh" and ?s = "sweep E rd 0 hs False (snd (shell_poll E sh))"
  have p: "onwards sh (snd ?p)" by (rule poll_onwards [OF Suc.prems(1)])
  have s: "onwards sh (snd ?s)" by (rule onwards_trans [OF p sweep_onwards [OF Suc.prems(1,2)]])
  have ok: "sound_at (snd ?p)" "sound_at (snd ?s)"
    using onwards_sound [OF p Suc.prems(3)] onwards_sound [OF s Suc.prems(3)] by auto
  have has: "\<forall>h\<in>set hs. has_handle h (snd ?p)" "\<forall>h\<in>set hs. has_handle h (snd ?s)"
    using has_later [OF _ p Suc.prems(3)] has_later [OF _ s Suc.prems(3)] Suc.prems(4) by auto
  obtain u where u: "fst ?p = Done u"
    using Suc.prems(5) by (auto simp: onward_def case_prod_beta split: flow.splits)
  show ?case
  proof (cases "fst (fst ?s)")
    case None
    then have "first_ready k E rd hs (snd ?s) = Some (Done (Some (j, v)), sh')"
      using Suc.prems(5) u by (auto simp: onward_def case_prod_beta split: if_splits)
    then show ?thesis by (rule Suc.IH [OF Suc.prems(1,2) ok(2) has(2)])
  next
    case (Some x)
    then have "?s = ((Some (j, v), snd (fst ?s)), sh')"
      using Suc.prems(5) u by (simp add: onward_def case_prod_beta prod_eq_iff)
    with sweep_found [OF Suc.prems(1,2) ok(1) has(1)] show ?thesis by fastforce
  qed
qed simp

section \<open>Joining\<close>

lemma after_onwards:
  "onwards sh (snd m) \<Longrightarrow> (\<And>x. onwards (snd m) (snd (f x (snd m)))) \<Longrightarrow> onwards sh (snd (after m f))"
  by (cases "fst m") (auto simp: after_def case_prod_beta intro: onwards_trans)

lemma protect_onwards: "relies E \<Longrightarrow> onwards sh (snd (protect_value E ss v sh))"
  by (induction ss arbitrary: v sh) (auto simp: relies_def intro!: after_onwards)

lemma exact_onwards: "relies E \<Longrightarrow> onwards sh (snd (exact E ss c sh))"
  unfolding exact_def replay_bytes_def
  by (intro after_onwards protect_onwards) (simp_all add: relies_def)

lemma join_onwards:
  assumes "relies E" "join_handle k E h sh = Some (r, sh')"
  shows "onwards sh sh'"
proof -
  obtain x s where x: "claim_first k E [fst h] sh = Some (x, s)"
    using assms(2) by (cases "claim_first k E [fst h] sh") (auto simp: join_handle_def onward_def)
  have s: "onwards sh s"
    using first_ready_onwards [OF assms(1) claim_faithful] x by (simp add: claim_first_def)
  show ?thesis
  proof (cases x)
    case (Done q)
    then show ?thesis
    proof (cases q)
      case (Some p)
      have "sh' = snd (after (exact E (snd h) (snd p) s) (\<lambda>v. Pair (Done (Some v))))"
        using assms(2) x Done Some by (auto simp: join_handle_def onward_def case_prod_beta)
      also have "onwards s \<dots>" by (intro after_onwards exact_onwards assms(1)) simp
      finally show ?thesis using s by (blast intro: onwards_trans)
    qed (use assms(2) x Done s in \<open>auto simp: join_handle_def onward_def\<close>)
  qed (use assms(2) x s in \<open>auto simp: join_handle_def onward_def\<close>)
qed

lemma join_stops:
  assumes "relies E" "sound_at sh" "has_handle (fst h) sh" "join_handle k E h sh = Some (Done r, sh')"
  shows "stopped_at (fst h) sh'"
proof -
  obtain x s where x: "claim_first k E [fst h] sh = Some (x, s)"
    using assms(4) by (cases "claim_first k E [fst h] sh") (auto simp: join_handle_def onward_def)
  then obtain q where q: "x = Done q"
    using assms(4) by (cases x) (auto simp: join_handle_def onward_def)
  have has: "\<forall>g\<in>set [fst h]. has_handle g sh" using assms(3) by simp
  have s: "onwards sh s"
    using first_ready_onwards [OF assms(1) claim_faithful] x by (simp add: claim_first_def)
  show ?thesis
  proof (cases q)
    case None
    then show ?thesis
      using first_ready_seen [OF assms(1) claim_faithful assms(2) has] x q assms(4)
      by (auto simp: claim_first_def join_handle_def onward_def)
  next
    case (Some p)
    have "stopped_at (fst h) s"
      using first_ready_found [OF assms(1) claim_faithful assms(2) has, of k "fst p" "snd p" s] x q Some
      by (auto simp: claim_first_def)
    moreover have "(Done r, sh') = after (exact E (snd h) (snd p) s) (\<lambda>v. Pair (Done (Some v)))"
      using assms(4) x q Some by (simp add: join_handle_def onward_def case_prod_beta)
    then have "onwards s sh'"
      by (metis after_onwards exact_onwards [OF assms(1)] onwards_refl snd_conv)
    ultimately show ?thesis using onwards_sound [OF s assms(2)] by (rule stopped_later)
  qed
qed

lemma join_each_onwards:
  "relies E \<Longrightarrow> join_each k E hs sh = Some (r, sh') \<Longrightarrow> onwards sh sh'"
proof (induction hs arbitrary: sh)
  case (Cons h hs)
  obtain x s where x: "join_handle k E (h, []) sh = Some (x, s)"
    using Cons.prems(2) by (cases "join_handle k E (h, []) sh") (auto simp: onward_def)
  have "onwards sh s" by (rule join_onwards [OF Cons.prems(1) x])
  with Cons x show ?case by (cases x) (auto simp: onward_def intro: onwards_trans)
qed simp

lemma join_each_stops:
  "relies E \<Longrightarrow> sound_at sh \<Longrightarrow> \<forall>h\<in>set hs. has_handle h sh \<Longrightarrow>
     join_each k E hs sh = Some (Done u, sh') \<Longrightarrow> \<forall>h\<in>set hs. stopped_at h sh'"
proof (induction hs arbitrary: sh)
  case (Cons h hs)
  obtain x s where x: "join_handle k E (h, []) sh = Some (x, s)"
    using Cons.prems(4) by (cases "join_handle k E (h, []) sh") (auto simp: onward_def)
  then obtain q where q: "x = Done q" "join_each k E hs s = Some (Done u, sh')"
    using Cons.prems(4) by (cases x) (auto simp: onward_def)
  have on: "onwards sh s" by (rule join_onwards [OF Cons.prems(1) x])
  have ok: "sound_at s" by (rule onwards_sound [OF on Cons.prems(2)])
  have "stopped_at h s"
    using join_stops [OF Cons.prems(1,2), of "(h, [])" k q s] x q(1) Cons.prems(3) by simp
  with stopped_later [OF _ join_each_onwards [OF Cons.prems(1) q(2)] ok] Cons.IH [OF Cons.prems(1) ok _ q(2)]
    has_later [OF _ on Cons.prems(2)] Cons.prems(3) show ?case by auto
qed simp

section \<open>The exit\<close>

text \<open>What the body and the join came to, before the drain.\<close>

definition exit_joined ::
  "nat \<Rightarrow> others \<Rightarrow> nat \<Rightarrow> brk + rvalue \<Rightarrow> waiter \<Rightarrow> (rvalue flow \<times> waiter) option" where
  "exit_joined k E b body sh =
     (case body of
        Inl e \<Rightarrow> Some (Broke e, sh)
      | Inr v \<Rightarrow>
          onward (join_each k E (fst (owner_children E b sh)) (snd (owner_children E b sh)))
            (\<lambda>_ sh. Some (Done v, sh)))"

lemma exit_brood_joined:
  "exit_brood k E b grace body sh =
     (case exit_joined k E b body (owner_close E b sh) of
        None \<Rightarrow> None
      | Some (Panicked, sh) \<Rightarrow> Some (Panicked, sh)
      | Some (Broke e, sh) \<Rightarrow> map_option (Pair (Broke e)) (owner_end k E b grace sh)
      | Some (Done v, sh) \<Rightarrow> map_option (Pair (Done v)) (owner_drain k E b grace sh))"
  by (cases body) (simp_all add: exit_brood_def exit_joined_def Let_def case_prod_beta)

lemma joined_onwards:
  assumes "relies E" "exit_joined k E b body sh = Some (r, sh')"
  shows "onwards sh sh'"
proof (cases body)
  case (Inr v)
  let ?c = "owner_children E b sh"
  obtain x s where x: "join_each k E (fst ?c) (snd ?c) = Some (x, s)"
    using assms(2) Inr by (cases "join_each k E (fst ?c) (snd ?c)") (auto simp: exit_joined_def onward_def)
  then have "sh' = s" using assms(2) Inr by (cases x) (auto simp: exit_joined_def onward_def)
  with x show ?thesis
    using join_each_onwards [OF assms(1)] children_onwards [OF assms(1)] by (blast intro: onwards_trans)
qed (use assms(2) in \<open>simp add: exit_joined_def\<close>)

lemma joined_quiet:
  assumes "relies E" "sound_at sh" "closed_with b hs sh" "exit_joined k E b body sh = Some (Done v, sh')"
  shows "hushed b sh'"
proof -
  note kids = closed_children [OF assms(1-3)]
  let ?s = "snd (owner_children E b sh)"
  have on: "onwards sh ?s" by (rule children_onwards [OF assms(1)])
  have ok: "sound_at ?s" by (rule onwards_sound [OF on assms(2)])
  obtain w where "body = Inr w" using assms(4) by (cases body) (auto simp: exit_joined_def)
  then obtain u s where s: "join_each k E hs ?s = Some (Done u, s)" "sh' = s"
    using assms(4) kids(1)
    by (cases "join_each k E hs ?s") (auto simp: exit_joined_def onward_def split: flow.splits)
  have "\<forall>h\<in>set hs. stopped_at h sh'"
    using join_each_stops [OF assms(1) ok kids(3) s(1)] s(2) by simp
  moreover have "closed_with b hs sh'"
    using closed_later [OF kids(2) _ ok] join_each_onwards [OF assms(1) s(1)] s(2) by simp
  ultimately show ?thesis by (blast intro: closed_quiet)
qed

lemma end_quiets:
  assumes "relies E" "sound_at sh" "has_brood b sh" "owner_end k E b grace sh = Some sh'"
  shows "hushed b sh'"
proof -
  let ?s = "owner_stop E b sh"
  have "onwards ?s sh'" using drain_onwards [OF assms(1)] assms(4) by (simp add: owner_end_def)
  moreover have "sound_at ?s" by (rule onwards_sound [OF stop_onwards [OF assms(1)] assms(2)])
  ultimately show ?thesis using stop_quiets [OF assms(1-3)] by (blast intro: quiet_later)
qed

text \<open>A brood left by a value or a break has nothing running; left by an unwinding, once it is dropped.\<close>

lemma exit_quiets:
  assumes "relies E" "sound_at sh" "has_brood b sh" "exit_brood k E b grace body sh = Some (r, sh')"
    and "r \<noteq> Panicked"
  shows "hushed b sh'"
proof -
  let ?c = "owner_close E b sh"
  have c: "onwards sh ?c" by (rule close_onwards [OF assms(1)])
  have ok: "sound_at ?c" by (rule onwards_sound [OF c assms(2)])
  obtain hs where hs: "closed_with b hs ?c" by (rule close_closes [OF assms(1-3)])
  obtain x s where x: "exit_joined k E b body ?c = Some (x, s)"
    using assms(4) by (cases "exit_joined k E b body ?c") (auto simp: exit_brood_joined)
  have s: "onwards ?c s" by (rule joined_onwards [OF assms(1) x])
  have oks: "sound_at s" by (rule onwards_sound [OF s ok])
  have bs: "has_brood b s" by (rule brood_stays [OF brood_stays [OF assms(3) c assms(2)] s ok])
  show ?thesis
  proof (cases x)
    case (Done v)
    then have d: "owner_drain k E b grace s = Some sh'"
      using assms(4) x by (auto simp: exit_brood_joined)
    have "hushed b s" using joined_quiet [OF assms(1) ok hs] x Done by blast
    then show ?thesis using drain_onwards [OF assms(1) d] oks by (rule quiet_later)
  next
    case (Broke e)
    then have "owner_end k E b grace s = Some sh'"
      using assms(4) x by (auto simp: exit_brood_joined)
    then show ?thesis by (rule end_quiets [OF assms(1) oks bs])
  next
    case Panicked
    with assms(4,5) x show ?thesis by (auto simp: exit_brood_joined)
  qed
qed

lemma exit_onwards:
  assumes "relies E" "exit_brood k E b grace body sh = Some (r, sh')"
  shows "onwards sh sh'"
proof -
  let ?c = "owner_close E b sh"
  obtain x s where x: "exit_joined k E b body ?c = Some (x, s)"
    using assms(2) by (cases "exit_joined k E b body ?c") (auto simp: exit_brood_joined)
  have s: "onwards sh s"
    by (rule onwards_trans [OF close_onwards [OF assms(1)] joined_onwards [OF assms(1) x]])
  have "onwards s sh'"
    using assms(2) x
    by (cases x) (auto simp: exit_brood_joined owner_end_def intro: drain_onwards [OF assms(1)]
        onwards_trans [OF stop_onwards [OF assms(1)] drain_onwards [OF assms(1)]])
  with s show ?thesis by (rule onwards_trans)
qed

lemma leave_quiets:
  assumes "relies E" "sound_at sh" "has_brood b sh" "leave_brood k E b grace body sh = Some (r, sh')"
  shows "hushed b sh'"
proof -
  obtain s where s: "exit_brood k E b grace body sh = Some (r, s)" "sh' = owner_stop E b s"
    using assms(4) by (auto simp: leave_brood_def)
  have on: "onwards sh s" by (rule exit_onwards [OF assms(1) s(1)])
  show ?thesis
    unfolding s(2) by (rule stop_quiets [OF assms(1) onwards_sound [OF on assms(2)] brood_stays [OF assms(3) on assms(2)]])
qed

section \<open>When it returns\<close>

text \<open>A body that halted is left within the grace, whatever its children do.\<close>

lemma halted_exit_settles:
  assumes "clock_runs E"
  shows "\<exists>sh'. settles (\<lambda>k. leave_brood k E b grace (Inl e) sh) (Broke e, sh')"
proof -
  obtain s where "settles (\<lambda>k. owner_end k E b grace (owner_close E b sh)) s"
    using end_settles [OF assms] by blast
  then have "settles (\<lambda>k. exit_brood k E b grace (Inl e) sh) (Broke e, s)"
    using settles_map [of _ s "Pair (Broke e)"] by (simp add: exit_brood_joined exit_joined_def)
  then have "settles (\<lambda>k. leave_brood k E b grace (Inl e) sh) ((\<lambda>(r, sh). (r, owner_stop E b sh)) (Broke e, s))"
    unfolding leave_brood_def by (rule settles_map)
  then show ?thesis by auto
qed

end
