(* ===== verification/Worker_Births.thy ===== *)
theory Worker_Births
  imports Worker_Exits
begin

text \<open>
  Waits that return, and what births, races and bases leave behind.
\<close>

chapter \<open>Waits that return\<close>

text \<open>
  When waits for a result return: once every worker has ended or been claimed.  And what a race and a
  birth leave behind.
\<close>

section \<open>Workers that end\<close>

lemma settles_on:
  assumes "settles f (x, s)" "\<And>v. x = Done v \<Longrightarrow> \<exists>r. settles (\<lambda>k. g k v s) r"
  shows "\<exists>r. settles (\<lambda>k. onward (f k) (g k)) r"
proof (cases x)
  case (Done v)
  with assms(2) obtain r where "settles (\<lambda>k. g k v s) r" by blast
  with Done have "settles (\<lambda>k. onward (f k) (g k)) r" by (auto intro: settles_onward [OF assms(1)])
  then show ?thesis ..
next
  case (Broke b)
  have "settles (\<lambda>k. onward (f k) (g k)) (Broke b, s)"
    by (rule settles_onward [OF assms(1)]) (simp_all add: Broke)
  then show ?thesis ..
next
  case Panicked
  have "settles (\<lambda>k. onward (f k) (g k)) (Panicked, s)"
    by (rule settles_onward [OF assms(1)]) (simp_all add: Panicked)
  then show ?thesis ..
qed

definition workers_end :: "others \<Rightarrow> bool" where
  "workers_end E \<longleftrightarrow>
     (\<exists>N. \<forall>i\<ge>N. \<forall>n. nursery_ok n \<longrightarrow> (\<forall>v\<in>set (handles (pool_of (moves E i n))). h_cell v \<noteq> Running))"

lemma sweep_turn: "turn (sh_world sh) \<le> turn (sh_world (snd (sweep E rd i hs r sh)))"
proof (induction hs arbitrary: sh i r)
  case (Cons h hs)
  let ?r = "access_pool E (\<lambda>_. rd h) sh"
  show ?case
    using Cons [of "snd ?r"] by (cases "fst ?r") (auto simp: case_prod_beta access_pool_parts intro: Suc_leD)
qed simp

lemma sweep_sees_none:
  assumes N: "\<forall>i\<ge>N. \<forall>n. nursery_ok n \<longrightarrow> (\<forall>v\<in>set (handles (pool_of (moves E i n))). h_cell v \<noteq> Running)"
    and "relies E" "faithful rd"
  shows "N \<le> turn (sh_world sh) \<Longrightarrow> sound_at sh \<Longrightarrow> \<forall>h\<in>set hs. has_handle h sh \<Longrightarrow>
           \<not> snd (fst (sweep E rd i hs False sh))"
proof (induction hs arbitrary: sh i)
  case (Cons h hs)
  let ?r = "access_pool E (\<lambda>_. rd h) sh"
  have on: "onwards sh (snd ?r)" by (rule reading_drifts [OF assms(2,3)])
  have "h < length (handles (pool_of (others_moved E sh)))"
    using others_moved_later [OF assms(2) Cons.prems(2)] Cons.prems(3)
    by (auto simp: has_handle_def pool_later_def)
  then have "h_cell (handles (pool_of (others_moved E sh)) ! h) \<noteq> Running"
    using N Cons.prems(1,2) by (auto simp: others_moved_def sound_at_def)
  then have "fst ?r \<noteq> SRunning ()"
    using assms(3) by (auto simp: faithful_def access_pool_parts)
  moreover have "\<not> snd (fst (sweep E rd (Suc i) hs False (snd ?r)))"
    using Cons.IH [of "snd ?r"] Cons.prems onwards_sound [OF on] has_later [OF _ on]
    by (auto simp: access_pool_parts)
  ultimately show ?case by (cases "fst ?r") (auto simp: case_prod_beta)
qed simp

lemma first_ready_returns:
  assumes N: "\<forall>i\<ge>N. \<forall>n. nursery_ok n \<longrightarrow> (\<forall>v\<in>set (handles (pool_of (moves E i n))). h_cell v \<noteq> Running)"
    and E: "relies E" "faithful rd"
  shows "N \<le> k + turn (sh_world sh) \<Longrightarrow> sound_at sh \<Longrightarrow> \<forall>h\<in>set hs. has_handle h sh \<Longrightarrow>
           first_ready (Suc k) E rd hs sh \<noteq> None"
proof (induction k arbitrary: sh)
  case 0
  let ?p = "shell_poll E sh" and ?s = "sweep E rd 0 hs False (snd (shell_poll E sh))"
  have p: "onwards sh (snd ?p)" by (rule poll_onwards [OF E(1)])
  have "\<not> snd (fst ?s)"
    using sweep_sees_none [OF N E, of "snd ?p" hs 0] 0 p onwards_sound [OF p] has_later [OF _ p]
    by (auto simp: onwards_def)
  then show ?case
    by (cases "fst ?p"; cases "fst (fst ?s)") (auto simp: onward_def case_prod_beta split: option.split)
next
  case (Suc k)
  let ?p = "shell_poll E sh" and ?s = "sweep E rd 0 hs False (snd (shell_poll E sh))"
  have p: "onwards sh (snd ?p)" by (rule poll_onwards [OF E(1)])
  have s: "onwards sh (snd ?s)" by (rule onwards_trans [OF p sweep_onwards [OF E]])
  have "Suc (turn (sh_world sh)) \<le> turn (sh_world (snd ?s))"
    using sweep_turn [of "snd ?p" E rd 0 hs False] by (simp add: shell_poll_def access_pool_parts)
  then have "first_ready (Suc k) E rd hs (snd ?s) \<noteq> None"
    using Suc.prems onwards_sound [OF s] has_later [OF _ s] by (intro Suc.IH) auto
  then show ?case
    by (cases "fst ?p"; cases "fst (fst ?s)")
      (auto simp: onward_def case_prod_beta first_ready.simps(2) [of "Suc k"] simp del: first_ready.simps(2)
        split: option.split)
qed

lemma claim_settles:
  assumes "workers_end E" "relies E" "sound_at sh" "\<forall>h\<in>set hs. has_handle h sh"
  obtains r where "settles (\<lambda>k. claim_first k E hs sh) r"
proof -
  obtain N where N: "\<forall>i\<ge>N. \<forall>n. nursery_ok n \<longrightarrow> (\<forall>v\<in>set (handles (pool_of (moves E i n))). h_cell v \<noteq> Running)"
    using assms(1) by (auto simp: workers_end_def)
  from first_ready_returns [OF N assms(2) claim_faithful, of N sh hs] assms(3,4)
  obtain r where "first_ready (Suc N) E claim_ready hs sh = Some r" by auto
  then have "settles (\<lambda>k. first_ready k E claim_ready hs sh) r"
    by (rule settlesI) (rule first_ready_more)
  with that show ?thesis by (simp add: claim_first_def)
qed

lemma join_settles:
  assumes "workers_end E" "relies E" "sound_at sh" "has_handle (fst h) sh"
  obtains r where "settles (\<lambda>k. join_handle k E h sh) r"
proof -
  have "\<forall>g\<in>set [fst h]. has_handle g sh" using assms(4) by simp
  from claim_settles [OF assms(1-3) this] obtain x s where
    x: "settles (\<lambda>k. claim_first k E [fst h] sh) (x, s)" by (metis prod.exhaust)
  have "\<exists>r. settles (\<lambda>k. join_handle k E h sh) r"
    unfolding join_handle_def
    by (rule settles_on [OF x]) (auto simp del: split_paired_Ex intro: exI settles_now split: option.split)
  with that show ?thesis by blast
qed

lemma join_each_settles:
  "workers_end E \<Longrightarrow> relies E \<Longrightarrow> sound_at sh \<Longrightarrow> \<forall>h\<in>set hs. has_handle h sh \<Longrightarrow>
     \<exists>r. settles (\<lambda>k. join_each k E hs sh) r"
proof (induction hs arbitrary: sh)
  case Nil
  then show ?case by (auto intro!: exI settles_now)
next
  case (Cons h hs)
  from join_settles [OF Cons.prems(1-3), of "(h, [])"] Cons.prems(4) obtain x s where
    x: "settles (\<lambda>k. join_handle k E (h, []) sh) (x, s)" by (metis fst_conv list.set_intros(1) prod.exhaust)
  obtain k where "join_handle k E (h, []) sh = Some (x, s)" using settles_some [OF x] by blast
  from join_onwards [OF Cons.prems(2) this] have on: "onwards sh s" .
  show ?case
    unfolding join_each.simps
    using Cons.IH [OF Cons.prems(1,2) onwards_sound [OF on Cons.prems(3)]] has_later [OF _ on Cons.prems(3)]
      Cons.prems(4)
    by (intro settles_on [OF x]) auto
qed

text \<open>The exit of any body, once its children end.\<close>

lemma exit_settles:
  assumes "workers_end E" "clock_runs E" "relies E" "sound_at sh" "has_brood b sh"
  shows "\<exists>r. settles (\<lambda>k. leave_brood k E b grace body sh) r"
proof -
  let ?c = "owner_close E b sh"
  have c: "onwards sh ?c" by (rule close_onwards [OF assms(3)])
  have ok: "sound_at ?c" by (rule onwards_sound [OF c assms(4)])
  obtain hs where hs: "closed_with b hs ?c" by (rule close_closes [OF assms(3-5)])
  note kids = closed_children [OF assms(3) ok hs]
  have okk: "sound_at (snd (owner_children E b ?c))"
    by (rule onwards_sound [OF children_onwards [OF assms(3)] ok])
  have "\<exists>r. settles (\<lambda>k. exit_joined k E b body ?c) r"
  proof (cases body)
    case (Inr v)
    obtain x s where x: "settles (\<lambda>k. join_each k E hs (snd (owner_children E b ?c))) (x, s)"
      using join_each_settles [OF assms(1,3) okk kids(3)] by (metis prod.exhaust)
    have "\<exists>r. settles (\<lambda>k. onward (join_each k E hs (snd (owner_children E b ?c))) (\<lambda>_ sh. Some (Done v, sh))) r"
      by (rule settles_on [OF x]) (auto intro: settles_now)
    then show ?thesis using Inr kids(1) by (simp add: exit_joined_def)
  qed (auto simp: exit_joined_def intro!: exI settles_now)
  then obtain x s where x: "settles (\<lambda>k. exit_joined k E b body ?c) (x, s)" by (metis prod.exhaust)
  then obtain i where i: "\<forall>k\<ge>i. exit_joined k E b body ?c = Some (x, s)" by (auto simp: settles_def)
  have "\<exists>r. settles (\<lambda>k. exit_brood k E b grace body sh) r"
  proof (cases x)
    case (Done v)
    obtain s' j where "\<forall>k\<ge>j. owner_drain k E b grace s = Some s'"
      using drain_settles [OF assms(2)] unfolding settles_def by blast
    with i Done have "\<forall>k\<ge>max i j. exit_brood k E b grace body sh = Some (Done v, s')"
      by (simp add: exit_brood_joined)
    then show ?thesis unfolding settles_def by blast
  next
    case (Broke e)
    obtain s' j where "\<forall>k\<ge>j. owner_end k E b grace s = Some s'"
      using end_settles [OF assms(2)] unfolding settles_def by blast
    with i Broke have "\<forall>k\<ge>max i j. exit_brood k E b grace body sh = Some (Broke e, s')"
      by (simp add: exit_brood_joined)
    then show ?thesis unfolding settles_def by blast
  next
    case Panicked
    with i have "\<forall>k\<ge>i. exit_brood k E b grace body sh = Some (Panicked, s)"
      by (simp add: exit_brood_joined)
    then show ?thesis unfolding settles_def by blast
  qed
  then obtain r where "settles (\<lambda>k. exit_brood k E b grace body sh) r" ..
  then show ?thesis unfolding leave_brood_def by (intro exI) (rule settles_map)
qed

chapter \<open>Births, races and bases\<close>

text \<open>
  A birth into a brood, a race and a worker's base: no birth slips past the exit that answers for it,
  and none of the three leaves running what it was given.
\<close>

section \<open>A poll never panics\<close>

definition scope_at :: "waiter \<Rightarrow> bool" where
  "scope_at sh \<longleftrightarrow> sh_scope sh < length (nodes (pool_at sh))"

lemma scope_later: "scope_at sh \<Longrightarrow> onwards sh sh' \<Longrightarrow> sound_at sh \<Longrightarrow> scope_at sh'"
  using onwards_later [of sh sh'] by (auto simp: scope_at_def onwards_def pool_later_def later_def)

lemma in_force_some: "pool_ok w \<Longrightarrow> n < length (nodes w) \<Longrightarrow> scope_in_force t (nodes w) n \<noteq> None"
  by (rule in_force_read [of "nodes w" n t]) (auto simp: pool_ok_def split: option.splits)

lemma poll_calm:
  assumes "relies E" "sound_at sh" "scope_at sh"
  shows "fst (shell_poll E sh) \<noteq> Panicked"
proof -
  have "nursery_ok (others_moved E sh)" "sh_scope sh < length (nodes (pool_of (others_moved E sh)))"
    using others_moved_later [OF assms(1,2)] assms(3) by (auto simp: scope_at_def pool_later_def later_def)
  then have "scope_in_force t (nodes (pool_of (others_moved E sh))) (sh_scope sh) \<noteq> None" for t
    by (intro in_force_some) (simp_all add: nursery_ok_def)
  then show ?thesis
    by (auto simp: shell_poll_def access_pool_parts split: option.split)
qed

lemma first_ready_calm:
  "relies E \<Longrightarrow> faithful rd \<Longrightarrow> sound_at sh \<Longrightarrow> scope_at sh \<Longrightarrow>
     first_ready k E rd hs sh = Some (r, sh') \<Longrightarrow> r \<noteq> Panicked"
proof (induction k arbitrary: sh)
  case (Suc k)
  let ?p = "shell_poll E sh" and ?s = "sweep E rd 0 hs False (snd (shell_poll E sh))"
  have s: "onwards sh (snd ?s)"
    by (rule onwards_trans [OF poll_onwards [OF Suc.prems(1)] sweep_onwards [OF Suc.prems(1,2)]])
  note IH = Suc.IH [OF Suc.prems(1,2) onwards_sound [OF s Suc.prems(3)] scope_later [OF Suc.prems(4) s Suc.prems(3)]]
  show ?case
    using poll_calm [OF Suc.prems(1,3,4)] Suc.prems(5) IH
    by (cases "fst ?p"; cases "fst (fst ?s)")
      (auto simp: onward_def case_prod_beta split: if_splits)
qed simp

section \<open>Races\<close>

lemma stop_and_drain_onwards:
  "relies E \<Longrightarrow> stop_and_drain k E hs g sh = Some sh' \<Longrightarrow> onwards (halt_each E hs sh) sh'"
  by (simp add: stop_and_drain_def wait_onwards)

lemma stop_and_drain_stops:
  assumes "relies E" "sound_at sh" "\<forall>h\<in>set hs. has_handle h sh" "stop_and_drain k E hs g sh = Some sh'"
  shows "\<forall>h\<in>set hs. stopped_at h sh'"
  using halt_each_stops [OF assms(1-3)] stop_and_drain_onwards [OF assms(1,4)]
    onwards_sound [OF halt_each_onwards [OF assms(1)] assms(2)]
  by (blast intro: stopped_later)

lemma race_stops:
  assumes E: "relies E" and ok: "sound_at sh" "scope_at sh"
    and hs: "handles_of ''race'' v = Inr hs" "\<forall>h\<in>set hs. has_handle (fst h) sh"
    and r: "builtin_race k E grace v sh = Some (r, sh')"
  shows "\<forall>h\<in>set hs. stopped_at (fst h) sh'"
proof -
  have has: "\<forall>h\<in>set (map fst hs). has_handle h sh" using hs(2) by auto
  obtain x s where x: "claim_first k E (map fst hs) sh = Some (x, s)"
    using r hs(1) by (cases "claim_first k E (map fst hs) sh") (auto simp: builtin_race_def)
  then have calm: "x \<noteq> Panicked"
    using first_ready_calm [OF E claim_faithful ok] by (simp add: claim_first_def)
  have s: "onwards sh s" using first_ready_onwards [OF E claim_faithful] x by (simp add: claim_first_def)
  obtain s' where s': "stop_and_drain k E (map fst hs) grace s = Some s'"
    using r hs(1) x calm
    by (cases "stop_and_drain k E (map fst hs) grace s") (auto simp: builtin_race_def split: flow.splits)
  have oks: "sound_at s" by (rule onwards_sound [OF s ok(1)])
  have st: "\<forall>h\<in>set (map fst hs). stopped_at h s'"
    using stop_and_drain_stops [OF E oks _ s'] has_later [OF _ s ok(1)] has by blast
  have "onwards s s'"
    by (rule onwards_trans [OF halt_each_onwards [OF E] stop_and_drain_onwards [OF E s']])
  then have oks': "sound_at s'" using oks by (rule onwards_sound)
  have "onwards s' sh'"
  proof (cases x)
    case (Done q)
    then show ?thesis
      using r hs(1) x s' exact_onwards [OF E]
      by (cases q) (auto simp: builtin_race_def onward_def prod_eq_iff)
  qed (use r hs(1) x s' calm in \<open>auto simp: builtin_race_def onward_def\<close>)
  with st oks' show ?thesis by (auto intro: stopped_later)
qed

section \<open>Enrolment\<close>

lemma access_onwards_at:
  assumes "relies E" "sound_at sh \<Longrightarrow> drifts (others_moved E sh) (snd (f (clock E (turn (sh_world sh))) (others_moved E sh)))"
  shows "onwards sh (snd (access E f sh))"
proof -
  have "drifts (nursery (sh_world sh)) (others_moved E sh)"
    using assms(1) by (simp add: relies_def others_moved_def)
  then have "drifts (nursery (sh_world sh)) (snd (f (clock E (turn (sh_world sh))) (others_moved E sh)))"
    using assms(2) drifts_trans by (auto simp: drifts_def sound_at_def)
  then show ?thesis by (simp add: onwards_def access_def others_moved_def Let_def case_prod_beta)
qed

lemma has_moved: "relies E \<Longrightarrow> sound_at sh \<Longrightarrow> has_handle h sh \<Longrightarrow> h < length (handles (pool_of (others_moved E sh)))"
  using others_moved_later [of E sh] by (auto simp: has_handle_def pool_later_def)

lemma enrol_step_onwards:
  "relies E \<Longrightarrow> has_handle h sh \<Longrightarrow> onwards sh (snd (access E (\<lambda>_. brood_enrol b h) sh))"
  by (rule access_onwards_at) (auto intro: drifts_enrol has_moved)

lemma enrol_onwards:
  assumes "relies E" "has_handle h sh"
  shows "onwards sh (snd (enrol E b h sh))"
proof -
  let ?a = "access E (\<lambda>_. brood_enrol b h) sh"
  have "onwards sh (snd ?a)" by (rule enrol_step_onwards [OF assms])
  then show ?thesis
    using halt_onwards [OF assms(1), of "snd ?a" h]
    by (cases "fst ?a") (auto simp: enrol_def case_prod_beta intro: onwards_trans)
qed

text \<open>One that is answered for: a child of the brood, forgotten as consumed, or stopped.\<close>

definition answered :: "nat \<Rightarrow> nat \<Rightarrow> waiter \<Rightarrow> bool" where
  "answered b h sh \<longleftrightarrow>
     has_handle h sh \<and>
     (h \<in> set (brood_children b (nursery (sh_world sh))) \<or> forgotten h (nursery (sh_world sh)) \<or> stopped_at h sh)"

lemma answered_later:
  assumes "answered b h sh" "onwards sh sh'" "sound_at sh" "has_brood b sh"
  shows "answered b h sh'"
proof -
  have p: "pool_later (pool_at sh) (pool_at sh')" by (rule onwards_later [OF assms(2,3)])
  have "brood_later b (nursery (sh_world sh)) (nursery (sh_world sh'))"
    using assms(2-4) by (auto simp: onwards_def drifts_def sound_at_def nursery_later_def has_brood_def)
  with assms p show ?thesis
    using forgotten_later [OF p, of h] stopped_later [OF _ assms(2,3), of h] has_later [OF _ assms(2,3), of h]
    by (auto simp: answered_def brood_later_def has_handle_def)
qed

lemma quiet_answered: "hushed b sh \<Longrightarrow> answered b h sh \<Longrightarrow> stopped_at h sh"
  by (auto simp: hushed_def answered_def forgotten_def handle_sample_def consumed_iff stopped_at_def has_handle_def)

lemma enrol_answers:
  assumes "relies E" "sound_at sh" "has_handle h sh" "has_brood b sh"
  shows "answered b h (snd (enrol E b h sh))"
proof -
  let ?a = "access E (\<lambda>_. brood_enrol b h) sh"
  have on: "onwards sh (snd ?a)" by (rule enrol_step_onwards [OF assms(1,3)])
  have b: "b < length (broods (others_moved E sh))"
    using assms(1,2,4)
    by (auto simp: relies_def drifts_def sound_at_def nursery_later_def others_moved_def has_brood_def
        intro: less_le_trans)
  have has: "has_handle h (snd ?a)" by (rule has_later [OF assms(3) on assms(2)])
  show ?thesis
  proof (cases "fst ?a")
    case True
    then have "h \<in> set (brood_children b (nursery (sh_world (snd ?a))))"
      using b by (auto simp: access_parts brood_enrol_def brood_children_def on_brood_def roll.push_adds split: if_splits)
    with True has show ?thesis by (simp add: enrol_def case_prod_beta answered_def)
  next
    case False
    have "stopped_at h (snd (halt_handle E h (snd ?a)))"
      by (rule halted_is_stopped [OF assms(1) onwards_sound [OF on assms(2)] has])
    with False show ?thesis
      by (auto simp: enrol_def case_prod_beta answered_def stopped_at_def has_handle_def)
  qed
qed

section \<open>Births\<close>

lemma roster_onwards: "relies E \<Longrightarrow> onwards sh (snd (access_roster E f sh))"
  unfolding access_roster_def by (rule access_onwards) (auto simp: drifts_roster case_prod_beta)

lemma child_writes: "u < length (nodes w) \<Longrightarrow> writes_scopes w (w\<lparr>nodes := snd (scope_child u (nodes w))\<rparr>)"
  by (intro writes_scopesI [OF _ refl] r_into_rtranclp scope_step.child)

lemma handle_new_pool:
  assumes "m < length (nodes w)" "pool_ok w"
  shows "pool_ok (snd (handle_new i t m now w)) \<and> pool_later w (snd (handle_new i t m now w))"
  using assms
  by (auto simp: handle_new_def pool_ok_def handle_ok_def cell_ended_def pool_later_def nth_append)

definition under_at :: "cradle \<Rightarrow> waiter \<Rightarrow> bool" where
  "under_at cr sh \<longleftrightarrow> cr_under cr < length (nodes (pool_at sh))"

lemma under_later: "under_at cr sh \<Longrightarrow> onwards sh sh' \<Longrightarrow> sound_at sh \<Longrightarrow> under_at cr sh'"
  using onwards_later [of sh sh'] by (auto simp: under_at_def pool_later_def later_def)

text \<open>The node minted is in the tree; the handle over it is in the pool.\<close>

definition minting :: "cradle \<Rightarrow> instant \<Rightarrow> rvalue pool \<Rightarrow> nat \<times> rvalue pool" where
  "minting cr t w = (let (m, ns) = scope_child (cr_under cr) (nodes w) in (m, w\<lparr>nodes := ns\<rparr>))"

lemma mint_onwards:
  assumes "relies E" "sound_at sh" "under_at cr sh"
  shows "onwards sh (snd (access_pool E (minting cr) sh))"
    and "fst (access_pool E (minting cr) sh) < length (nodes (pool_at (snd (access_pool E (minting cr) sh))))"
proof -
  have u: "cr_under cr < length (nodes (pool_of (others_moved E sh)))"
    using others_moved_later [OF assms(1,2)] assms(3) by (auto simp: under_at_def pool_later_def later_def)
  have "drifts (others_moved E sh) ((others_moved E sh)\<lparr>pool_of := snd (minting cr t (pool_of (others_moved E sh)))\<rparr>)" for t
    using child_writes [OF u]
    by (intro drifts_pool) (auto simp: minting_def case_prod_beta intro: writes_scopes_ok writes_scopes_later)
  then show "onwards sh (snd (access_pool E (minting cr) sh))"
    unfolding access_pool_def by (intro access_onwards_at assms(1)) (simp add: case_prod_beta)
  show "fst (access_pool E (minting cr) sh) < length (nodes (pool_at (snd (access_pool E (minting cr) sh))))"
    by (simp add: access_pool_parts minting_def case_prod_beta scope_child_def scope_mint_def)
qed

lemma new_onwards:
  assumes "relies E" "sound_at sh" "m < length (nodes (pool_at sh))"
  shows "onwards sh (snd (access_pool E (\<lambda>t. handle_new i said m t) sh))"
    and "has_handle (fst (access_pool E (\<lambda>t. handle_new i said m t) sh)) (snd (access_pool E (\<lambda>t. handle_new i said m t) sh))"
proof -
  have m: "m < length (nodes (pool_of (others_moved E sh)))"
    using others_moved_later [OF assms(1,2)] assms(3) by (auto simp: pool_later_def later_def)
  show "onwards sh (snd (access_pool E (\<lambda>t. handle_new i said m t) sh))"
    unfolding access_pool_def
    by (intro access_onwards_at assms(1)) (simp add: case_prod_beta drifts_pool handle_new_pool [OF m])
  show "has_handle (fst (access_pool E (\<lambda>t. handle_new i said m t) sh)) (snd (access_pool E (\<lambda>t. handle_new i said m t) sh))"
    by (simp add: access_pool_parts handle_new_def has_handle_def)
qed

lemma birth_onwards:
  assumes "relies E" "sound_at sh" "under_at cr sh"
  shows "onwards sh (snd (birth_handle E cr said i sh))"
    and "has_handle (fst (birth_handle E cr said i sh)) (snd (birth_handle E cr said i sh))"
proof -
  let ?m = "access_pool E (minting cr) sh"
  have b: "birth_handle E cr said i sh = access_pool E (\<lambda>t. handle_new i said (fst ?m) t) (snd ?m)"
    by (simp add: birth_handle_def minting_def [abs_def] case_prod_beta)
  note m = mint_onwards [OF assms]
  note n = new_onwards [OF assms(1) onwards_sound [OF m(1) assms(2)] m(2), of i said]
  show "onwards sh (snd (birth_handle E cr said i sh))"
    unfolding b by (rule onwards_trans [OF m(1) n(1)])
  show "has_handle (fst (birth_handle E cr said i sh)) (snd (birth_handle E cr said i sh))"
    unfolding b by (rule n(2))
qed

lemma spawn_answered:
  assumes E: "relies E" and ok: "sound_at sh" "under_at cr sh" "has_brood b sh"
    and b: "cr_brood cr = Some b"
    and r: "spawn_child E cap cr verb said i started sh = (Done h, sh')"
  shows "answered b h sh' \<and> onwards sh sh' \<and> has_brood b sh'"
proof -
  let ?s1 = "snd (access_roster E (\<lambda>_. reserve cap) sh)"
  let ?h = "fst (birth_handle E cr said i ?s1)" and ?s2 = "snd (birth_handle E cr said i ?s1)"
  let ?s3 = "file_entry E cr ?h ?s2"
  have o1: "onwards sh ?s1" by (rule roster_onwards [OF E])
  have ok1: "sound_at ?s1" "under_at cr ?s1"
    using onwards_sound [OF o1 ok(1)] under_later [OF ok(2) o1 ok(1)] by auto
  note o2 = birth_onwards [OF E ok1, of said i]
  have ok2: "sound_at ?s2" by (rule onwards_sound [OF o2(1) ok1(1)])
  have o3: "onwards ?s2 ?s3" unfolding file_entry_def Let_def by (rule roster_onwards [OF E])
  have ok3: "sound_at ?s3" "has_handle ?h ?s3"
    using onwards_sound [OF o3 ok2] has_later [OF o2(2) o3 ok2] by auto
  have all: "onwards sh ?s3" using o1 o2(1) o3 by (blast intro: onwards_trans)
  have b3: "has_brood b ?s3" by (rule brood_stays [OF ok(3) all ok(1)])
  have e: "h = ?h" "sh' = snd (enrol E b ?h ?s3)"
    using r b
    by (auto simp: spawn_child_def case_prod_beta Let_def split: sum.splits if_splits bool.splits)
  have o4: "onwards ?s3 sh'" unfolding e(2) by (rule enrol_onwards [OF E ok3(2)])
  with all have "onwards sh sh'" by (rule onwards_trans)
  with enrol_answers [OF E ok3 b3] b3 o4 ok3(1) show ?thesis
    unfolding e by (auto intro: brood_stays)
qed

section \<open>A worker's base\<close>

lemma stop_after:
  "relies E \<Longrightarrow> sound_at s \<Longrightarrow> has_brood b s \<Longrightarrow> onwards s s' \<Longrightarrow> hushed b (owner_stop E b s')"
  by (intro stop_quiets) (auto intro: onwards_sound brood_stays)

lemma settle_quiets:
  assumes "relies E" "sound_at s" "has_brood b s" "worker_settle k E grace home session panic b body s = Some (e, s')"
  shows "hushed b s'"
proof -
  obtain r s1 where r: "exit_brood k E b grace body s = Some (r, s1)"
    using assms(4) by (cases "exit_brood k E b grace body s") (auto simp: worker_settle_def)
  have o1: "onwards s s1" by (rule exit_onwards [OF assms(1) r])
  let ?p = "access_pool E (\<lambda>t w. (scope_in_force (mono_at t) (nodes w) home, w)) s1"
  have o2: "onwards s (snd ?p)" by (rule onwards_trans [OF o1 reading_onwards [OF assms(1)]])
  have "s' = owner_stop E b s1 \<or> s' = owner_stop E b (snd ?p)"
    using assms(4) r
    by (cases r; cases "fst ?p") (auto simp: worker_settle_def case_prod_beta Let_def split: option.splits)
  with stop_after [OF assms(1-3) o1] stop_after [OF assms(1-3) o2] show ?thesis by auto
qed

lemma base_quiets:
  assumes "relies E" "sound_at sh" "\<And>b s. onwards s (snd (body b s))"
    and "worker_base k E grace home session panic i body sh = Some (e, sh')"
  shows "\<exists>b. \<not> has_brood b sh \<and> hushed b sh'"
proof -
  let ?n = "access E (\<lambda>_. owner_new (OfWorkerBody i)) sh"
  let ?b = "fst ?n" and ?s = "snd ?n"
  have on: "onwards sh ?s" by (rule access_onwards [OF assms(1) drifts_owner_new])
  have ok: "sound_at ?s" by (rule onwards_sound [OF on assms(2)])
  have b: "has_brood ?b ?s" by (simp add: has_brood_def access_parts owner_new_def)
  have "length (broods (nursery (sh_world sh))) \<le> length (broods (others_moved E sh))"
    using assms(1,2) by (auto simp: relies_def drifts_def sound_at_def nursery_later_def others_moved_def)
  then have new: "\<not> has_brood ?b sh" by (simp add: has_brood_def access_parts owner_new_def)
  let ?w = "body ?b ?s"
  have w: "onwards ?s (snd ?w)" "sound_at (snd ?w)" "has_brood ?b (snd ?w)"
    using assms(3) onwards_sound [OF assms(3) ok] brood_stays [OF b assms(3) ok] by auto
  have "hushed ?b sh'"
    using assms(4) settle_quiets [OF assms(1) w(2,3)] stop_after [OF assms(1) ok b w(1)]
    by (cases "fst ?w") (auto simp: worker_base_def case_prod_beta)
  with new show ?thesis by blast
qed

lemma leave_stays_quiet:
  assumes "relies E" "sound_at sh" "has_brood b sh" "leave_brood k E b grace body sh = Some (r, sh')" "onwards sh' sh''"
  shows "hushed b sh''"
proof -
  obtain s where s: "exit_brood k E b grace body sh = Some (r, s)" "sh' = owner_stop E b s"
    using assms(4) by (auto simp: leave_brood_def)
  have "onwards sh sh'"
    unfolding s(2) by (rule onwards_trans [OF exit_onwards [OF assms(1) s(1)] stop_onwards [OF assms(1)]])
  then have "sound_at sh'" using assms(2) by (rule onwards_sound)
  with leave_quiets [OF assms(1-4)] assms(5) show ?thesis by (rule quiet_later)
qed

end
