(* ===== verification/Worker_Cap.thy ===== *)
theory Worker_Cap
  imports Worker_Registry "HOL-Library.Sublist"
begin

text \<open>
  Admission and retention over every order of births, ends and reads of one registry: seats held
  beside live entries keep the workers there are within the cap, and a sweep reaps only a result
  nobody is going to join.
\<close>

section \<open>A registry and its seats\<close>

definition live_at :: "'v pool \<Rightarrow> nat \<Rightarrow> bool" where
  "live_at w h \<longleftrightarrow> is_live (handle_sample h w)"

definition live_entries :: "'v pool \<Rightarrow> registry \<Rightarrow> worker_entry list" where
  "live_entries w g = filter (\<lambda>e. live_at w (e_handle e)) (c_items (r_entries g))"

lemma live_cell: "live_at w h \<longleftrightarrow> cell_ended (h_cell (handles w ! h)) = None"
  by (auto simp: live_at_def is_live_def handle_sample_def cell_sample_def cell_ended_def
      split: cell.splits option.splits)

lemma live_earlier: "pool_later w w' \<Longrightarrow> h < length (handles w) \<Longrightarrow> live_at w' h \<Longrightarrow> live_at w h"
  unfolding live_cell pool_later_def handle_later_def
  by (metis later_ended not_Some_eq option.simps(3))

text \<open>
  Who holds what: the pool, the registry, the seats reserved with no handle yet, and the handles born
  whose entry is still to be filed.
\<close>

record 'v staff =
  st_pool :: "'v pool"
  st_registry :: registry
  st_seats :: nat
  st_born :: "nat list"

definition not_born :: "'v deed \<Rightarrow> bool" where
  "not_born a \<longleftrightarrow> (case a of Born _ _ _ _ \<Rightarrow> False | _ \<Rightarrow> True)"

text \<open>Every birth reserves under a cap of \<open>c\<close> at most; the wipe is left out.\<close>

inductive staff_step :: "nat \<Rightarrow> 'v staff \<Rightarrow> 'v staff \<Rightarrow> bool" for c where
  acted: "deed_ok a (st_pool s) \<Longrightarrow> not_born a \<Longrightarrow>
     staff_step c s (s\<lparr>st_pool := worker_act a (st_pool s)\<rparr>)"
| admitted: "reserve (Some k) (st_pool s) (st_registry s) = (Inr (), g) \<Longrightarrow> k \<le> c \<Longrightarrow>
     staff_step c s (s\<lparr>st_registry := g, st_seats := Suc (st_seats s)\<rparr>)"
| refused: "reserve (Some k) (st_pool s) (st_registry s) = (Inl k, g) \<Longrightarrow>
     staff_step c s (s\<lparr>st_registry := g\<rparr>)"
| returned: "st_seats s = Suc n \<Longrightarrow>
     staff_step c s (s\<lparr>st_registry := release_seat (st_registry s), st_seats := n\<rparr>)"
| born: "st_seats s = Suc n \<Longrightarrow> deed_ok (Born i t m now) (st_pool s) \<Longrightarrow>
     i \<notin> h_id ` set (handles (st_pool s)) \<Longrightarrow>
     staff_step c s
       (s\<lparr>st_pool := worker_act (Born i t m now) (st_pool s), st_seats := n,
          st_born := length (handles (st_pool s)) # st_born s\<rparr>)"
| failed: "h \<in> set (st_born s) \<Longrightarrow> \<not> live_at (st_pool s) h \<Longrightarrow>
     staff_step c s (s\<lparr>st_registry := release_seat (st_registry s), st_born := remove1 h (st_born s)\<rparr>)"
| filed: "e_handle e \<in> set (st_born s) \<Longrightarrow>
     staff_step c s
       (s\<lparr>st_registry := register e (st_pool s) (st_registry s), st_born := remove1 (e_handle e) (st_born s)\<rparr>)"
| read: "staff_step c s (s\<lparr>st_registry := registry_retained (st_pool s) (st_registry s)\<rparr>)"
| swept: "staff_step c s (s\<lparr>st_registry := sweep_retention (st_pool s) (st_registry s)\<rparr>)"
| ticked: "staff_step c s (s\<lparr>st_registry := tick_epoch (st_registry s)\<rparr>)"
| armed: "staff_step c s (s\<lparr>st_registry := arm_retention r (st_registry s)\<rparr>)"
| drained: "staff_step c s (s\<lparr>st_registry := snd (take_reap_notices (st_registry s))\<rparr>)"

definition staff_new :: "'v pool \<Rightarrow> 'v staff" where
  "staff_new w = \<lparr>st_pool = w, st_registry = registry_new, st_seats = 0, st_born = []\<rparr>"

section \<open>The invariant\<close>

definition filed_handles :: "registry \<Rightarrow> nat list" where
  "filed_handles g = map e_handle (c_items (r_entries g))"

definition staff_ok :: "nat \<Rightarrow> 'v staff \<Rightarrow> bool" where
  "staff_ok c s \<longleftrightarrow>
     (let w = st_pool s; g = st_registry s
      in r_reserved g = st_seats s + length (st_born s)
         \<and> length (live_entries w g) + r_reserved g \<le> c
         \<and> distinct (filed_handles g @ st_born s)
         \<and> (\<forall>h\<in>set (filed_handles g @ st_born s). h < length (handles w))
         \<and> (\<forall>h<length (handles w). live_at w h \<longrightarrow> h \<in> set (filed_handles g @ st_born s))
         \<and> distinct (map h_id (handles w)))"

text \<open>A registry that lost only entries that are not live.\<close>

definition thins :: "'v pool \<Rightarrow> registry \<Rightarrow> registry \<Rightarrow> bool" where
  "thins w g g' \<longleftrightarrow>
     r_reserved g' = r_reserved g \<and> subseq (filed_handles g') (filed_handles g)
     \<and> map e_handle (live_entries w g') = map e_handle (live_entries w g)"

lemma subseq_thinner: "subseq xs ys \<Longrightarrow> set xs \<subseteq> set ys \<and> (distinct ys \<longrightarrow> distinct xs)"
  by (induction rule: list_emb.induct) auto

lemma thins_keeps:
  assumes "thins w g g'" "staff_ok c s" "st_pool s = w" "st_registry s = g"
  shows "staff_ok c (s\<lparr>st_registry := g'\<rparr>)"
proof -
  have sub: "set (filed_handles g') \<subseteq> set (filed_handles g)" "distinct (filed_handles g) \<Longrightarrow> distinct (filed_handles g')"
    using assms(1) subseq_thinner by (auto simp: thins_def)
  have len: "length (live_entries w g') = length (live_entries w g)"
    using assms(1) by (metis length_map thins_def)
  have stay: "h \<in> set (filed_handles g')" if "h \<in> set (filed_handles g)" "live_at w h" for h
  proof -
    have "h \<in> set (map e_handle (live_entries w g))"
      using that by (auto simp: filed_handles_def live_entries_def)
    then have "h \<in> set (map e_handle (live_entries w g'))" using assms(1) by (simp add: thins_def)
    then show ?thesis by (auto simp: filed_handles_def live_entries_def)
  qed
  from assms(2-4) have res: "r_reserved g = st_seats s + length (st_born s)"
    "length (live_entries w g) + r_reserved g \<le> c" "distinct (map h_id (handles w))"
    by (simp_all add: staff_ok_def Let_def)
  from assms(2-4) have ok: "distinct (filed_handles g @ st_born s)"
    "\<forall>h\<in>set (filed_handles g @ st_born s). h < length (handles w)"
    "\<forall>h<length (handles w). live_at w h \<longrightarrow> h \<in> set (filed_handles g @ st_born s)"
    by (simp_all add: staff_ok_def Let_def)
  from ok(1) sub have "distinct (filed_handles g' @ st_born s)" by auto
  moreover from ok(2) sub(1) have "\<forall>h\<in>set (filed_handles g' @ st_born s). h < length (handles w)" by auto
  moreover from ok(3) stay have "\<forall>h<length (handles w). live_at w h \<longrightarrow> h \<in> set (filed_handles g' @ st_born s)"
    by auto
  moreover have "r_reserved g' = r_reserved g" using assms(1) by (simp add: thins_def)
  ultimately show ?thesis
    unfolding staff_ok_def Let_def using res len assms(3) by simp
qed

lemma pruned_thins: "thins w g (g\<lparr>r_entries := compacting_prune e_handle w (r_entries g)\<rparr>)"
proof -
  have "subseq (map e_handle (filter P xs)) (map e_handle xs)" for P and xs :: "worker_entry list"
    by (simp add: subseq_map)
  moreover have "filter (\<lambda>e. live_at w (e_handle e)) (filter (\<lambda>e. handle_sample (e_handle e) w \<noteq> SConsumed) xs)
    = filter (\<lambda>e. live_at w (e_handle e)) xs" for xs :: "worker_entry list"
    by (induction xs) (auto simp: live_at_def is_live_def)
  ultimately show ?thesis
    by (simp add: thins_def filed_handles_def live_entries_def compacting_prune_def Let_def del: filter_filter)
qed

lemma retained_thins: "thins w g (registry_retained w g)"
  by (simp add: registry_retained_def pruned_thins)

lemma observed_live:
  "length (filter is_live (compacting_observed e_handle w (r_entries g))) = length (live_entries w g)"
  by (simp add: compacting_observed_def live_entries_def live_at_def filter_map comp_def)

section \<open>Every step keeps it\<close>

lemma verdict_handle [simp]: "e_handle (snd (verdict epoch r held e)) = e_handle e"
  by (auto simp: verdict_def split: option.split)

text \<open>With ids that tell handles apart, an entry whose id is among the ready ones is ready.\<close>

lemma ready_entry:
  assumes "distinct (map h_id (handles w))" "\<forall>x\<in>set es. e_handle x < length (handles w)" "e \<in> set es"
    and "h_id (handles w ! e_handle e) \<in> set (ids_with p w es)"
  shows "p (handle_sample (e_handle e) w)"
proof -
  obtain x where x: "x \<in> set es" "p (handle_sample (e_handle x) w)"
    "h_id (handles w ! e_handle x) = h_id (handles w ! e_handle e)"
    using assms(4) by (auto simp: ids_with_def)
  then have "e_handle x = e_handle e"
    using assms(1-3) nth_eq_iff_index_eq [OF assms(1), of "e_handle x" "e_handle e"] by simp
  with x(2) show ?thesis by simp
qed

lemma swept_thins:
  assumes "distinct (map h_id (handles w))" "\<forall>h\<in>set (filed_handles g). h < length (handles w)"
  shows "thins w g (sweep_retention w g)"
proof (cases "r_retention g")
  case None
  then show ?thesis using retained_thins by (simp add: sweep_retention_def Let_def registry_retained_def)
next
  case (Some retention)
  define g1 where "g1 = registry_retained w g"
  define es where "es = c_items (r_entries g1)"
  define ready where "ready = ids_with (\<lambda>s. s = SReady ()) w es"
  define alive where "alive = ids_with is_live w es"
  define v where "v = (\<lambda>e. verdict (r_epoch g1) retention (entry_held ready alive w e) e)"
  have thin1: "thins w g g1" unfolding g1_def by (rule retained_thins)
  have sub: "set es \<subseteq> set (c_items (r_entries g))"
    by (auto simp: es_def g1_def registry_retained_def compacting_prune_def Let_def)
  have swept: "c_items (r_entries (sweep_retention w g)) = map snd (filter (\<lambda>v. \<not> fst v) (map v es))"
    "r_reserved (sweep_retention w g) = r_reserved g"
    using Some
    by (simp_all add: sweep_retention_def Let_def g1_def es_def v_def ready_def alive_def registry_retained_def)
  have range: "\<forall>x\<in>set es. e_handle x < length (handles w)"
    using assms(2) sub by (auto simp: filed_handles_def)
  have stays: "\<not> fst (v e)" if "e \<in> set es" "live_at w (e_handle e)" for e
  proof -
    have "h_id (handles w ! e_handle e) \<notin> set ready"
      using ready_entry [OF assms(1) range that(1), of "\<lambda>s. s = SReady ()"] that(2)
      by (auto simp: ready_def live_at_def is_live_def)
    then show ?thesis by (simp add: v_def verdict_def entry_held_def)
  qed
  have "subseq (map e_handle (map snd (filter (\<lambda>v. \<not> fst v) (map v xs)))) (map e_handle xs)" for xs
    by (induction xs) (auto simp: v_def)
  moreover have "set xs \<subseteq> set es \<Longrightarrow>
      map e_handle (filter (\<lambda>e. live_at w (e_handle e)) (map snd (filter (\<lambda>v. \<not> fst v) (map v xs)))) =
      map e_handle (filter (\<lambda>e. live_at w (e_handle e)) xs)" for xs
    by (induction xs) (use stays in \<open>auto simp: v_def\<close>)
  ultimately have "subseq (filed_handles (sweep_retention w g)) (map e_handle es)"
    "map e_handle (live_entries w (sweep_retention w g)) = map e_handle (filter (\<lambda>e. live_at w (e_handle e)) es)"
    by (simp_all add: filed_handles_def live_entries_def swept(1))
  with thin1 show ?thesis
    by (auto simp: thins_def swept(2) es_def filed_handles_def live_entries_def intro: subseq_order.trans)
qed

text \<open>An act moves handles forward: what is live after was live before.\<close>

lemma not_born_handles: "not_born a \<Longrightarrow> length (handles (worker_act a w)) = length (handles w)"
  by (cases a)
    (auto simp: not_born_def worker_write_def permit_finish_def permit_drop_def claim_ready_def claim_and_stop_def
      split: cell.split option.split)

lemma later_ids:
  "pool_later w w' \<Longrightarrow> length (handles w') = length (handles w) \<Longrightarrow> map h_id (handles w') = map h_id (handles w)"
  by (auto simp: pool_later_def handle_later_def intro: nth_equalityI)

lemma length_filter_weaker: "(\<And>x. x \<in> set xs \<Longrightarrow> P x \<Longrightarrow> Q x) \<Longrightarrow> length (filter P xs) \<le> length (filter Q xs)"
  by (induction xs) (auto simp: le_SucI)

lemma acted_keeps:
  assumes "deed_ok a (st_pool s)" "not_born a" "staff_ok c s"
  shows "staff_ok c (s\<lparr>st_pool := worker_act a (st_pool s)\<rparr>)"
proof -
  let ?w = "st_pool s" and ?w' = "worker_act a (st_pool s)"
  have later: "pool_later ?w ?w'" by (rule act_later [OF assms(1)])
  have len: "length (handles ?w') = length (handles ?w)" by (rule not_born_handles [OF assms(2)])
  have live: "live_at ?w h" if "h < length (handles ?w)" "live_at ?w' h" for h
    by (rule live_earlier [OF later that])
  have "length (live_entries ?w' (st_registry s)) \<le> length (live_entries ?w (st_registry s))"
    unfolding live_entries_def
    by (rule length_filter_weaker)
      (use assms(3) live in \<open>auto simp: staff_ok_def Let_def filed_handles_def\<close>)
  then show ?thesis
    using assms(3) live len later_ids [OF later len] by (auto simp: staff_ok_def Let_def)
qed

lemma reserve_thins:
  assumes "reserve (Some k) w g = (r, g')"
  shows "thins w g (g'\<lparr>r_reserved := r_reserved g\<rparr>)"
    and "r = Inr () \<Longrightarrow> r_reserved g' = Suc (r_reserved g) \<and> length (live_entries w g) + r_reserved g < k"
    and "r = Inl k \<Longrightarrow> r_reserved g' = r_reserved g"
  using assms pruned_thins [of w g]
  by (auto simp: reserve_def Let_def observed_live thins_def filed_handles_def live_entries_def split: if_splits)

text \<open>A seat more or less of an otherwise well-formed staff.\<close>

lemma seats_keep:
  assumes "staff_ok c s" "r_reserved g = n + length (st_born s)" "length (live_entries (st_pool s) g) + r_reserved g \<le> c"
    and "filed_handles g = filed_handles (st_registry s)"
  shows "staff_ok c (s\<lparr>st_registry := g, st_seats := n\<rparr>)"
  using assms by (simp add: staff_ok_def Let_def)

lemma admitted_keeps:
  assumes "reserve (Some k) (st_pool s) (st_registry s) = (Inr (), g)" "k \<le> c" "staff_ok c s"
  shows "staff_ok c (s\<lparr>st_registry := g, st_seats := Suc (st_seats s)\<rparr>)"
proof -
  let ?g = "g\<lparr>r_reserved := r_reserved (st_registry s)\<rparr>"
  note r = reserve_thins [OF assms(1)]
  have ok: "staff_ok c (s\<lparr>st_registry := ?g\<rparr>)" by (rule thins_keeps [OF r(1) assms(3) refl refl])
  have res: "r_reserved g = Suc (r_reserved (st_registry s))"
    "length (live_entries (st_pool s) (st_registry s)) + r_reserved (st_registry s) < k"
    using r(2) by auto
  have "length (live_entries (st_pool s) g) = length (live_entries (st_pool s) (st_registry s))"
    using r(1) by (metis (no_types, lifting) length_map live_entries_def registry.select_convs(1)
        registry.surjective registry.update_convs(3) thins_def)
  moreover have "r_reserved (st_registry s) = st_seats s + length (st_born s)"
    using assms(3) by (simp add: staff_ok_def Let_def)
  moreover have "filed_handles g = filed_handles ?g" by (simp add: filed_handles_def)
  ultimately show ?thesis
    using seats_keep [OF ok, of g "Suc (st_seats s)"] res assms(2) by simp
qed

lemma released_entries [simp]:
  "filed_handles (release_seat g) = filed_handles g" "live_entries w (release_seat g) = live_entries w g"
  "r_reserved (release_seat g) = r_reserved g - 1"
  by (simp_all add: release_seat_def filed_handles_def live_entries_def)

lemma born_keeps:
  assumes "st_seats s = Suc n" "deed_ok (Born i t m now) (st_pool s)" "i \<notin> h_id ` set (handles (st_pool s))"
    and "staff_ok c s"
  shows "staff_ok c (s\<lparr>st_pool := worker_act (Born i t m now) (st_pool s), st_seats := n,
           st_born := length (handles (st_pool s)) # st_born s\<rparr>)"
proof -
  let ?w = "st_pool s" and ?w' = "worker_act (Born i t m now) (st_pool s)" and ?g = "st_registry s"
  define v where "v = last (handles ?w')"
  have v: "handles ?w' = handles ?w @ [v]" "h_id v = i"
    by (simp_all add: v_def handle_new_def case_prod_beta)
  have old: "live_at ?w' h = live_at ?w h" if "h < length (handles ?w)" for h
    using that by (simp add: live_cell v(1) nth_append del: worker_act.simps)
  have known: "\<forall>h\<in>set (filed_handles ?g @ st_born s). h < length (handles ?w)"
    using assms(4) by (simp add: staff_ok_def Let_def)
  then have "live_entries ?w' ?g = live_entries ?w ?g"
    unfolding live_entries_def by (intro filter_cong) (auto simp: filed_handles_def old simp del: worker_act.simps)
  moreover have "length (handles ?w) \<notin> set (filed_handles ?g @ st_born s)" using known by blast
  moreover have "h \<in> set (filed_handles ?g @ length (handles ?w) # st_born s)"
    if "h < length (handles ?w')" "live_at ?w' h" for h
    using that old assms(4) by (auto simp: staff_ok_def Let_def v(1) less_Suc_eq simp del: worker_act.simps)
  ultimately show ?thesis
    using assms known v by (auto simp: staff_ok_def Let_def less_SucI simp del: worker_act.simps)
qed

lemma failed_keeps:
  assumes "h \<in> set (st_born s)" "\<not> live_at (st_pool s) h" "staff_ok c s"
  shows "staff_ok c (s\<lparr>st_registry := release_seat (st_registry s), st_born := remove1 h (st_born s)\<rparr>)"
proof -
  obtain n where "length (st_born s) = Suc n"
    using assms(1) by (cases "length (st_born s)") auto
  with assms show ?thesis by (auto simp: staff_ok_def Let_def length_remove1)
qed

text \<open>The entry filed goes after what the list kept.\<close>

lemma register_cases:
  assumes "handle_sample (e_handle e) w \<noteq> SConsumed"
  obtains g' where "thins w g g'" "register e w g = release_seat (g'\<lparr>r_entries := (r_entries g')\<lparr>c_items := c_items (r_entries g') @ [e]\<rparr>\<rparr>)"
proof (cases "c_sweep_at (r_entries g) \<le> length (c_items (r_entries g))")
  case True
  with assms that [OF pruned_thins] show ?thesis
    by (simp add: register_def Let_def compacting_push_def release_seat_def)
next
  case False
  have "thins w g g" by (simp add: thins_def)
  from that [OF this] False assms show ?thesis
    by (simp add: register_def Let_def compacting_push_def release_seat_def)
qed

lemma filed_keeps:
  assumes "e_handle e \<in> set (st_born s)" "staff_ok c s"
  shows "staff_ok c
           (s\<lparr>st_registry := register e (st_pool s) (st_registry s), st_born := remove1 (e_handle e) (st_born s)\<rparr>)"
proof (cases "handle_sample (e_handle e) (st_pool s) = SConsumed")
  case True
  then have "\<not> live_at (st_pool s) (e_handle e)" by (simp add: live_at_def is_live_def)
  with failed_keeps [OF assms(1) _ assms(2)] True show ?thesis by (simp add: register_def Let_def)
next
  case False
  obtain g' where g': "thins (st_pool s) (st_registry s) g'"
    "register e (st_pool s) (st_registry s) =
       release_seat (g'\<lparr>r_entries := (r_entries g')\<lparr>c_items := c_items (r_entries g') @ [e]\<rparr>\<rparr>)"
    by (rule register_cases [OF False])
  have ok: "staff_ok c (s\<lparr>st_registry := g'\<rparr>)" by (rule thins_keeps [OF g'(1) assms(2) refl refl])
  have new: "filed_handles (g'\<lparr>r_entries := (r_entries g')\<lparr>c_items := c_items (r_entries g') @ [e]\<rparr>\<rparr>) = filed_handles g' @ [e_handle e]"
    "length (live_entries (st_pool s) (g'\<lparr>r_entries := (r_entries g')\<lparr>c_items := c_items (r_entries g') @ [e]\<rparr>\<rparr>))
       \<le> Suc (length (live_entries (st_pool s) g'))"
    by (simp_all add: filed_handles_def live_entries_def)
  obtain n where "length (st_born s) = Suc n"
    using assms(1) by (cases "length (st_born s)") auto
  with ok new assms(1) show ?thesis
    unfolding g'(2) by (auto simp: staff_ok_def Let_def length_remove1)
qed

lemma plain_keeps:
  "staff_ok c s \<Longrightarrow> r_entries g = r_entries (st_registry s) \<Longrightarrow> r_reserved g = r_reserved (st_registry s) \<Longrightarrow>
     staff_ok c (s\<lparr>st_registry := g\<rparr>)"
  by (simp add: staff_ok_def Let_def filed_handles_def live_entries_def)

lemma staff_step_ok: "staff_step c s s' \<Longrightarrow> staff_ok c s \<Longrightarrow> staff_ok c s'"
proof (induction rule: staff_step.induct)
  case (refused k s g)
  note r = reserve_thins [OF refused.hyps]
  have "g\<lparr>r_reserved := r_reserved (st_registry s)\<rparr> = g" using r(3) by simp
  with thins_keeps [OF r(1) refused.prems refl refl] show ?case by simp
next
  case (returned s n)
  then show ?case by (auto simp: staff_ok_def Let_def)
next
  case (swept s)
  then have "thins (st_pool s) (st_registry s) (sweep_retention (st_pool s) (st_registry s))"
    by (intro swept_thins) (auto simp: staff_ok_def Let_def)
  with swept show ?case by (intro thins_keeps [OF _ _ refl refl])
next
  case (read s)
  then show ?case by (intro thins_keeps [OF retained_thins _ refl refl])
qed (auto intro: acted_keeps admitted_keeps born_keeps failed_keeps filed_keeps plain_keeps
    simp: tick_epoch_def arm_retention_def take_reap_notices_def simp del: worker_act.simps)

lemma staff_steps_ok: "(staff_step c)\<^sup>*\<^sup>* s s' \<Longrightarrow> staff_ok c s \<Longrightarrow> staff_ok c s'"
  by (induction rule: rtranclp_induct) (auto intro: staff_step_ok)

lemma staff_new_ok: "staff_ok c (staff_new \<lparr>handles = [], nodes = ns\<rparr>)"
  by (simp add: staff_ok_def staff_new_def registry_new_def live_entries_def filed_handles_def compacting_new_def)

text \<open>What a well-formed staff has live is entered or about to be, and counted.\<close>

lemma staff_ok_cap:
  assumes "staff_ok c s"
  shows "card {h. h < length (handles (st_pool s)) \<and> live_at (st_pool s) h} \<le> c"
proof -
  let ?L = "map e_handle (live_entries (st_pool s) (st_registry s))"
  have "{h. h < length (handles (st_pool s)) \<and> live_at (st_pool s) h} \<subseteq> set (?L @ st_born s)"
    using assms by (auto simp: staff_ok_def Let_def live_entries_def filed_handles_def)
  then have "card {h. h < length (handles (st_pool s)) \<and> live_at (st_pool s) h} \<le> length (?L @ st_born s)"
    by (meson List.finite_set card_length card_mono le_trans)
  also have "\<dots> \<le> c" using assms by (auto simp: staff_ok_def Let_def)
  finally show ?thesis .
qed

section \<open>What a sweep reaps\<close>

lemma reaped_ready:
  assumes "distinct (map h_id (handles w))" "\<forall>h\<in>set (filed_handles g). h < length (handles w)"
    and "r_retention g = Some retention" "e \<in> set (c_items (r_entries g))"
    and "e_handle e \<notin> set (filed_handles (sweep_retention w g))"
  shows "handle_sample (e_handle e) w = SConsumed \<or>
     handle_sample (e_handle e) w = SReady () \<and> e_owner e \<noteq> OwnGather \<and>
     (\<exists>s. e_settled e = Some s \<and> retention \<le> r_epoch g - s) \<and>
     \<not> (\<exists>x\<in>set (c_items (r_entries g)). e_owner e = OwnWorker (h_id (handles w ! e_handle x)) \<and> live_at w (e_handle x))"
proof (cases "handle_sample (e_handle e) w = SConsumed")
  case False
  define es where "es = filter (\<lambda>x. handle_sample (e_handle x) w \<noteq> SConsumed) (c_items (r_entries g))"
  define ready where "ready = ids_with (\<lambda>s. s = SReady ()) w es"
  define alive where "alive = ids_with is_live w es"
  have e: "e \<in> set es" using False assms(4) by (simp add: es_def)
  have range: "\<forall>x\<in>set es. e_handle x < length (handles w)"
    using assms(2) by (auto simp: es_def filed_handles_def)
  have "filed_handles (sweep_retention w g) =
      map e_handle (map snd (filter (\<lambda>v. \<not> fst v)
        (map (\<lambda>e. verdict (r_epoch g) retention (entry_held ready alive w e) e) es)))"
    using assms(3)
    by (simp add: sweep_retention_def Let_def registry_retained_def compacting_prune_def filed_handles_def
        es_def ready_def alive_def)
  with assms(5) e have v: "fst (verdict (r_epoch g) retention (entry_held ready alive w e) e)"
    by force
  then have h: "\<not> entry_held ready alive w e" "\<exists>s. e_settled e = Some s \<and> retention \<le> r_epoch g - s"
    by (auto simp: verdict_def split: if_splits option.splits)
  have "handle_sample (e_handle e) w = SReady ()"
    using ready_entry [OF assms(1) range e, of "\<lambda>s. s = SReady ()"] h(1)
    by (auto simp: entry_held_def ready_def)
  moreover have "h_id (handles w ! e_handle x) \<in> set alive"
    if "x \<in> set (c_items (r_entries g))" "live_at w (e_handle x)" for x
    using that by (auto simp: alive_def ids_with_def es_def live_at_def is_live_def)
  ultimately show ?thesis using h by (fastforce simp: entry_held_def)
qed simp

end
