(* ===== verification/Worker_Properties.thy ===== *)
theory Worker_Properties
  imports Worker_Births Worker_Cap Cancel_Facts
begin

text \<open>
  The properties of cancellation and of workers, over every order of what threads do.  \<open>calm\<close> is a
  host among whom nobody else moves, \<open>ending\<close> one where every worker ends at once; the witnesses run
  over them.
\<close>

section \<open>Hosts\<close>

definition calm :: others where
  "calm =
     \<lparr>moves = (\<lambda>i n. n), clock = (\<lambda>i. Instant i i), put = (\<lambda>e b sh. (Done (), sh)),
      protects = (\<lambda>s v sh. (Done v, sh))\<rparr>"

lemma calm_relies: "relies calm"
  by (simp add: calm_def relies_def)

lemma calm_clock: "clock_runs calm"
  by (auto simp: clock_runs_def calm_def)

definition all_end :: "'v worker_end \<Rightarrow> 'v pool \<Rightarrow> 'v pool" where
  "all_end e w = w\<lparr>handles := map (\<lambda>v. (publish e (Instant 0 0) v)\<lparr>h_permit := False\<rparr>) (handles w)\<rparr>"

definition ending :: others where
  "ending = calm\<lparr>moves := (\<lambda>i n. n\<lparr>pool_of := all_end (EndOk UnitVal) (pool_of n)\<rparr>)\<rparr>"

lemma all_end_drifts: "drifts n (n\<lparr>pool_of := all_end e (pool_of n)\<rparr>)"
  by (rule drifts_pool)
    (auto simp: all_end_def pool_ok_def pool_later_def spent_ok spent_later publish_later)

lemma ending_relies: "relies ending"
  using all_end_drifts by (simp add: ending_def calm_def relies_def)

lemma ending_clock: "clock_runs ending"
  by (auto simp: clock_runs_def ending_def calm_def)

lemma ending_ends: "workers_end ending"
proof -
  have "h_cell (publish e now v) \<noteq> Running" for e now and v :: "rvalue handle"
    using publish_ends(1) [of e now v] by (auto simp: cell_ended_def)
  then show ?thesis by (auto simp: workers_end_def ending_def all_end_def)
qed

text \<open>A gather with one child that runs, under the node of its session.\<close>

definition one_tree :: scopes where
  "one_tree = snd (scope_child 0 (snd (root_new [])))"

definition one_child :: waiter where
  "one_child =
     \<lparr>sh_env = SmallEnv [], sh_sig = \<lparr>natives = [], prelude = []\<rparr>, sh_overrides = [], sh_cwd = ''/'',
      sh_grants = stack_root, sh_handlers = hs_over [] [], sh_stdout = TerminalSink,
      sh_stderr = StderrSink, sh_buffers = [], sh_scope = 0, sh_sources = 0, sh_stack_limit = 8,
      sh_audit = \<lparr>trail = None, capture_policy = PolicyOff, call_site = Resolved ''ral'' '''' 0 0\<rparr>,
      sh_cradle = 0, sh_depth = 0,
      sh_world =
        \<lparr>turn = 0,
         nursery =
           \<lparr>pool_of = snd (handle_new 7 ''build'' 1 (Instant 0 0) \<lparr>handles = [], nodes = one_tree\<rparr>),
            broods = [\<lparr>b_owner = OfGather, b_open = True, b_children = \<lparr>c_items = [0], c_sweep_at = 32\<rparr>\<rparr>],
            roster = registry_new\<rparr>\<rparr>\<rparr>"

lemma one_tree_ok: "scopes_ok one_tree"
  by (auto simp: one_tree_def root_new_def scope_child_def scope_mint_def vertex_new_def scopes_ok_def vertex_ok_def
      nth_Cons' )

lemma one_child_sound: "sound_at one_child"
  using one_tree_ok
  by (simp add: sound_at_def one_child_def nursery_ok_def pool_ok_def handle_new_def handle_ok_def
      cell_ended_def) (simp add: one_tree_def root_new_def scope_child_def scope_mint_def)

lemma one_child_brood: "has_brood 0 one_child"
  by (simp add: has_brood_def one_child_def)

section \<open>Cancellation\<close>

text \<open>
  C12. Cancellation is never taken back: over a tree any writers have made, a read of a scope does not
  panic, and once it answers a cause, a later read answers that one or a stronger, though it reads the
  chain node by node while others write between.
\<close>

theorem cancellation_is_never_taken_back:
  assumes "scope_steps (snd (root_new [])) w" "n < length w"
    and "map fst rs = scope_chain w n" "\<forall>(m, t', w')\<in>set rs. t \<le> t' \<and> scope_steps w w'"
  shows "(\<exists>r. fold_reads rs = Some r) \<and>
     (case scope_in_force t w n of
        None \<Rightarrow> False
      | Some None \<Rightarrow> True
      | Some (Some (c, m)) \<Rightarrow> \<exists>j d. fold_reads rs = Some (Some j) \<and> cause_of (f_code j) = Some d \<and> cause_code c \<le> cause_code d)"
proof -
  have ok: "scopes_ok w" by (rule scope_steps_ok [OF assms(1) root_ok])
  have reads: "\<forall>(m, t', w')\<in>set rs. t \<le> t' \<and> scopes_ok w' \<and> later w w'"
    using assms(4) ok by (auto intro: scope_steps_ok scope_steps_later)
  obtain r where r: "fold_reads rs = Some r" "\<forall>j. r = Some j \<longrightarrow> 0 < f_code j \<and> f_code j \<le> 6"
    using fold_chain_total [OF ok assms(2,3) reads] by blast
  obtain q where q: "scope_resolve t w n = Some q"
    "case q of None \<Rightarrow> scope_in_force t w n = Some None
     | Some j \<Rightarrow> \<exists>c. cause_code c = f_code j \<and> scope_in_force t w n = Some (Some (c, f_node j))"
    by (rule in_force_read [OF ok assms(2)])
  show ?thesis
  proof (cases q)
    case (Some j)
    with fold_reads_later [OF ok assms(2,3) reads] q(1) r(1) obtain k where
      "r = Some k" "f_code j \<le> f_code k" by auto
    with r q(2) Some cause_of_code [of "f_code k"] show ?thesis by auto
  qed (use q(2) r in auto)
qed

definition struck_tree :: scopes where
  "struck_tree = scope_cancel 0 Interrupted 3 (snd (root_new []))"

lemma struck_steps: "scope_steps (snd (root_new [])) struck_tree"
  unfolding struck_tree_def by (rule scope_cancel_steps) (simp add: root_new_def scope_mint_def)

lemma struck_again: "scope_steps struck_tree (scope_cancel 0 TimedOut 8 struck_tree)"
  by (rule scope_cancel_steps)
    (simp add: struck_tree_def root_new_def scope_mint_def scope_cancel_def raise_flag_def strike_def)

lemmas striking = struck_tree_def root_new_def scope_mint_def vertex_new_def scope_cancel_def raise_flag_def
  strike_def join_node_def scope_chain.simps [of _ 0] cause_of_def scope_in_force_def scope_resolve_def

theorem cancellation_is_never_taken_back_witness:
  "scope_in_force 5 struck_tree 0 = Some (Some (Interrupted, 0)) \<and>
     (\<exists>j d. fold_reads [(0, 9, scope_cancel 0 TimedOut 8 struck_tree)] = Some (Some j)
        \<and> cause_of (f_code j) = Some d \<and> cause_code Interrupted \<le> cause_code d)"
proof -
  have chain: "scope_chain struck_tree 0 = [0]" by (simp add: striking)
  have now: "scope_in_force 5 struck_tree 0 = Some (Some (Interrupted, 0))" by (simp add: striking)
  have "0 < length struck_tree" by (simp add: striking)
  from cancellation_is_never_taken_back [OF struck_steps this,
      of "[(0, 9, scope_cancel 0 TimedOut 8 struck_tree)]" 5] struck_again
  show ?thesis by (simp add: chain now)
qed

text \<open>
  C16. What is in force on a scope with no shield above it is the strongest cause of its chain, and its
  owner the outermost node whose own flag is that strong; nothing is in force where no flag is up.
\<close>

theorem strongest_cause_is_in_force:
  assumes "scope_steps (snd (root_new [])) w" "n < length w"
    and "\<forall>m\<in>set (scope_chain w n). v_shield (w ! m) = None"
  shows "case scope_in_force t w n of
           None \<Rightarrow> False
         | Some None \<Rightarrow> Max (flag_of w ` set (scope_chain w n)) = 0
         | Some (Some (c, m)) \<Rightarrow>
             cause_code c = Max (flag_of w ` set (scope_chain w n))
             \<and> m = last (filter (\<lambda>m. flag_of w m = cause_code c) (scope_chain w n))"
proof -
  let ?ms = "scope_chain w n"
  have ok: "scopes_ok w" by (rule scope_steps_ok [OF assms(1) root_ok])
  have "m < length w" if "m \<in> set ?ms" for m
    using scope_chain_below [OF ok assms(2) that] assms(2) by (rule le_less_trans)
  then have "\<forall>m\<in>set ?ms. v_shield (w ! m) = None \<and> (v_flag (w ! m) \<noteq> 0 \<longrightarrow> v_since (w ! m) \<noteq> None)"
    using ok assms(3) by (auto simp: scopes_ok_def vertex_ok_def)
  note reads = unshielded_reads [OF this, of t, folded scope_resolve_def]
  have top: "strongest w ?ms = Max (flag_of w ` set ?ms)"
    by (simp add: strongest_def Max_insert [of "flag_of w ` set ?ms" 0] scope_chain_not_empty)
  obtain q where q: "scope_resolve t w n = Some q"
    "case q of None \<Rightarrow> scope_in_force t w n = Some None
     | Some j \<Rightarrow> \<exists>c. cause_code c = f_code j \<and> scope_in_force t w n = Some (Some (c, f_node j))"
    by (rule in_force_read [OF ok assms(2)])
  with reads top show ?thesis by (cases q) (auto simp: outermost_def)
qed

theorem strongest_cause_is_in_force_witness:
  "scope_in_force 5 struck_tree 0 = Some (Some (Interrupted, 0))
     \<and> cause_code Interrupted = Max (flag_of struck_tree ` set (scope_chain struck_tree 0))"
proof -
  have chain: "scope_chain struck_tree 0 = [0]" by (simp add: striking)
  have now: "scope_in_force 5 struck_tree 0 = Some (Some (Interrupted, 0))" by (simp add: striking)
  have "0 < length struck_tree" "v_shield (struck_tree ! 0) = None" by (simp_all add: striking)
  with strongest_cause_is_in_force [OF struck_steps, of 0 5] show ?thesis by (simp add: chain now)
qed

section \<open>Results\<close>

text \<open>
  C5. A worker's result is taken at most once, and it is what the worker did: in whatever order threads
  write, end, drop, claim and stop, what is taken of a handle, delivered to a claimer or discarded by a
  stop, is the bytes written before its end, as the buffers keep them, with the ending published, or
  the panic of a permit dropped.
\<close>

theorem result_is_taken_once:
  assumes "fresh h t w" "legal acts w"
  shows "taken_of h acts w = [] \<or> (\<exists>c. promised h t acts = Some c \<and> taken_of h acts w = [c])"
  using stands_after [OF assms] by (auto simp: stands_def split: option.splits)

definition one_worker :: "rvalue pool" where
  "one_worker = snd (handle_new 7 ''build'' 1 (Instant 0 0) \<lparr>handles = [], nodes = one_tree\<rparr>)"

definition worker_story :: "rvalue deed list" where
  "worker_story =
     [Wrote 0 False ''ok'', Claimed 0, Finished 0 (EndOk UnitVal) (Instant 4 4), Wrote 0 False ''late'',
      Claimed 0, Halted 0 (Instant 5 5), Claimed 0]"

theorem result_is_taken_once_witness:
  "taken_of 0 worker_story one_worker = [\<lparr>c_stdout = ''ok'', c_stderr = [], c_end = EndOk UnitVal\<rparr>]"
proof -
  note run = worker_story_def one_worker_def handle_new_def worker_write_def on_handle_def permit_finish_def
    permit_drop_def publish_def publish_abandoned_def install_terminal_def captured_take_def cell_ended_def
    claim_ready_def claim_and_stop_def
  have fresh: "fresh 0 ''build'' one_worker" by (simp add: fresh_def one_worker_def handle_new_def)
  have "legal worker_story one_worker" "taken_of 0 worker_story one_worker \<noteq> []" by (simp_all add: run)
  moreover have "promised 0 ''build'' worker_story = Some \<lparr>c_stdout = ''ok'', c_stderr = [], c_end = EndOk UnitVal\<rparr>"
    by (simp add: worker_story_def promised_def ends_it_def writes_of_def List.map_filter_def retained_def
        ending_of_def sink_buffer_cap_def)
  ultimately show ?thesis using result_is_taken_once [OF fresh, of worker_story] by auto
qed

text \<open>
  C15. A worker seen stopping has been signalled: in whatever order threads act, when a handle's cell
  reads stopping, a read of its node's scope answers a cause no weaker than a cancellation, whatever
  the shields above it; and its permit is still to be spent.
\<close>

theorem stopping_worker_is_signalled:
  assumes "pool_ok w" "legal acts w" "h < length (handles (history_run acts w))"
    and "h_cell (handles (history_run acts w) ! h) = Stopping"
  shows "h_permit (handles (history_run acts w) ! h) \<and>
     (\<exists>c m. scope_in_force t (nodes (history_run acts w)) (h_node (handles (history_run acts w) ! h)) = Some (Some (c, m))
        \<and> cause_code Cancelled \<le> cause_code c)"
proof -
  let ?w = "history_run acts w" and ?v = "handles (history_run acts w) ! h"
  have ok: "pool_ok ?w" by (rule history_ok [OF assms(2,1)])
  then have v: "handle_ok (nodes ?w) ?v" using assms(3) by (simp add: pool_ok_def)
  then have up: "cause_code Cancelled \<le> v_flag (nodes ?w ! h_node ?v)" "h_permit ?v" "h_node ?v < length (nodes ?w)"
    using assms(4) by (simp_all add: handle_ok_def cell_ended_def)
  moreover have "scopes_ok (nodes ?w)" using ok by (simp add: pool_ok_def)
  ultimately obtain c m where "scope_in_force t (nodes ?w) (h_node ?v) = Some (Some (c, m))"
    "v_flag (nodes ?w ! h_node ?v) \<le> cause_code c"
    using own_flag_in_force [of "nodes ?w" "h_node ?v" t] by auto
  with up show ?thesis by auto
qed

lemma one_worker_ok: "pool_ok one_worker"
  using one_child_sound by (simp add: sound_at_def one_child_def nursery_ok_def one_worker_def)

theorem stopping_worker_is_signalled_witness:
  "\<exists>c m. scope_in_force 9 (nodes (worker_act (Halted 0 (Instant 5 5)) one_worker)) 1 = Some (Some (c, m))
     \<and> cause_code Cancelled \<le> cause_code c"
proof -
  let ?w = "worker_act (Halted 0 (Instant 5 5)) one_worker"
  have "h_cell (handles ?w ! 0) = Stopping" "h_node (handles ?w ! 0) = 1" "length (handles one_worker) = 1"
    "length (handles ?w) = 1"
    by (simp_all add: one_worker_def handle_new_def claim_and_stop_def on_handle_def)
  with stopping_worker_is_signalled [OF one_worker_ok, of "[Halted 0 (Instant 5 5)]" 0 9] show ?thesis
    by (simp del: worker_act.simps)
qed

section \<open>Gathers\<close>

text \<open>
  C4. A gather leaves nothing running: however its body ended and whatever the other threads do, once
  its exit has returned or unwound its membership is closed over children of which none is running,
  and so it stays at every later moment; an exit that returned had that before its owner was dropped.
  A worker leaves nothing of its body's running either, whatever its body came to, a panic included.
\<close>

theorem gather_leaves_nothing_running:
  assumes "relies E" "sound_at sh" "has_brood b sh"
  shows "(\<forall>k body r sh' sh''. leave_brood k E b grace body sh = Some (r, sh') \<and> onwards sh' sh'' \<longrightarrow> hushed b sh'') \<and>
     (\<forall>k body r sh'. exit_brood k E b grace body sh = Some (r, sh') \<and> r \<noteq> Panicked \<longrightarrow> hushed b sh') \<and>
     (\<forall>k home session panic i work e sh'.
        (\<forall>b s. onwards s (snd (work b s))) \<and> worker_base k E grace home session panic i work sh = Some (e, sh')
          \<longrightarrow> (\<exists>b. \<not> has_brood b sh \<and> hushed b sh'))"
proof (intro conjI allI impI; elim conjE)
  fix k home session panic i work e sh'
  assume "\<forall>b s. onwards s (snd (work b s))" "worker_base k E grace home session panic i work sh = Some (e, sh')"
  then show "\<exists>b. \<not> has_brood b sh \<and> hushed b sh'"
    using base_quiets [OF assms(1,2), of work] by blast
qed (use leave_stays_quiet [OF assms] exit_quiets [OF assms] in blast)+

theorem gather_leaves_nothing_running_witness:
  "\<exists>k sh'. leave_brood k calm 0 0 (Inl (EscapeB (Exit 3))) one_child = Some (Broke (EscapeB (Exit 3)), sh') \<and> hushed 0 sh'"
proof -
  from halted_exit_settles [OF calm_clock, of 0 0 "EscapeB (Exit 3)" one_child] obtain sh' k where
    "leave_brood k calm 0 0 (Inl (EscapeB (Exit 3))) one_child = Some (Broke (EscapeB (Exit 3)), sh')"
    by (blast dest: settles_some)
  moreover from this have "hushed 0 sh'"
    using gather_leaves_nothing_running [OF calm_relies one_child_sound one_child_brood, of 0] onwards_refl by blast
  ultimately show ?thesis by blast
qed

text \<open>
  C9. No birth escapes its gather: a worker born into a brood, at whatever moment of its owner's exit,
  is not running once the brood is quiet, whether it was accepted, came too late and was stopped by
  its own birth, or ended and was claimed in between; and neither is any handle enrolled by hand.
\<close>

theorem no_birth_escapes_its_gather:
  assumes "relies E" "sound_at sh" "has_brood b sh"
  shows "(\<forall>cr cap verb said i started h sh' sh''.
       under_at cr sh \<and> cr_brood cr = Some b \<and> spawn_child E cap cr verb said i started sh = (Done h, sh')
         \<and> onwards sh' sh'' \<and> hushed b sh'' \<longrightarrow> stopped_at h sh'') \<and>
     (\<forall>h sh''. has_handle h sh \<and> onwards (snd (enrol E b h sh)) sh'' \<and> hushed b sh'' \<longrightarrow> stopped_at h sh'')"
proof (intro conjI allI impI; elim conjE)
  fix cr cap verb said i started h sh' sh''
  assume cr: "under_at cr sh" "cr_brood cr = Some b" "spawn_child E cap cr verb said i started sh = (Done h, sh')"
    and q: "onwards sh' sh''" "hushed b sh''"
  from spawn_answered [OF assms(1,2) cr(1) assms(3) cr(2,3)]
  have a: "answered b h sh'" "onwards sh sh'" "has_brood b sh'" by auto
  have "answered b h sh''"
    by (rule answered_later [OF a(1) q(1) onwards_sound [OF a(2) assms(2)] a(3)])
  with q(2) show "stopped_at h sh''" by (rule quiet_answered)
next
  fix h sh''
  assume h: "has_handle h sh" and q: "onwards (snd (enrol E b h sh)) sh''" "hushed b sh''"
  have on: "onwards sh (snd (enrol E b h sh))" by (rule enrol_onwards [OF assms(1) h])
  have "answered b h sh''"
    by (rule answered_later [OF enrol_answers [OF assms(1,2) h assms(3)] q(1) onwards_sound [OF on assms(2)]
        brood_stays [OF assms(3) on assms(2)]])
  with q(2) show "stopped_at h sh''" by (rule quiet_answered)
qed

theorem no_birth_escapes_its_gather_witness:
  "stopped_at 0 (owner_stop calm 0 (snd (enrol calm 0 0 one_child)))"
proof -
  have h: "has_handle 0 one_child" by (simp add: has_handle_def one_child_def handle_new_def)
  have on: "onwards one_child (snd (enrol calm 0 0 one_child))" by (rule enrol_onwards [OF calm_relies h])
  have "hushed 0 (owner_stop calm 0 (snd (enrol calm 0 0 one_child)))"
    by (rule stop_quiets [OF calm_relies onwards_sound [OF on one_child_sound]
        brood_stays [OF one_child_brood on one_child_sound]])
  with no_birth_escapes_its_gather [OF calm_relies one_child_sound one_child_brood] h
    stop_onwards [OF calm_relies] show ?thesis by blast
qed

text \<open>
  C10. A gather comes to an end: where the clock passes every deadline, a body that halted is left with
  its halt in finitely many rounds of waiting, whatever its children do; and where every worker comes
  to end or be claimed, so is any body.
\<close>

theorem gather_comes_to_an_end:
  assumes "relies E" "clock_runs E" "sound_at sh" "has_brood b sh"
  shows "(\<forall>e. \<exists>sh'. settles (\<lambda>k. leave_brood k E b grace (Inl e) sh) (Broke e, sh')) \<and>
     (workers_end E \<longrightarrow> (\<forall>body. \<exists>r. settles (\<lambda>k. leave_brood k E b grace body sh) r))"
  using halted_exit_settles [OF assms(2)] exit_settles [OF _ assms(2,1,3,4)] by blast

theorem gather_comes_to_an_end_witness:
  "\<exists>r. settles (\<lambda>k. leave_brood k ending 0 5 (Inr UnitVal) one_child) r"
  using gather_comes_to_an_end [OF ending_relies ending_clock one_child_sound one_child_brood, of 5] ending_ends
  by blast

section \<open>The registry\<close>

text \<open>
  C13. Workers stay within the cap: where every birth reserves under a cap of at most \<open>c\<close>, then in
  whatever order threads reserve, give seats back, bear, file, end, claim, stop, read and sweep, at
  most \<open>c\<close> workers are running or stopping, those whose entry is still to be filed included.
\<close>

theorem workers_stay_within_the_cap:
  assumes "(staff_step c)\<^sup>*\<^sup>* (staff_new \<lparr>handles = [], nodes = ns\<rparr>) s"
  shows "card {h. h < length (handles (st_pool s)) \<and> is_live (handle_sample h (st_pool s))} \<le> c"
  using staff_ok_cap [OF staff_steps_ok [OF assms staff_new_ok]] by (simp add: live_at_def)

definition hired :: "rvalue staff" where
  "hired =
     \<lparr>st_pool = worker_act (Born 7 ''build'' 0 (Instant 0 0)) \<lparr>handles = [], nodes = one_tree\<rparr>,
      st_registry = registry_new\<lparr>r_reserved := 1\<rparr>, st_seats = 0, st_born = [0]\<rparr>"

lemma hired_reached: "(staff_step 1)\<^sup>*\<^sup>* (staff_new \<lparr>handles = [], nodes = one_tree\<rparr>) hired"
proof -
  let ?s = "staff_new \<lparr>handles = [], nodes = one_tree\<rparr> :: rvalue staff"
  let ?t = "?s\<lparr>st_registry := registry_new\<lparr>r_reserved := 1\<rparr>, st_seats := Suc (st_seats ?s)\<rparr>"
  have "staff_step 1 ?s ?t"
    by (rule staff_step.admitted [of 1])
      (simp_all add: staff_new_def reserve_def registry_new_def compacting_new_def compacting_prune_def
        compacting_observed_def)
  moreover have "staff_step 1 ?t hired"
    using staff_step.born [where s = ?t and n = 0 and i = 7 and t = "''build''" and m = 0 and now = "Instant 0 0" and c = 1]
    by (simp add: staff_new_def hired_def one_tree_def root_new_def scope_child_def scope_mint_def)
  ultimately show ?thesis by simp
qed

theorem workers_stay_within_the_cap_witness:
  "is_live (handle_sample 0 (st_pool hired))
     \<and> card {h. h < length (handles (st_pool hired)) \<and> is_live (handle_sample h (st_pool hired))} \<le> 1"
  using workers_stay_within_the_cap [OF hired_reached]
  by (simp add: hired_def handle_new_def case_prod_beta handle_sample_def cell_sample_def is_live_def)

text \<open>
  C17. A sweep reaps only a result nobody is going to join: an entry a retention sweep drops was
  consumed, or it was ready, first seen so at least the retention ago, and born neither in a gather
  nor inside a worker that is still live.
\<close>

theorem sweep_reaps_only_settled_results:
  assumes "(staff_step c)\<^sup>*\<^sup>* (staff_new \<lparr>handles = [], nodes = ns\<rparr>) s"
    and "r_retention (st_registry s) = Some retention" "e \<in> set (c_items (r_entries (st_registry s)))"
    and "e_handle e \<notin> e_handle ` set (c_items (r_entries (sweep_retention (st_pool s) (st_registry s))))"
  shows "handle_sample (e_handle e) (st_pool s) = SConsumed \<or>
     handle_sample (e_handle e) (st_pool s) = SReady () \<and> e_owner e \<noteq> OwnGather \<and>
     (\<exists>since. e_settled e = Some since \<and> retention \<le> r_epoch (st_registry s) - since) \<and>
     \<not> (\<exists>x\<in>set (c_items (r_entries (st_registry s))).
          e_owner e = OwnWorker (h_id (handles (st_pool s) ! e_handle x))
          \<and> is_live (handle_sample (e_handle x) (st_pool s)))"
proof -
  have "staff_ok c s" by (rule staff_steps_ok [OF assms(1) staff_new_ok])
  then have "distinct (map h_id (handles (st_pool s)))"
    "\<forall>h\<in>set (filed_handles (st_registry s)). h < length (handles (st_pool s))"
    by (simp_all add: staff_ok_def Let_def)
  from reaped_ready [OF this assms(2,3)] assms(4) show ?thesis by (simp add: filed_handles_def live_at_def)
qed

text \<open>The one worker ends, its entry is filed, a retention of no calls is armed, and one sweep is past.\<close>

definition the_entry :: worker_entry where
  "the_entry = \<lparr>e_owner = OwnSession, e_settled = None, e_handle = 0\<rparr>"

definition over :: "rvalue pool" where
  "over = worker_act (Finished 0 (EndOk UnitVal) (Instant 4 4)) (st_pool hired)"

lemma over_ready: "handle_sample 0 over = SReady ()"
  by (simp add: over_def hired_def handle_sample_def cell_sample_def permit_finish_def permit_drop_def
      publish_def publish_abandoned_def install_terminal_def captured_take_def on_handle_def cell_ended_def
      handle_new_def case_prod_beta)

definition staff_over :: "registry \<Rightarrow> nat list \<Rightarrow> rvalue staff" where
  "staff_over g born = \<lparr>st_pool = over, st_registry = g, st_seats = 0, st_born = born\<rparr>"

definition with_entry :: "worker_entry \<Rightarrow> registry" where
  "with_entry e = registry_new\<lparr>r_entries := \<lparr>c_items = [e], c_sweep_at = min_sweep_at\<rparr>\<rparr>"

lemma with_entry_fields:
  "c_items (r_entries (with_entry e)) = [e]" "r_epoch (with_entry e) = 0" "r_notices (with_entry e) = []"
  by (simp_all add: with_entry_def registry_new_def)

lemma registered: "register the_entry over (registry_new\<lparr>r_reserved := 1\<rparr>) = with_entry the_entry"
  using over_ready
  by (simp add: register_def release_seat_def registry_new_def compacting_new_def compacting_push_def
      with_entry_def the_entry_def min_sweep_at_def)

lemma swept_once:
  "sweep_retention over (arm_retention 0 (with_entry the_entry))
     = (arm_retention 0 (with_entry (the_entry\<lparr>e_settled := Some 0\<rparr>)))"
  using over_ready
  by (simp add: sweep_retention_def arm_retention_def with_entry_def registry_new_def registry_retained_def
      compacting_prune_def ids_with_def entry_held_def verdict_def the_entry_def min_sweep_at_def image_iff)

lemma swept_twice:
  "c_items (r_entries (sweep_retention over (arm_retention 0 (with_entry (the_entry\<lparr>e_settled := Some 0\<rparr>))))) = []"
  using over_ready
  by (simp add: sweep_retention_def arm_retention_def with_entry_def registry_new_def registry_retained_def
      compacting_prune_def ids_with_def entry_held_def verdict_def the_entry_def min_sweep_at_def image_iff)

lemma rested_reached:
  "(staff_step 1)\<^sup>*\<^sup>* (staff_new \<lparr>handles = [], nodes = one_tree\<rparr>)
     (staff_over (arm_retention 0 (with_entry (the_entry\<lparr>e_settled := Some 0\<rparr>))) [])"
proof -
  have "staff_step 1 hired (staff_over (registry_new\<lparr>r_reserved := 1\<rparr>) [0])"
    using staff_step.acted [of "Finished 0 (EndOk UnitVal) (Instant 4 4)" hired 1]
    by (simp add: staff_over_def over_def hired_def not_born_def handle_new_def case_prod_beta)
  moreover have "staff_step 1 (staff_over (registry_new\<lparr>r_reserved := 1\<rparr>) [0]) (staff_over (with_entry the_entry) [])"
    using staff_step.filed [of the_entry "staff_over (registry_new\<lparr>r_reserved := 1\<rparr>) [0]" 1] registered
    by (simp add: staff_over_def the_entry_def)
  moreover have "staff_step 1 (staff_over (with_entry the_entry) []) (staff_over (arm_retention 0 (with_entry the_entry)) [])"
    using staff_step.armed [of 1 "staff_over (with_entry the_entry) []" 0] by (simp add: staff_over_def)
  moreover have "staff_step 1 (staff_over (arm_retention 0 (with_entry the_entry)) [])
      (staff_over (arm_retention 0 (with_entry (the_entry\<lparr>e_settled := Some 0\<rparr>))) [])"
    using staff_step.swept [of 1 "staff_over (arm_retention 0 (with_entry the_entry)) []"] swept_once
    by (simp add: staff_over_def)
  ultimately show ?thesis
    using hired_reached by (meson rtranclp.rtrancl_into_rtrancl)
qed

theorem sweep_reaps_only_settled_results_witness:
  "handle_sample 0 over = SReady () \<and>
     c_items (r_entries (sweep_retention over (arm_retention 0 (with_entry (the_entry\<lparr>e_settled := Some 0\<rparr>))))) = []"
proof -
  let ?g = "arm_retention 0 (with_entry (the_entry\<lparr>e_settled := Some 0\<rparr>))"
  have "r_retention ?g = Some 0" "c_items (r_entries ?g) = [the_entry\<lparr>e_settled := Some 0\<rparr>]"
    by (simp_all add: arm_retention_def with_entry_fields)
  with sweep_reaps_only_settled_results [OF rested_reached, of 0 "the_entry\<lparr>e_settled := Some 0\<rparr>"] swept_twice over_ready
  show ?thesis by (simp add: staff_over_def the_entry_def)
qed

end
